(* ===== verification/Go_Prelude.thy ===== *)
theory Go_Prelude
  imports Main "HOL-Library.Char_ord" "HOL-Library.List_Lexorder" "HOL-Library.AList"
    "HOL-Library.Multiset" "HOL-Library.Sublist"
begin

text \<open>
  Shared vocabulary of the development: Go's two-valued returns as sums, \<open>int64\<close> arithmetic with
  its wrap-around, Go maps as association lists with distinct keys, and the loops the packages
  repeat (first-occurrence deduplication, sorting a map's values by key).
  The facts collected in \<open>res_simps\<close> and \<open>gomap_simps\<close> carry the component proofs.
\<close>

named_theorems res_simps \<open>sequencing of fallible Go calls\<close>
named_theorems gomap_simps \<open>Go maps as association lists\<close>

section \<open>Fallible calls\<close>

text \<open>A Go call returning \<open>(T, error)\<close> is \<open>'e + 't\<close>; \<open>and_then\<close> is the \<open>if err != nil { return }\<close>
  idiom.\<close>

definition and_then :: "'e + 'a \<Rightarrow> ('a \<Rightarrow> 'e + 'b) \<Rightarrow> 'e + 'b" where
  "and_then m f = (case m of Inl e \<Rightarrow> Inl e | Inr a \<Rightarrow> f a)"

definition check :: "bool \<Rightarrow> 'e \<Rightarrow> 'e + unit" where
  "check ok e = (if ok then Inr () else Inl e)"

lemma and_then_Inl [simp]: "and_then (Inl e) f = Inl e"
  by (simp add: and_then_def)

lemma and_then_Inr [simp]: "and_then (Inr a) f = f a"
  by (simp add: and_then_def)

lemma and_then_eq_Inr [res_simps]: "and_then m f = Inr b \<longleftrightarrow> (\<exists>a. m = Inr a \<and> f a = Inr b)"
  by (cases m) simp_all

lemma and_thenE:
  assumes "and_then m f = Inr b"
  obtains a where "m = Inr a" "f a = Inr b"
  using assms by (auto simp: and_then_eq_Inr)

lemma and_then_eq_Inl [res_simps]:
  "and_then m f = Inl e \<longleftrightarrow> m = Inl e \<or> (\<exists>a. m = Inr a \<and> f a = Inl e)"
  by (cases m) simp_all

lemma check_eq_Inr [res_simps]: "check ok e = Inr u \<longleftrightarrow> ok"
  by (simp add: check_def)

lemma check_eq_Inl [res_simps]: "check ok e = Inl e' \<longleftrightarrow> \<not> ok \<and> e' = e"
  by (auto simp: check_def)

lemma check_True [simp]: "check True e = Inr ()"
  by (simp add: check_def)

lemma check_False [simp]: "check False e = Inl e"
  by (simp add: check_def)

text \<open>Wrapping the error of a call.\<close>

lemma map_sum_eq_Inr [res_simps]: "map_sum f g m = Inr b \<longleftrightarrow> (\<exists>a. m = Inr a \<and> b = g a)"
  by (cases m) auto

lemma map_sum_eq_Inl [res_simps]: "map_sum f g m = Inl e \<longleftrightarrow> (\<exists>e'. m = Inl e' \<and> e = f e')"
  by (cases m) auto

text \<open>A \<open>for\<close> loop that appends one fallible result per element and stops at the first error.\<close>

fun map_res :: "('a \<Rightarrow> 'e + 'b) \<Rightarrow> 'a list \<Rightarrow> 'e + 'b list" where
  "map_res f [] = Inr []"
| "map_res f (x # xs) = and_then (f x) (\<lambda>y. and_then (map_res f xs) (\<lambda>ys. Inr (y # ys)))"

lemma map_res_eq_Inr [res_simps]:
  "map_res f xs = Inr ys \<longleftrightarrow> list_all2 (\<lambda>x y. f x = Inr y) xs ys"
proof (induction xs arbitrary: ys)
  case Nil
  then show ?case by auto
next
  case (Cons x xs)
  then show ?case by (cases ys) (auto simp: res_simps)
qed

lemma map_res_memberE:
  assumes "map_res f xs = Inr ys" "y \<in> set ys"
  obtains x where "x \<in> set xs" "f x = Inr y"
proof -
  have "list_all2 (\<lambda>x y. f x = Inr y) xs ys" using assms(1) by (simp only: map_res_eq_Inr)
  then show thesis using assms(2) that by (induction rule: list_all2_induct) auto
qed

lemma map_res_coversE:
  assumes "map_res f xs = Inr ys" "x \<in> set xs"
  obtains y where "y \<in> set ys" "f x = Inr y"
proof -
  have "list_all2 (\<lambda>x y. f x = Inr y) xs ys" using assms(1) by (simp only: map_res_eq_Inr)
  then show thesis using assms(2) that by (induction rule: list_all2_induct) auto
qed

lemma map_res_length: "map_res f xs = Inr ys \<Longrightarrow> length ys = length xs"
  by (auto simp: res_simps dest: list_all2_lengthD)

lemma map_res_total: "(\<And>x. x \<in> set xs \<Longrightarrow> f x = Inr (g x)) \<Longrightarrow> map_res f xs = Inr (map g xs)"
  by (induction xs) simp_all

text \<open>A loop that threads a state through fallible iterations.\<close>

fun fold_res :: "('a \<Rightarrow> 's \<Rightarrow> 'e + 's) \<Rightarrow> 'a list \<Rightarrow> 's \<Rightarrow> 'e + 's" where
  "fold_res f [] s = Inr s"
| "fold_res f (x # xs) s = and_then (f x s) (fold_res f xs)"

lemma fold_res_invariant:
  assumes "fold_res f xs s = Inr t" and "P s"
    and "\<And>x u v. x \<in> set xs \<Longrightarrow> P u \<Longrightarrow> f x u = Inr v \<Longrightarrow> P v"
  shows "P t"
  using assms
proof (induction xs arbitrary: s)
  case Nil
  then show ?case by simp
next
  case (Cons x xs)
  from Cons.prems(1) obtain u where u: "f x s = Inr u" "fold_res f xs u = Inr t"
    by (auto simp: res_simps)
  have "P u" using Cons.prems(2,3) u(1) by auto
  then show ?case using Cons.IH [OF u(2)] Cons.prems(3) by auto
qed

lemma fold_res_append: "fold_res f (xs @ ys) s = and_then (fold_res f xs s) (fold_res f ys)"
  by (induction xs arbitrary: s) (auto simp: and_then_def split: sum.splits)

section \<open>64-bit integers\<close>

text \<open>Go's \<open>int64\<close> (and \<open>int\<close> on the supported 64-bit targets): values between \<open>-2^63\<close> and
  \<open>2^63 - 1\<close>, with two's-complement wrap-around written out.\<close>

definition max_int64 :: int where
  "max_int64 = 9223372036854775807"

definition wrap64 :: "int \<Rightarrow> int" where
  "wrap64 x = (x + 9223372036854775808) mod 18446744073709551616 - 9223372036854775808"

definition in_int64 :: "int \<Rightarrow> bool" where
  "in_int64 x \<longleftrightarrow> - 9223372036854775808 \<le> x \<and> x \<le> max_int64"

lemma wrap64_in_int64: "in_int64 (wrap64 x)"
proof -
  have "0 \<le> (x + 9223372036854775808) mod 18446744073709551616"
    by simp
  moreover have "(x + 9223372036854775808) mod 18446744073709551616 < 18446744073709551616"
    by simp
  ultimately show ?thesis by (simp add: in_int64_def wrap64_def max_int64_def)
qed

lemma wrap64_id: "in_int64 x \<Longrightarrow> wrap64 x = x"
  by (auto simp: wrap64_def in_int64_def max_int64_def)

lemma wrap64_Suc_max: "wrap64 (max_int64 + 1) = - 9223372036854775808"
  by (simp add: wrap64_def max_int64_def)

lemma wrap64_succ:
  assumes "in_int64 x"
  shows "wrap64 (x + 1) = (if x = max_int64 then - 9223372036854775808 else x + 1)"
  using assms by (auto simp: wrap64_Suc_max wrap64_id in_int64_def)

section \<open>Go maps\<close>

text \<open>
  A Go map is an association list with distinct keys. Its iteration order is unspecified in Go, so
  a function that ranges over a map is faithful only when its result does not depend on the order
  of the list; \<open>values_sorted_by_cong\<close> is the fact that gives it.
\<close>

type_synonym ('k, 'v) gomap = "('k \<times> 'v) list"

abbreviation gm_get :: "('k, 'v) gomap \<Rightarrow> 'k \<Rightarrow> 'v option" where
  "gm_get \<equiv> map_of"

abbreviation gm_set :: "'k \<Rightarrow> 'v \<Rightarrow> ('k, 'v) gomap \<Rightarrow> ('k, 'v) gomap" where
  "gm_set \<equiv> AList.update"

definition gm_wf :: "('k, 'v) gomap \<Rightarrow> bool" where
  "gm_wf m \<longleftrightarrow> distinct (map fst m)"

lemma gm_wf_Nil [gomap_simps, simp]: "gm_wf []"
  by (simp add: gm_wf_def)

lemma gm_wf_set [gomap_simps]: "gm_wf m \<Longrightarrow> gm_wf (gm_set k v m)"
  by (simp add: gm_wf_def distinct_update)

lemma gm_get_set [gomap_simps]: "gm_get (gm_set k v m) = (gm_get m)(k \<mapsto> v)"
  by (simp add: update_conv')

lemma gm_set_new: "k \<notin> fst ` set m \<Longrightarrow> gm_set k v m = m @ [(k, v)]"
  by (induction m) auto

lemma gm_get_iff: "gm_wf m \<Longrightarrow> gm_get m k = Some v \<longleftrightarrow> (k, v) \<in> set m"
  by (simp add: gm_wf_def map_of_eq_Some_iff)

lemma gm_dom: "gm_get m k = None \<longleftrightarrow> k \<notin> fst ` set m"
  by (simp add: map_of_eq_None_iff)

text \<open>Filling a map from a slice: later elements overwrite earlier ones.\<close>

fun gm_of_list :: "('a \<Rightarrow> 'k) \<Rightarrow> ('a \<Rightarrow> 'v) \<Rightarrow> 'a list \<Rightarrow> ('k, 'v) gomap \<Rightarrow> ('k, 'v) gomap" where
  "gm_of_list kf vf [] m = m"
| "gm_of_list kf vf (x # xs) m = gm_of_list kf vf xs (gm_set (kf x) (vf x) m)"

lemma gm_wf_of_list [gomap_simps]: "gm_wf m \<Longrightarrow> gm_wf (gm_of_list kf vf xs m)"
  by (induction xs arbitrary: m) (simp_all add: gomap_simps)

lemma gm_get_of_list_notin:
  "k \<notin> kf ` set xs \<Longrightarrow> gm_get (gm_of_list kf vf xs m) k = gm_get m k"
  by (induction xs arbitrary: m) (auto simp: gomap_simps)

lemma gm_get_of_list:
  "distinct (map kf xs) \<Longrightarrow> x \<in> set xs \<Longrightarrow> gm_get (gm_of_list kf vf xs m) (kf x) = Some (vf x)"
proof (induction xs arbitrary: m)
  case Nil
  then show ?case by simp
next
  case (Cons y ys)
  show ?case
  proof (cases "x = y")
    case True
    with Cons.prems show ?thesis by (simp add: gm_get_of_list_notin gomap_simps)
  next
    case False
    with Cons.prems show ?thesis by (simp add: Cons.IH)
  qed
qed

lemma gm_dom_of_list: "fst ` set (gm_of_list kf vf xs m) = kf ` set xs \<union> fst ` set m"
  by (induction xs arbitrary: m) (auto simp: dom_update)

lemma gm_get_of_list_Some:
  "gm_get (gm_of_list kf vf xs m) k = Some v \<Longrightarrow>
     (\<exists>x \<in> set xs. k = kf x \<and> v = vf x) \<or> gm_get m k = Some v"
  by (induction xs arbitrary: m) (fastforce simp: gomap_simps split: if_splits)+

text \<open>Collecting a map's values and sorting them by key, as \<open>slices.SortFunc\<close> over a map range.\<close>

definition values_sorted_by :: "('k::linorder, 'v) gomap \<Rightarrow> 'v list" where
  "values_sorted_by m = map snd (sort_key fst m)"

lemma set_values_sorted_by: "set (values_sorted_by m) = snd ` set m"
  by (simp add: values_sorted_by_def)

lemma length_values_sorted_by: "length (values_sorted_by m) = length m"
  by (simp add: values_sorted_by_def)

lemma sorted_distinct_pairs_unique:
  fixes xs ys :: "('k::linorder \<times> 'v) list"
  assumes "sorted (map fst xs)" "distinct (map fst xs)"
    and "sorted (map fst ys)" "distinct (map fst ys)" and "set xs = set ys"
  shows "xs = ys"
proof -
  have "inj_on fst (set xs \<union> set ys)"
    using assms(2,5) by (simp add: distinct_map)
  then show ?thesis
    using assms by (metis map_sorted_distinct_set_unique)
qed

lemma gm_set_eq:
  assumes "gm_wf m" "gm_wf m'" "gm_get m = gm_get m'"
  shows "set m = set m'"
  using assms by (metis gm_wf_def map_of_inject_set)

lemma values_sorted_by_cong:
  assumes "gm_wf m" "gm_wf m'" "gm_get m = gm_get m'"
  shows "values_sorted_by m = values_sorted_by m'"
proof -
  have "set m = set m'" by (rule gm_set_eq [OF assms])
  moreover have "distinct (map fst (sort_key fst m))" "distinct (map fst (sort_key fst m'))"
    using assms(1,2) by (simp_all add: gm_wf_def distinct_map)
  ultimately have "sort_key fst m = sort_key fst m'"
    by (intro sorted_distinct_pairs_unique) simp_all
  then show ?thesis by (simp add: values_sorted_by_def)
qed

section \<open>Keeping first occurrences\<close>

text \<open>The \<open>seen\<close>-map loop shared by \<open>uniqueSources\<close>, \<open>dedupeMemories\<close> and their kin.\<close>

fun first_by :: "('a \<Rightarrow> 'k) \<Rightarrow> 'k list \<Rightarrow> 'a list \<Rightarrow> 'a list" where
  "first_by key seen [] = []"
| "first_by key seen (x # xs) =
     (if key x \<in> set seen then first_by key seen xs else x # first_by key (key x # seen) xs)"

lemma first_by_keys: "key ` set (first_by key seen xs) = key ` set xs - set seen"
  by (induction xs arbitrary: seen) auto

lemma first_by_subset: "set (first_by key seen xs) \<subseteq> set xs"
  by (induction xs arbitrary: seen) auto

lemma first_by_seen: "x \<in> set (first_by key seen xs) \<Longrightarrow> key x \<notin> set seen"
  using first_by_keys [of key seen xs] by blast

lemma first_by_distinct: "distinct (map key (first_by key seen xs))"
  by (induction xs arbitrary: seen) (auto dest: first_by_seen)

lemma first_by_subseq: "subseq (first_by key seen xs) xs"
  by (induction xs arbitrary: seen) auto

lemma first_by_idem:
  "distinct (map key xs) \<Longrightarrow> key ` set xs \<inter> set seen = {} \<Longrightarrow> first_by key seen xs = xs"
  by (induction xs arbitrary: seen) auto

section \<open>Searching\<close>

lemma find_append: "find P (xs @ ys) = (case find P xs of None \<Rightarrow> find P ys | Some x \<Rightarrow> Some x)"
  by (induction xs) auto

end
