(* ===== verification/Scope_Cache.thy ===== *)
theory Scope_Cache
  imports Go_Prelude
begin

text \<open>
  The bounded per-Scope lock cache of \<open>internal/runtime/scope_cache.go\<close>. Entries are heap objects:
  the map, the recency list, and every lease hold the same address, so the model keeps an explicit
  store \<open>sc_heap\<close> from addresses to entries. The token of an entry's semaphore is \<open>se_token\<close>. The
  mutex \<open>c.mu\<close> makes each operation atomic; the notifications to the evictor and the observer are
  logged in \<open>sc_evicted\<close> and \<open>sc_observed\<close>.
\<close>

record scope_entry =
  se_key :: string
  se_token :: bool
  se_leases :: nat

record scope_cache =
  sc_capacity :: nat
  sc_entries :: "(string, nat) gomap"
  sc_recency :: "nat list"
  sc_heap :: "nat \<Rightarrow> scope_entry option"
  sc_next :: nat
  sc_evicted :: "string list"
  sc_observed :: "(nat \<times> nat) list"

definition new_scope_cache :: "nat \<Rightarrow> scope_cache" where
  "new_scope_cache capacity =
     \<lparr>sc_capacity = capacity, sc_entries = [], sc_recency = [], sc_heap = (\<lambda>_. None), sc_next = 0,
      sc_evicted = [], sc_observed = [(0, 0)]\<rparr>"

definition leases_at :: "scope_cache \<Rightarrow> nat \<Rightarrow> nat" where
  "leases_at c a = (case sc_heap c a of None \<Rightarrow> 0 | Some e \<Rightarrow> se_leases e)"

definition key_at :: "scope_cache \<Rightarrow> nat \<Rightarrow> string" where
  "key_at c a = (case sc_heap c a of None \<Rightarrow> [] | Some e \<Rightarrow> se_key e)"

definition update_entry :: "nat \<Rightarrow> (scope_entry \<Rightarrow> scope_entry) \<Rightarrow> scope_cache \<Rightarrow> scope_cache" where
  "update_entry a f c = c\<lparr>sc_heap := (sc_heap c)(a := map_option f (sc_heap c a))\<rparr>"

definition move_to_back :: "nat \<Rightarrow> scope_cache \<Rightarrow> scope_cache" where
  "move_to_back a c = c\<lparr>sc_recency := remove1 a (sc_recency c) @ [a]\<rparr>"

definition oldest_inactive :: "scope_cache \<Rightarrow> nat option" where
  "oldest_inactive c = find (\<lambda>a. leases_at c a = 0) (sc_recency c)"

definition evict_locked :: "scope_cache \<Rightarrow> nat \<Rightarrow> scope_cache" where
  "evict_locked c a =
     c\<lparr>sc_entries := AList.delete (key_at c a) (sc_entries c), sc_recency := remove1 a (sc_recency c)\<rparr>"

text \<open>The two eviction loops differ in their guard only: \<open>makeRoomLocked\<close> runs while the map holds at
  least \<open>capacity\<close> entries, \<open>trimLocked\<close> while it holds more than \<open>capacity\<close>.\<close>

function evict_while :: "nat \<Rightarrow> scope_cache \<Rightarrow> scope_cache \<times> string list" where
  "evict_while n c =
     (if length (sc_entries c) \<ge> n
      then case oldest_inactive c of
             None \<Rightarrow> (c, [])
           | Some a \<Rightarrow>
              (case evict_while n (evict_locked c a) of (c', ks) \<Rightarrow> (c', key_at c a # ks))
      else (c, []))"
  by pat_completeness auto
termination
proof (relation "measure (\<lambda>(n, c). length (sc_recency c))")
  fix n c a
  assume "oldest_inactive c = Some a"
  then have "a \<in> set (sc_recency c)"
    by (auto simp: oldest_inactive_def find_Some_iff)
  then show "((n, evict_locked c a), n, c) \<in> measure (\<lambda>(n, c). length (sc_recency c))"
    using length_pos_if_in_set [of a "sc_recency c"] by (simp add: evict_locked_def length_remove1)
qed simp

declare evict_while.simps [simp del]

definition make_room_locked :: "scope_cache \<Rightarrow> scope_cache \<times> string list" where
  "make_room_locked c = evict_while (sc_capacity c) c"

definition trim_locked :: "scope_cache \<Rightarrow> scope_cache \<times> string list" where
  "trim_locked c = evict_while (Suc (sc_capacity c)) c"

definition counts_locked :: "scope_cache \<Rightarrow> nat \<times> nat" where
  "counts_locked c =
     (length (filter (\<lambda>(k, a). leases_at c a = 0) (sc_entries c)),
      length (filter (\<lambda>(k, a). leases_at c a \<noteq> 0) (sc_entries c)))"

definition notify :: "string list \<Rightarrow> scope_cache \<Rightarrow> scope_cache" where
  "notify ks c = c\<lparr>sc_evicted := sc_evicted c @ ks, sc_observed := sc_observed c @ [counts_locked c]\<rparr>"

text \<open>Installing a fresh entry for a key, with one semaphore token and no lease.\<close>

definition insert_entry :: "string \<Rightarrow> scope_cache \<Rightarrow> scope_cache" where
  "insert_entry key c =
     c\<lparr>sc_heap := (sc_heap c)(sc_next c \<mapsto> \<lparr>se_key = key, se_token = True, se_leases = 0\<rparr>),
       sc_recency := sc_recency c @ [sc_next c],
       sc_entries := gm_set key (sc_next c) (sc_entries c),
       sc_next := Suc (sc_next c)\<rparr>"

definition lease :: "scope_cache \<Rightarrow> string \<Rightarrow> nat \<times> scope_cache" where
  "lease c key =
     (case gm_get (sc_entries c) key of
        Some a \<Rightarrow>
          (a, notify [] (move_to_back a (update_entry a (\<lambda>e. e\<lparr>se_leases := Suc (se_leases e)\<rparr>) c)))
      | None \<Rightarrow>
          (case make_room_locked c of (c1, evicted) \<Rightarrow>
             (let a = sc_next c1; c2 = insert_entry key c1 in
              (a, notify evicted
                    (move_to_back a (update_entry a (\<lambda>e. e\<lparr>se_leases := Suc (se_leases e)\<rparr>) c2))))))"

datatype release_result = Released scope_cache | LeaseInvariantPanic

definition release_lease :: "scope_cache \<Rightarrow> nat \<Rightarrow> release_result" where
  "release_lease c a =
     (if gm_get (sc_entries c) (key_at c a) \<noteq> Some a \<or> leases_at c a < 1 then LeaseInvariantPanic
      else (let c1 = move_to_back a (update_entry a (\<lambda>e. e\<lparr>se_leases := se_leases e - 1\<rparr>) c) in
            case trim_locked c1 of (c2, evicted) \<Rightarrow> Released (notify evicted c2)))"

definition clear_cache :: "scope_cache \<Rightarrow> string + scope_cache" where
  "clear_cache c =
     (if list_ex (\<lambda>(k, a). leases_at c a > 0) (sc_entries c)
      then Inl ''runtime: cannot clear active scope cache entries''
      else Inr (c\<lparr>sc_entries := [], sc_recency := [],
                  sc_evicted := sc_evicted c @ map (key_at c) (sc_recency c),
                  sc_observed := sc_observed c @ [(0, 0)]\<rparr>))"

text \<open>The semaphore of one entry: acquiring takes its token (and blocks without one), releasing
  returns it.\<close>

definition contended :: "scope_cache \<Rightarrow> nat \<Rightarrow> bool" where
  "contended c a \<longleftrightarrow> (case sc_heap c a of None \<Rightarrow> False | Some e \<Rightarrow> \<not> se_token e)"

definition try_acquire :: "scope_cache \<Rightarrow> nat \<Rightarrow> scope_cache option" where
  "try_acquire c a = (case sc_heap c a of
     None \<Rightarrow> None
   | Some e \<Rightarrow> if se_token e then Some (update_entry a (\<lambda>e. e\<lparr>se_token := False\<rparr>) c) else None)"

definition put_token :: "scope_cache \<Rightarrow> nat \<Rightarrow> scope_cache" where
  "put_token c a = update_entry a (\<lambda>e. e\<lparr>se_token := True\<rparr>) c"

section \<open>Invariant\<close>

text \<open>The map and the recency list describe the same entries, an entry is filed under its own key,
  and the cache exceeds its capacity only while every entry is leased.\<close>

definition sc_linked :: "scope_cache \<Rightarrow> bool" where
  "sc_linked c \<longleftrightarrow> gm_wf (sc_entries c) \<and> distinct (sc_recency c)
     \<and> set (sc_recency c) = snd ` set (sc_entries c)
     \<and> (\<forall>(k, a) \<in> set (sc_entries c). a < sc_next c \<and> (\<exists>e. sc_heap c a = Some e \<and> se_key e = k))
     \<and> (\<forall>a. sc_heap c a \<noteq> None \<longrightarrow> a < sc_next c)"

definition sc_bounded :: "scope_cache \<Rightarrow> bool" where
  "sc_bounded c \<longleftrightarrow> length (sc_entries c) \<le> sc_capacity c
     \<or> (\<forall>(k, a) \<in> set (sc_entries c). 0 < leases_at c a)"

definition sc_inv :: "scope_cache \<Rightarrow> bool" where
  "sc_inv c \<longleftrightarrow> sc_linked c \<and> sc_bounded c"

lemma sc_inv_new: "sc_inv (new_scope_cache n)"
  by (simp add: sc_inv_def sc_linked_def sc_bounded_def new_scope_cache_def)

lemma sc_linked_entry:
  assumes "sc_linked c" "(k, a) \<in> set (sc_entries c)"
  shows "key_at c a = k" "a < sc_next c" "a \<in> set (sc_recency c)" "sc_heap c a \<noteq> None"
    "gm_get (sc_entries c) k = Some a"
  using assms by (force simp: sc_linked_def key_at_def gm_get_iff)+

lemma sc_linked_unique:
  assumes "sc_linked c" "(k, a) \<in> set (sc_entries c)" "(k, b) \<in> set (sc_entries c)"
  shows "a = b"
  using sc_linked_entry(5) [OF assms(1,2)] sc_linked_entry(5) [OF assms(1,3)] by simp

lemma sc_linked_recency:
  assumes "sc_linked c" "a \<in> set (sc_recency c)"
  shows "(key_at c a, a) \<in> set (sc_entries c)"
proof -
  from assms obtain k where "(k, a) \<in> set (sc_entries c)"
    by (auto simp: sc_linked_def)
  with assms(1) show ?thesis using sc_linked_entry(1) by metis
qed

lemma sc_linked_length: "sc_linked c \<Longrightarrow> length (sc_entries c) \<le> card (set (sc_recency c))"
proof -
  assume l: "sc_linked c"
  have "inj_on snd (set (sc_entries c))"
  proof (rule inj_onI)
    fix p q
    assume "p \<in> set (sc_entries c)" "q \<in> set (sc_entries c)" "snd p = snd q"
    then show "p = q" using sc_linked_entry(1) [OF l] by (metis prod.collapse)
  qed
  then have "card (set (sc_recency c)) = card (set (sc_entries c))"
    using l by (simp add: sc_linked_def card_image)
  moreover have "distinct (sc_entries c)"
    using l by (simp add: sc_linked_def gm_wf_def distinct_map)
  ultimately show ?thesis by (simp add: distinct_card)
qed

subsection \<open>Frame facts of the small updates\<close>

lemma update_entry_simps [simp]:
  "sc_entries (update_entry a f c) = sc_entries c"
  "sc_recency (update_entry a f c) = sc_recency c"
  "sc_capacity (update_entry a f c) = sc_capacity c"
  "sc_next (update_entry a f c) = sc_next c"
  by (simp_all add: update_entry_def)

lemma leases_update_entry:
  "leases_at (update_entry a f c) b =
     (if b = a then (case sc_heap c a of None \<Rightarrow> 0 | Some e \<Rightarrow> se_leases (f e)) else leases_at c b)"
  by (simp add: leases_at_def update_entry_def split: option.splits)

lemma leases_bump:
  "sc_heap c a \<noteq> None \<Longrightarrow>
     leases_at (update_entry a (\<lambda>e. e\<lparr>se_leases := g (se_leases e)\<rparr>) c) a = g (leases_at c a)"
  by (auto simp: leases_at_def update_entry_def)

lemma leases_token_update: "leases_at (update_entry a (\<lambda>e. e\<lparr>se_token := t\<rparr>) c) = leases_at c"
  by (auto simp: fun_eq_iff leases_at_def update_entry_def split: option.splits)

lemma key_update_entry:
  "(\<And>e. se_key (f e) = se_key e) \<Longrightarrow> key_at (update_entry a f c) b = key_at c b"
  by (simp add: key_at_def update_entry_def split: option.splits)

lemma sc_linked_update_entry:
  "(\<And>e. se_key (f e) = se_key e) \<Longrightarrow> sc_linked c \<Longrightarrow> sc_linked (update_entry a f c)"
  by (fastforce simp: sc_linked_def update_entry_def)

lemma move_to_back_simps [simp]:
  "sc_entries (move_to_back a c) = sc_entries c"
  "sc_heap (move_to_back a c) = sc_heap c"
  "sc_capacity (move_to_back a c) = sc_capacity c"
  "sc_next (move_to_back a c) = sc_next c"
  "leases_at (move_to_back a c) = leases_at c"
  "key_at (move_to_back a c) = key_at c"
  by (simp_all add: move_to_back_def leases_at_def key_at_def fun_eq_iff)

lemma sc_linked_move_to_back:
  "sc_linked c \<Longrightarrow> a \<in> set (sc_recency c) \<Longrightarrow> sc_linked (move_to_back a c)"
  by (auto simp: sc_linked_def move_to_back_def insert_absorb)

lemma notify_simps [simp]:
  "sc_entries (notify ks c) = sc_entries c"
  "sc_recency (notify ks c) = sc_recency c"
  "sc_heap (notify ks c) = sc_heap c"
  "sc_capacity (notify ks c) = sc_capacity c"
  "sc_next (notify ks c) = sc_next c"
  "leases_at (notify ks c) = leases_at c"
  "key_at (notify ks c) = key_at c"
  "sc_linked (notify ks c) = sc_linked c"
  "sc_bounded (notify ks c) = sc_bounded c"
  by (simp_all add: notify_def leases_at_def key_at_def fun_eq_iff sc_linked_def sc_bounded_def)

lemma evict_locked_simps [simp]:
  "sc_heap (evict_locked c a) = sc_heap c"
  "sc_capacity (evict_locked c a) = sc_capacity c"
  "sc_next (evict_locked c a) = sc_next c"
  "leases_at (evict_locked c a) = leases_at c"
  "key_at (evict_locked c a) = key_at c"
  by (simp_all add: evict_locked_def leases_at_def key_at_def fun_eq_iff)

lemma set_alist_delete: "set (AList.delete k xs) = {p \<in> set xs. fst p \<noteq> k}"
  by (auto simp: AList.delete_eq)

lemma evict_locked_linked:
  assumes "sc_linked c" "a \<in> set (sc_recency c)"
  shows "sc_linked (evict_locked c a)"
proof -
  have k: "(key_at c a, a) \<in> set (sc_entries c)" by (rule sc_linked_recency [OF assms])
  have only: "snd p = a" if "p \<in> set (sc_entries c)" "fst p = key_at c a" for p
    by (rule sc_linked_unique [OF assms(1) _ k]) (metis that prod.collapse)
  have key: "fst p = key_at c a" if "p \<in> set (sc_entries c)" "snd p = a" for p
    by (rule sc_linked_entry(1) [OF assms(1), symmetric]) (metis that prod.collapse)
  have "snd ` {p \<in> set (sc_entries c). fst p \<noteq> key_at c a} = snd ` set (sc_entries c) - {a}"
    using only key by blast
  then have r: "set (remove1 a (sc_recency c)) = snd ` set (AList.delete (key_at c a) (sc_entries c))"
    using assms(1) by (simp add: sc_linked_def set_alist_delete)
  have d: "distinct (map fst (AList.delete (key_at c a) (sc_entries c)))"
    using assms(1) by (simp add: sc_linked_def gm_wf_def distinct_delete)
  show ?thesis
    using assms(1) r d unfolding sc_linked_def gm_wf_def evict_locked_def
    by (simp add: set_alist_delete)
qed

subsection \<open>Eviction\<close>

lemma oldest_inactiveD:
  "oldest_inactive c = Some a \<Longrightarrow> a \<in> set (sc_recency c) \<and> leases_at c a = 0"
  by (auto simp: oldest_inactive_def find_Some_iff)

lemma oldest_inactive_None:
  "oldest_inactive c = None \<Longrightarrow> a \<in> set (sc_recency c) \<Longrightarrow> 0 < leases_at c a"
  by (auto simp: oldest_inactive_def find_None_iff)

lemma evict_while_frame:
  "evict_while n c = (c', ks) \<Longrightarrow>
     sc_heap c' = sc_heap c \<and> sc_capacity c' = sc_capacity c \<and> sc_next c' = sc_next c"
proof (induction n c arbitrary: c' ks rule: evict_while.induct)
  case (1 n c)
  from "1.prems" show ?case
    by (subst (asm) (1) evict_while.simps)
      (auto split: if_splits option.splits prod.splits dest: "1.IH")
qed

lemma evict_while_linked:
  "evict_while n c = (c', ks) \<Longrightarrow> sc_linked c \<Longrightarrow> sc_linked c'"
proof (induction n c arbitrary: c' ks rule: evict_while.induct)
  case (1 n c)
  from "1.prems" show ?case
    by (subst (asm) (1) evict_while.simps)
      (auto split: if_splits option.splits prod.splits
        dest: oldest_inactiveD intro: "1.IH" evict_locked_linked)
qed

text \<open>A leased entry survives every eviction.\<close>

lemma evict_while_keeps_leased:
  "evict_while n c = (c', ks) \<Longrightarrow> sc_linked c \<Longrightarrow> (k, a) \<in> set (sc_entries c) \<Longrightarrow>
     0 < leases_at c a \<Longrightarrow> (k, a) \<in> set (sc_entries c')"
proof (induction n c arbitrary: c' ks rule: evict_while.induct)
  case (1 n c)
  show ?case
  proof (cases "n \<le> length (sc_entries c) \<and> oldest_inactive c \<noteq> None")
    case False
    with "1.prems"(1,3) show ?thesis
      by (subst (asm) (1) evict_while.simps) (auto split: if_splits)
  next
    case True
    then obtain b where b: "oldest_inactive c = Some b" by auto
    obtain c2 ks2 where r: "evict_while n (evict_locked c b) = (c2, ks2)" by fastforce
    have "c' = c2" using "1.prems"(1) True b r by (subst (asm) (1) evict_while.simps) auto
    have b': "b \<in> set (sc_recency c)" "leases_at c b = 0" using oldest_inactiveD [OF b] by auto
    have "key_at c b \<noteq> k"
    proof
      assume "key_at c b = k"
      then have "(k, b) \<in> set (sc_entries c)"
        using sc_linked_recency [OF "1.prems"(2) b'(1)] by simp
      then have "b = a" by (rule sc_linked_unique [OF "1.prems"(2) _ "1.prems"(3)])
      with b'(2) "1.prems"(4) show False by simp
    qed
    then have "(k, a) \<in> set (sc_entries (evict_locked c b))"
      using "1.prems"(3) by (auto simp: evict_locked_def set_alist_delete)
    then show ?thesis
      using "1.IH" [OF _ b r] "1.prems"(2,4) evict_locked_linked [OF "1.prems"(2) b'(1)] True
        \<open>c' = c2\<close> by simp
  qed
qed

text \<open>Only unleased entries of the cache are evicted, and nothing is added.\<close>

lemma evict_while_subset:
  "evict_while n c = (c', ks) \<Longrightarrow> set (sc_entries c') \<subseteq> set (sc_entries c)"
proof (induction n c arbitrary: c' ks rule: evict_while.induct)
  case (1 n c)
  from "1.prems" show ?case
    by (subst (asm) (1) evict_while.simps)
      (fastforce split: if_splits option.splits prod.splits
        dest: "1.IH" simp: evict_locked_def set_alist_delete)
qed

lemma evict_while_post:
  "evict_while n c = (c', ks) \<Longrightarrow> sc_linked c \<Longrightarrow>
     length (sc_entries c') < n \<or> (\<forall>(k, a) \<in> set (sc_entries c'). 0 < leases_at c' a)"
proof (induction n c arbitrary: c' ks rule: evict_while.induct)
  case (1 n c)
  show ?case
  proof (cases "n \<le> length (sc_entries c)")
    case False
    with "1.prems"(1) show ?thesis by (subst (asm) (1) evict_while.simps) auto
  next
    case True
    show ?thesis
    proof (cases "oldest_inactive c")
      case None
      with True "1.prems"(1) have "c' = c" by (subst (asm) (1) evict_while.simps) auto
      then show ?thesis
        using oldest_inactive_None [OF None] sc_linked_entry(3) [OF "1.prems"(2)] by fastforce
    next
      case (Some b)
      obtain c2 ks2 where r: "evict_while n (evict_locked c b) = (c2, ks2)" by fastforce
      have "c' = c2" using "1.prems"(1) True Some r by (subst (asm) (1) evict_while.simps) auto
      then show ?thesis
        using "1.IH" [OF True Some r] evict_locked_linked [OF "1.prems"(2)] oldest_inactiveD [OF Some]
        by blast
    qed
  qed
qed

subsection \<open>The cache operations keep the invariant\<close>

lemma lease_bump_inv:
  assumes "sc_linked c" "a \<in> set (sc_recency c)"
    and "length (sc_entries c) \<le> sc_capacity c
         \<or> (\<forall>(k, b) \<in> set (sc_entries c). b \<noteq> a \<longrightarrow> 0 < leases_at c b)"
  shows "sc_inv (notify ks (move_to_back a (update_entry a (\<lambda>e. e\<lparr>se_leases := Suc (se_leases e)\<rparr>) c)))"
proof -
  let ?c = "update_entry a (\<lambda>e. e\<lparr>se_leases := Suc (se_leases e)\<rparr>) c"
  have l: "sc_linked (move_to_back a ?c)"
    using assms(1,2) by (intro sc_linked_move_to_back sc_linked_update_entry) simp_all
  have "sc_heap c b \<noteq> None" if "(k, b) \<in> set (sc_entries c)" for k b
    by (rule sc_linked_entry(4) [OF assms(1) that])
  then have "sc_bounded (move_to_back a ?c)"
    using assms(3) by (fastforce simp: sc_bounded_def leases_update_entry)
  with l show ?thesis by (simp add: sc_inv_def)
qed

lemma insert_entry_linked:
  assumes "sc_linked c" "gm_get (sc_entries c) key = None"
  shows "sc_linked (insert_entry key c)"
proof -
  have fresh: "a \<noteq> sc_next c" if "(k, a) \<in> set (sc_entries c)" for k a
    using sc_linked_entry(2) [OF assms(1) that] by simp
  have new: "key \<notin> fst ` set (sc_entries c)" using assms(2) by (simp add: gm_dom)
  then have u: "gm_set key (sc_next c) (sc_entries c) = sc_entries c @ [(key, sc_next c)]"
    by (rule gm_set_new)
  show ?thesis
    using assms(1) fresh new unfolding sc_linked_def insert_entry_def gm_wf_def
    by (auto simp: u less_Suc_eq)
qed

lemma contended_simps [simp]:
  "contended (notify ks c) = contended c"
  "contended (move_to_back a c) = contended c"
  by (simp_all add: contended_def fun_eq_iff)

lemma contended_update_entry:
  "(\<And>e. se_token (f e) = se_token e) \<Longrightarrow> contended (update_entry a f c) b = contended c b"
  by (auto simp: contended_def update_entry_def split: option.splits)

lemma heap_update_entry: "b \<noteq> a \<Longrightarrow> sc_heap (update_entry a f c) b = sc_heap c b"
  by (simp add: update_entry_def)

text \<open>What a caller of \<open>lease\<close> gets, whichever branch it took.\<close>

definition lease_post :: "scope_cache \<Rightarrow> string \<Rightarrow> nat \<Rightarrow> scope_cache \<Rightarrow> bool" where
  "lease_post c key a c' \<longleftrightarrow> sc_inv c' \<and> (key, a) \<in> set (sc_entries c')
     \<and> (\<forall>b. b \<noteq> a \<longrightarrow> sc_heap c' b = sc_heap c b)
     \<and> (\<forall>(k, b) \<in> set (sc_entries c). 0 < leases_at c b \<longrightarrow> (k, b) \<in> set (sc_entries c'))
     \<and> leases_at c' a = Suc (leases_at c a)
     \<and> (\<forall>b. contended c' b = contended c b)
     \<and> ((key, a) \<in> set (sc_entries c) \<or> sc_heap c a = None)"

lemma lease_post_keeps:
  "lease_post c key a c' \<Longrightarrow> (k, b) \<in> set (sc_entries c) \<Longrightarrow> 0 < leases_at c b \<Longrightarrow>
     (k, b) \<in> set (sc_entries c')"
  unfolding lease_post_def by (elim conjE) (drule (1) bspec, simp)

lemma lease_existing:
  assumes "sc_inv c" "gm_get (sc_entries c) key = Some a" "lease c key = (a', c')"
  shows "a' = a \<and> lease_post c key a c'"
proof -
  have l: "sc_linked c" and b: "sc_bounded c" using assms(1) by (simp_all add: sc_inv_def)
  have e: "(key, a) \<in> set (sc_entries c)" using assms(2) by (rule map_of_SomeD)
  have c': "a' = a" "c' = notify [] (move_to_back a (update_entry a (\<lambda>e. e\<lparr>se_leases := Suc (se_leases e)\<rparr>) c))"
    using assms(2,3) by (auto simp: lease_def)
  have "sc_inv c'"
    unfolding c'(2) using l sc_linked_entry(3) [OF l e] b
    by (intro lease_bump_inv) (auto simp: sc_bounded_def)
  moreover have "leases_at c' a = Suc (leases_at c a)"
    using leases_bump [OF sc_linked_entry(4) [OF l e]] by (simp add: c'(2))
  ultimately show ?thesis
    using c' e by (auto simp: lease_post_def contended_update_entry heap_update_entry)
qed

lemma insert_entry_simps [simp]:
  "sc_capacity (insert_entry key c) = sc_capacity c"
  "sc_heap (insert_entry key c) (sc_next c) = Some \<lparr>se_key = key, se_token = True, se_leases = 0\<rparr>"
  by (simp_all add: insert_entry_def)

lemma lease_fresh:
  assumes "sc_inv c" "gm_get (sc_entries c) key = None" "lease c key = (a, c')"
  shows "lease_post c key a c'"
proof -
  obtain c1 ks where m: "make_room_locked c = (c1, ks)" by fastforce
  note ev = m [unfolded make_room_locked_def]
  have l: "sc_linked c" using assms(1) by (simp add: sc_inv_def)
  have l1: "sc_linked c1" using evict_while_linked [OF ev l] .
  note fr = evict_while_frame [OF ev]
  have none: "gm_get (sc_entries c1) key = None"
    using evict_while_subset [OF ev] assms(2) by (auto simp: gm_dom)
  define c2 where "c2 = insert_entry key c1"
  have l2: "sc_linked c2" unfolding c2_def by (rule insert_entry_linked [OF l1 none])
  have a: "a = sc_next c" and c': "c' = notify ks (move_to_back a (update_entry a (\<lambda>e. e\<lparr>se_leases := Suc (se_leases e)\<rparr>) c2))"
    using assms(2,3) m fr by (auto simp: lease_def c2_def Let_def)
  have e2: "sc_entries c2 = sc_entries c1 @ [(key, a)]" "sc_next c1 = a"
    using none fr a by (simp_all add: c2_def insert_entry_def gm_set_new gm_dom)
  have lv: "leases_at c2 b = leases_at c1 b" if "b \<noteq> a" for b
    using that e2(2) by (simp add: leases_at_def c2_def insert_entry_def)
  have na: "sc_heap c a = None" using l a by (auto simp: sc_linked_def)
  have "length (sc_entries c2) \<le> sc_capacity c2
      \<or> (\<forall>(k, b) \<in> set (sc_entries c2). b \<noteq> a \<longrightarrow> 0 < leases_at c2 b)"
  proof -
    have "length (sc_entries c1) < sc_capacity c \<or> (\<forall>(k, b) \<in> set (sc_entries c1). 0 < leases_at c1 b)"
      by (rule evict_while_post [OF ev l])
    moreover have "sc_capacity c2 = sc_capacity c" using fr by (simp add: c2_def)
    ultimately show ?thesis using lv by (auto simp: e2(1))
  qed
  then have "sc_inv c'"
    unfolding c' using l2 e2(1) sc_linked_entry(3) [OF l2, of key a] by (intro lease_bump_inv) auto
  moreover have "sc_heap c' b = sc_heap c b" if "b \<noteq> a" for b
    using that fr e2(2) by (simp add: c' heap_update_entry) (simp add: c2_def insert_entry_def)
  moreover have "leases_at c' a = Suc (leases_at c a)"
  proof -
    have "sc_heap c2 a = Some \<lparr>se_key = key, se_token = True, se_leases = 0\<rparr>"
      using e2(2) by (auto simp: c2_def)
    then show ?thesis using na leases_bump [of c2 a Suc] by (simp add: c' leases_at_def)
  qed
  moreover have "contended c' b = contended c b" for b
    using na fr e2(2) by (simp add: c' contended_update_entry)
      (auto simp: c2_def contended_def insert_entry_def)
  moreover have "(k, b) \<in> set (sc_entries c')"
    if "(k, b) \<in> set (sc_entries c)" "0 < leases_at c b" for k b
    using evict_while_keeps_leased [OF ev l that] by (simp add: c' e2(1))
  ultimately show ?thesis
    using na by (auto simp: lease_post_def c' e2(1))
qed

lemma lease_spec:
  assumes "sc_inv c" "lease c key = (a, c')"
  shows "lease_post c key a c'"
proof (cases "gm_get (sc_entries c) key")
  case None
  then show ?thesis by (rule lease_fresh [OF assms(1) _ assms(2)])
next
  case (Some b)
  then show ?thesis using lease_existing [OF assms(1) Some assms(2)] by simp
qed

text \<open>Releasing a live lease never panics; an entry still leased afterwards stays in the cache.\<close>

definition release_post :: "scope_cache \<Rightarrow> nat \<Rightarrow> scope_cache \<Rightarrow> bool" where
  "release_post c a c' \<longleftrightarrow> sc_inv c'
     \<and> (\<forall>b. b \<noteq> a \<longrightarrow> sc_heap c' b = sc_heap c b)
     \<and> (\<forall>(k, b) \<in> set (sc_entries c). 0 < leases_at c' b \<longrightarrow> (k, b) \<in> set (sc_entries c'))
     \<and> leases_at c' a = leases_at c a - 1
     \<and> (\<forall>b. contended c' b = contended c b)"

lemma release_post_keeps:
  "release_post c a c' \<Longrightarrow> (k, b) \<in> set (sc_entries c) \<Longrightarrow> 0 < leases_at c' b \<Longrightarrow>
     (k, b) \<in> set (sc_entries c')"
  unfolding release_post_def by (elim conjE) (drule (1) bspec, simp)

lemma release_spec:
  assumes "sc_inv c" "(k, a) \<in> set (sc_entries c)" "0 < leases_at c a"
  shows "\<exists>c'. release_lease c a = Released c' \<and> release_post c a c'"
proof -
  have l: "sc_linked c" using assms(1) by (simp add: sc_inv_def)
  note e = sc_linked_entry [OF l assms(2)]
  define c1 where "c1 = move_to_back a (update_entry a (\<lambda>e. e\<lparr>se_leases := se_leases e - 1\<rparr>) c)"
  obtain c2 ks where t: "trim_locked c1 = (c2, ks)" by fastforce
  note ev = t [unfolded trim_locked_def]
  have l1: "sc_linked c1"
    unfolding c1_def using l e(3) by (intro sc_linked_move_to_back sc_linked_update_entry) simp_all
  note fr = evict_while_frame [OF ev]
  have l2: "sc_linked c2" by (rule evict_while_linked [OF ev l1])
  have "sc_bounded c2"
    using evict_while_post [OF ev l1] fr by (auto simp: sc_bounded_def)
  moreover have "leases_at c2 b = leases_at c1 b" "contended c2 b = contended c1 b" for b
    using fr by (simp_all add: leases_at_def contended_def)
  moreover have "leases_at c1 a = leases_at c a - 1"
    using leases_bump [OF e(4), of "\<lambda>n. n - 1"] by (simp add: c1_def)
  moreover have "contended c1 b = contended c b" for b
    by (simp add: c1_def contended_update_entry)
  moreover have "sc_heap c2 b = sc_heap c b" if "b \<noteq> a" for b
    using that fr by (simp add: c1_def heap_update_entry)
  moreover have "(k', b) \<in> set (sc_entries c2)"
    if "(k', b) \<in> set (sc_entries c)" "0 < leases_at c1 b" for k' b
    using evict_while_keeps_leased [OF ev l1] that by (simp add: c1_def)
  ultimately have "release_post c a (notify ks c2)"
    using l2 by (auto simp: release_post_def sc_inv_def)
  moreover have "release_lease c a = Released (notify ks c2)"
    using assms(3) e(1,5) t by (simp add: release_lease_def c1_def Let_def)
  ultimately show ?thesis by blast
qed

lemma token_update_inv:
  "sc_inv c \<Longrightarrow> sc_inv (update_entry a (\<lambda>e. e\<lparr>se_token := t\<rparr>) c)"
  by (simp add: sc_inv_def sc_bounded_def sc_linked_update_entry leases_token_update)

lemma token_update_heap:
  "sc_heap (update_entry a (\<lambda>e. e\<lparr>se_token := t\<rparr>) c) b = None \<longleftrightarrow> sc_heap c b = None"
  by (simp add: update_entry_def)

lemma contended_token_update:
  "contended (update_entry a (\<lambda>e. e\<lparr>se_token := t\<rparr>) c) b =
     (if b = a then sc_heap c a \<noteq> None \<and> \<not> t else contended c b)"
  by (auto simp: contended_def update_entry_def split: option.splits)

lemma clear_cache_ok:
  assumes "sc_inv c" "\<forall>(k, a) \<in> set (sc_entries c). leases_at c a = 0"
  shows "\<exists>c'. clear_cache c = Inr c' \<and> sc_inv c' \<and> sc_entries c' = [] \<and> sc_heap c' = sc_heap c"
proof -
  have "\<not> list_ex (\<lambda>(k, a). leases_at c a > 0) (sc_entries c)"
    using assms(2) by (auto simp: list_ex_iff)
  with assms(1) show ?thesis
    by (auto simp: clear_cache_def sc_inv_def sc_linked_def sc_bounded_def)
qed

section \<open>The contract of the cache\<close>

text \<open>What the Runtime relies on: leases are counted per entry, a leased entry stays filed under its
  key, one key never names two entries, and the token of an entry belongs to one holder.\<close>

locale lease_cache =
  fixes inv :: "'c \<Rightarrow> bool"
    and filed :: "'c \<Rightarrow> string \<Rightarrow> nat \<Rightarrow> bool"
    and leases :: "'c \<Rightarrow> nat \<Rightarrow> nat"
    and taken :: "'c \<Rightarrow> nat \<Rightarrow> bool"
    and take_lease :: "'c \<Rightarrow> string \<Rightarrow> nat \<times> 'c"
    and drop_lease :: "'c \<Rightarrow> nat \<Rightarrow> 'c option"
    and take_token :: "'c \<Rightarrow> nat \<Rightarrow> 'c option"
    and return_token :: "'c \<Rightarrow> nat \<Rightarrow> 'c"
    and clear :: "'c \<Rightarrow> string + 'c"
  assumes filed_unique: "inv c \<Longrightarrow> filed c k a \<Longrightarrow> filed c k b \<Longrightarrow> a = b"
    and filed_key: "inv c \<Longrightarrow> filed c k a \<Longrightarrow> filed c l a \<Longrightarrow> k = l"
    and take_lease_law: "inv c \<Longrightarrow> take_lease c k = (a, c') \<Longrightarrow>
      inv c' \<and> filed c' k a \<and> leases c' = (leases c)(a := Suc (leases c a)) \<and> taken c' = taken c"
    and take_lease_keeps: "inv c \<Longrightarrow> take_lease c k = (a, c') \<Longrightarrow> filed c l b \<Longrightarrow> 0 < leases c b \<Longrightarrow>
      filed c' l b"
    and drop_lease_law: "inv c \<Longrightarrow> filed c k a \<Longrightarrow> 0 < leases c a \<Longrightarrow>
      \<exists>c'. drop_lease c a = Some c' \<and> inv c' \<and> leases c' = (leases c)(a := leases c a - 1) \<and> taken c' = taken c
        \<and> (\<forall>l b. filed c l b \<longrightarrow> 0 < leases c' b \<longrightarrow> filed c' l b)"
    and take_token_law: "inv c \<Longrightarrow> take_token c a = Some c' \<Longrightarrow>
      \<not> taken c a \<and> inv c' \<and> leases c' = leases c \<and> filed c' = filed c \<and> taken c' = (taken c)(a := True)"
    and take_token_free: "inv c \<Longrightarrow> filed c k a \<Longrightarrow> \<not> taken c a \<Longrightarrow> take_token c a \<noteq> None"
    and return_token_law: "inv c \<Longrightarrow>
      inv (return_token c a) \<and> leases (return_token c a) = leases c \<and> filed (return_token c a) = filed c
      \<and> taken (return_token c a) = (taken c)(a := False)"
    and clear_law: "inv c \<Longrightarrow> \<forall>k a. filed c k a \<longrightarrow> leases c a = 0 \<Longrightarrow>
      \<exists>c'. clear c = Inr c' \<and> inv c' \<and> leases c' = leases c \<and> taken c' = taken c"

definition filed_under :: "scope_cache \<Rightarrow> string \<Rightarrow> nat \<Rightarrow> bool" where
  "filed_under c k a \<longleftrightarrow> (k, a) \<in> set (sc_entries c)"

fun released :: "release_result \<Rightarrow> scope_cache option" where
  "released (Released c) = Some c"
| "released LeaseInvariantPanic = None"

lemma released_None [simp]: "released r = None \<longleftrightarrow> r = LeaseInvariantPanic"
  by (cases r) simp_all

lemma released_Some [simp]: "released r = Some c \<longleftrightarrow> r = Released c"
  by (cases r) simp_all

lemma leases_eq_upd:
  "(\<And>b. b \<noteq> a \<Longrightarrow> sc_heap c' b = sc_heap c b) \<Longrightarrow> leases_at c' a = n \<Longrightarrow> leases_at c' = (leases_at c)(a := n)"
  by (auto simp: fun_eq_iff leases_at_def)

lemma lease_law:
  assumes "sc_inv c" "lease c k = (a, c')"
  shows "sc_inv c' \<and> filed_under c' k a \<and> leases_at c' = (leases_at c)(a := Suc (leases_at c a))
    \<and> contended c' = contended c"
  using lease_spec [OF assms]
  by (auto simp: lease_post_def filed_under_def fun_eq_iff leases_at_def)

lemma release_law:
  assumes "sc_inv c" "filed_under c k a" "0 < leases_at c a"
  shows "\<exists>c'. released (release_lease c a) = Some c' \<and> sc_inv c'
    \<and> leases_at c' = (leases_at c)(a := leases_at c a - 1) \<and> contended c' = contended c
    \<and> (\<forall>l b. filed_under c l b \<longrightarrow> 0 < leases_at c' b \<longrightarrow> filed_under c' l b)"
proof -
  obtain c' where r: "release_lease c a = Released c'" and p: "release_post c a c'"
    using release_spec assms unfolding filed_under_def by blast
  have "leases_at c' = (leases_at c)(a := leases_at c a - 1)"
    using p by (intro leases_eq_upd) (simp_all add: release_post_def)
  moreover have "sc_inv c'" "contended c' = contended c"
    using p by (auto simp: release_post_def)
  moreover have "\<forall>l b. filed_under c l b \<longrightarrow> 0 < leases_at c' b \<longrightarrow> filed_under c' l b"
    using release_post_keeps [OF p] unfolding filed_under_def by blast
  ultimately show ?thesis using r by simp
qed

lemma acquire_law:
  assumes "sc_inv c" "try_acquire c a = Some c'"
  shows "\<not> contended c a \<and> sc_inv c' \<and> leases_at c' = leases_at c \<and> filed_under c' = filed_under c
    \<and> contended c' = (contended c)(a := True)"
proof -
  have c': "c' = update_entry a (\<lambda>e. e\<lparr>se_token := False\<rparr>) c" "\<not> contended c a" "sc_heap c a \<noteq> None"
    using assms(2) by (auto simp: try_acquire_def contended_def split: option.splits if_splits)
  then show ?thesis
    using token_update_inv [OF assms(1)]
    by (simp add: leases_token_update filed_under_def fun_eq_iff contended_token_update)
qed

lemma put_token_law:
  assumes "sc_inv c"
  shows "sc_inv (put_token c a) \<and> leases_at (put_token c a) = leases_at c
    \<and> filed_under (put_token c a) = filed_under c \<and> contended (put_token c a) = (contended c)(a := False)"
  using token_update_inv [OF assms]
  by (simp add: put_token_def leases_token_update filed_under_def fun_eq_iff contended_token_update)

lemma clear_cache_law:
  assumes "sc_inv c" "\<forall>k a. filed_under c k a \<longrightarrow> leases_at c a = 0"
  shows "\<exists>c'. clear_cache c = Inr c' \<and> sc_inv c' \<and> leases_at c' = leases_at c \<and> contended c' = contended c"
proof -
  obtain c' where "clear_cache c = Inr c'" "sc_inv c'" "sc_heap c' = sc_heap c"
    using clear_cache_ok [OF assms(1)] assms(2) unfolding filed_under_def by blast
  then show ?thesis by (auto simp: leases_at_def contended_def fun_eq_iff)
qed

interpretation sc: lease_cache sc_inv filed_under leases_at contended lease
  "\<lambda>c a. released (release_lease c a)" try_acquire put_token clear_cache
proof (unfold_locales, goal_cases)
  case 1
  then show ?case unfolding filed_under_def sc_inv_def by (blast intro: sc_linked_unique)
next
  case 2
  then show ?case unfolding filed_under_def sc_inv_def using sc_linked_entry(1) by metis
next
  case 3
  then show ?case by (rule lease_law)
next
  case 4
  then show ?case using lease_spec lease_post_keeps unfolding filed_under_def by blast
next
  case 5
  then show ?case by (rule release_law)
next
  case 6
  then show ?case by (rule acquire_law)
next
  case (7 c k a)
  then have "sc_heap c a \<noteq> None"
    unfolding filed_under_def sc_inv_def using sc_linked_entry(4) by blast
  with 7(3) show ?case by (auto simp: try_acquire_def contended_def)
next
  case 8
  then show ?case by (rule put_token_law)
next
  case 9
  then show ?case by (rule clear_cache_law)
qed

end
