(* ===== verification/Go_Text.thy ===== *)
theory Go_Text
  imports Go_Prelude
begin

text \<open>
  Go strings are byte sequences: \<open>string\<close> is a list of 8-bit characters. This theory models what the
  packages use of \<open>unicode/utf8\<close>, \<open>unicode\<close> and \<open>strings\<close>: decoding of the first and the last rune,
  \<open>ValidString\<close>, \<open>RuneCountInString\<close>, \<open>IsSpace\<close>, \<open>TrimFunc\<close> and \<open>TrimSpace\<close>, together with the
  wider whitespace set \<open>isPythonWhitespace\<close> the domain packages trim with.
\<close>

section \<open>Runes\<close>

abbreviation byte_of :: "char \<Rightarrow> nat" where
  "byte_of \<equiv> of_char"

definition rune_error :: nat where
  "rune_error = 65533"

text \<open>The table of lead bytes: the length of the encoding and the accepted range of its second
  byte; \<open>None\<close> for a byte that cannot start a multi-byte encoding.\<close>

definition lead_info :: "nat \<Rightarrow> (nat \<times> nat \<times> nat) option" where
  "lead_info b =
     (if 194 \<le> b \<and> b \<le> 223 then Some (2, 128, 191)
      else if b = 224 then Some (3, 160, 191)
      else if b = 237 then Some (3, 128, 159)
      else if 225 \<le> b \<and> b \<le> 239 then Some (3, 128, 191)
      else if b = 240 then Some (4, 144, 191)
      else if 241 \<le> b \<and> b \<le> 243 then Some (4, 128, 191)
      else if b = 244 then Some (4, 128, 143)
      else None)"

definition cont_byte :: "nat \<Rightarrow> bool" where
  "cont_byte b \<longleftrightarrow> 128 \<le> b \<and> b \<le> 191"

definition rune_start :: "nat \<Rightarrow> bool" where
  "rune_start b \<longleftrightarrow> \<not> cont_byte b"

text \<open>\<open>utf8.DecodeRuneInString\<close>: the rune and its width; an invalid encoding is
  \<open>(RuneError, 1)\<close>.\<close>

definition decode_rune :: "string \<Rightarrow> nat \<times> nat" where
  "decode_rune s = (case s of
     [] \<Rightarrow> (rune_error, 0)
   | c # rest \<Rightarrow>
      (let b0 = byte_of c in
       if b0 < 128 then (b0, 1)
       else case lead_info b0 of
         None \<Rightarrow> (rune_error, 1)
       | Some (sz, lo, hi) \<Rightarrow>
          (if length s < sz then (rune_error, 1)
           else let b1 = byte_of (rest ! 0) in
             if b1 < lo \<or> hi < b1 then (rune_error, 1)
             else if sz = 2 then ((b0 mod 32) * 64 + b1 mod 64, 2)
             else let b2 = byte_of (rest ! 1) in
               if \<not> cont_byte b2 then (rune_error, 1)
               else if sz = 3 then ((b0 mod 16) * 4096 + (b1 mod 64) * 64 + b2 mod 64, 3)
               else let b3 = byte_of (rest ! 2) in
                 if \<not> cont_byte b3 then (rune_error, 1)
                 else ((b0 mod 8) * 262144 + (b1 mod 64) * 4096 + (b2 mod 64) * 64 + b3 mod 64, 4))))"

lemma decode_rune_Nil [simp]: "decode_rune [] = (rune_error, 0)"
  by (simp add: decode_rune_def)

lemma decode_rune_ascii [simp]: "byte_of c < 128 \<Longrightarrow> decode_rune (c # s) = (byte_of c, 1)"
  by (simp add: decode_rune_def)

lemma lead_info_size: "lead_info b = Some (sz, lo, hi) \<Longrightarrow> 2 \<le> sz \<and> sz \<le> 4"
  by (auto simp: lead_info_def split: if_splits)

lemma decode_rune_width:
  assumes "s \<noteq> []" shows "1 \<le> snd (decode_rune s) \<and> snd (decode_rune s) \<le> 4
    \<and> snd (decode_rune s) \<le> length s"
proof (cases s)
  case Nil
  with assms show ?thesis by simp
next
  case (Cons c rest)
  show ?thesis
  proof (cases "lead_info (byte_of c)")
    case None
    with Cons show ?thesis by (simp add: decode_rune_def Let_def)
  next
    case (Some a)
    obtain sz lo hi where a: "a = (sz, lo, hi)" by (cases a)
    have "2 \<le> sz \<and> sz \<le> 4" using Some a lead_info_size by simp
    with Cons Some a show ?thesis by (auto simp: decode_rune_def Let_def Suc_le_eq)
  qed
qed

lemma decode_rune_pos [simp]: "0 < snd (decode_rune (c # s))"
  using decode_rune_width [of "c # s"] by simp

text \<open>The runes of a string, in the order a \<open>for range\<close> loop visits them.\<close>

function runes :: "string \<Rightarrow> nat list" where
  "runes [] = []"
| "runes (c # s) = fst (decode_rune (c # s)) # runes (drop (snd (decode_rune (c # s))) (c # s))"
  by pat_completeness auto
termination
  by (relation "measure length") auto

definition rune_count :: "string \<Rightarrow> nat" where
  "rune_count s = length (runes s)"

text \<open>\<open>utf8.ValidString\<close>: no step decodes an invalid encoding (width 1 of a byte that is not
  ASCII).\<close>

function valid_utf8 :: "string \<Rightarrow> bool" where
  "valid_utf8 [] = True"
| "valid_utf8 (c # s) =
     ((byte_of c < 128 \<or> snd (decode_rune (c # s)) \<noteq> 1)
      \<and> valid_utf8 (drop (snd (decode_rune (c # s))) (c # s)))"
  by pat_completeness auto
termination
  by (relation "measure length") auto

declare runes.simps(2) [simp del] valid_utf8.simps(2) [simp del]

lemma runes_length_le: "length (runes s) \<le> length s"
proof (induction s rule: runes.induct)
  case 1
  then show ?case by simp
next
  case (2 c s)
  have "0 < snd (decode_rune (c # s))" by simp
  then have "Suc (length s) - snd (decode_rune (c # s)) \<le> length s" by linarith
  with 2 show ?case by (simp add: runes.simps(2))
qed

lemma rune_count_le: "rune_count s \<le> length s"
  by (simp add: rune_count_def runes_length_le)

lemma length_le_runes: "length s \<le> 4 * length (runes s)"
proof (induction s rule: runes.induct)
  case 1
  then show ?case by simp
next
  case (2 c s)
  have "snd (decode_rune (c # s)) \<le> 4" using decode_rune_width [of "c # s"] by simp
  with 2 show ?case by (simp add: runes.simps(2))
qed

lemma rune_count_bytes: "length s \<le> 4 * rune_count s"
  by (simp add: rune_count_def length_le_runes)

lemma rune_count_eq_0 [simp]: "rune_count s = 0 \<longleftrightarrow> s = []"
  by (cases s) (simp_all add: rune_count_def runes.simps(2))

lemma runes_ascii: "list_all (\<lambda>c. byte_of c < 128) s \<Longrightarrow> runes s = map byte_of s"
  by (induction s) (simp_all add: runes.simps(2))

lemma valid_utf8_ascii: "list_all (\<lambda>c. byte_of c < 128) s \<Longrightarrow> valid_utf8 s"
  by (induction s) (simp_all add: valid_utf8.simps(2))

subsection \<open>Multi-byte encodings\<close>

lemma lead_info_bounds:
  "lead_info b = Some (sz, lo, hi) \<Longrightarrow> 128 \<le> lo \<and> hi \<le> 191 \<and> 194 \<le> b \<and> b \<le> 244
     \<and> (sz = 2 \<and> b \<le> 223 \<or> sz = 3 \<and> 224 \<le> b \<and> b \<le> 239 \<or> sz = 4 \<and> 240 \<le> b)"
  by (auto simp: lead_info_def split: if_splits)

lemma decode_rune_multi:
  assumes ne: "s \<noteq> []" and w: "snd (decode_rune s) \<noteq> 1"
  obtains (two) a b t where "s = a # b # t" "194 \<le> byte_of a" "byte_of a \<le> (223::nat)" "cont_byte (byte_of b)"
      "\<And>u. decode_rune (a # b # u) = ((byte_of a mod 32) * 64 + byte_of b mod 64, 2)"
  | (three) a b c t where "s = a # b # c # t" "224 \<le> byte_of a" "byte_of a \<le> (239::nat)" "cont_byte (byte_of b)"
      "cont_byte (byte_of c)" "\<And>u. decode_rune (a # b # c # u) =
        ((byte_of a mod 16) * 4096 + (byte_of b mod 64) * 64 + byte_of c mod 64, 3)"
  | (four) a b c d t where "s = a # b # c # d # t" "240 \<le> byte_of a" "byte_of a \<le> (244::nat)"
      "byte_of a = (240::nat) \<longrightarrow> 144 \<le> (byte_of b::nat)"
      "cont_byte (byte_of b)" "cont_byte (byte_of c)" "cont_byte (byte_of d)"
      "\<And>u. decode_rune (a # b # c # d # u) = ((byte_of a mod 8) * 262144 + (byte_of b mod 64) * 4096
        + (byte_of c mod 64) * 64 + byte_of d mod 64, 4)"
proof -
  obtain a r where s: "s = a # r" using ne by (cases s) auto
  from w s have a: "\<not> byte_of a < (128::nat)" by (auto simp: decode_rune_def)
  with w s obtain sz lo hi where l: "lead_info (byte_of a) = Some (sz, lo, hi)"
    by (cases "lead_info (byte_of a)") (auto simp: decode_rune_def)
  note bd = lead_info_bounds [OF l]
  from w s a l have len: "\<not> length s < sz" by (auto simp: decode_rune_def)
  then obtain b r1 where r: "r = b # r1" using bd s by (cases r) auto
  from w s a l r len have lh: "\<not> (byte_of b < lo \<or> hi < byte_of b)" by (auto simp: decode_rune_def Let_def)
  with bd have cb: "cont_byte (byte_of b)" by (auto simp: cont_byte_def)
  consider "sz = 2" | "sz = 3" | "sz = 4" using bd by auto
  then show thesis
  proof cases
    case 1
    have "decode_rune (a # b # u) = ((byte_of a mod 32) * 64 + byte_of b mod 64, 2)" for u
      using a l lh 1 by (simp add: decode_rune_def)
    with two [of a b r1] s r bd cb 1 show thesis by simp
  next
    case 2
    then obtain c r2 where r1: "r1 = c # r2" using len s r by (cases r1) auto
    from w s a l r r1 len lh 2 have cc: "cont_byte (byte_of c)"
      by (intro ccontr [of "cont_byte (byte_of c)"]) (simp add: decode_rune_def)
    have "decode_rune (a # b # c # u) = ((byte_of a mod 16) * 4096 + (byte_of b mod 64) * 64 + byte_of c mod 64, 3)" for u
      using a l lh 2 cc by (simp add: decode_rune_def)
    with three [of a b c r2] s r r1 bd cb cc 2 show thesis by simp
  next
    case 3
    then obtain c d r2 where r1: "r1 = c # d # r2" using len s r by (cases r1; cases "tl r1") auto
    from w s a l r r1 len lh 3 have cc: "cont_byte (byte_of c)"
      by (intro ccontr [of "cont_byte (byte_of c)"]) (simp add: decode_rune_def)
    from w s a l r r1 len lh 3 cc have cd: "cont_byte (byte_of d)"
      by (intro ccontr [of "cont_byte (byte_of d)"]) (simp add: decode_rune_def)
    have "decode_rune (a # b # c # d # u) = ((byte_of a mod 8) * 262144 + (byte_of b mod 64) * 4096
        + (byte_of c mod 64) * 64 + byte_of d mod 64, 4)" for u
      using a l lh 3 cc cd by (simp add: decode_rune_def)
    moreover have "byte_of a = (240::nat) \<longrightarrow> 144 \<le> (byte_of b::nat)"
      using l lh by (auto simp: lead_info_def)
    ultimately show thesis using four [of a b c d r2] s r r1 bd cb cc cd 3 by simp
  qed
qed

lemma decode_rune_high:
  assumes "s \<noteq> []" "snd (decode_rune s) \<noteq> 1" "x \<in> set (take (snd (decode_rune s)) s)"
  shows "128 \<le> (byte_of x :: nat)"
  using assms(1,2)
proof (cases rule: decode_rune_multi)
  case (two a b t)
  with assms(3) show ?thesis by (auto simp: cont_byte_def)
next
  case (three a b c t)
  with assms(3) show ?thesis by (auto simp: cont_byte_def)
next
  case (four a b c d t)
  with assms(3) show ?thesis by (auto simp: cont_byte_def)
qed

lemma decode_rune_append:
  assumes "byte_of c < (128::nat) \<or> snd (decode_rune (c # s)) \<noteq> 1"
  shows "decode_rune (c # s @ t) = decode_rune (c # s)"
proof (cases "byte_of c < (128::nat)")
  case False
  have "c # s \<noteq> []" by simp
  moreover have "snd (decode_rune (c # s)) \<noteq> 1" using assms False by blast
  ultimately show ?thesis by (cases rule: decode_rune_multi) auto
qed simp

lemma mod_offset: "k * m \<le> x \<Longrightarrow> x < k * m + m \<Longrightarrow> x mod m = x - k * (m::nat)"
  using mod_mult_self1 [of "x - k * m" k m] by simp

lemma byte_mods:
  "224 \<le> x \<Longrightarrow> x \<le> 239 \<Longrightarrow> x mod 16 = x - (224::nat)"
  "cont_byte x \<Longrightarrow> x mod 64 = x - 128"
  "240 \<le> x \<Longrightarrow> x \<le> 244 \<Longrightarrow> x mod 8 = x - (240::nat)"
  using mod_offset [of 14 16 x] mod_offset [of 2 64 x] mod_offset [of 30 8 x] by (simp_all add: cont_byte_def)

text \<open>The first encoding of a valid string is read the same way whatever follows the string.\<close>

lemma valid_utf8_step:
  assumes "valid_utf8 (c # r)"
  defines "n \<equiv> snd (decode_rune (c # r))"
  shows "decode_rune (c # r @ q) = decode_rune (c # r)" "drop n (c # r @ q) = drop n (c # r) @ q"
    "take n (c # r @ q) = take n (c # r)" "valid_utf8 (drop n (c # r))" "length (drop n (c # r)) < length (c # r)"
    "byte_of c < (128::nat) \<or> n \<noteq> 1"
proof -
  show ok: "byte_of c < (128::nat) \<or> n \<noteq> 1" and v: "valid_utf8 (drop n (c # r))"
    using assms(1) unfolding n_def by (simp_all only: valid_utf8.simps(2))
  show "decode_rune (c # r @ q) = decode_rune (c # r)"
    using ok unfolding n_def by (rule decode_rune_append)
  have "n \<le> length (c # r)" using decode_rune_width [of "c # r"] unfolding n_def by simp
  then show "drop n (c # r @ q) = drop n (c # r) @ q" "take n (c # r @ q) = take n (c # r)"
    using drop_append [of n "c # r" q] take_append [of n "c # r" q] by simp_all
  show "length (drop n (c # r)) < length (c # r)" using decode_rune_pos [of c r] unfolding n_def by simp
qed

lemma valid_utf8_append_iff: "valid_utf8 p \<Longrightarrow> valid_utf8 (p @ q) \<longleftrightarrow> valid_utf8 q"
proof (induction p rule: length_induct)
  case (1 p)
  show ?case
  proof (cases p)
    case (Cons c r)
    note st = valid_utf8_step [OF "1.prems" [unfolded Cons]]
    have "valid_utf8 (drop (snd (decode_rune (c # r))) (c # r) @ q) = valid_utf8 q"
      using "1.IH" st(4,5) Cons by blast
    then show ?thesis unfolding Cons append_Cons valid_utf8.simps(2) st(1,2) using st(6) by blast
  qed simp
qed

text \<open>\<open>utf8.DecodeLastRuneInString\<close>: the search for the start of the last encoding looks at most
  \<open>UTFMax\<close> bytes back.\<close>

definition decode_last_rune :: "string \<Rightarrow> nat \<times> nat" where
  "decode_last_rune s =
     (if s = [] then (rune_error, 0)
      else if byte_of (last s) < 128 then (byte_of (last s), 1)
      else case find (\<lambda>k. k \<le> length s \<and> rune_start (byte_of (s ! (length s - k)))) [2, 3, 4] of
        None \<Rightarrow> (rune_error, 1)
      | Some k \<Rightarrow>
         (case decode_rune (drop (length s - k) s) of (r, n) \<Rightarrow>
            if n = k then (r, n) else (rune_error, 1)))"

lemma decode_last_rune_width:
  assumes "s \<noteq> []"
  shows "1 \<le> snd (decode_last_rune s) \<and> snd (decode_last_rune s) \<le> length s"
  using assms
  by (cases s) (auto simp: decode_last_rune_def find_Some_iff split: option.splits prod.splits)

lemma decode_last_rune_pos: "s \<noteq> [] \<Longrightarrow> 0 < snd (decode_last_rune s)"
  using decode_last_rune_width [of s] by simp

section \<open>White space\<close>

definition is_space :: "nat \<Rightarrow> bool" where
  "is_space r \<longleftrightarrow> (9 \<le> r \<and> r \<le> 13) \<or> r = 32 \<or> r = 133 \<or> r = 160 \<or> r = 5760
     \<or> (8192 \<le> r \<and> r \<le> 8202) \<or> r = 8232 \<or> r = 8233 \<or> r = 8239 \<or> r = 8287 \<or> r = 12288"

text \<open>\<open>isPythonWhitespace\<close>, shared by the artifact, source and memory packages.\<close>

definition is_python_whitespace :: "nat \<Rightarrow> bool" where
  "is_python_whitespace r \<longleftrightarrow> is_space r \<or> (28 \<le> r \<and> r \<le> 31)"

function trim_left :: "(nat \<Rightarrow> bool) \<Rightarrow> string \<Rightarrow> string" where
  "trim_left f [] = []"
| "trim_left f (c # s) =
     (if f (fst (decode_rune (c # s))) then trim_left f (drop (snd (decode_rune (c # s))) (c # s))
      else c # s)"
  by pat_completeness auto
termination
  by (relation "measure (\<lambda>(f, s). length s)") auto

function trim_right :: "(nat \<Rightarrow> bool) \<Rightarrow> string \<Rightarrow> string" where
  "trim_right f s =
     (if s = [] then []
      else if f (fst (decode_last_rune s))
           then trim_right f (take (length s - snd (decode_last_rune s)) s)
      else s)"
  by pat_completeness auto
termination
  by (relation "measure (\<lambda>(f, s). length s)") (auto simp: decode_last_rune_pos)

declare trim_left.simps(2) [simp del] trim_right.simps [simp del]

definition trim_func :: "(nat \<Rightarrow> bool) \<Rightarrow> string \<Rightarrow> string" where
  "trim_func f s = trim_right f (trim_left f s)"

definition trim_space :: "string \<Rightarrow> string" where
  "trim_space s = trim_func is_space s"

definition trim_python :: "string \<Rightarrow> string" where
  "trim_python s = trim_func is_python_whitespace s"

lemma trim_left_length: "length (trim_left f s) \<le> length s"
proof (induction f s rule: trim_left.induct)
  case (1 f)
  then show ?case by simp
next
  case (2 f c s)
  then show ?case by (auto simp: trim_left.simps(2) intro: order_trans)
qed

lemma trim_left_drop_less:
  "length (trim_left f (drop (snd (decode_rune (c # t))) (c # t))) < length (c # t)"
proof -
  have "length (drop (snd (decode_rune (c # t))) (c # t)) < length (c # t)"
    using decode_rune_pos [of c t] by simp
  then show ?thesis by (rule le_less_trans [OF trim_left_length])
qed

lemma trim_right_length: "length (trim_right f s) \<le> length s"
proof (induction f s rule: trim_right.induct)
  case (1 f s)
  then show ?case by (subst trim_right.simps) (auto intro: order_trans)
qed

lemma trim_func_length: "length (trim_func f s) \<le> length s"
  unfolding trim_func_def by (rule order_trans [OF trim_right_length trim_left_length])

lemma trim_right_Nil [simp]: "trim_right f [] = []"
  by (subst trim_right.simps) simp

lemma trim_func_Nil [simp]: "trim_func f [] = []"
  by (simp add: trim_func_def)

lemma trim_left_id:
  "trim_left f s = s \<longleftrightarrow> s = [] \<or> \<not> f (fst (decode_rune s))"
proof (cases s)
  case Nil
  then show ?thesis by simp
next
  case (Cons c t)
  have "length (trim_left f (drop (snd (decode_rune (c # t))) (c # t))) < length (c # t)"
    by (rule trim_left_drop_less)
  then show ?thesis using Cons by (auto simp: trim_left.simps(2))
qed

lemma trim_right_id:
  "trim_right f s = s \<longleftrightarrow> s = [] \<or> \<not> f (fst (decode_last_rune s))"
proof (cases "s = []")
  case True
  then show ?thesis by simp
next
  case False
  let ?t = "take (length s - snd (decode_last_rune s)) s"
  have "length ?t < length s"
    using decode_last_rune_pos [OF False] False by simp
  then have "length (trim_right f ?t) < length s"
    by (rule le_less_trans [OF trim_right_length])
  then show ?thesis using False by (subst trim_right.simps) auto
qed

lemma trim_func_eq_length:
  assumes "trim_func f s = s" shows "trim_left f s = s"
proof -
  have "length s \<le> length (trim_left f s)"
    using trim_right_length [of f "trim_left f s"] assms by (simp add: trim_func_def)
  then have "length (trim_left f s) = length s"
    using trim_left_length [of f s] by simp
  moreover have "trim_left f s = s \<or> length (trim_left f s) < length s"
  proof (cases s)
    case Nil
    then show ?thesis by simp
  next
    case (Cons c t)
    then show ?thesis
      using trim_left_drop_less [of f c t] by (auto simp: trim_left.simps(2))
  qed
  ultimately show ?thesis by simp
qed

text \<open>A string is its own trimming exactly when neither its first nor its last rune is trimmed.\<close>

lemma trim_func_id:
  "trim_func f s = s \<longleftrightarrow>
     s = [] \<or> \<not> f (fst (decode_rune s)) \<and> \<not> f (fst (decode_last_rune s))"
proof
  assume h: "trim_func f s = s"
  then have "trim_left f s = s" by (rule trim_func_eq_length)
  with h show "s = [] \<or> \<not> f (fst (decode_rune s)) \<and> \<not> f (fst (decode_last_rune s))"
    unfolding trim_func_def using trim_left_id trim_right_id by metis
next
  assume "s = [] \<or> \<not> f (fst (decode_rune s)) \<and> \<not> f (fst (decode_last_rune s))"
  then show "trim_func f s = s"
    unfolding trim_func_def using trim_left_id trim_right_id by metis
qed

text \<open>Trimming is idempotent: cutting the end of a string never turns its first rune into a white space.\<close>

lemma decode_rune_take:
  assumes "0 < n" shows "decode_rune (take n s) = decode_rune s \<or> fst (decode_rune (take n s)) = rune_error"
proof (cases s)
  case (Cons c rest)
  obtain m where n: "n = Suc m" using assms by (cases n) auto
  show ?thesis
  proof (cases "lead_info (byte_of c)")
    case None
    then show ?thesis by (simp add: n Cons decode_rune_def Let_def)
  next
    case (Some a)
    obtain sz lo hi where a: "a = (sz, lo, hi)" by (cases a)
    have "2 \<le> sz" "sz \<le> 4" using Some a lead_info_size by auto
    show ?thesis
    proof (cases "Suc (length (take m rest)) < sz")
      case True
      then show ?thesis using Some a by (auto simp: n Cons decode_rune_def Let_def)
    next
      case False
      then have "sz \<le> Suc m" "sz \<le> Suc (length rest)" by auto
      with \<open>2 \<le> sz\<close> \<open>sz \<le> 4\<close> show ?thesis using Some a
        by (auto simp: n Cons decode_rune_def Let_def)
    qed
  qed
qed simp

lemma trim_right_prefix: "\<exists>n. trim_right f s = take n s"
proof (induction f s rule: trim_right.induct)
  case (1 f s)
  show ?case
  proof (cases "s \<noteq> [] \<and> f (fst (decode_last_rune s))")
    case True
    then obtain n where "trim_right f (take (length s - snd (decode_last_rune s)) s)
        = take n (take (length s - snd (decode_last_rune s)) s)"
      using 1 by blast
    with True show ?thesis by (subst trim_right.simps) auto
  next
    case False
    then have "trim_right f s = take (length s) s" by (subst trim_right.simps) auto
    then show ?thesis ..
  qed
qed

lemma trim_right_idem: "trim_right f (trim_right f s) = trim_right f s"
proof (induction f s rule: trim_right.induct)
  case (1 f s)
  show ?case
  proof (cases "s \<noteq> [] \<and> f (fst (decode_last_rune s))")
    case True
    then have "trim_right f s = trim_right f (take (length s - snd (decode_last_rune s)) s)"
      by (subst trim_right.simps) simp
    with True 1 show ?thesis by simp
  next
    case False
    then have "trim_right f s = s" by (auto simp: trim_right_id)
    then show ?thesis by simp
  qed
qed

lemma trim_left_first: "trim_left f s = [] \<or> \<not> f (fst (decode_rune (trim_left f s)))"
proof (induction f s rule: trim_left.induct)
  case (2 f c s)
  then show ?case by (simp add: trim_left.simps(2) [of f c s])
qed simp

lemma trim_func_idem:
  assumes "\<not> f rune_error" shows "trim_func f (trim_func f s) = trim_func f s"
proof -
  let ?t = "trim_func f s"
  obtain n where n: "?t = take n (trim_left f s)" using trim_right_prefix unfolding trim_func_def by blast
  have "?t = [] \<or> \<not> f (fst (decode_rune ?t))"
  proof (cases "n = 0")
    case False
    then show ?thesis
      using decode_rune_take [of n "trim_left f s"] trim_left_first [of f s] assms by (auto simp: n)
  qed (simp add: n)
  then have "trim_left f ?t = ?t" by (simp add: trim_left_id)
  then show ?thesis by (simp add: trim_func_def trim_right_idem)
qed

lemma trim_python_idem [simp]: "trim_python (trim_python s) = trim_python s"
  unfolding trim_python_def by (rule trim_func_idem) (simp add: is_python_whitespace_def is_space_def rune_error_def)

section \<open>Plain words\<close>

text \<open>Words of graphic ASCII characters, the shape of the identifiers used on concrete inputs:
  each byte is a rune and nothing is trimmed.\<close>

definition graphic :: "string \<Rightarrow> bool" where
  "graphic s \<longleftrightarrow> list_all (\<lambda>c. 33 \<le> byte_of c \<and> byte_of c < 127) s"

lemma graphic_ascii: "graphic s \<Longrightarrow> list_all (\<lambda>c. byte_of c < 128) s"
  by (auto simp: graphic_def list_all_iff)

lemma graphic_runes: "graphic s \<Longrightarrow> runes s = map byte_of s"
  by (rule runes_ascii) (rule graphic_ascii)

lemma graphic_rune_count: "graphic s \<Longrightarrow> rune_count s = length s"
  by (simp add: rune_count_def graphic_runes)

lemma graphic_valid: "graphic s \<Longrightarrow> valid_utf8 s"
  by (rule valid_utf8_ascii) (rule graphic_ascii)

lemma graphic_trim:
  assumes "graphic s" shows "trim_space s = s" "trim_python s = s"
proof -
  have g: "s = [] \<or> (fst (decode_rune s) = byte_of (hd s) \<and> fst (decode_last_rune s) = byte_of (last s)
      \<and> (\<forall>c \<in> {hd s, last s}. 33 \<le> byte_of c \<and> byte_of c < 127))"
  proof (cases s)
    case (Cons c t)
    then have "last s \<in> set s" "hd s \<in> set s" by simp_all
    then have "33 \<le> byte_of (hd s) \<and> byte_of (hd s) < 127" "33 \<le> byte_of (last s) \<and> byte_of (last s) < 127"
      using assms by (auto simp: graphic_def list_all_iff)
    with Cons show ?thesis by (auto simp: decode_last_rune_def)
  qed simp
  have "\<not> is_python_whitespace r \<and> \<not> is_space r" if "33 \<le> r \<and> r < 127" for r :: nat
    using that by (auto simp: is_python_whitespace_def is_space_def)
  then show "trim_space s = s" "trim_python s = s"
    using g unfolding trim_space_def trim_python_def trim_func_id by auto
qed

lemmas graphic_text = graphic_valid graphic_rune_count graphic_trim

end
