(* ===== verification/Artifact_Model.thy ===== *)
theory Artifact_Model
  imports Go_Text
begin

text \<open>
  The immutable values every other component exchanges: Source references and values
  (\<open>source/model.go\<close>, \<open>source/journal.go\<close>), Artifact references, lineage, drafts and revisions
  (\<open>artifact/model.go\<close>), the generic Artifact service (\<open>artifact/service.go\<close>) and bounded generation
  evidence (\<open>artifact/generation.go\<close>). A Go constructor that validates becomes a function into
  \<open>error + value\<close> with the checks in the source's order. Go's defensive copies of slices have no
  counterpart: HOL values are never shared.
\<close>

section \<open>Decimal formatting\<close>

definition digit_char :: "nat \<Rightarrow> char" where
  "digit_char d = char_of (48 + d)"

fun show_nat :: "nat \<Rightarrow> string" where
  "show_nat n = (if n < 10 then [digit_char n] else show_nat (n div 10) @ [digit_char (n mod 10)])"

declare show_nat.simps [simp del]

definition show_int :: "int \<Rightarrow> string" where
  "show_int i = (if i < 0 then ''-'' @ show_nat (nat (- i)) else show_nat (nat i))"

lemma show_nat_nonempty: "show_nat n \<noteq> []"
  by (subst show_nat.simps) simp

lemma byte_of_digit: "d < 10 \<Longrightarrow> byte_of (digit_char d) = 48 + d"
  by (simp add: digit_char_def)

lemma show_nat_digits: "c \<in> set (show_nat n) \<Longrightarrow> 48 \<le> byte_of c \<and> byte_of c \<le> 57"
proof (induction n rule: show_nat.induct)
  case (1 n)
  show ?case
  proof (cases "n < 10")
    case True
    with "1.prems" show ?thesis by (subst (asm) show_nat.simps) (simp add: byte_of_digit)
  next
    case False
    then have "c \<in> set (show_nat (n div 10)) \<or> c = digit_char (n mod 10)"
      using "1.prems" by (subst (asm) show_nat.simps) auto
    moreover have "byte_of (digit_char (n mod 10)) = 48 + n mod 10"
      by (rule byte_of_digit) simp
    ultimately show ?thesis using "1.IH" False by force
  qed
qed

section \<open>Source references and values\<close>

datatype source_error =
    SrcInvalidReference string string
  | SrcInvalidEntry
  | SrcInvalidMaterialization string
  | SrcNotFound
  | SrcAdapterNotFound string string
  | SrcInvalidAdapter string string
  | SrcConflict string string
  | SrcInvalidResult string string string string
  | SrcJournal string

record source_ref =
  sr_type :: string
  sr_id :: string

definition max_source_id_length :: nat where
  "max_source_id_length = 256"

definition max_source_type_length :: nat where
  "max_source_type_length = 128"

definition too_long_detail :: "nat \<Rightarrow> string" where
  "too_long_detail maximum = ''must not exceed '' @ show_nat maximum @ '' characters''"

definition validate_reference_part :: "string \<Rightarrow> string \<Rightarrow> nat \<Rightarrow> source_error + unit" where
  "validate_reference_part field value maximum =
     (let trimmed = trim_python value in
      if trimmed = [] then Inl (SrcInvalidReference field ''must be a non-empty string'')
      else if value \<noteq> trimmed
        then Inl (SrcInvalidReference field ''must not contain leading or trailing whitespace'')
      else if rune_count value > maximum then Inl (SrcInvalidReference field (too_long_detail maximum))
      else Inr ())"

definition new_source_ref :: "string \<Rightarrow> string \<Rightarrow> source_error + source_ref" where
  "new_source_ref source_type source_id =
     and_then (validate_reference_part ''source_type'' source_type max_source_type_length) (\<lambda>_.
     and_then (validate_reference_part ''source_id'' source_id max_source_id_length) (\<lambda>_.
     Inr \<lparr>sr_type = source_type, sr_id = source_id\<rparr>))"

text \<open>A Source value is an adapter-owned Go value: its dynamic type, the name and materialization its
  interface methods return, and the rest of its fields.\<close>

record source_value =
  sv_type :: string
  sv_name :: string
  sv_materialization :: string
  sv_fields :: "string list"

definition validate_source_value :: "source_value option \<Rightarrow> source_error + unit" where
  "validate_source_value value = (case value of
     None \<Rightarrow> Inl SrcInvalidEntry
   | Some v \<Rightarrow>
      (case new_source_ref ''source'' (sv_name v) of
         Inl (SrcInvalidReference field detail) \<Rightarrow> Inl (SrcInvalidReference ''source_id'' detail)
       | Inl e \<Rightarrow> Inl e
       | Inr _ \<Rightarrow>
          (if sv_materialization v = ''captured'' \<or> sv_materialization v = ''referenced'' then Inr ()
           else Inl (SrcInvalidMaterialization (sv_materialization v)))))"

record journal_entry =
  je_ref :: source_ref
  je_value :: source_value
  je_position :: int

definition new_journal_entry ::
  "source_ref \<Rightarrow> source_value option \<Rightarrow> int \<Rightarrow> source_error + journal_entry" where
  "new_journal_entry ref value position =
     and_then (new_source_ref (sr_type ref) (sr_id ref)) (\<lambda>_.
     and_then (validate_source_value value) (\<lambda>_.
     case value of
       None \<Rightarrow> Inl SrcInvalidEntry
     | Some v \<Rightarrow>
        and_then (check (sv_name v = sr_id ref)
          (SrcJournal ''Source journal identity does not match its value'')) (\<lambda>_.
        and_then (check (1 \<le> position)
          (SrcJournal ''Source journal position must be positive'')) (\<lambda>_.
        Inr \<lparr>je_ref = ref, je_value = v, je_position = position\<rparr>))))"

section \<open>Artifact references and revisions\<close>

record artifact_ref =
  ar_family :: string
  ar_id :: string
  ar_revision :: int

datatype artifact_error =
    ArtNotFound artifact_ref
  | ArtInvalidReference string string
  | ArtFamilyMismatch string string
  | ArtRevisionConflict artifact_ref artifact_ref
  | ArtSource source_error

definition max_family_length :: nat where
  "max_family_length = 128"

definition max_artifact_id_length :: nat where
  "max_artifact_id_length = 128"

definition validate_part :: "string \<Rightarrow> string \<Rightarrow> nat \<Rightarrow> artifact_error + unit" where
  "validate_part field value maximum =
     (let trimmed = trim_python value in
      if trimmed = [] then Inl (ArtInvalidReference field ''must be a non-empty string'')
      else if value \<noteq> trimmed
        then Inl (ArtInvalidReference field ''must not contain leading or trailing whitespace'')
      else if rune_count value > maximum then Inl (ArtInvalidReference field (too_long_detail maximum))
      else Inr ())"

definition new_artifact_ref :: "string \<Rightarrow> string \<Rightarrow> int \<Rightarrow> artifact_error + artifact_ref" where
  "new_artifact_ref family artifact_id revision =
     and_then (validate_part ''family'' family max_family_length) (\<lambda>_.
     and_then (validate_part ''artifact_id'' artifact_id max_artifact_id_length) (\<lambda>_.
     and_then (check (1 \<le> revision)
       (ArtInvalidReference ''revision'' ''must be greater than or equal to 1'')) (\<lambda>_.
     Inr \<lparr>ar_family = family, ar_id = artifact_id, ar_revision = revision\<rparr>)))"

definition artifact_ref_string :: "artifact_ref \<Rightarrow> string" where
  "artifact_ref_string r = ar_family r @ '':'' @ ar_id r @ ''@'' @ show_int (ar_revision r)"

definition validate_artifact_ref :: "artifact_ref \<Rightarrow> artifact_error + unit" where
  "validate_artifact_ref r =
     and_then (new_artifact_ref (ar_family r) (ar_id r) (ar_revision r)) (\<lambda>_. Inr ())"

record lineage =
  li_sources :: "source_ref list"
  li_artifacts :: "artifact_ref list"

definition new_lineage :: "source_ref list \<Rightarrow> artifact_ref list \<Rightarrow> artifact_error + lineage" where
  "new_lineage sources artifacts =
     and_then (map_res (\<lambda>r. map_sum ArtSource id (new_source_ref (sr_type r) (sr_id r))) sources) (\<lambda>_.
     and_then (map_res validate_artifact_ref artifacts) (\<lambda>_.
     Inr \<lparr>li_sources = sources, li_artifacts = artifacts\<rparr>))"

record 'c draft =
  dr_family :: string
  dr_content :: 'c
  dr_lineage :: lineage

definition new_draft ::
  "string \<Rightarrow> 'c \<Rightarrow> source_ref list \<Rightarrow> artifact_ref list \<Rightarrow> artifact_error + 'c draft" where
  "new_draft family content sources artifacts =
     and_then (validate_part ''family'' family max_family_length) (\<lambda>_.
     and_then (new_lineage sources artifacts) (\<lambda>lin.
     Inr \<lparr>dr_family = family, dr_content = content, dr_lineage = lin\<rparr>))"

record 'c artifact =
  a_ref :: artifact_ref
  a_content :: 'c
  a_lineage :: lineage

definition new_artifact :: "string \<Rightarrow> int \<Rightarrow> 'c draft \<Rightarrow> artifact_error + 'c artifact" where
  "new_artifact artifact_id revision d =
     and_then (new_artifact_ref (dr_family d) artifact_id revision) (\<lambda>ref.
     Inr \<lparr>a_ref = ref, a_content = dr_content d, a_lineage = dr_lineage d\<rparr>)"

definition restore_artifact ::
  "artifact_ref \<Rightarrow> 'c \<Rightarrow> lineage \<Rightarrow> artifact_error + 'c artifact" where
  "restore_artifact ref content lin =
     and_then (validate_artifact_ref ref) (\<lambda>_.
     and_then (new_lineage (li_sources lin) (li_artifacts lin)) (\<lambda>validated.
     Inr \<lparr>a_ref = ref, a_content = content, a_lineage = validated\<rparr>))"

text \<open>\<open>Service.Revise\<close> of the generic Artifact service, over the store it delegates to.\<close>

definition artifact_service_revise ::
  "('s \<Rightarrow> 'c artifact \<Rightarrow> 'c draft \<Rightarrow> artifact_error + 'c artifact \<times> 's) \<Rightarrow>
   's \<Rightarrow> 'c artifact \<Rightarrow> 'c draft \<Rightarrow> artifact_error + 'c artifact \<times> 's" where
  "artifact_service_revise store_revise s current d =
     (if ar_family (a_ref current) \<noteq> dr_family d
      then Inl (ArtFamilyMismatch (ar_family (a_ref current)) (dr_family d))
      else store_revise s current d)"

section \<open>Generation evidence\<close>

record generation_evidence =
  ge_id :: string
  ge_kind :: string
  ge_content :: string
  ge_truncated :: bool

definition new_generation_evidence ::
  "string \<Rightarrow> string \<Rightarrow> string \<Rightarrow> bool \<Rightarrow> string + generation_evidence" where
  "new_generation_evidence eid kind content truncated =
     (if eid = [] then Inl ''generation evidence ID must not be empty''
      else if kind \<noteq> ''source'' \<and> kind \<noteq> ''artifact'' then Inl ''invalid generation evidence kind''
      else if content = [] \<or> rune_count content > 64000
        then Inl ''generation evidence content must contain 1..64000 characters''
      else Inr \<lparr>ge_id = eid, ge_kind = kind, ge_content = content, ge_truncated = truncated\<rparr>)"

record generation_input =
  gi_evidence :: "generation_evidence list"
  gi_target :: "string option"

definition new_generation_input ::
  "generation_evidence list \<Rightarrow> string option \<Rightarrow> string + generation_input" where
  "new_generation_input evidence target =
     (if length evidence < 1 \<or> length evidence > 32
      then Inl ''generation evidence must contain 1..32 items''
      else if (case target of None \<Rightarrow> False | Some t \<Rightarrow> trim_space t = [])
      then Inl ''target evidence ID must not be blank''
      else Inr \<lparr>gi_evidence = evidence, gi_target = target\<rparr>)"

section \<open>Validity\<close>

text \<open>What the two reference validators accept, stated without the trimming loop.\<close>

definition valid_part :: "nat \<Rightarrow> string \<Rightarrow> bool" where
  "valid_part maximum s \<longleftrightarrow> s \<noteq> [] \<and> \<not> is_python_whitespace (fst (decode_rune s))
     \<and> \<not> is_python_whitespace (fst (decode_last_rune s)) \<and> rune_count s \<le> maximum"

definition wf_artifact_ref :: "artifact_ref \<Rightarrow> bool" where
  "wf_artifact_ref r \<longleftrightarrow> valid_part 128 (ar_family r) \<and> valid_part 128 (ar_id r) \<and> 1 \<le> ar_revision r"

definition wf_source_ref :: "source_ref \<Rightarrow> bool" where
  "wf_source_ref r \<longleftrightarrow> valid_part 128 (sr_type r) \<and> valid_part 256 (sr_id r)"

definition wf_lineage :: "lineage \<Rightarrow> bool" where
  "wf_lineage l \<longleftrightarrow> list_all wf_source_ref (li_sources l) \<and> list_all wf_artifact_ref (li_artifacts l)"

definition wf_artifact :: "'c artifact \<Rightarrow> bool" where
  "wf_artifact a \<longleftrightarrow> wf_artifact_ref (a_ref a) \<and> wf_lineage (a_lineage a)"

lemma valid_part_trim: "valid_part n s \<longleftrightarrow> s \<noteq> [] \<and> trim_python s = s \<and> rune_count s \<le> n"
  by (auto simp: valid_part_def trim_python_def trim_func_id)

lemma graphic_valid_part: "graphic s \<Longrightarrow> s \<noteq> [] \<Longrightarrow> length s \<le> n \<Longrightarrow> valid_part n s"
  by (simp add: valid_part_trim graphic_text)

lemma validate_part_iff: "validate_part f s n = Inr u \<longleftrightarrow> valid_part n s"
  by (auto simp: validate_part_def valid_part_trim Let_def)

lemma validate_reference_part_iff: "validate_reference_part f s n = Inr u \<longleftrightarrow> valid_part n s"
  by (auto simp: validate_reference_part_def valid_part_trim Let_def)

lemma new_artifact_ref_iff:
  "new_artifact_ref f i n = Inr r \<longleftrightarrow>
     r = \<lparr>ar_family = f, ar_id = i, ar_revision = n\<rparr> \<and> wf_artifact_ref r"
  by (auto simp: new_artifact_ref_def res_simps validate_part_iff wf_artifact_ref_def
      max_family_length_def max_artifact_id_length_def)

lemma new_source_ref_iff:
  "new_source_ref t i = Inr r \<longleftrightarrow> r = \<lparr>sr_type = t, sr_id = i\<rparr> \<and> wf_source_ref r"
  by (auto simp: new_source_ref_def res_simps validate_reference_part_iff wf_source_ref_def
      max_source_type_length_def max_source_id_length_def)

lemma validate_artifact_ref_iff: "validate_artifact_ref r = Inr u \<longleftrightarrow> wf_artifact_ref r"
  by (auto simp: validate_artifact_ref_def res_simps new_artifact_ref_iff wf_artifact_ref_def)

lemma map_res_unit_iff:
  fixes f :: "'a \<Rightarrow> 'e + 'b"
  assumes "\<And>x. (\<exists>y. f x = Inr y) \<longleftrightarrow> P x"
  shows "(\<exists>ys. map_res f xs = Inr ys) \<longleftrightarrow> list_all P xs"
proof (induction xs)
  case Nil
  then show ?case by simp
next
  case (Cons x xs)
  have "(\<exists>ys. map_res f (x # xs) = Inr ys) \<longleftrightarrow> (\<exists>y. f x = Inr y) \<and> (\<exists>ys. map_res f xs = Inr ys)"
    unfolding map_res.simps and_then_eq_Inr by blast
  then show ?case using Cons assms by simp
qed

lemma new_lineage_iff:
  "new_lineage ss as = Inr l \<longleftrightarrow> l = \<lparr>li_sources = ss, li_artifacts = as\<rparr> \<and> wf_lineage l"
proof -
  have s: "(\<exists>ys. map_res (\<lambda>r. map_sum ArtSource id (new_source_ref (sr_type r) (sr_id r))) ss = Inr ys)
      \<longleftrightarrow> list_all wf_source_ref ss"
    by (rule map_res_unit_iff) (simp add: map_sum_eq_Inr new_source_ref_iff wf_source_ref_def)
  have a: "(\<exists>ys. map_res validate_artifact_ref as = Inr ys) \<longleftrightarrow> list_all wf_artifact_ref as"
    by (rule map_res_unit_iff) (simp add: validate_artifact_ref_iff)
  have "new_lineage ss as = Inr l \<longleftrightarrow>
      (\<exists>ys. map_res (\<lambda>r. map_sum ArtSource id (new_source_ref (sr_type r) (sr_id r))) ss = Inr ys)
      \<and> (\<exists>ys. map_res validate_artifact_ref as = Inr ys)
      \<and> l = \<lparr>li_sources = ss, li_artifacts = as\<rparr>"
    unfolding new_lineage_def and_then_eq_Inr by auto
  with s a show ?thesis by (auto simp: wf_lineage_def)
qed

lemma new_draft_iff:
  "new_draft f c ss as = Inr d \<longleftrightarrow>
     d = \<lparr>dr_family = f, dr_content = c, dr_lineage = \<lparr>li_sources = ss, li_artifacts = as\<rparr>\<rparr>
     \<and> valid_part 128 f \<and> wf_lineage (dr_lineage d)"
  by (auto simp: new_draft_def res_simps validate_part_iff new_lineage_iff max_family_length_def)

lemma new_artifact_iff:
  "new_artifact i n d = Inr a \<longleftrightarrow>
     a = \<lparr>a_ref = \<lparr>ar_family = dr_family d, ar_id = i, ar_revision = n\<rparr>,
          a_content = dr_content d, a_lineage = dr_lineage d\<rparr> \<and> wf_artifact_ref (a_ref a)"
  by (auto simp: new_artifact_def res_simps new_artifact_ref_iff)

text \<open>Restoring a stored revision is the identity on well-formed Artifacts: the value copies the
  code takes by \<open>Restore\<close> lose nothing.\<close>

lemma restore_artifact_wf:
  "wf_artifact a \<Longrightarrow> restore_artifact (a_ref a) (a_content a) (a_lineage a) = Inr a"
  by (cases a; cases "a_lineage a")
    (simp add: restore_artifact_def res_simps wf_artifact_def validate_artifact_ref_iff new_lineage_iff)

end
