(* ===== verification/Runtime_Lifecycle.thy ===== *)
theory Runtime_Lifecycle
  imports Scope_Cache Artifact_Model
begin

text \<open>
  Operation admission, per-Scope write serialization and shutdown of
  \<open>internal/runtime/lifecycle.go\<close>. Every critical section of \<open>stateMu\<close> and of the cache mutex is one
  atomic operation on the record \<open>runtime\<close>; goroutines interleave through the step relation
  \<open>rt_step\<close>, one rule per point where an operation, a writer, a background processor or \<open>Close\<close>
  makes progress. A Go panic sets \<open>rt_panicked\<close>, so that its absence is a theorem.
\<close>

section \<open>Scope identifiers\<close>

datatype runtime_error =
    StateError string
  | InvalidScope string
  | Cancelled
  | ScopesActive string
  | DependencyError string

definition max_scope_id_length :: nat where
  "max_scope_id_length = 256"

definition validate_scope_id :: "string \<Rightarrow> runtime_error + string" where
  "validate_scope_id scope_id =
     (if \<not> valid_utf8 scope_id \<or> trim_space scope_id = [] then Inl (InvalidScope ''must not be empty'')
      else if rune_count scope_id > max_scope_id_length
        then Inl (InvalidScope (too_long_detail max_scope_id_length))
      else Inr scope_id)"

section \<open>The Runtime record and its critical sections\<close>

datatype channel = ChanOpen | ChanClosed

record scheduler_state =
  sch_paused :: bool
  sch_closed :: bool

datatype close_event = SchedulerPaused | SchedulerClosed | ScopesCleared | ResourceClosed nat

record runtime =
  rt_closing :: bool
  rt_closed :: bool
  rt_active :: int
  rt_drained :: "channel option"
  rt_scopes :: scope_cache
  rt_background :: bool
  rt_scheduler :: "scheduler_state option"
  rt_resources :: "bool list"
  rt_log :: "close_event list"
  rt_panicked :: bool

text \<open>\<open>rt_resources\<close> records, per owned resource slot, whether the slot is non-nil;
  \<open>rt_background\<close> is the token of the background semaphore.\<close>

definition new_configured :: "int \<Rightarrow> bool list \<Rightarrow> string + runtime" where
  "new_configured scope_cache_size resources =
     (let capacity = (if scope_cache_size = 0 then 128 else scope_cache_size) in
      if capacity < 1 then Inl ''runtime: scope_cache_size must be positive''
      else Inr \<lparr>rt_closing = False, rt_closed = False, rt_active = 0, rt_drained = None,
                rt_scopes = new_scope_cache (nat capacity), rt_background = True,
                rt_scheduler = None, rt_resources = resources, rt_log = [], rt_panicked = False\<rparr>)"

definition attach_scheduler :: "runtime \<Rightarrow> runtime_error + runtime" where
  "attach_scheduler r =
     (if rt_closing r \<or> rt_closed r then Inl (StateError ''closed'')
      else if rt_scheduler r \<noteq> None then Inl (StateError ''scheduler'')
      else Inr (r\<lparr>rt_scheduler := Some \<lparr>sch_paused = False, sch_closed = False\<rparr>\<rparr>))"

definition admit :: "bool \<Rightarrow> runtime \<Rightarrow> runtime_error + runtime" where
  "admit cancelled r =
     (if cancelled then Inl Cancelled
      else if rt_closing r \<or> rt_closed r then Inl (StateError ''closed'')
      else Inr (r\<lparr>rt_active := rt_active r + 1\<rparr>))"

text \<open>Closing an already closed channel panics.\<close>

definition close_channel :: "runtime \<Rightarrow> runtime" where
  "close_channel r = (case rt_drained r of
     Some ChanOpen \<Rightarrow> r\<lparr>rt_drained := Some ChanClosed\<rparr>
   | _ \<Rightarrow> r\<lparr>rt_panicked := True\<rparr>)"

definition release :: "runtime \<Rightarrow> runtime" where
  "release r =
     (let r1 = r\<lparr>rt_active := rt_active r - 1\<rparr> in
      if rt_active r1 = 0 \<and> rt_closing r1 \<and> rt_drained r1 \<noteq> None then close_channel r1 else r1)"

definition close_begin :: "runtime \<Rightarrow> runtime" where
  "close_begin r =
     (if rt_closing r then r
      else let r1 = r\<lparr>rt_closing := True, rt_drained := Some ChanOpen\<rparr> in
           if rt_active r1 = 0 then close_channel r1 else r1)"

definition close_cancel :: "runtime \<Rightarrow> runtime" where
  "close_cancel r = r\<lparr>rt_closing := False, rt_drained := None\<rparr>"

definition close_scheduler :: "runtime \<Rightarrow> runtime" where
  "close_scheduler r = (case rt_scheduler r of
     None \<Rightarrow> r
   | Some s \<Rightarrow> r\<lparr>rt_scheduler := Some \<lparr>sch_paused = True, sch_closed = True\<rparr>,
                 rt_log := rt_log r @ [SchedulerPaused, SchedulerClosed]\<rparr>)"

definition close_scheduler_failed :: "runtime \<Rightarrow> runtime" where
  "close_scheduler_failed r = (case rt_scheduler r of
     None \<Rightarrow> r
   | Some s \<Rightarrow> r\<lparr>rt_scheduler := Some (s\<lparr>sch_paused := True\<rparr>), rt_log := rt_log r @ [SchedulerPaused]\<rparr>)"

definition close_resource :: "nat \<Rightarrow> runtime \<Rightarrow> runtime" where
  "close_resource index r =
     (if index < length (rt_resources r) \<and> rt_resources r ! index
      then r\<lparr>rt_log := rt_log r @ [ResourceClosed index]\<rparr> else r)"

definition close_done :: "runtime \<Rightarrow> runtime" where
  "close_done r = r\<lparr>rt_closed := True, rt_closing := False, rt_drained := None\<rparr>"

section \<open>Interleavings\<close>

text \<open>Where an operation is: admitted, holding a lease on its Scope entry, holding the entry's token,
  past its token, running in the background, or about to release its admission.\<close>

datatype op_kind = Plain | Read string | Write string | Background

datatype phase =
    Idle
  | Admitted op_kind
  | Leased op_kind nat
  | Locked string nat
  | Unlocked string nat
  | BgRunning
  | Returning

datatype close_phase = CIdle | CWait | CScheduler | CScopes | CResources nat | CMark

record rt_sys =
  sys_rt :: runtime
  sys_ph :: "nat \<Rightarrow> phase"
  sys_close :: close_phase

fun scope_of_kind :: "op_kind \<Rightarrow> string option" where
  "scope_of_kind (Read s) = Some s"
| "scope_of_kind (Write s) = Some s"
| "scope_of_kind Plain = None"
| "scope_of_kind Background = None"

definition admissible :: "op_kind \<Rightarrow> bool" where
  "admissible k = (case scope_of_kind k of None \<Rightarrow> True | Some s \<Rightarrow> validate_scope_id s = Inr s)"

fun held_entry :: "phase \<Rightarrow> nat option" where
  "held_entry (Leased k a) = Some a"
| "held_entry (Locked s a) = Some a"
| "held_entry (Unlocked s a) = Some a"
| "held_entry _ = None"

fun held_scope :: "phase \<Rightarrow> string option" where
  "held_scope (Leased k a) = scope_of_kind k"
| "held_scope (Locked s a) = Some s"
| "held_scope (Unlocked s a) = Some s"
| "held_scope _ = None"

fun may_drop :: "phase \<Rightarrow> bool" where
  "may_drop (Leased k a) = True"
| "may_drop (Unlocked s a) = True"
| "may_drop _ = False"

definition set_phase :: "rt_sys \<Rightarrow> nat \<Rightarrow> phase \<Rightarrow> runtime \<Rightarrow> rt_sys" where
  "set_phase s i p r = s\<lparr>sys_rt := r, sys_ph := (sys_ph s)(i := p)\<rparr>"

inductive rt_step :: "rt_sys \<Rightarrow> rt_sys \<Rightarrow> bool" where
  op_admit: "sys_ph s i = Idle \<Longrightarrow> admissible k \<Longrightarrow> admit False (sys_rt s) = Inr r \<Longrightarrow>
     rt_step s (set_phase s i (Admitted k) r)"
| op_finish: "sys_ph s i = Admitted k \<Longrightarrow> rt_step s (set_phase s i Returning (sys_rt s))"
| op_lease: "sys_ph s i = Admitted k \<Longrightarrow> scope_of_kind k = Some sc \<Longrightarrow>
     lease (rt_scopes (sys_rt s)) sc = (a, c') \<Longrightarrow>
     rt_step s (set_phase s i (Leased k a) ((sys_rt s)\<lparr>rt_scopes := c'\<rparr>))"
| op_lock: "sys_ph s i = Leased (Write sc) a \<Longrightarrow> try_acquire (rt_scopes (sys_rt s)) a = Some c' \<Longrightarrow>
     rt_step s (set_phase s i (Locked sc a) ((sys_rt s)\<lparr>rt_scopes := c'\<rparr>))"
| op_unlock: "sys_ph s i = Locked sc a \<Longrightarrow>
     rt_step s (set_phase s i (Unlocked sc a)
       ((sys_rt s)\<lparr>rt_scopes := put_token (rt_scopes (sys_rt s)) a\<rparr>))"
| op_drop: "may_drop (sys_ph s i) \<Longrightarrow> held_entry (sys_ph s i) = Some a \<Longrightarrow>
     release_lease (rt_scopes (sys_rt s)) a = Released c' \<Longrightarrow>
     rt_step s (set_phase s i Returning ((sys_rt s)\<lparr>rt_scopes := c'\<rparr>))"
| op_drop_panic: "may_drop (sys_ph s i) \<Longrightarrow> held_entry (sys_ph s i) = Some a \<Longrightarrow>
     release_lease (rt_scopes (sys_rt s)) a = LeaseInvariantPanic \<Longrightarrow>
     rt_step s (set_phase s i Returning ((sys_rt s)\<lparr>rt_panicked := True\<rparr>))"
| op_bg_start: "sys_ph s i = Admitted Background \<Longrightarrow> rt_background (sys_rt s) \<Longrightarrow>
     rt_step s (set_phase s i BgRunning ((sys_rt s)\<lparr>rt_background := False\<rparr>))"
| op_bg_done: "sys_ph s i = BgRunning \<Longrightarrow>
     rt_step s (set_phase s i Returning ((sys_rt s)\<lparr>rt_background := True\<rparr>))"
| op_return: "sys_ph s i = Returning \<Longrightarrow> rt_step s (set_phase s i Idle (release (sys_rt s)))"
| do_attach: "attach_scheduler (sys_rt s) = Inr r \<Longrightarrow> rt_step s (s\<lparr>sys_rt := r\<rparr>)"
| do_begin: "sys_close s = CIdle \<Longrightarrow> \<not> rt_closed (sys_rt s) \<Longrightarrow>
     rt_step s (s\<lparr>sys_rt := close_begin (sys_rt s), sys_close := CWait\<rparr>)"
| do_cancel: "sys_close s = CWait \<Longrightarrow>
     rt_step s (s\<lparr>sys_rt := close_cancel (sys_rt s), sys_close := CIdle\<rparr>)"
| do_drained: "sys_close s = CWait \<Longrightarrow> rt_drained (sys_rt s) = Some ChanClosed \<Longrightarrow>
     rt_step s (s\<lparr>sys_close := CScheduler\<rparr>)"
| do_scheduler: "sys_close s = CScheduler \<Longrightarrow>
     rt_step s (s\<lparr>sys_rt := close_scheduler (sys_rt s), sys_close := CScopes\<rparr>)"
| do_scheduler_error: "sys_close s = CScheduler \<Longrightarrow> rt_scheduler (sys_rt s) \<noteq> None \<Longrightarrow>
     rt_step s (s\<lparr>sys_rt := close_scheduler_failed (sys_rt s), sys_close := CIdle\<rparr>)"
| do_scopes: "sys_close s = CScopes \<Longrightarrow> clear_cache (rt_scopes (sys_rt s)) = Inr c' \<Longrightarrow>
     rt_step s (s\<lparr>sys_rt := (sys_rt s)\<lparr>rt_scopes := c', rt_log := rt_log (sys_rt s) @ [ScopesCleared]\<rparr>,
                  sys_close := CResources (length (rt_resources (sys_rt s)))\<rparr>)"
| do_scopes_error: "sys_close s = CScopes \<Longrightarrow> clear_cache (rt_scopes (sys_rt s)) = Inl e \<Longrightarrow>
     rt_step s (s\<lparr>sys_close := CIdle\<rparr>)"
| do_resource: "sys_close s = CResources (Suc n) \<Longrightarrow>
     rt_step s (s\<lparr>sys_rt := close_resource n (sys_rt s), sys_close := CResources n\<rparr>)"
| do_resource_error: "sys_close s = CResources (Suc n) \<Longrightarrow>
     n < length (rt_resources (sys_rt s)) \<Longrightarrow> rt_resources (sys_rt s) ! n \<Longrightarrow>
     rt_step s (s\<lparr>sys_close := CIdle\<rparr>)"
| do_resources_end: "sys_close s = CResources 0 \<Longrightarrow> rt_step s (s\<lparr>sys_close := CMark\<rparr>)"
| do_mark: "sys_close s = CMark \<Longrightarrow>
     rt_step s (s\<lparr>sys_rt := close_done (sys_rt s), sys_close := CIdle\<rparr>)"

inductive rt_reachable :: "runtime \<Rightarrow> rt_sys \<Rightarrow> bool" for r0 where
  rt_start: "rt_reachable r0 \<lparr>sys_rt = r0, sys_ph = (\<lambda>_. Idle), sys_close = CIdle\<rparr>"
| rt_next: "rt_reachable r0 s \<Longrightarrow> rt_step s t \<Longrightarrow> rt_reachable r0 t"

section \<open>Invariants\<close>

subsection \<open>Counting operations\<close>

lemma card_fun_upd:
  assumes "finite {i. P (f i)}"
  shows "finite {i. P ((f(j := p)) i)}"
    and "card {i. P ((f(j := p)) i)} + (if P (f j) then 1 else 0)
         = card {i. P (f i)} + (if P p then 1 else 0)"
proof -
  let ?A = "{i. P (f i)}"
  have rest: "{i. P ((f(j := p)) i)} = (if P p then insert j (?A - {j}) else ?A - {j})"
    by auto
  show "finite {i. P ((f(j := p)) i)}" unfolding rest using assms by simp
  have d: "card (?A - {j}) + (if P (f j) then 1 else 0) = card ?A"
  proof (cases "P (f j)")
    case True
    then show ?thesis using card_Suc_Diff1 [OF assms, of j] by simp
  qed simp
  have "card (insert j (?A - {j})) = Suc (card (?A - {j}))"
    using assms by (intro card_insert_disjoint) simp_all
  then have "card {i. P ((f(j := p)) i)} = card (?A - {j}) + (if P p then 1 else 0)"
    unfolding rest by simp
  with d show "card {i. P ((f(j := p)) i)} + (if P (f j) then 1 else 0)
      = card ?A + (if P p then 1 else 0)" by linarith
qed

definition busy :: "(nat \<Rightarrow> phase) \<Rightarrow> nat set" where
  "busy ph = {i. ph i \<noteq> Idle}"

definition holders :: "(nat \<Rightarrow> phase) \<Rightarrow> nat \<Rightarrow> nat set" where
  "holders ph a = {i. held_entry (ph i) = Some a}"

lemma holders_busy: "holders ph a \<subseteq> busy ph"
  by (auto simp: holders_def busy_def)

lemma holders_upd:
  assumes "finite (holders ph a)"
  shows "finite (holders (ph(i := p)) a)"
    and "card (holders (ph(i := p)) a) + (if held_entry (ph i) = Some a then 1 else 0)
         = card (holders ph a) + (if held_entry p = Some a then 1 else 0)"
  using card_fun_upd [of "\<lambda>q. held_entry q = Some a" ph i p] assms by (simp_all add: holders_def)

lemma busy_upd:
  assumes "finite (busy ph)"
  shows "finite (busy (ph(i := p)))"
    and "card (busy (ph(i := p))) + (if ph i \<noteq> Idle then 1 else 0)
         = card (busy ph) + (if p \<noteq> Idle then 1 else 0)"
  using card_fun_upd [of "\<lambda>q. q \<noteq> Idle" ph i p] assms by (simp_all add: busy_def)

subsection \<open>Leases and tokens\<close>

text \<open>Proved once from the contract of the cache: leases are exactly the operations between their
  lease and their release, and a token is out exactly while one operation is locked.\<close>

context lease_cache
begin

definition cache_inv :: "'c \<Rightarrow> (nat \<Rightarrow> phase) \<Rightarrow> bool" where
  "cache_inv c ph \<longleftrightarrow> inv c \<and> (\<forall>a. finite (holders ph a))
     \<and> (\<forall>a. leases c a = card (holders ph a))
     \<and> (\<forall>i a. held_entry (ph i) = Some a \<longrightarrow> (\<exists>k. held_scope (ph i) = Some k \<and> filed c k a))
     \<and> (\<forall>a. taken c a \<longleftrightarrow> (\<exists>i k. ph i = Locked k a))
     \<and> (\<forall>i j k l a. ph i = Locked k a \<longrightarrow> ph j = Locked l a \<longrightarrow> i = j)"

lemma cache_invD:
  assumes "cache_inv c ph"
  shows "inv c" "finite (holders ph a)" "leases c a = card (holders ph a)"
    "taken c a \<longleftrightarrow> (\<exists>i k. ph i = Locked k a)"
    "ph i = Locked k a \<Longrightarrow> ph j = Locked l a \<Longrightarrow> i = j"
  using assms by (auto simp: cache_inv_def)

lemma cache_inv_entry:
  assumes "cache_inv c ph" "held_entry (ph i) = Some a"
  obtains k where "held_scope (ph i) = Some k" "filed c k a" "0 < leases c a"
proof -
  have "i \<in> holders ph a" using assms(2) by (simp add: holders_def)
  then have "0 < card (holders ph a)"
    using cache_invD(2) [OF assms(1)] by (auto simp: card_gt_0_iff)
  then have "0 < leases c a" using cache_invD(3) [OF assms(1)] by simp
  moreover obtain k where "held_scope (ph i) = Some k" "filed c k a"
    using assms unfolding cache_inv_def by blast
  ultimately show ?thesis by (rule that [rotated 2])
qed

lemma cache_invI:
  assumes "inv c" "\<And>a. finite (holders ph a)" "\<And>a. leases c a = card (holders ph a)"
    and "\<And>i a. held_entry (ph i) = Some a \<Longrightarrow> \<exists>k. held_scope (ph i) = Some k \<and> filed c k a"
    and "\<And>a. taken c a \<longleftrightarrow> (\<exists>i k. ph i = Locked k a)"
    and "\<And>i j k l a. ph i = Locked k a \<Longrightarrow> ph j = Locked l a \<Longrightarrow> i = j"
  shows "cache_inv c ph"
  unfolding cache_inv_def using assms by blast

lemma cache_inv_idle_phase:
  assumes "cache_inv c ph" "held_entry (ph i) = None" "held_entry p = None"
  shows "cache_inv c (ph(i := p))"
proof -
  have h: "holders (ph(i := p)) a = holders ph a" for a using assms(2,3) by (auto simp: holders_def)
  have "(ph(i := p)) j = Locked k a \<longleftrightarrow> ph j = Locked k a" for j k a
    using assms(2,3) by auto
  then show ?thesis
    using assms(1,3) unfolding cache_inv_def h by (auto simp del: fun_upd_apply simp: fun_upd_apply)
qed

text \<open>A change of one operation's phase that leaves the other leases filed needs the counts, the
  moved operation and the tokens reconsidered.\<close>

lemma cache_inv_move:
  assumes "cache_inv c ph" "inv c'"
    and "\<And>b. leases c' b + (if held_entry (ph i) = Some b then 1 else 0)
             = leases c b + (if held_entry p = Some b then 1 else 0)"
    and "\<And>b k. filed c k b \<Longrightarrow> 0 < leases c b \<Longrightarrow> 0 < leases c' b \<Longrightarrow> filed c' k b"
    and "\<And>a. held_entry p = Some a \<Longrightarrow> \<exists>k. held_scope p = Some k \<and> filed c' k a"
    and "\<And>b. taken c' b \<longleftrightarrow> (\<exists>j k. (ph(i := p)) j = Locked k b)"
    and "\<And>k a. p = Locked k a \<Longrightarrow> \<not> taken c a"
  shows "cache_inv c' (ph(i := p))"
proof -
  let ?ph = "ph(i := p)"
  have fin: "finite (holders ?ph b)" for b
    by (rule holders_upd(1)) (rule cache_invD(2) [OF assms(1)])
  have cnt: "leases c' b = card (holders ?ph b)" for b
    using holders_upd(2) [OF cache_invD(2) [OF assms(1), of b], of i p] assms(3) [of b]
      cache_invD(3) [OF assms(1), of b] by simp
  have ent: "\<exists>k. held_scope (?ph j) = Some k \<and> filed c' k b" if h: "held_entry (?ph j) = Some b" for j b
  proof (cases "j = i")
    case True
    with h assms(5) show ?thesis by simp
  next
    case False
    with h have "held_entry (ph j) = Some b" by simp
    from cache_inv_entry [OF assms(1) this]
    obtain k where k: "held_scope (ph j) = Some k" "filed c k b" "0 < leases c b" .
    have "j \<in> holders ?ph b" using h by (simp add: holders_def)
    then have "0 < leases c' b" using fin cnt by (auto simp: card_gt_0_iff)
    with k False show ?thesis by (auto intro: assms(4))
  qed
  have old: "ph j \<noteq> Locked k a" if "p = Locked l a" for j k l a
    using assms(7) [OF that] cache_invD(4) [OF assms(1)] by blast
  have uniq: "j = l" if "?ph j = Locked k a" "?ph l = Locked k' a" for j l k k' a
    using that old cache_invD(5) [OF assms(1)] by (auto split: if_splits)
  show ?thesis by (intro cache_invI) (rule assms(2,6) fin cnt ent uniq; assumption)+
qed

lemma cache_inv_lease:
  assumes "cache_inv c ph" "held_entry (ph i) = None" "scope_of_kind k = Some sc"
    and "take_lease c sc = (a, c')"
  shows "cache_inv c' (ph(i := Leased k a))"
proof -
  note t = take_lease_law [OF cache_invD(1) [OF assms(1)] assms(4)]
  have "taken c' b \<longleftrightarrow> (\<exists>j l. (ph(i := Leased k a)) j = Locked l b)" for b
  proof -
    have "(ph(i := Leased k a)) j = Locked l b \<longleftrightarrow> ph j = Locked l b" for j l
      using assms(2) by auto
    then show ?thesis using t cache_invD(4) [OF assms(1), of b] by simp
  qed
  then show ?thesis
    using t assms(2,3) take_lease_keeps [OF cache_invD(1) [OF assms(1)] assms(4)]
    by (intro cache_inv_move [OF assms(1)]) auto
qed

lemma cache_inv_lock:
  assumes "cache_inv c ph" "ph i = Leased (Write k) a" "take_token c a = Some c'"
  shows "cache_inv c' (ph(i := Locked k a))"
proof -
  note t = take_token_law [OF cache_invD(1) [OF assms(1)] assms(3)]
  have e: "filed c k a" using cache_inv_entry [OF assms(1), of i a] assms(2) by auto
  have "taken c' b \<longleftrightarrow> (\<exists>j l. (ph(i := Locked k a)) j = Locked l b)" for b
  proof (cases "b = a")
    case False
    have "(ph(i := Locked k a)) j = Locked l b \<longleftrightarrow> ph j = Locked l b" for j l
      using False assms(2) by simp
    then show ?thesis using False t cache_invD(4) [OF assms(1), of b] by simp
  qed (use t in auto)
  then show ?thesis
    using t e assms(2) by (intro cache_inv_move [OF assms(1)]) auto
qed

lemma cache_inv_unlock:
  assumes "cache_inv c ph" "ph i = Locked k a"
  shows "cache_inv (return_token c a) (ph(i := Unlocked k a))"
proof -
  note t = return_token_law [OF cache_invD(1) [OF assms(1)], of a]
  have e: "filed c k a" using cache_inv_entry [OF assms(1), of i a] assms(2) by auto
  have only: "j = i" if "ph j = Locked l a" for j l using cache_invD(5) [OF assms(1) that assms(2)] .
  have "taken (return_token c a) b \<longleftrightarrow> (\<exists>j l. (ph(i := Unlocked k a)) j = Locked l b)" for b
  proof (cases "b = a")
    case True
    have "(ph(i := Unlocked k a)) j \<noteq> Locked l a" for j l using only by auto
    then show ?thesis using True t by simp
  next
    case False
    have "(ph(i := Unlocked k a)) j = Locked l b \<longleftrightarrow> ph j = Locked l b" for j l
      using False assms(2) by simp
    then show ?thesis using False t cache_invD(4) [OF assms(1), of b] by simp
  qed
  then show ?thesis
    using t e assms(2) by (intro cache_inv_move [OF assms(1)]) auto
qed

lemma cache_inv_drop:
  assumes "cache_inv c ph" "may_drop (ph i)" "held_entry (ph i) = Some a"
  shows "\<exists>c'. drop_lease c a = Some c' \<and> cache_inv c' (ph(i := Returning))"
proof -
  obtain k where e: "filed c k a" "0 < leases c a"
    using cache_inv_entry [OF assms(1,3)] by blast
  obtain c' where c': "drop_lease c a = Some c'" "inv c'" "leases c' = (leases c)(a := leases c a - 1)"
      "taken c' = taken c" "\<forall>l b. filed c l b \<longrightarrow> 0 < leases c' b \<longrightarrow> filed c' l b"
    using drop_lease_law [OF cache_invD(1) [OF assms(1)] e] by blast
  have "taken c' b \<longleftrightarrow> (\<exists>j l. (ph(i := Returning)) j = Locked l b)" for b
  proof -
    have "(ph(i := Returning)) j = Locked l b \<longleftrightarrow> ph j = Locked l b" for j l
      using assms(2) by auto
    then show ?thesis using c'(4) cache_invD(4) [OF assms(1), of b] by simp
  qed
  then have "cache_inv c' (ph(i := Returning))"
    using c' e assms(3) by (intro cache_inv_move [OF assms(1)]) auto
  with c'(1) show ?thesis by blast
qed

lemma cache_inv_clear:
  assumes "cache_inv c ph" "\<And>i. ph i = Idle"
  shows "\<exists>c'. clear c = Inr c' \<and> cache_inv c' ph"
proof -
  have none: "holders ph a = {}" for a by (simp add: holders_def assms(2))
  have zero: "leases c a = 0" for a using cache_invD(3) [OF assms(1)] none by simp
  then obtain c' where c': "clear c = Inr c'" "inv c'" "leases c' = leases c" "taken c' = taken c"
    using clear_law [OF cache_invD(1) [OF assms(1)]] by blast
  have "\<not> taken c a" for a using cache_invD(4) [OF assms(1)] assms(2) by simp
  then have "cache_inv c' ph"
    using c' zero by (intro cache_invI) (simp_all add: none assms(2))
  with c'(1) show ?thesis by blast
qed

text \<open>Two operations that hold the token of the same Scope are the same operation, and a writer that
  finds no token waits for another writer of its own Scope.\<close>

lemma locked_unique:
  assumes "cache_inv c ph" "ph i = Locked k a" "ph j = Locked k b"
  shows "i = j"
proof -
  have "filed c k a" "filed c k b"
    using cache_inv_entry [OF assms(1), of i a] cache_inv_entry [OF assms(1), of j b] assms(2,3) by auto
  then have "a = b" using filed_unique cache_invD(1) [OF assms(1)] by blast
  then show ?thesis using cache_invD(5) [OF assms(1) assms(2)] assms(3) by blast
qed

lemma blocked_by_same_scope:
  assumes "cache_inv c ph" "ph i = Leased (Write k) a" "take_token c a = None"
  shows "\<exists>j. j \<noteq> i \<and> ph j = Locked k a"
proof -
  have e: "filed c k a" using cache_inv_entry [OF assms(1), of i a] assms(2) by auto
  then have "taken c a" using take_token_free [OF cache_invD(1) [OF assms(1)] e] assms(3) by blast
  then obtain j l where j: "ph j = Locked l a" using cache_invD(4) [OF assms(1)] by blast
  then have "filed c l a" using cache_inv_entry [OF assms(1), of j a] by auto
  then have "l = k" using filed_key cache_invD(1) [OF assms(1)] e by blast
  moreover have "j \<noteq> i" using j assms(2) by auto
  ultimately show ?thesis using j by blast
qed

end

subsection \<open>Admission and shutdown\<close>

text \<open>\<open>adm_inv r n cp\<close>: with \<open>n\<close> operations between their admission and their release, the counter is
  \<open>n\<close>, the drain channel exists exactly while the Runtime is closing and is closed exactly when
  nothing is active, and \<open>Close\<close> is past its wait only when nothing is active.\<close>

definition adm_inv :: "runtime \<Rightarrow> nat \<Rightarrow> close_phase \<Rightarrow> bool" where
  "adm_inv r n cp \<longleftrightarrow> rt_active r = int n
     \<and> rt_drained r = (if rt_closing r then Some (if n = 0 then ChanClosed else ChanOpen) else None)
     \<and> (rt_closed r \<longrightarrow> \<not> rt_closing r \<and> n = 0 \<and> cp = CIdle)
     \<and> (cp \<noteq> CIdle \<longrightarrow> rt_closing r)
     \<and> (cp \<notin> {CIdle, CWait} \<longrightarrow> n = 0)
     \<and> \<not> rt_panicked r"

lemma adm_inv_cong:
  "rt_active r' = rt_active r \<Longrightarrow> rt_drained r' = rt_drained r \<Longrightarrow> rt_closing r' = rt_closing r \<Longrightarrow>
     rt_closed r' = rt_closed r \<Longrightarrow> rt_panicked r' = rt_panicked r \<Longrightarrow> adm_inv r' n cp = adm_inv r n cp"
  by (simp add: adm_inv_def)

lemma adm_inv_admit: "adm_inv r n cp \<Longrightarrow> admit b r = Inr r' \<Longrightarrow> adm_inv r' (Suc n) cp"
  by (auto simp: adm_inv_def admit_def split: if_splits)

lemma adm_inv_release: "adm_inv r (Suc n) cp \<Longrightarrow> adm_inv (release r) n cp"
  by (auto simp: adm_inv_def release_def close_channel_def Let_def)

lemma adm_inv_begin: "adm_inv r n CIdle \<Longrightarrow> \<not> rt_closed r \<Longrightarrow> adm_inv (close_begin r) n CWait"
  by (auto simp: adm_inv_def close_begin_def close_channel_def Let_def)

lemma adm_inv_cancel: "adm_inv r n CWait \<Longrightarrow> adm_inv (close_cancel r) n CIdle"
  by (auto simp: adm_inv_def close_cancel_def)

lemma adm_inv_drained: "adm_inv r n CWait \<Longrightarrow> rt_drained r = Some ChanClosed \<Longrightarrow> adm_inv r n CScheduler"
  by (auto simp: adm_inv_def split: if_splits)

lemma adm_inv_done: "adm_inv r n CMark \<Longrightarrow> adm_inv (close_done r) n CIdle"
  by (auto simp: adm_inv_def close_done_def)

lemma adm_inv_advance:
  "adm_inv r n cp \<Longrightarrow> cp \<notin> {CIdle, CWait} \<Longrightarrow> cp' \<noteq> CWait \<Longrightarrow> adm_inv r n cp'"
  by (auto simp: adm_inv_def)

lemma close_step_frame [simp]:
  "rt_scopes (close_scheduler r) = rt_scopes r" "rt_background (close_scheduler r) = rt_background r"
  "rt_scopes (close_scheduler_failed r) = rt_scopes r"
  "rt_background (close_scheduler_failed r) = rt_background r"
  "rt_scopes (close_resource n r) = rt_scopes r" "rt_background (close_resource n r) = rt_background r"
  "rt_scopes (close_begin r) = rt_scopes r" "rt_background (close_begin r) = rt_background r"
  "rt_scopes (close_cancel r) = rt_scopes r" "rt_background (close_cancel r) = rt_background r"
  "rt_scopes (close_done r) = rt_scopes r" "rt_background (close_done r) = rt_background r"
  "rt_scopes (release r) = rt_scopes r" "rt_background (release r) = rt_background r"
  "adm_inv (close_scheduler r) n cp = adm_inv r n cp"
  "adm_inv (close_scheduler_failed r) n cp = adm_inv r n cp"
  "adm_inv (close_resource m r) n cp = adm_inv r n cp"
  by (auto simp: close_scheduler_def close_scheduler_failed_def close_resource_def close_begin_def
      close_cancel_def close_done_def release_def close_channel_def adm_inv_def Let_def
      split: option.splits channel.splits)

lemma admit_frame: "admit b r = Inr r' \<Longrightarrow> rt_scopes r' = rt_scopes r \<and> rt_background r' = rt_background r"
  by (auto simp: admit_def split: if_splits)

lemma attach_frame:
  "attach_scheduler r = Inr r' \<Longrightarrow>
     rt_scopes r' = rt_scopes r \<and> rt_background r' = rt_background r \<and> adm_inv r' n cp = adm_inv r n cp"
  by (auto simp: attach_scheduler_def adm_inv_def split: if_splits)

subsection \<open>The system invariant\<close>

definition bg_inv :: "bool \<Rightarrow> (nat \<Rightarrow> phase) \<Rightarrow> bool" where
  "bg_inv token ph \<longleftrightarrow> (token \<longleftrightarrow> (\<forall>i. ph i \<noteq> BgRunning))
     \<and> (\<forall>i j. ph i = BgRunning \<longrightarrow> ph j = BgRunning \<longrightarrow> i = j)"

lemma bg_inv_other: "bg_inv b ph \<Longrightarrow> ph i \<noteq> BgRunning \<Longrightarrow> p \<noteq> BgRunning \<Longrightarrow> bg_inv b (ph(i := p))"
  by (auto simp: bg_inv_def)

lemma bg_inv_start: "bg_inv True ph \<Longrightarrow> bg_inv False (ph(i := BgRunning))"
  by (auto simp: bg_inv_def)

lemma bg_inv_done: "bg_inv b ph \<Longrightarrow> ph i = BgRunning \<Longrightarrow> p \<noteq> BgRunning \<Longrightarrow> bg_inv True (ph(i := p))"
  by (auto simp: bg_inv_def)

definition rt_inv :: "rt_sys \<Rightarrow> bool" where
  "rt_inv s \<longleftrightarrow> sc.cache_inv (rt_scopes (sys_rt s)) (sys_ph s)
     \<and> finite (busy (sys_ph s)) \<and> adm_inv (sys_rt s) (card (busy (sys_ph s))) (sys_close s)
     \<and> bg_inv (rt_background (sys_rt s)) (sys_ph s)"

lemma busy_card_upd:
  assumes "finite (busy ph)"
  shows "ph i \<noteq> Idle \<Longrightarrow> p \<noteq> Idle \<Longrightarrow> card (busy (ph(i := p))) = card (busy ph)"
    and "ph i = Idle \<Longrightarrow> p \<noteq> Idle \<Longrightarrow> card (busy (ph(i := p))) = Suc (card (busy ph))"
    and "ph i \<noteq> Idle \<Longrightarrow> Suc (card (busy (ph(i := Idle)))) = card (busy ph)"
  using busy_upd(2) [OF assms, of i p] busy_upd(2) [OF assms, of i Idle] by simp_all

lemma no_busy: "adm_inv r (card (busy ph)) cp \<Longrightarrow> finite (busy ph) \<Longrightarrow> cp \<notin> {CIdle, CWait} \<Longrightarrow> ph i = Idle"
  by (auto simp: adm_inv_def busy_def)

text \<open>A step that moves one busy operation to another busy phase needs only the cache and the
  background token reconsidered.\<close>

lemma rt_inv_move:
  assumes "rt_inv s" "sys_ph s i \<noteq> Idle" "p \<noteq> Idle"
    and "rt_active r = rt_active (sys_rt s)" "rt_drained r = rt_drained (sys_rt s)"
      "rt_closing r = rt_closing (sys_rt s)" "rt_closed r = rt_closed (sys_rt s)"
      "rt_panicked r = rt_panicked (sys_rt s)"
    and "sc.cache_inv (rt_scopes r) ((sys_ph s)(i := p))" "bg_inv (rt_background r) ((sys_ph s)(i := p))"
  shows "rt_inv (set_phase s i p r)"
  using assms busy_card_upd(1) [of "sys_ph s" i p] busy_upd(1) [of "sys_ph s" i p]
    adm_inv_cong [OF assms(4-8)]
  by (simp add: rt_inv_def set_phase_def)

lemma rt_invD:
  assumes "rt_inv s"
  shows "sc.cache_inv (rt_scopes (sys_rt s)) (sys_ph s)" "finite (busy (sys_ph s))"
    "adm_inv (sys_rt s) (card (busy (sys_ph s))) (sys_close s)"
    "bg_inv (rt_background (sys_rt s)) (sys_ph s)"
  using assms by (simp_all add: rt_inv_def)

lemma rt_inv_admit:
  assumes "rt_inv s" "sys_ph s i = Idle" "admit False (sys_rt s) = Inr r"
  shows "rt_inv (set_phase s i (Admitted k) r)"
  using rt_invD [OF assms(1)] assms(2) admit_frame [OF assms(3)]
    adm_inv_admit [OF rt_invD(3) [OF assms(1)] assms(3)] busy_card_upd(2) [OF rt_invD(2) [OF assms(1)]]
  by (simp add: rt_inv_def set_phase_def sc.cache_inv_idle_phase bg_inv_other busy_upd(1))

lemma rt_inv_return:
  assumes "rt_inv s" "sys_ph s i = Returning"
  shows "rt_inv (set_phase s i Idle (release (sys_rt s)))"
proof -
  have "Suc (card (busy ((sys_ph s)(i := Idle)))) = card (busy (sys_ph s))"
    using assms(2) by (intro busy_card_upd(3) [OF rt_invD(2) [OF assms(1)]]) simp
  then have "adm_inv (release (sys_rt s)) (card (busy ((sys_ph s)(i := Idle)))) (sys_close s)"
    using rt_invD(3) [OF assms(1)] by (intro adm_inv_release) simp
  then show ?thesis
    using rt_invD [OF assms(1)] assms(2)
    by (simp add: rt_inv_def set_phase_def sc.cache_inv_idle_phase bg_inv_other busy_upd(1))
qed

lemma rt_step_inv: "rt_step s t \<Longrightarrow> rt_inv s \<Longrightarrow> rt_inv t"
proof (induction rule: rt_step.induct)
  case (op_admit s i k r)
  then show ?case by (intro rt_inv_admit)
next
  case (op_finish s i k)
  then show ?case using rt_invD [OF op_finish.prems]
    by (intro rt_inv_move) (simp_all add: sc.cache_inv_idle_phase bg_inv_other)
next
  case (op_lease s i k sc a c')
  then show ?case using rt_invD [OF op_lease.prems]
    by (intro rt_inv_move) (simp_all add: sc.cache_inv_lease bg_inv_other)
next
  case (op_lock s i sc a c')
  then show ?case using rt_invD [OF op_lock.prems]
    by (intro rt_inv_move) (simp_all add: sc.cache_inv_lock bg_inv_other)
next
  case (op_unlock s i sc a)
  then show ?case using rt_invD [OF op_unlock.prems]
    by (intro rt_inv_move) (simp_all add: sc.cache_inv_unlock bg_inv_other)
next
  case (op_drop s i a c')
  have "sc.cache_inv c' ((sys_ph s)(i := Returning))"
    using sc.cache_inv_drop [OF rt_invD(1) [OF op_drop.prems] op_drop(1,2)] op_drop(3) by simp
  moreover have "sys_ph s i \<noteq> Idle" "sys_ph s i \<noteq> BgRunning" using op_drop(1) by auto
  ultimately show ?case using op_drop rt_invD [OF op_drop.prems]
    by (intro rt_inv_move) (simp_all add: bg_inv_other)
next
  case (op_drop_panic s i a)
  then show ?case using sc.cache_inv_drop [OF rt_invD(1) [OF op_drop_panic.prems] op_drop_panic(1,2)] by simp
next
  case (op_bg_start s i)
  then show ?case using rt_invD [OF op_bg_start.prems]
    by (intro rt_inv_move) (simp_all add: sc.cache_inv_idle_phase bg_inv_start)
next
  case (op_bg_done s i)
  then show ?case using rt_invD [OF op_bg_done.prems]
    by (intro rt_inv_move) (simp_all add: sc.cache_inv_idle_phase bg_inv_done)
next
  case (op_return s i)
  then show ?case by (intro rt_inv_return)
next
  case (do_attach s r)
  then show ?case using attach_frame [OF do_attach(1)] by (simp add: rt_inv_def)
next
  case (do_scopes s c')
  have "\<And>i. sys_ph s i = Idle"
    using no_busy [OF rt_invD(3,2) [OF do_scopes.prems]] do_scopes(1) by simp
  from sc.cache_inv_clear [OF rt_invD(1) [OF do_scopes.prems] this] do_scopes rt_invD [OF do_scopes.prems]
  show ?case by (auto simp: rt_inv_def adm_inv_def)
next
  case (do_scopes_error s e)
  have "\<And>i. sys_ph s i = Idle"
    using no_busy [OF rt_invD(3,2) [OF do_scopes_error.prems]] do_scopes_error(1) by simp
  from sc.cache_inv_clear [OF rt_invD(1) [OF do_scopes_error.prems] this] do_scopes_error(2)
  show ?case by simp
qed (auto simp: rt_inv_def adm_inv_begin adm_inv_cancel adm_inv_drained adm_inv_done
       intro: adm_inv_advance)

lemma rt_inv_init:
  assumes "new_configured n resources = Inr r"
  shows "rt_inv \<lparr>sys_rt = r, sys_ph = (\<lambda>_. Idle), sys_close = CIdle\<rparr>"
proof -
  have "sc.cache_inv (new_scope_cache m) (\<lambda>_. Idle)" for m
    by (intro sc.cache_invI)
      (simp_all add: sc_inv_new holders_def, simp_all add: new_scope_cache_def leases_at_def contended_def)
  then show ?thesis
    using assms by (auto simp: new_configured_def rt_inv_def adm_inv_def bg_inv_def busy_def Let_def
        split: if_splits)
qed

lemma rt_reachable_inv:
  assumes "new_configured n resources = Inr r" "rt_reachable r s"
  shows "rt_inv s"
  using assms(2) by (induction rule: rt_reachable.induct)
    (auto simp: rt_inv_init [OF assms(1)] dest: rt_step_inv)

section \<open>Shutdown order\<close>

text \<open>What the event log ends with while \<open>Close\<close> walks the owned resources from the last to the first.\<close>

definition resources_closed :: "runtime \<Rightarrow> nat \<Rightarrow> close_event list" where
  "resources_closed r k =
     map ResourceClosed (filter (\<lambda>i. rt_resources r ! i) (rev [k..<length (rt_resources r)]))"

definition closed_down_to :: "runtime \<Rightarrow> nat \<Rightarrow> bool" where
  "closed_down_to r k \<longleftrightarrow> k \<le> length (rt_resources r)
     \<and> suffix (ScopesCleared # resources_closed r k) (rt_log r)"

fun log_inv :: "runtime \<Rightarrow> close_phase \<Rightarrow> bool" where
  "log_inv r (CResources k) = closed_down_to r k"
| "log_inv r CMark = closed_down_to r 0"
| "log_inv r cp = (rt_closed r \<longrightarrow> closed_down_to r 0)"

lemma closed_down_to_cong:
  "rt_log r' = rt_log r \<Longrightarrow> rt_resources r' = rt_resources r \<Longrightarrow> closed_down_to r' k = closed_down_to r k"
  by (simp add: closed_down_to_def resources_closed_def)

lemma log_inv_cong:
  "rt_log r' = rt_log r \<Longrightarrow> rt_resources r' = rt_resources r \<Longrightarrow> rt_closed r' = rt_closed r \<Longrightarrow>
     log_inv r' cp = log_inv r cp"
  by (cases cp) (simp_all add: closed_down_to_def resources_closed_def)

lemma log_inv_frame [simp]:
  "log_inv (r\<lparr>rt_scopes := c\<rparr>) cp = log_inv r cp"
  "log_inv (r\<lparr>rt_background := b\<rparr>) cp = log_inv r cp"
  "log_inv (r\<lparr>rt_panicked := b\<rparr>) cp = log_inv r cp"
  by (rule log_inv_cong; simp)+

lemma closed_down_to_start:
  "closed_down_to (r\<lparr>rt_scopes := c, rt_log := rt_log r @ [ScopesCleared]\<rparr>) (length (rt_resources r))"
  by (simp add: closed_down_to_def resources_closed_def suffix_def)

lemma closed_down_to_resource:
  assumes "closed_down_to r (Suc n)"
  shows "closed_down_to (close_resource n r) n"
proof -
  have n: "n < length (rt_resources r)" using assms by (simp add: closed_down_to_def)
  then have u: "rev [n..<length (rt_resources r)] = rev [Suc n..<length (rt_resources r)] @ [n]"
    by (simp add: upt_conv_Cons)
  show ?thesis
    using assms n by (auto simp: closed_down_to_def close_resource_def resources_closed_def u suffix_def)
qed

lemma rt_step_log_inv:
  assumes "rt_step s t" "adm_inv (sys_rt s) n (sys_close s)" "log_inv (sys_rt s) (sys_close s)"
  shows "log_inv (sys_rt t) (sys_close t)"
  using assms
proof (induction rule: rt_step.induct)
  case (op_admit s i k r)
  then have "rt_log r = rt_log (sys_rt s)" "rt_resources r = rt_resources (sys_rt s)"
    "rt_closed r = rt_closed (sys_rt s)" by (auto simp: admit_def split: if_splits)
  with op_admit show ?case using log_inv_cong [of r "sys_rt s"] by (simp add: set_phase_def)
next
  case (op_return s i)
  have "rt_log (release (sys_rt s)) = rt_log (sys_rt s)"
    "rt_resources (release (sys_rt s)) = rt_resources (sys_rt s)"
    "rt_closed (release (sys_rt s)) = rt_closed (sys_rt s)"
    by (auto simp: release_def close_channel_def Let_def split: option.splits channel.splits)
  with op_return show ?case using log_inv_cong [of "release (sys_rt s)" "sys_rt s"] by (simp add: set_phase_def)
next
  case (do_attach s r)
  then have "rt_log r = rt_log (sys_rt s)" "rt_resources r = rt_resources (sys_rt s)"
    "rt_closed r = rt_closed (sys_rt s)" by (auto simp: attach_scheduler_def split: if_splits)
  with do_attach show ?case using log_inv_cong [of r "sys_rt s"] by simp
next
  case (do_begin s)
  then show ?case by (auto simp: close_begin_def close_channel_def Let_def split: option.splits channel.splits)
next
  case (do_scopes s c')
  then show ?case using closed_down_to_start by simp
next
  case (do_resource s n)
  then show ?case by (simp add: closed_down_to_resource)
next
  case (do_mark s)
  then show ?case using closed_down_to_cong [of "close_done (sys_rt s)" "sys_rt s" 0]
    by (simp add: close_done_def)
qed (auto simp: set_phase_def adm_inv_def close_cancel_def close_scheduler_def close_scheduler_failed_def
       split: option.splits)

lemma rt_reachable_log_inv:
  assumes "new_configured n resources = Inr r" "rt_reachable r s"
  shows "log_inv (sys_rt s) (sys_close s)"
  using assms(2)
proof (induction rule: rt_reachable.induct)
  case rt_start
  then show ?case using assms(1) by (auto simp: new_configured_def Let_def split: if_splits)
next
  case (rt_next s t)
  then show ?case
    using rt_step_log_inv rt_invD(3) [OF rt_reachable_inv [OF assms(1)]] by blast
qed

section \<open>Runs\<close>

text \<open>An executable reading of the step relation, for concrete runs of a Runtime with two owned
  resources and a one-entry Scope cache.\<close>

datatype action =
    AAdmit nat op_kind | ALease nat | ALock nat | AUnlock nat | ADrop nat
  | ABgStart nat | AReturn nat | ABegin | ACancel | ADrained | AScheduler | AScopes
  | AResource | AResourceError | AResourcesEnd | AMark

fun exec :: "action \<Rightarrow> rt_sys \<Rightarrow> rt_sys option" where
  "exec (AAdmit i k) s =
     (if sys_ph s i = Idle \<and> admissible k
      then case admit False (sys_rt s) of Inl _ \<Rightarrow> None | Inr r \<Rightarrow> Some (set_phase s i (Admitted k) r)
      else None)"
| "exec (ALease i) s =
     (case sys_ph s i of
        Admitted k \<Rightarrow>
          (case scope_of_kind k of
             None \<Rightarrow> None
           | Some key \<Rightarrow> (case lease (rt_scopes (sys_rt s)) key of (a, c') \<Rightarrow>
                 Some (set_phase s i (Leased k a) ((sys_rt s)\<lparr>rt_scopes := c'\<rparr>))))
      | _ \<Rightarrow> None)"
| "exec (ALock i) s =
     (case sys_ph s i of
        Leased (Write key) a \<Rightarrow>
          (case try_acquire (rt_scopes (sys_rt s)) a of
             None \<Rightarrow> None
           | Some c' \<Rightarrow> Some (set_phase s i (Locked key a) ((sys_rt s)\<lparr>rt_scopes := c'\<rparr>)))
      | _ \<Rightarrow> None)"
| "exec (AUnlock i) s =
     (case sys_ph s i of
        Locked key a \<Rightarrow> Some (set_phase s i (Unlocked key a)
          ((sys_rt s)\<lparr>rt_scopes := put_token (rt_scopes (sys_rt s)) a\<rparr>))
      | _ \<Rightarrow> None)"
| "exec (ADrop i) s =
     (case held_entry (sys_ph s i) of
        None \<Rightarrow> None
      | Some a \<Rightarrow>
         (if may_drop (sys_ph s i)
          then case release_lease (rt_scopes (sys_rt s)) a of
                 Released c' \<Rightarrow> Some (set_phase s i Returning ((sys_rt s)\<lparr>rt_scopes := c'\<rparr>))
               | LeaseInvariantPanic \<Rightarrow> None
          else None))"
| "exec (ABgStart i) s =
     (if sys_ph s i = Admitted Background \<and> rt_background (sys_rt s)
      then Some (set_phase s i BgRunning ((sys_rt s)\<lparr>rt_background := False\<rparr>)) else None)"
| "exec (AReturn i) s =
     (if sys_ph s i = Returning then Some (set_phase s i Idle (release (sys_rt s))) else None)"
| "exec ABegin s =
     (if sys_close s = CIdle \<and> \<not> rt_closed (sys_rt s)
      then Some (s\<lparr>sys_rt := close_begin (sys_rt s), sys_close := CWait\<rparr>) else None)"
| "exec ACancel s =
     (if sys_close s = CWait then Some (s\<lparr>sys_rt := close_cancel (sys_rt s), sys_close := CIdle\<rparr>) else None)"
| "exec ADrained s =
     (if sys_close s = CWait \<and> rt_drained (sys_rt s) = Some ChanClosed
      then Some (s\<lparr>sys_close := CScheduler\<rparr>) else None)"
| "exec AScheduler s =
     (if sys_close s = CScheduler
      then Some (s\<lparr>sys_rt := close_scheduler (sys_rt s), sys_close := CScopes\<rparr>) else None)"
| "exec AScopes s =
     (if sys_close s = CScopes
      then case clear_cache (rt_scopes (sys_rt s)) of
             Inl e \<Rightarrow> None
           | Inr c' \<Rightarrow> Some (s\<lparr>sys_rt := (sys_rt s)\<lparr>rt_scopes := c', rt_log := rt_log (sys_rt s) @ [ScopesCleared]\<rparr>,
                  sys_close := CResources (length (rt_resources (sys_rt s)))\<rparr>)
      else None)"
| "exec AResource s =
     (case sys_close s of
        CResources (Suc n) \<Rightarrow> Some (s\<lparr>sys_rt := close_resource n (sys_rt s), sys_close := CResources n\<rparr>)
      | _ \<Rightarrow> None)"
| "exec AResourceError s =
     (case sys_close s of
        CResources (Suc n) \<Rightarrow>
          (if n < length (rt_resources (sys_rt s)) \<and> rt_resources (sys_rt s) ! n
           then Some (s\<lparr>sys_close := CIdle\<rparr>) else None)
      | _ \<Rightarrow> None)"
| "exec AResourcesEnd s =
     (if sys_close s = CResources 0 then Some (s\<lparr>sys_close := CMark\<rparr>) else None)"
| "exec AMark s =
     (if sys_close s = CMark then Some (s\<lparr>sys_rt := close_done (sys_rt s), sys_close := CIdle\<rparr>) else None)"

lemma exec_step: "exec a s = Some t \<Longrightarrow> rt_step s t"
  by (cases a)
    (auto intro: rt_step.intros
      split: if_splits sum.splits option.splits prod.splits phase.splits op_kind.splits
        release_result.splits close_phase.splits nat.splits)

fun run :: "action list \<Rightarrow> rt_sys \<Rightarrow> rt_sys option" where
  "run [] s = Some s"
| "run (a # as) s = (case exec a s of None \<Rightarrow> None | Some t \<Rightarrow> run as t)"

definition demo_runtime :: runtime where
  "demo_runtime =
     \<lparr>rt_closing = False, rt_closed = False, rt_active = 0, rt_drained = None,
      rt_scopes = new_scope_cache 1, rt_background = True, rt_scheduler = None,
      rt_resources = [True, True], rt_log = [], rt_panicked = False\<rparr>"

definition demo :: "action list \<Rightarrow> rt_sys" where
  "demo as = the (run as \<lparr>sys_rt = demo_runtime, sys_ph = (\<lambda>_. Idle), sys_close = CIdle\<rparr>)"

lemma demo_configured: "new_configured 1 [True, True] = Inr demo_runtime"
  by (simp add: new_configured_def demo_runtime_def)

lemma run_reachable: "rt_reachable r s \<Longrightarrow> run as s = Some t \<Longrightarrow> rt_reachable r t"
  by (induction as s rule: run.induct) (auto split: option.splits intro: rt_next exec_step)

lemma demo_reachable:
  assumes "run as \<lparr>sys_rt = demo_runtime, sys_ph = (\<lambda>_. Idle), sys_close = CIdle\<rparr> \<noteq> None"
  shows "rt_reachable demo_runtime (demo as)"
  using assms run_reachable [OF rt_start] by (auto simp: demo_def)

lemma demo_scope [simp]: "admissible (Write ''p'')"
proof -
  have "graphic ''p''" by (simp add: graphic_def)
  then have "validate_scope_id ''p'' = Inr ''p''"
    by (simp add: validate_scope_id_def graphic_text max_scope_id_length_def)
  then show ?thesis by (simp add: admissible_def)
qed

lemma demo_unscoped [simp]: "admissible Plain" "admissible Background"
  by (simp_all add: admissible_def)

lemmas demo_eval = demo_def demo_runtime_def admit_def lease_def make_room_locked_def evict_while.simps
  oldest_inactive_def leases_at_def new_scope_cache_def insert_entry_def notify_def move_to_back_def
  update_entry_def counts_locked_def try_acquire_def set_phase_def Let_def close_begin_def close_channel_def
  close_scheduler_def close_resource_def close_done_def close_cancel_def clear_cache_def

abbreviation demo_locked :: "action list" where
  "demo_locked \<equiv> [AAdmit 0 (Write ''p''), ALease 0, ALock 0]"

abbreviation demo_waiting :: "action list" where
  "demo_waiting \<equiv> demo_locked @ [AAdmit 1 (Write ''p''), ALease 1]"

abbreviation demo_draining :: "action list" where
  "demo_draining \<equiv> [ABegin, ADrained, AScheduler]"

abbreviation demo_failed_close :: "action list" where
  "demo_failed_close \<equiv> demo_draining @ [AScopes, AResource, AResourceError]"

abbreviation demo_closed :: "action list" where
  "demo_closed \<equiv> demo_draining @ [AScopes, AResource, AResource, AResourcesEnd, AMark]"

lemma demo_runs:
  "rt_reachable demo_runtime (demo demo_locked)"
  "rt_reachable demo_runtime (demo demo_waiting)"
  "rt_reachable demo_runtime (demo [AAdmit 0 Background, ABgStart 0])"
  "rt_reachable demo_runtime (demo [ABegin])"
  "rt_reachable demo_runtime (demo demo_draining)"
  "rt_reachable demo_runtime (demo (demo_failed_close @ [ABegin, ACancel, AAdmit 0 Plain]))"
  "rt_reachable demo_runtime (demo demo_closed)"
  by (rule demo_reachable; simp add: demo_eval)+

section \<open>Properties\<close>

text \<open>C1: writers of one Scope are mutually exclusive: under every interleaving of admissions,
  leases, waits, releases, evictions and shutdown attempts, two operations that hold the write lock of
  the same Scope identifier are the same operation, even when the entry of that Scope was evicted and
  created again in between.\<close>

theorem scoped_write_exclusive:
  assumes "new_configured n resources = Inr r" "rt_reachable r s"
    and "sys_ph s i = Locked scope a" "sys_ph s j = Locked scope b"
  shows "i = j"
  using sc.locked_unique [OF rt_invD(1) [OF rt_reachable_inv [OF assms(1,2)]] assms(3,4)] .

theorem scoped_write_exclusive_witness:
  "new_configured 1 [True, True] = Inr demo_runtime \<and> rt_reachable demo_runtime (demo demo_locked)
   \<and> sys_ph (demo demo_locked) 0 = Locked ''p'' 0
   \<and> {j. sys_ph (demo demo_locked) j = Locked ''p'' 0} = {0}"
proof -
  have "sys_ph (demo demo_locked) 0 = Locked ''p'' 0" by (simp add: demo_eval)
  then show ?thesis
    using scoped_write_exclusive [OF demo_configured demo_runs(1), of 0 "''p''" 0] demo_configured demo_runs(1)
    by blast
qed

text \<open>A writer waits only for its own Scope: when the write lock is not available to an admitted
  writer, another operation holds the lock of the same Scope.\<close>

theorem scoped_write_blocked_by_same_scope:
  assumes "new_configured n resources = Inr r" "rt_reachable r s"
    and "sys_ph s i = Leased (Write scope) a" "try_acquire (rt_scopes (sys_rt s)) a = None"
  shows "\<exists>j. j \<noteq> i \<and> sys_ph s j = Locked scope a"
  using sc.blocked_by_same_scope [OF rt_invD(1) [OF rt_reachable_inv [OF assms(1,2)]] assms(3,4)] .

theorem scoped_write_blocked_by_same_scope_witness:
  "sys_ph (demo demo_waiting) 1 = Leased (Write ''p'') 0
   \<and> (\<exists>j. j \<noteq> 1 \<and> sys_ph (demo demo_waiting) j = Locked ''p'' 0)"
proof -
  have "sys_ph (demo demo_waiting) 1 = Leased (Write ''p'') 0" by (simp add: demo_eval)
  moreover have "try_acquire (rt_scopes (sys_rt (demo demo_waiting))) 0 = None" by (simp add: demo_eval)
  ultimately show ?thesis
    using scoped_write_blocked_by_same_scope [OF demo_configured demo_runs(2)] by blast
qed

text \<open>Scheduled processors are serialized across all Scopes: at most one operation runs inside
  \<open>Background\<close> at any time.\<close>

theorem background_exclusive:
  assumes "new_configured n resources = Inr r" "rt_reachable r s"
    and "sys_ph s i = BgRunning" "sys_ph s j = BgRunning"
  shows "i = j"
  using rt_invD(4) [OF rt_reachable_inv [OF assms(1,2)]] assms(3,4) by (simp add: bg_inv_def)

theorem background_exclusive_witness:
  "sys_ph (demo [AAdmit 0 Background, ABgStart 0]) 0 = BgRunning
   \<and> {j. sys_ph (demo [AAdmit 0 Background, ABgStart 0]) j = BgRunning} = {0}"
proof -
  have "sys_ph (demo [AAdmit 0 Background, ABgStart 0]) 0 = BgRunning" by (simp add: demo_eval)
  then show ?thesis
    using background_exclusive [OF demo_configured demo_runs(3)] by blast
qed

text \<open>C2: \<open>Close\<close> tears dependencies down only after the drain: in every step that pauses or closes
  the scheduler, clears the Scope cache or closes an owned resource, no operation is between its
  admission and its release, and no operation can be admitted.\<close>

theorem close_waits_for_operations:
  assumes "new_configured n resources = Inr r" "rt_reachable r s"
    and "rt_step s t" "rt_log (sys_rt t) \<noteq> rt_log (sys_rt s)"
  shows "sys_ph s i = Idle \<and> admit False (sys_rt s) = Inl (StateError ''closed'')"
proof -
  note inv = rt_invD(3,2) [OF rt_reachable_inv [OF assms(1,2)]]
  have "sys_close s \<notin> {CIdle, CWait}"
    using assms(3,4) by (cases rule: rt_step.cases)
      (auto simp: set_phase_def admit_def attach_scheduler_def release_def close_begin_def close_channel_def
        close_cancel_def close_done_def Let_def split: if_splits option.splits channel.splits)
  then show ?thesis
    using no_busy [OF inv] inv(1) by (simp add: adm_inv_def admit_def)
qed

theorem close_waits_for_operations_witness:
  "\<exists>t. rt_step (demo demo_draining) t \<and> ScopesCleared \<in> set (rt_log (sys_rt t))
     \<and> sys_ph (demo demo_draining) 7 = Idle
     \<and> admit False (sys_rt (demo demo_draining)) = Inl (StateError ''closed'')"
proof -
  obtain t where t: "exec AScopes (demo demo_draining) = Some t" by (simp add: demo_eval)
  then have l: "rt_log (sys_rt t) = rt_log (sys_rt (demo demo_draining)) @ [ScopesCleared]"
    by (auto split: if_splits sum.splits)
  have "rt_step (demo demo_draining) t" by (rule exec_step [OF t])
  then show ?thesis
    using close_waits_for_operations [OF demo_configured demo_runs(5), of t 7] l by auto
qed

text \<open>C3: no lost wake-up: while \<open>Close\<close> waits, its drain channel is closed exactly when no operation
  is active, so the wait ends as soon as the last operation is released.\<close>

theorem close_wait_ends:
  assumes "new_configured n resources = Inr r" "rt_reachable r s" "sys_close s = CWait"
  shows "rt_drained (sys_rt s) = Some ChanClosed \<longleftrightarrow> (\<forall>i. sys_ph s i = Idle)"
  using rt_invD(3,2) [OF rt_reachable_inv [OF assms(1,2)]] assms(3)
  by (auto simp: adm_inv_def busy_def)

theorem close_wait_ends_witness:
  "sys_close (demo [ABegin]) = CWait \<and> rt_drained (sys_rt (demo [ABegin])) = Some ChanClosed
   \<and> (\<forall>i. sys_ph (demo [ABegin]) i = Idle)"
proof -
  have "sys_close (demo [ABegin]) = CWait" "rt_drained (sys_rt (demo [ABegin])) = Some ChanClosed"
    by (simp_all add: demo_eval)
  then show ?thesis using close_wait_ends [OF demo_configured demo_runs(4)] by simp
qed

text \<open>No interleaving panics: the lease counter is never released twice, the drain channel is
  never closed twice, and clearing the Scope cache during shutdown never finds a live lease.\<close>

theorem runtime_never_panics:
  assumes "new_configured n resources = Inr r" "rt_reachable r s"
  shows "\<not> rt_panicked (sys_rt s)
    \<and> (sys_close s = CScopes \<longrightarrow> (\<exists>c. clear_cache (rt_scopes (sys_rt s)) = Inr c))
    \<and> (may_drop (sys_ph s i) \<longrightarrow> (\<exists>a c. held_entry (sys_ph s i) = Some a
          \<and> release_lease (rt_scopes (sys_rt s)) a = Released c))"
proof -
  note inv = rt_invD [OF rt_reachable_inv [OF assms]]
  have "\<exists>c. clear_cache (rt_scopes (sys_rt s)) = Inr c" if "sys_close s = CScopes"
    using sc.cache_inv_clear [OF inv(1)] no_busy [OF inv(3,2)] that by auto
  moreover have "\<exists>a c. held_entry (sys_ph s i) = Some a \<and> release_lease (rt_scopes (sys_rt s)) a = Released c"
    if "may_drop (sys_ph s i)"
  proof -
    from that obtain a where a: "held_entry (sys_ph s i) = Some a" by (cases "sys_ph s i") auto
    then show ?thesis using sc.cache_inv_drop [OF inv(1) that a] by auto
  qed
  ultimately show ?thesis using inv(3) by (simp add: adm_inv_def)
qed

theorem runtime_never_panics_witness:
  "may_drop (sys_ph (demo demo_waiting) 1)
   \<and> (\<exists>c. release_lease (rt_scopes (sys_rt (demo demo_waiting))) 0 = Released c)"
proof -
  have "sys_ph (demo demo_waiting) 1 = Leased (Write ''p'') 0" by (simp add: demo_eval)
  then show ?thesis
    using runtime_never_panics [OF demo_configured demo_runs(2), of 1] by simp
qed

text \<open>A Runtime that reports itself closed has cleared its Scope cache and then closed each of its
  non-nil resources once, from the last to the first, as the last events of its history.\<close>

theorem closed_in_reverse_order:
  assumes "new_configured n resources = Inr r" "rt_reachable r s" "rt_closed (sys_rt s)"
  shows "suffix (ScopesCleared # resources_closed (sys_rt s) 0) (rt_log (sys_rt s))"
proof -
  have "sys_close s = CIdle"
    using rt_invD(3) [OF rt_reachable_inv [OF assms(1,2)]] assms(3) by (simp add: adm_inv_def)
  then show ?thesis
    using rt_reachable_log_inv [OF assms(1,2)] assms(3) by (simp add: closed_down_to_def)
qed

theorem closed_in_reverse_order_witness:
  "rt_closed (sys_rt (demo demo_closed))
   \<and> suffix [ScopesCleared, ResourceClosed 1, ResourceClosed 0] (rt_log (sys_rt (demo demo_closed)))"
proof -
  have "rt_closed (sys_rt (demo demo_closed))" by (simp add: demo_eval)
  moreover have "resources_closed (sys_rt (demo demo_closed)) 0 = [ResourceClosed 1, ResourceClosed 0]"
    by (simp add: resources_closed_def demo_eval upt_conv_Cons)
  ultimately show ?thesis
    using closed_in_reverse_order [OF demo_configured demo_runs(7)] by simp
qed

text \<open>The number of retained entries, against the operations that are active.\<close>

lemma sum_card_holders:
  assumes "finite (busy ph)" "finite A"
  shows "(\<Sum>a\<in>A. card (holders ph a)) \<le> card (busy ph)"
proof -
  have "finite (holders ph a)" for a using finite_subset [OF holders_busy assms(1)] .
  moreover have "holders ph a \<inter> holders ph b = {}" if "a \<noteq> b" for a b
    using that by (auto simp: holders_def)
  ultimately have "(\<Sum>a\<in>A. card (holders ph a)) = card (\<Union>a\<in>A. holders ph a)"
    using assms(2) by (subst card_UN_disjoint) auto
  also have "\<dots> \<le> card (busy ph)" using holders_busy by (intro card_mono [OF assms(1)]) auto
  finally show ?thesis .
qed

text \<open>The Scope cache is bounded: it never holds more entries than its configured capacity or,
  when more Scopes are in use at once, than there are active operations.\<close>

theorem scope_cache_bounded:
  assumes "new_configured n resources = Inr r" "rt_reachable r s"
  shows "int (length (sc_entries (rt_scopes (sys_rt s))))
           \<le> max (int (sc_capacity (rt_scopes (sys_rt s)))) (rt_active (sys_rt s))"
proof -
  note inv = rt_invD [OF rt_reachable_inv [OF assms]]
  let ?c = "rt_scopes (sys_rt s)" and ?ph = "sys_ph s"
  have lk: "sc_linked ?c" and bd: "sc_bounded ?c"
    using sc.cache_invD(1) [OF inv(1)] by (simp_all add: sc_inv_def)
  show ?thesis
  proof (cases "length (sc_entries ?c) \<le> sc_capacity ?c")
    case False
    then have leased: "0 < leases_at ?c a" if "a \<in> set (sc_recency ?c)" for a
      using bd sc_linked_recency [OF lk that] by (auto simp: sc_bounded_def)
    have "length (sc_entries ?c) \<le> card (set (sc_recency ?c))"
      by (rule sc_linked_length [OF lk])
    also have "\<dots> \<le> (\<Sum>a\<in>set (sc_recency ?c). card (holders ?ph a))"
    proof -
      have "1 \<le> card (holders ?ph a)" if "a \<in> set (sc_recency ?c)" for a
        using leased [OF that] sc.cache_invD(3) [OF inv(1), of a] by simp
      then have "(\<Sum>a\<in>set (sc_recency ?c). 1) \<le> (\<Sum>a\<in>set (sc_recency ?c). card (holders ?ph a))"
        by (rule sum_mono)
      then show ?thesis by simp
    qed
    also have "\<dots> \<le> card (busy ?ph)" by (rule sum_card_holders [OF inv(2)]) simp
    finally show ?thesis using inv(3) by (simp add: adm_inv_def)
  qed simp
qed

theorem scope_cache_bounded_witness:
  "int (length (sc_entries (rt_scopes (sys_rt (demo demo_waiting)))))
     \<le> max (int (sc_capacity (rt_scopes (sys_rt (demo demo_waiting))))) (rt_active (sys_rt (demo demo_waiting)))"
  by (rule scope_cache_bounded [OF demo_configured demo_runs(2)])

text \<open>C4: an abandoned retry of \<open>Close\<close> reopens a Runtime that is half torn down: after an attempt that
  closed a resource and then failed, a retry whose context is cancelled restores admission although the
  drain had completed before, and an operation is admitted while its dependency is already closed.\<close>

theorem cancelled_retry_admits_after_teardown:
  "\<exists>r s. new_configured 1 [True, True] = Inr r \<and> rt_reachable r s
     \<and> ResourceClosed 1 \<in> set (rt_log (sys_rt s)) \<and> sys_ph s 0 = Admitted Plain \<and> \<not> rt_closing (sys_rt s)"
proof -
  let ?s = "demo (demo_failed_close @ [ABegin, ACancel, AAdmit 0 Plain])"
  have "ResourceClosed 1 \<in> set (rt_log (sys_rt ?s)) \<and> sys_ph ?s 0 = Admitted Plain \<and> \<not> rt_closing (sys_rt ?s)"
    by (simp add: demo_eval)
  with demo_configured demo_runs(6) show ?thesis by blast
qed

end
