(* ===== verification/Json_Model.thy ===== *)
theory Json_Model
  imports Complex_Main Go_Text
begin

text \<open>
  JSON values as the packages see them through \<open>jsontext.Value\<close>: a syntax tree that keeps the raw
  text of every number and the order of object members, white space apart. The theory models the
  semantic comparison of \<open>internal/sqlstore/sources.go\<close> (\<open>equalJSONValues\<close> and its helpers), which
  decides whether a redelivered observation is the stored one, and proves that it decides equality of
  meaning: exact decimal numbers, unordered members.
\<close>

section \<open>Values\<close>

datatype json =
    JNull
  | JBool bool
  | JNum string
  | JStr string
  | JArr "json list"
  | JObj "(string \<times> json) list"

fun json_kind :: "json \<Rightarrow> char" where
  "json_kind JNull = CHR ''n''"
| "json_kind (JBool b) = (if b then CHR ''t'' else CHR ''f'')"
| "json_kind (JNum s) = CHR ''0''"
| "json_kind (JStr s) = CHR ''\"''"
| "json_kind (JArr xs) = CHR ''[''"
| "json_kind (JObj ms) = CHR ''{''"

subsection \<open>Number literals\<close>

definition is_digit :: "char \<Rightarrow> bool" where
  "is_digit c \<longleftrightarrow> 48 \<le> byte_of c \<and> byte_of c \<le> 57"

definition digit_value :: "char \<Rightarrow> nat" where
  "digit_value c = byte_of c - 48"

definition digits_value :: "string \<Rightarrow> nat" where
  "digits_value s = foldl (\<lambda>n c. 10 * n + digit_value c) 0 s"

definition is_exponent_mark :: "char \<Rightarrow> bool" where
  "is_exponent_mark c \<longleftrightarrow> c = CHR ''e'' \<or> c = CHR ''E''"

definition strip_char :: "char \<Rightarrow> string \<Rightarrow> string" where
  "strip_char c s = (case s of d # rest \<Rightarrow> if d = c then rest else s | [] \<Rightarrow> [])"

definition strip_sign :: "string \<Rightarrow> string" where
  "strip_sign s = strip_char (CHR ''-'') s"

definition mantissa_of :: "string \<Rightarrow> string" where
  "mantissa_of s = takeWhile (\<lambda>c. \<not> is_exponent_mark c) (strip_sign s)"

definition exponent_of :: "string \<Rightarrow> string" where
  "exponent_of s = drop 1 (dropWhile (\<lambda>c. \<not> is_exponent_mark c) (strip_sign s))"

definition whole_of :: "string \<Rightarrow> string" where
  "whole_of s = takeWhile (\<lambda>c. c \<noteq> CHR ''.'') (mantissa_of s)"

definition fraction_of :: "string \<Rightarrow> string" where
  "fraction_of s = drop 1 (dropWhile (\<lambda>c. c \<noteq> CHR ''.'') (mantissa_of s))"

text \<open>The JSON grammar of numbers, over these parts.\<close>

definition valid_exponent :: "string \<Rightarrow> bool" where
  "valid_exponent e \<longleftrightarrow>
     (let d = (if e \<noteq> [] \<and> (hd e = CHR ''+'' \<or> hd e = CHR ''-'') then tl e else e)
      in d \<noteq> [] \<and> list_all is_digit d)"

definition valid_number :: "string \<Rightarrow> bool" where
  "valid_number s \<longleftrightarrow>
     whole_of s \<noteq> [] \<and> list_all is_digit (whole_of s)
     \<and> (hd (whole_of s) = CHR ''0'' \<longrightarrow> length (whole_of s) = 1)
     \<and> list_all is_digit (fraction_of s)
     \<and> (CHR ''.'' \<in> set (mantissa_of s) \<longrightarrow> fraction_of s \<noteq> [])
     \<and> (list_ex is_exponent_mark s \<longrightarrow> valid_exponent (exponent_of s))"

fun json_valid :: "json \<Rightarrow> bool" and json_all_valid :: "json list \<Rightarrow> bool"
  and json_members_valid :: "(string \<times> json) list \<Rightarrow> bool" where
  "json_valid JNull = True"
| "json_valid (JBool b) = True"
| "json_valid (JNum s) = valid_number s"
| "json_valid (JStr s) = valid_utf8 s"
| "json_valid (JArr xs) = json_all_valid xs"
| "json_valid (JObj ms) = (distinct (map fst ms) \<and> json_members_valid ms)"
| "json_all_valid [] = True"
| "json_all_valid (x # xs) = (json_valid x \<and> json_all_valid xs)"
| "json_members_valid [] = True"
| "json_members_valid (m # ms) = (valid_utf8 (fst m) \<and> json_valid (snd m) \<and> json_members_valid ms)"

section \<open>The comparison of the source repository\<close>

record json_number =
  jn_negative :: bool
  jn_zero :: bool
  jn_significand :: string
  jn_exponent :: int

text \<open>\<open>big.Int.SetString\<close> in base ten, on the exponent text.\<close>

definition parse_big_int :: "string \<Rightarrow> int option" where
  "parse_big_int s =
     (let d = (if s \<noteq> [] \<and> (hd s = CHR ''-'' \<or> hd s = CHR ''+'') then tl s else s);
          n = int (digits_value d)
      in if d \<noteq> [] \<and> list_all is_digit d
         then Some (if hd s = CHR ''-'' then - n else n) else None)"

definition trim_zeros_left :: "string \<Rightarrow> string" where
  "trim_zeros_left s = dropWhile (\<lambda>c. c = CHR ''0'') s"

definition trim_zeros_right :: "string \<Rightarrow> string" where
  "trim_zeros_right s = rev (dropWhile (\<lambda>c. c = CHR ''0'') (rev s))"

definition zero_number :: json_number where
  "zero_number = \<lparr>jn_negative = False, jn_zero = True, jn_significand = [], jn_exponent = 0\<rparr>"

definition parse_json_number :: "string \<Rightarrow> string + json_number" where
  "parse_json_number raw =
     (let negative = (raw \<noteq> [] \<and> hd raw = CHR ''-'');
          exponent_text = exponent_of raw;
          fraction_digits = length (fraction_of raw);
          mantissa = trim_zeros_left (whole_of raw @ fraction_of raw)
      in if mantissa = [] then Inr zero_number
         else let significand = trim_zeros_right mantissa;
                  trailing_zeros = length mantissa - length significand
              in case (if exponent_text = [] then Some 0
                       else parse_big_int (strip_char (CHR ''+'') exponent_text)) of
                   None \<Rightarrow> Inl ''invalid JSON number''
                 | Some e \<Rightarrow>
                    Inr \<lparr>jn_negative = negative, jn_zero = False, jn_significand = significand,
                         jn_exponent = - int fraction_digits + e + int trailing_zeros\<rparr>)"

definition equal_json_numbers :: "string \<Rightarrow> string \<Rightarrow> string + bool" where
  "equal_json_numbers l r =
     and_then (parse_json_number l) (\<lambda>ln.
     and_then (parse_json_number r) (\<lambda>rn.
     Inr (if jn_zero ln \<or> jn_zero rn then jn_zero ln = jn_zero rn
          else jn_negative ln = jn_negative rn \<and> jn_significand ln = jn_significand rn
               \<and> jn_exponent ln = jn_exponent rn)))"

function (sequential) equal_json_values :: "json \<Rightarrow> json \<Rightarrow> string + bool"
  and equal_json_arrays :: "json list \<Rightarrow> json list \<Rightarrow> string + bool"
  and equal_json_members :: "(string \<times> json) list \<Rightarrow> (string \<times> json) list \<Rightarrow> string + bool" where
  "equal_json_values l r =
     (if \<not> json_valid l \<or> \<not> json_valid r then Inl ''invalid JSON value''
      else if json_kind l \<noteq> json_kind r then Inr False
      else case l of
        JObj ls \<Rightarrow> (case r of JObj rs \<Rightarrow>
            if length ls \<noteq> length rs then Inr False else equal_json_members ls rs | _ \<Rightarrow> Inr False)
      | JArr xs \<Rightarrow> (case r of JArr ys \<Rightarrow>
            if length xs \<noteq> length ys then Inr False else equal_json_arrays xs ys | _ \<Rightarrow> Inr False)
      | JStr s \<Rightarrow> (case r of JStr t \<Rightarrow> Inr (s = t) | _ \<Rightarrow> Inr False)
      | JNum s \<Rightarrow> (case r of JNum t \<Rightarrow> equal_json_numbers s t | _ \<Rightarrow> Inr False)
      | _ \<Rightarrow> Inr (l = r))"
| "equal_json_arrays (x # xs) (y # ys) =
     and_then (equal_json_values x y) (\<lambda>eq. if eq then equal_json_arrays xs ys else Inr False)"
| "equal_json_arrays xs ys = Inr True"
| "equal_json_members [] rs = Inr True"
| "equal_json_members (m # ms) rs =
     (case map_of rs (fst m) of
        None \<Rightarrow> Inr False
      | Some v \<Rightarrow> and_then (equal_json_values (snd m) v)
          (\<lambda>eq. if eq then equal_json_members ms rs else Inr False))"
  by pat_completeness auto
termination
  by (relation "measure (\<lambda>x. case x of Inl (l, r) \<Rightarrow> size l
      | Inr (Inl (xs, ys)) \<Rightarrow> size_list size xs
      | Inr (Inr (ms, rs)) \<Rightarrow> size_list (\<lambda>x. Suc (size (snd x))) ms)")
    (auto simp: size_prod_simp)

declare equal_json_values.simps [simp del]

section \<open>Meaning\<close>

text \<open>The exact rational a number literal denotes, and values up to member order and number spelling.\<close>

definition exponent_value :: "string \<Rightarrow> int" where
  "exponent_value e = (if e = [] then 0 else the (parse_big_int e))"

definition number_value :: "string \<Rightarrow> rat" where
  "number_value s =
     (if s \<noteq> [] \<and> hd s = CHR ''-'' then -1 else 1)
     * of_nat (digits_value (whole_of s @ fraction_of s))
     * power_int 10 (exponent_value (exponent_of s) - int (length (fraction_of s)))"

datatype meaning =
    MNull
  | MBool bool
  | MNum rat
  | MStr string
  | MArr "meaning list"
  | MObj "string \<Rightarrow> meaning option"

fun json_meaning :: "json \<Rightarrow> meaning" and json_meanings :: "json list \<Rightarrow> meaning list"
  and member_meaning :: "(string \<times> json) list \<Rightarrow> string \<Rightarrow> meaning option" where
  "json_meaning JNull = MNull"
| "json_meaning (JBool b) = MBool b"
| "json_meaning (JNum s) = MNum (number_value s)"
| "json_meaning (JStr s) = MStr s"
| "json_meaning (JArr xs) = MArr (json_meanings xs)"
| "json_meaning (JObj ms) = MObj (member_meaning ms)"
| "json_meanings [] = []"
| "json_meanings (x # xs) = json_meaning x # json_meanings xs"
| "member_meaning [] = (\<lambda>k. None)"
| "member_meaning (m # ms) = (member_meaning ms)(fst m \<mapsto> json_meaning (snd m))"

lemma member_meaning_map_of: "member_meaning ms k = map_option json_meaning (map_of ms k)"
  by (induction ms) auto

lemma json_meanings_length [simp]: "length (json_meanings xs) = length xs"
  by (induction xs) auto

subsection \<open>Digits\<close>

lemma digits_value_Nil [simp]: "digits_value [] = 0"
  by (simp add: digits_value_def)

lemma digits_value_snoc [simp]: "digits_value (s @ [c]) = 10 * digits_value s + digit_value c"
  by (simp add: digits_value_def)

lemma digits_value_append: "digits_value (s @ t) = digits_value s * 10 ^ length t + digits_value t"
proof (induction t rule: rev_induct)
  case Nil
  then show ?case by simp
next
  case (snoc c t)
  then show ?case unfolding append_assoc [symmetric] digits_value_snoc by (simp add: algebra_simps)
qed

lemma digits_value_Cons: "digits_value (c # s) = digit_value c * 10 ^ length s + digits_value s"
  using digits_value_append [of "[c]" s] digits_value_snoc [of "[]" c] by simp

lemma digit_value_0 [simp]: "digit_value (CHR ''0'') = 0"
  by (simp add: digit_value_def)

lemma digit_value_bound: "is_digit c \<Longrightarrow> digit_value c < 10"
  unfolding is_digit_def digit_value_def by linarith

lemma digit_value_pos: "is_digit c \<Longrightarrow> c \<noteq> CHR ''0'' \<Longrightarrow> 0 < digit_value c"
proof -
  assume "is_digit c" "c \<noteq> CHR ''0''"
  moreover have "byte_of c \<noteq> (48::nat)" using \<open>c \<noteq> CHR ''0''\<close> of_char_eq_iff [of c "CHR ''0''"] by fastforce
  ultimately show ?thesis by (simp add: is_digit_def digit_value_def)
qed

lemma digit_value_inj: "is_digit c \<Longrightarrow> is_digit d \<Longrightarrow> digit_value c = digit_value d \<Longrightarrow> c = d"
proof -
  assume "is_digit c" "is_digit d" "digit_value c = digit_value d"
  then have "(of_char c :: nat) = of_char d" unfolding is_digit_def digit_value_def by linarith
  then show "c = d" by simp
qed

lemma digits_value_bound: "list_all is_digit s \<Longrightarrow> digits_value s < 10 ^ length s"
proof (induction s rule: rev_induct)
  case Nil
  then show ?case by simp
next
  case (snoc c s)
  then show ?case using digit_value_bound [of c] by simp
qed

lemma digits_value_zeros: "digits_value (replicate n (CHR ''0'')) = 0"
  by (induction n) (simp_all add: digits_value_Cons)

text \<open>Without leading zeros the digits are determined by the number they denote.\<close>

definition canonical_digits :: "string \<Rightarrow> bool" where
  "canonical_digits s \<longleftrightarrow> s \<noteq> [] \<and> list_all is_digit s \<and> hd s \<noteq> CHR ''0''"

lemma canonical_digits_pos: "canonical_digits s \<Longrightarrow> 10 ^ (length s - 1) \<le> digits_value s"
proof (cases s)
  case (Cons c t)
  assume "canonical_digits s"
  then have "0 < digit_value c" using Cons digit_value_pos by (simp add: canonical_digits_def)
  then have "10 ^ length t \<le> digit_value c * 10 ^ length t + digits_value t"
    using mult_le_mono1 [of 1 "digit_value c" "10 ^ length t"] by linarith
  then show ?thesis using Cons by (simp only: digits_value_Cons) simp
qed (simp add: canonical_digits_def)

lemma canonical_digits_length:
  assumes "canonical_digits s" "canonical_digits t" "digits_value s = digits_value t"
  shows "length s \<le> length t"
proof (rule ccontr)
  assume "\<not> length s \<le> length t"
  then have "(10::nat) ^ length t \<le> 10 ^ (length s - 1)" by (intro power_increasing) auto
  also have "\<dots> \<le> digits_value s" using assms(1) by (rule canonical_digits_pos)
  finally have "10 ^ length t \<le> digits_value t" using assms(3) by simp
  moreover have "digits_value t < 10 ^ length t"
    using assms(2) by (intro digits_value_bound) (simp add: canonical_digits_def)
  ultimately show False by simp
qed

lemma digits_value_inj_length:
  "length s = length t \<Longrightarrow> list_all is_digit s \<Longrightarrow> list_all is_digit t \<Longrightarrow>
     digits_value s = digits_value t \<Longrightarrow> s = t"
proof (induction s arbitrary: t rule: rev_induct)
  case Nil
  then show ?case by simp
next
  case (snoc c s)
  obtain d u where t: "t = u @ [d]" using snoc.prems(1) by (cases t rule: rev_cases) auto
  have "digit_value c < 10" "digit_value d < 10" using snoc.prems(2,3) t digit_value_bound by auto
  moreover have "10 * digits_value s + digit_value c = 10 * digits_value u + digit_value d"
    using snoc.prems(4) t by simp
  ultimately have "digits_value s = digits_value u" "digit_value c = digit_value d" by presburger+
  then show ?case using snoc t digit_value_inj by auto
qed

lemma canonical_digits_inj:
  "canonical_digits s \<Longrightarrow> canonical_digits t \<Longrightarrow> digits_value s = digits_value t \<Longrightarrow> s = t"
  using canonical_digits_length [of s t] canonical_digits_length [of t s]
  by (intro digits_value_inj_length) (auto simp: canonical_digits_def)

subsection \<open>Normal forms of numbers\<close>

lemma trim_zeros_left_split:
  "s = replicate (length s - length (trim_zeros_left s)) (CHR ''0'') @ trim_zeros_left s"
  by (induction s) (auto simp: trim_zeros_left_def Suc_diff_le length_dropWhile_le)

lemma trim_zeros_left_value: "digits_value (trim_zeros_left s) = digits_value s"
  by (subst (2) trim_zeros_left_split) (simp add: digits_value_append digits_value_zeros)

lemma trim_zeros_left_all: "list_all P s \<Longrightarrow> list_all P (trim_zeros_left s)"
  by (auto simp: trim_zeros_left_def list_all_iff dest: set_dropWhileD)

lemma trim_zeros_left_canonical:
  assumes "list_all is_digit s" "trim_zeros_left s \<noteq> []"
  shows "canonical_digits (trim_zeros_left s)"
  using assms trim_zeros_left_all [OF assms(1)] hd_dropWhile [of "\<lambda>c. c = CHR ''0''" s]
  by (simp add: canonical_digits_def trim_zeros_left_def)

lemma trim_zeros_right_split:
  "s = trim_zeros_right s @ replicate (length s - length (trim_zeros_right s)) (CHR ''0'')"
proof -
  have "rev s = replicate (length s - length (trim_zeros_right s)) (CHR ''0'') @ rev (trim_zeros_right s)"
    using trim_zeros_left_split [of "rev s"] by (simp add: trim_zeros_left_def trim_zeros_right_def)
  then have "rev (rev s) = trim_zeros_right s @ rev (replicate (length s - length (trim_zeros_right s)) (CHR ''0''))"
    by (simp only: rev_append rev_rev_ident)
  then show ?thesis by simp
qed

lemma trim_zeros_right_canonical:
  assumes "canonical_digits s"
  shows "canonical_digits (trim_zeros_right s)" "last (trim_zeros_right s) \<noteq> CHR ''0''"
    "digits_value s = digits_value (trim_zeros_right s) * 10 ^ (length s - length (trim_zeros_right s))"
proof -
  let ?t = "trim_zeros_right s" and ?k = "length s - length (trim_zeros_right s)"
  note sp = trim_zeros_right_split [of s]
  have ne: "?t \<noteq> []"
  proof
    assume "?t = []"
    then have "s = replicate ?k (CHR ''0'')" using sp by simp
    then have "hd s = CHR ''0''" using assms by (cases ?k) (auto simp: canonical_digits_def)
    then show False using assms by (simp add: canonical_digits_def)
  qed
  have "hd s = hd ?t" using sp ne by (metis hd_append2)
  moreover have "list_all is_digit ?t" using assms sp by (metis canonical_digits_def list_all_append)
  ultimately show "canonical_digits ?t" using ne assms by (simp add: canonical_digits_def)
  show "last ?t \<noteq> CHR ''0''"
    using ne hd_dropWhile [of "\<lambda>c. c = CHR ''0''" "rev s"] by (simp add: trim_zeros_right_def last_rev)
  have "digits_value s = digits_value (?t @ replicate ?k (CHR ''0''))" using sp by simp
  then show "digits_value s = digits_value ?t * 10 ^ ?k"
    by (simp add: digits_value_append digits_value_zeros)
qed

lemma canonical_last_not_dvd:
  assumes "canonical_digits s" "last s \<noteq> CHR ''0''"
  shows "\<not> 10 dvd digits_value s"
proof -
  obtain t c where s: "s = t @ [c]" using assms(1) by (cases s rule: rev_cases) (auto simp: canonical_digits_def)
  then have "is_digit c" "c \<noteq> CHR ''0''" using assms by (simp_all add: canonical_digits_def)
  then have "0 < digit_value c" "digit_value c < 10" using digit_value_pos digit_value_bound by auto
  then show ?thesis using s by (auto simp: dvd_def) presburger
qed

lemma exponent_parse:
  assumes "valid_exponent e"
  shows "parse_big_int (strip_char (CHR ''+'') e) = Some (exponent_value e)" "e \<noteq> []"
proof -
  obtain c d where e: "e = c # d" using assms by (cases e) (auto simp: valid_exponent_def)
  have no: "\<not> is_digit (CHR ''-'')" "\<not> is_digit (CHR ''+'')" by (simp_all add: is_digit_def)
  show "e \<noteq> []" using e by simp
  show "parse_big_int (strip_char (CHR ''+'') e) = Some (exponent_value e)"
  proof (cases "c = CHR ''+''")
    case True
    then have "d \<noteq> []" "list_all is_digit d" using assms e by (simp_all add: valid_exponent_def)
    moreover have "hd d \<noteq> CHR ''-''" "hd d \<noteq> CHR ''+''"
      using calculation no by (cases d; auto)+
    ultimately show ?thesis using True e by (simp add: parse_big_int_def strip_char_def exponent_value_def)
  next
    case False
    then show ?thesis using assms e
      by (auto simp: parse_big_int_def strip_char_def exponent_value_def valid_exponent_def Let_def split: if_splits)
  qed
qed

lemma no_mark_no_exponent: "\<not> list_ex is_exponent_mark s \<Longrightarrow> exponent_of s = []"
proof -
  assume h: "\<not> list_ex is_exponent_mark s"
  have "set (strip_sign s) \<subseteq> set s" by (cases s) (auto simp: strip_sign_def strip_char_def)
  then have "\<forall>c \<in> set (strip_sign s). \<not> is_exponent_mark c" using h by (auto simp: list_ex_iff)
  then have "dropWhile (\<lambda>c. \<not> is_exponent_mark c) (strip_sign s) = []" by simp
  then show ?thesis unfolding exponent_of_def by (simp only: drop_Nil)
qed

definition number_sign :: "string \<Rightarrow> rat" where
  "number_sign s = (if s \<noteq> [] \<and> hd s = CHR ''-'' then -1 else 1)"

definition normal_number :: "json_number \<Rightarrow> rat \<Rightarrow> bool" where
  "normal_number n v \<longleftrightarrow> canonical_digits (jn_significand n) \<and> last (jn_significand n) \<noteq> CHR ''0''
     \<and> v = (if jn_negative n then -1 else 1) * of_nat (digits_value (jn_significand n)) * power_int 10 (jn_exponent n)"

lemma parse_json_number_spec:
  assumes "valid_number s"
  shows "\<exists>n. parse_json_number s = Inr n
    \<and> (if jn_zero n then number_value s = 0 else normal_number n (number_value s))"
proof -
  let ?d = "whole_of s @ fraction_of s" and ?m = "trim_zeros_left (whole_of s @ fraction_of s)"
  have digits: "list_all is_digit ?d" using assms by (simp add: valid_number_def)
  show ?thesis
  proof (cases "?m = []")
    case True
    then have "digits_value ?d = 0" using trim_zeros_left_value [of ?d] by simp
    then show ?thesis using True by (simp add: parse_json_number_def zero_number_def number_value_def)
  next
    case False
    let ?g = "trim_zeros_right ?m" and ?e = "exponent_value (exponent_of s)"
    note c = trim_zeros_left_canonical [OF digits False]
    note g = trim_zeros_right_canonical [OF c]
    have ex: "(if exponent_of s = [] then Some 0 else parse_big_int (strip_char (CHR ''+'') (exponent_of s))) = Some ?e"
      using assms exponent_parse no_mark_no_exponent [of s]
      by (cases "exponent_of s = []") (auto simp: valid_number_def exponent_value_def)
    define n where "n = \<lparr>jn_negative = s \<noteq> [] \<and> hd s = CHR ''-'', jn_zero = False, jn_significand = ?g,
       jn_exponent = - int (length (fraction_of s)) + ?e + int (length ?m - length ?g)\<rparr>"
    have p: "parse_json_number s = Inr n"
      using False by (simp add: parse_json_number_def Let_def ex n_def)
    have "(of_nat (digits_value ?d) :: rat) = of_nat (digits_value ?g) * power_int 10 (int (length ?m - length ?g))"
      using g(3) trim_zeros_left_value [of ?d] by (simp add: power_int_def)
    then have "number_value s = number_sign s * of_nat (digits_value ?g)
        * (power_int 10 (int (length ?m - length ?g)) * power_int 10 (?e - int (length (fraction_of s))))"
      by (simp add: number_value_def number_sign_def)
    also have "\<dots> = number_sign s * of_nat (digits_value ?g) * power_int 10 (jn_exponent n)"
      by (subst power_int_add [symmetric]) (simp_all add: n_def algebra_simps)
    finally have "normal_number n (number_value s)"
      using g(1,2) by (simp add: normal_number_def number_sign_def n_def)
    then show ?thesis using p by (intro exI [of _ n]) (simp add: n_def)
  qed
qed

lemma ten_power_unique:
  assumes "\<not> 10 dvd (a::nat)" "\<not> 10 dvd (b::nat)" "of_nat a * power_int (10::rat) e = of_nat b * power_int 10 f"
  shows "e = f \<and> a = b"
proof -
  have le: "e = f" if "e \<le> f" "\<not> 10 dvd (a::nat)" "of_nat a * power_int (10::rat) e = of_nat b * power_int 10 f"
    for a b :: nat and e f :: int
  proof -
    have "power_int (10::rat) f = power_int 10 e * 10 ^ nat (f - e)"
    proof -
      have "power_int (10::rat) (f - e) = 10 ^ nat (f - e)" using that(1) by (simp add: power_int_def)
      then show ?thesis using power_int_add [of "10::rat" e "f - e"] by simp
    qed
    then have "(of_nat a :: rat) = of_nat (b * 10 ^ nat (f - e))"
      using that(3) by (simp add: field_simps)
    then have "a = b * 10 ^ nat (f - e)" by (simp only: of_nat_eq_iff)
    then show ?thesis using that(1,2) by (cases "nat (f - e)") auto
  qed
  have "e = f"
    using le [of e f a b] le [of f e b a] assms by linarith
  then show ?thesis using assms(3) by simp
qed

lemma canonical_value_pos: "canonical_digits s \<Longrightarrow> 0 < digits_value s"
  using canonical_digits_pos [of s] by (metis gr0I le_zero_eq power_not_zero zero_neq_numeral)

lemma normal_number_nonzero: "normal_number n v \<Longrightarrow> v \<noteq> 0"
  using canonical_value_pos by (auto simp: normal_number_def)

lemma normal_number_unique:
  assumes "normal_number m v" "normal_number n w"
  shows "v = w \<longleftrightarrow> jn_negative m = jn_negative n \<and> jn_significand m = jn_significand n
    \<and> jn_exponent m = jn_exponent n"
proof
  let ?a = "digits_value (jn_significand m)" and ?b = "digits_value (jn_significand n)"
  let ?p = "power_int (10::rat) (jn_exponent m)" and ?q = "power_int (10::rat) (jn_exponent n)"
  assume eq: "v = w"
  have pos: "0 < of_nat ?a * ?p" "0 < of_nat ?b * ?q"
    using assms canonical_value_pos by (simp_all add: normal_number_def)
  have sgn: "jn_negative m = jn_negative n"
    using assms eq pos by (auto simp: normal_number_def split: if_splits)
  then have "of_nat ?a * ?p = of_nat ?b * ?q" using assms eq by (auto simp: normal_number_def split: if_splits)
  then have "jn_exponent m = jn_exponent n \<and> ?a = ?b"
    using assms canonical_last_not_dvd by (intro ten_power_unique) (auto simp: normal_number_def)
  then show "jn_negative m = jn_negative n \<and> jn_significand m = jn_significand n
      \<and> jn_exponent m = jn_exponent n"
    using sgn assms canonical_digits_inj by (auto simp: normal_number_def)
qed (use assms in \<open>simp add: normal_number_def\<close>)

lemma equal_json_numbers_value:
  assumes "valid_number s" "valid_number t"
  shows "equal_json_numbers s t = Inr (number_value s = number_value t)"
proof -
  obtain m where m: "parse_json_number s = Inr m"
      "if jn_zero m then number_value s = 0 else normal_number m (number_value s)"
    using parse_json_number_spec [OF assms(1)] by blast
  obtain n where n: "parse_json_number t = Inr n"
      "if jn_zero n then number_value t = 0 else normal_number n (number_value t)"
    using parse_json_number_spec [OF assms(2)] by blast
  have z: "jn_zero m \<longleftrightarrow> number_value s = 0" "jn_zero n \<longleftrightarrow> number_value t = 0"
    using m(2) n(2) normal_number_nonzero by (auto split: if_splits)
  show ?thesis
  proof (cases "jn_zero m \<or> jn_zero n")
    case True
    then show ?thesis using z m(1) n(1) by (auto simp: equal_json_numbers_def res_simps)
  next
    case False
    then have "normal_number m (number_value s)" "normal_number n (number_value t)" using m(2) n(2) by simp_all
    then show ?thesis
      using False m(1) n(1) normal_number_unique by (simp add: equal_json_numbers_def res_simps)
  qed
qed

subsection \<open>Values\<close>

lemma members_valid_lookup:
  "json_members_valid ms \<Longrightarrow> map_of ms k = Some v \<Longrightarrow> json_valid v"
  by (induction ms) (auto split: if_splits)

lemma member_meaning_length:
  assumes "distinct (map fst ms)" "distinct (map fst rs)" "member_meaning ms = member_meaning rs"
  shows "length ms = length rs"
proof -
  have "dom (member_meaning xs) = fst ` set xs" for xs
    by (simp add: dom_def member_meaning_map_of map_of_eq_None_iff del: not_None_eq)
  then have "fst ` set ms = fst ` set rs" using assms(3) by metis
  then show ?thesis
    using assms(1,2) distinct_card [of "map fst ms"] distinct_card [of "map fst rs"] by simp
qed

lemma member_meaning_eq_iff:
  assumes "distinct (map fst ms)" "distinct (map fst rs)" "length ms = length rs"
  shows "member_meaning ms = member_meaning rs \<longleftrightarrow>
     (\<forall>(k, v) \<in> set ms. map_option json_meaning (map_of rs k) = Some (json_meaning v))" (is "?l \<longleftrightarrow> ?r")
proof
  assume ?l
  have "map_option json_meaning (map_of rs k) = Some (json_meaning v)" if "(k, v) \<in> set ms" for k v
  proof -
    have "map_of ms k = Some v" using that assms(1) by simp
    then show ?thesis using fun_cong [OF \<open>?l\<close>, of k] by (simp add: member_meaning_map_of)
  qed
  then show ?r by blast
next
  assume r: ?r
  then have sub: "fst ` set ms \<subseteq> fst ` set rs" by (force simp: map_of_eq_None_iff dest: map_of_SomeD)
  have "card (fst ` set ms) = card (fst ` set rs)"
    using assms distinct_card [of "map fst ms"] distinct_card [of "map fst rs"] by simp
  then have dom: "fst ` set ms = fst ` set rs" using sub by (intro card_subset_eq) auto
  show ?l
  proof
    fix k
    show "member_meaning ms k = member_meaning rs k"
    proof (cases "map_of ms k")
      case None
      then have "map_of rs k = None" using dom by (simp add: map_of_eq_None_iff)
      with None show ?thesis by (simp add: member_meaning_map_of)
    next
      case (Some v)
      then have "(k, v) \<in> set ms" by (rule map_of_SomeD)
      with r Some show ?thesis by (auto simp: member_meaning_map_of)
    qed
  qed
qed

lemma equal_json_sound:
  "json_valid l \<Longrightarrow> json_valid r \<Longrightarrow> equal_json_values l r = Inr (json_meaning l = json_meaning r)"
  "json_all_valid xs \<Longrightarrow> json_all_valid ys \<Longrightarrow> length xs = length ys \<Longrightarrow>
     equal_json_arrays xs ys = Inr (json_meanings xs = json_meanings ys)"
  "json_members_valid ms \<Longrightarrow> json_members_valid rs \<Longrightarrow>
     equal_json_members ms rs =
       Inr (\<forall>(k, v) \<in> set ms. map_option json_meaning (map_of rs k) = Some (json_meaning v))"
proof (induction l r and xs ys and ms rs rule: equal_json_values_equal_json_arrays_equal_json_members.induct)
  case (1 l r)
  then show ?case
    by (cases l; cases r)
      (auto simp: equal_json_values.simps equal_json_numbers_value member_meaning_eq_iff
        dest: arg_cong [of _ _ length] member_meaning_length)
next
  case (2 x xs y ys)
  then show ?case by (cases "json_meaning x = json_meaning y") simp_all
next
  case (5 m ms rs)
  show ?case
  proof (cases "map_of rs (fst m)")
    case None
    then show ?thesis by (cases m) simp
  next
    case (Some v)
    then have "json_valid v" using "5.prems" members_valid_lookup by blast
    with 5 Some have v: "equal_json_values (snd m) v = Inr (json_meaning (snd m) = json_meaning v)" by simp
    show ?thesis
    proof (cases "json_meaning (snd m) = json_meaning v")
      case True
      then show ?thesis using 5 Some v by (cases m) simp
    next
      case False
      then show ?thesis using Some v by (cases m) auto
    qed
  qed
qed simp_all

text \<open>C9: the comparison of stored and redelivered observation payloads decides equality of meaning: on
  valid JSON it never fails, compares numbers as exact decimals whatever their spelling and size of
  exponent, ignores the order of object members, and is otherwise structural.\<close>

theorem equal_json_values_meaning:
  assumes "json_valid l" "json_valid r"
  shows "equal_json_values l r = Inr (json_meaning l = json_meaning r)"
  using assms by (rule equal_json_sound(1))

definition sample_left :: json where
  "sample_left = JObj [(''n'', JNum ''1.50e+1''), (''s'', JStr ''x'')]"

definition sample_right :: json where
  "sample_right = JObj [(''s'', JStr ''x''), (''n'', JNum ''15'')]"

theorem equal_json_values_meaning_witness:
  "json_valid sample_left \<and> json_valid sample_right \<and> equal_json_values sample_left sample_right = Inr True
   \<and> json_meaning sample_left = json_meaning sample_right"
proof -
  have v: "json_valid sample_left" "json_valid sample_right" by code_simp+
  moreover have "equal_json_values sample_left sample_right = Inr True" by code_simp
  ultimately show ?thesis using equal_json_values_meaning [OF v] by simp
qed

end
