(* ===== verification/Source_Observation.thy ===== *)
theory Source_Observation
  imports Json_Model Artifact_Model
begin

text \<open>
  Worker observations and the Definitions they are admitted against: \<open>source/observation.go\<close>,
  \<open>source/definition_manifest.go\<close>, \<open>source/text_evidence.go\<close>, \<open>source/accepted_observation.go\<close> and
  \<open>internal/sourceevidence\<close>. A \<open>jsontext.Value\<close> that may be absent is a \<open>json option\<close>. Two functions are
  parameters: \<open>digest\<close>, the hexadecimal SHA-256 of the RFC 8785 canonical form of a JSON value, and
  \<open>schema_check\<close>, the third-party JSON Schema validator (\<open>None\<close> when the schema does not compile,
  otherwise the verdict on each instance).
\<close>

datatype ingest_error =
    InvalidObservation string string
  | InvalidProjection string string
  | InvalidManifest string string
  | InvalidTextEvidence string string
  | DefinitionNotFound
  | UnacceptedObservation

section \<open>Projection keys and Definition manifests\<close>

definition validate_manifest_identity :: "string \<Rightarrow> string \<Rightarrow> nat \<Rightarrow> ingest_error + unit" where
  "validate_manifest_identity field value maximum =
     (let trimmed = trim_python value in
      if \<not> valid_utf8 value then Inl (InvalidManifest field ''must be valid UTF-8'')
      else if trimmed = [] then Inl (InvalidManifest field ''must be a non-empty string'')
      else if trimmed \<noteq> value
        then Inl (InvalidManifest field ''must not contain leading or trailing whitespace'')
      else if rune_count value > maximum then Inl (InvalidManifest field (too_long_detail maximum))
      else Inr ())"

record definition_identity =
  di_name :: string
  di_version :: string

definition validate_identity :: "definition_identity \<Rightarrow> ingest_error + unit" where
  "validate_identity i =
     and_then (validate_manifest_identity ''name'' (di_name i) max_source_type_length) (\<lambda>_.
     validate_manifest_identity ''version'' (di_version i) max_source_type_length)"

definition new_definition_identity :: "string \<Rightarrow> string \<Rightarrow> ingest_error + definition_identity" where
  "new_definition_identity name version =
     (let i = \<lparr>di_name = name, di_version = version\<rparr> in and_then (validate_identity i) (\<lambda>_. Inr i))"

record projection_key =
  pk_name :: string
  pk_version :: string

definition validate_projection_key :: "projection_key \<Rightarrow> ingest_error + unit" where
  "validate_projection_key k =
     and_then (validate_manifest_identity ''name'' (pk_name k) max_source_id_length) (\<lambda>_.
     validate_manifest_identity ''version'' (pk_version k) max_source_id_length)"

definition new_projection_key :: "string \<Rightarrow> string \<Rightarrow> ingest_error + projection_key" where
  "new_projection_key name version =
     (let k = \<lparr>pk_name = name, pk_version = version\<rparr> in and_then (validate_projection_key k) (\<lambda>_. Inr k))"

subsection \<open>Schemas\<close>

definition safe_integer :: "string \<Rightarrow> bool" where
  "safe_integer s \<longleftrightarrow> (case parse_big_int s of None \<Rightarrow> False | Some n \<Rightarrow> \<bar>n\<bar> \<le> 9007199254740991)"

definition number_interoperable :: "string \<Rightarrow> bool" where
  "number_interoperable s \<longleftrightarrow> list_ex (\<lambda>c. c = CHR ''.'' \<or> is_exponent_mark c) s \<or> safe_integer s"

fun validate_json_numbers :: "json \<Rightarrow> bool" and all_json_numbers :: "json list \<Rightarrow> bool"
  and member_json_numbers :: "(string \<times> json) list \<Rightarrow> bool" where
  "validate_json_numbers (JNum s) = number_interoperable s"
| "validate_json_numbers (JArr xs) = all_json_numbers xs"
| "validate_json_numbers (JObj ms) = member_json_numbers ms"
| "validate_json_numbers JNull = True"
| "validate_json_numbers (JBool b) = True"
| "validate_json_numbers (JStr s) = True"
| "all_json_numbers [] = True"
| "all_json_numbers (x # xs) = (validate_json_numbers x \<and> all_json_numbers xs)"
| "member_json_numbers [] = True"
| "member_json_numbers (m # ms) = (validate_json_numbers (snd m) \<and> member_json_numbers ms)"

text \<open>Decoding a number into a \<open>float64\<close> fails when rounding overflows: at \<open>2^1024 - 2^970\<close> and above.\<close>

definition float64_in_range :: "string \<Rightarrow> bool" where
  "float64_in_range s \<longleftrightarrow> \<bar>number_value s\<bar> < 2 ^ 1024 - 2 ^ 970"

fun decodes_to_any :: "json \<Rightarrow> bool" and all_decode :: "json list \<Rightarrow> bool"
  and members_decode :: "(string \<times> json) list \<Rightarrow> bool" where
  "decodes_to_any (JNum s) = float64_in_range s"
| "decodes_to_any (JArr xs) = all_decode xs"
| "decodes_to_any (JObj ms) = members_decode ms"
| "decodes_to_any JNull = True"
| "decodes_to_any (JBool b) = True"
| "decodes_to_any (JStr s) = True"
| "all_decode [] = True"
| "all_decode (x # xs) = (decodes_to_any x \<and> all_decode xs)"
| "members_decode [] = True"
| "members_decode (m # ms) = (decodes_to_any (snd m) \<and> members_decode ms)"

definition remote_reference :: "string \<times> json \<Rightarrow> bool" where
  "remote_reference m \<longleftrightarrow> (fst m = ''$ref'' \<or> fst m = ''$dynamicRef'')
     \<and> (case snd m of JStr r \<Rightarrow> \<not> prefix ''#'' r | _ \<Rightarrow> False)"

fun has_remote_schema_reference :: "json \<Rightarrow> bool" and any_remote :: "json list \<Rightarrow> bool"
  and member_remote :: "(string \<times> json) list \<Rightarrow> bool" where
  "has_remote_schema_reference (JObj ms) = member_remote ms"
| "has_remote_schema_reference (JArr xs) = any_remote xs"
| "has_remote_schema_reference JNull = False"
| "has_remote_schema_reference (JBool b) = False"
| "has_remote_schema_reference (JNum s) = False"
| "has_remote_schema_reference (JStr s) = False"
| "any_remote [] = False"
| "any_remote (x # xs) = (has_remote_schema_reference x \<or> any_remote xs)"
| "member_remote [] = False"
| "member_remote (m # ms) =
     (remote_reference m \<or> has_remote_schema_reference (snd m) \<or> member_remote ms)"

text \<open>\<open>immutableSchema\<close> on a raw JSON value, the form every parsed or stored schema has.\<close>

definition immutable_schema :: "string \<Rightarrow> json option \<Rightarrow> ingest_error + json" where
  "immutable_schema field value = (case value of
     None \<Rightarrow> Inl (InvalidManifest field ''must be a JSON object'')
   | Some encoded \<Rightarrow>
      if \<not> json_valid encoded \<or> \<not> validate_json_numbers encoded
        then Inl (InvalidManifest field ''must contain only interoperable JSON numbers'')
      else if json_kind encoded \<noteq> CHR ''{'' then Inl (InvalidManifest field ''must be a JSON object'')
      else if \<not> decodes_to_any encoded then Inl (InvalidManifest field ''must be a valid JSON object'')
      else if has_remote_schema_reference encoded
        then Inl (InvalidManifest field ''must not contain remote schema references'')
      else Inr encoded)"

record projection_manifest =
  pm_key :: projection_key
  pm_schema :: "json option"

definition new_projection_manifest :: "projection_key \<Rightarrow> json option \<Rightarrow> ingest_error + projection_manifest" where
  "new_projection_manifest key schema =
     (case validate_projection_key key of
        Inl _ \<Rightarrow> Inl (InvalidManifest ''key'' ''must contain a valid name and version'')
      | Inr _ \<Rightarrow> and_then (immutable_schema ''schema'' schema) (\<lambda>s. Inr \<lparr>pm_key = key, pm_schema = Some s\<rparr>))"

definition validate_projection_manifest :: "projection_manifest \<Rightarrow> ingest_error + unit" where
  "validate_projection_manifest p =
     (case validate_projection_key (pm_key p) of
        Inl _ \<Rightarrow> Inl (InvalidManifest ''key'' ''must contain a valid name and version'')
      | Inr _ \<Rightarrow> and_then (immutable_schema ''schema'' (pm_schema p)) (\<lambda>_. Inr ()))"

record definition_manifest =
  dm_identity :: definition_identity
  dm_fingerprint :: string
  dm_source_schema :: "json option"
  dm_projections :: "projection_manifest list"

definition projection_key_wire :: "projection_key \<Rightarrow> json" where
  "projection_key_wire k = JObj [(''name'', JStr (pk_name k)), (''version'', JStr (pk_version k))]"

definition schema_wire :: "json option \<Rightarrow> json" where
  "schema_wire s = (case s of None \<Rightarrow> JNull | Some j \<Rightarrow> j)"

definition definition_wire :: "definition_manifest \<Rightarrow> bool \<Rightarrow> json" where
  "definition_wire m include_fingerprint =
     JObj ([(''name'', JStr (di_name (dm_identity m))), (''version'', JStr (di_version (dm_identity m)))]
       @ (if include_fingerprint \<and> dm_fingerprint m \<noteq> [] then [(''fingerprint'', JStr (dm_fingerprint m))] else [])
       @ [(''source_schema'', schema_wire (dm_source_schema m)),
          (''projections'', JArr (map (\<lambda>p. JObj [(''key'', projection_key_wire (pm_key p)),
             (''schema'', schema_wire (pm_schema p))]) (dm_projections m)))])"

definition definition_fingerprint :: "(json \<Rightarrow> string) \<Rightarrow> definition_manifest \<Rightarrow> ingest_error + string" where
  "definition_fingerprint digest m =
     (let declaration = definition_wire m False in
      if \<not> json_valid declaration then Inl (InvalidManifest ''declaration'' ''must be valid JSON'')
      else Inr (''sha256:'' @ digest declaration))"

definition valid_fingerprint :: "string \<Rightarrow> bool" where
  "valid_fingerprint value \<longleftrightarrow> length value = 71 \<and> prefix ''sha256:'' value
     \<and> list_all (\<lambda>c. is_digit c \<or> (97 \<le> byte_of c \<and> byte_of c \<le> 102)) (drop 7 value)"

fun projections_unique :: "projection_key list \<Rightarrow> projection_manifest list \<Rightarrow> ingest_error + unit" where
  "projections_unique seen [] = Inr ()"
| "projections_unique seen (p # ps) =
     (case validate_projection_manifest p of
        Inl _ \<Rightarrow> Inl (InvalidManifest ''projections'' ''must contain valid projection declarations'')
      | Inr _ \<Rightarrow>
         (if pm_key p \<in> set seen then Inl (InvalidManifest ''projections'' ''keys must be unique'')
          else projections_unique (pm_key p # seen) ps))"

definition new_definition_manifest ::
  "(json \<Rightarrow> string) \<Rightarrow> definition_identity \<Rightarrow> json option \<Rightarrow> projection_manifest list
   \<Rightarrow> ingest_error + definition_manifest" where
  "new_definition_manifest digest identity source_schema projections =
     (case validate_identity identity of
        Inl _ \<Rightarrow> Inl (InvalidManifest ''identity'' ''must contain a valid name and version'')
      | Inr _ \<Rightarrow>
        and_then (check (length projections \<le> 16)
          (InvalidManifest ''projections'' ''must not contain more than 16 entries'')) (\<lambda>_.
        and_then (projections_unique [] projections) (\<lambda>_.
        and_then (immutable_schema ''source_schema'' source_schema) (\<lambda>encoded.
        let m = \<lparr>dm_identity = identity, dm_fingerprint = [], dm_source_schema = Some encoded,
                 dm_projections = projections\<rparr> in
        and_then (definition_fingerprint digest m) (\<lambda>f. Inr (m\<lparr>dm_fingerprint := f\<rparr>))))))"

definition validate_definition_manifest :: "(json \<Rightarrow> string) \<Rightarrow> definition_manifest \<Rightarrow> ingest_error + unit" where
  "validate_definition_manifest digest m =
     (case validate_identity (dm_identity m) of
        Inl _ \<Rightarrow> Inl (InvalidManifest ''identity'' ''must contain a valid name and version'')
      | Inr _ \<Rightarrow>
        and_then (check (valid_fingerprint (dm_fingerprint m))
          (InvalidManifest ''fingerprint'' ''must use sha256 followed by lowercase hexadecimal'')) (\<lambda>_.
        and_then (check (length (dm_projections m) \<le> 16)
          (InvalidManifest ''projections'' ''must not contain more than 16 entries'')) (\<lambda>_.
        and_then (projections_unique [] (dm_projections m)) (\<lambda>_.
        and_then (immutable_schema ''source_schema'' (dm_source_schema m)) (\<lambda>_.
        and_then (definition_fingerprint digest m) (\<lambda>expected.
        check (dm_fingerprint m = expected)
          (InvalidManifest ''fingerprint'' ''does not match the declaration'')))))))"

subsection \<open>Parsing manifests\<close>

definition required_string :: "json option \<Rightarrow> string \<Rightarrow> ingest_error + string" where
  "required_string payload field = (case payload of
     Some (JStr s) \<Rightarrow> Inr s
   | _ \<Rightarrow> Inl (InvalidManifest field ''must be a string''))"

definition required_array :: "json \<Rightarrow> string \<Rightarrow> ingest_error + json list" where
  "required_array payload field = (case payload of
     JArr xs \<Rightarrow> Inr xs
   | _ \<Rightarrow> Inl (InvalidManifest field ''must be an array''))"

definition exact_object :: "json option \<Rightarrow> string \<Rightarrow> string list \<Rightarrow> ingest_error + (string \<times> json) list" where
  "exact_object payload field required = (case payload of
     Some (JObj ms) \<Rightarrow>
      (if \<not> json_valid (JObj ms)
       then Inl (InvalidManifest field ''must be valid JSON without duplicate members or trailing data'')
       else if length ms \<noteq> length required \<or> \<not> list_all (\<lambda>n. map_of ms n \<noteq> None) required
       then Inl (InvalidManifest field ''must contain exactly the required members'')
       else Inr ms)
   | _ \<Rightarrow> Inl (InvalidManifest field ''must be a JSON object''))"

definition parse_projection_manifest :: "json \<Rightarrow> ingest_error + projection_manifest" where
  "parse_projection_manifest payload =
     and_then (exact_object (Some payload) ''projection'' [''key'', ''schema'']) (\<lambda>root.
     and_then (exact_object (map_of root ''key'') ''key'' [''name'', ''version'']) (\<lambda>ko.
     and_then (required_string (map_of ko ''name'') ''name'') (\<lambda>name.
     and_then (required_string (map_of ko ''version'') ''version'') (\<lambda>version.
     and_then (new_projection_key name version) (\<lambda>key.
     new_projection_manifest key (map_of root ''schema''))))))"

definition manifest_members :: "string list" where
  "manifest_members = [''name'', ''version'', ''fingerprint'', ''source_schema'', ''projections'']"

definition definition_manifest_object :: "json \<Rightarrow> ingest_error + (string \<times> json) list" where
  "definition_manifest_object payload = (case payload of
     JObj ms \<Rightarrow>
      (if \<not> json_valid (JObj ms)
       then Inl (InvalidManifest ''payload'' ''must be valid JSON without duplicate members or trailing data'')
       else if \<not> list_all (\<lambda>n. map_of ms n \<noteq> None) [''name'', ''version'', ''fingerprint'', ''source_schema'']
       then Inl (InvalidManifest ''payload'' ''must contain every required member'')
       else if \<not> list_all (\<lambda>m. fst m \<in> set manifest_members) ms
       then Inl (InvalidManifest ''payload'' ''must not contain unknown members'')
       else Inr ms)
   | _ \<Rightarrow> Inl (InvalidManifest ''payload'' ''must be a JSON object''))"

definition fingerprint_format_error :: ingest_error where
  "fingerprint_format_error =
     InvalidManifest ''fingerprint'' ''must use sha256 followed by lowercase hexadecimal''"

definition parse_definition_manifest ::
  "(json \<Rightarrow> string) \<Rightarrow> json \<Rightarrow> ingest_error + definition_manifest" where
  "parse_definition_manifest digest payload =
     and_then (definition_manifest_object payload) (\<lambda>root.
     and_then (required_string (map_of root ''name'') ''name'') (\<lambda>name.
     and_then (required_string (map_of root ''version'') ''version'') (\<lambda>version.
     and_then (case required_string (map_of root ''fingerprint'') ''fingerprint'' of
                 Inl _ \<Rightarrow> Inl fingerprint_format_error
               | Inr f \<Rightarrow> if valid_fingerprint f then Inr f else Inl fingerprint_format_error) (\<lambda>provided.
     and_then (new_definition_identity name version) (\<lambda>identity.
     and_then (case map_of root ''projections'' of
                 None \<Rightarrow> Inr []
               | Some j \<Rightarrow> required_array j ''projections'') (\<lambda>values.
     and_then (case map_res parse_projection_manifest values of
                 Inl _ \<Rightarrow> Inl (InvalidManifest ''projections'' ''must contain valid projection declarations'')
               | Inr ps \<Rightarrow> Inr ps) (\<lambda>projections.
     and_then (new_definition_manifest digest identity (map_of root ''source_schema'') projections) (\<lambda>m.
     and_then (check (dm_fingerprint m = provided)
       (InvalidManifest ''fingerprint'' ''does not match the declaration'')) (\<lambda>_. Inr m)))))))))"

definition marshal_definition_manifest ::
  "(json \<Rightarrow> string) \<Rightarrow> definition_manifest \<Rightarrow> ingest_error + json" where
  "marshal_definition_manifest digest m =
     and_then (validate_definition_manifest digest m) (\<lambda>_. Inr (definition_wire m True))"

section \<open>Observations\<close>

record projection_value =
  pv_key :: projection_key
  pv_value :: "json option"

definition validate_projection_value :: "projection_value \<Rightarrow> ingest_error + unit" where
  "validate_projection_value p =
     (case validate_projection_key (pv_key p) of
        Inl _ \<Rightarrow> Inl (InvalidProjection ''key'' ''must contain a valid name and version'')
      | Inr _ \<Rightarrow>
         (case pv_value p of
            Some v \<Rightarrow> check (json_valid v) (InvalidProjection ''value'' ''must be valid JSON'')
          | None \<Rightarrow> Inl (InvalidProjection ''value'' ''must be valid JSON'')))"

definition new_source_projection_value ::
  "projection_key \<Rightarrow> json option \<Rightarrow> ingest_error + projection_value" where
  "new_source_projection_value key value =
     (let p = \<lparr>pv_key = key, pv_value = value\<rparr> in and_then (validate_projection_value p) (\<lambda>_. Inr p))"

text \<open>Decoding an object into a Go struct with unknown members rejected; \<open>null\<close> leaves the zero struct.\<close>

definition wire_fields :: "string list \<Rightarrow> json \<Rightarrow> (string \<times> json) list option" where
  "wire_fields allowed payload =
     (if \<not> json_valid payload then None
      else case payload of
        JObj ms \<Rightarrow> (if list_all (\<lambda>m. fst m \<in> set allowed) ms then Some ms else None)
      | JNull \<Rightarrow> Some []
      | _ \<Rightarrow> None)"

definition wire_string :: "json option \<Rightarrow> string option" where
  "wire_string v = (case v of
     None \<Rightarrow> Some []
   | Some JNull \<Rightarrow> Some []
   | Some (JStr s) \<Rightarrow> Some s
   | _ \<Rightarrow> None)"

definition key_wire :: "json option \<Rightarrow> (string \<times> string) option" where
  "key_wire v =
     (case v of
        None \<Rightarrow> Some ([], [])
      | Some j \<Rightarrow>
         (case wire_fields [''name'', ''version''] j of
            None \<Rightarrow> None
          | Some fs \<Rightarrow>
             (case (wire_string (map_of fs ''name''), wire_string (map_of fs ''version'')) of
                (Some n, Some w) \<Rightarrow> Some (n, w)
              | _ \<Rightarrow> None)))"

definition parse_source_projection_value :: "json \<Rightarrow> ingest_error + projection_value" where
  "parse_source_projection_value payload =
     (let bad = InvalidProjection ''json'' ''must contain only valid projection fields'' in
      case wire_fields [''key'', ''value''] payload of
        None \<Rightarrow> Inl bad
      | Some fs \<Rightarrow>
         (case key_wire (map_of fs ''key'') of
            None \<Rightarrow> Inl bad
          | Some (name, version) \<Rightarrow>
             (case new_projection_key name version of
                Inl _ \<Rightarrow> Inl (InvalidProjection ''key'' ''must contain a valid name and version'')
              | Inr key \<Rightarrow> new_source_projection_value key (map_of fs ''value''))))"

definition marshal_projection_value :: "projection_value \<Rightarrow> ingest_error + json" where
  "marshal_projection_value p =
     and_then (validate_projection_value p) (\<lambda>_.
     Inr (JObj [(''key'', projection_key_wire (pv_key p)), (''value'', schema_wire (pv_value p))]))"

record source_observation =
  so_ref :: source_ref
  so_version :: string
  so_fingerprint :: string
  so_description :: "string option"
  so_payload :: "json option"
  so_projections :: "projection_value list"

definition source_data_string :: "json option \<Rightarrow> string option" where
  "source_data_string raw = (case raw of Some (JStr s) \<Rightarrow> Some s | _ \<Rightarrow> None)"

fun expect_fields :: "(string \<times> json) list \<Rightarrow> (string \<times> string) list \<Rightarrow> ingest_error + unit" where
  "expect_fields payload [] = Inr ()"
| "expect_fields payload ((field, expected) # rest) =
     (if source_data_string (map_of payload field) = Some expected then expect_fields payload rest
      else Inl (InvalidObservation field ''payload does not match its envelope''))"

definition validate_payload :: "source_observation \<Rightarrow> ingest_error + unit" where
  "validate_payload ob = (case so_payload ob of
     Some (JObj payload) \<Rightarrow>
       and_then (check (json_valid (JObj payload))
         (InvalidObservation ''payload'' ''must be a valid JSON object'')) (\<lambda>_.
       and_then (expect_fields payload [(''name'', sr_id (so_ref ob)), (''definition_version'', so_version ob),
         (''materialization'', ''captured'')]) (\<lambda>_.
       case so_description ob of
         None \<Rightarrow> check (case map_of payload ''description'' of None \<Rightarrow> True | Some j \<Rightarrow> json_kind j = CHR ''n'')
           (InvalidObservation ''description'' ''payload does not match its envelope'')
       | Some d \<Rightarrow> check (source_data_string (map_of payload ''description'') = Some d)
           (InvalidObservation ''description'' ''payload does not match its envelope'')))
   | _ \<Rightarrow> Inl (InvalidObservation ''payload'' ''must be a JSON object''))"

fun validate_projections :: "projection_key list \<Rightarrow> projection_value list \<Rightarrow> ingest_error + unit" where
  "validate_projections seen [] = Inr ()"
| "validate_projections seen (p # ps) =
     (case validate_projection_value p of
        Inl _ \<Rightarrow> Inl (InvalidObservation ''projections'' ''must contain valid worker projections'')
      | Inr _ \<Rightarrow>
         (if pv_key p \<in> set seen then Inl (InvalidObservation ''projections'' ''keys must be unique'')
          else validate_projections (pv_key p # seen) ps))"

definition relabel :: "'e \<Rightarrow> 'f + 'a \<Rightarrow> 'e + unit" where
  "relabel e m = (case m of Inl _ \<Rightarrow> Inl e | Inr _ \<Rightarrow> Inr ())"

definition validate_observation :: "source_observation \<Rightarrow> ingest_error + unit" where
  "validate_observation ob =
     and_then (check (valid_utf8 (sr_type (so_ref ob)) \<and> valid_utf8 (sr_id (so_ref ob)))
       (InvalidObservation ''ref'' ''must contain valid UTF-8'')) (\<lambda>_.
     and_then (relabel (InvalidObservation ''ref'' ''must contain a valid Source type and identifier'')
       (new_source_ref (sr_type (so_ref ob)) (sr_id (so_ref ob)))) (\<lambda>_.
     and_then (check (valid_utf8 (so_version ob))
       (InvalidObservation ''definition_version'' ''must contain valid UTF-8'')) (\<lambda>_.
     and_then (relabel (InvalidObservation ''definition_version'' ''must be a bounded non-empty trimmed string'')
       (validate_reference_part ''definition_version'' (so_version ob) max_source_id_length)) (\<lambda>_.
     and_then (check (valid_utf8 (so_fingerprint ob))
       (InvalidObservation ''definition_fingerprint'' ''must contain valid UTF-8'')) (\<lambda>_.
     and_then (check (case so_description ob of None \<Rightarrow> True | Some d \<Rightarrow> valid_utf8 d)
       (InvalidObservation ''description'' ''must contain valid UTF-8'')) (\<lambda>_.
     and_then (validate_payload ob) (\<lambda>_.
     validate_projections [] (so_projections ob))))))))"

definition new_source_observation ::
  "source_ref \<Rightarrow> string \<Rightarrow> string \<Rightarrow> string option \<Rightarrow> json option \<Rightarrow> projection_value list
   \<Rightarrow> ingest_error + source_observation" where
  "new_source_observation ref version fingerprint description payload projections =
     (let ob = \<lparr>so_ref = ref, so_version = (if version = [] then ''1'' else version),
               so_fingerprint = fingerprint, so_description = description,
               so_payload = payload, so_projections = projections\<rparr>
      in and_then (validate_observation ob) (\<lambda>_. Inr ob))"

definition observation_projection :: "source_observation \<Rightarrow> projection_key \<Rightarrow> ingest_error + json option" where
  "observation_projection ob key =
     (case find (\<lambda>p. pv_key p = key) (so_projections ob) of
        None \<Rightarrow> Inl (InvalidProjection ''key'' ''was not supplied by the worker'')
      | Some p \<Rightarrow> Inr (pv_value p))"

definition optional_text_wire :: "string option \<Rightarrow> json" where
  "optional_text_wire d = (case d of None \<Rightarrow> JNull | Some t \<Rightarrow> JStr t)"

definition marshal_observation :: "source_observation \<Rightarrow> ingest_error + json" where
  "marshal_observation ob =
     and_then (validate_observation ob) (\<lambda>_.
     and_then (map_res marshal_projection_value (so_projections ob)) (\<lambda>projections.
     Inr (JObj [(''name'', JStr (sr_id (so_ref ob))), (''definition_version'', JStr (so_version ob)),
       (''materialization'', JStr ''captured''), (''description'', optional_text_wire (so_description ob)),
       (''source_type'', JStr (sr_type (so_ref ob))), (''definition_fingerprint'', JStr (so_fingerprint ob)),
       (''payload'', schema_wire (so_payload ob)), (''projections'', JArr projections)])))"

definition observation_members :: "string list" where
  "observation_members = [''name'', ''definition_version'', ''materialization'', ''description'',
     ''source_type'', ''definition_fingerprint'', ''payload'', ''projections'']"

definition parse_source_observation :: "json \<Rightarrow> ingest_error + source_observation" where
  "parse_source_observation payload =
     (case wire_fields observation_members payload of
        None \<Rightarrow> Inl (InvalidObservation ''json'' ''must contain only valid observation fields'')
      | Some wire \<Rightarrow>
       (case (source_data_string (map_of wire ''name''), source_data_string (map_of wire ''source_type''),
              source_data_string (map_of wire ''definition_fingerprint'')) of
          (Some name, Some source_type, Some fingerprint) \<Rightarrow>
           and_then (case new_source_ref source_type name of
               Inl _ \<Rightarrow> Inl (InvalidObservation ''ref'' ''must contain a valid Source type and identifier'')
             | Inr r \<Rightarrow> Inr r) (\<lambda>ref.
           and_then (case map_of wire ''definition_version'' of
               None \<Rightarrow> Inr ''1''
             | Some j \<Rightarrow> (case source_data_string (Some j) of
                 Some v \<Rightarrow> if v = [] then Inl (InvalidObservation ''definition_version'' ''must be a non-empty string'') else Inr v
               | None \<Rightarrow> Inl (InvalidObservation ''definition_version'' ''must be a non-empty string''))) (\<lambda>version.
           and_then (case map_of wire ''materialization'' of
               None \<Rightarrow> Inr ()
             | Some j \<Rightarrow> check (source_data_string (Some j) = Some ''captured'')
                 (InvalidObservation ''materialization'' ''must be captured'')) (\<lambda>_.
           and_then (case map_of wire ''description'' of
               None \<Rightarrow> Inr None
             | Some JNull \<Rightarrow> Inr None
             | Some j \<Rightarrow> (case source_data_string (Some j) of
                 Some d \<Rightarrow> Inr (Some d)
               | None \<Rightarrow> Inl (InvalidObservation ''description'' ''must be a string or null''))) (\<lambda>description.
           and_then (case map_of wire ''projections'' of
               None \<Rightarrow> Inr []
             | Some (JArr entries) \<Rightarrow>
                (case map_res parse_source_projection_value entries of
                   Inl _ \<Rightarrow> Inl (InvalidObservation ''projections'' ''must contain valid worker projections'')
                 | Inr ps \<Rightarrow> Inr ps)
             | Some _ \<Rightarrow> Inl (InvalidObservation ''projections'' ''must be an array'')) (\<lambda>projections.
           new_source_observation ref version fingerprint description (map_of wire ''payload'') projections)))))
        | _ \<Rightarrow> Inl (InvalidObservation ''identity'' ''name, source_type, and definition_fingerprint must be strings'')))"

section \<open>Text evidence\<close>

record text_evidence =
  te_ref :: source_ref
  te_content :: string
  te_metadata :: json

definition text_evidence_key :: projection_key where
  "text_evidence_key = \<lparr>pk_name = ''powercontext.text-evidence'', pk_version = ''1''\<rparr>"

definition string_property :: "string \<Rightarrow> json" where
  "string_property title = JObj [(''title'', JStr title), (''type'', JStr ''string'')]"

definition text_evidence_schema :: json where
  "text_evidence_schema = JObj [
     (''$defs'', JObj [(''JsonValue'', JObj [])]),
     (''description'', JStr ''Canonical JSON shape consumed as textual Artifact evidence.''),
     (''properties'', JObj [
        (''content'', string_property ''Content''),
        (''metadata'', JObj [(''additionalProperties'', JObj [(''$ref'', JStr ''#/$defs/JsonValue'')]),
           (''title'', JStr ''Metadata''), (''type'', JStr ''object'')]),
        (''source_id'', string_property ''Source Id''),
        (''source_type'', string_property ''Source Type'')]),
     (''required'', JArr [JStr ''source_type'', JStr ''source_id'', JStr ''content'']),
     (''title'', JStr ''TextEvidence''),
     (''type'', JStr ''object'')]"

text \<open>The code compares RFC 8785 canonical bytes. The standard schema holds no number, so the canonical
  forms agree exactly when the values agree up to member order.\<close>

definition validate_text_evidence_schema :: "json option \<Rightarrow> ingest_error + unit" where
  "validate_text_evidence_schema schema = (case schema of
     Some (JObj ms) \<Rightarrow>
      (if \<not> json_valid (JObj ms)
       then Inl (InvalidTextEvidence ''schema'' ''must be the standard JSON object schema'')
       else check (equal_json_values (JObj ms) text_evidence_schema = Inr True)
         (InvalidTextEvidence ''schema'' ''must be the standard schema''))
   | _ \<Rightarrow> Inl (InvalidTextEvidence ''schema'' ''must be the standard JSON object schema''))"

definition validate_text_evidence :: "json option \<Rightarrow> source_ref \<Rightarrow> ingest_error + unit" where
  "validate_text_evidence value ref =
     and_then (relabel (InvalidTextEvidence ''source'' ''must have a valid observation identity'')
       (new_source_ref (sr_type ref) (sr_id ref))) (\<lambda>_.
     case value of
       Some (JObj members) \<Rightarrow>
         and_then (check (json_valid (JObj members)) (InvalidTextEvidence ''value'' ''must be a JSON object'')) (\<lambda>_.
         and_then (check (source_data_string (map_of members ''source_type'') = Some (sr_type ref))
           (InvalidTextEvidence ''source_type'' ''must match the observation'')) (\<lambda>_.
         and_then (check (source_data_string (map_of members ''source_id'') = Some (sr_id ref))
           (InvalidTextEvidence ''source_id'' ''must match the observation'')) (\<lambda>_.
         and_then (check (source_data_string (map_of members ''content'') \<noteq> None)
           (InvalidTextEvidence ''content'' ''must be a string'')) (\<lambda>_.
         check (case map_of members ''metadata'' of None \<Rightarrow> True | Some j \<Rightarrow> json_kind j = CHR ''{'')
           (InvalidTextEvidence ''metadata'' ''must be a JSON object'')))))
     | _ \<Rightarrow> Inl (InvalidTextEvidence ''value'' ''must be a JSON object''))"

definition parse_text_evidence :: "json option \<Rightarrow> source_ref \<Rightarrow> ingest_error + text_evidence" where
  "parse_text_evidence value ref =
     and_then (validate_text_evidence value ref) (\<lambda>_.
     case value of
       Some (JObj members) \<Rightarrow>
         Inr \<lparr>te_ref = ref,
              te_content = (case source_data_string (map_of members ''content'') of None \<Rightarrow> [] | Some c \<Rightarrow> c),
              te_metadata = (case map_of members ''metadata'' of None \<Rightarrow> JObj [] | Some j \<Rightarrow> j)\<rparr>
     | _ \<Rightarrow> Inl (InvalidTextEvidence ''value'' ''must be valid JSON''))"

section \<open>Admission\<close>

definition dialect_ok :: "(string \<times> json) list \<Rightarrow> bool" where
  "dialect_ok ms = (case map_of ms ''$schema'' of
     None \<Rightarrow> True
   | Some (JStr name) \<Rightarrow> name = ''https://json-schema.org/draft/2020-12/schema''
       \<or> name = ''http://json-schema.org/draft/2020-12/schema''
   | Some _ \<Rightarrow> False)"

definition has_resource_id :: "json \<Rightarrow> bool" where
  "has_resource_id v = (case v of
     JObj ms \<Rightarrow> (case map_of ms ''$id'' of Some (JStr i) \<Rightarrow> i \<noteq> [] | _ \<Rightarrow> False)
   | _ \<Rightarrow> False)"

definition single_schema_keywords :: "string list" where
  "single_schema_keywords = [''not'', ''additionalProperties'', ''additionalItems'', ''propertyNames'',
     ''contains'', ''if'', ''then'', ''else'', ''unevaluatedProperties'', ''unevaluatedItems'', ''contentSchema'']"

definition map_schema_keywords :: "string list" where
  "map_schema_keywords = [''definitions'', ''properties'', ''patternProperties'', ''dependencies'', ''$defs'',
     ''dependentSchemas'']"

definition array_schema_keywords :: "string list" where
  "array_schema_keywords = [''allOf'', ''anyOf'', ''oneOf'', ''prefixItems'']"

fun require_draft :: "bool \<Rightarrow> json \<Rightarrow> bool" and draft_members :: "(string \<times> json) list \<Rightarrow> bool"
  and draft_entries :: "(string \<times> json) list \<Rightarrow> bool" and draft_items :: "json list \<Rightarrow> bool" where
  "require_draft is_root (JObj ms) = ((is_root \<longrightarrow> dialect_ok ms) \<and> draft_members ms)"
| "require_draft is_root (JArr xs) = True"
| "require_draft is_root JNull = True"
| "require_draft is_root (JBool b) = True"
| "require_draft is_root (JNum n) = True"
| "require_draft is_root (JStr s) = True"
| "draft_members [] = True"
| "draft_members (m # ms) =
     ((if fst m \<in> set single_schema_keywords \<or> fst m = ''items''
       then require_draft (has_resource_id (snd m)) (snd m) else True)
      \<and> (if fst m \<in> set map_schema_keywords
         then (case snd m of JObj es \<Rightarrow> draft_entries es | _ \<Rightarrow> True) else True)
      \<and> (if fst m \<in> set array_schema_keywords \<or> fst m = ''items''
         then (case snd m of JArr xs \<Rightarrow> draft_items xs | _ \<Rightarrow> True) else True)
      \<and> draft_members ms)"
| "draft_entries [] = True"
| "draft_entries (e # es) = (require_draft (has_resource_id (snd e)) (snd e) \<and> draft_entries es)"
| "draft_items [] = True"
| "draft_items (x # xs) = (require_draft (has_resource_id x) x \<and> draft_items xs)"

type_synonym schema_check = "json \<Rightarrow> (json \<Rightarrow> bool) option"

definition compile_admission_schema :: "schema_check \<Rightarrow> json option \<Rightarrow> (json \<Rightarrow> bool) option" where
  "compile_admission_schema schema_check schema = (case schema of
     None \<Rightarrow> None
   | Some s \<Rightarrow> if decodes_to_any s \<and> require_draft True s then schema_check s else None)"

fun compile_projections ::
  "schema_check \<Rightarrow> projection_manifest list \<Rightarrow> ingest_error + (projection_key \<times> (json \<Rightarrow> bool)) list" where
  "compile_projections schema_check [] = Inr []"
| "compile_projections schema_check (p # ps) =
     and_then (if pm_key p = text_evidence_key
               then relabel (InvalidManifest ''projection'' ''must use the standard text-evidence schema'')
                 (validate_text_evidence_schema (pm_schema p))
               else Inr ()) (\<lambda>_.
     case compile_admission_schema schema_check (pm_schema p) of
       None \<Rightarrow> Inl (InvalidManifest ''projection'' ''must use valid JSON Schema Draft 2020-12'')
     | Some f \<Rightarrow> and_then (compile_projections schema_check ps) (\<lambda>rest. Inr ((pm_key p, f) # rest)))"

definition compile_admission_manifest ::
  "(json \<Rightarrow> string) \<Rightarrow> schema_check \<Rightarrow> definition_manifest
   \<Rightarrow> ingest_error + (json \<Rightarrow> bool) \<times> (projection_key \<times> (json \<Rightarrow> bool)) list" where
  "compile_admission_manifest digest schema_check m =
     and_then (validate_definition_manifest digest m) (\<lambda>_.
     case compile_admission_schema schema_check (dm_source_schema m) of
       None \<Rightarrow> Inl (InvalidManifest ''schema'' ''must use valid JSON Schema Draft 2020-12'')
     | Some f \<Rightarrow> and_then (compile_projections schema_check (dm_projections m)) (\<lambda>ps. Inr (f, ps)))"

definition admits :: "(json \<Rightarrow> bool) \<Rightarrow> json option \<Rightarrow> bool" where
  "admits f v \<longleftrightarrow> (case v of None \<Rightarrow> False | Some j \<Rightarrow> f j)"

fun admit_projections ::
  "source_ref \<Rightarrow> (projection_key \<times> (json \<Rightarrow> bool)) list \<Rightarrow> projection_value list \<Rightarrow> ingest_error + unit" where
  "admit_projections ref compiled [] = Inr ()"
| "admit_projections ref compiled (p # ps) =
     (case map_of compiled (pv_key p) of
        None \<Rightarrow> Inl (InvalidObservation ''projections'' ''must exactly match the registered manifest'')
      | Some f \<Rightarrow>
        and_then (check (admits f (pv_value p))
          (InvalidObservation ''projection'' ''does not match the registered schema'')) (\<lambda>_.
        and_then (if pv_key p = text_evidence_key
                  then relabel (InvalidObservation ''text-evidence'' ''does not match the observation envelope'')
                    (validate_text_evidence (pv_value p) ref)
                  else Inr ()) (\<lambda>_.
        admit_projections ref compiled ps)))"

definition admit_observation ::
  "(json \<Rightarrow> string) \<Rightarrow> schema_check \<Rightarrow> definition_manifest \<Rightarrow> source_observation
   \<Rightarrow> ingest_error + source_observation" where
  "admit_observation digest schema_check m ob =
     and_then (compile_admission_manifest digest schema_check m) (\<lambda>(source_schema, compiled).
     and_then (validate_observation ob) (\<lambda>_.
     and_then (check (sr_type (so_ref ob) = di_name (dm_identity m) \<and> so_version ob = di_version (dm_identity m))
       (InvalidObservation ''definition'' ''does not match the registered manifest identity'')) (\<lambda>_.
     and_then (check (so_fingerprint ob = dm_fingerprint m)
       (InvalidObservation ''fingerprint'' ''does not match the registered manifest'')) (\<lambda>_.
     and_then (check (admits source_schema (so_payload ob))
       (InvalidObservation ''schema'' ''does not match the registered Source schema'')) (\<lambda>_.
     and_then (check (length compiled = length (so_projections ob))
       (InvalidObservation ''projections'' ''must exactly match the registered manifest'')) (\<lambda>_.
     and_then (admit_projections (so_ref ob) compiled (so_projections ob)) (\<lambda>_. Inr ob)))))))"

section \<open>The evidence gate\<close>

datatype product_value =
    ContentValue source_value
  | SnapshotValue source_value
  | NativeValue source_value
  | RawValue source_observation
  | AcceptedValue source_observation

definition accepted_text_evidence :: "source_observation \<Rightarrow> ingest_error + text_evidence" where
  "accepted_text_evidence ob =
     (case observation_projection ob text_evidence_key of
        Inl _ \<Rightarrow> Inl (InvalidTextEvidence ''projection'' ''must be supplied by an accepted observation'')
      | Inr v \<Rightarrow> parse_text_evidence v (so_ref ob))"

definition require_evidence :: "product_value \<Rightarrow> ingest_error + unit" where
  "require_evidence value = (case value of
     ContentValue _ \<Rightarrow> Inr ()
   | SnapshotValue _ \<Rightarrow> Inr ()
   | AcceptedValue ob \<Rightarrow>
       and_then (validate_observation ob) (\<lambda>_.
       and_then (accepted_text_evidence ob) (\<lambda>_. Inr ()))
   | _ \<Rightarrow> Inl UnacceptedObservation)"

section \<open>Validity\<close>

lemma relabel_eq_Inr [simp]: "relabel e m = Inr u \<longleftrightarrow> (\<exists>x. m = Inr x)"
  by (cases m) (simp_all add: relabel_def)

lemma validate_manifest_identity_iff:
  "validate_manifest_identity f s n = Inr u \<longleftrightarrow> valid_utf8 s \<and> valid_part n s"
  by (auto simp: validate_manifest_identity_def valid_part_trim Let_def)

definition valid_key :: "projection_key \<Rightarrow> bool" where
  "valid_key k \<longleftrightarrow> valid_utf8 (pk_name k) \<and> valid_part 256 (pk_name k)
     \<and> valid_utf8 (pk_version k) \<and> valid_part 256 (pk_version k)"

lemma validate_projection_key_iff: "validate_projection_key k = Inr u \<longleftrightarrow> valid_key k"
  by (auto simp: validate_projection_key_def res_simps validate_manifest_identity_iff valid_key_def
      max_source_id_length_def)

lemma new_projection_key_iff:
  "new_projection_key n v = Inr k \<longleftrightarrow> k = \<lparr>pk_name = n, pk_version = v\<rparr> \<and> valid_key k"
  by (auto simp: new_projection_key_def res_simps validate_projection_key_iff Let_def)

lemma validate_projection_value_iff:
  "validate_projection_value p = Inr u \<longleftrightarrow> valid_key (pv_key p) \<and> (\<exists>v. pv_value p = Some v \<and> json_valid v)"
  using validate_projection_key_iff [of "pv_key p" "()"]
  by (auto simp: validate_projection_value_def res_simps split: sum.splits option.splits)

lemma case_sum_Inr:
  "(case m of Inl x \<Rightarrow> Inl e | Inr y \<Rightarrow> f y) = Inr z \<longleftrightarrow> (\<exists>y. m = Inr y \<and> f y = Inr z)"
  by (cases m) auto

lemma validate_projections_iff:
  "validate_projections seen ps = Inr u \<longleftrightarrow>
     (\<forall>p \<in> set ps. validate_projection_value p = Inr ()) \<and> distinct (map pv_key ps)
     \<and> set (map pv_key ps) \<inter> set seen = {}"
  by (induction seen ps rule: validate_projections.induct) (auto simp: case_sum_Inr split: if_splits)

lemma expect_fields_iff:
  "expect_fields payload fs = Inr u \<longleftrightarrow>
     (\<forall>(k, v) \<in> set fs. source_data_string (map_of payload k) = Some v)"
  by (induction payload fs rule: expect_fields.induct) (auto split: if_splits)

text \<open>What a valid observation is made of, apart from the contents of its payload.\<close>

definition wf_observation :: "source_observation \<Rightarrow> bool" where
  "wf_observation ob \<longleftrightarrow> validate_observation ob = Inr ()"

lemma validate_payload_json:
  "validate_payload ob = Inr u \<Longrightarrow> \<exists>ms. so_payload ob = Some (JObj ms) \<and> json_valid (JObj ms)"
  by (auto simp: validate_payload_def res_simps split: option.splits json.splits)

lemma wf_observationD:
  assumes "wf_observation ob"
  shows "valid_utf8 (sr_type (so_ref ob))" "valid_utf8 (sr_id (so_ref ob))" "wf_source_ref (so_ref ob)"
    "valid_utf8 (so_version ob)" "so_version ob \<noteq> []" "valid_utf8 (so_fingerprint ob)"
    "so_description ob = Some d \<Longrightarrow> valid_utf8 d"
    "\<exists>ms. so_payload ob = Some (JObj ms) \<and> json_valid (JObj ms)"
    "\<forall>p \<in> set (so_projections ob). validate_projection_value p = Inr ()"
    "distinct (map pv_key (so_projections ob))"
  using assms
  by (auto simp: wf_observation_def validate_observation_def res_simps new_source_ref_iff
      validate_reference_part_iff valid_part_def validate_projections_iff wf_source_ref_def
      dest: validate_payload_json split: option.splits)

section \<open>Round trips\<close>

lemma wire_fields_obj:
  "json_valid (JObj ms) \<Longrightarrow> list_all (\<lambda>m. fst m \<in> set allowed) ms \<Longrightarrow> wire_fields allowed (JObj ms) = Some ms"
  by (simp add: wire_fields_def)

lemma projection_key_wire_valid: "valid_key k \<Longrightarrow> json_valid (projection_key_wire k)"
  by (simp add: projection_key_wire_def valid_key_def valid_utf8_ascii)

lemma key_wire_round_trip:
  "valid_key k \<Longrightarrow> key_wire (Some (projection_key_wire k)) = Some (pk_name k, pk_version k)"
  using projection_key_wire_valid [of k]
  by (simp add: key_wire_def projection_key_wire_def wire_fields_def wire_string_def)

lemma marshal_projection_value_round_trip:
  assumes "validate_projection_value p = Inr ()"
  shows "\<exists>j. marshal_projection_value p = Inr j \<and> json_valid j \<and> parse_source_projection_value j = Inr p"
proof -
  obtain v where v: "pv_value p = Some v" "json_valid v" and k: "valid_key (pv_key p)"
    using assms by (auto simp: validate_projection_value_iff)
  let ?j = "JObj [(''key'', projection_key_wire (pv_key p)), (''value'', v)]"
  have valid: "json_valid ?j" using v k projection_key_wire_valid by (simp add: valid_utf8_ascii)
  have "new_projection_key (pk_name (pv_key p)) (pk_version (pv_key p)) = Inr (pv_key p)"
    using k by (simp add: new_projection_key_iff)
  moreover have "new_source_projection_value (pv_key p) (Some v) = Inr p"
    using v assms by (cases p) (simp add: new_source_projection_value_def res_simps)
  ultimately have "parse_source_projection_value ?j = Inr p"
    using valid key_wire_round_trip [OF k] by (simp add: parse_source_projection_value_def wire_fields_obj Let_def)
  then show ?thesis using assms v valid by (auto simp: marshal_projection_value_def schema_wire_def)
qed

lemma marshal_projections_round_trip:
  assumes "\<forall>p \<in> set ps. validate_projection_value p = Inr ()"
  shows "\<exists>js. map_res marshal_projection_value ps = Inr js \<and> json_all_valid js
    \<and> map_res parse_source_projection_value js = Inr ps"
  using assms
proof (induction ps)
  case Nil
  then show ?case by simp
next
  case (Cons p ps)
  obtain j where "marshal_projection_value p = Inr j" "json_valid j" "parse_source_projection_value j = Inr p"
    using marshal_projection_value_round_trip Cons.prems by (metis list.set_intros(1))
  moreover obtain js where "map_res marshal_projection_value ps = Inr js" "json_all_valid js"
      "map_res parse_source_projection_value js = Inr ps"
    using Cons by auto
  ultimately show ?case by (intro exI [of _ "j # js"]) (simp add: res_simps)
qed

lemma observation_encodes:
  assumes "validate_observation ob = Inr ()"
  shows "\<exists>j. marshal_observation ob = Inr j \<and> json_valid j \<and> parse_source_observation j = Inr ob"
proof -
  have wf: "wf_observation ob" using assms by (simp add: wf_observation_def)
  note d = wf_observationD [OF wf]
  obtain js where js: "map_res marshal_projection_value (so_projections ob) = Inr js" "json_all_valid js"
      "map_res parse_source_projection_value js = Inr (so_projections ob)"
    using marshal_projections_round_trip [OF d(9)] by blast
  obtain ms where ms: "so_payload ob = Some (JObj ms)" "json_valid (JObj ms)" using d(8) by blast
  let ?ms = "[(''name'', JStr (sr_id (so_ref ob))), (''definition_version'', JStr (so_version ob)),
       (''materialization'', JStr ''captured''), (''description'', optional_text_wire (so_description ob)),
       (''source_type'', JStr (sr_type (so_ref ob))), (''definition_fingerprint'', JStr (so_fingerprint ob)),
       (''payload'', JObj ms), (''projections'', JArr js)]"
  have m: "marshal_observation ob = Inr (JObj ?ms)"
    using assms js(1) ms(1) by (simp add: marshal_observation_def schema_wire_def)
  have "json_valid (optional_text_wire (so_description ob))"
    using d(7) by (cases "so_description ob") (simp_all add: optional_text_wire_def)
  then have v: "json_valid (JObj ?ms)" using d js(2) ms(2) by (simp add: valid_utf8_ascii)
  then have w: "wire_fields observation_members (JObj ?ms) = Some ?ms"
    by (intro wire_fields_obj) (simp_all add: observation_members_def)
  have r: "new_source_ref (sr_type (so_ref ob)) (sr_id (so_ref ob)) = Inr (so_ref ob)"
    using d(3) by (simp add: new_source_ref_iff)
  have n: "new_source_observation (so_ref ob) (so_version ob) (so_fingerprint ob) (so_description ob)
      (Some (JObj ms)) (so_projections ob) = Inr ob"
    using assms d(5) ms(1) by (cases ob) (simp add: new_source_observation_def res_simps)
  have "parse_source_observation (JObj ?ms) = Inr ob"
    using d(5) r n js(3) unfolding parse_source_observation_def w
    by (cases "so_description ob") (simp_all add: source_data_string_def optional_text_wire_def)
  with m v show ?thesis by blast
qed

lemma observation_parse_marshal:
  "validate_observation ob = Inr () \<Longrightarrow> marshal_observation ob = Inr j \<Longrightarrow>
     parse_source_observation j = Inr ob \<and> json_valid j"
  using observation_encodes [of ob] by auto

text \<open>C10: the transported form of a worker observation loses nothing: a valid observation encodes, and
  parsing the encoding gives back exactly the same observation, projections in declaration order
  included.\<close>

theorem observation_round_trip:
  assumes "validate_observation ob = Inr ()"
  shows "\<exists>j. marshal_observation ob = Inr j \<and> parse_source_observation j = Inr ob"
  using observation_encodes [OF assms] by blast

subsection \<open>Manifests\<close>

lemma immutable_schema_iff:
  "immutable_schema f v = Inr j \<longleftrightarrow> v = Some j \<and> json_valid j \<and> validate_json_numbers j
     \<and> json_kind j = CHR ''{'' \<and> decodes_to_any j \<and> \<not> has_remote_schema_reference j"
  by (auto simp: immutable_schema_def split: option.splits if_splits)

definition wf_projection_manifest :: "projection_manifest \<Rightarrow> bool" where
  "wf_projection_manifest p \<longleftrightarrow> valid_key (pm_key p) \<and> (\<exists>j. immutable_schema ''schema'' (pm_schema p) = Inr j)"

lemma validate_projection_manifest_iff: "validate_projection_manifest p = Inr u \<longleftrightarrow> wf_projection_manifest p"
  using validate_projection_key_iff [of "pm_key p" "()"]
  by (auto simp: validate_projection_manifest_def wf_projection_manifest_def res_simps split: sum.splits)

lemma projections_unique_iff:
  "projections_unique seen ps = Inr u \<longleftrightarrow> (\<forall>p \<in> set ps. wf_projection_manifest p)
     \<and> distinct (map pm_key ps) \<and> set (map pm_key ps) \<inter> set seen = {}"
  by (induction seen ps rule: projections_unique.induct)
    (auto simp: case_sum_Inr validate_projection_manifest_iff split: if_splits)

definition projection_manifest_wire :: "projection_manifest \<Rightarrow> json" where
  "projection_manifest_wire p =
     JObj [(''key'', projection_key_wire (pm_key p)), (''schema'', schema_wire (pm_schema p))]"

lemma projection_manifest_round_trip:
  assumes "wf_projection_manifest p"
  shows "json_valid (projection_manifest_wire p)"
    "parse_projection_manifest (projection_manifest_wire p) = Inr p"
proof -
  obtain j where k: "valid_key (pm_key p)" and j: "immutable_schema ''schema'' (pm_schema p) = Inr j"
    using assms by (auto simp: wf_projection_manifest_def)
  have s: "pm_schema p = Some j" "json_valid j" using j by (simp_all add: immutable_schema_iff)
  show v: "json_valid (projection_manifest_wire p)"
    using projection_key_wire_valid [OF k] s by (simp add: projection_manifest_wire_def schema_wire_def valid_utf8_ascii)
  have "exact_object (Some (projection_key_wire (pm_key p))) ''key'' [''name'', ''version'']
      = Inr [(''name'', JStr (pk_name (pm_key p))), (''version'', JStr (pk_version (pm_key p)))]"
    using projection_key_wire_valid [OF k] by (simp add: exact_object_def projection_key_wire_def)
  moreover have "new_projection_key (pk_name (pm_key p)) (pk_version (pm_key p)) = Inr (pm_key p)"
    using k by (simp add: new_projection_key_iff)
  moreover have "new_projection_manifest (pm_key p) (Some j) = Inr p"
    using j s k validate_projection_key_iff [of "pm_key p" "()"]
    by (cases p) (auto simp: new_projection_manifest_def res_simps split: sum.splits)
  moreover have "exact_object (Some (projection_manifest_wire p)) ''projection'' [''key'', ''schema'']
      = Inr [(''key'', projection_key_wire (pm_key p)), (''schema'', j)]"
    using v s by (simp add: exact_object_def projection_manifest_wire_def schema_wire_def)
  ultimately show "parse_projection_manifest (projection_manifest_wire p) = Inr p"
    by (simp add: parse_projection_manifest_def required_string_def)
qed

lemma projection_manifests_round_trip:
  assumes "\<forall>p \<in> set ps. wf_projection_manifest p"
  shows "json_all_valid (map projection_manifest_wire ps)"
    "map_res parse_projection_manifest (map projection_manifest_wire ps) = Inr ps"
  using assms projection_manifest_round_trip by (induction ps) simp_all

lemma validate_identity_iff:
  "validate_identity i = Inr u \<longleftrightarrow> valid_utf8 (di_name i) \<and> valid_part 128 (di_name i)
     \<and> valid_utf8 (di_version i) \<and> valid_part 128 (di_version i)"
  by (auto simp: validate_identity_def res_simps validate_manifest_identity_iff max_source_type_length_def)

lemma valid_fingerprint_text: "valid_fingerprint f \<Longrightarrow> f \<noteq> [] \<and> valid_utf8 f"
proof -
  assume h: "valid_fingerprint f"
  then have "list_all (\<lambda>c. byte_of c < 128) (''sha256:'' @ drop 7 f)"
    by (auto simp: valid_fingerprint_def list_all_iff is_digit_def)
  moreover have "f = ''sha256:'' @ drop 7 f" using h by (auto simp: valid_fingerprint_def prefix_def)
  ultimately have "valid_utf8 f" using valid_utf8_ascii by metis
  moreover have "f \<noteq> []" using h by (auto simp: valid_fingerprint_def)
  ultimately show ?thesis by simp
qed

lemma definition_fingerprint_indep:
  "definition_fingerprint digest (m\<lparr>dm_fingerprint := f\<rparr>) = definition_fingerprint digest m"
  by (simp add: definition_fingerprint_def definition_wire_def)

lemma manifest_encodes:
  assumes "validate_definition_manifest digest m = Inr ()"
  shows "\<exists>j. marshal_definition_manifest digest m = Inr j \<and> parse_definition_manifest digest j = Inr m"
proof -
  have id: "validate_identity (dm_identity m) = Inr ()" and fp: "valid_fingerprint (dm_fingerprint m)"
    and len: "length (dm_projections m) \<le> 16" and ps: "projections_unique [] (dm_projections m) = Inr ()"
    and fpe: "definition_fingerprint digest m = Inr (dm_fingerprint m)"
    and "\<exists>s. immutable_schema ''source_schema'' (dm_source_schema m) = Inr s"
    using assms by (auto simp: validate_definition_manifest_def res_simps case_sum_Inr)
  then obtain s where s: "immutable_schema ''source_schema'' (dm_source_schema m) = Inr s" by blast
  then have ss: "dm_source_schema m = Some s" "json_valid s" by (simp_all add: immutable_schema_iff)
  note pr = projection_manifests_round_trip [OF projections_unique_iff [THEN iffD1, OF ps, THEN conjunct1]]
  let ?ms = "[(''name'', JStr (di_name (dm_identity m))), (''version'', JStr (di_version (dm_identity m))),
     (''fingerprint'', JStr (dm_fingerprint m)), (''source_schema'', s),
     (''projections'', JArr (map projection_manifest_wire (dm_projections m)))]"
  have w: "definition_wire m True = JObj ?ms"
    using valid_fingerprint_text [OF fp] ss
    by (simp add: definition_wire_def schema_wire_def projection_manifest_wire_def [abs_def])
  have "json_valid (JObj ?ms)"
    using id valid_fingerprint_text [OF fp] ss pr(1) by (simp add: validate_identity_iff valid_utf8_ascii)
  then have o: "definition_manifest_object (JObj ?ms) = Inr ?ms"
    by (simp add: definition_manifest_object_def manifest_members_def)
  have i: "new_definition_identity (di_name (dm_identity m)) (di_version (dm_identity m)) = Inr (dm_identity m)"
    using id by (cases "dm_identity m") (simp add: new_definition_identity_def Let_def)
  have n: "new_definition_manifest digest (dm_identity m) (Some s) (dm_projections m) = Inr m"
    using id len ps s ss fpe definition_fingerprint_indep [of digest "[]" m]
    by (cases m) (simp add: new_definition_manifest_def)
  have "parse_definition_manifest digest (JObj ?ms) = Inr m"
    unfolding parse_definition_manifest_def o
    using i n pr(2) fp by (simp add: required_string_def required_array_def)
  then show ?thesis using w assms by (simp add: marshal_definition_manifest_def)
qed

text \<open>A valid Definition manifest survives transport: its JSON form parses back to the same manifest,
  and the parser recomputes the fingerprint, so the parsed manifest is again valid.\<close>

theorem manifest_round_trip:
  assumes "validate_definition_manifest digest m = Inr ()"
  shows "\<exists>j. marshal_definition_manifest digest m = Inr j \<and> parse_definition_manifest digest j = Inr m"
  by (rule manifest_encodes [OF assms])

section \<open>What admission establishes\<close>

lemma compile_projections_keys:
  "compile_projections sc ps = Inr cs \<Longrightarrow> map fst cs = map pm_key ps"
  by (induction sc ps arbitrary: cs rule: compile_projections.induct)
    (auto simp: res_simps split: option.splits if_splits)

lemma admit_projectionsD:
  "admit_projections ref cs ps = Inr u \<Longrightarrow> p \<in> set ps \<Longrightarrow>
     pv_key p \<in> set (map fst cs) \<and> (pv_key p = text_evidence_key \<longrightarrow> validate_text_evidence (pv_value p) ref = Inr ())"
  by (induction ref cs ps rule: admit_projections.induct)
    (auto simp: res_simps map_of_eq_None_iff split: option.splits if_splits dest: map_of_SomeD intro: rev_image_eqI)

lemma admit_observationD:
  assumes "admit_observation digest sc m ob = Inr ob'"
  shows "ob' = ob" "wf_observation ob" "validate_definition_manifest digest m = Inr ()"
    "sr_type (so_ref ob) = di_name (dm_identity m)" "so_version ob = di_version (dm_identity m)"
    "so_fingerprint ob = dm_fingerprint m" "length (so_projections ob) = length (dm_projections m)"
    "\<And>p. p \<in> set (so_projections ob) \<Longrightarrow> pv_key p \<in> pm_key ` set (dm_projections m)"
    "\<And>p. p \<in> set (so_projections ob) \<Longrightarrow> pv_key p = text_evidence_key \<Longrightarrow>
       validate_text_evidence (pv_value p) (so_ref ob) = Inr ()"
proof -
  obtain f cs where c: "compile_admission_manifest digest sc m = Inr (f, cs)"
    and r: "validate_observation ob = Inr ()" "sr_type (so_ref ob) = di_name (dm_identity m)"
      "so_version ob = di_version (dm_identity m)" "so_fingerprint ob = dm_fingerprint m"
      "length cs = length (so_projections ob)" "admit_projections (so_ref ob) cs (so_projections ob) = Inr ()" "ob' = ob"
    using assms by (auto simp: admit_observation_def res_simps)
  have v: "validate_definition_manifest digest m = Inr ()" and
    cp: "compile_projections sc (dm_projections m) = Inr cs"
    using c by (auto simp: compile_admission_manifest_def res_simps split: option.splits)
  note k = compile_projections_keys [OF cp]
  show "ob' = ob" "wf_observation ob" "validate_definition_manifest digest m = Inr ()"
    "sr_type (so_ref ob) = di_name (dm_identity m)" "so_version ob = di_version (dm_identity m)"
    "so_fingerprint ob = dm_fingerprint m"
    using r v by (simp_all add: wf_observation_def)
  show "length (so_projections ob) = length (dm_projections m)"
    using r(5) arg_cong [OF k, of length] by simp
  show "pv_key p \<in> pm_key ` set (dm_projections m)" if "p \<in> set (so_projections ob)" for p
    using admit_projectionsD [OF r(6) that] k by (metis list.set_map)
  show "validate_text_evidence (pv_value p) (so_ref ob) = Inr ()"
    if "p \<in> set (so_projections ob)" "pv_key p = text_evidence_key" for p
    using admit_projectionsD [OF r(6) that(1)] that(2) by simp
qed

lemma admission_keys:
  assumes "admit_observation digest schema_check m ob = Inr admitted"
  shows "pv_key ` set (so_projections ob) = pm_key ` set (dm_projections m)"
proof -
  note a = admit_observationD [OF assms]
  have d: "distinct (map pv_key (so_projections ob))" using wf_observationD(10) [OF a(2)] .
  have "projections_unique [] (dm_projections m) = Inr ()"
    using a(3) by (auto simp: validate_definition_manifest_def res_simps case_sum_Inr)
  then have "distinct (map pm_key (dm_projections m))" by (simp add: projections_unique_iff)
  then have "card (pv_key ` set (so_projections ob)) = card (pm_key ` set (dm_projections m))"
    using d a(7) distinct_card [of "map pv_key (so_projections ob)"] distinct_card [of "map pm_key (dm_projections m)"]
    by simp
  then show ?thesis using a(8) by (intro card_subset_eq) auto
qed

text \<open>C11: admission is exact: an observation is admitted only with the identity and the fingerprint of the
  registered Definition, and its projections are exactly the declared ones, each once.\<close>

theorem admission_exact:
  assumes "admit_observation digest schema_check m ob = Inr admitted"
  shows "admitted = ob \<and> sr_type (so_ref ob) = di_name (dm_identity m)
    \<and> so_version ob = di_version (dm_identity m) \<and> so_fingerprint ob = dm_fingerprint m
    \<and> distinct (map pv_key (so_projections ob))
    \<and> pv_key ` set (so_projections ob) = pm_key ` set (dm_projections m)"
  using admit_observationD [OF assms] admission_keys [OF assms] wf_observationD(10) by simp

lemma find_unique_key:
  assumes "distinct (map pv_key ps)" "p \<in> set ps"
  shows "find (\<lambda>q. pv_key q = pv_key p) ps = Some p"
  using assms by (induction ps) (auto simp: rev_image_eqI)

lemma validate_text_evidence_object:
  "validate_text_evidence v r = Inr u \<Longrightarrow> \<exists>ms. v = Some (JObj ms)"
  by (auto simp: validate_text_evidence_def res_simps split: option.splits json.splits)

lemma parse_text_evidence_ok:
  assumes "validate_text_evidence v r = Inr ()"
  shows "\<exists>e. parse_text_evidence v r = Inr e \<and> te_ref e = r"
  using assms validate_text_evidence_object [OF assms] by (auto simp: parse_text_evidence_def)

text \<open>The evidence gate admits an admitted observation exactly when its Definition declares the standard
  text-evidence projection; then the evidence it exposes belongs to the observation's own Source
  reference.\<close>

theorem admitted_evidence_gate:
  assumes "admit_observation digest schema_check m ob = Inr admitted"
  shows "(require_evidence (AcceptedValue admitted) = Inr () \<longleftrightarrow> text_evidence_key \<in> pm_key ` set (dm_projections m))
    \<and> (require_evidence (AcceptedValue admitted) = Inr () \<longrightarrow>
      (\<exists>e. accepted_text_evidence admitted = Inr e \<and> te_ref e = so_ref admitted))"
proof -
  note a = admit_observationD [OF assms]
  have keys: "pv_key ` set (so_projections ob) = pm_key ` set (dm_projections m)"
    using admission_keys [OF assms] .
  have ok: "\<exists>e. accepted_text_evidence ob = Inr e \<and> te_ref e = so_ref ob"
    if "text_evidence_key \<in> pm_key ` set (dm_projections m)"
  proof -
    from that [folded keys] obtain p where p: "p \<in> set (so_projections ob)" "pv_key p = text_evidence_key"
      by auto
    have "find (\<lambda>q. pv_key q = text_evidence_key) (so_projections ob) = Some p"
      using find_unique_key [OF wf_observationD(10) [OF a(2)] p(1)] p(2) by simp
    then show ?thesis
      using parse_text_evidence_ok [OF a(9) [OF p]] by (simp add: accepted_text_evidence_def observation_projection_def)
  qed
  have none: "\<exists>e. accepted_text_evidence ob = Inl e" if "text_evidence_key \<notin> pm_key ` set (dm_projections m)"
  proof -
    have "find (\<lambda>q. pv_key q = text_evidence_key) (so_projections ob) = None"
      using that unfolding keys [symmetric] find_None_iff image_iff by metis
    then show ?thesis by (simp add: accepted_text_evidence_def observation_projection_def)
  qed
  have iff: "require_evidence (AcceptedValue admitted) = Inr () \<longleftrightarrow> text_evidence_key \<in> pm_key ` set (dm_projections m)"
  proof (cases "text_evidence_key \<in> pm_key ` set (dm_projections m)")
    case True
    then show ?thesis using a(1,2) ok by (auto simp: require_evidence_def wf_observation_def)
  next
    case False
    then show ?thesis using a(1,2) none by (auto simp: require_evidence_def wf_observation_def)
  qed
  then show ?thesis using ok a(1) by simp
qed

section \<open>A worked Definition\<close>

definition sample_digest :: "json \<Rightarrow> string" where
  "sample_digest j = replicate 64 (CHR ''0'')"

definition sample_check :: schema_check where
  "sample_check s = Some (\<lambda>j. True)"

definition sample_manifest :: definition_manifest where
  "sample_manifest = \<lparr>dm_identity = \<lparr>di_name = ''t'', di_version = ''1''\<rparr>,
     dm_fingerprint = ''sha256:'' @ replicate 64 (CHR ''0''), dm_source_schema = Some (JObj []),
     dm_projections = [\<lparr>pm_key = text_evidence_key, pm_schema = Some text_evidence_schema\<rparr>]\<rparr>"

definition sample_envelope :: "(string \<times> json) list" where
  "sample_envelope = [(''name'', JStr ''a''), (''definition_version'', JStr ''1''), (''materialization'', JStr ''captured'')]"

definition sample_with :: "(string \<times> json) list \<Rightarrow> source_observation" where
  "sample_with ms = \<lparr>so_ref = \<lparr>sr_type = ''t'', sr_id = ''a''\<rparr>, so_version = ''1'',
     so_fingerprint = ''sha256:'' @ replicate 64 (CHR ''0''), so_description = None,
     so_payload = Some (JObj ms),
     so_projections = [\<lparr>pv_key = text_evidence_key, pv_value = Some (JObj [(''source_type'', JStr ''t''),
       (''source_id'', JStr ''a''), (''content'', JStr ''hello'')])\<rparr>]\<rparr>"

definition sample_observation :: source_observation where
  "sample_observation = sample_with sample_envelope"

lemma ascii_text [simp]: "list_all (\<lambda>c. byte_of c < 128) s \<Longrightarrow> valid_utf8 s"
  by (rule valid_utf8_ascii)

lemma sample_parts [simp]: "valid_part 128 ''t''" "valid_part 256 ''a''" "valid_part 128 ''1''" "valid_part 256 ''1''"
  by (rule graphic_valid_part; simp add: graphic_def)+

lemma sample_key [simp]: "valid_key text_evidence_key"
proof -
  have "graphic ''powercontext.text-evidence''" by (simp add: graphic_def)
  then show ?thesis by (simp add: valid_key_def text_evidence_key_def graphic_valid_part)
qed

lemma sample_schema [simp]:
  "json_valid text_evidence_schema" "validate_json_numbers text_evidence_schema"
  "decodes_to_any text_evidence_schema" "json_kind text_evidence_schema = CHR ''{''"
  "\<not> has_remote_schema_reference text_evidence_schema" "require_draft True text_evidence_schema"
  by (simp_all add: text_evidence_schema_def string_property_def remote_reference_def dialect_ok_def
      single_schema_keywords_def map_schema_keywords_def array_schema_keywords_def has_resource_id_def)

lemma sample_manifest_valid: "validate_definition_manifest sample_digest sample_manifest = Inr ()"
proof -
  have w: "wf_projection_manifest \<lparr>pm_key = text_evidence_key, pm_schema = Some text_evidence_schema\<rparr>"
    by (simp add: wf_projection_manifest_def immutable_schema_iff)
  have "validate_identity (dm_identity sample_manifest) = Inr ()"
    "projections_unique [] (dm_projections sample_manifest) = Inr ()"
    "immutable_schema ''source_schema'' (dm_source_schema sample_manifest) = Inr (JObj [])"
    unfolding projections_unique_iff validate_identity_iff immutable_schema_iff
    using w by (simp_all add: sample_manifest_def)
  moreover have "json_valid (definition_wire sample_manifest False)"
    using projection_key_wire_valid [OF sample_key]
    by (simp add: definition_wire_def sample_manifest_def schema_wire_def)
  then have "definition_fingerprint sample_digest sample_manifest = Inr (dm_fingerprint sample_manifest)"
    by (simp add: definition_fingerprint_def sample_digest_def sample_manifest_def)
  moreover have "valid_fingerprint (dm_fingerprint sample_manifest)" "length (dm_projections sample_manifest) \<le> 16"
    by (simp_all add: sample_manifest_def valid_fingerprint_def is_digit_def list_all_iff)
  ultimately show ?thesis by (simp add: validate_definition_manifest_def)
qed

definition sample_payload_ok :: "(string \<times> json) list \<Rightarrow> bool" where
  "sample_payload_ok ms \<longleftrightarrow> json_valid (JObj ms) \<and> map_of ms ''name'' = Some (JStr ''a'')
     \<and> map_of ms ''definition_version'' = Some (JStr ''1'') \<and> map_of ms ''materialization'' = Some (JStr ''captured'')
     \<and> map_of ms ''description'' = None"

lemma sample_envelope_ok: "sample_payload_ok sample_envelope"
  by (simp add: sample_payload_ok_def sample_envelope_def)

lemma sample_ref: "new_source_ref ''t'' ''a'' = Inr \<lparr>sr_type = ''t'', sr_id = ''a''\<rparr>"
  by (simp add: new_source_ref_iff wf_source_ref_def)

lemma sample_with_valid: "sample_payload_ok ms \<Longrightarrow> validate_observation (sample_with ms) = Inr ()"
proof -
  assume ok: "sample_payload_ok ms"
  have "validate_reference_part ''definition_version'' ''1'' 256 = Inr ()"
    by (simp add: validate_reference_part_iff)
  moreover have "validate_projections [] (so_projections (sample_with ms)) = Inr ()"
    unfolding validate_projections_iff validate_projection_value_iff by (simp add: sample_with_def)
  moreover have "validate_payload (sample_with ms) = Inr ()"
    using ok by (simp add: validate_payload_def sample_with_def source_data_string_def sample_payload_ok_def)
  ultimately show ?thesis
    using sample_ref
    by (simp add: validate_observation_def) (simp add: sample_with_def relabel_def max_source_id_length_def list_all_iff)
qed

lemma sample_text_evidence:
  "validate_text_evidence (pv_value (hd (so_projections (sample_with ms)))) (so_ref (sample_with ms)) = Inr ()"
  using sample_ref by (simp add: validate_text_evidence_def sample_with_def relabel_def source_data_string_def)

lemma sample_with_admitted:
  assumes "sample_payload_ok ms"
  shows "admit_observation sample_digest sample_check sample_manifest (sample_with ms) = Inr (sample_with ms)"
proof -
  have sv: "validate_text_evidence_schema (Some text_evidence_schema) = Inr ()"
    using equal_json_sound(1) [of text_evidence_schema text_evidence_schema] sample_schema(1)
    by (simp add: validate_text_evidence_schema_def text_evidence_schema_def)
  then have "compile_projections sample_check (dm_projections sample_manifest) = Inr [(text_evidence_key, \<lambda>j. True)]"
    by (simp add: sample_manifest_def compile_admission_schema_def sample_check_def relabel_def)
  moreover have "compile_admission_schema sample_check (dm_source_schema sample_manifest) = Some (\<lambda>j. True)"
    by (simp add: compile_admission_schema_def sample_check_def sample_manifest_def dialect_ok_def)
  ultimately have c: "compile_admission_manifest sample_digest sample_check sample_manifest
      = Inr (\<lambda>j. True, [(text_evidence_key, \<lambda>j. True)])"
    using sample_manifest_valid by (simp add: compile_admission_manifest_def)
  have "admit_projections (so_ref (sample_with ms)) [(text_evidence_key, \<lambda>j. True)] (so_projections (sample_with ms)) = Inr ()"
    using sample_text_evidence [of ms] by (simp add: sample_with_def relabel_def admits_def)
  then show ?thesis
    using c sample_with_valid [OF assms]
    by (simp add: admit_observation_def) (simp add: sample_with_def sample_manifest_def admits_def)
qed

lemmas sample_observation_valid = sample_with_valid [OF sample_envelope_ok, folded sample_observation_def]
lemmas sample_admitted = sample_with_admitted [OF sample_envelope_ok, folded sample_observation_def]

theorem observation_round_trip_witness:
  "\<exists>j. marshal_observation sample_observation = Inr j \<and> parse_source_observation j = Inr sample_observation"
  by (rule observation_round_trip [OF sample_observation_valid])

theorem manifest_round_trip_witness:
  "\<exists>j. marshal_definition_manifest sample_digest sample_manifest = Inr j
     \<and> parse_definition_manifest sample_digest j = Inr sample_manifest"
  by (rule manifest_round_trip [OF sample_manifest_valid])

theorem admission_exact_witness:
  "pv_key ` set (so_projections sample_observation) = pm_key ` set (dm_projections sample_manifest)"
  using admission_exact [OF sample_admitted] by simp

theorem admitted_evidence_gate_witness:
  "require_evidence (AcceptedValue sample_observation) = Inr ()
   \<and> (\<exists>e. accepted_text_evidence sample_observation = Inr e \<and> te_ref e = so_ref sample_observation)"
proof -
  have "text_evidence_key \<in> pm_key ` set (dm_projections sample_manifest)" by (simp add: sample_manifest_def)
  then show ?thesis using admitted_evidence_gate [OF sample_admitted] by simp
qed

end
