(* ===== verification/Source_Store.thy ===== *)
theory Source_Store
  imports Source_Observation
begin

text \<open>
  The relational Source store: \<open>internal/sqlstore/sources.go\<close>, \<open>source_codec.go\<close>, \<open>cursors.go\<close> and
  \<open>definition_manifests.go\<close>. One record holds the tables; every operation runs in a transaction of
  its caller, so a failing operation (\<open>Inl\<close>) leaves the tables unchanged. Uniqueness constraints of
  the schema are part of the insert operations. A stored payload is \<open>Encoded j\<close> when its bytes are the
  encoder's output for \<open>j\<close>; any other bytes are \<open>Foreign\<close>, with what a JSON reader makes of them. Codecs
  are constructor arguments of the repository, here records of functions.
\<close>

section \<open>Tables\<close>

datatype blob = Encoded json | Foreign string "json option" bool

fun blob_json :: "blob \<Rightarrow> json option" where
  "blob_json (Encoded j) = Some j"
| "blob_json (Foreign raw j b) = j"

record source_row =
  row_scope :: string
  row_type :: string
  row_id :: string
  row_payload :: blob
  row_position :: int

record cursor_row =
  cur_scope :: string
  cur_binding :: string
  cur_payload :: blob
  cur_generation :: int

record manifest_row =
  mr_name :: string
  mr_version :: string
  mr_fingerprint :: string
  mr_manifest :: blob

record source_tables =
  tb_heads :: "(string, int) gomap"
  tb_sources :: "source_row list"
  tb_acceptances :: "(string \<times> string \<times> string) list"
  tb_cursors :: "cursor_row list"
  tb_manifests :: "manifest_row list"

definition empty_tables :: source_tables where
  "empty_tables = \<lparr>tb_heads = [], tb_sources = [], tb_acceptances = [], tb_cursors = [], tb_manifests = []\<rparr>"

datatype store_error =
    InvalidArgument string string
  | InvalidStoredPayload string string string
  | InvalidStoredColumn string string
  | IdentityMismatch string
  | StoredPayloadConflict string string
  | RepositoryNotFound string string
  | CodecConflict string string
  | GenerationConflict string "int option" "int option"
  | ConstraintFailed string
  | StoreSource source_error
  | StoreIngest ingest_error
  | StoreArtifact artifact_error

section \<open>Argument checks\<close>

definition require_identifier :: "string \<Rightarrow> string \<Rightarrow> nat \<Rightarrow> store_error + unit" where
  "require_identifier field value maximum =
     (if \<not> valid_utf8 value \<or> trim_space value = [] \<or> trim_space value \<noteq> value
      then Inl (InvalidArgument field ''must be a non-empty trimmed string'')
      else if rune_count value > maximum then Inl (InvalidArgument field (too_long_detail maximum))
      else Inr ())"

definition require_scope :: "string \<Rightarrow> store_error + unit" where
  "require_scope scope_id =
     (if \<not> valid_utf8 scope_id \<or> trim_space scope_id = [] \<or> trim_space scope_id \<noteq> scope_id
      then Inl (InvalidArgument ''scope_id'' ''must be a non-empty trimmed string'')
      else if rune_count scope_id > 256
        then Inl (InvalidArgument ''scope_id'' ''must not exceed 256 characters'')
      else Inr ())"

section \<open>Definition manifests\<close>

record json_env =
  je_canonical :: "json \<Rightarrow> string"
  je_sha256 :: "string \<Rightarrow> string"
  je_schema :: schema_check

definition env_digest :: "json_env \<Rightarrow> json \<Rightarrow> string" where
  "env_digest env j = je_sha256 env (je_canonical env j)"

definition manifest_kind :: string where
  "manifest_kind = ''source-definition-manifest''"

definition find_manifest ::
  "json_env \<Rightarrow> source_tables \<Rightarrow> string \<Rightarrow> string \<Rightarrow> store_error + definition_manifest option" where
  "find_manifest env tb name version =
     (case new_definition_identity name version of
        Inl e \<Rightarrow> Inl (StoreIngest e)
      | Inr _ \<Rightarrow>
       (case find (\<lambda>r. mr_name r = name \<and> mr_version r = version) (tb_manifests tb) of
          None \<Rightarrow> Inr None
        | Some r \<Rightarrow>
         (case (case blob_json (mr_manifest r) of
                  None \<Rightarrow> Inl (InvalidManifest ''payload'' ''must be a JSON object'')
                | Some j \<Rightarrow> parse_definition_manifest (env_digest env) j) of
            Inl _ \<Rightarrow> Inl (InvalidStoredPayload manifest_kind ''<redacted>'' ''payload does not match the model'')
          | Inr m \<Rightarrow>
              (if mr_name r \<noteq> di_name (dm_identity m) \<or> mr_version r \<noteq> di_version (dm_identity m)
                  \<or> mr_fingerprint r \<noteq> dm_fingerprint m
               then Inl (IdentityMismatch manifest_kind) else Inr (Some m)))))"

definition same_definition_manifest :: "json_env \<Rightarrow> definition_manifest \<Rightarrow> json \<Rightarrow> bool" where
  "same_definition_manifest env m expected =
     (case marshal_definition_manifest (env_digest env) m of
        Inl _ \<Rightarrow> False
      | Inr j \<Rightarrow> json_valid expected \<and> je_canonical env j = je_canonical env expected)"

text \<open>The registry's unique keys are \<open>(name, version)\<close> and \<open>(name, fingerprint)\<close>; a conflicting insert does
  nothing.\<close>

definition register_manifest ::
  "json_env \<Rightarrow> source_tables \<Rightarrow> definition_manifest \<Rightarrow> store_error + definition_manifest \<times> source_tables" where
  "register_manifest env tb m =
     (let name = di_name (dm_identity m); version = di_version (dm_identity m) in
      and_then (map_sum StoreIngest id (marshal_definition_manifest (env_digest env) m)) (\<lambda>payload.
      if \<not> list_ex (\<lambda>r. mr_name r = name \<and> (mr_version r = version \<or> mr_fingerprint r = dm_fingerprint m))
           (tb_manifests tb)
      then Inr (m, tb\<lparr>tb_manifests := tb_manifests tb @
             [\<lparr>mr_name = name, mr_version = version, mr_fingerprint = dm_fingerprint m,
               mr_manifest = Encoded payload\<rparr>]\<rparr>)
      else
        and_then (find_manifest env tb name version) (\<lambda>found.
        case found of
          None \<Rightarrow> Inl (StoredPayloadConflict manifest_kind ''<redacted>'')
        | Some stored \<Rightarrow>
            (if same_definition_manifest env stored payload then Inr (m, tb)
             else Inl (StoredPayloadConflict manifest_kind ''<redacted>'')))))"

section \<open>Codecs and stored Sources\<close>

record source_codec =
  cd_name :: string
  cd_type :: string
  cd_encode :: "source_value \<Rightarrow> blob option"
  cd_decode :: "blob \<Rightarrow> source_value option"

definition native_value :: "source_value \<Rightarrow> product_value" where
  "native_value v =
     (if sv_type v = ''source.ContentSource'' then ContentValue v
      else if sv_type v = ''skill.SnapshotSource'' then SnapshotValue v
      else NativeValue v)"

fun native_part :: "product_value \<Rightarrow> source_value option" where
  "native_part (ContentValue v) = Some v"
| "native_part (SnapshotValue v) = Some v"
| "native_part (NativeValue v) = Some v"
| "native_part (RawValue ob) = None"
| "native_part (AcceptedValue ob) = None"

record stored_source =
  ss_ref :: source_ref
  ss_value :: product_value
  ss_position :: int

record source_repository =
  sr_by_name :: "(string, source_codec) gomap"
  sr_by_source :: "(string, source_codec) gomap"

fun add_codecs :: "source_codec list \<Rightarrow> source_repository \<Rightarrow> store_error + source_repository" where
  "add_codecs [] repo = Inr repo"
| "add_codecs (c # cs) repo =
     (if gm_get (sr_by_name repo) (cd_name c) \<noteq> None then Inl (CodecConflict ''source name'' (cd_name c))
      else if gm_get (sr_by_source repo) (cd_type c) \<noteq> None then Inl (CodecConflict ''source type'' (cd_type c))
      else add_codecs cs (repo\<lparr>sr_by_name := gm_set (cd_name c) c (sr_by_name repo),
                               sr_by_source := gm_set (cd_type c) c (sr_by_source repo)\<rparr>))"

definition new_source_repository :: "source_codec list \<Rightarrow> store_error + source_repository" where
  "new_source_repository codecs = add_codecs codecs \<lparr>sr_by_name = [], sr_by_source = []\<rparr>"

definition repository_ref :: "source_repository \<Rightarrow> product_value \<Rightarrow> store_error + source_ref" where
  "repository_ref repo value = (case value of
     RawValue ob \<Rightarrow> and_then (map_sum StoreIngest id (validate_observation ob)) (\<lambda>_. Inr (so_ref ob))
   | AcceptedValue ob \<Rightarrow> and_then (map_sum StoreIngest id (validate_observation ob)) (\<lambda>_. Inr (so_ref ob))
   | _ \<Rightarrow>
      (case native_part value of
         None \<Rightarrow> Inl (StoreSource SrcInvalidEntry)
       | Some v \<Rightarrow>
          (case gm_get (sr_by_source repo) (sv_type v) of
             None \<Rightarrow> Inl (StoreSource (SrcAdapterNotFound ''source'' (sv_type v)))
           | Some c \<Rightarrow> map_sum StoreSource id (new_source_ref (cd_name c) (sv_name v)))))"

definition encode_source :: "source_repository \<Rightarrow> product_value \<Rightarrow> store_error + source_ref \<times> blob" where
  "encode_source repo value = (case value of
     RawValue ob \<Rightarrow> Inl (StoreIngest UnacceptedObservation)
   | AcceptedValue ob \<Rightarrow> Inl (RepositoryNotFound ''source-adapter'' ''sourceevidence.AcceptedObservation'')
   | _ \<Rightarrow>
      (case native_part value of
         None \<Rightarrow> Inl (StoreSource SrcInvalidEntry)
       | Some v \<Rightarrow>
          (case gm_get (sr_by_source repo) (sv_type v) of
             None \<Rightarrow> Inl (RepositoryNotFound ''source-adapter'' (sv_type v))
           | Some c \<Rightarrow>
              and_then (repository_ref repo value) (\<lambda>ref.
              case (if sv_type v \<noteq> cd_type c then None else cd_encode c v) of
                None \<Rightarrow> Inl (InvalidStoredPayload ''source'' (cd_name c) ''value is not JSON serializable'')
              | Some payload \<Rightarrow> Inr (ref, payload)))))"

subsection \<open>The durable envelope\<close>

definition envelope_encoding :: string where
  "envelope_encoding = ''powercontext-source-v1''"

definition encode_source_observation :: "source_observation \<Rightarrow> ingest_error + blob" where
  "encode_source_observation ob =
     and_then (marshal_observation ob) (\<lambda>j.
     Inr (Encoded (JObj [(''encoding'', JStr envelope_encoding), (''representation'', JStr ''observation''),
       (''value'', j)])))"

definition looks_like_current_envelope :: "blob \<Rightarrow> bool" where
  "looks_like_current_envelope payload = (case payload of
     Foreign raw None b \<Rightarrow> b
   | _ \<Rightarrow> (case blob_json payload of
       Some (JObj ms) \<Rightarrow> list_ex (\<lambda>m. m = (''encoding'', JStr envelope_encoding)) ms
         \<and> list_ex (\<lambda>m. fst m = ''representation'') ms
     | _ \<Rightarrow> False))"

datatype envelope =
    NotEnvelope
  | BadEnvelope
  | NativeEnvelope json
  | ObservationEnvelope source_observation

definition parse_source_envelope :: "blob \<Rightarrow> envelope" where
  "parse_source_envelope payload =
     (case blob_json payload of
        None \<Rightarrow> if looks_like_current_envelope payload then BadEnvelope else NotEnvelope
      | Some (JObj ms) \<Rightarrow>
         (if \<not> json_valid (JObj ms)
          then if looks_like_current_envelope payload then BadEnvelope else NotEnvelope
          else if map_of ms ''encoding'' \<noteq> Some (JStr envelope_encoding) then NotEnvelope
          else case map_of ms ''representation'' of
            None \<Rightarrow> NotEnvelope
          | Some r \<Rightarrow>
             (if \<not> list_all (\<lambda>m. fst m \<in> {''encoding'', ''representation'', ''value''}) ms then BadEnvelope
              else case (r, map_of ms ''value'') of
                (JStr form, Some v) \<Rightarrow>
                  (if form = ''native'' then NativeEnvelope v
                   else if form = ''observation''
                   then (case parse_source_observation v of
                           Inl _ \<Rightarrow> BadEnvelope
                         | Inr ob \<Rightarrow> ObservationEnvelope ob)
                   else BadEnvelope)
              | _ \<Rightarrow> BadEnvelope))
      | Some j \<Rightarrow> NotEnvelope)"

definition invalid_stored_observation :: store_error where
  "invalid_stored_observation =
     InvalidStoredPayload ''source'' ''<redacted>'' ''payload does not match the observation envelope''"

definition observation_conflict :: store_error where
  "observation_conflict = StoredPayloadConflict ''source'' ''<redacted>''"

definition row_accepted :: "source_tables \<Rightarrow> source_row \<Rightarrow> bool" where
  "row_accepted tb r \<longleftrightarrow> (row_scope r, row_type r, row_id r) \<in> set (tb_acceptances tb)"

definition admit_persisted_observation ::
  "json_env \<Rightarrow> source_tables \<Rightarrow> source_observation \<Rightarrow> store_error + source_observation" where
  "admit_persisted_observation env tb ob =
     and_then (map_sum StoreIngest id (validate_observation ob)) (\<lambda>_.
     case new_definition_identity (sr_type (so_ref ob)) (so_version ob) of
       Inl _ \<Rightarrow> Inl (StoreIngest (InvalidObservation ''definition'' ''must identify a valid Source Definition''))
     | Inr identity \<Rightarrow>
        and_then (find_manifest env tb (di_name identity) (di_version identity)) (\<lambda>found.
        case found of
          None \<Rightarrow> Inl (StoreIngest DefinitionNotFound)
        | Some m \<Rightarrow> map_sum StoreIngest id (admit_observation (env_digest env) (je_schema env) m ob)))"

definition decode_native :: "source_repository \<Rightarrow> source_tables \<Rightarrow> source_row \<Rightarrow> blob \<Rightarrow> store_error + stored_source" where
  "decode_native repo tb r payload =
     (if row_accepted tb r then Inl invalid_stored_observation
      else case gm_get (sr_by_name repo) (row_type r) of
        None \<Rightarrow> Inl (RepositoryNotFound ''source-adapter'' (row_type r))
      | Some c \<Rightarrow>
         (case cd_decode c payload of
            None \<Rightarrow> Inl (InvalidStoredPayload ''source'' (row_type r) ''payload does not match the model'')
          | Some v \<Rightarrow>
             and_then (map_sum StoreSource id (new_source_ref (row_type r) (row_id r))) (\<lambda>indexed.
             and_then (map_sum StoreSource id (new_source_ref (cd_name c) (sv_name v))) (\<lambda>decoded.
             if indexed \<noteq> decoded then Inl (IdentityMismatch ''source'')
             else Inr \<lparr>ss_ref = indexed, ss_value = native_value v, ss_position = row_position r\<rparr>))))"

definition decode_source ::
  "json_env \<Rightarrow> source_repository \<Rightarrow> source_tables \<Rightarrow> source_row \<Rightarrow> store_error + stored_source" where
  "decode_source env repo tb r =
     (case parse_source_envelope (row_payload r) of
        BadEnvelope \<Rightarrow> Inl invalid_stored_observation
      | ObservationEnvelope ob \<Rightarrow>
         and_then (map_sum StoreSource id (new_source_ref (row_type r) (row_id r))) (\<lambda>indexed.
         if indexed \<noteq> so_ref ob then Inl (IdentityMismatch ''source'')
         else if row_accepted tb r
         then (case admit_persisted_observation env tb ob of
                 Inl _ \<Rightarrow> Inl invalid_stored_observation
               | Inr admitted \<Rightarrow>
                  (case validate_observation admitted of
                     Inl _ \<Rightarrow> Inl invalid_stored_observation
                   | Inr _ \<Rightarrow> Inr \<lparr>ss_ref = indexed, ss_value = AcceptedValue admitted, ss_position = row_position r\<rparr>))
         else Inr \<lparr>ss_ref = indexed, ss_value = RawValue ob, ss_position = row_position r\<rparr>)
      | NativeEnvelope v \<Rightarrow> decode_native repo tb r (Encoded v)
      | NotEnvelope \<Rightarrow> decode_native repo tb r (row_payload r))"

section \<open>The journal\<close>

definition find_source :: "source_tables \<Rightarrow> string \<Rightarrow> source_ref \<Rightarrow> source_row option" where
  "find_source tb scope_id ref =
     find (\<lambda>r. row_scope r = scope_id \<and> row_type r = sr_type ref \<and> row_id r = sr_id ref) (tb_sources tb)"

definition lock_journal_head :: "source_tables \<Rightarrow> string \<Rightarrow> store_error + source_tables" where
  "lock_journal_head tb scope_id =
     (case gm_get (tb_heads tb) scope_id of
        Some position \<Rightarrow>
          (if position < 0 then Inl (InvalidStoredColumn ''journal_position'' ''a non-negative scope head'') else Inr tb)
      | None \<Rightarrow> Inr (tb\<lparr>tb_heads := gm_set scope_id 0 (tb_heads tb)\<rparr>))"

definition next_journal_position :: "source_tables \<Rightarrow> string \<Rightarrow> store_error + int \<times> source_tables" where
  "next_journal_position tb scope_id =
     (case gm_get (tb_heads tb) scope_id of
        None \<Rightarrow> Inl (InvalidStoredColumn ''journal_position'' ''an initialized scope head'')
      | Some p \<Rightarrow>
         (if p + 1 > max_int64 \<or> p + 1 < 1
          then Inl (InvalidStoredColumn ''journal_position'' ''a positive integer'')
          else Inr (p + 1, tb\<lparr>tb_heads := gm_set scope_id (p + 1) (tb_heads tb)\<rparr>)))"

text \<open>The insert fails on the primary key \<open>(scope, type, id)\<close> and on the unique \<open>(scope, position)\<close>.\<close>

definition insert_source :: "source_tables \<Rightarrow> source_row \<Rightarrow> source_tables option" where
  "insert_source tb r =
     (if list_ex (\<lambda>q. row_scope q = row_scope r \<and>
          ((row_type q = row_type r \<and> row_id q = row_id r) \<or> row_position q = row_position r)) (tb_sources tb)
      then None else Some (tb\<lparr>tb_sources := tb_sources tb @ [r]\<rparr>))"

definition same_stored_payload :: "blob \<Rightarrow> blob \<Rightarrow> bool \<Rightarrow> store_error + bool" where
  "same_stored_payload stored expected observation =
     (if \<not> observation then Inr (stored = expected)
      else case parse_source_envelope stored of
        BadEnvelope \<Rightarrow> Inl invalid_stored_observation
      | ObservationEnvelope _ \<Rightarrow>
         (case (blob_json stored, blob_json expected) of
            (Some l, Some r) \<Rightarrow> map_sum (\<lambda>_. invalid_stored_observation) id (equal_json_values l r)
          | _ \<Rightarrow> Inl invalid_stored_observation)
      | _ \<Rightarrow> Inr False)"

definition add_source ::
  "json_env \<Rightarrow> source_repository \<Rightarrow> source_tables \<Rightarrow> string \<Rightarrow> product_value
   \<Rightarrow> store_error + stored_source \<times> source_tables" where
  "add_source env repo tb scope_id value =
     and_then (require_scope scope_id) (\<lambda>_.
     and_then (encode_source repo value) (\<lambda>(ref, payload).
     and_then (lock_journal_head tb scope_id) (\<lambda>tb1.
     let existing_result = (\<lambda>tb existing.
       and_then (same_stored_payload (row_payload existing) payload False) (\<lambda>eq.
       if \<not> eq then Inl (StoredPayloadConflict ''source'' (scope_id @ ''/'' @ sr_type ref @ '':'' @ sr_id ref))
       else and_then (decode_source env repo tb existing) (\<lambda>s. Inr (s, tb)))) in
     case find_source tb1 scope_id ref of
       Some existing \<Rightarrow> existing_result tb1 existing
     | None \<Rightarrow>
        and_then (next_journal_position tb1 scope_id) (\<lambda>(position, tb2).
        let r = \<lparr>row_scope = scope_id, row_type = sr_type ref, row_id = sr_id ref,
                 row_payload = payload, row_position = position\<rparr> in
        case insert_source tb2 r of
          Some tb3 \<Rightarrow> Inr (\<lparr>ss_ref = ref, ss_value = value, ss_position = position\<rparr>, tb3)
        | None \<Rightarrow>
           (case find_source tb2 scope_id ref of
              None \<Rightarrow> Inl (ConstraintFailed ''pc_sources'')
            | Some existing \<Rightarrow> existing_result tb2 existing)))))"

definition mark_accepted :: "source_tables \<Rightarrow> string \<Rightarrow> source_ref \<Rightarrow> store_error + source_tables" where
  "mark_accepted tb scope_id ref =
     (let key = (scope_id, sr_type ref, sr_id ref) in
      if key \<in> set (tb_acceptances tb) then Inl (ConstraintFailed ''pc_source_observation_acceptances'')
      else Inr (tb\<lparr>tb_acceptances := key # tb_acceptances tb\<rparr>))"

definition add_accepted ::
  "json_env \<Rightarrow> source_repository \<Rightarrow> source_tables \<Rightarrow> string \<Rightarrow> source_observation
   \<Rightarrow> store_error + stored_source \<times> source_tables" where
  "add_accepted env repo tb scope_id admitted =
     and_then (require_scope scope_id) (\<lambda>_.
     and_then (map_sum StoreIngest id (validate_observation admitted)) (\<lambda>_.
     and_then (admit_persisted_observation env tb admitted) (\<lambda>ob.
     and_then (map_sum StoreIngest id (encode_source_observation ob)) (\<lambda>payload.
     and_then (lock_journal_head tb scope_id) (\<lambda>tb1.
     let ref = so_ref ob;
         existing_result = (\<lambda>tb existing.
           and_then (same_stored_payload (row_payload existing) payload True) (\<lambda>eq.
           if \<not> eq \<or> \<not> row_accepted tb existing then Inl observation_conflict
           else and_then (decode_source env repo tb existing) (\<lambda>s. Inr (s, tb)))) in
     case find_source tb1 scope_id ref of
       Some existing \<Rightarrow> existing_result tb1 existing
     | None \<Rightarrow>
        and_then (next_journal_position tb1 scope_id) (\<lambda>(position, tb2).
        let r = \<lparr>row_scope = scope_id, row_type = sr_type ref, row_id = sr_id ref,
                 row_payload = payload, row_position = position\<rparr> in
        case insert_source tb2 r of
          Some tb3 \<Rightarrow>
            and_then (mark_accepted tb3 scope_id ref) (\<lambda>tb4.
            and_then (map_sum StoreIngest id (validate_observation ob)) (\<lambda>_.
            Inr (\<lparr>ss_ref = ref, ss_value = AcceptedValue ob, ss_position = position\<rparr>, tb4)))
        | None \<Rightarrow>
           (case find_source tb2 scope_id ref of
              None \<Rightarrow> Inl (ConstraintFailed ''pc_sources'')
            | Some existing \<Rightarrow> existing_result tb2 existing)))))))"

definition get_source ::
  "json_env \<Rightarrow> source_repository \<Rightarrow> source_tables \<Rightarrow> string \<Rightarrow> source_ref \<Rightarrow> store_error + stored_source" where
  "get_source env repo tb scope_id ref =
     and_then (require_scope scope_id) (\<lambda>_.
     and_then (map_sum StoreSource id (new_source_ref (sr_type ref) (sr_id ref))) (\<lambda>_.
     case find_source tb scope_id ref of
       None \<Rightarrow> Inl (RepositoryNotFound ''source'' (scope_id @ ''/'' @ sr_type ref @ '':'' @ sr_id ref))
     | Some r \<Rightarrow> decode_source env repo tb r))"

definition scope_rows :: "source_tables \<Rightarrow> string \<Rightarrow> source_row list" where
  "scope_rows tb scope_id = sort_key row_position (filter (\<lambda>r. row_scope r = scope_id) (tb_sources tb))"

definition list_sources ::
  "json_env \<Rightarrow> source_repository \<Rightarrow> source_tables \<Rightarrow> string \<Rightarrow> int \<Rightarrow> int option \<Rightarrow> store_error + stored_source list" where
  "list_sources env repo tb scope_id after limit =
     and_then (require_scope scope_id) (\<lambda>_.
     and_then (check (0 \<le> after) (InvalidArgument ''after'' ''must be non-negative'')) (\<lambda>_.
     and_then (check (case limit of None \<Rightarrow> True | Some n \<Rightarrow> 1 \<le> n) (InvalidArgument ''limit'' ''must be positive'')) (\<lambda>_.
     let rows = filter (\<lambda>r. row_position r > after) (scope_rows tb scope_id);
         limited = (case limit of None \<Rightarrow> rows | Some n \<Rightarrow> take (nat n) rows)
     in map_res (decode_source env repo tb) limited)))"

definition max_position :: "source_tables \<Rightarrow> string \<Rightarrow> int" where
  "max_position tb scope_id =
     (case map row_position (filter (\<lambda>r. row_scope r = scope_id) (tb_sources tb)) of
        [] \<Rightarrow> 0
      | p # ps \<Rightarrow> fold max ps p)"

definition journal_position :: "source_tables \<Rightarrow> string \<Rightarrow> store_error + int" where
  "journal_position tb scope_id =
     and_then (require_scope scope_id) (\<lambda>_.
     Inr (max_position tb scope_id))"

section \<open>Cursors\<close>

record stored_cursor =
  sc_cursor :: int
  sc_generation :: int

definition cursor_wire :: "int \<Rightarrow> blob" where
  "cursor_wire sequence = Encoded (JObj [(''sequence'', JNum (show_int sequence))])"

definition decode_source_cursor :: "blob \<Rightarrow> int option" where
  "decode_source_cursor payload = (case blob_json payload of
     Some (JObj ms) \<Rightarrow>
      (case map_of ms ''sequence'' of
         None \<Rightarrow> Some 0
       | Some (JNum n) \<Rightarrow>
          (case parse_big_int n of
             None \<Rightarrow> None
           | Some i \<Rightarrow> if in_int64 i then Some i else None)
       | _ \<Rightarrow> None)
   | Some JNull \<Rightarrow> Some 0
   | _ \<Rightarrow> None)"

definition find_cursor :: "source_tables \<Rightarrow> string \<Rightarrow> string \<Rightarrow> cursor_row option" where
  "find_cursor tb scope_id binding = find (\<lambda>r. cur_scope r = scope_id \<and> cur_binding r = binding) (tb_cursors tb)"

definition load_cursor :: "source_tables \<Rightarrow> string \<Rightarrow> string \<Rightarrow> store_error + stored_cursor option" where
  "load_cursor tb scope_id binding =
     and_then (require_identifier ''scope_id'' scope_id 256) (\<lambda>_.
     and_then (require_identifier ''binding_name'' binding 128) (\<lambda>_.
     case find_cursor tb scope_id binding of
       None \<Rightarrow> Inr None
     | Some r \<Rightarrow>
        (case decode_source_cursor (cur_payload r) of
           None \<Rightarrow> Inl (InvalidStoredPayload ''source-cursor'' (cur_binding r) ''payload does not match the model'')
         | Some c \<Rightarrow> Inr (Some \<lparr>sc_cursor = c, sc_generation = cur_generation r\<rparr>))))"

definition update_cursor_rows ::
  "cursor_row list \<Rightarrow> string \<Rightarrow> string \<Rightarrow> int \<Rightarrow> blob \<Rightarrow> cursor_row list" where
  "update_cursor_rows rows scope_id binding expected payload =
     map (\<lambda>r. if cur_scope r = scope_id \<and> cur_binding r = binding \<and> cur_generation r = expected
              then r\<lparr>cur_payload := payload, cur_generation := expected + 1\<rparr> else r) rows"

definition affected_rows :: "cursor_row list \<Rightarrow> string \<Rightarrow> string \<Rightarrow> int \<Rightarrow> nat" where
  "affected_rows rows scope_id binding expected =
     length (filter (\<lambda>r. cur_scope r = scope_id \<and> cur_binding r = binding \<and> cur_generation r = expected) rows)"

definition save_cursor ::
  "source_tables \<Rightarrow> string \<Rightarrow> string \<Rightarrow> int \<Rightarrow> int option \<Rightarrow> store_error + stored_cursor \<times> source_tables" where
  "save_cursor tb scope_id binding cursor expected =
     and_then (require_identifier ''scope_id'' scope_id 256) (\<lambda>_.
     and_then (require_identifier ''binding_name'' binding 128) (\<lambda>_.
     and_then (check (case expected of None \<Rightarrow> True | Some g \<Rightarrow> 1 \<le> g)
       (InvalidArgument ''expected_generation'' ''must be positive'')) (\<lambda>_.
     case expected of
       None \<Rightarrow>
        (case find_cursor tb scope_id binding of
           None \<Rightarrow> Inr (\<lparr>sc_cursor = cursor, sc_generation = 1\<rparr>,
             tb\<lparr>tb_cursors := tb_cursors tb @ [\<lparr>cur_scope = scope_id, cur_binding = binding,
                 cur_payload = cursor_wire cursor, cur_generation = 1\<rparr>]\<rparr>)
         | Some _ \<Rightarrow>
            (case load_cursor tb scope_id binding of
               Inr (Some existing) \<Rightarrow> Inl (GenerationConflict binding None (Some (sc_generation existing)))
             | _ \<Rightarrow> Inl (ConstraintFailed ''pc_source_cursors'')))
     | Some g \<Rightarrow>
        (if affected_rows (tb_cursors tb) scope_id binding g \<noteq> 1
         then (case load_cursor tb scope_id binding of
                 Inl e \<Rightarrow> Inl e
               | Inr found \<Rightarrow> Inl (GenerationConflict binding (Some g) (map_option sc_generation found)))
         else Inr (\<lparr>sc_cursor = cursor, sc_generation = g + 1\<rparr>,
           tb\<lparr>tb_cursors := update_cursor_rows (tb_cursors tb) scope_id binding g (cursor_wire cursor)\<rparr>)))))"

section \<open>Invariant\<close>

text \<open>Per Scope the journal is gap-free: the rows were inserted at positions 1, 2, 3 and so on, and the
  head row, when there is one, holds the number of rows.\<close>

definition journal_rows :: "source_tables \<Rightarrow> string \<Rightarrow> source_row list" where
  "journal_rows tb scope_id = filter (\<lambda>r. row_scope r = scope_id) (tb_sources tb)"

definition row_key :: "source_row \<Rightarrow> string \<times> string \<times> string" where
  "row_key r = (row_scope r, row_type r, row_id r)"

definition positions :: "nat \<Rightarrow> int list" where
  "positions n = map int [1..<Suc n]"

definition head_of :: "source_tables \<Rightarrow> string \<Rightarrow> int" where
  "head_of tb s = (case gm_get (tb_heads tb) s of None \<Rightarrow> 0 | Some h \<Rightarrow> h)"

definition tables_inv :: "source_tables \<Rightarrow> bool" where
  "tables_inv tb \<longleftrightarrow>
     (\<forall>s. map row_position (journal_rows tb s) = positions (length (journal_rows tb s)))
     \<and> (\<forall>s. head_of tb s = int (length (journal_rows tb s)))
     \<and> distinct (map row_key (tb_sources tb))
     \<and> set (tb_acceptances tb) \<subseteq> row_key ` set (tb_sources tb)
     \<and> distinct (map (\<lambda>r. (cur_scope r, cur_binding r)) (tb_cursors tb))"

lemma tables_invD:
  assumes "tables_inv tb"
  shows "map row_position (journal_rows tb s) = positions (length (journal_rows tb s))"
    "head_of tb s = int (length (journal_rows tb s))" "distinct (map row_key (tb_sources tb))"
    "set (tb_acceptances tb) \<subseteq> row_key ` set (tb_sources tb)"
    "distinct (map (\<lambda>r. (cur_scope r, cur_binding r)) (tb_cursors tb))"
  using assms by (simp_all add: tables_inv_def)

lemma head_of_set [simp]:
  "head_of (tb\<lparr>tb_heads := gm_set s v (tb_heads tb)\<rparr>) t = (if t = s then v else head_of tb t)"
  by (simp add: head_of_def update_conv)

lemma journal_rows_simps [simp]:
  "journal_rows (tb\<lparr>tb_heads := h\<rparr>) s = journal_rows tb s"
  "journal_rows (tb\<lparr>tb_cursors := c\<rparr>) s = journal_rows tb s"
  "journal_rows (tb\<lparr>tb_acceptances := a\<rparr>) s = journal_rows tb s"
  "journal_rows (tb\<lparr>tb_manifests := m\<rparr>) s = journal_rows tb s"
  "journal_rows (tb\<lparr>tb_sources := rs @ [r]\<rparr>) s = filter (\<lambda>r. row_scope r = s) rs @ (if row_scope r = s then [r] else [])"
  by (simp_all add: journal_rows_def)

lemma head_of_simps [simp]:
  "head_of (tb\<lparr>tb_sources := x\<rparr>) s = head_of tb s"
  "head_of (tb\<lparr>tb_cursors := c\<rparr>) s = head_of tb s"
  "head_of (tb\<lparr>tb_acceptances := a\<rparr>) s = head_of tb s"
  "head_of (tb\<lparr>tb_manifests := m\<rparr>) s = head_of tb s"
  by (simp_all add: head_of_def)

lemma tables_inv_empty: "tables_inv empty_tables"
  by (simp add: tables_inv_def empty_tables_def journal_rows_def positions_def head_of_def)

lemma positions_Suc: "positions (Suc n) = positions n @ [int (Suc n)]"
  by (simp add: positions_def)

lemma positions_set: "set (positions n) = {1..int n}"
proof -
  have "set (positions n) = int ` {1..<Suc n}" unfolding positions_def set_map set_upt ..
  also have "\<dots> = {1..<int (Suc n)}" by (simp only: image_int_atLeastLessThan of_nat_1)
  also have "\<dots> = {1..int n}" by auto
  finally show ?thesis .
qed

lemma positions_length [simp]: "length (positions n) = n"
  by (simp add: positions_def)

lemma journal_positions:
  assumes "tables_inv tb" shows "row_position ` set (journal_rows tb s) = {1..int (length (journal_rows tb s))}"
  using tables_invD(1) [OF assms, of s] positions_set by (metis list.set_map)

definition locked_head :: "source_tables \<Rightarrow> string \<Rightarrow> source_tables" where
  "locked_head tb s = (if gm_get (tb_heads tb) s = None then tb\<lparr>tb_heads := gm_set s 0 (tb_heads tb)\<rparr> else tb)"

lemma locked_head_simps [simp]:
  "tb_sources (locked_head tb s) = tb_sources tb" "tb_acceptances (locked_head tb s) = tb_acceptances tb"
  "tb_cursors (locked_head tb s) = tb_cursors tb" "tb_manifests (locked_head tb s) = tb_manifests tb"
  "journal_rows (locked_head tb s) t = journal_rows tb t" "head_of (locked_head tb s) t = head_of tb t"
  "gm_get (tb_heads (locked_head tb s)) s = Some (head_of tb s)"
  by (auto simp: locked_head_def head_of_def update_conv split: option.splits)

lemma locked_head_inv: "tables_inv tb \<Longrightarrow> tables_inv (locked_head tb s)"
  by (simp add: tables_inv_def)

lemma lock_journal_head_ok:
  assumes "tables_inv tb" shows "lock_journal_head tb s = Inr (locked_head tb s)"
  using tables_invD(2) [OF assms, of s]
  by (auto simp: lock_journal_head_def locked_head_def head_of_def split: option.splits)

text \<open>A fresh row at the next position is always insertable.\<close>

definition append_row :: "source_tables \<Rightarrow> source_row \<Rightarrow> source_tables" where
  "append_row tb r = tb\<lparr>tb_heads := gm_set (row_scope r) (row_position r) (tb_heads tb),
     tb_sources := tb_sources tb @ [r]\<rparr>"

lemma find_source_None:
  "find_source tb s ref = None \<longleftrightarrow> (s, sr_type ref, sr_id ref) \<notin> row_key ` set (tb_sources tb)"
  by (auto simp: find_source_def find_None_iff row_key_def)

lemma find_source_Some:
  "find_source tb s ref = Some r \<Longrightarrow> r \<in> set (tb_sources tb) \<and> row_key r = (s, sr_type ref, sr_id ref)"
  by (auto simp: find_source_def find_Some_iff row_key_def)

lemma append_row_inv:
  assumes "tables_inv tb" "row_key r \<notin> row_key ` set (tb_sources tb)"
    and "row_position r = head_of tb (row_scope r) + 1"
  shows "tables_inv (append_row tb r)"
proof -
  have rows: "journal_rows (append_row tb r) t = journal_rows tb t @ (if row_scope r = t then [r] else [])" for t
    by (simp add: append_row_def journal_rows_def)
  have pos: "row_position r = int (Suc (length (journal_rows tb (row_scope r))))"
    using assms(3) tables_invD(2) [OF assms(1)] by simp
  have "map row_position (journal_rows (append_row tb r) t) = positions (length (journal_rows (append_row tb r) t))" for t
    using tables_invD(1) [OF assms(1), of t] pos by (auto simp: rows positions_Suc)
  moreover have "head_of (append_row tb r) t = int (length (journal_rows (append_row tb r) t))" for t
    using tables_invD(2) [OF assms(1), of t] pos by (auto simp: rows) (simp_all add: append_row_def head_of_def update_conv)
  ultimately show ?thesis
    using assms(2) tables_invD(3-5) [OF assms(1)] unfolding tables_inv_def
    by (simp add: append_row_def subset_insertI2)
qed

lemma next_position_insert:
  assumes "tables_inv tb" "gm_get (tb_heads tb) s = Some (head_of tb s)" "head_of tb s < max_int64"
    and "row_scope r = s" "row_position r = head_of tb s + 1" "row_key r \<notin> row_key ` set (tb_sources tb)"
  shows "\<exists>tb2. next_journal_position tb s = Inr (row_position r, tb2) \<and> tb_sources tb2 = tb_sources tb
    \<and> insert_source tb2 r = Some (append_row tb r)"
proof -
  let ?tb = "tb\<lparr>tb_heads := gm_set s (row_position r) (tb_heads tb)\<rparr>"
  have h: "head_of tb s = int (length (journal_rows tb s))" by (rule tables_invD(2) [OF assms(1)])
  have n: "next_journal_position tb s = Inr (row_position r, ?tb)"
    using assms(2,3,5) h by (simp add: next_journal_position_def)
  have "row_position q \<noteq> row_position r" if "q \<in> set (tb_sources tb)" "row_scope q = s" for q
  proof -
    have "q \<in> set (journal_rows tb s)" using that by (simp add: journal_rows_def)
    then have "row_position q \<in> {1..int (length (journal_rows tb s))}" using journal_positions [OF assms(1)] by blast
    then show ?thesis using assms(5) h by simp
  qed
  then have "\<not> list_ex (\<lambda>q. row_scope q = row_scope r \<and>
          ((row_type q = row_type r \<and> row_id q = row_id r) \<or> row_position q = row_position r)) (tb_sources tb)"
    using assms(4,6) by (auto simp: list_ex_iff row_key_def image_iff)
  then have "insert_source ?tb r = Some (append_row tb r)"
    using assms(4) by (simp add: insert_source_def append_row_def)
  with n show ?thesis by auto
qed

section \<open>What an addition does\<close>

definition new_row :: "source_tables \<Rightarrow> string \<Rightarrow> source_ref \<Rightarrow> blob \<Rightarrow> source_row" where
  "new_row tb s ref payload = \<lparr>row_scope = s, row_type = sr_type ref, row_id = sr_id ref,
     row_payload = payload, row_position = head_of tb s + 1\<rparr>"

lemma new_row_simps [simp]:
  "row_scope (new_row tb s ref p) = s" "row_payload (new_row tb s ref p) = p"
  "row_position (new_row tb s ref p) = head_of tb s + 1"
  "row_key (new_row tb s ref p) = (s, sr_type ref, sr_id ref)"
  "row_type (new_row tb s ref p) = sr_type ref" "row_id (new_row tb s ref p) = sr_id ref"
  by (simp_all add: new_row_def row_key_def)

definition added :: "source_tables \<Rightarrow> string \<Rightarrow> source_ref \<Rightarrow> blob \<Rightarrow> source_tables" where
  "added tb s ref payload = append_row (locked_head tb s) (new_row tb s ref payload)"

lemma added_inv:
  assumes "tables_inv tb" "find_source tb s ref = None"
  shows "tables_inv (added tb s ref payload)"
  unfolding added_def using assms
  by (intro append_row_inv locked_head_inv) (simp_all add: find_source_None)

lemma added_rows: "tb_sources (added tb s ref payload) = tb_sources tb @ [new_row tb s ref payload]"
  by (simp add: added_def append_row_def)

lemma added_frame [simp]:
  "tb_acceptances (added tb s ref p) = tb_acceptances tb" "tb_cursors (added tb s ref p) = tb_cursors tb"
  "tb_manifests (added tb s ref p) = tb_manifests tb"
  by (simp_all add: added_def append_row_def)

lemma added_journal:
  "journal_rows (added tb s ref payload) t = journal_rows tb t @ (if t = s then [new_row tb s ref payload] else [])"
  by (simp add: journal_rows_def added_rows)

lemma find_source_added:
  "find_source tb s ref = None \<Longrightarrow> find_source (added tb s ref payload) s ref = Some (new_row tb s ref payload)"
  by (simp add: find_source_def added_rows find_append)

lemma insert_at_head:
  assumes "tables_inv tb" "find_source tb s ref = None" "head_of tb s < max_int64"
  shows "\<exists>tb2. next_journal_position (locked_head tb s) s = Inr (head_of tb s + 1, tb2)
    \<and> insert_source tb2 (new_row tb s ref payload) = Some (added tb s ref payload)"
proof -
  have "\<exists>tb2. next_journal_position (locked_head tb s) s = Inr (row_position (new_row tb s ref payload), tb2)
      \<and> tb_sources tb2 = tb_sources (locked_head tb s)
      \<and> insert_source tb2 (new_row tb s ref payload) = Some (append_row (locked_head tb s) (new_row tb s ref payload))"
    using assms by (intro next_position_insert locked_head_inv) (simp_all add: find_source_None)
  then show ?thesis by (auto simp: added_def)
qed

lemma no_room: "tables_inv tb \<Longrightarrow> \<not> head_of tb s < max_int64 \<Longrightarrow>
    next_journal_position (locked_head tb s) s = Inl (InvalidStoredColumn ''journal_position'' ''a positive integer'')"
  by (simp add: next_journal_position_def)

text \<open>\<open>Add\<close> without its unreachable branches.\<close>

lemma add_source_eq:
  assumes "tables_inv tb" "require_scope s = Inr ()" "encode_source repo value = Inr (ref, payload)"
  shows "add_source env repo tb s value =
    (case find_source tb s ref of
       Some existing \<Rightarrow>
         (if row_payload existing \<noteq> payload
          then Inl (StoredPayloadConflict ''source'' (s @ ''/'' @ sr_type ref @ '':'' @ sr_id ref))
          else and_then (decode_source env repo (locked_head tb s) existing) (\<lambda>r. Inr (r, locked_head tb s)))
     | None \<Rightarrow>
         (if head_of tb s < max_int64
          then Inr (\<lparr>ss_ref = ref, ss_value = value, ss_position = head_of tb s + 1\<rparr>, added tb s ref payload)
          else Inl (InvalidStoredColumn ''journal_position'' ''a positive integer'')))"
proof -
  have f: "find_source (locked_head tb s) s ref = find_source tb s ref" by (simp add: find_source_def)
  show ?thesis
  proof (cases "find_source tb s ref")
    case None
    show ?thesis
    proof (cases "head_of tb s < max_int64")
      case True
      obtain tb2 where n: "next_journal_position (locked_head tb s) s = Inr (head_of tb s + 1, tb2)"
          "insert_source tb2 (new_row tb s ref payload) = Some (added tb s ref payload)"
        using insert_at_head [OF assms(1) None True] by blast
      show ?thesis
        using assms(2,3) lock_journal_head_ok [OF assms(1)] f None True n
        by (simp add: add_source_def Let_def new_row_def [symmetric])
    next
      case False
      then show ?thesis
        using assms(2,3) lock_journal_head_ok [OF assms(1)] f None no_room [OF assms(1) False]
        by (simp add: add_source_def Let_def)
    qed
  next
    case (Some r)
    then show ?thesis
      using assms(2,3) lock_journal_head_ok [OF assms(1)] f
      by (simp add: add_source_def Let_def same_stored_payload_def)
  qed
qed

lemma add_source_requires:
  assumes "add_source env repo tb s value = Inr r"
  shows "require_scope s = Inr ()" "\<exists>ref payload. encode_source repo value = Inr (ref, payload)"
  using assms by (auto simp: add_source_def res_simps)

text \<open>The two outcomes of a successful addition.\<close>

lemma add_source_cases:
  assumes "tables_inv tb" "add_source env repo tb s value = Inr (stored, tb')"
  obtains (existing) ref payload r where "encode_source repo value = Inr (ref, payload)"
      "find_source tb s ref = Some r" "row_payload r = payload" "tb' = locked_head tb s"
      "decode_source env repo (locked_head tb s) r = Inr stored"
  | (fresh) ref payload where "encode_source repo value = Inr (ref, payload)" "find_source tb s ref = None"
      "stored = \<lparr>ss_ref = ref, ss_value = value, ss_position = head_of tb s + 1\<rparr>" "tb' = added tb s ref payload"
      "head_of tb s < max_int64"
proof -
  obtain ref payload where e: "encode_source repo value = Inr (ref, payload)"
    using add_source_requires(2) [OF assms(2)] by blast
  note eq = add_source_eq [OF assms(1) add_source_requires(1) [OF assms(2)] e, of env]
  show thesis
  proof (cases "find_source tb s ref")
    case None
    then show thesis using assms(2) eq e by (intro fresh [of ref payload]) (auto split: if_splits)
  next
    case (Some r)
    then show thesis using assms(2) eq e by (intro existing [of ref payload r]) (auto simp: res_simps split: if_splits)
  qed
qed

lemma new_source_ref_fields: "new_source_ref t i = Inr x \<Longrightarrow> sr_type x = t \<and> sr_id x = i"
  by (simp add: new_source_ref_iff)

lemma decode_position:
  "decode_source env repo tb r = Inr st \<Longrightarrow> ss_position st = row_position r
     \<and> sr_type (ss_ref st) = row_type r \<and> sr_id (ss_ref st) = row_id r"
  by (auto simp: decode_source_def decode_native_def res_simps map_sum_eq_Inr dest: new_source_ref_fields
      split: envelope.splits if_splits option.splits sum.splits)

text \<open>C5: adding a Source keeps the journal gap-free and append-only: the tables stay well formed, rows of
  other Scopes are untouched, the Scope's journal is unchanged or extended by one row at the next
  position, and the reported position is that of the row stored under the Source's reference.\<close>

theorem add_source_journal:
  assumes "tables_inv tb" "add_source env repo tb s value = Inr (stored, tb')"
  shows "tables_inv tb' \<and> (\<forall>t. t \<noteq> s \<longrightarrow> journal_rows tb' t = journal_rows tb t)
    \<and> (journal_rows tb' s = journal_rows tb s
       \<or> (\<exists>r. journal_rows tb' s = journal_rows tb s @ [r] \<and> row_position r = int (length (journal_rows tb s)) + 1))
    \<and> (\<exists>r \<in> set (journal_rows tb' s). row_position r = ss_position stored
         \<and> row_type r = sr_type (ss_ref stored) \<and> row_id r = sr_id (ss_ref stored))"
  using assms
proof (cases rule: add_source_cases)
  case (existing ref payload r)
  have "r \<in> set (tb_sources tb)" "row_scope r = s"
    using find_source_Some [OF existing(2)] by (simp_all add: row_key_def)
  then have "r \<in> set (journal_rows tb' s)" by (simp add: existing(4)) (simp add: journal_rows_def)
  then show ?thesis
    using existing(4) locked_head_inv [OF assms(1)] decode_position [OF existing(5)] by auto
next
  case (fresh ref payload)
  then show ?thesis
    using added_inv [OF assms(1) fresh(2)] tables_invD(2) [OF assms(1), of s] by (auto simp: added_journal)
qed

text \<open>What the repository relies on from its codecs: decoding undoes encoding, and a native payload is not
  mistaken for the durable envelope.\<close>

definition codec_law :: "source_repository \<Rightarrow> bool" where
  "codec_law repo \<longleftrightarrow>
     (\<forall>t c. gm_get (sr_by_source repo) t = Some c \<longrightarrow> cd_type c = t \<and> gm_get (sr_by_name repo) (cd_name c) = Some c
       \<and> (\<forall>v b. sv_type v = t \<longrightarrow> cd_encode c v = Some b \<longrightarrow> cd_decode c b = Some v \<and> parse_source_envelope b = NotEnvelope))"

lemma encode_source_native:
  assumes "encode_source repo value = Inr (ref, payload)"
  obtains v c where "native_part value = Some v" "gm_get (sr_by_source repo) (sv_type v) = Some c"
    "new_source_ref (cd_name c) (sv_name v) = Inr ref" "cd_encode c v = Some payload" "sv_type v = cd_type c"
  using assms
  by (auto simp: encode_source_def repository_ref_def res_simps map_sum_eq_Inr
      split: product_value.splits option.splits if_splits)

lemma decode_stored_native:
  assumes "codec_law repo" "encode_source repo value = Inr (ref, payload)" "native_part value = Some v"
    and "r = \<lparr>row_scope = s, row_type = sr_type ref, row_id = sr_id ref, row_payload = payload, row_position = p\<rparr>"
    and "\<not> row_accepted tb r"
  shows "decode_source env repo tb r = Inr \<lparr>ss_ref = ref, ss_value = native_value v, ss_position = p\<rparr>"
proof -
  obtain c where c: "gm_get (sr_by_source repo) (sv_type v) = Some c" "new_source_ref (cd_name c) (sv_name v) = Inr ref"
      "cd_encode c v = Some payload"
    using assms(2,3) by (elim encode_source_native) auto
  have l: "gm_get (sr_by_name repo) (cd_name c) = Some c" "cd_decode c payload = Some v"
      "parse_source_envelope payload = NotEnvelope"
    using assms(1) c unfolding codec_law_def by blast+
  have f: "sr_type ref = cd_name c" "sr_id ref = sv_name v" using new_source_ref_fields [OF c(2)] by simp_all
  have "row_payload r = payload" "row_type r = cd_name c" "row_id r = sv_name v" "row_position r = p"
    using assms(4) f by simp_all
  then show ?thesis
    using assms(5) l c(2) by (simp add: decode_source_def decode_native_def)
qed

text \<open>Source capture is idempotent: storing the same native Source again finds the stored row, reports the
  same reference and position, and changes nothing.\<close>

theorem add_source_idempotent:
  assumes "tables_inv tb" "codec_law repo" "add_source env repo tb s value = Inr (stored, tb1)"
  shows "\<exists>again. add_source env repo tb1 s value = Inr (again, tb1)
    \<and> ss_ref again = ss_ref stored \<and> ss_position again = ss_position stored"
  using assms(1,3)
proof (cases rule: add_source_cases)
  case (existing ref payload r)
  have "find_source tb1 s ref = Some r" "locked_head tb1 s = tb1" "tables_inv tb1"
    using existing(2,4) locked_head_inv [OF assms(1)] by (simp_all add: find_source_def) (simp add: locked_head_def update_conv)
  then show ?thesis
    using add_source_eq [OF _ add_source_requires(1) [OF assms(3)] existing(1), of tb1 env] existing(3-5) by simp
next
  case (fresh ref payload)
  obtain v where v: "native_part value = Some v" using fresh(1) by (elim encode_source_native) auto
  note inv = added_inv [OF assms(1) fresh(2), of payload]
  have "gm_get (tb_heads tb1) s \<noteq> None" by (simp add: fresh(4) added_def append_row_def update_conv)
  then have same: "locked_head tb1 s = tb1" by (auto simp: locked_head_def)
  have "row_key (new_row tb s ref payload) \<notin> row_key ` set (tb_sources tb)"
    using fresh(2) by (simp add: find_source_None)
  then have na: "\<not> row_accepted tb1 (new_row tb s ref payload)"
    using tables_invD(4) [OF assms(1)] by (auto simp: row_accepted_def fresh(4) row_key_def)
  have "decode_source env repo tb1 (new_row tb s ref payload)
      = Inr \<lparr>ss_ref = ref, ss_value = native_value v, ss_position = head_of tb s + 1\<rparr>"
    using na by (intro decode_stored_native [OF assms(2) fresh(1) v]) (simp_all add: new_row_def)
  then show ?thesis
    using add_source_eq [OF inv add_source_requires(1) [OF assms(3)] fresh(1), of env] find_source_added [OF fresh(2)]
      same fresh(3,4) by simp
qed

section \<open>Accepted observations\<close>

text \<open>\<open>AddAccepted\<close> without its unreachable branches.\<close>

lemma add_accepted_eq:
  assumes "tables_inv tb" "require_scope s = Inr ()" "validate_observation admitted = Inr ()"
    and "admit_persisted_observation env tb admitted = Inr ob" "validate_observation ob = Inr ()"
    and "encode_source_observation ob = Inr payload"
  shows "add_accepted env repo tb s admitted =
    (case find_source tb s (so_ref ob) of
       Some existing \<Rightarrow>
         and_then (same_stored_payload (row_payload existing) payload True) (\<lambda>eq.
         if \<not> eq \<or> \<not> row_accepted tb existing then Inl observation_conflict
         else and_then (decode_source env repo (locked_head tb s) existing) (\<lambda>r. Inr (r, locked_head tb s)))
     | None \<Rightarrow>
         (if head_of tb s < max_int64
          then Inr (\<lparr>ss_ref = so_ref ob, ss_value = AcceptedValue ob, ss_position = head_of tb s + 1\<rparr>,
                 (added tb s (so_ref ob) payload)\<lparr>tb_acceptances :=
                    (s, sr_type (so_ref ob), sr_id (so_ref ob)) # tb_acceptances tb\<rparr>)
          else Inl (InvalidStoredColumn ''journal_position'' ''a positive integer'')))"
proof -
  have f: "find_source (locked_head tb s) s (so_ref ob) = find_source tb s (so_ref ob)" by (simp add: find_source_def)
  have acc: "row_accepted (locked_head tb s) r = row_accepted tb r" for r by (simp add: row_accepted_def)
  show ?thesis
  proof (cases "find_source tb s (so_ref ob)")
    case None
    have key: "(s, sr_type (so_ref ob), sr_id (so_ref ob)) \<notin> set (tb_acceptances tb)"
      using None tables_invD(4) [OF assms(1)] by (auto simp: find_source_None)
    show ?thesis
    proof (cases "head_of tb s < max_int64")
      case True
      obtain tb2 where n: "next_journal_position (locked_head tb s) s = Inr (head_of tb s + 1, tb2)"
          "insert_source tb2 (new_row tb s (so_ref ob) payload) = Some (added tb s (so_ref ob) payload)"
        using insert_at_head [OF assms(1) None True] by blast
      show ?thesis
        using assms(2-6) lock_journal_head_ok [OF assms(1)] f None True n key
        by (simp add: add_accepted_def Let_def new_row_def [symmetric] mark_accepted_def)
    next
      case False
      then show ?thesis
        using assms(2-6) lock_journal_head_ok [OF assms(1)] f None no_room [OF assms(1) False]
        by (simp add: add_accepted_def Let_def)
    qed
  next
    case (Some r)
    then show ?thesis
      using assms(2-6) lock_journal_head_ok [OF assms(1)] f acc by (simp add: add_accepted_def Let_def)
  qed
qed

lemma envelope_round_trip:
  assumes "encode_source_observation ob = Inr payload" "validate_observation ob = Inr ()"
  shows "\<exists>j. payload = Encoded j \<and> json_valid j \<and> parse_source_envelope payload = ObservationEnvelope ob"
proof -
  obtain j where j: "marshal_observation ob = Inr j"
      "payload = Encoded (JObj [(''encoding'', JStr envelope_encoding), (''representation'', JStr ''observation''), (''value'', j)])"
    using assms(1) by (auto simp: encode_source_observation_def res_simps)
  have p: "parse_source_observation j = Inr ob" "json_valid j"
    using observation_parse_marshal [OF assms(2) j(1)] by simp_all
  have "valid_utf8 envelope_encoding" by (simp add: envelope_encoding_def)
  then show ?thesis using j(2) p by (simp add: parse_source_envelope_def)
qed

lemma admit_persisted_same:
  assumes "admit_persisted_observation env tb ob = Inr ob'"
  shows "ob' = ob" "validate_observation ob = Inr ()"
  using assms
  by (auto simp: admit_persisted_observation_def res_simps map_sum_eq_Inr dest: admit_observationD(1)
      split: sum.splits option.splits)

lemma admit_persisted_cong:
  "tb_manifests tb' = tb_manifests tb \<Longrightarrow> admit_persisted_observation env tb' ob = admit_persisted_observation env tb ob"
proof -
  assume m: "tb_manifests tb' = tb_manifests tb"
  have "find_manifest env tb' n v = find_manifest env tb n v" for n v unfolding find_manifest_def m ..
  then show ?thesis unfolding admit_persisted_observation_def by presburger
qed

lemma add_accepted_requires:
  assumes "add_accepted env repo tb s ob = Inr r"
  shows "require_scope s = Inr ()" "validate_observation ob = Inr ()" "admit_persisted_observation env tb ob = Inr ob"
    "\<exists>payload. encode_source_observation ob = Inr payload"
  using assms
  by (auto simp: add_accepted_def res_simps map_sum_eq_Inr dest: admit_persisted_same(1))

lemma same_payload_meaning:
  assumes "same_stored_payload stored (Encoded j) True = Inr True" "json_valid j" "json_valid k"
    and "json_meaning k = json_meaning j"
  shows "same_stored_payload stored (Encoded k) True = Inr True"
proof -
  obtain ob l where e: "parse_source_envelope stored = ObservationEnvelope ob" "blob_json stored = Some l"
      "equal_json_values l j = Inr True"
    using assms(1) by (auto simp: same_stored_payload_def map_sum_eq_Inr split: envelope.splits option.splits)
  have "json_valid l" using e(3) by (rule contrapos_pp) (simp add: equal_json_values.simps)
  then have "equal_json_values l k = Inr True"
    using e(3) equal_json_sound(1) assms(2-4) by simp
  with e show ?thesis by (simp add: same_stored_payload_def)
qed

text \<open>Redelivery of an accepted observation is recognized by meaning: a second delivery whose JSON differs
  only in the spelling of numbers and the order of object members reports the reference and the journal
  position of the first one and adds nothing to the journal.\<close>

theorem accepted_redelivery:
  assumes "tables_inv tb" "add_accepted env repo tb s ob = Inr (stored, tb1)"
    and "encode_source_observation ob = Inr (Encoded j)" "encode_source_observation again = Inr (Encoded k)"
    and "json_meaning k = json_meaning j" "so_ref again = so_ref ob"
    and "admit_persisted_observation env tb again = Inr again"
  shows "\<exists>st. add_accepted env repo tb1 s again = Inr (st, tb1)
    \<and> ss_ref st = ss_ref stored \<and> ss_position st = ss_position stored"
proof -
  note r = add_accepted_requires [OF assms(2)]
  note eq = add_accepted_eq [OF assms(1) r(1) r(2) r(3) r(2) assms(3), of repo]
  have valid2: "validate_observation again = Inr ()" using admit_persisted_same(2) [OF assms(7)] .
  have env1: "parse_source_envelope (Encoded j) = ObservationEnvelope ob" and vj: "json_valid j"
    using envelope_round_trip [OF assms(3) r(2)] by auto
  have vk: "json_valid k" using envelope_round_trip [OF assms(4) valid2] by auto
  have again_eq: "add_accepted env repo tb1 s again =
      and_then (same_stored_payload (row_payload r') (Encoded k) True) (\<lambda>eq.
         if \<not> eq \<or> \<not> row_accepted tb1 r' then Inl observation_conflict
         else and_then (decode_source env repo tb1 r') (\<lambda>st. Inr (st, tb1)))"
    if "tables_inv tb1" "tb_manifests tb1 = tb_manifests tb" "find_source tb1 s (so_ref ob) = Some r'" "locked_head tb1 s = tb1" for r'
  proof -
    have "admit_persisted_observation env tb1 again = Inr again"
      using admit_persisted_cong [OF that(2)] assms(7) by simp
    from add_accepted_eq [OF that(1) r(1) valid2 this valid2 assms(4), of repo] show ?thesis
      using that(3) assms(6) unfolding that(4) by simp
  qed
  show ?thesis
  proof (cases "find_source tb s (so_ref ob)")
    case (Some r')
    have old: "same_stored_payload (row_payload r') (Encoded j) True = Inr True" "row_accepted tb r'"
        "decode_source env repo (locked_head tb s) r' = Inr stored" "tb1 = locked_head tb s"
      using assms(2) [unfolded eq] Some by (auto simp: res_simps split: if_splits)
    have "find_source tb1 s (so_ref ob) = Some r'" "locked_head tb1 s = tb1" "tables_inv tb1" "row_accepted tb1 r'"
      "tb_manifests tb1 = tb_manifests tb"
      using Some old(2,4) locked_head_inv [OF assms(1)]
      by (simp_all add: find_source_def row_accepted_def) (simp add: locked_head_def update_conv)
    then show ?thesis
      using again_eq same_payload_meaning [OF old(1) vj vk assms(5)] old(3,4) by simp
  next
    case None
    let ?acc = "(s, sr_type (so_ref ob), sr_id (so_ref ob)) # tb_acceptances tb"
    have new: "stored = \<lparr>ss_ref = so_ref ob, ss_value = AcceptedValue ob, ss_position = head_of tb s + 1\<rparr>"
        "tb1 = (added tb s (so_ref ob) (Encoded j))\<lparr>tb_acceptances := ?acc\<rparr>"
      using assms(2) [unfolded eq] None by (auto split: if_splits)
    let ?r = "new_row tb s (so_ref ob) (Encoded j)"
    have inv: "tables_inv tb1"
      using added_inv [OF assms(1) None, of "Encoded j"] new(2)
      by (auto simp: tables_inv_def added_rows new_row_simps(4))
    have f: "find_source tb1 s (so_ref ob) = Some ?r"
      using find_source_added [OF None] by (simp add: new(2) find_source_def)
    have lk: "locked_head tb1 s = tb1"
      by (auto simp: locked_head_def new(2) added_def append_row_def update_conv)
    have acc: "row_accepted tb1 ?r" by (simp add: row_accepted_def new(2))
    have man: "tb_manifests tb1 = tb_manifests tb" by (simp add: new(2))
    have wf: "wf_source_ref (so_ref ob)" using wf_observationD(3) r(2) by (simp add: wf_observation_def)
    then have "new_source_ref (row_type ?r) (row_id ?r) = Inr (so_ref ob)" by (simp add: new_source_ref_iff)
    then have dec: "decode_source env repo tb1 ?r
        = Inr \<lparr>ss_ref = so_ref ob, ss_value = AcceptedValue ob, ss_position = head_of tb s + 1\<rparr>"
      using env1 acc r(2,3) admit_persisted_cong [OF man] by (simp add: decode_source_def)
    have "same_stored_payload (Encoded j) (Encoded j) True = Inr True"
      using env1 vj equal_json_sound(1) [of j j] by (simp add: same_stored_payload_def)
    then have "same_stored_payload (Encoded j) (Encoded k) True = Inr True"
      by (rule same_payload_meaning [OF _ vj vk assms(5)])
    then show ?thesis using again_eq [OF inv man f lk] acc dec new(1) by simp
  qed
qed

end
