(* ===== verification/Compare_And_Set.thy ===== *)
theory Compare_And_Set
  imports Go_Prelude
begin

text \<open>
  The contract of optimistic writes. Two stores of the program serialize their writers this way: the
  heads of Artifacts (\<open>internal/sqlstore/artifacts.go\<close>) and the Source cursors
  (\<open>internal/sqlstore/cursors.go\<close>). A write names the version it read; it succeeds only if that is still
  the stored version and then stores the next one. The locale derives what a client may rely on for
  any order of transactions: a version number counts the successful writes, and of all writers that
  read the same version at most one succeeds.
\<close>

definition version_number :: "int option \<Rightarrow> int" where
  "version_number x = (case x of None \<Rightarrow> 0 | Some n \<Rightarrow> n)"

definition next_version :: "int option \<Rightarrow> int" where
  "next_version x = version_number x + 1"

text \<open>Transactions one after the other: a failing one is rolled back.\<close>

fun run_puts :: "('t \<Rightarrow> 'k \<Rightarrow> int option \<Rightarrow> 'v \<Rightarrow> 'e + 't) \<Rightarrow> 't \<Rightarrow> ('k \<times> int option \<times> 'v) list \<Rightarrow> 't \<times> bool list" where
  "run_puts put t [] = (t, [])"
| "run_puts put t ((k, x, v) # ws) = (case put t k x v of
     Inl _ \<Rightarrow> (let (t', rs) = run_puts put t ws in (t', False # rs))
   | Inr t1 \<Rightarrow> (let (t', rs) = run_puts put t1 ws in (t', True # rs)))"

text \<open>How many of the transactions that match succeeded.\<close>

fun wins :: "('k \<times> int option \<times> 'v \<Rightarrow> bool) \<Rightarrow> ('k \<times> int option \<times> 'v) list \<Rightarrow> bool list \<Rightarrow> nat" where
  "wins P (w # ws) (r # rs) = (if P w \<and> r then 1 else 0) + wins P ws rs"
| "wins P _ _ = 0"

locale compare_and_set =
  fixes inv :: "'t \<Rightarrow> bool"
    and version :: "'t \<Rightarrow> 'k \<Rightarrow> int option"
    and put :: "'t \<Rightarrow> 'k \<Rightarrow> int option \<Rightarrow> 'v \<Rightarrow> 'e + 't"
  assumes put_inv: "inv t \<Longrightarrow> put t k x v = Inr t' \<Longrightarrow> inv t'"
    and put_expects: "inv t \<Longrightarrow> put t k x v = Inr t' \<Longrightarrow> version t k = x"
    and put_advances: "inv t \<Longrightarrow> put t k x v = Inr t' \<Longrightarrow>
      version t' k' = (if k' = k then Some (next_version x) else version t k')"
begin

lemma run_puts_inv: "inv t \<Longrightarrow> inv (fst (run_puts put t ws))"
proof (induction ws arbitrary: t)
  case (Cons w ws)
  then show ?case by (cases w) (auto simp: case_prod_beta Let_def dest: put_inv split: sum.splits)
qed simp

text \<open>The version counts the successful writes.\<close>

lemma version_counts:
  "inv t \<Longrightarrow> version_number (version (fst (run_puts put t ws)) k)
     = version_number (version t k) + int (wins (\<lambda>w. fst w = k) ws (snd (run_puts put t ws)))"
proof (induction ws arbitrary: t)
  case (Cons w ws)
  obtain k' x v where w: "w = (k', x, v)" by (cases w)
  show ?case
  proof (cases "put t k' x v")
    case (Inl e)
    with w Cons show ?thesis by (simp add: case_prod_beta Let_def)
  next
    case (Inr t1)
    have "version_number (version t1 k) = version_number (version t k) + (if k' = k then 1 else 0)"
      using put_advances [OF Cons.prems Inr, of k] put_expects [OF Cons.prems Inr]
      by (auto simp: next_version_def version_number_def)
    with Inr w Cons.IH [OF put_inv [OF Cons.prems Inr]] show ?thesis by (simp add: case_prod_beta Let_def)
  qed
qed simp

lemma version_mono: "inv t \<Longrightarrow> version_number (version t k) \<le> version_number (version (fst (run_puts put t ws)) k)"
  using version_counts [of t ws k] by simp

lemma late_loses:
  "inv t \<Longrightarrow> version_number x < version_number (version t k) \<Longrightarrow>
     wins (\<lambda>w. fst w = k \<and> fst (snd w) = x) ws (snd (run_puts put t ws)) = 0"
proof (induction ws arbitrary: t)
  case (Cons w ws)
  obtain k' y v where w: "w = (k', y, v)" by (cases w)
  show ?case
  proof (cases "put t k' y v")
    case (Inl e)
    with w Cons show ?thesis by (simp add: case_prod_beta Let_def)
  next
    case (Inr t1)
    have "version_number (version t k) \<le> version_number (version t1 k)"
      using put_advances [OF Cons.prems(1) Inr, of k] put_expects [OF Cons.prems(1) Inr]
      by (auto simp: next_version_def version_number_def)
    then have "wins (\<lambda>w. fst w = k \<and> fst (snd w) = x) ws (snd (run_puts put t1 ws)) = 0"
      using Cons.IH [OF put_inv [OF Cons.prems(1) Inr]] Cons.prems(2) by simp
    moreover have "\<not> (k' = k \<and> y = x)" using put_expects [OF Cons.prems(1) Inr] Cons.prems(2) by auto
    ultimately show ?thesis using Inr w by (auto simp: case_prod_beta Let_def)
  qed
qed simp

text \<open>At most one writer per version read.\<close>

lemma single_winner:
  "inv t \<Longrightarrow> wins (\<lambda>w. fst w = k \<and> fst (snd w) = x) ws (snd (run_puts put t ws)) \<le> 1"
proof (induction ws arbitrary: t)
  case (Cons w ws)
  obtain k' y v where w: "w = (k', y, v)" by (cases w)
  show ?case
  proof (cases "put t k' y v")
    case (Inl e)
    with w Cons show ?thesis by (simp add: case_prod_beta Let_def)
  next
    case (Inr t1)
    note inv1 = put_inv [OF Cons.prems Inr]
    show ?thesis
    proof (cases "k' = k \<and> y = x")
      case True
      then have "version_number x < version_number (version t1 k)"
        using put_advances [OF Cons.prems Inr, of k] by (simp add: next_version_def version_number_def)
      with late_loses [OF inv1] True Inr w show ?thesis by (simp add: case_prod_beta Let_def)
    next
      case False
      with Cons.IH [OF inv1] Inr w show ?thesis by (auto simp: case_prod_beta Let_def)
    qed
  qed
qed simp

end

end
