(* ===== verification/Artifact_Store.thy ===== *)
theory Artifact_Store
  imports Source_Store Compare_And_Set
begin

text \<open>
  The relational Artifact store (\<open>internal/sqlstore/artifacts.go\<close>, \<open>artifact_codec.go\<close>): immutable
  revisions, the head row that is compared and set on every revision, and ordered lineage. One record
  holds the four tables; primary keys and foreign keys of the schema are part of the insert
  operations, and a failing operation leaves the tables of its caller's transaction unchanged. A codec
  is a constructor argument of the repository: the family it routes, the content types it accepts, and
  its two functions. The predicate \<open>has_source\<close> is the foreign key into the Sources of the Scope.
\<close>

section \<open>Tables and codecs\<close>

record artifact_row =
  aw_scope :: string
  aw_ref :: artifact_ref
  aw_content :: string

record artifact_head =
  ah_scope :: string
  ah_family :: string
  ah_id :: string
  ah_revision :: int

record lineage_source_row =
  ls_scope :: string
  ls_ref :: artifact_ref
  ls_ordinal :: nat
  ls_source :: source_ref

record lineage_artifact_row =
  la_scope :: string
  la_ref :: artifact_ref
  la_ordinal :: nat
  la_upstream :: artifact_ref

record artifact_tables =
  at_rows :: "artifact_row list"
  at_heads :: "artifact_head list"
  at_lsources :: "lineage_source_row list"
  at_lartifacts :: "lineage_artifact_row list"

definition no_artifacts :: artifact_tables where
  "no_artifacts = \<lparr>at_rows = [], at_heads = [], at_lsources = [], at_lartifacts = []\<rparr>"

record 'c artifact_codec =
  ac_family :: string
  ac_types :: "string list"
  ac_encode :: "'c \<Rightarrow> string option"
  ac_decode :: "string \<Rightarrow> 'c option"

record 'c artifact_repository =
  ar_by_family :: "(string, 'c artifact_codec) gomap"
  ar_type_of :: "'c \<Rightarrow> string"

fun add_artifact_codecs ::
  "'c artifact_codec list \<Rightarrow> 'c artifact_repository \<Rightarrow> store_error + 'c artifact_repository" where
  "add_artifact_codecs [] repo = Inr repo"
| "add_artifact_codecs (c # cs) repo =
     (case gm_get (ar_by_family repo) (ac_family c) of
        Some _ \<Rightarrow> Inl (CodecConflict ''artifact family'' (ac_family c))
      | None \<Rightarrow> add_artifact_codecs cs (repo\<lparr>ar_by_family := gm_set (ac_family c) c (ar_by_family repo)\<rparr>))"

definition new_artifact_repository ::
  "string \<Rightarrow> ('c \<Rightarrow> string) \<Rightarrow> 'c artifact_codec list \<Rightarrow> store_error + 'c artifact_repository" where
  "new_artifact_repository dialect type_of codecs =
     and_then (check (dialect = ''sqlite'' \<or> dialect = ''mysql'')
       (InvalidArgument ''dialect'' ''unsupported dialect'')) (\<lambda>_.
     add_artifact_codecs codecs \<lparr>ar_by_family = [], ar_type_of = type_of\<rparr>)"

definition supports_content :: "'c artifact_repository \<Rightarrow> 'c artifact_codec \<Rightarrow> 'c \<Rightarrow> bool" where
  "supports_content repo codec content \<longleftrightarrow> ar_type_of repo content \<in> set (ac_types codec)"

definition codec_for_draft :: "'c artifact_repository \<Rightarrow> 'c draft \<Rightarrow> store_error + 'c artifact_codec" where
  "codec_for_draft repo d = (case gm_get (ar_by_family repo) (dr_family d) of
     None \<Rightarrow> Inl (RepositoryNotFound ''artifact-family'' (dr_family d))
   | Some codec \<Rightarrow>
      (if \<not> supports_content repo codec (dr_content d)
       then Inl (StoreArtifact (ArtFamilyMismatch (ac_family codec) (dr_family d)))
       else Inr codec))"

section \<open>Rows\<close>

definition find_artifact_row :: "artifact_tables \<Rightarrow> string \<Rightarrow> artifact_ref \<Rightarrow> artifact_row option" where
  "find_artifact_row tb scope_id ref = find (\<lambda>r. aw_scope r = scope_id \<and> aw_ref r = ref) (at_rows tb)"

definition find_head :: "artifact_tables \<Rightarrow> string \<Rightarrow> string \<Rightarrow> string \<Rightarrow> int option" where
  "find_head tb scope_id family artifact_id = map_option ah_revision
     (find (\<lambda>h. ah_scope h = scope_id \<and> ah_family h = family \<and> ah_id h = artifact_id) (at_heads tb))"

fun insert_lineage_sources ::
  "(string \<Rightarrow> source_ref \<Rightarrow> bool) \<Rightarrow> string \<Rightarrow> artifact_ref \<Rightarrow> nat \<Rightarrow> source_ref list
    \<Rightarrow> artifact_tables \<Rightarrow> store_error + artifact_tables" where
  "insert_lineage_sources has_source scope_id ref ordinal [] tb = Inr tb"
| "insert_lineage_sources has_source scope_id ref ordinal (s # ss) tb =
     (if \<not> has_source scope_id s
         \<or> list_ex (\<lambda>r. ls_scope r = scope_id \<and> ls_ref r = ref \<and> ls_ordinal r = ordinal) (at_lsources tb)
      then Inl (ConstraintFailed ''pc_artifact_lineage_sources'')
      else insert_lineage_sources has_source scope_id ref (Suc ordinal) ss
        (tb\<lparr>at_lsources := at_lsources tb @
          [\<lparr>ls_scope = scope_id, ls_ref = ref, ls_ordinal = ordinal, ls_source = s\<rparr>]\<rparr>))"

fun insert_lineage_artifacts ::
  "string \<Rightarrow> artifact_ref \<Rightarrow> nat \<Rightarrow> artifact_ref list \<Rightarrow> artifact_tables \<Rightarrow> store_error + artifact_tables" where
  "insert_lineage_artifacts scope_id ref ordinal [] tb = Inr tb"
| "insert_lineage_artifacts scope_id ref ordinal (u # us) tb =
     (if find_artifact_row tb scope_id u = None
         \<or> list_ex (\<lambda>r. la_scope r = scope_id \<and> la_ref r = ref \<and> la_ordinal r = ordinal) (at_lartifacts tb)
      then Inl (ConstraintFailed ''pc_artifact_lineage_artifacts'')
      else insert_lineage_artifacts scope_id ref (Suc ordinal) us
        (tb\<lparr>at_lartifacts := at_lartifacts tb @
          [\<lparr>la_scope = scope_id, la_ref = ref, la_ordinal = ordinal, la_upstream = u\<rparr>]\<rparr>))"

definition load_lineage :: "artifact_tables \<Rightarrow> string \<Rightarrow> artifact_ref \<Rightarrow> artifact_error + lineage" where
  "load_lineage tb scope_id ref =
     and_then (map_res (\<lambda>r. map_sum ArtSource id (new_source_ref (sr_type (ls_source r)) (sr_id (ls_source r))))
       (sort_key ls_ordinal (filter (\<lambda>r. ls_scope r = scope_id \<and> ls_ref r = ref) (at_lsources tb)))) (\<lambda>sources.
     and_then (map_res (\<lambda>r. new_artifact_ref (ar_family (la_upstream r)) (ar_id (la_upstream r)) (ar_revision (la_upstream r)))
       (sort_key la_ordinal (filter (\<lambda>r. la_scope r = scope_id \<and> la_ref r = ref) (at_lartifacts tb)))) (\<lambda>artifacts.
     new_lineage sources artifacts))"

text \<open>\<open>codec.decode\<close>: decode the payload, then \<open>artifact.Restore\<close>.\<close>

definition codec_decode ::
  "'c artifact_codec \<Rightarrow> artifact_ref \<Rightarrow> lineage \<Rightarrow> string \<Rightarrow> store_error + 'c artifact" where
  "codec_decode codec ref lin payload = (case ac_decode codec payload of
     None \<Rightarrow> Inl (InvalidStoredPayload ''artifact'' (ac_family codec) ''payload does not match the model'')
   | Some content \<Rightarrow>
      (case restore_artifact ref content lin of
         Inl _ \<Rightarrow> Inl (InvalidStoredPayload ''artifact'' (ac_family codec) ''payload does not match the model'')
       | Inr a \<Rightarrow> if a_ref a \<noteq> ref then Inl (IdentityMismatch ''artifact'') else Inr a))"

definition insert_revision ::
  "(string \<Rightarrow> source_ref \<Rightarrow> bool) \<Rightarrow> artifact_tables \<Rightarrow> string \<Rightarrow> 'c artifact_codec \<Rightarrow> artifact_ref \<Rightarrow> 'c \<Rightarrow> lineage
    \<Rightarrow> store_error + 'c artifact \<times> artifact_tables" where
  "insert_revision has_source tb scope_id codec ref content lin = (case ac_encode codec content of
     None \<Rightarrow> Inl (InvalidStoredPayload ''artifact'' (ac_family codec) ''value is not JSON serializable'')
   | Some payload \<Rightarrow>
      and_then (check (find_artifact_row tb scope_id ref = None) (ConstraintFailed ''pc_artifacts'')) (\<lambda>_.
      and_then (insert_lineage_sources has_source scope_id ref 0 (li_sources lin)
        (tb\<lparr>at_rows := at_rows tb @ [\<lparr>aw_scope = scope_id, aw_ref = ref, aw_content = payload\<rparr>]\<rparr>)) (\<lambda>tb1.
      and_then (insert_lineage_artifacts scope_id ref 0 (li_artifacts lin) tb1) (\<lambda>tb2.
      and_then (codec_decode codec ref lin payload) (\<lambda>created. Inr (created, tb2))))))"

definition insert_head :: "artifact_tables \<Rightarrow> string \<Rightarrow> artifact_ref \<Rightarrow> store_error + artifact_tables" where
  "insert_head tb scope_id ref =
     (if find_head tb scope_id (ar_family ref) (ar_id ref) \<noteq> None \<or> find_artifact_row tb scope_id ref = None
         \<or> ar_revision ref \<le> 0
      then Inl (ConstraintFailed ''pc_artifact_heads'')
      else Inr (tb\<lparr>at_heads := at_heads tb @ [\<lparr>ah_scope = scope_id, ah_family = ar_family ref,
             ah_id = ar_id ref, ah_revision = ar_revision ref\<rparr>]\<rparr>))"

section \<open>Operations\<close>

fun is_integrity_constraint :: "store_error \<Rightarrow> bool" where
  "is_integrity_constraint (ConstraintFailed t) = True"
| "is_integrity_constraint _ = False"

text \<open>\<open>normalizeCreateIntegrity\<close> reads the head as the failing statement left it, which no statement of
  a failing create changes.\<close>

definition normalize_create_integrity ::
  "artifact_tables \<Rightarrow> string \<Rightarrow> artifact_ref \<Rightarrow> store_error \<Rightarrow> store_error" where
  "normalize_create_integrity tb scope_id requested cause =
     (if \<not> is_integrity_constraint cause then cause
      else case find_head tb scope_id (ar_family requested) (ar_id requested) of
        None \<Rightarrow> cause
      | Some revision \<Rightarrow>
         (case new_artifact_ref (ar_family requested) (ar_id requested) revision of
            Inl e \<Rightarrow> StoreArtifact e
          | Inr current \<Rightarrow> StoreArtifact (ArtRevisionConflict requested current)))"

definition create_artifact ::
  "(string \<Rightarrow> source_ref \<Rightarrow> bool) \<Rightarrow> 'c artifact_repository \<Rightarrow> artifact_tables \<Rightarrow> string \<Rightarrow> string \<Rightarrow> 'c draft
    \<Rightarrow> store_error + 'c artifact \<times> artifact_tables" where
  "create_artifact has_source repo tb scope_id artifact_id d =
     and_then (require_scope scope_id) (\<lambda>_.
     and_then (codec_for_draft repo d) (\<lambda>codec.
     and_then (map_sum StoreArtifact id (new_artifact_ref (dr_family d) artifact_id 1)) (\<lambda>ref.
     map_sum (normalize_create_integrity tb scope_id ref) id
       (and_then (insert_revision has_source tb scope_id codec ref (dr_content d) (dr_lineage d)) (\<lambda>(created, tb1).
        and_then (insert_head tb1 scope_id ref) (\<lambda>tb2. Inr (created, tb2)))))))"

definition head_matches :: "string \<Rightarrow> artifact_ref \<Rightarrow> artifact_head \<Rightarrow> bool" where
  "head_matches scope_id ref h \<longleftrightarrow> ah_scope h = scope_id \<and> ah_family h = ar_family ref \<and> ah_id h = ar_id ref
     \<and> ah_revision h = ar_revision ref"

text \<open>The two conditional updates of the head: the first one only takes the row lock.\<close>

definition update_head :: "artifact_tables \<Rightarrow> string \<Rightarrow> artifact_ref \<Rightarrow> int \<Rightarrow> nat \<times> artifact_tables" where
  "update_head tb scope_id ref revision =
     (length (filter (head_matches scope_id ref) (at_heads tb)),
      tb\<lparr>at_heads := map (\<lambda>h. if head_matches scope_id ref h then h\<lparr>ah_revision := revision\<rparr> else h) (at_heads tb)\<rparr>)"

definition revise_artifact ::
  "(string \<Rightarrow> source_ref \<Rightarrow> bool) \<Rightarrow> 'c artifact_repository \<Rightarrow> artifact_tables \<Rightarrow> string \<Rightarrow> 'c artifact \<Rightarrow> 'c draft
    \<Rightarrow> store_error + 'c artifact \<times> artifact_tables" where
  "revise_artifact has_source repo tb scope_id current d =
     (let ref = a_ref current;
          mismatch = StoreArtifact (ArtFamilyMismatch (ar_family ref) (dr_family d)) in
      and_then (require_scope scope_id) (\<lambda>_.
      and_then (check (ar_family ref = dr_family d) mismatch) (\<lambda>_.
      and_then (codec_for_draft repo d) (\<lambda>codec.
      and_then (check (supports_content repo codec (a_content current) \<and> supports_content repo codec (dr_content d)
          \<and> ar_type_of repo (a_content current) = ar_type_of repo (dr_content d)) mismatch) (\<lambda>_.
      and_then (map_sum StoreArtifact id (validate_artifact_ref ref)) (\<lambda>_.
      let (_, tb0) = update_head tb scope_id ref (ar_revision ref) in
      case find_head tb0 scope_id (ar_family ref) (ar_id ref) of
        None \<Rightarrow> Inl (RepositoryNotFound ''artifact'' (scope_id @ ''/'' @ artifact_ref_string ref))
      | Some locked \<Rightarrow>
         (if locked \<noteq> ar_revision ref then
            (case new_artifact_ref (ar_family ref) (ar_id ref) locked of
               Inl e \<Rightarrow> Inl (StoreArtifact e)
             | Inr latest \<Rightarrow> Inl (StoreArtifact (ArtRevisionConflict ref latest)))
          else
            and_then (map_sum StoreArtifact id
              (new_artifact_ref (ar_family ref) (ar_id ref) (wrap64 (ar_revision ref + 1)))) (\<lambda>next_ref.
            and_then (insert_revision has_source tb0 scope_id codec next_ref (dr_content d) (dr_lineage d)) (\<lambda>(revised, tb1).
            let (affected, tb2) = update_head tb1 scope_id ref (ar_revision next_ref) in
            if affected \<noteq> 1 then Inl (StoreArtifact (ArtRevisionConflict ref next_ref))
            else Inr (revised, tb2))))))))))"

definition decode_artifact_row ::
  "'c artifact_repository \<Rightarrow> artifact_tables \<Rightarrow> artifact_row \<Rightarrow> store_error + 'c artifact" where
  "decode_artifact_row repo tb row = (case gm_get (ar_by_family repo) (ar_family (aw_ref row)) of
     None \<Rightarrow> Inl (RepositoryNotFound ''artifact-family'' (ar_family (aw_ref row)))
   | Some codec \<Rightarrow>
      and_then (map_sum StoreArtifact id (validate_artifact_ref (aw_ref row))) (\<lambda>_.
      and_then (map_sum StoreArtifact id (load_lineage tb (aw_scope row) (aw_ref row))) (\<lambda>lin.
      codec_decode codec (aw_ref row) lin (aw_content row))))"

definition get_artifact ::
  "'c artifact_repository \<Rightarrow> artifact_tables \<Rightarrow> string \<Rightarrow> artifact_ref \<Rightarrow> store_error + 'c artifact" where
  "get_artifact repo tb scope_id ref =
     and_then (require_scope scope_id) (\<lambda>_.
     and_then (map_sum StoreArtifact id (validate_artifact_ref ref)) (\<lambda>_.
     case find_artifact_row tb scope_id ref of
       None \<Rightarrow> Inl (RepositoryNotFound ''artifact'' (scope_id @ ''/'' @ artifact_ref_string ref))
     | Some row \<Rightarrow> decode_artifact_row repo tb row))"

definition latest_artifact ::
  "'c artifact_repository \<Rightarrow> artifact_tables \<Rightarrow> string \<Rightarrow> string \<Rightarrow> string \<Rightarrow> store_error + 'c artifact" where
  "latest_artifact repo tb scope_id family artifact_id =
     and_then (require_scope scope_id) (\<lambda>_.
     and_then (map_sum StoreArtifact id (new_artifact_ref family artifact_id 1)) (\<lambda>_.
     case find_head tb scope_id family artifact_id of
       None \<Rightarrow> Inl (RepositoryNotFound ''artifact'' (scope_id @ ''/'' @ family @ '':'' @ artifact_id))
     | Some revision \<Rightarrow>
        and_then (map_sum StoreArtifact id (new_artifact_ref family artifact_id revision)) (\<lambda>ref.
        get_artifact repo tb scope_id ref)))"

definition revision_rows :: "artifact_tables \<Rightarrow> string \<Rightarrow> string \<Rightarrow> string \<Rightarrow> artifact_row list" where
  "revision_rows tb scope_id family artifact_id = filter (\<lambda>r. aw_scope r = scope_id
     \<and> ar_family (aw_ref r) = family \<and> ar_id (aw_ref r) = artifact_id) (at_rows tb)"

definition artifact_revisions ::
  "'c artifact_repository \<Rightarrow> artifact_tables \<Rightarrow> string \<Rightarrow> string \<Rightarrow> string \<Rightarrow> store_error + 'c artifact list" where
  "artifact_revisions repo tb scope_id family artifact_id =
     and_then (require_scope scope_id) (\<lambda>_.
     and_then (map_sum StoreArtifact id (new_artifact_ref family artifact_id 1)) (\<lambda>_.
     map_res (decode_artifact_row repo tb)
       (sort_key (\<lambda>r. ar_revision (aw_ref r)) (revision_rows tb scope_id family artifact_id))))"

section \<open>What a write inserts\<close>

fun source_rows :: "string \<Rightarrow> artifact_ref \<Rightarrow> nat \<Rightarrow> source_ref list \<Rightarrow> lineage_source_row list" where
  "source_rows scope_id ref ordinal [] = []"
| "source_rows scope_id ref ordinal (s # ss) =
     \<lparr>ls_scope = scope_id, ls_ref = ref, ls_ordinal = ordinal, ls_source = s\<rparr> # source_rows scope_id ref (Suc ordinal) ss"

fun upstream_rows :: "string \<Rightarrow> artifact_ref \<Rightarrow> nat \<Rightarrow> artifact_ref list \<Rightarrow> lineage_artifact_row list" where
  "upstream_rows scope_id ref ordinal [] = []"
| "upstream_rows scope_id ref ordinal (u # us) =
     \<lparr>la_scope = scope_id, la_ref = ref, la_ordinal = ordinal, la_upstream = u\<rparr> # upstream_rows scope_id ref (Suc ordinal) us"

lemma source_rows_facts:
  "map ls_ordinal (source_rows s r k ss) = [k..<k + length ss]" "map ls_source (source_rows s r k ss) = ss"
  "x \<in> set (source_rows s r k ss) \<Longrightarrow> ls_scope x = s \<and> ls_ref x = r"
  by (induction ss arbitrary: k) (auto simp: upt_conv_Cons simp del: upt_Suc)

lemma upstream_rows_facts:
  "map la_ordinal (upstream_rows s r k us) = [k..<k + length us]" "map la_upstream (upstream_rows s r k us) = us"
  "x \<in> set (upstream_rows s r k us) \<Longrightarrow> la_scope x = s \<and> la_ref x = r"
  by (induction us arbitrary: k) (auto simp: upt_conv_Cons simp del: upt_Suc)

lemma insert_lineage_sources_Inr:
  "insert_lineage_sources hs s r k ss tb = Inr tb' \<Longrightarrow>
     tb' = tb\<lparr>at_lsources := at_lsources tb @ source_rows s r k ss\<rparr>"
  by (induction hs s r k ss tb rule: insert_lineage_sources.induct) (auto split: if_splits)

lemma insert_lineage_artifacts_Inr:
  "insert_lineage_artifacts s r k us tb = Inr tb' \<Longrightarrow>
     tb' = tb\<lparr>at_lartifacts := at_lartifacts tb @ upstream_rows s r k us\<rparr>"
  by (induction s r k us tb rule: insert_lineage_artifacts.induct) (auto split: if_splits)

text \<open>The tables after the revision \<open>ref\<close> with this payload and lineage was appended.\<close>

definition appended :: "artifact_tables \<Rightarrow> string \<Rightarrow> artifact_ref \<Rightarrow> string \<Rightarrow> lineage \<Rightarrow> artifact_tables" where
  "appended tb scope_id ref payload lin = tb\<lparr>
     at_rows := at_rows tb @ [\<lparr>aw_scope = scope_id, aw_ref = ref, aw_content = payload\<rparr>],
     at_lsources := at_lsources tb @ source_rows scope_id ref 0 (li_sources lin),
     at_lartifacts := at_lartifacts tb @ upstream_rows scope_id ref 0 (li_artifacts lin)\<rparr>"

lemma insert_revision_Inr:
  assumes "insert_revision hs tb s codec ref content lin = Inr (a, tb')"
  obtains payload where "ac_encode codec content = Some payload" "find_artifact_row tb s ref = None"
    "codec_decode codec ref lin payload = Inr a" "tb' = appended tb s ref payload lin"
proof -
  obtain payload where p: "ac_encode codec content = Some payload"
    using assms by (auto simp: insert_revision_def split: option.splits)
  with assms obtain tb1 tb2 where t: "find_artifact_row tb s ref = None"
      "insert_lineage_sources hs s ref 0 (li_sources lin)
        (tb\<lparr>at_rows := at_rows tb @ [\<lparr>aw_scope = s, aw_ref = ref, aw_content = payload\<rparr>]\<rparr>) = Inr tb1"
      "insert_lineage_artifacts s ref 0 (li_artifacts lin) tb1 = Inr tb2"
      "codec_decode codec ref lin payload = Inr a" "tb' = tb2"
    by (auto simp: insert_revision_def res_simps)
  have "tb' = appended tb s ref payload lin"
    unfolding t(5) insert_lineage_artifacts_Inr [OF t(3)] insert_lineage_sources_Inr [OF t(2)]
    by (simp add: appended_def)
  with p t show thesis using that by blast
qed

lemma appended_simps [simp]:
  "at_rows (appended tb s r p l) = at_rows tb @ [\<lparr>aw_scope = s, aw_ref = r, aw_content = p\<rparr>]"
  "at_heads (appended tb s r p l) = at_heads tb"
  "find_head (appended tb s r p l) = find_head tb"
  by (simp_all add: appended_def find_head_def fun_eq_iff)

lemma revision_rows_appended:
  "revision_rows (appended tb s r p l) s' f i = revision_rows tb s' f i @
     (if s' = s \<and> f = ar_family r \<and> i = ar_id r then [\<lparr>aw_scope = s, aw_ref = r, aw_content = p\<rparr>] else [])"
  by (auto simp: revision_rows_def)

lemma revision_rows_heads [simp]: "revision_rows (tb\<lparr>at_heads := h\<rparr>) = revision_rows tb"
  by (simp add: revision_rows_def fun_eq_iff)

section \<open>Invariant\<close>

text \<open>The revisions of every Artifact were appended as 1, 2, 3 and so on, its head holds their number,
  heads are unique, and lineage rows belong to stored revisions.\<close>

definition head_key :: "artifact_head \<Rightarrow> string \<times> string \<times> string" where
  "head_key h = (ah_scope h, ah_family h, ah_id h)"

definition artifacts_inv :: "artifact_tables \<Rightarrow> bool" where
  "artifacts_inv tb \<longleftrightarrow>
     (\<forall>s f i. map (ar_revision \<circ> aw_ref) (revision_rows tb s f i) = positions (length (revision_rows tb s f i)))
     \<and> (\<forall>s f i. find_head tb s f i = (if revision_rows tb s f i = [] then None
           else Some (int (length (revision_rows tb s f i)))))
     \<and> distinct (map head_key (at_heads tb))
     \<and> list_all (\<lambda>x. find_artifact_row tb (ls_scope x) (ls_ref x) \<noteq> None) (at_lsources tb)
     \<and> list_all (\<lambda>x. find_artifact_row tb (la_scope x) (la_ref x) \<noteq> None) (at_lartifacts tb)"

lemma artifacts_invD:
  assumes "artifacts_inv tb"
  shows "map (ar_revision \<circ> aw_ref) (revision_rows tb s f i) = positions (length (revision_rows tb s f i))"
    "find_head tb s f i = (if revision_rows tb s f i = [] then None else Some (int (length (revision_rows tb s f i))))"
    "distinct (map head_key (at_heads tb))"
    "x \<in> set (at_lsources tb) \<Longrightarrow> find_artifact_row tb (ls_scope x) (ls_ref x) \<noteq> None"
    "y \<in> set (at_lartifacts tb) \<Longrightarrow> find_artifact_row tb (la_scope y) (la_ref y) \<noteq> None"
  using assms by (auto simp: artifacts_inv_def list_all_iff)

lemma artifacts_inv_empty: "artifacts_inv no_artifacts"
  by (simp add: artifacts_inv_def no_artifacts_def revision_rows_def positions_def find_head_def)

lemma find_artifact_row_append:
  "find_artifact_row (appended tb s r p l) s' r' = (case find_artifact_row tb s' r' of
     Some x \<Rightarrow> Some x | None \<Rightarrow> if s' = s \<and> r' = r then Some \<lparr>aw_scope = s, aw_ref = r, aw_content = p\<rparr> else None)"
  by (auto simp: find_artifact_row_def find_append split: option.splits)

lemma find_artifact_row_heads [simp]: "find_artifact_row (tb\<lparr>at_heads := h\<rparr>) = find_artifact_row tb"
  by (simp add: find_artifact_row_def fun_eq_iff)

lemma find_head_append:
  "find_head (tb\<lparr>at_heads := at_heads tb @ [h]\<rparr>) s f i = (case find_head tb s f i of
     Some x \<Rightarrow> Some x | None \<Rightarrow> if head_key h = (s, f, i) then Some (ah_revision h) else None)"
  by (auto simp: find_head_def find_append head_key_def split: option.splits)

lemma find_head_None: "find_head tb s f i = None \<longleftrightarrow> (s, f, i) \<notin> head_key ` set (at_heads tb)"
  by (auto simp: find_head_def find_None_iff head_key_def)

lemma find_SomeD: "find P xs = Some x \<Longrightarrow> x \<in> set xs \<and> P x"
  by (induction xs) (auto split: if_splits)

lemma find_by_key:
  assumes "distinct (map key xs)" "x \<in> set xs"
  shows "find (\<lambda>y. key y = key x) xs = Some x"
  using assms by (induction xs) (auto simp: image_iff)

lemma find_head_key: "find_head tb s f i = map_option ah_revision (find (\<lambda>h. head_key h = (s, f, i)) (at_heads tb))"
  by (simp add: find_head_def head_key_def)

lemma find_head_mem:
  assumes "distinct (map head_key (at_heads tb))" "h \<in> set (at_heads tb)"
  shows "find_head tb (ah_scope h) (ah_family h) (ah_id h) = Some (ah_revision h)"
  using find_by_key [OF assms] by (simp add: find_head_key head_key_def)

lemma update_head_find:
  assumes "find_head tb s (ar_family ref) (ar_id ref) = Some (ar_revision ref)"
  shows "find_head (snd (update_head tb s ref v)) s' f i =
    (if (s', f, i) = (s, ar_family ref, ar_id ref) then Some v else find_head tb s' f i)"
proof -
  let ?up = "\<lambda>h. if head_matches s ref h then h\<lparr>ah_revision := v\<rparr> else h"
  have key: "head_key (?up h) = head_key h" for h by (simp add: head_key_def)
  have "find (\<lambda>h. head_key h = k) (map ?up hs) = map_option ?up (find (\<lambda>h. head_key h = k) hs)" for k hs
    by (induction hs) (auto simp: key)
  then have eq: "find_head (snd (update_head tb s ref v)) s' f i =
      map_option (ah_revision \<circ> ?up) (find (\<lambda>h. head_key h = (s', f, i)) (at_heads tb))"
    by (simp add: find_head_key update_head_def option.map_comp)
  show ?thesis
  proof (cases "find (\<lambda>h. head_key h = (s', f, i)) (at_heads tb)")
    case None
    with eq assms show ?thesis by (auto simp: find_head_key)
  next
    case (Some h)
    then have "head_key h = (s', f, i)" by (auto simp: find_Some_iff)
    with Some eq assms show ?thesis by (auto simp: find_head_key head_matches_def head_key_def)
  qed
qed

lemma update_head_one:
  assumes "distinct (map head_key (at_heads tb))" "find_head tb s (ar_family ref) (ar_id ref) = Some (ar_revision ref)"
  shows "fst (update_head tb s ref v) = 1"
proof -
  obtain h where h: "h \<in> set (at_heads tb)" "head_key h = (s, ar_family ref, ar_id ref)" "ah_revision h = ar_revision ref"
    using assms(2) by (auto simp: find_head_key dest!: find_SomeD)
  have "head_matches s ref x \<longleftrightarrow> x = h" if "x \<in> set (at_heads tb)" for x
    using that h assms(1) by (auto simp: head_matches_def head_key_def distinct_map dest: inj_onD)
  then have "filter (head_matches s ref) (at_heads tb) = filter (\<lambda>x. x = h) (at_heads tb)" by (auto intro: filter_cong)
  moreover have "length (filter (\<lambda>x. x = h) (at_heads tb)) = 1"
    using h(1) assms(1) by (simp add: distinct_map distinct_length_filter Collect_conv_if)
  ultimately show ?thesis by (simp add: update_head_def)
qed

lemma update_head_facts [simp]:
  "at_rows (snd (update_head tb s ref v)) = at_rows tb" "at_lsources (snd (update_head tb s ref v)) = at_lsources tb"
  "at_lartifacts (snd (update_head tb s ref v)) = at_lartifacts tb"
  "map head_key (at_heads (snd (update_head tb s ref v))) = map head_key (at_heads tb)"
  "find_artifact_row (snd (update_head tb s ref v)) = find_artifact_row tb"
  "revision_rows (snd (update_head tb s ref v)) = revision_rows tb"
  by (auto simp: update_head_def head_key_def find_artifact_row_def revision_rows_def fun_eq_iff)

lemma update_head_same: "snd (update_head tb s ref (ar_revision ref)) = tb"
proof -
  have "map (\<lambda>h. if head_matches s ref h then h\<lparr>ah_revision := ar_revision ref\<rparr> else h) (at_heads tb) = at_heads tb"
    by (rule map_idI) (auto simp: head_matches_def)
  then show ?thesis by (simp add: update_head_def)
qed

section \<open>Writes\<close>

lemma create_artifact_Inr:
  assumes "create_artifact hs repo tb s i d = Inr (a, tb')"
  obtains codec payload where "gm_get (ar_by_family repo) (dr_family d) = Some codec"
    "wf_artifact_ref (\<lparr>ar_family = dr_family d, ar_id = i, ar_revision = 1\<rparr>)" "require_scope s = Inr ()"
    "find_artifact_row tb s \<lparr>ar_family = dr_family d, ar_id = i, ar_revision = 1\<rparr> = None"
    "find_head tb s (dr_family d) i = None"
    "codec_decode codec \<lparr>ar_family = dr_family d, ar_id = i, ar_revision = 1\<rparr> (dr_lineage d) payload = Inr a"
    "tb' = (appended tb s \<lparr>ar_family = dr_family d, ar_id = i, ar_revision = 1\<rparr> payload (dr_lineage d))\<lparr>at_heads :=
       at_heads tb @ [\<lparr>ah_scope = s, ah_family = dr_family d, ah_id = i, ah_revision = 1\<rparr>]\<rparr>"
    "ac_encode codec (dr_content d) = Some payload"
proof -
  let ?ref = "\<lparr>ar_family = dr_family d, ar_id = i, ar_revision = 1\<rparr>"
  obtain codec a1 tb1 where c: "require_scope s = Inr ()" "codec_for_draft repo d = Inr codec"
      "wf_artifact_ref ?ref" "insert_revision hs tb s codec ?ref (dr_content d) (dr_lineage d) = Inr (a1, tb1)"
      "insert_head tb1 s ?ref = Inr tb'" "a1 = a"
    using assms by (auto simp: create_artifact_def res_simps map_sum_eq_Inr new_artifact_ref_iff split: sum.splits)
  obtain payload where p: "find_artifact_row tb s ?ref = None" "codec_decode codec ?ref (dr_lineage d) payload = Inr a1"
      "tb1 = appended tb s ?ref payload (dr_lineage d)" "ac_encode codec (dr_content d) = Some payload"
    using c(4) by (elim insert_revision_Inr)
  have cd: "gm_get (ar_by_family repo) (dr_family d) = Some codec"
    using c(2) by (auto simp: codec_for_draft_def split: option.splits if_splits)
  have h: "find_head tb s (dr_family d) i = None" "tb' = tb1\<lparr>at_heads := at_heads tb1 @
      [\<lparr>ah_scope = s, ah_family = dr_family d, ah_id = i, ah_revision = 1\<rparr>]\<rparr>"
    using c(5) p(3) by (auto simp: insert_head_def split: if_splits)
  show thesis by (rule that [OF cd c(3,1) p(1) h(1)]) (use p c(6) h(2) in simp_all)
qed


lemma revise_artifact_Inr:
  assumes "revise_artifact hs repo tb s cur d = Inr (a, tb')"
  obtains codec payload nref where "gm_get (ar_by_family repo) (dr_family d) = Some codec"
    "require_scope s = Inr ()" "ar_family (a_ref cur) = dr_family d"
    "nref = \<lparr>ar_family = dr_family d, ar_id = ar_id (a_ref cur), ar_revision = wrap64 (ar_revision (a_ref cur) + 1)\<rparr>"
    "wf_artifact_ref nref" "find_artifact_row tb s nref = None"
    "find_head tb s (dr_family d) (ar_id (a_ref cur)) = Some (ar_revision (a_ref cur))"
    "codec_decode codec nref (dr_lineage d) payload = Inr a"
    "tb' = snd (update_head (appended tb s nref payload (dr_lineage d)) s (a_ref cur) (ar_revision nref))"
    "ac_encode codec (dr_content d) = Some payload"
proof -
  let ?ref = "a_ref cur"
  obtain codec where c: "require_scope s = Inr ()" "ar_family ?ref = dr_family d" "codec_for_draft repo d = Inr codec"
    using assms by (auto simp: revise_artifact_def Let_def res_simps)
  have cd: "gm_get (ar_by_family repo) (dr_family d) = Some codec"
    using c(3) by (auto simp: codec_for_draft_def split: option.splits if_splits)
  have u: "snd (update_head tb s ?ref (ar_revision ?ref)) = tb" by (rule update_head_same)
  obtain nref tb1 where n: "find_head tb s (ar_family ?ref) (ar_id ?ref) = Some (ar_revision ?ref)"
      "new_artifact_ref (ar_family ?ref) (ar_id ?ref) (wrap64 (ar_revision ?ref + 1)) = Inr nref"
      "insert_revision hs tb s codec nref (dr_content d) (dr_lineage d) = Inr (a, tb1)"
      "tb' = snd (update_head tb1 s ?ref (ar_revision nref))"
    using assms c u by (auto simp: revise_artifact_def Let_def res_simps map_sum_eq_Inr case_prod_beta
        split: option.splits if_splits sum.splits)
  have nr: "nref = \<lparr>ar_family = dr_family d, ar_id = ar_id ?ref, ar_revision = wrap64 (ar_revision ?ref + 1)\<rparr>"
      "wf_artifact_ref nref"
    using n(2) c(2) by (auto simp: new_artifact_ref_iff)
  obtain payload where p: "find_artifact_row tb s nref = None" "codec_decode codec nref (dr_lineage d) payload = Inr a"
      "tb1 = appended tb s nref payload (dr_lineage d)" "ac_encode codec (dr_content d) = Some payload"
    using n(3) by (elim insert_revision_Inr)
  show thesis by (rule that [OF cd c(1,2) nr p(1)]) (use n p c(2) in simp_all)
qed

lemma wf_revision_pos: "wf_artifact_ref r \<Longrightarrow> 1 \<le> ar_revision r"
  by (simp add: wf_artifact_ref_def)

text \<open>Both writes append the next revision of one Artifact and move its head there.\<close>

definition advanced ::
  "artifact_tables \<Rightarrow> string \<Rightarrow> artifact_ref \<Rightarrow> string \<Rightarrow> lineage \<Rightarrow> artifact_tables \<Rightarrow> bool" where
  "advanced tb s ref payload lin tb' \<longleftrightarrow>
     find_artifact_row tb s ref = None
     \<and> ar_revision ref = int (length (revision_rows tb s (ar_family ref) (ar_id ref))) + 1
     \<and> at_rows tb' = at_rows (appended tb s ref payload lin)
     \<and> at_lsources tb' = at_lsources (appended tb s ref payload lin)
     \<and> at_lartifacts tb' = at_lartifacts (appended tb s ref payload lin)
     \<and> distinct (map head_key (at_heads tb'))
     \<and> (\<forall>s' f i. find_head tb' s' f i =
          (if (s', f, i) = (s, ar_family ref, ar_id ref) then Some (ar_revision ref) else find_head tb s' f i))"

lemma create_advances:
  assumes "artifacts_inv tb" "create_artifact hs repo tb s i d = Inr (a, tb')"
  obtains codec payload where "gm_get (ar_by_family repo) (dr_family d) = Some codec" "require_scope s = Inr ()"
    "wf_artifact_ref \<lparr>ar_family = dr_family d, ar_id = i, ar_revision = 1\<rparr>"
    "codec_decode codec \<lparr>ar_family = dr_family d, ar_id = i, ar_revision = 1\<rparr> (dr_lineage d) payload = Inr a"
    "advanced tb s \<lparr>ar_family = dr_family d, ar_id = i, ar_revision = 1\<rparr> payload (dr_lineage d) tb'"
    "find_head tb s (dr_family d) i = None"
  using assms(2)
proof (elim create_artifact_Inr)
  fix codec payload
  let ?ref = "\<lparr>ar_family = dr_family d, ar_id = i, ar_revision = 1\<rparr>"
  let ?h = "\<lparr>ah_scope = s, ah_family = dr_family d, ah_id = i, ah_revision = 1\<rparr>"
  assume c: "gm_get (ar_by_family repo) (dr_family d) = Some codec" "wf_artifact_ref ?ref" "require_scope s = Inr ()"
    "find_artifact_row tb s ?ref = None" "find_head tb s (dr_family d) i = None"
    "codec_decode codec ?ref (dr_lineage d) payload = Inr a"
    and tb': "tb' = (appended tb s ?ref payload (dr_lineage d))\<lparr>at_heads := at_heads tb @ [?h]\<rparr>"
  have "revision_rows tb s (dr_family d) i = []"
    using artifacts_invD(2) [OF assms(1), of s "dr_family d" i] c(5) by (auto split: if_splits)
  moreover have "distinct (map head_key (at_heads tb'))"
    using artifacts_invD(3) [OF assms(1)] c(5) by (auto simp: tb' find_head_None head_key_def)
  moreover have "find_head tb' s' f j = (if (s', f, j) = (s, dr_family d, i) then Some 1 else find_head tb s' f j)" for s' f j
    using find_head_append [of "appended tb s ?ref payload (dr_lineage d)" ?h s' f j] c(5)
    by (auto simp: tb' head_key_def split: option.splits)
  ultimately have "advanced tb s ?ref payload (dr_lineage d) tb'"
    using c(4) by (simp add: advanced_def tb')
  then show thesis using that c by blast
qed

lemma find_artifact_row_None:
  "find_artifact_row tb s r = None \<longleftrightarrow> (s, r) \<notin> (\<lambda>x. (aw_scope x, aw_ref x)) ` set (at_rows tb)"
  by (auto simp: find_artifact_row_def find_None_iff)

lemma stored_revision:
  assumes "artifacts_inv tb" "1 \<le> ar_revision r"
    "ar_revision r \<le> int (length (revision_rows tb s (ar_family r) (ar_id r)))"
  shows "find_artifact_row tb s r \<noteq> None"
proof -
  have "ar_revision r \<in> (ar_revision \<circ> aw_ref) ` set (revision_rows tb s (ar_family r) (ar_id r))"
    using artifacts_invD(1) [OF assms(1), of s "ar_family r" "ar_id r"] assms(2,3) positions_set
    by (metis atLeastAtMost_iff list.set_map)
  then obtain x where "x \<in> set (at_rows tb)" "aw_scope x = s" "aw_ref x = r"
    by (auto simp: revision_rows_def intro: artifact_ref.equality)
  then have "(s, r) \<in> (\<lambda>x. (aw_scope x, aw_ref x)) ` set (at_rows tb)" by (intro image_eqI [of _ _ x]) simp_all
  then show ?thesis unfolding find_artifact_row_None by blast
qed

lemma revise_advances:
  assumes "artifacts_inv tb" "revise_artifact hs repo tb s cur d = Inr (a, tb')"
  obtains codec payload nref where "gm_get (ar_by_family repo) (dr_family d) = Some codec" "require_scope s = Inr ()"
    "ar_family (a_ref cur) = dr_family d" "wf_artifact_ref nref"
    "nref = \<lparr>ar_family = dr_family d, ar_id = ar_id (a_ref cur), ar_revision = ar_revision (a_ref cur) + 1\<rparr>"
    "codec_decode codec nref (dr_lineage d) payload = Inr a"
    "advanced tb s nref payload (dr_lineage d) tb'"
    "find_head tb s (dr_family d) (ar_id (a_ref cur)) = Some (ar_revision (a_ref cur))"
  using assms(2)
proof (elim revise_artifact_Inr)
  fix codec payload nref
  assume c: "gm_get (ar_by_family repo) (dr_family d) = Some codec" "require_scope s = Inr ()"
    "ar_family (a_ref cur) = dr_family d"
    and n: "nref = \<lparr>ar_family = dr_family d, ar_id = ar_id (a_ref cur), ar_revision = wrap64 (ar_revision (a_ref cur) + 1)\<rparr>"
      "wf_artifact_ref nref" "find_artifact_row tb s nref = None"
      "find_head tb s (dr_family d) (ar_id (a_ref cur)) = Some (ar_revision (a_ref cur))"
      "codec_decode codec nref (dr_lineage d) payload = Inr a"
    and tb': "tb' = snd (update_head (appended tb s nref payload (dr_lineage d)) s (a_ref cur) (ar_revision nref))"
  have len: "ar_revision (a_ref cur) = int (length (revision_rows tb s (dr_family d) (ar_id (a_ref cur))))"
    using artifacts_invD(2) [OF assms(1), of s "dr_family d" "ar_id (a_ref cur)"] n(4) by (auto split: if_splits)
  have wrap: "wrap64 (ar_revision (a_ref cur) + 1) = ar_revision (a_ref cur) + 1"
  proof (rule ccontr)
    assume "wrap64 (ar_revision (a_ref cur) + 1) \<noteq> ar_revision (a_ref cur) + 1"
    then have "\<not> in_int64 (ar_revision (a_ref cur) + 1)" using wrap64_id by blast
    then have "max_int64 \<le> ar_revision (a_ref cur)" using len by (simp add: in_int64_def max_int64_def)
    moreover have "ar_revision nref \<le> max_int64"
      using wrap64_in_int64 [of "ar_revision (a_ref cur) + 1"] by (simp add: n(1) in_int64_def)
    ultimately have "find_artifact_row tb s nref \<noteq> None"
      using stored_revision [OF assms(1), of nref s] wf_revision_pos [OF n(2)] len by (simp add: n(1))
    with n(3) show False by simp
  qed
  let ?ap = "appended tb s nref payload (dr_lineage d)"
  have hd: "find_head ?ap s (ar_family (a_ref cur)) (ar_id (a_ref cur)) = Some (ar_revision (a_ref cur))"
    using n(4) c(3) by simp
  have "advanced tb s nref payload (dr_lineage d) tb'"
    unfolding advanced_def tb' using n(3) len wrap update_head_find [OF hd] artifacts_invD(3) [OF assms(1)] c(3)
    by (auto simp: n(1))
  then show thesis using that [OF c n(2) _ n(5) _ n(4)] n(1) wrap by simp
qed


section \<open>Reading back\<close>

lemma find_artifact_row_key: "find_artifact_row tb s r = Some x \<Longrightarrow> aw_scope x = s \<and> aw_ref x = r"
  by (auto simp: find_artifact_row_def dest!: find_SomeD)

lemma advanced_find_row:
  assumes "advanced tb s ref payload lin tb'"
  shows "find_artifact_row tb' s' r' = (case find_artifact_row tb s' r' of
     Some x \<Rightarrow> Some x
   | None \<Rightarrow> if s' = s \<and> r' = ref then Some \<lparr>aw_scope = s, aw_ref = ref, aw_content = payload\<rparr> else None)"
  using assms find_artifact_row_append [of tb s ref payload lin s' r']
  by (simp add: advanced_def find_artifact_row_def)

lemma advanced_rows:
  assumes "advanced tb s ref payload lin tb'"
  shows "revision_rows tb' s' f i = revision_rows tb s' f i @
     (if (s', f, i) = (s, ar_family ref, ar_id ref) then [\<lparr>aw_scope = s, aw_ref = ref, aw_content = payload\<rparr>] else [])"
  using assms revision_rows_appended [of tb s ref payload lin s' f i] by (simp add: advanced_def revision_rows_def)

lemma advanced_inv:
  assumes "artifacts_inv tb" "advanced tb s ref payload lin tb'"
  shows "artifacts_inv tb'"
proof -
  note rows = advanced_rows [OF assms(2)]
  note row = advanced_find_row [OF assms(2)]
  have rev: "ar_revision ref = int (Suc (length (revision_rows tb s (ar_family ref) (ar_id ref))))"
    using assms(2) by (simp add: advanced_def)
  have 1: "map (ar_revision \<circ> aw_ref) (revision_rows tb' s' f i) = positions (length (revision_rows tb' s' f i))" for s' f i
    using artifacts_invD(1) [OF assms(1), of s' f i] rev by (auto simp: rows positions_Suc)
  have 2: "find_head tb' s' f i = (if revision_rows tb' s' f i = [] then None
      else Some (int (length (revision_rows tb' s' f i))))" for s' f i
    using assms(2) artifacts_invD(2) [OF assms(1), of s' f i] rev by (auto simp: rows advanced_def)
  have keep: "find_artifact_row tb' s' r' \<noteq> None" if "find_artifact_row tb s' r' \<noteq> None" for s' r'
    using that by (auto simp: row split: option.splits)
  have new: "find_artifact_row tb' s ref \<noteq> None" by (auto simp: row split: option.splits)
  have 3: "list_all (\<lambda>x. find_artifact_row tb' (ls_scope x) (ls_ref x) \<noteq> None) (at_lsources tb')"
    using assms(2) artifacts_invD(4) [OF assms(1)] keep new source_rows_facts(3)
    by (fastforce simp: advanced_def appended_def list_all_iff)
  have 4: "list_all (\<lambda>x. find_artifact_row tb' (la_scope x) (la_ref x) \<noteq> None) (at_lartifacts tb')"
    using assms(2) artifacts_invD(5) [OF assms(1)] keep new upstream_rows_facts(3)
    by (fastforce simp: advanced_def appended_def list_all_iff)
  show ?thesis using 1 2 3 4 assms(2) by (simp add: artifacts_inv_def advanced_def)
qed

lemma lineage_sources_back:
  "map_res (\<lambda>r. map_sum ArtSource id (new_source_ref (sr_type (ls_source r)) (sr_id (ls_source r)))) (source_rows s ref k ss)
     = map_res (\<lambda>r. map_sum ArtSource id (new_source_ref (sr_type r) (sr_id r))) ss"
  by (induction ss arbitrary: k) simp_all

lemma map_res_valid_sources:
  "list_all wf_source_ref ss \<Longrightarrow> map_res (\<lambda>r. map_sum ArtSource id (new_source_ref (sr_type r) (sr_id r))) ss = Inr ss"
proof (induction ss)
  case (Cons r ss)
  then have "new_source_ref (sr_type r) (sr_id r) = Inr r" by (simp add: new_source_ref_iff wf_source_ref_def)
  with Cons show ?case by simp
qed simp

lemma lineage_artifacts_back:
  "list_all wf_artifact_ref us \<Longrightarrow>
   map_res (\<lambda>r. new_artifact_ref (ar_family (la_upstream r)) (ar_id (la_upstream r)) (ar_revision (la_upstream r)))
     (upstream_rows s ref k us) = Inr us"
proof (induction us arbitrary: k)
  case (Cons u us)
  then have "new_artifact_ref (ar_family u) (ar_id u) (ar_revision u) = Inr u"
    by (simp add: new_artifact_ref_iff wf_artifact_ref_def)
  with Cons show ?case by simp
qed simp

lemma sort_key_upt: "map f xs = [k..<k + n] \<Longrightarrow> sort_key f xs = xs"
  by (rule sort_key_id_if_sorted) simp

lemma load_lineage_new:
  assumes inv: "artifacts_inv tb" and adv: "advanced tb s ref payload lin tb'" and wf: "wf_lineage lin"
  shows "load_lineage tb' s ref = Inr lin"
proof -
  have none: "find_artifact_row tb s ref = None" using adv by (simp add: advanced_def)
  have "filter (\<lambda>r. ls_scope r = s \<and> ls_ref r = ref) (at_lsources tb) = []"
    using artifacts_invD(4) [OF inv] none unfolding filter_empty_conv by metis
  moreover have "filter (\<lambda>r. ls_scope r = s \<and> ls_ref r = ref) (source_rows s ref 0 (li_sources lin)) = source_rows s ref 0 (li_sources lin)"
    using source_rows_facts(3) by (fastforce intro: filter_True)
  ultimately have ls: "sort_key ls_ordinal (filter (\<lambda>r. ls_scope r = s \<and> ls_ref r = ref) (at_lsources tb'))
      = source_rows s ref 0 (li_sources lin)"
    using adv sort_key_upt [OF source_rows_facts(1)] by (simp add: advanced_def appended_def)
  have "filter (\<lambda>r. la_scope r = s \<and> la_ref r = ref) (at_lartifacts tb) = []"
    using artifacts_invD(5) [OF inv] none unfolding filter_empty_conv by metis
  moreover have "filter (\<lambda>r. la_scope r = s \<and> la_ref r = ref) (upstream_rows s ref 0 (li_artifacts lin)) = upstream_rows s ref 0 (li_artifacts lin)"
    using upstream_rows_facts(3) by (fastforce intro: filter_True)
  ultimately have la: "sort_key la_ordinal (filter (\<lambda>r. la_scope r = s \<and> la_ref r = ref) (at_lartifacts tb'))
      = upstream_rows s ref 0 (li_artifacts lin)"
    using adv sort_key_upt [OF upstream_rows_facts(1)] by (simp add: advanced_def appended_def)
  have w: "list_all wf_source_ref (li_sources lin)" "list_all wf_artifact_ref (li_artifacts lin)"
    using wf by (simp_all add: wf_lineage_def)
  show ?thesis unfolding load_lineage_def ls la
    using map_res_valid_sources [OF w(1)] lineage_artifacts_back [OF w(2)] wf
    by (simp add: lineage_sources_back new_lineage_iff)
qed

lemma codec_decode_wf:
  assumes "codec_decode codec ref lin payload = Inr a"
  shows "a_ref a = ref" "a_lineage a = lin" "wf_lineage lin"
  using assms by (cases lin; auto simp: codec_decode_def restore_artifact_def new_lineage_iff res_simps
      split: option.splits sum.splits if_splits)+

lemma load_lineage_old:
  assumes adv: "advanced tb s ref payload lin tb'" and old: "find_artifact_row tb s' r' \<noteq> None"
  shows "load_lineage tb' s' r' = load_lineage tb s' r'"
proof -
  have "(s', r') \<noteq> (s, ref)" using adv old by (auto simp: advanced_def)
  then have "filter (\<lambda>r. ls_scope r = s' \<and> ls_ref r = r') (source_rows s ref 0 (li_sources lin)) = []"
    "filter (\<lambda>r. la_scope r = s' \<and> la_ref r = r') (upstream_rows s ref 0 (li_artifacts lin)) = []"
    using source_rows_facts(3) upstream_rows_facts(3) by (auto simp: filter_empty_conv)
  then show ?thesis using adv by (simp add: load_lineage_def advanced_def appended_def)
qed

text \<open>A written revision is read back as it was returned, and every stored revision stays readable
  and unchanged.\<close>

lemma get_written:
  assumes "artifacts_inv tb" "advanced tb s ref payload lin tb'" "codec_decode codec ref lin payload = Inr a"
    "gm_get (ar_by_family repo) (ar_family ref) = Some codec" "require_scope s = Inr ()" "wf_artifact_ref ref"
  shows "get_artifact repo tb' s ref = Inr a"
proof -
  have "find_artifact_row tb s ref = None" using assms(2) by (simp add: advanced_def)
  then have "find_artifact_row tb' s ref = Some \<lparr>aw_scope = s, aw_ref = ref, aw_content = payload\<rparr>"
    by (simp add: advanced_find_row [OF assms(2)])
  moreover have "validate_artifact_ref ref = Inr ()" using assms(6) by (simp add: validate_artifact_ref_iff)
  ultimately show ?thesis
    using assms(3-5) load_lineage_new [OF assms(1,2) codec_decode_wf(3) [OF assms(3)]]
    by (simp add: get_artifact_def decode_artifact_row_def)
qed

lemma get_unchanged:
  assumes "advanced tb s ref payload lin tb'" "get_artifact repo tb s' r' = Inr b"
  shows "get_artifact repo tb' s' r' = Inr b"
proof -
  obtain x where x: "find_artifact_row tb s' r' = Some x"
    using assms(2) by (auto simp: get_artifact_def res_simps split: option.splits)
  then have "find_artifact_row tb' s' r' = Some x" by (simp add: advanced_find_row [OF assms(1)])
  moreover have "load_lineage tb' s' r' = load_lineage tb s' r'" using load_lineage_old [OF assms(1)] x by simp
  then have "decode_artifact_row repo tb' x = decode_artifact_row repo tb x"
    using find_artifact_row_key [OF x] unfolding decode_artifact_row_def by metis
  ultimately show ?thesis using assms(2) x by (simp add: get_artifact_def)
qed

lemma latest_written:
  assumes "artifacts_inv tb" "advanced tb s ref payload lin tb'" "get_artifact repo tb' s ref = Inr a"
    "require_scope s = Inr ()" "wf_artifact_ref ref"
  shows "latest_artifact repo tb' s (ar_family ref) (ar_id ref) = Inr a"
proof -
  have "find_head tb' s (ar_family ref) (ar_id ref) = Some (ar_revision ref)"
    using assms(2) by (simp add: advanced_def)
  moreover have "new_artifact_ref (ar_family ref) (ar_id ref) (ar_revision ref) = Inr ref"
    using assms(5) by (simp add: new_artifact_ref_iff)
  moreover have "new_artifact_ref (ar_family ref) (ar_id ref) 1 = Inr (ref\<lparr>ar_revision := 1\<rparr>)"
    using assms(5) by (simp add: new_artifact_ref_iff wf_artifact_ref_def)
  ultimately show ?thesis using assms(3,4) by (simp add: latest_artifact_def)
qed

lemma get_only:
  assumes "advanced tb s ref payload lin tb'" "get_artifact repo tb' s' r' = Inr b"
  shows "s' = s \<and> r' = ref \<or> get_artifact repo tb s' r' = Inr b"
proof (cases "find_artifact_row tb s' r'")
  case None
  then show ?thesis
    using assms(2) by (auto simp: get_artifact_def advanced_find_row [OF assms(1)] res_simps split: if_splits option.splits)
next
  case (Some x)
  then have "find_artifact_row tb' s' r' = Some x" by (simp add: advanced_find_row [OF assms(1)])
  moreover have "load_lineage tb' s' r' = load_lineage tb s' r'" using load_lineage_old [OF assms(1)] Some by simp
  then have "decode_artifact_row repo tb' x = decode_artifact_row repo tb x"
    using find_artifact_row_key [OF Some] unfolding decode_artifact_row_def by metis
  ultimately show ?thesis using assms(2) Some by (simp add: get_artifact_def)
qed

text \<open>What both writes promise about later reads.\<close>

definition written :: "'c artifact_repository \<Rightarrow> artifact_tables \<Rightarrow> string \<Rightarrow> 'c artifact \<Rightarrow> artifact_tables \<Rightarrow> bool" where
  "written repo tb s a tb' \<longleftrightarrow> artifacts_inv tb' \<and> get_artifact repo tb' s (a_ref a) = Inr a
     \<and> latest_artifact repo tb' s (ar_family (a_ref a)) (ar_id (a_ref a)) = Inr a
     \<and> (\<forall>s' r' b. get_artifact repo tb s' r' = Inr b \<longrightarrow> get_artifact repo tb' s' r' = Inr b)
     \<and> (\<forall>s' r' b. get_artifact repo tb' s' r' = Inr b \<longrightarrow> s' = s \<and> r' = a_ref a \<or> get_artifact repo tb s' r' = Inr b)
     \<and> find_artifact_row tb' s (a_ref a) \<noteq> None"

lemma advanced_written:
  assumes "artifacts_inv tb" "advanced tb s ref payload lin tb'" "codec_decode codec ref lin payload = Inr a"
    "gm_get (ar_by_family repo) (ar_family ref) = Some codec" "require_scope s = Inr ()" "wf_artifact_ref ref"
  shows "written repo tb s a tb'"
proof -
  note ref = codec_decode_wf(1) [OF assms(3)]
  note get = get_written [OF assms]
  have "find_artifact_row tb' s ref \<noteq> None" by (auto simp: advanced_find_row [OF assms(2)] split: option.splits)
  moreover have "s' = s \<and> r' = ref \<or> get_artifact repo tb s' r' = Inr b" if "get_artifact repo tb' s' r' = Inr b" for s' r' b
    using assms(2) that by (rule get_only)
  ultimately show ?thesis unfolding written_def ref
    using get latest_written [OF assms(1,2) get assms(5,6)] advanced_inv [OF assms(1,2)] get_unchanged [OF assms(2)]
    by blast
qed

lemma revise_written:
  assumes "artifacts_inv tb" "revise_artifact hs repo tb s cur d = Inr (a, tb')"
  shows "written repo tb s a tb'"
    "a_ref a = \<lparr>ar_family = dr_family d, ar_id = ar_id (a_ref cur), ar_revision = ar_revision (a_ref cur) + 1\<rparr>"
    "ar_family (a_ref cur) = dr_family d"
proof -
  have "written repo tb s a tb' \<and> ar_family (a_ref cur) = dr_family d
      \<and> a_ref a = \<lparr>ar_family = dr_family d, ar_id = ar_id (a_ref cur), ar_revision = ar_revision (a_ref cur) + 1\<rparr>"
    using assms(2)
  proof (elim revise_advances [OF assms(1)])
    fix codec payload nref
    assume c: "gm_get (ar_by_family repo) (dr_family d) = Some codec" "require_scope s = Inr ()"
      "ar_family (a_ref cur) = dr_family d" "wf_artifact_ref nref"
      "nref = \<lparr>ar_family = dr_family d, ar_id = ar_id (a_ref cur), ar_revision = ar_revision (a_ref cur) + 1\<rparr>"
      "codec_decode codec nref (dr_lineage d) payload = Inr a" "advanced tb s nref payload (dr_lineage d) tb'"
    then show ?thesis using advanced_written [OF assms(1) c(7,6) _ c(2,4)] codec_decode_wf(1) [OF c(6)] by simp
  qed
  then show "written repo tb s a tb'"
    "a_ref a = \<lparr>ar_family = dr_family d, ar_id = ar_id (a_ref cur), ar_revision = ar_revision (a_ref cur) + 1\<rparr>"
    "ar_family (a_ref cur) = dr_family d" by blast+
qed

lemma create_written:
  assumes "artifacts_inv tb" "create_artifact hs repo tb s i d = Inr (a, tb')"
  shows "written repo tb s a tb'" "a_ref a = \<lparr>ar_family = dr_family d, ar_id = i, ar_revision = 1\<rparr>"
    "find_head tb s (dr_family d) i = None"
proof -
  have "written repo tb s a tb' \<and> find_head tb s (dr_family d) i = None
      \<and> a_ref a = \<lparr>ar_family = dr_family d, ar_id = i, ar_revision = 1\<rparr>"
    using assms(2)
  proof (elim create_advances [OF assms(1)])
    fix codec payload
    let ?ref = "\<lparr>ar_family = dr_family d, ar_id = i, ar_revision = 1\<rparr>"
    assume c: "gm_get (ar_by_family repo) (dr_family d) = Some codec" "require_scope s = Inr ()"
      "wf_artifact_ref ?ref" "codec_decode codec ?ref (dr_lineage d) payload = Inr a"
      "advanced tb s ?ref payload (dr_lineage d) tb'" "find_head tb s (dr_family d) i = None"
    then show ?thesis using advanced_written [OF assms(1) c(5,4) _ c(2,3)] codec_decode_wf(1) [OF c(4)] by simp
  qed
  then show "written repo tb s a tb'" "a_ref a = \<lparr>ar_family = dr_family d, ar_id = i, ar_revision = 1\<rparr>"
    "find_head tb s (dr_family d) i = None" by blast+
qed

lemma get_artifact_ref: "get_artifact repo tb s ref = Inr a \<Longrightarrow> a_ref a = ref"
  by (auto simp: get_artifact_def decode_artifact_row_def res_simps split: option.splits
      dest!: find_artifact_row_key codec_decode_wf(1))

lemma latest_is_head:
  assumes "get_artifact repo tb s t = Inr old" "find_head tb s (ar_family t) (ar_id t) = Some (ar_revision t)"
  shows "latest_artifact repo tb s (ar_family t) (ar_id t) = Inr old"
proof -
  have wf: "wf_artifact_ref t" and sc: "require_scope s = Inr ()"
    using assms(1) by (auto simp: get_artifact_def res_simps validate_artifact_ref_iff)
  have "new_artifact_ref (ar_family t) (ar_id t) 1 = Inr (t\<lparr>ar_revision := 1\<rparr>)" "new_artifact_ref (ar_family t) (ar_id t) (ar_revision t) = Inr t"
    using wf by (simp_all add: new_artifact_ref_iff wf_artifact_ref_def)
  then show ?thesis using assms sc by (simp add: latest_artifact_def)
qed

section \<open>Heads as compare-and-set cells\<close>

text \<open>Creating and revising as one write of the cell \<open>(scope, family, id)\<close> that expects no head or the
  head it read.\<close>

definition artifact_put ::
  "(string \<Rightarrow> source_ref \<Rightarrow> bool) \<Rightarrow> 'c artifact_repository \<Rightarrow> artifact_tables \<Rightarrow> string \<times> string \<times> string \<Rightarrow> int option
    \<Rightarrow> 'c \<times> 'c draft \<Rightarrow> store_error + artifact_tables" where
  "artifact_put has_source repo tb = (\<lambda>(scope_id, family, artifact_id) expected (content, d).
     map_sum id snd (case expected of
       None \<Rightarrow> create_artifact has_source repo tb scope_id artifact_id (d\<lparr>dr_family := family\<rparr>)
     | Some n \<Rightarrow> revise_artifact has_source repo tb scope_id
         \<lparr>a_ref = \<lparr>ar_family = family, ar_id = artifact_id, ar_revision = n\<rparr>, a_content = content,
          a_lineage = dr_lineage d\<rparr> (d\<lparr>dr_family := family\<rparr>)))"

definition head_version :: "artifact_tables \<Rightarrow> string \<times> string \<times> string \<Rightarrow> int option" where
  "head_version tb = (\<lambda>(scope_id, family, artifact_id). find_head tb scope_id family artifact_id)"

lemma artifact_put_Inr:
  assumes "artifacts_inv tb" "artifact_put hs repo tb (s, f, i) x v = Inr tb'"
  shows "\<exists>payload lin. advanced tb s \<lparr>ar_family = f, ar_id = i, ar_revision = next_version x\<rparr> payload lin tb'
    \<and> find_head tb s f i = x"
proof -
  obtain c d where v: "v = (c, d)" by (cases v)
  show ?thesis
  proof (cases x)
    case None
    with assms(2) v obtain a where "create_artifact hs repo tb s i (d\<lparr>dr_family := f\<rparr>) = Inr (a, tb')"
      by (cases "create_artifact hs repo tb s i (d\<lparr>dr_family := f\<rparr>)") (auto simp: artifact_put_def)
    then obtain payload where "advanced tb s \<lparr>ar_family = f, ar_id = i, ar_revision = 1\<rparr> payload (dr_lineage d) tb'"
        "find_head tb s f i = None"
      by (elim create_advances [OF assms(1)]) simp
    with None show ?thesis by (auto simp: next_version_def version_number_def)
  next
    case (Some n)
    let ?cur = "\<lparr>a_ref = \<lparr>ar_family = f, ar_id = i, ar_revision = n\<rparr>, a_content = c, a_lineage = dr_lineage d\<rparr>"
    from Some assms(2) v obtain a where "revise_artifact hs repo tb s ?cur (d\<lparr>dr_family := f\<rparr>) = Inr (a, tb')"
      by (cases "revise_artifact hs repo tb s ?cur (d\<lparr>dr_family := f\<rparr>)") (auto simp: artifact_put_def)
    then obtain payload where "advanced tb s \<lparr>ar_family = f, ar_id = i, ar_revision = n + 1\<rparr> payload (dr_lineage d) tb'"
        "find_head tb s f i = Some n"
      by (elim revise_advances [OF assms(1)]) simp
    with Some show ?thesis by (auto simp: next_version_def version_number_def)
  qed
qed

interpretation ac: compare_and_set artifacts_inv head_version "artifact_put hs repo"
  for hs :: "string \<Rightarrow> source_ref \<Rightarrow> bool" and repo :: "'c artifact_repository"
proof (unfold_locales, goal_cases)
  case (1 t k x v t')
  obtain s f i where k: "k = (s, f, i)" by (cases k)
  show ?case using artifact_put_Inr [OF 1(1) 1(2) [unfolded k]] advanced_inv [OF 1(1)] by blast
next
  case (2 t k x v t')
  obtain s f i where k: "k = (s, f, i)" by (cases k)
  show ?case using artifact_put_Inr [OF 2(1) 2(2) [unfolded k]] by (simp add: k head_version_def)
next
  case (3 t k x v t' k')
  obtain s f i where k: "k = (s, f, i)" by (cases k)
  obtain s' f' i' where k': "k' = (s', f', i')" by (cases k')
  show ?case using artifact_put_Inr [OF 3(1) 3(2) [unfolded k]] by (auto simp: k k' head_version_def advanced_def)
qed

section \<open>Properties\<close>

text \<open>C8: revising an Artifact appends exactly the next revision of that Artifact, keeps the
  numbering of every Artifact gap-free with its head on the last revision, returns the Artifact that
  reading the new revision and reading the latest revision give back, and leaves every revision that
  was readable before readable with the same content and lineage.\<close>

theorem artifact_revise_appends:
  assumes "artifacts_inv tb" "revise_artifact hs repo tb s cur d = Inr (a, tb')"
  shows "artifacts_inv tb' \<and> a_ref a = (a_ref cur)\<lparr>ar_revision := ar_revision (a_ref cur) + 1\<rparr>
    \<and> get_artifact repo tb' s (a_ref a) = Inr a
    \<and> latest_artifact repo tb' s (ar_family (a_ref cur)) (ar_id (a_ref cur)) = Inr a
    \<and> (get_artifact repo tb s' r' = Inr b \<longrightarrow> get_artifact repo tb' s' r' = Inr b)"
  using revise_written [OF assms] by (cases "a_ref cur") (auto simp: written_def)

text \<open>Creating an Artifact succeeds only for an identity without a head and stores revision 1, which
  reading it and reading the latest revision give back; every older revision stays as it was.\<close>

theorem artifact_create_first:
  assumes "artifacts_inv tb" "create_artifact hs repo tb s i d = Inr (a, tb')"
  shows "artifacts_inv tb' \<and> find_head tb s (dr_family d) i = None
    \<and> a_ref a = \<lparr>ar_family = dr_family d, ar_id = i, ar_revision = 1\<rparr>
    \<and> get_artifact repo tb' s (a_ref a) = Inr a \<and> latest_artifact repo tb' s (dr_family d) i = Inr a
    \<and> (get_artifact repo tb s' r' = Inr b \<longrightarrow> get_artifact repo tb' s' r' = Inr b)"
  using create_written [OF assms] by (simp add: written_def)

text \<open>In every sequence of transactions that create or revise Artifacts, of all the transactions that
  read the same head of an Artifact at most one succeeds, and the head counts the successful ones: no
  update is lost.\<close>

theorem artifact_single_winner:
  assumes "artifacts_inv tb"
  shows "wins (\<lambda>w. fst w = k \<and> fst (snd w) = x) ws (snd (run_puts (artifact_put hs repo) tb ws)) \<le> 1
    \<and> version_number (head_version (fst (run_puts (artifact_put hs repo) tb ws)) k)
      = version_number (head_version tb k) + int (wins (\<lambda>w. fst w = k) ws (snd (run_puts (artifact_put hs repo) tb ws)))"
  using ac.single_winner [OF assms] ac.version_counts [OF assms] by blast

section \<open>A worked Artifact\<close>

definition plain_codec :: "string artifact_codec" where
  "plain_codec = \<lparr>ac_family = ''note'', ac_types = [''text''], ac_encode = Some, ac_decode = Some\<rparr>"

definition plain_repository :: "string artifact_repository" where
  "plain_repository = \<lparr>ar_by_family = [(''note'', plain_codec)], ar_type_of = (\<lambda>_. ''text'')\<rparr>"

definition plain_draft :: "string \<Rightarrow> string draft" where
  "plain_draft body = \<lparr>dr_family = ''note'', dr_content = body, dr_lineage = \<lparr>li_sources = [], li_artifacts = []\<rparr>\<rparr>"

definition plain_note :: "int \<Rightarrow> string \<Rightarrow> string artifact" where
  "plain_note n body = \<lparr>a_ref = \<lparr>ar_family = ''note'', ar_id = ''n'', ar_revision = n\<rparr>, a_content = body,
     a_lineage = \<lparr>li_sources = [], li_artifacts = []\<rparr>\<rparr>"

definition plain_tables :: "string \<Rightarrow> artifact_tables" where
  "plain_tables body = \<lparr>at_rows = [\<lparr>aw_scope = ''p'', aw_ref = \<lparr>ar_family = ''note'', ar_id = ''n'', ar_revision = 1\<rparr>, aw_content = body\<rparr>],
     at_heads = [\<lparr>ah_scope = ''p'', ah_family = ''note'', ah_id = ''n'', ah_revision = 1\<rparr>],
     at_lsources = [], at_lartifacts = []\<rparr>"

lemma plain_scope: "require_scope ''p'' = Inr ()"
proof -
  have "graphic ''p''" by (simp add: graphic_def)
  then show ?thesis by (simp add: require_scope_def graphic_text)
qed

lemma plain_ref: "1 \<le> n \<Longrightarrow> wf_artifact_ref \<lparr>ar_family = ''note'', ar_id = ''n'', ar_revision = n\<rparr>"
proof -
  have "valid_part 128 ''note''" "valid_part 128 ''n''" by (rule graphic_valid_part; simp add: graphic_def)+
  then show "1 \<le> n \<Longrightarrow> ?thesis" by (simp add: wf_artifact_ref_def)
qed

lemma plain_decode: "1 \<le> n \<Longrightarrow> codec_decode plain_codec \<lparr>ar_family = ''note'', ar_id = ''n'', ar_revision = n\<rparr>
    \<lparr>li_sources = [], li_artifacts = []\<rparr> body = Inr (plain_note n body)"
proof -
  assume n: "1 \<le> n"
  then have "validate_artifact_ref \<lparr>ar_family = ''note'', ar_id = ''n'', ar_revision = n\<rparr> = Inr ()"
    by (simp add: validate_artifact_ref_iff plain_ref)
  then show ?thesis
    by (simp add: codec_decode_def plain_codec_def restore_artifact_def plain_note_def new_lineage_def)
qed

lemma plain_create:
  "create_artifact (\<lambda>_ _. True) plain_repository no_artifacts ''p'' ''n'' (plain_draft body) = Inr (plain_note 1 body, plain_tables body)"
proof -
  have "new_artifact_ref ''note'' ''n'' 1 = Inr \<lparr>ar_family = ''note'', ar_id = ''n'', ar_revision = 1\<rparr>"
    by (simp add: new_artifact_ref_iff plain_ref)
  then show ?thesis using plain_decode [of 1 body]
    by (simp add: create_artifact_def plain_scope plain_draft_def codec_for_draft_def plain_repository_def
        supports_content_def insert_revision_def no_artifacts_def find_artifact_row_def insert_head_def find_head_def
        plain_tables_def plain_codec_def)
qed

lemma plain_stored:
  "artifacts_inv (plain_tables body)" "get_artifact plain_repository (plain_tables body) ''p'' (a_ref (plain_note 1 body)) = Inr (plain_note 1 body)"
proof -
  show "artifacts_inv (plain_tables body)"
    using create_advances [OF artifacts_inv_empty plain_create [of body]] advanced_inv [OF artifacts_inv_empty] by metis
  have "validate_artifact_ref \<lparr>ar_family = ''note'', ar_id = ''n'', ar_revision = 1\<rparr> = Inr ()"
    by (simp add: validate_artifact_ref_iff plain_ref)
  then show "get_artifact plain_repository (plain_tables body) ''p'' (a_ref (plain_note 1 body)) = Inr (plain_note 1 body)"
    using plain_decode [of 1 body]
    by (simp add: get_artifact_def plain_scope plain_note_def find_artifact_row_def plain_tables_def decode_artifact_row_def
        plain_repository_def load_lineage_def new_lineage_def)
qed

lemma plain_revise:
  "\<exists>tb'. revise_artifact (\<lambda>_ _. True) plain_repository (plain_tables ''a'') ''p'' (plain_note 1 ''a'') (plain_draft ''b'')
     = Inr (plain_note 2 ''b'', tb')"
proof -
  have r: "new_artifact_ref ''note'' ''n'' 2 = Inr \<lparr>ar_family = ''note'', ar_id = ''n'', ar_revision = 2\<rparr>"
    "validate_artifact_ref \<lparr>ar_family = ''note'', ar_id = ''n'', ar_revision = 1\<rparr> = Inr ()" "wrap64 2 = 2"
    by (simp_all add: new_artifact_ref_iff plain_ref validate_artifact_ref_iff wrap64_def)
  then show ?thesis using plain_decode [of 2 "''b''"]
    by (simp add: revise_artifact_def plain_scope plain_draft_def codec_for_draft_def plain_repository_def
        supports_content_def insert_revision_def find_artifact_row_def find_head_def update_head_def head_matches_def
        plain_tables_def plain_note_def plain_codec_def)
qed

theorem artifact_create_first_witness:
  "latest_artifact plain_repository (plain_tables ''a'') ''p'' ''note'' ''n'' = Inr (plain_note 1 ''a'')"
  using artifact_create_first [OF artifacts_inv_empty plain_create [of "''a''"]] by (simp add: plain_draft_def)

theorem artifact_revise_appends_witness:
  "\<exists>tb'. latest_artifact plain_repository tb' ''p'' ''note'' ''n'' = Inr (plain_note 2 ''b'')
     \<and> get_artifact plain_repository tb' ''p'' (a_ref (plain_note 1 ''a'')) = Inr (plain_note 1 ''a'')"
proof -
  obtain tb' where r: "revise_artifact (\<lambda>_ _. True) plain_repository (plain_tables ''a'') ''p'' (plain_note 1 ''a'')
      (plain_draft ''b'') = Inr (plain_note 2 ''b'', tb')" using plain_revise by blast
  have g: "artifacts_inv (plain_tables ''a'')" "get_artifact plain_repository (plain_tables ''a'') ''p'' (a_ref (plain_note 1 ''a'')) = Inr (plain_note 1 ''a'')"
    using plain_stored by simp_all
  show ?thesis using artifact_revise_appends [OF g(1) r] g(2) by (auto simp: plain_note_def)
qed

theorem artifact_single_winner_witness:
  "wins (\<lambda>w. fst w = (''p'', ''note'', ''n'') \<and> fst (snd w) = None)
     [((''p'', ''note'', ''n''), None, ''a'', plain_draft ''a''), ((''p'', ''note'', ''n''), None, ''b'', plain_draft ''b'')]
     (snd (run_puts (artifact_put (\<lambda>_ _. True) plain_repository) no_artifacts
       [((''p'', ''note'', ''n''), None, ''a'', plain_draft ''a''), ((''p'', ''note'', ''n''), None, ''b'', plain_draft ''b'')])) \<le> 1"
  using artifact_single_winner [OF artifacts_inv_empty] by blast

end
