(* ===== verification/Memory_Model.thy ===== *)
theory Memory_Model
  imports Artifact_Store
begin

text \<open>
  Memory values (\<open>artifact/memory/model.go\<close>, \<open>errors.go\<close>), their canonical form (\<open>canonical.go\<close>,
  \<open>internal/jcs/canonical.go\<close>) and the deterministic helpers of the Memory service
  (\<open>service_values.go\<close>). A Memory is an Artifact whose content is a manifest, one line per logical
  entry, with the change list of its revision; the entry text lives in entry versions.
  Code outside the repository is a field of \<open>canonical_env\<close>: Unicode NFC
  (\<open>golang.org/x/text/unicode/norm\<close>), the JSON Canonicalization Scheme over an encoded value
  (\<open>gowebpki/jcs\<close>) and the hexadecimal SHA-256 digest. A nil and an empty slice are the same list.
\<close>

section \<open>Errors\<close>

datatype memory_error =
    InvalidOperation string
  | InvalidCandidate string string
  | InvalidCandidateCanonical memory_error
  | InvalidEvidence string
  | EntryNotFound string
  | EntryInactive string
  | InvalidEmbedding string
  | CapabilityNotSupported string
  | InvalidCitation string
  | BackendConfiguration string
  | CanonicalError string string
  | MemoryJson string
  | MemorySource source_error
  | MemoryIngest ingest_error
  | MemoryArtifact artifact_error
  | MemoryStore store_error
  | MemoryInference bool string
  | MemoryFault string

section \<open>Values\<close>

text \<open>The two string enumerations; \<open>NoState\<close> and \<open>NoOp\<close> are the empty string of Go's zero values.\<close>

datatype entry_state = Active | Inactive | NoState

datatype change_op = AddOp | ReviseOp | DeactivateOp | ReactivateOp | NoOp

record manifest_entry =
  me_entry :: string
  me_version :: string
  me_hash :: string
  me_state :: entry_state

record memory_change =
  mc_op :: change_op
  mc_entry :: string
  mc_from :: "string option"
  mc_to :: "string option"
  mc_reason :: "string option"

record memory_content =
  cn_manifest :: "manifest_entry list"
  cn_changes :: "memory_change list"

type_synonym memory = "memory_content artifact"

record entry_version =
  ev_memory :: string
  ev_entry :: string
  ev_id :: string
  ev_version :: int
  ev_previous :: "string option"
  ev_kind :: string
  ev_text :: string
  ev_hash :: string
  ev_revision :: int
  ev_sources :: "source_ref list"
  ev_artifacts :: "artifact_ref list"

definition memory_family :: string where
  "memory_family = ''memory''"

section \<open>Canonical JSON\<close>

record canonical_env =
  ce_nfc :: "string \<Rightarrow> string"
  ce_transform :: "json \<Rightarrow> string option"
  ce_digest :: "string \<Rightarrow> string"

text \<open>The recursive normalization of \<open>jcs.Marshal\<close>. A number literal must denote a value that
  \<open>strconv.ParseFloat\<close> rounds to a finite \<open>float64\<close>.\<close>

definition float64_literal :: "string \<Rightarrow> bool" where
  "float64_literal s \<longleftrightarrow> valid_number s \<and> \<bar>number_value s\<bar> < 2 ^ 1024 - 2 ^ 970"

fun jcs_normalize :: "(string \<Rightarrow> string) \<Rightarrow> json \<Rightarrow> string + json"
  and jcs_normalize_list :: "(string \<Rightarrow> string) \<Rightarrow> json list \<Rightarrow> string + json list"
  and jcs_normalize_members ::
    "(string \<Rightarrow> string) \<Rightarrow> (string \<times> json) list \<Rightarrow> (string, json) gomap \<Rightarrow> string + (string, json) gomap" where
  "jcs_normalize nfc JNull = Inr JNull"
| "jcs_normalize nfc (JBool b) = Inr (JBool b)"
| "jcs_normalize nfc (JNum s) = (if float64_literal s then Inr (JNum s) else Inl ''invalid JSON number'')"
| "jcs_normalize nfc (JStr s) = Inr (JStr (nfc s))"
| "jcs_normalize nfc (JArr xs) = and_then (jcs_normalize_list nfc xs) (\<lambda>ys. Inr (JArr ys))"
| "jcs_normalize nfc (JObj ms) = and_then (jcs_normalize_members nfc ms []) (\<lambda>r. Inr (JObj r))"
| "jcs_normalize_list nfc [] = Inr []"
| "jcs_normalize_list nfc (x # xs) =
     and_then (jcs_normalize nfc x) (\<lambda>y. and_then (jcs_normalize_list nfc xs) (\<lambda>ys. Inr (y # ys)))"
| "jcs_normalize_members nfc [] result = Inr result"
| "jcs_normalize_members nfc ((k, v) # ms) result =
     (if gm_get result (nfc k) \<noteq> None then Inl ''canonical JSON object keys collide after NFC normalization''
      else and_then (jcs_normalize nfc v) (\<lambda>w. jcs_normalize_members nfc ms (gm_set (nfc k) w result)))"

definition canonical_json :: "canonical_env \<Rightarrow> json \<Rightarrow> memory_error + string" where
  "canonical_json env value = (case jcs_normalize (ce_nfc env) value of
     Inl e \<Rightarrow> Inl (MemoryJson e)
   | Inr normalized \<Rightarrow>
      (case ce_transform env normalized of
         None \<Rightarrow> Inl (MemoryJson ''canonicalize JSON'')
       | Some bytes \<Rightarrow> Inr bytes))"

section \<open>Text, identifiers and hashes\<close>

definition normalize_non_empty :: "canonical_env \<Rightarrow> string \<Rightarrow> string \<Rightarrow> memory_error + string" where
  "normalize_non_empty env value label =
     (let normalized = trim_python (ce_nfc env value) in
      if normalized = [] then Inl (CanonicalError ''string-empty'' label) else Inr normalized)"

definition max_entry_text_bytes :: nat where
  "max_entry_text_bytes = 8192"

definition normalize_text :: "canonical_env \<Rightarrow> string \<Rightarrow> memory_error + string" where
  "normalize_text env value =
     and_then (normalize_non_empty env value ''memory entry text'') (\<lambda>normalized.
     if length normalized > max_entry_text_bytes then Inl (CanonicalError ''text-too-long'' []) else Inr normalized)"

definition normalize_kind :: "canonical_env \<Rightarrow> string \<Rightarrow> memory_error + string" where
  "normalize_kind env value = normalize_non_empty env value ''memory entry kind''"

definition normalize_reason :: "canonical_env \<Rightarrow> string option \<Rightarrow> memory_error + string option" where
  "normalize_reason env value = (case value of
     None \<Rightarrow> Inr None
   | Some v \<Rightarrow>
      (let normalized = trim_python (ce_nfc env v) in
       if normalized = [] then Inr None
       else if rune_count normalized > 512 then Inl (CanonicalError ''reason-too-long'' [])
       else Inr (Some normalized)))"

definition is_ascii :: "string \<Rightarrow> bool" where
  "is_ascii s \<longleftrightarrow> list_all (\<lambda>c. byte_of c \<le> 0x7f) s"

definition validate_identifier :: "string \<Rightarrow> memory_error + string" where
  "validate_identifier value =
     (if value = [] then Inl (CanonicalError ''identifier-empty'' [])
      else if \<not> is_ascii value then Inl (CanonicalError ''identifier-ascii'' [])
      else if length value > 128 then Inl (CanonicalError ''identifier-too-long'' [])
      else Inr value)"

definition lower_hex :: "char \<Rightarrow> bool" where
  "lower_hex c \<longleftrightarrow> CHR ''0'' \<le> c \<and> c \<le> CHR ''9'' \<or> CHR ''a'' \<le> c \<and> c \<le> CHR ''f''"

definition validate_content_hash :: "string \<Rightarrow> memory_error + string" where
  "validate_content_hash value =
     (if length value = 64 \<and> list_all lower_hex value then Inr value else Inl (CanonicalError ''hash'' []))"

definition new_manifest_entry :: "string \<Rightarrow> string \<Rightarrow> string \<Rightarrow> entry_state \<Rightarrow> memory_error + manifest_entry" where
  "new_manifest_entry entry_id version_id hash state =
     and_then (validate_identifier entry_id) (\<lambda>_.
     and_then (validate_identifier version_id) (\<lambda>_.
     and_then (validate_content_hash hash) (\<lambda>_.
     and_then (check (state \<noteq> NoState) (MemoryFault ''invalid memory entry state'')) (\<lambda>_.
     Inr \<lparr>me_entry = entry_id, me_version = version_id, me_hash = hash, me_state = state\<rparr>))))"

definition validate_optional :: "string option \<Rightarrow> memory_error + unit" where
  "validate_optional value = (case value of
     None \<Rightarrow> Inr () | Some v \<Rightarrow> and_then (validate_identifier v) (\<lambda>_. Inr ()))"

text \<open>\<open>value, _ := f()\<close>: the zero value when the call fails.\<close>

definition or_zero :: "'a \<Rightarrow> 'e + 'a \<Rightarrow> 'a" where
  "or_zero z r = (case r of Inl _ \<Rightarrow> z | Inr v \<Rightarrow> v)"

definition zero_manifest_entry :: manifest_entry where
  "zero_manifest_entry = \<lparr>me_entry = [], me_version = [], me_hash = [], me_state = NoState\<rparr>"

definition zero_change :: memory_change where
  "zero_change = \<lparr>mc_op = NoOp, mc_entry = [], mc_from = None, mc_to = None, mc_reason = None\<rparr>"

definition new_change ::
  "canonical_env \<Rightarrow> change_op \<Rightarrow> string \<Rightarrow> string option \<Rightarrow> string option \<Rightarrow> string option \<Rightarrow> memory_error + memory_change" where
  "new_change env op entry_id from_version to_version reason =
     and_then (check (op \<noteq> NoOp) (MemoryFault ''invalid memory change operation'')) (\<lambda>_.
     and_then (validate_identifier entry_id) (\<lambda>_.
     and_then (validate_optional from_version) (\<lambda>_.
     and_then (validate_optional to_version) (\<lambda>_.
     and_then (normalize_reason env reason) (\<lambda>normalized.
     Inr \<lparr>mc_op = op, mc_entry = entry_id, mc_from = from_version, mc_to = to_version, mc_reason = normalized\<rparr>)))))"

section \<open>References\<close>

definition source_ref_json :: "source_ref \<Rightarrow> json" where
  "source_ref_json r = JObj [(''source_type'', JStr (sr_type r)), (''source_id'', JStr (sr_id r))]"

definition artifact_ref_value :: "artifact_ref \<Rightarrow> json" where
  "artifact_ref_value r = JObj [(''family'', JStr (ar_family r)), (''artifact_id'', JStr (ar_id r)),
     (''revision'', JNum (show_int (ar_revision r)))]"

text \<open>Keep one value per canonical encoding, the last one, in the order of the encodings
  (\<open>normalizeRefValues\<close> and the tails of \<open>canonicalSourceRefs\<close> and \<open>canonicalArtifactRefs\<close>).\<close>

definition by_encoding :: "(string \<times> 'a) list \<Rightarrow> 'a list" where
  "by_encoding items = values_sorted_by (gm_of_list fst snd items [])"

definition check_source_ref :: "source_ref \<Rightarrow> memory_error + source_ref" where
  "check_source_ref r = map_sum MemorySource id (new_source_ref (sr_type r) (sr_id r))"

definition check_artifact_ref :: "artifact_ref \<Rightarrow> memory_error + artifact_ref" where
  "check_artifact_ref r = and_then (map_sum MemoryArtifact id (validate_artifact_ref r)) (\<lambda>_. Inr r)"

definition encoded_ref ::
  "canonical_env \<Rightarrow> ('r \<Rightarrow> memory_error + 'r) \<Rightarrow> ('r \<Rightarrow> json) \<Rightarrow> 'r \<Rightarrow> memory_error + string \<times> 'r" where
  "encoded_ref env validate encode r =
     and_then (validate r) (\<lambda>_. and_then (canonical_json env (encode r)) (\<lambda>key. Inr (key, r)))"

definition canonical_refs ::
  "canonical_env \<Rightarrow> ('r \<Rightarrow> memory_error + 'r) \<Rightarrow> ('r \<Rightarrow> json) \<Rightarrow> 'r list \<Rightarrow> memory_error + 'r list" where
  "canonical_refs env validate encode refs =
     and_then (map_res (encoded_ref env validate encode) refs) (\<lambda>items. Inr (by_encoding items))"

definition canonical_source_refs :: "canonical_env \<Rightarrow> source_ref list \<Rightarrow> memory_error + source_ref list" where
  "canonical_source_refs env = canonical_refs env check_source_ref source_ref_json"

definition canonical_artifact_refs :: "canonical_env \<Rightarrow> artifact_ref list \<Rightarrow> memory_error + artifact_ref list" where
  "canonical_artifact_refs env = canonical_refs env check_artifact_ref artifact_ref_value"

definition normalize_ref_values :: "canonical_env \<Rightarrow> json list \<Rightarrow> memory_error + json list" where
  "normalize_ref_values env values =
     and_then (map_res (\<lambda>v. and_then (canonical_json env v) (\<lambda>key. Inr (key, v))) values) (\<lambda>items.
     Inr (by_encoding items))"

definition normalize_source_refs :: "canonical_env \<Rightarrow> source_ref list \<Rightarrow> memory_error + json list" where
  "normalize_source_refs env refs =
     and_then (map_res (\<lambda>r. and_then (check_source_ref r) (\<lambda>_. Inr (source_ref_json r))) refs) (normalize_ref_values env)"

definition normalize_artifact_refs :: "canonical_env \<Rightarrow> artifact_ref list \<Rightarrow> memory_error + json list" where
  "normalize_artifact_refs env refs =
     and_then (map_res (\<lambda>r. and_then (check_artifact_ref r) (\<lambda>_. Inr (artifact_ref_value r))) refs) (normalize_ref_values env)"

section \<open>Content bytes and hashes\<close>

definition entry_content_bytes ::
  "canonical_env \<Rightarrow> string \<Rightarrow> string \<Rightarrow> source_ref list \<Rightarrow> artifact_ref list \<Rightarrow> memory_error + string" where
  "entry_content_bytes env kind txt source_refs artifact_refs =
     and_then (normalize_kind env kind) (\<lambda>normalized_kind.
     and_then (normalize_text env txt) (\<lambda>normalized_text.
     and_then (normalize_source_refs env source_refs) (\<lambda>sources.
     and_then (normalize_artifact_refs env artifact_refs) (\<lambda>artifacts.
     canonical_json env (JObj [(''kind'', JStr normalized_kind), (''text'', JStr normalized_text),
       (''source_refs'', JArr sources), (''artifact_refs'', JArr artifacts)])))))"

definition entry_hash_domain :: string where
  "entry_hash_domain = ''powercontext:entry-content:v1'' @ [CHR 0x00]"

definition embedding_hash_domain :: string where
  "embedding_hash_domain = ''powercontext:embedding-content:v1'' @ [CHR 0x00]"

definition domain_hash :: "canonical_env \<Rightarrow> string \<Rightarrow> string \<Rightarrow> string" where
  "domain_hash env domain contents = ce_digest env (domain @ contents)"

definition entry_content_hash ::
  "canonical_env \<Rightarrow> string \<Rightarrow> string \<Rightarrow> source_ref list \<Rightarrow> artifact_ref list \<Rightarrow> memory_error + string" where
  "entry_content_hash env kind txt source_refs artifact_refs =
     and_then (entry_content_bytes env kind txt source_refs artifact_refs) (\<lambda>contents.
     Inr (domain_hash env entry_hash_domain contents))"

fun state_name :: "entry_state \<Rightarrow> string" where
  "state_name Active = ''active''"
| "state_name Inactive = ''inactive''"
| "state_name NoState = []"

fun op_name :: "change_op \<Rightarrow> string" where
  "op_name AddOp = ''add''"
| "op_name ReviseOp = ''revise''"
| "op_name DeactivateOp = ''deactivate''"
| "op_name ReactivateOp = ''reactivate''"
| "op_name NoOp = []"

definition string_value :: "string option \<Rightarrow> json" where
  "string_value v = (case v of None \<Rightarrow> JNull | Some s \<Rightarrow> JStr s)"

definition manifest_entry_json :: "manifest_entry \<Rightarrow> memory_error + json" where
  "manifest_entry_json e =
     and_then (validate_identifier (me_entry e)) (\<lambda>_.
     and_then (validate_identifier (me_version e)) (\<lambda>_.
     and_then (validate_content_hash (me_hash e)) (\<lambda>_.
     Inr (JObj [(''entry_id'', JStr (me_entry e)), (''entry_version_id'', JStr (me_version e)),
       (''entry_content_hash'', JStr (me_hash e)), (''state'', JStr (state_name (me_state e)))]))))"

definition change_json :: "canonical_env \<Rightarrow> memory_change \<Rightarrow> memory_error + json" where
  "change_json env c =
     and_then (validate_identifier (mc_entry c)) (\<lambda>_.
     and_then (validate_optional (mc_from c)) (\<lambda>_.
     and_then (validate_optional (mc_to c)) (\<lambda>_.
     and_then (normalize_reason env (mc_reason c)) (\<lambda>reason.
     Inr (JObj [(''op'', JStr (op_name (mc_op c))), (''entry_id'', JStr (mc_entry c)),
       (''from_entry_version_id'', string_value (mc_from c)),
       (''to_entry_version_id'', string_value (mc_to c)), (''reason'', string_value reason)])))))"

definition content_bytes :: "canonical_env \<Rightarrow> memory_content \<Rightarrow> memory_error + string" where
  "content_bytes env content =
     and_then (map_res manifest_entry_json (cn_manifest content)) (\<lambda>entries.
     and_then (map_res (change_json env) (cn_changes content)) (\<lambda>changes.
     canonical_json env (JObj [(''schema'', JStr ''powercontext.memory.v1''),
       (''manifest'', JObj [(''format'', JStr ''flat-v1''), (''entries'', JArr entries)]),
       (''changes'', JArr changes)])))"

definition content_hash :: "canonical_env \<Rightarrow> memory_content \<Rightarrow> memory_error + string" where
  "content_hash env content = and_then (content_bytes env content) (\<lambda>encoded. Inr (ce_digest env encoded))"

section \<open>Entry material\<close>

record entry_material =
  em_kind :: string
  em_text :: string
  em_sources :: "source_ref list"
  em_artifacts :: "artifact_ref list"
  em_bytes :: string
  em_hash :: string

definition new_entry_material ::
  "canonical_env \<Rightarrow> string \<Rightarrow> string \<Rightarrow> source_ref list \<Rightarrow> artifact_ref list \<Rightarrow> memory_error + entry_material" where
  "new_entry_material env kind txt sources artifacts =
     and_then (normalize_kind env kind) (\<lambda>k.
     and_then (normalize_text env txt) (\<lambda>t.
     and_then (canonical_source_refs env sources) (\<lambda>ss.
     and_then (canonical_artifact_refs env artifacts) (\<lambda>as.
     and_then (entry_content_bytes env k t ss as) (\<lambda>bytes.
     and_then (entry_content_hash env k t ss as) (\<lambda>hash.
     Inr \<lparr>em_kind = k, em_text = t, em_sources = ss, em_artifacts = as, em_bytes = bytes, em_hash = hash\<rparr>))))))"

definition material_from_version :: "canonical_env \<Rightarrow> entry_version \<Rightarrow> memory_error + entry_material" where
  "material_from_version env v = new_entry_material env (ev_kind v) (ev_text v) (ev_sources v) (ev_artifacts v)"

definition is_canonical_version :: "entry_version \<Rightarrow> entry_material \<Rightarrow> bool" where
  "is_canonical_version v m \<longleftrightarrow> ev_kind v = em_kind m \<and> ev_text v = em_text m
     \<and> ev_sources v = em_sources m \<and> ev_artifacts v = em_artifacts m"

section \<open>Manifests\<close>

definition sorted_manifest :: "(string, manifest_entry) gomap \<Rightarrow> manifest_entry list" where
  "sorted_manifest m = sort_key me_entry (map snd m)"

definition sorted_changes :: "memory_change list \<Rightarrow> memory_change list" where
  "sorted_changes cs = sort_key mc_entry cs"

definition manifest_map :: "manifest_entry list \<Rightarrow> (string, manifest_entry) gomap" where
  "manifest_map es = gm_of_list me_entry id es []"

definition entry_map :: "entry_version list \<Rightarrow> (string, entry_version) gomap" where
  "entry_map vs = gm_of_list ev_entry id vs []"

section \<open>Canonical forms are stable\<close>

text \<open>Documented behaviour of NFC: it is idempotent and closed under taking substrings, so trimming a
  normalized string leaves it normalized.\<close>

definition nfc_closed :: "canonical_env \<Rightarrow> bool" where
  "nfc_closed env \<longleftrightarrow> (\<forall>s. ce_nfc env (trim_python (ce_nfc env s)) = trim_python (ce_nfc env s))"

lemma normalize_non_empty_stable:
  assumes "nfc_closed env" "normalize_non_empty env v l = Inr n"
  shows "normalize_non_empty env n l' = Inr n"
  using assms by (auto simp: normalize_non_empty_def nfc_closed_def Let_def split: if_splits)

lemma normalize_text_stable:
  assumes "nfc_closed env" "normalize_text env v = Inr n"
  shows "normalize_text env n = Inr n"
  using assms normalize_non_empty_stable [OF assms(1)]
  by (fastforce simp: normalize_text_def res_simps split: if_splits)

lemma normalize_kind_stable:
  assumes "nfc_closed env" "normalize_kind env v = Inr n"
  shows "normalize_kind env n = Inr n"
  using assms normalize_non_empty_stable [OF assms(1)] by (simp add: normalize_kind_def)

lemma gm_of_list_append_new:
  "distinct (map kf xs) \<Longrightarrow> kf ` set xs \<inter> fst ` set m = {} \<Longrightarrow>
     gm_of_list kf vf xs m = m @ map (\<lambda>x. (kf x, vf x)) xs"
proof (induction xs arbitrary: m)
  case (Cons x xs)
  then have "gm_set (kf x) (vf x) m = m @ [(kf x, vf x)]" by (intro gm_set_new) auto
  moreover have "kf ` set xs \<inter> fst ` set (m @ [(kf x, vf x)]) = {}" using Cons.prems by auto
  ultimately show ?case using Cons.IH [of "m @ [(kf x, vf x)]"] Cons.prems by simp
qed simp

lemma by_encoding_sorted:
  assumes "sorted (map fst items)" "distinct (map fst items)"
  shows "by_encoding items = map snd items"
proof -
  have "gm_of_list fst snd items [] = items" using assms(2) by (simp add: gm_of_list_append_new)
  then show ?thesis using assms by (simp add: by_encoding_def values_sorted_by_def sort_key_id_if_sorted)
qed

text \<open>The items whose values \<open>by_encoding\<close> keeps, in its order.\<close>

definition kept_items :: "(string \<times> 'a) list \<Rightarrow> (string \<times> 'a) list" where
  "kept_items items = sort_key fst (gm_of_list fst snd items [])"

lemma kept_items:
  "by_encoding items = map snd (kept_items items)" "sorted (map fst (kept_items items))"
  "distinct (map fst (kept_items items))" "set (kept_items items) \<subseteq> set items"
  "fst ` set (kept_items items) = fst ` set items"
proof -
  let ?m = "gm_of_list fst snd items []"
  have wf: "gm_wf ?m" by (rule gm_wf_of_list) simp
  show "by_encoding items = map snd (kept_items items)"
    by (simp add: by_encoding_def values_sorted_by_def kept_items_def)
  show "sorted (map fst (kept_items items))" by (simp add: kept_items_def)
  show "distinct (map fst (kept_items items))" using wf by (simp add: kept_items_def gm_wf_def distinct_map)
  show "set (kept_items items) \<subseteq> set items"
  proof
    fix x assume "x \<in> set (kept_items items)"
    then have "gm_get ?m (fst x) = Some (snd x)" using gm_get_iff [OF wf] by (simp add: kept_items_def)
    then show "x \<in> set items" by (auto dest!: gm_get_of_list_Some)
  qed
  show "fst ` set (kept_items items) = fst ` set items"
    by (simp add: kept_items_def gm_dom_of_list)
qed

lemma encoded_ref_Inr: "encoded_ref env validate encode r = Inr x \<longleftrightarrow>
    (\<exists>u. validate r = Inr u) \<and> canonical_json env (encode r) = Inr (fst x) \<and> r = snd x"
  by (cases x) (auto simp: encoded_ref_def res_simps)

lemma canonical_refs_Inr:
  "canonical_refs env validate encode refs = Inr rs \<longleftrightarrow>
     (\<exists>items. map_res (encoded_ref env validate encode) refs = Inr items \<and> rs = by_encoding items)"
  by (auto simp: canonical_refs_def and_then_eq_Inr)

lemma canonical_refs_stable:
  assumes "canonical_refs env validate encode refs = Inr rs"
  shows "canonical_refs env validate encode rs = Inr rs"
proof -
  let ?f = "encoded_ref env validate encode"
  obtain items where items: "map_res ?f refs = Inr items" "rs = by_encoding items"
    using assms unfolding canonical_refs_Inr by blast
  have f: "?f (snd x) = Inr x" if "x \<in> set (kept_items items)" for x
  proof -
    have "x \<in> set items" using that kept_items(4) by blast
    then obtain r where "?f r = Inr x" using items(1) by (elim map_res_memberE)
    then show ?thesis by (auto simp: encoded_ref_Inr)
  qed
  have comp: "map_res ?f (map snd ks) = map_res (?f \<circ> snd) ks" for ks by (induction ks) simp_all
  have "map_res (?f \<circ> snd) (kept_items items) = Inr (map id (kept_items items))"
    by (rule map_res_total) (simp add: f)
  then have "map_res ?f rs = Inr (kept_items items)" by (simp add: items(2) kept_items(1) comp)
  moreover have "by_encoding (kept_items items) = rs"
    using by_encoding_sorted [OF kept_items(2,3), of items] kept_items(1) [of items] by (simp add: items(2))
  ultimately show ?thesis unfolding canonical_refs_Inr by blast
qed

lemma new_entry_material_stable:
  assumes "nfc_closed env" "new_entry_material env k t ss as = Inr m"
  shows "new_entry_material env (em_kind m) (em_text m) (em_sources m) (em_artifacts m) = Inr m"
  using assms(2) normalize_kind_stable [OF assms(1)] normalize_text_stable [OF assms(1)]
  by (auto simp: new_entry_material_def res_simps canonical_source_refs_def canonical_artifact_refs_def
      dest: canonical_refs_stable)

text \<open>Which references are kept depends only on their set, when distinct references have distinct
  encodings.\<close>

lemma canonical_refs_set:
  assumes "canonical_refs env validate encode refs = Inr rs" "canonical_refs env validate encode refs' = Inr rs'"
    and "set refs = set refs'"
    and "\<And>r r' b. r \<in> set refs \<Longrightarrow> r' \<in> set refs \<Longrightarrow> canonical_json env (encode r) = Inr b
      \<Longrightarrow> canonical_json env (encode r') = Inr b \<Longrightarrow> r = r'"
  shows "rs = rs' \<and> set rs = set refs"
proof -
  let ?f = "encoded_ref env validate encode"
  obtain items items' where i: "map_res ?f refs = Inr items" "rs = by_encoding items"
      "map_res ?f refs' = Inr items'" "rs' = by_encoding items'"
    using assms(1,2) unfolding canonical_refs_Inr by blast
  have mem: "x \<in> set xs \<longleftrightarrow> snd x \<in> set ys \<and> ?f (snd x) = Inr x" if m: "map_res ?f ys = Inr xs" for x xs ys
  proof
    assume "x \<in> set xs"
    then obtain r where "r \<in> set ys" "?f r = Inr x" by (rule map_res_memberE [OF m])
    then show "snd x \<in> set ys \<and> ?f (snd x) = Inr x" by (auto simp: encoded_ref_Inr)
  next
    assume a: "snd x \<in> set ys \<and> ?f (snd x) = Inr x"
    obtain y where "y \<in> set xs" "?f (snd x) = Inr y" by (rule map_res_coversE [OF m conjunct1 [OF a]])
    with a show "x \<in> set xs" by simp
  qed
  have eq: "set items' = set items" using mem [OF i(1)] mem [OF i(3)] assms(3) by auto
  have inj: "x = y" if "x \<in> set items" "y \<in> set items" "fst x = fst y" for x y
    using that assms(4) [of "snd x" "snd y"] mem [OF i(1)] by (auto simp: encoded_ref_Inr prod_eq_iff)
  have keep: "set (kept_items xs) = set items" if s: "set xs = set items" for xs
  proof
    show "set (kept_items xs) \<subseteq> set items" using kept_items(4) s by blast
    show "set items \<subseteq> set (kept_items xs)"
    proof
      fix x assume x: "x \<in> set items"
      then have "fst x \<in> fst ` set (kept_items xs)" by (simp add: kept_items(5) s)
      then obtain y where y: "y \<in> set (kept_items xs)" "fst x = fst y" by blast
      then have "y \<in> set items" using kept_items(4) s by blast
      then show "x \<in> set (kept_items xs)" using inj [OF x] y by simp
    qed
  qed
  have "kept_items items = kept_items items'"
    by (intro sorted_distinct_pairs_unique kept_items) (simp add: keep eq)
  moreover have "snd ` set items = set refs"
  proof
    show "snd ` set items \<subseteq> set refs" using mem [OF i(1)] by blast
    show "set refs \<subseteq> snd ` set items"
    proof
      fix r assume "r \<in> set refs"
      then obtain y where "y \<in> set items" "?f r = Inr y" by (rule map_res_coversE [OF i(1)])
      then show "r \<in> snd ` set items" by (auto simp: encoded_ref_Inr)
    qed
  qed
  ultimately show ?thesis using keep [OF eq] by (simp add: i kept_items(1))
qed

section \<open>Identifiers and manifest lines\<close>

definition valid_identifier :: "string \<Rightarrow> bool" where
  "valid_identifier s \<longleftrightarrow> s \<noteq> [] \<and> is_ascii s \<and> length s \<le> 128"

lemma validate_identifier_Inr [res_simps]: "validate_identifier s = Inr t \<longleftrightarrow> t = s \<and> valid_identifier s"
  by (auto simp: validate_identifier_def valid_identifier_def)

definition valid_hash :: "string \<Rightarrow> bool" where
  "valid_hash s \<longleftrightarrow> length s = 64 \<and> list_all lower_hex s"

lemma validate_content_hash_Inr [res_simps]: "validate_content_hash s = Inr t \<longleftrightarrow> t = s \<and> valid_hash s"
  by (auto simp: validate_content_hash_def valid_hash_def)

text \<open>A manifest line that its constructor accepts.\<close>

definition valid_item :: "manifest_entry \<Rightarrow> bool" where
  "valid_item e \<longleftrightarrow> new_manifest_entry (me_entry e) (me_version e) (me_hash e) (me_state e) = Inr e"

lemma valid_item_iff:
  "valid_item e \<longleftrightarrow> valid_identifier (me_entry e) \<and> valid_identifier (me_version e)
     \<and> valid_hash (me_hash e) \<and> me_state e \<noteq> NoState"
  by (auto simp: valid_item_def new_manifest_entry_def res_simps)

lemma new_manifest_entry_valid:
  "new_manifest_entry e v h s = Inr x \<longleftrightarrow> x = \<lparr>me_entry = e, me_version = v, me_hash = h, me_state = s\<rparr> \<and> valid_item x"
proof -
  have "new_manifest_entry e v h s = Inr x \<Longrightarrow> x = \<lparr>me_entry = e, me_version = v, me_hash = h, me_state = s\<rparr>"
    by (auto simp: new_manifest_entry_def res_simps)
  then show ?thesis by (auto simp: valid_item_def)
qed

lemma new_manifest_entry_Inr:
  "valid_identifier e \<Longrightarrow> valid_identifier v \<Longrightarrow> valid_hash h \<Longrightarrow> s \<noteq> NoState \<Longrightarrow>
     new_manifest_entry e v h s = Inr \<lparr>me_entry = e, me_version = v, me_hash = h, me_state = s\<rparr>"
  by (simp add: new_manifest_entry_valid valid_item_iff)

lemma new_change_entry: "new_change env op e f t r = Inr c \<Longrightarrow> mc_entry c = e \<and> mc_op c = op \<and> mc_from c = f \<and> mc_to c = t
    \<and> valid_identifier e"
  by (auto simp: new_change_def res_simps)

section \<open>Manifests as maps\<close>

definition manifest_ok :: "(string, manifest_entry) gomap \<Rightarrow> bool" where
  "manifest_ok m \<longleftrightarrow> gm_wf m \<and> (\<forall>(k, e) \<in> set m. me_entry e = k \<and> valid_item e)"

definition wf_manifest :: "manifest_entry list \<Rightarrow> bool" where
  "wf_manifest es \<longleftrightarrow> sorted (map me_entry es) \<and> distinct (map me_entry es) \<and> list_all valid_item es"

lemma manifest_ok_Nil [simp]: "manifest_ok []"
  by (simp add: manifest_ok_def)

lemma manifest_ok_set:
  assumes "manifest_ok m" "me_entry e = k" "valid_item e" shows "manifest_ok (gm_set k e m)"
proof -
  have wf: "gm_wf m" "gm_wf (gm_set k e m)" using assms(1) by (auto simp: manifest_ok_def gomap_simps)
  show ?thesis unfolding manifest_ok_def
  proof (intro conjI ballI)
    fix x assume "x \<in> set (gm_set k e m)"
    then have "gm_get (gm_set k e m) (fst x) = Some (snd x)" using gm_get_iff [OF wf(2)] by simp
    then have "(fst x = k \<and> snd x = e) \<or> x \<in> set m"
      using gm_get_iff [OF wf(1)] by (auto simp: gomap_simps split: if_splits)
    then show "case x of (k, e) \<Rightarrow> me_entry e = k \<and> valid_item e" using assms by (auto simp: manifest_ok_def)
  qed (rule wf)
qed

lemma manifest_map_ok: "list_all valid_item es \<Longrightarrow> manifest_ok (manifest_map es)"
proof -
  have "list_all valid_item es \<Longrightarrow> manifest_ok m \<Longrightarrow> manifest_ok (gm_of_list me_entry id es m)" for m
    by (induction es arbitrary: m) (simp_all add: manifest_ok_set)
  then show "list_all valid_item es \<Longrightarrow> manifest_ok (manifest_map es)" by (simp add: manifest_map_def)
qed

lemma manifest_ok_get: "manifest_ok m \<Longrightarrow> gm_get m k = Some e \<Longrightarrow> me_entry e = k \<and> valid_item e"
  using map_of_SomeD by (fastforce simp: manifest_ok_def)

lemma sorted_manifest_wf:
  assumes "manifest_ok m"
  shows "wf_manifest (sorted_manifest m)" "set (sorted_manifest m) = snd ` set m"
    "e \<in> set (sorted_manifest m) \<longleftrightarrow> gm_get m (me_entry e) = Some e"
proof -
  have "map me_entry (map snd m) = map fst m" using assms by (auto simp: manifest_ok_def)
  then have "distinct (map me_entry (map snd m))" using assms unfolding manifest_ok_def gm_wf_def by metis
  then show "wf_manifest (sorted_manifest m)"
    using assms by (auto simp: wf_manifest_def sorted_manifest_def distinct_map manifest_ok_def list_all_iff simp del: map_map)
  show s: "set (sorted_manifest m) = snd ` set m" by (simp add: sorted_manifest_def)
  show "e \<in> set (sorted_manifest m) \<longleftrightarrow> gm_get m (me_entry e) = Some e"
    unfolding s using assms gm_get_iff [of m "me_entry e" e] by (force simp: manifest_ok_def)
qed

lemma manifest_map_get:
  assumes "distinct (map me_entry es)"
  shows "gm_get (manifest_map es) k = Some e \<longleftrightarrow> e \<in> set es \<and> me_entry e = k"
proof
  assume "gm_get (manifest_map es) k = Some e"
  then show "e \<in> set es \<and> me_entry e = k"
    unfolding manifest_map_def by (auto dest!: gm_get_of_list_Some)
next
  assume "e \<in> set es \<and> me_entry e = k"
  then show "gm_get (manifest_map es) k = Some e"
    using gm_get_of_list [OF assms, of e id "[]"] by (auto simp: manifest_map_def)
qed

lemma wf_manifest_unique:
  assumes "wf_manifest es" "wf_manifest es'" "set es = set es'" shows "es = es'"
proof (rule map_sorted_distinct_set_unique [of me_entry])
  have "distinct (map me_entry es)" using assms(1) by (simp add: wf_manifest_def)
  then show "inj_on me_entry (set es \<union> set es')" using assms(3) by (simp add: distinct_map)
qed (use assms in \<open>auto simp: wf_manifest_def\<close>)

lemma sorted_manifest_map:
  assumes "wf_manifest es" shows "sorted_manifest (manifest_map es) = es"
proof -
  have d: "distinct (map me_entry es)" and ok: "manifest_ok (manifest_map es)"
    using assms by (simp_all add: wf_manifest_def manifest_map_ok)
  have "set (sorted_manifest (manifest_map es)) = set es"
    using sorted_manifest_wf(3) [OF ok] manifest_map_get [OF d] by auto
  then show ?thesis by (rule wf_manifest_unique [OF sorted_manifest_wf(1) [OF ok] assms])
qed

end
