(* ===== verification/Memory_Plan.thy ===== *)
theory Memory_Plan
  imports Memory_Model "HOL-Library.Word"
begin

text \<open>
  The Memory service (\<open>artifact/memory/service.go\<close>, \<open>service_plan.go\<close>, \<open>service_transition.go\<close>,
  \<open>service_projection.go\<close>): planning a remember operation, forgetting and reactivating entries,
  organizing a manifest, and preparing the search projections of a commit. The service is a record of
  what \<open>NewService\<close> is given: the backend as functions over an abstract store state, the resolvers, the
  candidate pipeline and the embedding model (external services), and the identity factory, whose n-th
  call is its value at n. Embedding components are the 64-bit patterns of Go's \<open>float64\<close>; addition,
  multiplication, division and square root are fields of \<open>float_ops\<close>.
\<close>

section \<open>Embeddings\<close>

type_synonym float64 = "64 word"

record float_ops =
  fo_add :: "float64 \<Rightarrow> float64 \<Rightarrow> float64"
  fo_mul :: "float64 \<Rightarrow> float64 \<Rightarrow> float64"
  fo_div :: "float64 \<Rightarrow> float64 \<Rightarrow> float64"
  fo_sqrt :: "float64 \<Rightarrow> float64"

definition finite64 :: "float64 \<Rightarrow> bool" where
  "finite64 w \<longleftrightarrow> take_bit 11 (drop_bit 52 w) \<noteq> 0x7FF"

definition abs64 :: "float64 \<Rightarrow> float64" where
  "abs64 w = take_bit 63 w"

record embedding_profile =
  ep_id :: string
  ep_model :: string
  ep_dimension :: int
  ep_distance :: string
  ep_normalization :: string

definition new_embedding_profile :: "string \<Rightarrow> string \<Rightarrow> int \<Rightarrow> string \<Rightarrow> memory_error + embedding_profile" where
  "new_embedding_profile profile_id model dimension normalization =
     (if profile_id = [] \<or> model = [] then Inl (MemoryFault ''embedding profile identifiers must not be empty'')
      else if dimension < 1 then Inl (CanonicalError ''dimension-positive'' [])
      else if normalization \<noteq> ''none'' \<and> normalization \<noteq> ''unit''
        then Inl (MemoryFault ''unsupported embedding normalization'')
      else Inr \<lparr>ep_id = profile_id, ep_model = model, ep_dimension = dimension, ep_distance = ''l2'',
             ep_normalization = normalization\<rparr>)"

definition validate_embedding :: "float64 list \<Rightarrow> int \<Rightarrow> memory_error + float64 list" where
  "validate_embedding values dimension =
     (if dimension < 1 then Inl (CanonicalError ''dimension-positive'' [])
      else if int (length values) \<noteq> dimension then Inl (CanonicalError ''vector-dimension'' (show_int dimension))
      else if \<not> list_all finite64 values then Inl (CanonicalError ''vector-finite'' [])
      else Inr values)"

definition normalize_embedding :: "float_ops \<Rightarrow> float64 list \<Rightarrow> int \<Rightarrow> memory_error + float64 list" where
  "normalize_embedding fo values dimension =
     and_then (validate_embedding values dimension) (\<lambda>vector.
     let scale = foldl (\<lambda>s v. max s (abs64 v)) 0 vector in
     if scale = 0 then Inl (CanonicalError ''vector-zero'' [])
     else let scaled = map (\<lambda>v. fo_div fo v scale) vector;
              norm_squared = foldl (\<lambda>n v. fo_add fo n (fo_mul fo v v)) 0 scaled;
              norm_value = fo_sqrt fo norm_squared
          in Inr (map (\<lambda>v. fo_div fo v norm_value) scaled))"

definition canonical_embedding :: "float_ops \<Rightarrow> float64 list \<Rightarrow> int \<Rightarrow> string \<Rightarrow> memory_error + float64 list" where
  "canonical_embedding fo values dimension normalization =
     (if normalization = ''unit'' then normalize_embedding fo values dimension
      else validate_embedding values dimension)"

definition embedding_content_hash :: "canonical_env \<Rightarrow> embedding_profile \<Rightarrow> string \<Rightarrow> memory_error + string" where
  "embedding_content_hash env profile hash =
     and_then (check (1 \<le> ep_dimension profile) (CanonicalError ''dimension-positive'' [])) (\<lambda>_.
     and_then (validate_content_hash hash) (\<lambda>_.
     and_then (normalize_non_empty env (ep_id profile) ''embedding profile ID'') (\<lambda>profile_id.
     and_then (normalize_non_empty env (ep_model profile) ''embedding model'') (\<lambda>model.
     and_then (normalize_non_empty env (ep_distance profile) ''embedding distance'') (\<lambda>distance.
     and_then (normalize_non_empty env (ep_normalization profile) ''embedding normalization'') (\<lambda>normalization.
     and_then (canonical_json env (JObj [(''profile'', JObj [(''profile_id'', JStr profile_id), (''model'', JStr model),
         (''dimension'', JNum (show_int (ep_dimension profile))), (''distance'', JStr distance),
         (''normalization'', JStr normalization)]), (''entry_content_hash'', JStr hash)])) (\<lambda>encoded.
     Inr (domain_hash env embedding_hash_domain encoded))))))))"

section \<open>Commits, plans and the service\<close>

record memory_capabilities =
  cp_fts :: bool
  cp_vector :: bool
  cp_hybrid :: bool
  cp_profile :: "embedding_profile option"

record memory_projection =
  pj_entry :: entry_version
  pj_searchable :: string
  pj_embedding :: "float64 list option"
  pj_hash :: "string option"

record memory_commit =
  cm_base :: "memory option"
  cm_memory :: memory
  cm_hash :: string
  cm_entries :: "entry_version list"
  cm_projections :: "memory_projection list"

record write_plan =
  wp_result :: "memory option"
  wp_commit :: "memory_commit option"

record 'x entry_input =
  ei_entry :: "entry_version option"
  ei_kind :: string
  ei_text :: string
  ei_sources :: "product_value list"
  ei_artifacts :: "'x artifact list"
  ei_reason :: "string option"

text \<open>A reference to one entry of one revision; of a search hit the backend reads the same three fields.\<close>

record citation =
  ct_memory :: artifact_ref
  ct_entry :: string
  ct_version :: string

record revision_changes =
  rc_ref :: artifact_ref
  rc_changes :: "memory_change list"

record 's memory_backend =
  mb_capabilities :: memory_capabilities
  mb_get :: "'s \<Rightarrow> artifact_ref \<Rightarrow> memory_error + memory"
  mb_latest :: "'s \<Rightarrow> string \<Rightarrow> memory_error + memory"
  mb_entries :: "'s \<Rightarrow> artifact_ref \<Rightarrow> memory_error + entry_version list"
  mb_projections :: "'s \<Rightarrow> artifact_ref \<Rightarrow> memory_error + memory_projection list"
  mb_commit :: "'s \<Rightarrow> memory_commit \<Rightarrow> memory_error + memory \<times> 's"
  mb_changes :: "'s \<Rightarrow> artifact_ref \<Rightarrow> int option \<Rightarrow> memory_error + revision_changes list"
  mb_expand :: "'s \<Rightarrow> citation list \<Rightarrow> memory_error + entry_version list"

record source_resolver =
  rs_get :: "product_value \<Rightarrow> memory_error + product_value"
  rs_ref :: "product_value \<Rightarrow> memory_error + source_ref"

record ('s, 'x) memory_service =
  ms_env :: canonical_env
  ms_analyze :: "string \<Rightarrow> string"
  ms_backend :: "'s memory_backend"
  ms_pipeline :: "(product_value list \<Rightarrow> 'x artifact list \<Rightarrow> entry_version list \<Rightarrow> memory_error + 'x entry_input list) option"
  ms_embedding :: "(embedding_profile \<times> (string list \<Rightarrow> memory_error + float64 list list)) option"
  ms_float :: float_ops
  ms_sources :: "source_resolver option"
  ms_artifacts :: "('x artifact \<Rightarrow> memory_error + 'x artifact) option"
  ms_ids :: "string \<Rightarrow> nat \<Rightarrow> memory_error + string"

record 'x operation_evidence =
  oe_sources :: "product_value list"
  oe_artifacts :: "'x artifact list"

datatype remember_mode = RememberAppend | RememberExtract | RememberAuto | RememberOther string

definition select_remember_mode :: "remember_mode \<Rightarrow> bool \<Rightarrow> bool \<Rightarrow> memory_error + remember_mode" where
  "select_remember_mode mode has_entries has_evidence = (case mode of
     RememberAppend \<Rightarrow> (if \<not> has_entries then Inl (InvalidOperation ''append-entries'') else Inr RememberAppend)
   | RememberExtract \<Rightarrow>
      (if has_entries \<or> \<not> has_evidence then Inl (InvalidOperation ''extract-evidence'') else Inr RememberExtract)
   | RememberAuto \<Rightarrow>
      (if has_entries then Inr RememberAppend
       else if has_evidence then Inr RememberExtract
       else Inl (InvalidOperation ''no-work''))
   | RememberOther m \<Rightarrow> Inl (InvalidCandidate ''remember-mode'' m))"

section \<open>Reading the base\<close>

definition canonical_base ::
  "('s, 'x) memory_service \<Rightarrow> 's \<Rightarrow> memory option \<Rightarrow> memory_error + memory option" where
  "canonical_base svc st value = (case value of
     None \<Rightarrow> Inr None
   | Some m \<Rightarrow>
      and_then (mb_get (ms_backend svc) st (a_ref m)) (\<lambda>exact.
      and_then (check (exact = m) (InvalidCitation ''base-mismatch'')) (\<lambda>_.
      and_then (mb_latest (ms_backend svc) st (ar_id (a_ref m))) (\<lambda>latest.
      and_then (check (latest = exact) (MemoryArtifact (ArtRevisionConflict (a_ref m) (a_ref latest)))) (\<lambda>_.
      Inr (Some exact))))))"

definition canonical_memory :: "('s, 'x) memory_service \<Rightarrow> 's \<Rightarrow> memory \<Rightarrow> memory_error + memory" where
  "canonical_memory svc st m =
     and_then (mb_get (ms_backend svc) st (a_ref m)) (\<lambda>exact.
     and_then (check (exact = m) (InvalidCitation ''memory-mismatch'')) (\<lambda>_. Inr exact))"

definition append_unique :: "'a \<Rightarrow> 'a list \<Rightarrow> 'a list" where
  "append_unique v vs = (if v \<in> set vs then vs else vs @ [v])"

definition canonical_operation_evidence ::
  "('s, 'x) memory_service \<Rightarrow> product_value list \<Rightarrow> 'x artifact list \<Rightarrow> memory_error + 'x operation_evidence" where
  "canonical_operation_evidence svc sources artifacts =
     and_then (fold_res (\<lambda>value acc.
       and_then (map_sum MemoryIngest id (require_evidence value)) (\<lambda>_.
       case ms_sources svc of
         None \<Rightarrow> Inl (InvalidEvidence ''source-resolver'')
       | Some resolver \<Rightarrow> and_then (rs_get resolver value) (\<lambda>canonical. Inr (append_unique canonical acc)))) sources []) (\<lambda>ss.
     and_then (fold_res (\<lambda>value acc.
       case ms_artifacts svc of
         None \<Rightarrow> Inl (InvalidEvidence ''artifact-resolver'')
       | Some get \<Rightarrow> and_then (get value) (\<lambda>canonical. Inr (append_unique canonical acc))) artifacts []) (\<lambda>as.
     Inr \<lparr>oe_sources = ss, oe_artifacts = as\<rparr>))"

definition index_versions :: "entry_version list \<Rightarrow> memory_error + (string, entry_version) gomap" where
  "index_versions versions = fold_res (\<lambda>v by_id.
     if gm_get by_id (ev_id v) \<noteq> None then Inl (InvalidCitation ''duplicate-versions'')
     else Inr (gm_set (ev_id v) v by_id)) versions []"

definition validated_entry ::
  "canonical_env \<Rightarrow> string \<Rightarrow> (string, entry_version) gomap \<Rightarrow> manifest_entry \<Rightarrow> memory_error + entry_version" where
  "validated_entry env memory_id by_id item = (case gm_get by_id (me_version item) of
     None \<Rightarrow> Inl (InvalidCitation ''missing-version'')
   | Some v \<Rightarrow>
      and_then (check (ev_memory v = memory_id \<and> ev_entry v = me_entry item) (InvalidCitation ''cross-identity'')) (\<lambda>_.
      and_then (material_from_version env v) (\<lambda>material.
      and_then (check (em_hash material = me_hash item) (InvalidCitation ''hash-mismatch'')) (\<lambda>_. Inr v))))"

definition validated_entries :: "('s, 'x) memory_service \<Rightarrow> 's \<Rightarrow> memory \<Rightarrow> memory_error + entry_version list" where
  "validated_entries svc st m =
     and_then (mb_entries (ms_backend svc) st (a_ref m)) (\<lambda>versions.
     and_then (index_versions versions) (\<lambda>by_id.
     map_res (validated_entry (ms_env svc) (ar_id (a_ref m)) by_id) (cn_manifest (a_content m))))"

section \<open>Candidates\<close>

fun product_name :: "product_value \<Rightarrow> string" where
  "product_name (ContentValue v) = sv_name v"
| "product_name (SnapshotValue v) = sv_name v"
| "product_name (NativeValue v) = sv_name v"
| "product_name (RawValue ob) = sr_id (so_ref ob)"
| "product_name (AcceptedValue ob) = sr_id (so_ref ob)"

fun product_materialization :: "product_value \<Rightarrow> string" where
  "product_materialization (ContentValue v) = sv_materialization v"
| "product_materialization (SnapshotValue v) = sv_materialization v"
| "product_materialization (NativeValue v) = sv_materialization v"
| "product_materialization (RawValue ob) = ''captured''"
| "product_materialization (AcceptedValue ob) = ''captured''"

definition new_candidate_request ::
  "product_value list \<Rightarrow> 'x artifact list \<Rightarrow> entry_version list
    \<Rightarrow> memory_error + product_value list \<times> 'x artifact list \<times> entry_version list" where
  "new_candidate_request sources artifacts current =
     and_then (map_res (\<lambda>v.
       and_then (map_sum MemoryIngest id (require_evidence v)) (\<lambda>_.
       and_then (map_sum MemorySource id (new_source_ref ''source'' (product_name v))) (\<lambda>_.
       check (product_materialization v = ''captured'' \<or> product_materialization v = ''referenced'')
         (MemoryFault ''invalid Source materialization'')))) sources) (\<lambda>_.
     and_then (map_res (\<lambda>a. map_sum MemoryArtifact id (validate_artifact_ref (a_ref a))) artifacts) (\<lambda>_.
     Inr (sources, artifacts, current)))"

definition active_version_ids :: "memory option \<Rightarrow> string list" where
  "active_version_ids base = (case base of
     None \<Rightarrow> []
   | Some m \<Rightarrow> map me_version (filter (\<lambda>e. me_state e = Active) (cn_manifest (a_content m))))"

definition candidate_inputs ::
  "('s, 'x) memory_service \<Rightarrow> remember_mode \<Rightarrow> 'x entry_input list \<Rightarrow> 'x operation_evidence \<Rightarrow> memory option
    \<Rightarrow> entry_version list \<Rightarrow> memory_error + 'x entry_input list" where
  "candidate_inputs svc mode entries evidence base current =
     (if mode = RememberAppend then Inr entries
      else case ms_pipeline svc of
        None \<Rightarrow> Inl (CapabilityNotSupported ''extract'')
      | Some extract \<Rightarrow>
         and_then (new_candidate_request (oe_sources evidence) (oe_artifacts evidence)
           (filter (\<lambda>v. ev_id v \<in> set (active_version_ids base)) current)) (\<lambda>(ss, as, vs). extract ss as vs))"

definition source_refs :: "('s, 'x) memory_service \<Rightarrow> product_value list \<Rightarrow> memory_error + source_ref list" where
  "source_refs svc values =
     (if values = [] then Inr []
      else case ms_sources svc of
        None \<Rightarrow> Inl (InvalidEvidence ''source-adapter'')
      | Some resolver \<Rightarrow>
         and_then (map_res (\<lambda>v. map_sum (\<lambda>_. InvalidEvidence ''source-adapter'') id (rs_ref resolver v)) values)
           (canonical_source_refs (ms_env svc)))"

definition canonical_candidate_sources ::
  "('s, 'x) memory_service \<Rightarrow> product_value list \<Rightarrow> product_value list \<Rightarrow> memory_error + product_value list" where
  "canonical_candidate_sources svc values allowed = fold_res (\<lambda>value acc.
     and_then (case ms_sources svc of None \<Rightarrow> Inr value | Some resolver \<Rightarrow> rs_get resolver value) (\<lambda>canonical.
     if canonical \<notin> set allowed then Inl (InvalidEvidence ''source-outside'')
     else Inr (append_unique canonical acc))) values []"

definition canonical_candidate_artifacts ::
  "('s, 'x) memory_service \<Rightarrow> 'x artifact list \<Rightarrow> 'x artifact list \<Rightarrow> artifact_ref list \<Rightarrow> memory_error + artifact_ref list" where
  "canonical_candidate_artifacts svc values allowed previous = fold_res (\<lambda>value acc.
     and_then (case ms_artifacts svc of None \<Rightarrow> Inr value | Some get \<Rightarrow> get value) (\<lambda>canonical.
     if a_ref canonical \<notin> a_ref ` set allowed \<union> set previous then Inl (InvalidEvidence ''artifact-outside'')
     else Inr (append_unique (a_ref canonical) acc))) values []"

definition material_from_candidate ::
  "('s, 'x) memory_service \<Rightarrow> 'x entry_input \<Rightarrow> 'x operation_evidence \<Rightarrow> entry_version option \<Rightarrow> memory_error + entry_material" where
  "material_from_candidate svc candidate evidence previous =
     (let (prev_sources, prev_artifacts) = (case previous of None \<Rightarrow> ([], []) | Some p \<Rightarrow> (ev_sources p, ev_artifacts p)) in
     and_then (canonical_candidate_sources svc (ei_sources candidate) (oe_sources evidence)) (\<lambda>sources.
     and_then (source_refs svc sources) (\<lambda>refs.
     and_then (canonical_candidate_artifacts svc (ei_artifacts candidate) (oe_artifacts evidence) prev_artifacts) (\<lambda>artifacts.
     map_sum InvalidCandidateCanonical id
       (new_entry_material (ms_env svc) (ei_kind candidate) (ei_text candidate)
         (prev_sources @ refs) (prev_artifacts @ artifacts))))))"

section \<open>Planning a revision\<close>

definition new_id :: "('s, 'x) memory_service \<Rightarrow> string \<Rightarrow> nat \<Rightarrow> memory_error + string" where
  "new_id svc kind n = and_then (ms_ids svc kind n) validate_identifier"

definition new_entry_version ::
  "('s, 'x) memory_service \<Rightarrow> string \<Rightarrow> string \<Rightarrow> entry_version option \<Rightarrow> entry_material \<Rightarrow> int \<Rightarrow> nat \<Rightarrow> memory_error + entry_version" where
  "new_entry_version svc memory_id entry_id previous material revision n =
     and_then (new_id svc ''version'' n) (\<lambda>version_id.
     Inr \<lparr>ev_memory = memory_id, ev_entry = entry_id, ev_id = version_id,
       ev_version = (case previous of None \<Rightarrow> 1 | Some p \<Rightarrow> wrap64 (ev_version p + 1)),
       ev_previous = map_option ev_id previous,
       ev_kind = em_kind material, ev_text = em_text material, ev_hash = em_hash material,
       ev_revision = revision, ev_sources = em_sources material, ev_artifacts = em_artifacts material\<rparr>)"

record plan_state =
  ps_manifest :: "(string, manifest_entry) gomap"
  ps_current :: "(string, entry_version) gomap"
  ps_versions :: "entry_version list"
  ps_changes :: "memory_change list"
  ps_targeted :: "string list"
  ps_content :: "string list"
  ps_ids :: nat

text \<open>Both branches of the candidate loop end by recording the new version of an entry.\<close>

definition record_version ::
  "('s, 'x) memory_service \<Rightarrow> change_op \<Rightarrow> string option \<Rightarrow> string option \<Rightarrow> entry_version \<Rightarrow> plan_state \<Rightarrow> memory_error + plan_state" where
  "record_version svc op from_version reason version ps =
     and_then (new_change (ms_env svc) op (ev_entry version) from_version (Some (ev_id version)) reason) (\<lambda>change.
     Inr (ps\<lparr>ps_manifest := gm_set (ev_entry version) (or_zero zero_manifest_entry
             (new_manifest_entry (ev_entry version) (ev_id version) (ev_hash version) Active)) (ps_manifest ps),
           ps_current := gm_set (ev_entry version) version (ps_current ps),
           ps_versions := ps_versions ps @ [version],
           ps_changes := ps_changes ps @ [change],
           ps_ids := Suc (ps_ids ps)\<rparr>))"

definition plan_add ::
  "('s, 'x) memory_service \<Rightarrow> string \<Rightarrow> int \<Rightarrow> 'x operation_evidence \<Rightarrow> 'x entry_input \<Rightarrow> plan_state \<Rightarrow> memory_error + plan_state" where
  "plan_add svc memory_id revision evidence candidate ps =
     and_then (material_from_candidate svc candidate evidence None) (\<lambda>material.
     if em_bytes material \<in> set (ps_content ps) then Inr ps
     else
       and_then (new_id svc ''entry'' (ps_ids ps)) (\<lambda>entry_id.
       and_then (check (gm_get (ps_manifest ps) entry_id = None) (InvalidOperation ''id-collision'')) (\<lambda>_.
       and_then (new_entry_version svc memory_id entry_id None material revision (Suc (ps_ids ps))) (\<lambda>version.
       record_version svc AddOp None (ei_reason candidate) version
         (ps\<lparr>ps_content := em_bytes material # ps_content ps, ps_ids := Suc (ps_ids ps)\<rparr>)))))"

definition claim_revision_target ::
  "'x entry_input \<Rightarrow> (string, entry_version) gomap \<Rightarrow> string list \<Rightarrow> memory_error + string \<times> entry_version" where
  "claim_revision_target candidate current targeted = (case ei_entry candidate of
     None \<Rightarrow> Inl (InvalidCitation ''entry-missing'')
   | Some entry \<Rightarrow>
      and_then (validate_identifier (ev_entry entry)) (\<lambda>entry_id.
      and_then (check (entry_id \<notin> set targeted) (InvalidOperation ''duplicate-target'')) (\<lambda>_.
      case gm_get current entry_id of
        None \<Rightarrow> Inl (EntryNotFound entry_id)
      | Some previous \<Rightarrow>
         and_then (check (entry = previous) (InvalidCitation ''entry-mismatch'')) (\<lambda>_. Inr (entry_id, previous)))))"

definition plan_revise ::
  "('s, 'x) memory_service \<Rightarrow> string \<Rightarrow> int \<Rightarrow> 'x operation_evidence \<Rightarrow> 'x entry_input \<Rightarrow> plan_state \<Rightarrow> memory_error + plan_state" where
  "plan_revise svc memory_id revision evidence candidate ps =
     and_then (claim_revision_target candidate (ps_current ps) (ps_targeted ps)) (\<lambda>(entry_id, previous).
     let ps1 = ps\<lparr>ps_targeted := entry_id # ps_targeted ps\<rparr> in
     case gm_get (ps_manifest ps) entry_id of
       None \<Rightarrow> Inl (EntryNotFound entry_id)
     | Some item \<Rightarrow>
        (if me_state item = Inactive then Inl (EntryInactive entry_id)
         else
           and_then (material_from_candidate svc candidate evidence (Some previous)) (\<lambda>material.
           and_then (material_from_version (ms_env svc) previous) (\<lambda>previous_material.
           if em_hash material = em_hash previous_material \<and> em_bytes material = em_bytes previous_material then Inr ps1
           else
             and_then (new_entry_version svc memory_id entry_id (Some previous) material revision (ps_ids ps)) (\<lambda>version.
             record_version svc ReviseOp (Some (ev_id previous)) (ei_reason candidate) version ps1)))))"

definition plan_candidate ::
  "('s, 'x) memory_service \<Rightarrow> string \<Rightarrow> int \<Rightarrow> 'x operation_evidence \<Rightarrow> 'x entry_input \<Rightarrow> plan_state \<Rightarrow> memory_error + plan_state" where
  "plan_candidate svc memory_id revision evidence candidate ps =
     (if ei_entry candidate = None then plan_add svc memory_id revision evidence candidate ps
      else plan_revise svc memory_id revision evidence candidate ps)"

text \<open>The content of the entries that are active before the operation.\<close>

definition active_content ::
  "canonical_env \<Rightarrow> (string, manifest_entry) gomap \<Rightarrow> entry_version list \<Rightarrow> memory_error + string list" where
  "active_content env manifest current =
     and_then (map_res (material_from_version env)
       (filter (\<lambda>v. case gm_get manifest (ev_entry v) of None \<Rightarrow> False | Some item \<Rightarrow> me_state item = Active) current))
       (\<lambda>ms. Inr (map em_bytes ms))"

section \<open>Projections\<close>

definition embedding_profile_matches :: "embedding_profile \<Rightarrow> embedding_profile \<Rightarrow> bool" where
  "embedding_profile_matches value profile \<longleftrightarrow> ep_id value = ep_id profile \<and> ep_model value = ep_model profile
     \<and> ep_dimension value = ep_dimension profile \<and> ep_normalization value = ep_normalization profile"

definition embed_texts ::
  "('s, 'x) memory_service \<Rightarrow> string list \<Rightarrow> embedding_profile \<Rightarrow> memory_error + float64 list list" where
  "embed_texts svc texts profile = (case ms_embedding svc of
     None \<Rightarrow> Inl (CapabilityNotSupported ''embedding-profile'')
   | Some (own, embedder) \<Rightarrow>
      (if \<not> embedding_profile_matches own profile then Inl (CapabilityNotSupported ''embedding-profile'')
       else
         and_then (embedder texts) (\<lambda>vectors.
         and_then (check (length vectors = length texts) (InvalidEmbedding ''count'')) (\<lambda>_.
         map_res (\<lambda>v. canonical_embedding (ms_float svc) v (ep_dimension profile) (ep_normalization profile)) vectors))))"

text \<open>A prepared projection with whether it still has to be embedded.\<close>

definition prepare_projection ::
  "('s, 'x) memory_service \<Rightarrow> (string, memory_projection) gomap \<Rightarrow> (string, entry_version) gomap \<Rightarrow> string list
    \<Rightarrow> manifest_entry \<Rightarrow> memory_error + memory_projection \<times> bool" where
  "prepare_projection svc previous versions changed item = (case gm_get versions (me_entry item) of
     None \<Rightarrow> Inl (InvalidCitation ''projection-version'')
   | Some version \<Rightarrow>
      and_then (check (ev_id version = me_version item) (InvalidCitation ''projection-version'')) (\<lambda>_.
      let searchable = ms_analyze svc (ev_text version);
          fresh = (\<lparr>pj_entry = version, pj_searchable = searchable, pj_embedding = None, pj_hash = None\<rparr>, True) in
      Inr (case gm_get previous (ev_id version) of
        None \<Rightarrow> fresh
      | Some old \<Rightarrow>
         (if ev_id version \<notin> set changed \<and> ev_id (pj_entry old) = ev_id version
             \<and> ev_hash (pj_entry old) = ev_hash version \<and> pj_searchable old = searchable
          then (\<lparr>pj_entry = version, pj_searchable = searchable, pj_embedding = pj_embedding old, pj_hash = pj_hash old\<rparr>, False)
          else fresh))))"

fun fill_embeddings ::
  "canonical_env \<Rightarrow> embedding_profile \<Rightarrow> (memory_projection \<times> bool) list \<Rightarrow> float64 list list \<Rightarrow> memory_error + memory_projection list" where
  "fill_embeddings env profile [] vectors = Inr []"
| "fill_embeddings env profile ((p, False) # ps) vectors =
     and_then (fill_embeddings env profile ps vectors) (\<lambda>rest. Inr (p # rest))"
| "fill_embeddings env profile ((p, True) # ps) [] = Inr (p # map fst ps)"
| "fill_embeddings env profile ((p, True) # ps) (v # vectors) =
     and_then (embedding_content_hash env profile (ev_hash (pj_entry p))) (\<lambda>hash.
     and_then (fill_embeddings env profile ps vectors) (\<lambda>rest.
     Inr (p\<lparr>pj_embedding := Some v, pj_hash := Some hash\<rparr> # rest)))"

fun is_unavailable :: "memory_error \<Rightarrow> bool" where
  "is_unavailable (MemoryInference transient _) = transient"
| "is_unavailable _ = False"

definition attach_embeddings ::
  "('s, 'x) memory_service \<Rightarrow> (memory_projection \<times> bool) list \<Rightarrow> memory_error + memory_projection list" where
  "attach_embeddings svc prepared =
     (let plain = map fst prepared; pending = map fst (filter snd prepared); caps = mb_capabilities (ms_backend svc) in
      case (ms_embedding svc, cp_profile caps) of
        (Some (own, _), Some profile) \<Rightarrow>
          (if pending = [] \<or> \<not> cp_vector caps \<or> \<not> embedding_profile_matches own profile then Inr plain
           else case embed_texts svc (map (\<lambda>p. ev_text (pj_entry p)) pending) profile of
             Inl e \<Rightarrow> if is_unavailable e then Inr plain else Inl e
           | Inr vectors \<Rightarrow> fill_embeddings (ms_env svc) profile prepared vectors)
      | _ \<Rightarrow> Inr plain)"

definition prepare_projections ::
  "('s, 'x) memory_service \<Rightarrow> 's \<Rightarrow> memory option \<Rightarrow> manifest_entry list \<Rightarrow> (string, entry_version) gomap \<Rightarrow> string list
    \<Rightarrow> memory_error + memory_projection list" where
  "prepare_projections svc st base manifest versions changed =
     and_then (case base of None \<Rightarrow> Inr [] | Some m \<Rightarrow> mb_projections (ms_backend svc) st (a_ref m)) (\<lambda>values.
     and_then (map_res (prepare_projection svc (gm_of_list (\<lambda>p. ev_id (pj_entry p)) id values []) versions changed)
       (filter (\<lambda>e. me_state e = Active) manifest)) (attach_embeddings svc))"

section \<open>Remembering\<close>

definition lift_artifact :: "artifact_error + 'a \<Rightarrow> memory_error + 'a" where
  "lift_artifact = map_sum MemoryArtifact id"

definition finish_commit ::
  "('s, 'x) memory_service \<Rightarrow> 's \<Rightarrow> memory option \<Rightarrow> string \<Rightarrow> int \<Rightarrow> source_ref list \<Rightarrow> artifact_ref list
    \<Rightarrow> (string, manifest_entry) gomap \<Rightarrow> memory_change list \<Rightarrow> (string, entry_version) gomap \<Rightarrow> entry_version list
    \<Rightarrow> memory_error + memory_commit" where
  "finish_commit svc st base memory_id revision sources artifacts manifest changes current versions =
     (let content = \<lparr>cn_manifest = sorted_manifest manifest, cn_changes = sorted_changes changes\<rparr> in
      and_then (lift_artifact (new_draft memory_family content sources artifacts)) (\<lambda>d.
      and_then (lift_artifact (new_artifact memory_id revision d)) (\<lambda>next.
      and_then (prepare_projections svc st base (cn_manifest content) current (map ev_id versions)) (\<lambda>projections.
      and_then (content_hash (ms_env svc) content) (\<lambda>hash.
      Inr \<lparr>cm_base = base, cm_memory = next, cm_hash = hash, cm_entries = versions, cm_projections = projections\<rparr>)))))"

definition prepare_commit ::
  "('s, 'x) memory_service \<Rightarrow> 's \<Rightarrow> memory option \<Rightarrow> 'x entry_input list \<Rightarrow> 'x operation_evidence \<Rightarrow> entry_version list
    \<Rightarrow> memory_error + memory_commit option" where
  "prepare_commit svc st base candidates evidence current_entries =
     and_then (case base of
         None \<Rightarrow> and_then (new_id svc ''memory'' 0) (\<lambda>i. Inr (i, 1, [], 1))
       | Some m \<Rightarrow> Inr (ar_id (a_ref m), wrap64 (ar_revision (a_ref m) + 1), manifest_map (cn_manifest (a_content m)), 0))
       (\<lambda>(memory_id, revision, manifest, ids).
     and_then (active_content (ms_env svc) manifest current_entries) (\<lambda>content.
     and_then (fold_res (plan_candidate svc memory_id revision evidence) candidates
         \<lparr>ps_manifest = manifest, ps_current = entry_map current_entries, ps_versions = [], ps_changes = [],
          ps_targeted = [], ps_content = content, ps_ids = ids\<rparr>) (\<lambda>ps.
     if ps_changes ps = [] then Inr None
     else
       and_then (source_refs svc (oe_sources evidence)) (\<lambda>refs.
       and_then (finish_commit svc st base memory_id revision refs (map a_ref (oe_artifacts evidence))
         (ps_manifest ps) (ps_changes ps) (ps_current ps) (ps_versions ps)) (\<lambda>commit. Inr (Some commit))))))"

definition plan_remember ::
  "('s, 'x) memory_service \<Rightarrow> 's \<Rightarrow> memory option \<Rightarrow> product_value list \<Rightarrow> 'x artifact list \<Rightarrow> 'x entry_input list
    \<Rightarrow> remember_mode \<Rightarrow> memory_error + write_plan" where
  "plan_remember svc st base sources artifacts entries mode =
     and_then (select_remember_mode mode (entries \<noteq> []) (sources \<noteq> [] \<or> artifacts \<noteq> [])) (\<lambda>selected.
     and_then (canonical_base svc st base) (\<lambda>canonical.
     and_then (canonical_operation_evidence svc sources artifacts) (\<lambda>evidence.
     and_then (case canonical of None \<Rightarrow> Inr [] | Some m \<Rightarrow> validated_entries svc st m) (\<lambda>current.
     and_then (candidate_inputs svc selected entries evidence canonical current) (\<lambda>candidates.
     if candidates = [] then Inr \<lparr>wp_result = canonical, wp_commit = None\<rparr>
     else
       and_then (prepare_commit svc st canonical candidates evidence current) (\<lambda>commit.
       Inr (case commit of
         None \<Rightarrow> \<lparr>wp_result = canonical, wp_commit = None\<rparr>
       | Some c \<Rightarrow> \<lparr>wp_result = Some (cm_memory c), wp_commit = Some c\<rparr>)))))))"

definition apply_write_plan ::
  "('s, 'x) memory_service \<Rightarrow> 's \<Rightarrow> write_plan \<Rightarrow> memory_error + memory option \<times> 's" where
  "apply_write_plan svc st plan = (case wp_commit plan of
     None \<Rightarrow> Inr (wp_result plan, st)
   | Some commit \<Rightarrow>
      and_then (mb_commit (ms_backend svc) st commit) (\<lambda>(committed, st').
      and_then (check (wp_result plan = Some committed) (InvalidCitation ''memory-mismatch'')) (\<lambda>_.
      Inr (Some committed, st'))))"

definition remember ::
  "('s, 'x) memory_service \<Rightarrow> 's \<Rightarrow> memory option \<Rightarrow> product_value list \<Rightarrow> 'x artifact list \<Rightarrow> 'x entry_input list
    \<Rightarrow> remember_mode \<Rightarrow> memory_error + memory option \<times> 's" where
  "remember svc st base sources artifacts entries mode =
     and_then (plan_remember svc st base sources artifacts entries mode) (apply_write_plan svc st)"

section \<open>Transitions of existing entries\<close>

definition commit_existing ::
  "('s, 'x) memory_service \<Rightarrow> 's \<Rightarrow> memory \<Rightarrow> (string, manifest_entry) gomap \<Rightarrow> memory_change list
    \<Rightarrow> (string, entry_version) gomap \<Rightarrow> entry_version list \<Rightarrow> memory_error + memory \<times> 's" where
  "commit_existing svc st base manifest changes current versions =
     and_then (finish_commit svc st (Some base) (ar_id (a_ref base)) (wrap64 (ar_revision (a_ref base) + 1)) [] []
       manifest changes current versions) (mb_commit (ms_backend svc) st)"

definition state_change ::
  "canonical_env \<Rightarrow> entry_state \<Rightarrow> string option \<Rightarrow> manifest_entry \<Rightarrow> memory_error + memory_change" where
  "state_change env target reason item =
     (if target = Active then new_change env ReactivateOp (me_entry item) None (Some (me_version item)) reason
      else new_change env DeactivateOp (me_entry item) (Some (me_version item)) None reason)"

definition set_state_step ::
  "canonical_env \<Rightarrow> (string, entry_version) gomap \<Rightarrow> entry_state \<Rightarrow> string option \<Rightarrow> entry_version
    \<Rightarrow> (string, manifest_entry) gomap \<times> memory_change list \<times> string list
    \<Rightarrow> memory_error + (string, manifest_entry) gomap \<times> memory_change list \<times> string list" where
  "set_state_step env current target reason requested = (\<lambda>(manifest, changes, seen).
     let identity = ev_entry requested @ [CHR 0x00] @ ev_id requested in
     if identity \<in> set seen then Inr (manifest, changes, seen)
     else let seen1 = identity # seen in
       and_then (validate_identifier (ev_entry requested)) (\<lambda>entry_id.
       case gm_get manifest entry_id of
         None \<Rightarrow> Inl (EntryNotFound entry_id)
       | Some item \<Rightarrow>
          (case gm_get current entry_id of
             None \<Rightarrow> Inl (EntryNotFound entry_id)
           | Some now \<Rightarrow>
              and_then (check (requested = now) (InvalidCitation ''entry-mismatch'')) (\<lambda>_.
              if me_state item = target then Inr (manifest, changes, seen1)
              else
                and_then (state_change env target reason item) (\<lambda>change.
                Inr (gm_set entry_id (or_zero zero_manifest_entry
                       (new_manifest_entry (me_entry item) (me_version item) (me_hash item) target)) manifest,
                     changes @ [change], seen1))))))"

definition set_entry_state ::
  "('s, 'x) memory_service \<Rightarrow> 's \<Rightarrow> memory \<Rightarrow> entry_version list \<Rightarrow> entry_state \<Rightarrow> string option
    \<Rightarrow> memory_error + memory \<times> 's" where
  "set_entry_state svc st value entries target reason =
     and_then (canonical_base svc st (Some value)) (\<lambda>canonical.
     let base = the canonical in
     and_then (validated_entries svc st base) (\<lambda>current_entries.
     and_then (normalize_reason (ms_env svc) reason) (\<lambda>normalized.
     and_then (fold_res (set_state_step (ms_env svc) (entry_map current_entries) target normalized) entries
       (manifest_map (cn_manifest (a_content base)), [], [])) (\<lambda>(manifest, changes, _).
     if changes = [] then Inr (base, st)
     else commit_existing svc st base manifest changes (entry_map current_entries) []))))"

definition forget :: "('s, 'x) memory_service \<Rightarrow> 's \<Rightarrow> memory \<Rightarrow> entry_version list \<Rightarrow> string option \<Rightarrow> memory_error + memory \<times> 's" where
  "forget svc st value entries reason = set_entry_state svc st value entries Inactive reason"

definition reactivate :: "('s, 'x) memory_service \<Rightarrow> 's \<Rightarrow> memory \<Rightarrow> entry_version list \<Rightarrow> string option \<Rightarrow> memory_error + memory \<times> 's" where
  "reactivate svc st value entries reason = set_entry_state svc st value entries Active reason"

section \<open>Organizing\<close>

definition group_entry ::
  "canonical_env \<Rightarrow> (string, entry_version) gomap \<Rightarrow> manifest_entry \<Rightarrow> (string, string list) gomap \<Rightarrow> memory_error + (string, string list) gomap" where
  "group_entry env current item groups =
     (if me_state item \<noteq> Active then Inr groups
      else case gm_get current (me_entry item) of
        None \<Rightarrow> Inl (InvalidCitation ''missing-version'')
      | Some version \<Rightarrow>
         and_then (material_from_version env version) (\<lambda>material.
         Inr (gm_set (em_bytes material)
           ((case gm_get groups (em_bytes material) of None \<Rightarrow> [] | Some ids \<Rightarrow> ids) @ [me_entry item]) groups)))"

definition dedupe_entry ::
  "canonical_env \<Rightarrow> string \<Rightarrow> (string, manifest_entry) gomap \<times> memory_change list \<times> string list
    \<Rightarrow> (string, manifest_entry) gomap \<times> memory_change list \<times> string list" where
  "dedupe_entry env entry_id = (\<lambda>(manifest, changes, changed).
     let item = (case gm_get manifest entry_id of None \<Rightarrow> zero_manifest_entry | Some e \<Rightarrow> e) in
     (gm_set entry_id (or_zero zero_manifest_entry
        (new_manifest_entry (me_entry item) (me_version item) (me_hash item) Inactive)) manifest,
      changes @ [or_zero zero_change
        (new_change env DeactivateOp entry_id (Some (me_version item)) None (Some ''dedupe''))],
      entry_id # changed))"

definition deduplicate_manifest ::
  "canonical_env \<Rightarrow> (string, manifest_entry) gomap \<Rightarrow> (string, entry_version) gomap
    \<Rightarrow> memory_error + (string, manifest_entry) gomap \<times> memory_change list \<times> string list" where
  "deduplicate_manifest env manifest current =
     and_then (fold_res (group_entry env current) (map snd manifest) []) (\<lambda>groups.
     Inr (fold (dedupe_entry env) (concat (map (\<lambda>(_, ids). tl (sort ids)) groups)) (manifest, [], [])))"

definition normalize_entry ::
  "('s, 'x) memory_service \<Rightarrow> memory \<Rightarrow> string list \<Rightarrow> string \<Rightarrow> plan_state \<Rightarrow> memory_error + plan_state" where
  "normalize_entry svc base skip entry_id ps =
     (if entry_id \<in> set skip then Inr ps
      else case gm_get (ps_current ps) entry_id of
        None \<Rightarrow> Inr ps
      | Some previous \<Rightarrow>
         and_then (material_from_version (ms_env svc) previous) (\<lambda>material.
         if is_canonical_version previous material then Inr ps
         else
           and_then (new_entry_version svc (ar_id (a_ref base)) entry_id (Some previous) material
             (wrap64 (ar_revision (a_ref base) + 1)) (ps_ids ps)) (\<lambda>version.
           let item = (case gm_get (ps_manifest ps) entry_id of None \<Rightarrow> zero_manifest_entry | Some e \<Rightarrow> e) in
           Inr (ps\<lparr>ps_manifest := gm_set entry_id (or_zero zero_manifest_entry
                   (new_manifest_entry entry_id (ev_id version) (ev_hash version) (me_state item))) (ps_manifest ps),
                 ps_current := gm_set entry_id version (ps_current ps),
                 ps_versions := ps_versions ps @ [version],
                 ps_changes := ps_changes ps @ [or_zero zero_change (new_change (ms_env svc) ReviseOp entry_id
                   (Some (ev_id previous)) (Some (ev_id version)) (Some ''normalize''))],
                 ps_ids := Suc (ps_ids ps)\<rparr>))))"

definition normalize_manifest_entries ::
  "('s, 'x) memory_service \<Rightarrow> memory \<Rightarrow> (string, manifest_entry) gomap \<Rightarrow> (string, entry_version) gomap \<Rightarrow> string list
    \<Rightarrow> memory_change list \<Rightarrow> memory_error + plan_state" where
  "normalize_manifest_entries svc base manifest current skip changes =
     fold_res (normalize_entry svc base skip) (sort (map fst current))
       \<lparr>ps_manifest = manifest, ps_current = current, ps_versions = [], ps_changes = changes,
        ps_targeted = [], ps_content = [], ps_ids = 0\<rparr>"

datatype organize_mode = OrganizeDefault | OrganizeDedupe | OrganizeNormalize | OrganizeOther string

definition organize ::
  "('s, 'x) memory_service \<Rightarrow> 's \<Rightarrow> memory \<Rightarrow> organize_mode \<Rightarrow> memory_error + memory \<times> 's" where
  "organize svc st value mode =
     and_then (check (mode \<in> {OrganizeDefault, OrganizeDedupe, OrganizeNormalize}) (InvalidOperation ''organize-mode'')) (\<lambda>_.
     and_then (canonical_base svc st (Some value)) (\<lambda>canonical.
     let base = the canonical in
     and_then (validated_entries svc st base) (\<lambda>current_entries.
     let manifest = manifest_map (cn_manifest (a_content base)); current = entry_map current_entries in
     and_then (if mode = OrganizeNormalize then Inr (manifest, [], [])
               else deduplicate_manifest (ms_env svc) manifest current) (\<lambda>(manifest1, changes, skip).
     and_then (if mode = OrganizeDedupe
               then Inr \<lparr>ps_manifest = manifest1, ps_current = current, ps_versions = [], ps_changes = changes,
                      ps_targeted = [], ps_content = [], ps_ids = 0\<rparr>
               else normalize_manifest_entries svc base manifest1 current skip changes) (\<lambda>ps.
     if ps_changes ps = [] then Inr (base, st)
     else commit_existing svc st base (ps_manifest ps) (ps_changes ps) (ps_current ps) (ps_versions ps))))))"

end
