(* ===== verification/Memory_Remember.thy ===== *)
theory Memory_Remember
  imports Memory_Plan
begin

text \<open>
  Planning a Memory revision is sound: the manifest lines and the entry versions of a plan always agree
  (\<open>consistent\<close>), an entry without a change is untouched, an inactive entry is never revised, and the
  projections of the prepared commit are exactly its active lines. The proofs rest on an invariant of
  the candidate loop of \<open>prepareCommit\<close>. Two hypotheses name documented behaviour of the code outside the
  repository: \<open>nfc_closed\<close> and \<open>digest_ok\<close>.
\<close>

section \<open>Hypotheses on the environment\<close>

text \<open>A digest is 64 lowercase hexadecimal characters.\<close>

definition digest_ok :: "canonical_env \<Rightarrow> bool" where
  "digest_ok env \<longleftrightarrow> (\<forall>s. valid_hash (ce_digest env s))"

section \<open>Manifest and entry versions agree\<close>

definition agrees :: "canonical_env \<Rightarrow> string \<Rightarrow> manifest_entry \<Rightarrow> entry_version \<Rightarrow> bool" where
  "agrees env memory_id item v \<longleftrightarrow> ev_id v = me_version item \<and> ev_entry v = me_entry item \<and> ev_memory v = memory_id
     \<and> (\<exists>m. material_from_version env v = Inr m \<and> em_hash m = me_hash item)"

definition consistent ::
  "canonical_env \<Rightarrow> string \<Rightarrow> (string, manifest_entry) gomap \<Rightarrow> (string, entry_version) gomap \<Rightarrow> bool" where
  "consistent env memory_id manifest current \<longleftrightarrow> manifest_ok manifest \<and> gm_wf current
     \<and> (\<forall>k item. gm_get manifest k = Some item \<longrightarrow> (\<exists>v. gm_get current k = Some v \<and> agrees env memory_id item v))"

lemma consistent_set:
  assumes "consistent env i manifest current" "me_entry item = k" "ev_entry v = k" "agrees env i item v" "valid_item item"
  shows "consistent env i (gm_set k item manifest) (gm_set k v current)"
  using assms by (auto simp: consistent_def manifest_ok_set gomap_simps)

lemma consistentD:
  "consistent env i manifest current \<Longrightarrow> gm_get manifest k = Some item \<Longrightarrow> gm_get current k = Some v \<Longrightarrow> agrees env i item v"
  unfolding consistent_def by (metis option.inject)

lemma validated_entry_agrees:
  "validated_entry env i by_id item = Inr v \<longleftrightarrow> gm_get by_id (me_version item) = Some v \<and> ev_memory v = i
     \<and> ev_entry v = me_entry item \<and> (\<exists>m. material_from_version env v = Inr m \<and> em_hash m = me_hash item)"
  by (auto simp: validated_entry_def res_simps split: option.splits)

lemma index_versions_get:
  assumes "index_versions vs = Inr by_id" "gm_get by_id k = Some v"
  shows "ev_id v = k \<and> v \<in> set vs"
proof -
  let ?f = "\<lambda>v by_id. if gm_get by_id (ev_id v) \<noteq> None then Inl (InvalidCitation ''duplicate-versions'')
     else Inr (gm_set (ev_id v) v by_id)"
  have "\<forall>k v. gm_get by_id k = Some v \<longrightarrow> ev_id v = k \<and> v \<in> set vs"
    using assms(1) unfolding index_versions_def
  proof (rule fold_res_invariant [where P = "\<lambda>m. \<forall>k v. gm_get m k = Some v \<longrightarrow> ev_id v = k \<and> v \<in> set vs"])
    fix x u w
    assume "x \<in> set vs" "\<forall>k v. gm_get u k = Some v \<longrightarrow> ev_id v = k \<and> v \<in> set vs" "?f x u = Inr w"
    then show "\<forall>k v. gm_get w k = Some v \<longrightarrow> ev_id v = k \<and> v \<in> set vs"
      by (auto simp: gomap_simps split: if_splits)
  qed simp
  then show ?thesis using assms(2) by blast
qed

lemma entry_map_get:
  assumes "distinct (map ev_entry vs)"
  shows "gm_get (entry_map vs) k = Some v \<longleftrightarrow> v \<in> set vs \<and> ev_entry v = k"
proof
  assume "gm_get (entry_map vs) k = Some v"
  then show "v \<in> set vs \<and> ev_entry v = k"
    unfolding entry_map_def by (auto dest!: gm_get_of_list_Some)
next
  assume "v \<in> set vs \<and> ev_entry v = k"
  then show "gm_get (entry_map vs) k = Some v"
    using gm_get_of_list [OF assms, of v id "[]"] by (auto simp: entry_map_def)
qed

lemma validated_entries_agree:
  assumes "validated_entries svc st m = Inr vs"
  shows "list_all2 (agrees (ms_env svc) (ar_id (a_ref m))) (cn_manifest (a_content m)) vs"
proof -
  obtain by_id versions where b: "index_versions versions = Inr by_id"
      "map_res (validated_entry (ms_env svc) (ar_id (a_ref m)) by_id) (cn_manifest (a_content m)) = Inr vs"
    using assms by (auto simp: validated_entries_def and_then_eq_Inr)
  from b(2) have "list_all2 (\<lambda>item v. validated_entry (ms_env svc) (ar_id (a_ref m)) by_id item = Inr v)
      (cn_manifest (a_content m)) vs"
    by (simp only: map_res_eq_Inr)
  then show ?thesis
    by (rule list_all2_mono) (auto simp: validated_entry_agrees agrees_def dest: index_versions_get [OF b(1)])
qed

lemma validated_entries_consistent:
  assumes "validated_entries svc st m = Inr vs" "wf_manifest (cn_manifest (a_content m))"
  shows "consistent (ms_env svc) (ar_id (a_ref m)) (manifest_map (cn_manifest (a_content m))) (entry_map vs)"
    and "map ev_entry vs = map me_entry (cn_manifest (a_content m))"
proof -
  note l = validated_entries_agree [OF assms(1)]
  show eq: "map ev_entry vs = map me_entry (cn_manifest (a_content m))"
    using l by (induction rule: list_all2_induct) (auto simp: agrees_def)
  have dm: "distinct (map me_entry (cn_manifest (a_content m)))" using assms(2) by (simp add: wf_manifest_def)
  then have d: "distinct (map ev_entry vs)" using eq by simp
  have ex: "\<exists>v \<in> set vs. agrees (ms_env svc) (ar_id (a_ref m)) item v" if "item \<in> set (cn_manifest (a_content m))" for item
    using l that by (induction rule: list_all2_induct) auto
  show "consistent (ms_env svc) (ar_id (a_ref m)) (manifest_map (cn_manifest (a_content m))) (entry_map vs)"
    unfolding consistent_def
  proof (intro conjI allI impI)
    show "manifest_ok (manifest_map (cn_manifest (a_content m)))"
      using assms(2) by (simp add: wf_manifest_def manifest_map_ok)
    show "gm_wf (entry_map vs)" by (simp add: entry_map_def gomap_simps)
    fix k item assume "gm_get (manifest_map (cn_manifest (a_content m))) k = Some item"
    then have "item \<in> set (cn_manifest (a_content m))" "me_entry item = k"
      by (simp_all add: manifest_map_get [OF dm])
    moreover obtain v where "v \<in> set vs" "agrees (ms_env svc) (ar_id (a_ref m)) item v"
      using ex [OF calculation(1)] by blast
    ultimately show "\<exists>v. gm_get (entry_map vs) k = Some v \<and> agrees (ms_env svc) (ar_id (a_ref m)) item v"
      unfolding entry_map_get [OF d] by (intro exI [of _ v]) (simp add: agrees_def)
  qed
qed

section \<open>New versions\<close>

lemma material_hash_valid:
  assumes "digest_ok env" "new_entry_material env k t ss as = Inr m"
  shows "valid_hash (em_hash m)"
  using assms by (auto simp: new_entry_material_def res_simps entry_content_hash_def domain_hash_def digest_ok_def)

lemma new_entry_version_ok:
  assumes "nfc_closed (ms_env svc)" "new_entry_version svc i e prev material rv n = Inr v"
    and "new_entry_material (ms_env svc) k t ss as = Inr material"
  shows "material_from_version (ms_env svc) v = Inr material" "ev_hash v = em_hash material" "ev_entry v = e"
    "ev_memory v = i" "ev_revision v = rv" "valid_identifier (ev_id v)"
  using assms(2) new_entry_material_stable [OF assms(1,3)]
  by (auto simp: new_entry_version_def new_id_def res_simps material_from_version_def)

lemma material_from_candidate_material:
  assumes "material_from_candidate svc candidate evidence previous = Inr material"
  obtains k t ss as where "new_entry_material (ms_env svc) k t ss as = Inr material"
  using assms by (auto simp: material_from_candidate_def Let_def res_simps split: prod.splits)

text \<open>The effect of recording a version on the plan.\<close>

lemma record_version_Inr:
  assumes "record_version svc op from reason v ps = Inr ps'" "digest_ok (ms_env svc)"
    and "new_entry_material (ms_env svc) k t ss as = Inr material" "ev_hash v = em_hash material"
    and "valid_identifier (ev_id v)"
  obtains c where "ps' = ps\<lparr>ps_manifest := gm_set (ev_entry v)
        \<lparr>me_entry = ev_entry v, me_version = ev_id v, me_hash = ev_hash v, me_state = Active\<rparr> (ps_manifest ps),
      ps_current := gm_set (ev_entry v) v (ps_current ps), ps_versions := ps_versions ps @ [v],
      ps_changes := ps_changes ps @ [c], ps_ids := Suc (ps_ids ps)\<rparr>"
    "mc_entry c = ev_entry v" "mc_op c = op" "mc_from c = from" "mc_to c = Some (ev_id v)" "valid_identifier (ev_entry v)"
proof -
  obtain c where c: "new_change (ms_env svc) op (ev_entry v) from (Some (ev_id v)) reason = Inr c"
    using assms(1) by (auto simp: record_version_def and_then_eq_Inr)
  note ch = new_change_entry [OF c]
  have "new_manifest_entry (ev_entry v) (ev_id v) (ev_hash v) Active
      = Inr \<lparr>me_entry = ev_entry v, me_version = ev_id v, me_hash = ev_hash v, me_state = Active\<rparr>"
    using ch assms(4,5) material_hash_valid [OF assms(2,3)] by (intro new_manifest_entry_Inr) simp_all
  then show thesis using that [of c] assms(1) c ch by (auto simp: record_version_def or_zero_def)
qed


section \<open>The candidate loop\<close>

text \<open>What the loop keeps, relative to the manifest and entries it started from: entries without a
  change are untouched, and a changed entry is active at a version created by this plan.\<close>

definition plan_inv ::
  "('s, 'x) memory_service \<Rightarrow> string \<Rightarrow> int \<Rightarrow> (string, manifest_entry) gomap \<Rightarrow> (string, entry_version) gomap \<Rightarrow> plan_state \<Rightarrow> bool" where
  "plan_inv svc i rv manifest current ps \<longleftrightarrow>
     consistent (ms_env svc) i (ps_manifest ps) (ps_current ps)
     \<and> mc_entry ` set (ps_changes ps) = ev_entry ` set (ps_versions ps)
     \<and> (\<forall>k. k \<notin> ev_entry ` set (ps_versions ps) \<longrightarrow> gm_get (ps_manifest ps) k = gm_get manifest k
           \<and> gm_get (ps_current ps) k = gm_get current k)
     \<and> (\<forall>w \<in> set (ps_versions ps). \<exists>item v. gm_get (ps_manifest ps) (ev_entry w) = Some item \<and> me_state item = Active
           \<and> gm_get (ps_current ps) (ev_entry w) = Some v \<and> v \<in> set (ps_versions ps))
     \<and> (\<forall>v \<in> set (ps_versions ps). ev_memory v = i \<and> ev_revision v = rv
           \<and> (\<forall>item. gm_get manifest (ev_entry v) = Some item \<longrightarrow> me_state item \<noteq> Inactive))"

lemma plan_inv_record:
  assumes inv: "plan_inv svc i rv manifest current ps"
    and env: "nfc_closed (ms_env svc)" "digest_ok (ms_env svc)"
    and mat: "material_from_candidate svc candidate evidence previous = Inr material"
    and new: "new_entry_version svc i e prev material rv n = Inr v"
    and live: "\<And>item. gm_get (ps_manifest ps) e = Some item \<Longrightarrow> me_state item \<noteq> Inactive"
    and rec: "record_version svc op from reason v ps = Inr ps'"
  shows "plan_inv svc i rv manifest current ps'"
proof -
  obtain k t ss as where m: "new_entry_material (ms_env svc) k t ss as = Inr material"
    using mat by (rule material_from_candidate_material)
  note v = new_entry_version_ok [OF env(1) new m]
  let ?item = "\<lparr>me_entry = ev_entry v, me_version = ev_id v, me_hash = ev_hash v, me_state = Active\<rparr>"
  obtain c where ps': "ps' = ps\<lparr>ps_manifest := gm_set (ev_entry v) ?item (ps_manifest ps),
      ps_current := gm_set (ev_entry v) v (ps_current ps), ps_versions := ps_versions ps @ [v],
      ps_changes := ps_changes ps @ [c], ps_ids := Suc (ps_ids ps)\<rparr>" and c: "mc_entry c = ev_entry v"
      "valid_identifier (ev_entry v)"
    using rec env(2) m v(2,6) by (rule record_version_Inr)
  have "valid_item ?item" using c(2) v(2,6) material_hash_valid [OF env(2) m] by (simp add: valid_item_iff)
  moreover have "agrees (ms_env svc) i ?item v" using v by (auto simp: agrees_def)
  ultimately have "consistent (ms_env svc) i (ps_manifest ps') (ps_current ps')"
    using inv by (auto simp: ps' plan_inv_def intro: consistent_set)
  moreover have "me_state item \<noteq> Inactive" if "gm_get manifest e = Some item" for item
  proof (cases "e \<in> ev_entry ` set (ps_versions ps)")
    case True
    then show ?thesis using inv that by (auto simp: plan_inv_def)
  next
    case False
    then show ?thesis using inv that live by (auto simp: plan_inv_def)
  qed
  ultimately show ?thesis using inv c(1) v(3,4,5) by (auto simp: plan_inv_def ps' gomap_simps)
qed

lemma plan_inv_ids: "plan_inv svc i rv manifest current ps \<Longrightarrow> ps_manifest ps' = ps_manifest ps \<Longrightarrow> ps_current ps' = ps_current ps
    \<Longrightarrow> ps_versions ps' = ps_versions ps \<Longrightarrow> ps_changes ps' = ps_changes ps \<Longrightarrow> plan_inv svc i rv manifest current ps'"
  by (simp add: plan_inv_def)

lemma plan_reviseE:
  assumes "plan_revise svc i rv evidence candidate ps = Inr ps'"
  obtains e previous item material where
    "claim_revision_target candidate (ps_current ps) (ps_targeted ps) = Inr (e, previous)"
    "gm_get (ps_manifest ps) e = Some item" "me_state item \<noteq> Inactive"
    "material_from_candidate svc candidate evidence (Some previous) = Inr material"
    "ps' = ps\<lparr>ps_targeted := e # ps_targeted ps\<rparr> \<or> (\<exists>v. new_entry_version svc i e (Some previous) material rv (ps_ids ps) = Inr v
      \<and> record_version svc ReviseOp (Some (ev_id previous)) (ei_reason candidate) v (ps\<lparr>ps_targeted := e # ps_targeted ps\<rparr>) = Inr ps')"
proof -
  obtain e previous where c: "claim_revision_target candidate (ps_current ps) (ps_targeted ps) = Inr (e, previous)"
    using assms unfolding plan_revise_def and_then_eq_Inr by auto
  show thesis
  proof (cases "gm_get (ps_manifest ps) e")
    case None
    then show thesis using assms c by (simp add: plan_revise_def)
  next
    case (Some item)
    show thesis
    proof (cases "me_state item = Inactive")
      case True
      then show thesis using assms c Some by (simp add: plan_revise_def)
    next
      case False
      then show thesis using that [OF c Some] assms c Some
        by (auto simp: plan_revise_def Let_def res_simps split: if_splits)
    qed
  qed
qed

lemma plan_addE:
  assumes "plan_add svc i rv evidence candidate ps = Inr ps'"
  obtains material where "material_from_candidate svc candidate evidence None = Inr material"
    "(em_bytes material \<in> set (ps_content ps) \<and> ps' = ps) \<or> (\<exists>e v. new_entry_version svc i e None material rv (Suc (ps_ids ps)) = Inr v
      \<and> gm_get (ps_manifest ps) e = None
      \<and> record_version svc AddOp None (ei_reason candidate) v
          (ps\<lparr>ps_content := em_bytes material # ps_content ps, ps_ids := Suc (ps_ids ps)\<rparr>) = Inr ps')"
  using assms by (auto simp: plan_add_def res_simps split: if_splits)

lemma plan_candidate_inv:
  assumes "plan_inv svc i rv manifest current ps" "nfc_closed (ms_env svc)" "digest_ok (ms_env svc)"
    and "plan_candidate svc i rv evidence candidate ps = Inr ps'"
  shows "plan_inv svc i rv manifest current ps'"
proof (cases "ei_entry candidate = None")
  case True
  then have "plan_add svc i rv evidence candidate ps = Inr ps'" using assms(4) by (simp add: plan_candidate_def)
  then obtain material where m: "material_from_candidate svc candidate evidence None = Inr material"
      and r: "(em_bytes material \<in> set (ps_content ps) \<and> ps' = ps) \<or> (\<exists>e v. new_entry_version svc i e None material rv (Suc (ps_ids ps)) = Inr v
        \<and> gm_get (ps_manifest ps) e = None
        \<and> record_version svc AddOp None (ei_reason candidate) v
            (ps\<lparr>ps_content := em_bytes material # ps_content ps, ps_ids := Suc (ps_ids ps)\<rparr>) = Inr ps')"
    by (rule plan_addE)
  from r show ?thesis
  proof
    assume "\<exists>e v. new_entry_version svc i e None material rv (Suc (ps_ids ps)) = Inr v
        \<and> gm_get (ps_manifest ps) e = None
        \<and> record_version svc AddOp None (ei_reason candidate) v
            (ps\<lparr>ps_content := em_bytes material # ps_content ps, ps_ids := Suc (ps_ids ps)\<rparr>) = Inr ps'"
    then show ?thesis
      by (elim exE conjE) (rule plan_inv_record [OF plan_inv_ids [OF assms(1)] assms(2,3) m], simp_all, metis option.distinct(1))
  qed (use assms(1) in simp)
next
  case False
  then have "plan_revise svc i rv evidence candidate ps = Inr ps'" using assms(4) by (auto simp: plan_candidate_def)
  then obtain e previous item material where item: "gm_get (ps_manifest ps) e = Some item" "me_state item \<noteq> Inactive"
      and m: "material_from_candidate svc candidate evidence (Some previous) = Inr material"
      and r: "ps' = ps\<lparr>ps_targeted := e # ps_targeted ps\<rparr> \<or> (\<exists>v. new_entry_version svc i e (Some previous) material rv (ps_ids ps) = Inr v
        \<and> record_version svc ReviseOp (Some (ev_id previous)) (ei_reason candidate) v (ps\<lparr>ps_targeted := e # ps_targeted ps\<rparr>) = Inr ps')"
    by (rule plan_reviseE)
  from r show ?thesis
  proof
    assume "\<exists>v. new_entry_version svc i e (Some previous) material rv (ps_ids ps) = Inr v
        \<and> record_version svc ReviseOp (Some (ev_id previous)) (ei_reason candidate) v (ps\<lparr>ps_targeted := e # ps_targeted ps\<rparr>) = Inr ps'"
    then show ?thesis
      by (elim exE conjE) (rule plan_inv_record [OF plan_inv_ids [OF assms(1)] assms(2,3) m], simp_all, metis item option.inject)
  qed (use plan_inv_ids [OF assms(1)] in simp)
qed

lemma plan_candidates_inv:
  assumes "fold_res (plan_candidate svc i rv evidence) candidates ps = Inr ps'"
    and "plan_inv svc i rv manifest current ps" "nfc_closed (ms_env svc)" "digest_ok (ms_env svc)"
  shows "plan_inv svc i rv manifest current ps'"
  using assms(1,2) by (rule fold_res_invariant) (rule plan_candidate_inv [OF _ assms(3,4)])

section \<open>Projections of a commit\<close>

lemma fill_embeddings_entries:
  "fill_embeddings env profile prepared vectors = Inr ps \<Longrightarrow> map pj_entry ps = map (pj_entry \<circ> fst) prepared"
  by (induction env profile prepared vectors arbitrary: ps rule: fill_embeddings.induct) (auto simp: res_simps)

lemma attach_embeddings_entries:
  assumes "attach_embeddings svc prepared = Inr ps"
  shows "map pj_entry ps = map (pj_entry \<circ> fst) prepared"
  using assms fill_embeddings_entries
  by (auto simp: attach_embeddings_def Let_def split: option.splits prod.splits if_splits sum.splits)

lemma prepare_projection_entry:
  assumes "prepare_projection svc previous versions changed item = Inr p"
  shows "gm_get versions (me_entry item) = Some (pj_entry (fst p)) \<and> ev_id (pj_entry (fst p)) = me_version item"
  using assms by (auto simp: prepare_projection_def res_simps Let_def split: option.splits if_splits)

lemma prepare_projections_entries:
  assumes "prepare_projections svc st base manifest versions changed = Inr ps"
  shows "list_all2 (\<lambda>item p. gm_get versions (me_entry item) = Some (pj_entry p) \<and> ev_id (pj_entry p) = me_version item)
    (filter (\<lambda>e. me_state e = Active) manifest) ps"
proof -
  let ?active = "filter (\<lambda>e. me_state e = Active) manifest"
  obtain previous prepared where p: "map_res (prepare_projection svc previous versions changed) ?active = Inr prepared"
      "attach_embeddings svc prepared = Inr ps"
    using assms by (auto simp: prepare_projections_def and_then_eq_Inr)
  have "list_all2 (\<lambda>item p. prepare_projection svc previous versions changed item = Inr p) ?active prepared"
    using p(1) by (simp only: map_res_eq_Inr)
  then have "list_all2 (\<lambda>item p. gm_get versions (me_entry item) = Some (pj_entry (fst p))
      \<and> ev_id (pj_entry (fst p)) = me_version item) ?active prepared"
    by (rule list_all2_mono) (rule prepare_projection_entry)
  then have "list_all2 (\<lambda>item e. gm_get versions (me_entry item) = Some e \<and> ev_id e = me_version item)
      ?active (map (pj_entry \<circ> fst) prepared)"
    by (simp add: list_all2_map2)
  then have "list_all2 (\<lambda>item e. gm_get versions (me_entry item) = Some e \<and> ev_id e = me_version item) ?active (map pj_entry ps)"
    by (simp only: attach_embeddings_entries [OF p(2)])
  then show ?thesis by (simp add: list_all2_map2)
qed


section \<open>Commits\<close>

definition projects_active :: "(string, entry_version) gomap \<Rightarrow> memory_commit \<Rightarrow> bool" where
  "projects_active current c \<longleftrightarrow>
     list_all2 (\<lambda>item p. gm_get current (me_entry item) = Some (pj_entry p) \<and> ev_id (pj_entry p) = me_version item)
       (filter (\<lambda>e. me_state e = Active) (cn_manifest (a_content (cm_memory c)))) (cm_projections c)"

lemma finish_commit_Inr:
  assumes "finish_commit svc st base i rv ss as manifest changes current versions = Inr c"
  shows "cm_base c = base" "a_ref (cm_memory c) = \<lparr>ar_family = memory_family, ar_id = i, ar_revision = rv\<rparr>"
    "a_content (cm_memory c) = \<lparr>cn_manifest = sorted_manifest manifest, cn_changes = sorted_changes changes\<rparr>"
    "a_lineage (cm_memory c) = \<lparr>li_sources = ss, li_artifacts = as\<rparr>" "cm_entries c = versions"
    "content_hash (ms_env svc) (a_content (cm_memory c)) = Inr (cm_hash c)" "projects_active current c"
    "wf_artifact (cm_memory c)"
proof -
  let ?content = "\<lparr>cn_manifest = sorted_manifest manifest, cn_changes = sorted_changes changes\<rparr>"
  obtain d nx ps hash where d: "new_draft memory_family ?content ss as = Inr d" "new_artifact i rv d = Inr nx"
      "prepare_projections svc st base (sorted_manifest manifest) current (map ev_id versions) = Inr ps"
      "content_hash (ms_env svc) ?content = Inr hash"
      "c = \<lparr>cm_base = base, cm_memory = nx, cm_hash = hash, cm_entries = versions, cm_projections = ps\<rparr>"
    using assms unfolding finish_commit_def Let_def lift_artifact_def and_then_eq_Inr map_sum_eq_Inr by auto
  have n: "a_ref nx = \<lparr>ar_family = memory_family, ar_id = i, ar_revision = rv\<rparr>" "a_content nx = ?content"
      "a_lineage nx = \<lparr>li_sources = ss, li_artifacts = as\<rparr>"
    using d(1,2) by (auto simp: new_draft_def new_artifact_def new_artifact_ref_iff new_lineage_iff res_simps)
  show "cm_base c = base" "a_ref (cm_memory c) = \<lparr>ar_family = memory_family, ar_id = i, ar_revision = rv\<rparr>"
    "a_content (cm_memory c) = ?content" "a_lineage (cm_memory c) = \<lparr>li_sources = ss, li_artifacts = as\<rparr>"
    "cm_entries c = versions" "content_hash (ms_env svc) (a_content (cm_memory c)) = Inr (cm_hash c)"
    using d(4,5) n by simp_all
  show "projects_active current c"
    using prepare_projections_entries [OF d(3)] by (simp add: projects_active_def d(5) n(2))
  show "wf_artifact (cm_memory c)" using d(1,2) n unfolding d(5)
    by (auto simp: wf_artifact_def new_draft_def new_artifact_def new_artifact_ref_iff new_lineage_iff wf_artifact_ref_def res_simps)
qed


section \<open>Remembering\<close>

definition base_manifest :: "memory option \<Rightarrow> manifest_entry list" where
  "base_manifest base = (case base of None \<Rightarrow> [] | Some m \<Rightarrow> cn_manifest (a_content m))"

definition next_revision :: "memory option \<Rightarrow> int" where
  "next_revision base = (case base of None \<Rightarrow> 1 | Some m \<Rightarrow> wrap64 (ar_revision (a_ref m) + 1))"

lemma prepare_commitE:
  assumes "prepare_commit svc st base candidates evidence vs = Inr (Some c)"
  obtains i content ids ps refs where
    "\<And>m. base = Some m \<Longrightarrow> i = ar_id (a_ref m)"
    "active_content (ms_env svc) (manifest_map (base_manifest base)) vs = Inr content"
    "fold_res (plan_candidate svc i (next_revision base) evidence) candidates
       \<lparr>ps_manifest = manifest_map (base_manifest base), ps_current = entry_map vs, ps_versions = [], ps_changes = [],
        ps_targeted = [], ps_content = content, ps_ids = ids\<rparr> = Inr ps"
    "ps_changes ps \<noteq> []"
    "finish_commit svc st base i (next_revision base) refs (map a_ref (oe_artifacts evidence))
       (ps_manifest ps) (ps_changes ps) (ps_current ps) (ps_versions ps) = Inr c"
  using assms by (cases base)
    (auto simp: prepare_commit_def base_manifest_def next_revision_def manifest_map_def res_simps split: if_splits)

lemma plan_rememberE:
  assumes "plan_remember svc st base sources artifacts entries mode = Inr plan" "wp_commit plan = Some c"
  obtains vs candidates evidence where
    "canonical_base svc st base = Inr base" "wp_result plan = Some (cm_memory c)"
    "(case base of None \<Rightarrow> Inr [] | Some m \<Rightarrow> validated_entries svc st m) = Inr vs"
    "prepare_commit svc st base candidates evidence vs = Inr (Some c)"
proof -
  have "canonical = base" if "canonical_base svc st base = Inr canonical" for canonical
    using that by (auto simp: canonical_base_def res_simps split: option.splits)
  then show thesis using assms that
    by (auto simp: plan_remember_def res_simps split: if_splits option.splits)
qed

lemma initial_plan_inv:
  assumes "(case base of None \<Rightarrow> Inr [] | Some m \<Rightarrow> validated_entries svc st m) = Inr vs"
    and "wf_manifest (base_manifest base)" "\<And>m. base = Some m \<Longrightarrow> i = ar_id (a_ref m)"
  shows "plan_inv svc i rv (manifest_map (base_manifest base)) (entry_map vs)
    \<lparr>ps_manifest = manifest_map (base_manifest base), ps_current = entry_map vs, ps_versions = [], ps_changes = [],
     ps_targeted = [], ps_content = content, ps_ids = ids\<rparr>"
proof (cases base)
  case None
  then show ?thesis using assms(1)
    by (simp add: plan_inv_def base_manifest_def consistent_def manifest_map_def entry_map_def)
next
  case (Some m)
  then show ?thesis
    using validated_entries_consistent(1) [of svc st m vs] assms
    by (simp add: plan_inv_def base_manifest_def)
qed


lemma plan_manifest:
  assumes inv: "plan_inv svc i rv (manifest_map es) current ps" and wf: "wf_manifest es"
  shows "wf_manifest (sorted_manifest (ps_manifest ps))"
    and "e \<in> set es \<Longrightarrow> me_entry e \<notin> ev_entry ` set (ps_versions ps) \<or> me_state e = Inactive \<Longrightarrow>
      e \<in> set (sorted_manifest (ps_manifest ps))"
    and "e \<in> set (sorted_manifest (ps_manifest ps)) \<Longrightarrow> e \<in> set es
      \<or> me_state e = Active \<and> (\<exists>v \<in> set (ps_versions ps). agrees (ms_env svc) i e v \<and> ev_revision v = rv)"
proof -
  have d: "distinct (map me_entry es)" using wf by (simp add: wf_manifest_def)
  have ok: "manifest_ok (ps_manifest ps)" using inv by (simp add: plan_inv_def consistent_def)
  show "wf_manifest (sorted_manifest (ps_manifest ps))" by (rule sorted_manifest_wf(1) [OF ok])
  have keep: "gm_get (ps_manifest ps) k = gm_get (manifest_map es) k" if "k \<notin> ev_entry ` set (ps_versions ps)" for k
    using inv that by (simp add: plan_inv_def)
  {
    assume e: "e \<in> set es" "me_entry e \<notin> ev_entry ` set (ps_versions ps) \<or> me_state e = Inactive"
    then have g: "gm_get (manifest_map es) (me_entry e) = Some e" by (simp add: manifest_map_get [OF d])
    then have "me_entry e \<notin> ev_entry ` set (ps_versions ps)" using inv e(2) by (auto simp: plan_inv_def)
    then show "e \<in> set (sorted_manifest (ps_manifest ps))"
      using keep g by (simp add: sorted_manifest_wf(3) [OF ok])
  next
    assume "e \<in> set (sorted_manifest (ps_manifest ps))"
    then have g: "gm_get (ps_manifest ps) (me_entry e) = Some e" by (simp add: sorted_manifest_wf(3) [OF ok])
    show "e \<in> set es \<or> me_state e = Active \<and> (\<exists>v \<in> set (ps_versions ps). agrees (ms_env svc) i e v \<and> ev_revision v = rv)"
    proof (cases "me_entry e \<in> ev_entry ` set (ps_versions ps)")
      case True
      then obtain v where v: "me_state e = Active" "gm_get (ps_current ps) (me_entry e) = Some v" "v \<in> set (ps_versions ps)"
        using inv g by (auto simp: plan_inv_def)
      moreover have "agrees (ms_env svc) i e v" using inv by (intro consistentD [OF _ g v(2)]) (simp add: plan_inv_def)
      ultimately show ?thesis using inv by (auto simp: plan_inv_def)
    next
      case False
      then show ?thesis using keep g by (simp add: manifest_map_get [OF d])
    qed
  }
qed

lemma projects_active_entries:
  assumes "projects_active current c" "consistent env i manifest current"
    and "cn_manifest (a_content (cm_memory c)) = sorted_manifest manifest"
  shows "map (\<lambda>p. (ev_entry (pj_entry p), ev_id (pj_entry p))) (cm_projections c)
    = map (\<lambda>e. (me_entry e, me_version e)) (filter (\<lambda>e. me_state e = Active) (cn_manifest (a_content (cm_memory c))))"
proof -
  let ?active = "filter (\<lambda>e. me_state e = Active) (sorted_manifest manifest)"
  have ok: "manifest_ok manifest" using assms(2) by (simp add: consistent_def)
  have entry: "ev_entry v = me_entry e" if "e \<in> set ?active" "gm_get current (me_entry e) = Some v" for e v
  proof -
    have "gm_get manifest (me_entry e) = Some e" using that(1) sorted_manifest_wf(3) [OF ok] by simp
    then show ?thesis using consistentD [OF assms(2) _ that(2)] by (simp add: agrees_def)
  qed
  have gen: "map (\<lambda>p. (ev_entry (pj_entry p), ev_id (pj_entry p))) ps = map (\<lambda>e. (me_entry e, me_version e)) es"
    if "list_all2 (\<lambda>item p. gm_get current (me_entry item) = Some (pj_entry p) \<and> ev_id (pj_entry p) = me_version item) es ps"
      "set es \<subseteq> set ?active" for es ps
    using that by (induction rule: list_all2_induct) (use entry in auto)
  show ?thesis unfolding assms(3)
    by (rule gen [OF assms(1) [unfolded projects_active_def assms(3)] subset_refl])
qed

lemma remember_plan_facts:
  assumes "nfc_closed (ms_env svc)" "digest_ok (ms_env svc)" "wf_manifest (base_manifest base)"
    and "plan_remember svc st base sources artifacts entries mode = Inr plan" "wp_commit plan = Some c"
  shows "wp_result plan = Some (cm_memory c) \<and> cm_base c = base
    \<and> ar_family (a_ref (cm_memory c)) = memory_family \<and> ar_revision (a_ref (cm_memory c)) = next_revision base
    \<and> (\<forall>b. base = Some b \<longrightarrow> ar_id (a_ref b) = ar_id (a_ref (cm_memory c)))
    \<and> content_hash (ms_env svc) (a_content (cm_memory c)) = Inr (cm_hash c)
    \<and> wf_manifest (cn_manifest (a_content (cm_memory c)))
    \<and> (\<forall>e \<in> set (base_manifest base). me_entry e \<notin> ev_entry ` set (cm_entries c) \<or> me_state e = Inactive
          \<longrightarrow> e \<in> set (cn_manifest (a_content (cm_memory c))))
    \<and> (\<forall>e \<in> set (cn_manifest (a_content (cm_memory c))). e \<in> set (base_manifest base)
          \<or> me_state e = Active \<and> (\<exists>v \<in> set (cm_entries c). agrees (ms_env svc) (ar_id (a_ref (cm_memory c))) e v
                \<and> ev_revision v = next_revision base))
    \<and> map (\<lambda>p. (ev_entry (pj_entry p), ev_id (pj_entry p))) (cm_projections c)
        = map (\<lambda>e. (me_entry e, me_version e)) (filter (\<lambda>e. me_state e = Active) (cn_manifest (a_content (cm_memory c))))"
proof -
  from assms(4,5) obtain vs candidates evidence where p: "wp_result plan = Some (cm_memory c)"
      "(case base of None \<Rightarrow> Inr [] | Some m \<Rightarrow> validated_entries svc st m) = Inr vs"
      "prepare_commit svc st base candidates evidence vs = Inr (Some c)"
    by (elim plan_rememberE) blast
  from p(3) obtain i content ids ps refs where q: "\<And>m. base = Some m \<Longrightarrow> i = ar_id (a_ref m)"
      "fold_res (plan_candidate svc i (next_revision base) evidence) candidates
         \<lparr>ps_manifest = manifest_map (base_manifest base), ps_current = entry_map vs, ps_versions = [], ps_changes = [],
          ps_targeted = [], ps_content = content, ps_ids = ids\<rparr> = Inr ps"
      "finish_commit svc st base i (next_revision base) refs (map a_ref (oe_artifacts evidence))
         (ps_manifest ps) (ps_changes ps) (ps_current ps) (ps_versions ps) = Inr c"
    by (elim prepare_commitE) blast
  note fin = finish_commit_Inr [OF q(3)]
  have inv: "plan_inv svc i (next_revision base) (manifest_map (base_manifest base)) (entry_map vs) ps"
    by (rule plan_candidates_inv [OF q(2) initial_plan_inv [OF p(2) assms(3) q(1)] assms(1,2)])
  have cons: "consistent (ms_env svc) i (ps_manifest ps) (ps_current ps)" using inv by (simp add: plan_inv_def)
  have man: "cn_manifest (a_content (cm_memory c)) = sorted_manifest (ps_manifest ps)" using fin(3) by simp
  note proj = projects_active_entries [OF fin(7) cons man]
  show ?thesis
    by (intro conjI ballI allI impI) (use p(1) fin proj q(1) plan_manifest [OF inv assms(3)] in \<open>simp_all add: man\<close>)
qed

end
