(* ===== verification/Memory_Organize.thy ===== *)
theory Memory_Organize
  imports Memory_Remember
begin

text \<open>
  Forgetting, reactivating and deduplicating entries change exactly the states they say: the manifest of
  the result is the manifest of the base with the state of the requested entries (or of the
  duplicates) replaced and everything else kept.
\<close>

section \<open>Changing the state of entries\<close>

definition with_state :: "entry_state \<Rightarrow> string set \<Rightarrow> manifest_entry \<Rightarrow> manifest_entry" where
  "with_state target ids e = (if me_entry e \<in> ids then e\<lparr>me_state := target\<rparr> else e)"

lemma with_state_entry [simp]: "me_entry (with_state target ids e) = me_entry e"
  by (simp add: with_state_def)

lemma valid_item_state: "valid_item e \<Longrightarrow> target \<noteq> NoState \<Longrightarrow> valid_item (e\<lparr>me_state := target\<rparr>)"
  by (simp add: valid_item_iff)

lemma with_state_valid: "valid_item e \<Longrightarrow> target \<noteq> NoState \<Longrightarrow> valid_item (with_state target ids e)"
  by (simp add: with_state_def valid_item_state)

lemma with_state_wf: "wf_manifest es \<Longrightarrow> target \<noteq> NoState \<Longrightarrow> wf_manifest (map (with_state target ids) es)"
  by (auto simp: wf_manifest_def comp_def list_all_iff with_state_valid)

lemma nul_split:
  assumes "a @ [CHR 0x00] @ b = c @ [CHR 0x00] @ d" "CHR 0x00 \<notin> set a" "CHR 0x00 \<notin> set c"
  shows "a = c"
  using assms
proof (induction a arbitrary: c)
  case Nil
  then show ?case by (cases c) auto
next
  case (Cons x a)
  then show ?case by (cases c) auto
qed

definition has_state :: "(string, manifest_entry) gomap \<Rightarrow> entry_state \<Rightarrow> string \<Rightarrow> bool" where
  "has_state m target k \<longleftrightarrow> (\<exists>item. gm_get m k = Some item \<and> me_state item = target)"

text \<open>One request: the entry it names has the target state afterwards, and every other entry is as before.\<close>

lemma set_state_stepE:
  assumes "set_state_step env current target reason v (m, changes, seen) = Inr (m', changes', seen')"
    and "manifest_ok m" "target \<noteq> NoState"
  obtains (seen) "ev_entry v @ [CHR 0x00] @ ev_id v \<in> set seen" "m' = m" "changes' = changes" "seen' = seen"
  | (fresh) item where "gm_get m (ev_entry v) = Some item" "gm_get current (ev_entry v) = Some v"
    "seen' = (ev_entry v @ [CHR 0x00] @ ev_id v) # seen"
    "me_state item = target \<and> m' = m \<and> changes' = changes \<or>
     me_state item \<noteq> target \<and> m' = gm_set (ev_entry v) (item\<lparr>me_state := target\<rparr>) m \<and> changes' \<noteq> []"
proof (cases "ev_entry v @ [CHR 0x00] @ ev_id v \<in> set seen")
  case True
  then have "m' = m" "changes' = changes" "seen' = seen" using assms(1) by (simp_all add: set_state_step_def Let_def)
  with True show thesis by (rule seen)
next
  case False
  have val: "validate_identifier (ev_entry v) = Inr (ev_entry v)"
  proof (cases "validate_identifier (ev_entry v)")
    case (Inl e)
    then show ?thesis using assms(1) False by (simp add: set_state_step_def Let_def)
  qed (simp add: validate_identifier_Inr)
  obtain item where item: "gm_get m (ev_entry v) = Some item"
    using assms(1) False val by (cases "gm_get m (ev_entry v)") (simp_all add: set_state_step_def Let_def)
  obtain cur where cur: "gm_get current (ev_entry v) = Some cur"
    using assms(1) False val item by (cases "gm_get current (ev_entry v)") (simp_all add: set_state_step_def Let_def)
  have "valid_item item" "me_entry item = ev_entry v" using manifest_ok_get [OF assms(2) item] by auto
  then have new: "new_manifest_entry (ev_entry v) (me_version item) (me_hash item) target
      = Inr (item\<lparr>me_state := target\<rparr>)"
    using assms(3) by (simp add: new_manifest_entry_valid valid_item_state)
  have zero: "or_zero zero_manifest_entry (new_manifest_entry (me_entry item) (me_version item) (me_hash item) target)
      = item\<lparr>me_state := target\<rparr>"
    using new \<open>me_entry item = ev_entry v\<close> by (simp add: or_zero_def)
  note body = assms(1) [unfolded set_state_step_def Let_def prod.case if_not_P [OF False] val and_then_Inr item cur
      option.case zero and_then_eq_Inr check_eq_Inr]
  then have "v = cur" by blast
  with body show thesis using fresh [OF item] cur
    by (cases "me_state item = target") (auto simp: and_then_eq_Inr)
qed

lemma set_states_changes:
  assumes "fold_res (set_state_step env current target reason) entries (m, changes, seen) = Inr (m', changes', seen')"
  shows "\<exists>cs. changes' = changes @ cs"
proof -
  have "\<exists>cs. fst (snd (m', changes', seen')) = changes @ cs"
    using assms
  proof (rule fold_res_invariant [where P = "\<lambda>x. \<exists>cs. fst (snd x) = changes @ cs"])
    fix v u w
    assume "\<exists>cs. fst (snd u) = changes @ cs" "set_state_step env current target reason v u = Inr w"
    then show "\<exists>cs. fst (snd w) = changes @ cs"
      by (cases u) (auto simp: set_state_step_def Let_def res_simps split: if_splits option.splits)
  qed simp
  then show ?thesis by simp
qed

lemma set_states:
  assumes "fold_res (set_state_step env current target reason) entries (m, changes, seen) = Inr (m', changes', seen')"
    and "manifest_ok m" "target \<noteq> NoState" "list_all (\<lambda>e. CHR 0x00 \<notin> set (ev_entry e)) entries"
    and "\<And>x. x \<in> set seen \<Longrightarrow> \<exists>k b. x = k @ [CHR 0x00] @ b \<and> CHR 0x00 \<notin> set k \<and> has_state m target k"
  shows "manifest_ok m' \<and> gm_get m' = (\<lambda>k. map_option (with_state target (ev_entry ` set entries)) (gm_get m k))
    \<and> (changes' = [] \<longrightarrow> m' = m)"
  using assms
proof (induction entries arbitrary: m changes seen)
  case Nil
  then show ?case by (auto simp: with_state_def map_option_cong option.map_id [unfolded id_def] fun_eq_iff)
next
  case (Cons v entries)
  obtain m1 c1 s1 where s: "set_state_step env current target reason v (m, changes, seen) = Inr (m1, c1, s1)"
      "fold_res (set_state_step env current target reason) entries (m1, c1, s1) = Inr (m', changes', seen')"
    using Cons.prems(1) by (auto simp: and_then_eq_Inr)
  have nul: "CHR 0x00 \<notin> set (ev_entry v)" using Cons.prems(4) by simp
  have one: "manifest_ok m1 \<and> gm_get m1 = (\<lambda>k. map_option (with_state target {ev_entry v}) (gm_get m k))
      \<and> has_state m1 target (ev_entry v) \<and> set s1 \<subseteq> insert (ev_entry v @ [CHR 0x00] @ ev_id v) (set seen)
      \<and> (m1 = m \<or> c1 \<noteq> [])"
    using s(1) Cons.prems(2,3)
  proof (cases rule: set_state_stepE)
    case seen
    then obtain k b where "ev_entry v @ [CHR 0x00] @ ev_id v = k @ [CHR 0x00] @ b" "CHR 0x00 \<notin> set k" "has_state m target k"
      using Cons.prems(5) by blast
    then have h: "has_state m target (ev_entry v)" using nul_split nul by metis
    have "gm_get m k = map_option (with_state target {ev_entry v}) (gm_get m k)" for k
      using manifest_ok_get [OF Cons.prems(2), of k] h
      by (cases "gm_get m k") (auto simp: has_state_def with_state_def)
    then show ?thesis using seen h Cons.prems(2) by auto
  next
    case (fresh item)
    have i: "me_entry item = ev_entry v" "valid_item item" using manifest_ok_get [OF Cons.prems(2) fresh(1)] by auto
    then have "manifest_ok m1" using fresh(4) Cons.prems(2,3) by (auto intro: manifest_ok_set valid_item_state)
    moreover have "gm_get m1 = (\<lambda>k. map_option (with_state target {ev_entry v}) (gm_get m k))"
      using fresh(1,4) i manifest_ok_get [OF Cons.prems(2)]
      by (auto simp: fun_eq_iff gomap_simps with_state_def map_option_case split: option.splits)
    moreover have "has_state m1 target (ev_entry v)"
      using fresh(1,4) by (auto simp: has_state_def gomap_simps)
    ultimately show ?thesis using fresh(3,4) by auto
  qed
  have mono: "has_state m1 target k" if h: "has_state m target k" for k
  proof -
    obtain item where "gm_get m k = Some item" "me_state item = target" using h by (auto simp: has_state_def)
    then show ?thesis using one by (simp add: has_state_def with_state_def)
  qed
  have seen1: "\<exists>k b. x = k @ [CHR 0x00] @ b \<and> CHR 0x00 \<notin> set k \<and> has_state m1 target k" if "x \<in> set s1" for x
  proof (cases "x \<in> set seen")
    case True
    then show ?thesis using Cons.prems(5) mono by meson
  next
    case False
    then have "x = ev_entry v @ [CHR 0x00] @ ev_id v" using that one by blast
    then show ?thesis using nul one by blast
  qed
  have rest: "manifest_ok m' \<and> gm_get m' = (\<lambda>k. map_option (with_state target (ev_entry ` set entries)) (gm_get m1 k))
      \<and> (changes' = [] \<longrightarrow> m' = m1)"
    using Cons.prems(3,4) one seen1 by (intro Cons.IH [OF s(2)]) auto
  moreover have "map_option (with_state target (ev_entry ` set entries)) (map_option (with_state target {ev_entry v}) x)
      = map_option (with_state target (ev_entry ` set (v # entries))) x" for x
    by (cases x) (auto simp: with_state_def)
  moreover have "changes' = [] \<Longrightarrow> c1 = []"
    using set_states_changes [OF s(2)] by simp
  ultimately show ?case using one by auto
qed


lemma with_state_sorted:
  assumes "manifest_ok m'" "wf_manifest es" "target \<noteq> NoState"
    and "gm_get m' = (\<lambda>k. map_option (with_state target ids) (gm_get (manifest_map es) k))"
  shows "sorted_manifest m' = map (with_state target ids) es"
proof (rule wf_manifest_unique)
  have d: "distinct (map me_entry es)" using assms(2) by (simp add: wf_manifest_def)
  show "wf_manifest (sorted_manifest m')" by (rule sorted_manifest_wf(1) [OF assms(1)])
  show "wf_manifest (map (with_state target ids) es)" by (rule with_state_wf [OF assms(2,3)])
  have "e \<in> set (sorted_manifest m') \<longleftrightarrow> (\<exists>x. gm_get (manifest_map es) (me_entry e) = Some x \<and> e = with_state target ids x)" for e
    using sorted_manifest_wf(3) [OF assms(1)] assms(4) by auto
  then show "set (sorted_manifest m') = set (map (with_state target ids) es)"
    by (auto simp: manifest_map_get [OF d])
qed

text \<open>A backend that returns the Memory it was asked to commit.\<close>

definition returns_commit :: "('s, 'x) memory_service \<Rightarrow> 's \<Rightarrow> bool" where
  "returns_commit svc st \<longleftrightarrow> (\<forall>c m s. mb_commit (ms_backend svc) st c = Inr (m, s) \<longrightarrow> m = cm_memory c)"

lemma commit_existing_manifest:
  assumes "commit_existing svc st value m' changes current versions = Inr (next, st')"
    and "returns_commit svc st"
  shows "cn_manifest (a_content next) = sorted_manifest m'" "ar_id (a_ref next) = ar_id (a_ref value)"
    "ar_revision (a_ref next) = wrap64 (ar_revision (a_ref value) + 1)"
proof -
  obtain c where c: "finish_commit svc st (Some value) (ar_id (a_ref value)) (wrap64 (ar_revision (a_ref value) + 1)) [] []
      m' changes current versions = Inr c" "mb_commit (ms_backend svc) st c = Inr (next, st')"
    using assms(1) by (auto simp: commit_existing_def and_then_eq_Inr)
  show "cn_manifest (a_content next) = sorted_manifest m'" "ar_id (a_ref next) = ar_id (a_ref value)"
    "ar_revision (a_ref next) = wrap64 (ar_revision (a_ref value) + 1)"
    using finish_commit_Inr [OF c(1)] assms(2) c(2) by (auto simp: returns_commit_def)
qed

lemma canonical_base_Inr: "canonical_base svc st value = Inr canonical \<Longrightarrow> canonical = value"
  by (auto simp: canonical_base_def res_simps split: option.splits)

lemma canonical_base_value:
  assumes "set_entry_state svc st value entries target reason = Inr x"
  shows "canonical_base svc st (Some value) = Inr (Some value)"
  using assms canonical_base_Inr by (cases "canonical_base svc st (Some value)") (auto simp: set_entry_state_def)

text \<open>The manifest after a successful transition, for a backend that returns the memory it commits.\<close>

lemma set_entry_state_manifest:
  assumes "set_entry_state svc st value entries target reason = Inr (next, st')"
    and "wf_manifest (cn_manifest (a_content value))" "target \<noteq> NoState"
    and "list_all (\<lambda>e. CHR 0x00 \<notin> set (ev_entry e)) entries"
    and commit: "returns_commit svc st"
  shows "cn_manifest (a_content next) = map (with_state target (ev_entry ` set entries)) (cn_manifest (a_content value))"
    and "next = value \<and> st' = st \<or> ar_revision (a_ref next) = wrap64 (ar_revision (a_ref value) + 1)
      \<and> ar_id (a_ref next) = ar_id (a_ref value)"
proof -
  let ?es = "cn_manifest (a_content value)"
  obtain vs normalized m' changes seen where
    v: "validated_entries svc st value = Inr vs"
    and f: "fold_res (set_state_step (ms_env svc) (entry_map vs) target normalized) entries (manifest_map ?es, [], [])
       = Inr (m', changes, seen)"
    and r: "(if changes = [] then Inr (value, st) else commit_existing svc st value m' changes (entry_map vs) []) = Inr (next, st')"
    using assms(1) [unfolded set_entry_state_def canonical_base_value [OF assms(1)] and_then_Inr Let_def option.sel and_then_eq_Inr]
    by auto
  have ok: "manifest_ok (manifest_map ?es)" using assms(2) by (simp add: wf_manifest_def manifest_map_ok)
  have sets: "manifest_ok m' \<and> gm_get m' = (\<lambda>k. map_option (with_state target (ev_entry ` set entries)) (gm_get (manifest_map ?es) k))
      \<and> (changes = [] \<longrightarrow> m' = manifest_map ?es)"
    by (rule set_states [OF f ok assms(3,4)]) simp
  have sorted: "sorted_manifest m' = map (with_state target (ev_entry ` set entries)) ?es"
    using sets by (intro with_state_sorted [OF _ assms(2,3)]) simp_all
  have both: "cn_manifest (a_content next) = sorted_manifest m' \<and>
     (next = value \<and> st' = st \<or> ar_revision (a_ref next) = wrap64 (ar_revision (a_ref value) + 1)
      \<and> ar_id (a_ref next) = ar_id (a_ref value))"
  proof (cases "changes = []")
    case True
    then show ?thesis using r sets sorted_manifest_map [OF assms(2)] by simp
  next
    case False
    then have "commit_existing svc st value m' changes (entry_map vs) [] = Inr (next, st')" using r by simp
    from commit_existing_manifest [OF this commit] show ?thesis by simp
  qed
  show "cn_manifest (a_content next) = map (with_state target (ev_entry ` set entries)) ?es"
    using both sorted by simp
  show "next = value \<and> st' = st \<or> ar_revision (a_ref next) = wrap64 (ar_revision (a_ref value) + 1)
      \<and> ar_id (a_ref next) = ar_id (a_ref value)"
    using both by blast
qed

section \<open>Deduplication\<close>

text \<open>The canonical content of a manifest line.\<close>

definition content_of :: "canonical_env \<Rightarrow> (string, entry_version) gomap \<Rightarrow> manifest_entry \<Rightarrow> string option" where
  "content_of env current e = (case gm_get current (me_entry e) of
     None \<Rightarrow> None
   | Some v \<Rightarrow> (case material_from_version env v of Inl _ \<Rightarrow> None | Inr m \<Rightarrow> Some (em_bytes m)))"

definition group_of :: "(string, string list) gomap \<Rightarrow> string \<Rightarrow> string list" where
  "group_of groups b = (case gm_get groups b of None \<Rightarrow> [] | Some ids \<Rightarrow> ids)"

lemma group_entry_group:
  assumes "group_entry env current e groups = Inr groups'"
  shows "group_of groups' b = group_of groups b @ (if me_state e = Active \<and> content_of env current e = Some b then [me_entry e] else [])
    \<and> (gm_wf groups \<longrightarrow> gm_wf groups')"
proof (cases "me_state e = Active")
  case False
  then show ?thesis using assms by (simp add: group_entry_def)
next
  case True
  obtain v where v: "gm_get current (me_entry e) = Some v"
    using assms True by (cases "gm_get current (me_entry e)") (auto simp: group_entry_def)
  obtain m where m: "material_from_version env v = Inr m"
      "groups' = gm_set (em_bytes m) (group_of groups (em_bytes m) @ [me_entry e]) groups"
    using assms True v by (auto simp: group_entry_def group_of_def and_then_eq_Inr)
  then show ?thesis using True v by (auto simp: group_of_def content_of_def gomap_simps)
qed

lemma group_entries:
  assumes "fold_res (group_entry env current) es groups = Inr groups'"
  shows "group_of groups' b = group_of groups b
      @ map me_entry (filter (\<lambda>e. me_state e = Active \<and> content_of env current e = Some b) es)
    \<and> (gm_wf groups \<longrightarrow> gm_wf groups')"
  using assms
proof (induction es arbitrary: groups)
  case (Cons e es)
  obtain g where g: "group_entry env current e groups = Inr g" "fold_res (group_entry env current) es g = Inr groups'"
    using Cons.prems by (auto simp: and_then_eq_Inr)
  show ?case using group_entry_group [OF g(1), of b] Cons.IH [OF g(2)] by auto
qed simp

lemma group_content:
  assumes "fold_res (group_entry env current) (map snd m) groups = Inr groups'" "e \<in> snd ` set m" "me_state e = Active"
  shows "\<exists>b. content_of env current e = Some b"
proof -
  have "e \<in> set es \<Longrightarrow> fold_res (group_entry env current) es groups = Inr groups' \<Longrightarrow> \<exists>g g'. group_entry env current e g = Inr g'" for es groups
    by (induction es arbitrary: groups) (auto simp: and_then_eq_Inr)
  then obtain g g' where "group_entry env current e g = Inr g'" using assms(1,2) by (metis set_map)
  then show ?thesis using assms(3)
    by (auto simp: group_entry_def content_of_def and_then_eq_Inr split: option.splits)
qed

lemma set_tl_sort:
  fixes xs :: "'a::linorder list"
  assumes "distinct xs" shows "set (tl (sort xs)) = {k \<in> set xs. \<exists>k' \<in> set xs. k' < k}"
proof (cases "sort xs")
  case Nil
  then have "set xs = {}" by (metis set_sort list.set(1))
  then show ?thesis using Nil by simp
next
  case (Cons x ys)
  have s: "sorted (x # ys)" "distinct (x # ys)" "set xs = insert x (set ys)"
    unfolding Cons [symmetric] using assms by simp_all (metis Cons set_sort list.simps(15))
  then show ?thesis using Cons by (force simp: less_le)
qed

definition duplicate_ids :: "canonical_env \<Rightarrow> (string, entry_version) gomap \<Rightarrow> manifest_entry set \<Rightarrow> string set" where
  "duplicate_ids env current es = {me_entry e | e e'. e \<in> es \<and> e' \<in> es \<and> me_state e = Active \<and> me_state e' = Active
     \<and> me_entry e' < me_entry e \<and> content_of env current e' = content_of env current e}"

lemma duplicate_idsI:
  "e \<in> es \<Longrightarrow> e' \<in> es \<Longrightarrow> me_state e = Active \<Longrightarrow> me_state e' = Active \<Longrightarrow> me_entry e' < me_entry e \<Longrightarrow>
     content_of env current e' = content_of env current e \<Longrightarrow> me_entry e \<in> duplicate_ids env current es"
  unfolding duplicate_ids_def by blast

lemma dedupe_entries:
  assumes "fold (dedupe_entry env) ids (m, changes, changed) = (m', changes', changed')"
    and "manifest_ok m" "set ids \<subseteq> dom (gm_get m)"
  shows "manifest_ok m' \<and> gm_get m' = (\<lambda>k. map_option (with_state Inactive (set ids)) (gm_get m k))
    \<and> set changed' = set ids \<union> set changed \<and> length changes' = length changes + length ids"
  using assms
proof (induction ids arbitrary: m changes changed)
  case Nil
  then show ?case by (auto simp: with_state_def option.map_id [unfolded id_def])
next
  case (Cons k ids)
  obtain item where item: "gm_get m k = Some item" using Cons.prems(3) by auto
  have i: "me_entry item = k" "valid_item item" using manifest_ok_get [OF Cons.prems(2) item] by auto
  let ?new = "item\<lparr>me_state := Inactive\<rparr>"
  have "new_manifest_entry (me_entry item) (me_version item) (me_hash item) Inactive = Inr ?new"
    using i(2) by (simp add: new_manifest_entry_valid valid_item_state)
  then have step: "\<exists>c. dedupe_entry env k (m, changes, changed) = (gm_set k ?new m, changes @ [c], k # changed)"
    by (simp add: dedupe_entry_def item or_zero_def)
  then obtain c where c: "fold (dedupe_entry env) ids (gm_set k ?new m, changes @ [c], k # changed) = (m', changes', changed')"
    using Cons.prems(1) by auto
  have "manifest_ok (gm_set k ?new m)" using i Cons.prems(2) by (auto intro: manifest_ok_set valid_item_state)
  moreover have "set ids \<subseteq> dom (gm_get (gm_set k ?new m))" using Cons.prems(3) by (auto simp: gomap_simps)
  ultimately have ih: "manifest_ok m' \<and> gm_get m' = (\<lambda>j. map_option (with_state Inactive (set ids)) (gm_get (gm_set k ?new m) j))
      \<and> set changed' = set ids \<union> set (k # changed) \<and> length changes' = length (changes @ [c]) + length ids"
    by (rule Cons.IH [OF c])
  have eq: "map_option (with_state Inactive (set ids)) (gm_get (gm_set k ?new m) j)
      = map_option (with_state Inactive (set (k # ids))) (gm_get m j)" for j
  proof (cases "j = k")
    case True
    then show ?thesis using item i(1) by (simp add: gomap_simps with_state_def)
  next
    case False
    then show ?thesis using manifest_ok_get [OF Cons.prems(2), of j]
      by (cases "gm_get m j") (simp_all add: gomap_simps with_state_def)
  qed
  show ?case using ih unfolding eq by simp
qed

lemma deduplicate_manifest_exact:
  assumes "deduplicate_manifest env m current = Inr (m', changes, changed)" "manifest_ok m"
  shows "manifest_ok m' \<and> gm_get m' = (\<lambda>k. map_option (with_state Inactive (duplicate_ids env current (snd ` set m))) (gm_get m k))
    \<and> set changed = duplicate_ids env current (snd ` set m) \<and> (changes = [] \<longrightarrow> m' = m)"
proof -
  obtain groups where g: "fold_res (group_entry env current) (map snd m) [] = Inr groups"
      "fold (dedupe_entry env) (concat (map (\<lambda>(_, ids). tl (sort ids)) groups)) (m, [], []) = (m', changes, changed)"
    using assms(1) by (auto simp: deduplicate_manifest_def and_then_eq_Inr)
  let ?ids = "concat (map (\<lambda>(_, ids). tl (sort ids)) groups)"
  have grp: "group_of groups b = map me_entry (filter (\<lambda>e. me_state e = Active \<and> content_of env current e = Some b) (map snd m))" for b
    using group_entries [OF g(1), of b] by (simp add: group_of_def)
  have wf: "gm_wf groups" using group_entries [OF g(1)] by simp
  have "map me_entry (map snd m) = map fst m" using assms(2) by (auto simp: manifest_ok_def)
  then have "distinct (map me_entry (map snd m))" using assms(2) unfolding manifest_ok_def gm_wf_def by metis
  then have dist: "distinct (group_of groups b)" for b unfolding grp by (auto simp: distinct_map inj_on_def)
  have some: "\<exists>b. content_of env current e = Some b" if "e \<in> snd ` set m" "me_state e = Active" for e
    using g(1) that by (rule group_content)
  have mem: "k \<in> set ?ids \<longleftrightarrow> (\<exists>b. k \<in> set (tl (sort (group_of groups b))))" for k
  proof
    assume "k \<in> set ?ids"
    then obtain b ids where "(b, ids) \<in> set groups" "k \<in> set (tl (sort ids))" by auto
    then have "gm_get groups b = Some ids" using gm_get_iff [OF wf] by simp
    then show "\<exists>b. k \<in> set (tl (sort (group_of groups b)))"
      using \<open>k \<in> set (tl (sort ids))\<close> by (intro exI [of _ b]) (simp add: group_of_def)
  next
    assume "\<exists>b. k \<in> set (tl (sort (group_of groups b)))"
    then obtain b where b: "k \<in> set (tl (sort (group_of groups b)))" by blast
    then obtain ids where ids: "gm_get groups b = Some ids" by (cases "gm_get groups b") (auto simp: group_of_def)
    then have "(b, ids) \<in> set groups" using gm_get_iff [OF wf] by simp
    moreover have "k \<in> set (tl (sort ids))" using b ids by (simp add: group_of_def)
    ultimately show "k \<in> set ?ids" by force
  qed
  have dup: "set ?ids = duplicate_ids env current (snd ` set m)"
  proof (intro set_eqI)
    fix k
    have "k \<in> set ?ids \<longleftrightarrow> (\<exists>b. k \<in> set (group_of groups b) \<and> (\<exists>k' \<in> set (group_of groups b). k' < k))"
      unfolding mem by (simp add: set_tl_sort [OF dist])
    also have "\<dots> \<longleftrightarrow> k \<in> duplicate_ids env current (snd ` set m)"
    proof
      assume "\<exists>b. k \<in> set (group_of groups b) \<and> (\<exists>k' \<in> set (group_of groups b). k' < k)"
      then obtain b e e' where e: "k = me_entry e" "e \<in> snd ` set m" "e' \<in> snd ` set m" "me_state e = Active"
          "me_state e' = Active" "me_entry e' < me_entry e" "content_of env current e = Some b" "content_of env current e' = Some b"
        unfolding grp by auto
      then show "k \<in> duplicate_ids env current (snd ` set m)" unfolding e(1)
        by (intro duplicate_idsI [of e _ e']) simp_all
    next
      assume "k \<in> duplicate_ids env current (snd ` set m)"
      then obtain e e' where e: "k = me_entry e" "e \<in> snd ` set m" "e' \<in> snd ` set m" "me_state e = Active"
          "me_state e' = Active" "me_entry e' < me_entry e" "content_of env current e' = content_of env current e"
        unfolding duplicate_ids_def by blast
      then obtain b where "content_of env current e = Some b" using some by blast
      then have "me_entry e \<in> set (group_of groups b)" "me_entry e' \<in> set (group_of groups b)"
        unfolding grp using e by auto
      then show "\<exists>b. k \<in> set (group_of groups b) \<and> (\<exists>k' \<in> set (group_of groups b). k' < k)" using e by blast
    qed
    finally show "k \<in> set ?ids \<longleftrightarrow> k \<in> duplicate_ids env current (snd ` set m)" .
  qed
  have dom: "set ?ids \<subseteq> dom (gm_get m)"
    unfolding dup duplicate_ids_def using assms(2) gm_get_iff [of m] by (fastforce simp: manifest_ok_def)
  have "manifest_ok m' \<and> gm_get m' = (\<lambda>k. map_option (with_state Inactive (set ?ids)) (gm_get m k))
    \<and> set changed = set ?ids \<union> set [] \<and> length changes = length ([] :: memory_change list) + length ?ids"
    by (rule dedupe_entries [OF g(2) assms(2) dom])
  moreover have "changes = [] \<Longrightarrow> m' = m" using calculation g(2) by (cases "?ids = []") auto
  ultimately show ?thesis unfolding dup by simp
qed


lemma organize_dedupe_manifest:
  assumes "organize svc st value OrganizeDedupe = Inr (next, st')"
    and "wf_manifest (cn_manifest (a_content value))" "validated_entries svc st value = Inr vs"
    and "returns_commit svc st"
  shows "cn_manifest (a_content next) = map (with_state Inactive
      (duplicate_ids (ms_env svc) (entry_map vs) (set (cn_manifest (a_content value))))) (cn_manifest (a_content value))"
proof -
  let ?es = "cn_manifest (a_content value)"
  have cb: "canonical_base svc st (Some value) = Inr (Some value)"
    using assms(1) canonical_base_Inr by (cases "canonical_base svc st (Some value)") (auto simp: organize_def)
  obtain m' changes changed where d: "deduplicate_manifest (ms_env svc) (manifest_map ?es) (entry_map vs) = Inr (m', changes, changed)"
    "(if changes = [] then Inr (value, st) else commit_existing svc st value m' changes (entry_map vs) []) = Inr (next, st')"
    using assms(1) unfolding organize_def cb and_then_Inr Let_def option.sel assms(3)
    by (auto simp: and_then_eq_Inr check_def plan_state.simps cong: if_cong)
  have ok: "manifest_ok (manifest_map ?es)" and dist: "distinct (map me_entry ?es)"
    using assms(2) by (simp_all add: wf_manifest_def manifest_map_ok)
  have items: "snd ` set (manifest_map ?es) = set ?es"
    using sorted_manifest_wf(2) [OF ok] sorted_manifest_map [OF assms(2)] by simp
  note exact = deduplicate_manifest_exact [OF d(1) ok, unfolded items]
  have sorted: "sorted_manifest m' = map (with_state Inactive (duplicate_ids (ms_env svc) (entry_map vs) (set ?es))) ?es"
    using exact by (intro with_state_sorted [OF _ assms(2)]) simp_all
  show ?thesis
  proof (cases "changes = []")
    case True
    then show ?thesis using d(2) exact sorted sorted_manifest_map [OF assms(2)] by simp
  next
    case False
    then have "commit_existing svc st value m' changes (entry_map vs) [] = Inr (next, st')" using d(2) by simp
    then have "cn_manifest (a_content next) = sorted_manifest m'"
      using assms(4) by (rule commit_existing_manifest(1))
    then show ?thesis by (simp only: sorted)
  qed
qed

lemma organize_identity:
  assumes "organize svc st base how = Inr (nx, st')" "returns_commit svc st"
  shows "nx = base \<or> ar_id (a_ref nx) = ar_id (a_ref base)"
proof -
  have "canonical_base svc st (Some base) = Inr (Some base)"
    using assms(1) canonical_base_Inr by (auto simp: organize_def and_then_eq_Inr)
  then show ?thesis using assms(1) unfolding organize_def Let_def prod.case_eq_if
    by (elim and_thenE) (metis (no_types, lifting) commit_existing_manifest(2) [OF _ assms(2)] Inr_inject Pair_inject option.sel)
qed

text \<open>What that manifest means: one active line per content, the one with the least identity.\<close>

lemma dedupe_unique:
  assumes "wf_manifest es" "es' = map (with_state Inactive (duplicate_ids env current (set es))) es"
  shows "x \<in> set es' \<Longrightarrow> y \<in> set es' \<Longrightarrow> me_state x = Active \<Longrightarrow> me_state y = Active \<Longrightarrow>
      content_of env current x = content_of env current y \<Longrightarrow> x = y"
    and "x \<in> set es \<Longrightarrow> me_state x = Active \<Longrightarrow>
      \<exists>y \<in> set es'. y \<in> set es \<and> me_state y = Active \<and> content_of env current y = content_of env current x \<and> me_entry y \<le> me_entry x"
proof -
  let ?dup = "duplicate_ids env current (set es)"
  have inj: "me_entry x = me_entry y \<Longrightarrow> x = y" if "x \<in> set es" "y \<in> set es" for x y
    using assms(1) that by (auto simp: wf_manifest_def distinct_map inj_on_def)
  have active: "x \<in> set es' \<and> me_state x = Active \<longleftrightarrow> x \<in> set es \<and> me_state x = Active \<and> me_entry x \<notin> ?dup" for x
    unfolding assms(2) by (auto simp: with_state_def)
  {
    assume xy: "x \<in> set es'" "y \<in> set es'" "me_state x = Active" "me_state y = Active" "content_of env current x = content_of env current y"
    then have "x \<in> set es" "y \<in> set es" "me_entry x \<notin> ?dup" "me_entry y \<notin> ?dup" using active by blast+
    then have "\<not> me_entry x < me_entry y" "\<not> me_entry y < me_entry x"
      using xy duplicate_idsI [of _ "set es" _ env current] by metis+
    then have "me_entry x = me_entry y" by order
    then show "x = y" using inj \<open>x \<in> set es\<close> \<open>y \<in> set es\<close> by blast
  next
    assume x: "x \<in> set es" "me_state x = Active"
    let ?S = "{y \<in> set es. me_state y = Active \<and> content_of env current y = content_of env current x}"
    obtain y where y: "y \<in> ?S" "\<And>z. z \<in> ?S \<Longrightarrow> me_entry y \<le> me_entry z"
      using x ex_min_if_finite [of "me_entry ` ?S"] by (auto simp: not_less)
    have "me_entry y \<notin> ?dup"
    proof
      assume "me_entry y \<in> ?dup"
      then obtain e e' where "me_entry y = me_entry e" "e \<in> set es" "e' \<in> set es" "me_state e' = Active"
          "me_entry e' < me_entry e" "content_of env current e' = content_of env current e"
        unfolding duplicate_ids_def by blast
      then show False using y inj by (metis (mono_tags, lifting) mem_Collect_eq not_less)
    qed
    then show "\<exists>y \<in> set es'. y \<in> set es \<and> me_state y = Active \<and> content_of env current y = content_of env current x \<and> me_entry y \<le> me_entry x"
      using y x active by blast
  }
qed

end
