(* ===== verification/Memory_History.thy ===== *)
theory Memory_History
  imports Memory_Organize
begin

text \<open>
  The contract between the Memory service and its backend, as a locale: what \<open>Commit\<close> promises about
  \<open>Get\<close>, \<open>Latest\<close> and \<open>Entries\<close>. Under it every operation of the service keeps the history of every
  Memory readable: each revision that was ever committed still resolves to the entry versions its
  manifest names, with the content hashes the manifest records.
\<close>

section \<open>Complete histories\<close>

definition complete :: "canonical_env \<Rightarrow> entry_version list \<Rightarrow> memory \<Rightarrow> bool" where
  "complete env vs m \<longleftrightarrow> (\<forall>e \<in> set (cn_manifest (a_content m)). \<exists>v \<in> set vs. agrees env (ar_id (a_ref m)) e v)"

definition readable ::
  "'s memory_backend \<Rightarrow> ('s \<Rightarrow> string \<Rightarrow> entry_version list) \<Rightarrow> canonical_env \<Rightarrow> 's \<Rightarrow> bool" where
  "readable backend versions env s \<longleftrightarrow> (\<forall>r m. mb_get backend s r = Inr m \<longrightarrow>
     wf_manifest (cn_manifest (a_content m)) \<and> complete env (versions s (ar_id r)) m)"

lemma complete_mono: "complete env vs m \<Longrightarrow> set vs \<subseteq> set vs' \<Longrightarrow> complete env vs' m"
  unfolding complete_def by blast

text \<open>The successful operations as steps of the store. Any service over the same store may take a step: two
  services agree on the backend and the canonical form, and may differ in their identity factory,
  their resolvers, their pipeline and their embedding model.\<close>

definition same_store :: "('s, 'x) memory_service \<Rightarrow> ('s, 'x) memory_service \<Rightarrow> bool" where
  "same_store svc svc' \<longleftrightarrow> ms_backend svc' = ms_backend svc \<and> ms_env svc' = ms_env svc"

inductive memory_step :: "('s, 'x) memory_service \<Rightarrow> 's \<Rightarrow> 's \<Rightarrow> bool" for svc where
  remembers: "same_store svc svc' \<Longrightarrow> remember svc' s base sources artifacts entries mode = Inr (result, s') \<Longrightarrow> memory_step svc s s'"
| forgets: "same_store svc svc' \<Longrightarrow> forget svc' s value requested reason = Inr (m, s') \<Longrightarrow> memory_step svc s s'"
| reactivates: "same_store svc svc' \<Longrightarrow> reactivate svc' s value requested reason = Inr (m, s') \<Longrightarrow> memory_step svc s s'"
| organizes: "same_store svc svc' \<Longrightarrow> organize svc' s value how = Inr (m, s') \<Longrightarrow> memory_step svc s s'"

lemma index_versions_distinct:
  assumes "distinct (map ev_id vs)"
  obtains by_id where "index_versions vs = Inr by_id" "\<forall>v \<in> set vs. gm_get by_id (ev_id v) = Some v"
proof -
  let ?f = "\<lambda>v by_id. if gm_get by_id (ev_id v) \<noteq> None then Inl (InvalidCitation ''duplicate-versions'')
     else Inr (gm_set (ev_id v) v by_id)"
  have gen: "fold_res ?f vs m = Inr (gm_of_list ev_id id vs m)" if "distinct (map ev_id vs)" "ev_id ` set vs \<inter> fst ` set m = {}" for m vs
    using that
  proof (induction vs arbitrary: m)
    case (Cons v vs)
    then have "gm_get m (ev_id v) = None" by (simp add: gm_dom)
    moreover have "ev_id ` set vs \<inter> fst ` set (gm_set (ev_id v) v m) = {}" using Cons.prems by (auto simp: dom_update)
    ultimately show ?case using Cons by simp
  qed simp
  have "index_versions vs = Inr (gm_of_list ev_id id vs [])"
    unfolding index_versions_def using assms by (rule gen) simp
  then show thesis using that gm_get_of_list [OF assms, of _ id "[]"] by simp
qed

section \<open>Transitions keep lines and versions in agreement\<close>

lemma agrees_state [simp]: "agrees env i (item\<lparr>me_state := t\<rparr>) v \<longleftrightarrow> agrees env i item v"
  by (simp add: agrees_def)

lemma set_states_consistent:
  assumes "fold_res (set_state_step env current target reason) entries (m, changes, seen) = Inr (m', changes', seen')"
    and "consistent env i m current" "target \<noteq> NoState"
  shows "consistent env i m' current"
proof -
  have "consistent env i (fst (m', changes', seen')) current" using assms(1)
  proof (rule fold_res_invariant [where P = "\<lambda>x. consistent env i (fst x) current"])
    fix v u w
    assume u: "consistent env i (fst u) current" and w: "set_state_step env current target reason v u = Inr w"
    obtain a b c a' b' c' where e: "u = (a, b, c)" "w = (a', b', c')" by (cases u, cases w)
    have ok: "manifest_ok a" using u e by (simp add: consistent_def)
    show "consistent env i (fst w) current" using w [unfolded e] ok assms(3)
    proof (cases rule: set_state_stepE)
      case (fresh item)
      have "me_entry item = ev_entry v" "valid_item item" using manifest_ok_get [OF ok fresh(1)] by auto
      moreover have "agrees env i item v" using u e consistentD [OF _ fresh(1,2)] by simp
      ultimately show ?thesis using fresh u e assms(3)
        by (auto simp: consistent_def gomap_simps intro: manifest_ok_set valid_item_state split: if_splits)
    qed (use u e in auto)
  qed (use assms(2) in simp)
  then show ?thesis by simp
qed

lemma dedupe_consistent:
  assumes "deduplicate_manifest env m current = Inr (m', changes, changed)" "consistent env i m current"
  shows "consistent env i m' current" "dom (gm_get m') = dom (gm_get m)"
proof -
  have "manifest_ok m" using assms(2) by (simp add: consistent_def)
  note exact = deduplicate_manifest_exact [OF assms(1) this]
  show "dom (gm_get m') = dom (gm_get m)" using exact by auto
  show "consistent env i m' current" unfolding consistent_def
  proof (intro conjI allI impI)
    show "manifest_ok m'" "gm_wf current" using exact assms(2) by (simp_all add: consistent_def)
    fix k item assume "gm_get m' k = Some item"
    then obtain x where x: "gm_get m k = Some x" "item = with_state Inactive (duplicate_ids env current (snd ` set m)) x"
      using exact by auto
    then obtain v where "gm_get current k = Some v" "agrees env i x v" using assms(2) unfolding consistent_def by blast
    then show "\<exists>v. gm_get current k = Some v \<and> agrees env i item v" using x(2) by (simp add: with_state_def)
  qed
qed

definition normalize_inv :: "canonical_env \<Rightarrow> string \<Rightarrow> entry_version set \<Rightarrow> plan_state \<Rightarrow> bool" where
  "normalize_inv env i old ps \<longleftrightarrow> consistent env i (ps_manifest ps) (ps_current ps)
     \<and> dom (gm_get (ps_current ps)) \<subseteq> dom (gm_get (ps_manifest ps))
     \<and> (\<forall>k v. gm_get (ps_current ps) k = Some v \<longrightarrow> v \<in> old \<or> v \<in> set (ps_versions ps))"

lemma normalize_entry_inv:
  assumes "normalize_entry svc base skip k ps = Inr ps'" "normalize_inv (ms_env svc) (ar_id (a_ref base)) old ps"
    and "nfc_closed (ms_env svc)" "digest_ok (ms_env svc)"
  shows "normalize_inv (ms_env svc) (ar_id (a_ref base)) old ps'"
proof (cases "gm_get (ps_current ps) k")
  case None
  then show ?thesis using assms(1,2) by (simp add: normalize_entry_def split: if_splits)
next
  case (Some previous)
  obtain item where item: "gm_get (ps_manifest ps) k = Some item"
    using Some assms(2) by (auto simp: normalize_inv_def)
  have ok: "manifest_ok (ps_manifest ps)" using assms(2) by (simp add: normalize_inv_def consistent_def)
  have i: "me_entry item = k" "valid_item item" using manifest_ok_get [OF ok item] by auto
  show ?thesis
  proof (cases "ps' = ps")
    case True
    then show ?thesis using assms(2) by simp
  next
    case False
    then obtain material v where m: "material_from_version (ms_env svc) previous = Inr material"
        and v: "new_entry_version svc (ar_id (a_ref base)) k (Some previous) material
          (wrap64 (ar_revision (a_ref base) + 1)) (ps_ids ps) = Inr v"
        and ps': "\<exists>c. ps' = ps\<lparr>ps_manifest := gm_set k (or_zero zero_manifest_entry
                   (new_manifest_entry k (ev_id v) (ev_hash v) (me_state item))) (ps_manifest ps),
                 ps_current := gm_set k v (ps_current ps), ps_versions := ps_versions ps @ [v],
                 ps_changes := ps_changes ps @ [c], ps_ids := Suc (ps_ids ps)\<rparr>"
      using assms(1) Some item by (auto simp: normalize_entry_def and_then_eq_Inr Let_def split: if_splits)
    note ver = new_entry_version_ok [OF assms(3) v m [unfolded material_from_version_def]]
    let ?line = "\<lparr>me_entry = k, me_version = ev_id v, me_hash = ev_hash v, me_state = me_state item\<rparr>"
    have line: "valid_item ?line"
      using i ver(2,6) material_hash_valid [OF assms(4) m [unfolded material_from_version_def]] by (simp add: valid_item_iff)
    then have "new_manifest_entry k (ev_id v) (ev_hash v) (me_state item) = Inr ?line" by (simp add: new_manifest_entry_valid)
    then obtain c where c: "ps' = ps\<lparr>ps_manifest := gm_set k ?line (ps_manifest ps),
                 ps_current := gm_set k v (ps_current ps), ps_versions := ps_versions ps @ [v],
                 ps_changes := ps_changes ps @ [c], ps_ids := Suc (ps_ids ps)\<rparr>"
      using ps' by (auto simp: or_zero_def)
    have "agrees (ms_env svc) (ar_id (a_ref base)) ?line v" using ver by (auto simp: agrees_def)
    then have "consistent (ms_env svc) (ar_id (a_ref base)) (ps_manifest ps') (ps_current ps')"
      using assms(2) ver(3) line by (auto simp: c normalize_inv_def intro: consistent_set)
    then show ?thesis using assms(2) by (auto simp: c normalize_inv_def gomap_simps)
  qed
qed

section \<open>The backend contract\<close>

definition lookup_version :: "entry_version list \<Rightarrow> manifest_entry \<Rightarrow> memory_error + entry_version" where
  "lookup_version vs item = (case find (\<lambda>v. ev_id v = me_version item) vs of
     None \<Rightarrow> Inl (InvalidCitation ''missing-version'') | Some v \<Rightarrow> Inr v)"

lemma lookup_version_mem:
  assumes "distinct (map ev_id vs)" "v \<in> set vs" "ev_id v = me_version item"
  shows "lookup_version vs item = Inr v"
proof -
  have "find (\<lambda>v. ev_id v = me_version item) vs = Some v"
    using assms
  proof (induction vs)
    case (Cons x xs)
    show ?case
    proof (cases "x = v")
      case False
      then have "ev_id x \<noteq> ev_id v" using Cons.prems by (auto simp: rev_image_eqI)
      then show ?thesis using Cons False by simp
    qed (use Cons.prems in simp)
  qed simp
  then show ?thesis by (simp add: lookup_version_def)
qed

locale memory_store =
  fixes backend :: "'s memory_backend" and inv :: "'s \<Rightarrow> bool" and versions :: "'s \<Rightarrow> string \<Rightarrow> entry_version list"
  assumes get_ref: "mb_get backend s r = Inr m \<Longrightarrow> a_ref m = r"
    and commit_inv: "inv s \<Longrightarrow> mb_commit backend s c = Inr (m, s') \<Longrightarrow> inv s'"
    and commit_returns: "mb_commit backend s c = Inr (m, s') \<Longrightarrow> m = cm_memory c"
    and commit_get: "inv s \<Longrightarrow> mb_commit backend s c = Inr (m, s') \<Longrightarrow> mb_get backend s' (a_ref m) = Inr m"
    and commit_latest: "inv s \<Longrightarrow> mb_commit backend s c = Inr (m, s') \<Longrightarrow> mb_latest backend s' (ar_id (a_ref m)) = Inr m"
    and commit_keeps: "inv s \<Longrightarrow> mb_commit backend s c = Inr (m, s') \<Longrightarrow> mb_get backend s r = Inr x \<Longrightarrow> mb_get backend s' r = Inr x"
    and commit_only: "inv s \<Longrightarrow> mb_commit backend s c = Inr (m, s') \<Longrightarrow> mb_get backend s' r = Inr x \<Longrightarrow> r = a_ref m \<or> mb_get backend s r = Inr x"
    and commit_versions: "inv s \<Longrightarrow> mb_commit backend s c = Inr (m, s') \<Longrightarrow>
      versions s' i = versions s i @ filter (\<lambda>v. ev_memory v = i) (cm_entries c)"
    and versions_distinct: "inv s \<Longrightarrow> distinct (map ev_id (versions s i))"
    and entries_lookup: "inv s \<Longrightarrow> mb_get backend s r = Inr m \<Longrightarrow>
      mb_entries backend s r = map_res (lookup_version (versions s (ar_id r))) (cn_manifest (a_content m))"
begin

lemma validated_subset:
  assumes "inv s" "ms_backend svc = backend" "mb_get backend s (a_ref m) = Inr m" "validated_entries svc s m = Inr vs"
  shows "set vs \<subseteq> set (versions s (ar_id (a_ref m)))"
proof -
  obtain es by_id where e: "mb_entries backend s (a_ref m) = Inr es" "index_versions es = Inr by_id"
      "map_res (validated_entry (ms_env svc) (ar_id (a_ref m)) by_id) (cn_manifest (a_content m)) = Inr vs"
    using assms(2,4) by (auto simp: validated_entries_def and_then_eq_Inr)
  have es: "map_res (lookup_version (versions s (ar_id (a_ref m)))) (cn_manifest (a_content m)) = Inr es"
    using e(1) entries_lookup [OF assms(1,3)] by simp
  show ?thesis
  proof
    fix v assume "v \<in> set vs"
    then obtain item where "validated_entry (ms_env svc) (ar_id (a_ref m)) by_id item = Inr v"
      by (rule map_res_memberE [OF e(3)])
    then have "v \<in> set es" using index_versions_get [OF e(2)] unfolding validated_entry_agrees by blast
    then obtain item' where "lookup_version (versions s (ar_id (a_ref m))) item' = Inr v" by (rule map_res_memberE [OF es])
    then show "v \<in> set (versions s (ar_id (a_ref m)))"
      by (auto simp: lookup_version_def find_Some_iff split: option.splits)
  qed
qed

lemma validated_complete:
  assumes "inv s" "ms_backend svc = backend" "mb_get backend s (a_ref m) = Inr m"
    and "wf_manifest (cn_manifest (a_content m))" "complete (ms_env svc) (versions s (ar_id (a_ref m))) m"
  shows "\<exists>vs. validated_entries svc s m = Inr vs \<and>
    map_res (lookup_version (versions s (ar_id (a_ref m)))) (cn_manifest (a_content m)) = Inr vs"
proof -
  let ?es = "cn_manifest (a_content m)" and ?V = "versions s (ar_id (a_ref m))" and ?i = "ar_id (a_ref m)"
  have "\<forall>e \<in> set ?es. \<exists>v. v \<in> set ?V \<and> agrees (ms_env svc) ?i e v" using assms(5) by (auto simp: complete_def)
  then obtain w where w: "\<And>e. e \<in> set ?es \<Longrightarrow> w e \<in> set ?V" "\<And>e. e \<in> set ?es \<Longrightarrow> agrees (ms_env svc) ?i e (w e)"
    by metis
  have look: "map_res (lookup_version ?V) ?es = Inr (map w ?es)"
    using w by (intro map_res_total lookup_version_mem versions_distinct assms(1)) (auto simp: agrees_def)
  have "ev_entry (w e) = me_entry e" if "e \<in> set ?es" for e using w(2) [OF that] by (simp add: agrees_def)
  then have "map ev_entry (map w ?es) = map me_entry ?es" by simp
  moreover have "distinct (map me_entry ?es)" using assms(4) by (simp add: wf_manifest_def)
  ultimately have de: "distinct (map ev_entry (map w ?es))" by (simp only:)
  have "distinct (map ev_id (map w ?es))"
  proof (rule distinct_map [THEN iffD2], intro conjI inj_onI)
    show "distinct (map w ?es)" using de by (simp only: distinct_map)
    fix x y assume "x \<in> set (map w ?es)" "y \<in> set (map w ?es)" "ev_id x = ev_id y"
    moreover have "x \<in> set ?V" "y \<in> set ?V" using calculation w(1) by auto
    ultimately show "x = y" using versions_distinct [OF assms(1), of ?i] by (auto simp: distinct_map inj_on_def)
  qed
  then obtain by_id where b: "index_versions (map w ?es) = Inr by_id"
      "\<forall>v \<in> set (map w ?es). gm_get by_id (ev_id v) = Some v"
    by (rule index_versions_distinct)
  have "validated_entry (ms_env svc) ?i by_id e = Inr (w e)" if "e \<in> set ?es" for e
    using b(2) w(2) [OF that] that by (auto simp: validated_entry_agrees agrees_def)
  then have "map_res (validated_entry (ms_env svc) ?i by_id) ?es = Inr (map w ?es)" by (rule map_res_total)
  then show ?thesis
    using look b(1) entries_lookup [OF assms(1,3)] assms(2) by (simp add: validated_entries_def)
qed

text \<open>A commit of agreeing lines and versions keeps every history readable.\<close>

lemma commit_readable:
  assumes "inv s" "readable backend versions env s" "mb_commit backend s c = Inr (m, s')"
    and "wf_manifest (cn_manifest (a_content (cm_memory c)))"
    and "\<And>e. e \<in> set (cn_manifest (a_content (cm_memory c))) \<Longrightarrow>
      \<exists>v. agrees env (ar_id (a_ref (cm_memory c))) e v
        \<and> (v \<in> set (versions s (ar_id (a_ref (cm_memory c)))) \<or> v \<in> set (cm_entries c))"
  shows "inv s' \<and> readable backend versions env s'"
proof -
  note grow = commit_versions [OF assms(1,3)]
  have m: "m = cm_memory c" by (rule commit_returns [OF assms(3)])
  have "wf_manifest (cn_manifest (a_content x)) \<and> complete env (versions s' (ar_id r)) x" if x: "mb_get backend s' r = Inr x" for r x
  proof (cases "mb_get backend s r = Inr x")
    case True
    then have "wf_manifest (cn_manifest (a_content x)) \<and> complete env (versions s (ar_id r)) x"
      using assms(2) by (simp add: readable_def)
    then show ?thesis using complete_mono grow by fastforce
  next
    case False
    then have r: "r = a_ref m" using commit_only [OF assms(1,3) x] by blast
    then have "x = cm_memory c" using x commit_get [OF assms(1,3)] m by simp
    moreover have "complete env (versions s' (ar_id (a_ref m))) m"
      unfolding complete_def m
    proof
      fix e assume "e \<in> set (cn_manifest (a_content (cm_memory c)))"
      then obtain v where v: "agrees env (ar_id (a_ref (cm_memory c))) e v"
          "v \<in> set (versions s (ar_id (a_ref (cm_memory c)))) \<or> v \<in> set (cm_entries c)" using assms(5) by blast
      moreover have "ev_memory v = ar_id (a_ref (cm_memory c))" using v(1) by (simp add: agrees_def)
      ultimately show "\<exists>v \<in> set (versions s' (ar_id (a_ref (cm_memory c)))). agrees env (ar_id (a_ref (cm_memory c))) e v"
        by (intro bexI [of _ v]) (auto simp: grow)
    qed
    ultimately show ?thesis using assms(4) m r by simp
  qed
  then show ?thesis using commit_inv [OF assms(1,3)] by (simp add: readable_def)
qed

text \<open>Every operation of the service commits agreeing lines and versions.\<close>

lemma finish_readable:
  assumes "inv s" "readable backend versions (ms_env svc) s"
    and "finish_commit svc s base i rv ss as manifest changes current new = Inr c"
    and "mb_commit backend s c = Inr (m, s')" "consistent (ms_env svc) i manifest current"
    and "\<And>k v. gm_get current k = Some v \<Longrightarrow> v \<in> set (versions s i) \<or> v \<in> set new"
  shows "inv s' \<and> readable backend versions (ms_env svc) s'"
proof (rule commit_readable [OF assms(1,2,4)])
  note fin = finish_commit_Inr [OF assms(3)]
  have ok: "manifest_ok manifest" using assms(5) by (simp add: consistent_def)
  show "wf_manifest (cn_manifest (a_content (cm_memory c)))" using sorted_manifest_wf(1) [OF ok] by (simp add: fin)
  fix e assume "e \<in> set (cn_manifest (a_content (cm_memory c)))"
  then have "gm_get manifest (me_entry e) = Some e" by (simp add: fin sorted_manifest_wf(3) [OF ok])
  then obtain v where "gm_get current (me_entry e) = Some v" "agrees (ms_env svc) i e v"
    using assms(5) unfolding consistent_def by blast
  then show "\<exists>v. agrees (ms_env svc) (ar_id (a_ref (cm_memory c))) e v
      \<and> (v \<in> set (versions s (ar_id (a_ref (cm_memory c)))) \<or> v \<in> set (cm_entries c))"
    using assms(6) by (auto simp: fin)
qed

lemma base_entries:
  assumes "inv s" "readable backend versions (ms_env svc) s" "ms_backend svc = backend"
    and "canonical_base svc s (Some m) = Inr x" "validated_entries svc s m = Inr vs"
  shows "wf_manifest (cn_manifest (a_content m))"
    "consistent (ms_env svc) (ar_id (a_ref m)) (manifest_map (cn_manifest (a_content m))) (entry_map vs)"
    "gm_get (entry_map vs) k = Some v \<Longrightarrow> v \<in> set (versions s (ar_id (a_ref m)))"
proof -
  have get: "mb_get backend s (a_ref m) = Inr m" using assms(3,4) by (auto simp: canonical_base_def res_simps)
  then show wf: "wf_manifest (cn_manifest (a_content m))" using assms(2) by (simp add: readable_def)
  show "consistent (ms_env svc) (ar_id (a_ref m)) (manifest_map (cn_manifest (a_content m))) (entry_map vs)"
    by (rule validated_entries_consistent(1) [OF assms(5) wf])
  assume "gm_get (entry_map vs) k = Some v"
  then have "v \<in> set vs" by (auto simp: entry_map_def dest!: gm_get_of_list_Some)
  then show "v \<in> set (versions s (ar_id (a_ref m)))" using validated_subset [OF assms(1,3) get assms(5)] by blast
qed

lemma remember_readable:
  assumes "inv s" "readable backend versions (ms_env svc) s" "ms_backend svc = backend"
    and "nfc_closed (ms_env svc)" "digest_ok (ms_env svc)"
    and "remember svc s base sources artifacts entries mode = Inr (result, s')"
  shows "inv s' \<and> readable backend versions (ms_env svc) s'"
proof -
  obtain plan where p: "plan_remember svc s base sources artifacts entries mode = Inr plan"
      "apply_write_plan svc s plan = Inr (result, s')"
    using assms(6) by (auto simp: remember_def and_then_eq_Inr)
  show ?thesis
  proof (cases "wp_commit plan")
    case None
    then show ?thesis using p(2) assms(1,2) by (simp add: apply_write_plan_def)
  next
    case (Some c)
    then obtain m where commit: "mb_commit backend s c = Inr (m, s')"
      using p(2) assms(3) by (auto simp: apply_write_plan_def and_then_eq_Inr)
    from p(1) Some obtain vs candidates evidence where v: "canonical_base svc s base = Inr base"
        "(case base of None \<Rightarrow> Inr [] | Some m \<Rightarrow> validated_entries svc s m) = Inr vs"
        "prepare_commit svc s base candidates evidence vs = Inr (Some c)"
      by (elim plan_rememberE) blast
    from v(3) obtain i content ids ps refs where q: "\<And>m. base = Some m \<Longrightarrow> i = ar_id (a_ref m)"
        "fold_res (plan_candidate svc i (next_revision base) evidence) candidates
           \<lparr>ps_manifest = manifest_map (base_manifest base), ps_current = entry_map vs, ps_versions = [], ps_changes = [],
            ps_targeted = [], ps_content = content, ps_ids = ids\<rparr> = Inr ps"
        "finish_commit svc s base i (next_revision base) refs (map a_ref (oe_artifacts evidence))
           (ps_manifest ps) (ps_changes ps) (ps_current ps) (ps_versions ps) = Inr c"
      by (elim prepare_commitE) blast
    have wf: "wf_manifest (base_manifest base)"
      using base_entries(1) [OF assms(1-3)] v(1,2) by (cases base) (auto simp: base_manifest_def wf_manifest_def)
    have old: "v \<in> set (versions s i)" if "gm_get (entry_map vs) k = Some v" for k v
      using that base_entries(3) [OF assms(1-3)] v(1,2) q(1) by (cases base) (auto simp: entry_map_def)
    have inv: "plan_inv svc i (next_revision base) (manifest_map (base_manifest base)) (entry_map vs) ps"
      by (rule plan_candidates_inv [OF q(2) initial_plan_inv [OF v(2) wf q(1)] assms(4,5)])
    show ?thesis
    proof (rule finish_readable [OF assms(1,2) q(3) commit])
      show "consistent (ms_env svc) i (ps_manifest ps) (ps_current ps)" using inv by (simp add: plan_inv_def)
      fix k v assume "gm_get (ps_current ps) k = Some v"
      then show "v \<in> set (versions s i) \<or> v \<in> set (ps_versions ps)"
        using inv old by (cases "k \<in> ev_entry ` set (ps_versions ps)") (auto simp: plan_inv_def)
    qed
  qed
qed

lemma set_entry_state_readable:
  assumes "inv s" "readable backend versions (ms_env svc) s" "ms_backend svc = backend" "target \<noteq> NoState"
    and "set_entry_state svc s value entries target reason = Inr (m, s')"
  shows "inv s' \<and> readable backend versions (ms_env svc) s'"
proof -
  let ?es = "cn_manifest (a_content value)"
  note cb = canonical_base_value [OF assms(5)]
  obtain vs normalized m' changes seen where
    v: "validated_entries svc s value = Inr vs"
    and f: "fold_res (set_state_step (ms_env svc) (entry_map vs) target normalized) entries (manifest_map ?es, [], [])
       = Inr (m', changes, seen)"
    and r: "(if changes = [] then Inr (value, s) else commit_existing svc s value m' changes (entry_map vs) []) = Inr (m, s')"
    using assms(5) [unfolded set_entry_state_def cb and_then_Inr Let_def option.sel and_then_eq_Inr] by auto
  note base = base_entries [OF assms(1-3) cb v]
  show ?thesis
  proof (cases "changes = []")
    case True
    then show ?thesis using r assms(1,2) by simp
  next
    case False
    then obtain c where c: "finish_commit svc s (Some value) (ar_id (a_ref value)) (wrap64 (ar_revision (a_ref value) + 1)) [] []
        m' changes (entry_map vs) [] = Inr c" "mb_commit backend s c = Inr (m, s')"
      using r assms(3) by (auto simp: commit_existing_def and_then_eq_Inr)
    show ?thesis
      by (rule finish_readable [OF assms(1,2) c set_states_consistent [OF f base(2) assms(4)]]) (use base(3) in blast)
  qed
qed

lemma organize_readable:
  assumes "inv s" "readable backend versions (ms_env svc) s" "ms_backend svc = backend"
    and "nfc_closed (ms_env svc)" "digest_ok (ms_env svc)"
    and "organize svc s value mode = Inr (m, s')"
  shows "inv s' \<and> readable backend versions (ms_env svc) s'"
proof -
  let ?es = "cn_manifest (a_content value)" and ?i = "ar_id (a_ref value)"
  have cb: "canonical_base svc s (Some value) = Inr (Some value)"
    using assms(6) canonical_base_Inr by (cases "canonical_base svc s (Some value)") (auto simp: organize_def and_then_eq_Inr)
  let ?start = "\<lambda>vs m1 ch. \<lparr>ps_manifest = m1, ps_current = entry_map vs, ps_versions = [], ps_changes = ch,
    ps_targeted = [], ps_content = [], ps_ids = 0\<rparr>"
  note run = assms(6) [unfolded organize_def cb and_then_Inr Let_def option.sel]
  from run obtain u where run1: "and_then (validated_entries svc s value) (\<lambda>vs. and_then
      (if mode = OrganizeNormalize then Inr (manifest_map ?es, [], [])
       else deduplicate_manifest (ms_env svc) (manifest_map ?es) (entry_map vs)) (\<lambda>(m1, ch, skip).
      and_then (if mode = OrganizeDedupe then Inr (?start vs m1 ch)
        else normalize_manifest_entries svc value m1 (entry_map vs) skip ch) (\<lambda>ps.
        if ps_changes ps = [] then Inr (value, s)
        else commit_existing svc s value (ps_manifest ps) (ps_changes ps) (ps_current ps) (ps_versions ps)))) = Inr (m, s')"
    by (rule and_thenE)
  from run1 obtain vs where v: "validated_entries svc s value = Inr vs"
    and run2: "and_then
      (if mode = OrganizeNormalize then Inr (manifest_map ?es, [], [])
       else deduplicate_manifest (ms_env svc) (manifest_map ?es) (entry_map vs)) (\<lambda>(m1, ch, skip).
      and_then (if mode = OrganizeDedupe then Inr (?start vs m1 ch)
        else normalize_manifest_entries svc value m1 (entry_map vs) skip ch) (\<lambda>ps.
        if ps_changes ps = [] then Inr (value, s)
        else commit_existing svc s value (ps_manifest ps) (ps_changes ps) (ps_current ps) (ps_versions ps))) = Inr (m, s')"
    by (rule and_thenE)
  from run2 obtain x where x: "(if mode = OrganizeNormalize then Inr (manifest_map ?es, [], [])
        else deduplicate_manifest (ms_env svc) (manifest_map ?es) (entry_map vs)) = Inr x"
    and rest: "(\<lambda>(m1, ch, skip). and_then (if mode = OrganizeDedupe then Inr (?start vs m1 ch)
        else normalize_manifest_entries svc value m1 (entry_map vs) skip ch) (\<lambda>ps.
        if ps_changes ps = [] then Inr (value, s)
        else commit_existing svc s value (ps_manifest ps) (ps_changes ps) (ps_current ps) (ps_versions ps))) x = Inr (m, s')"
    by (rule and_thenE)
  obtain m1 ch skip where x_eq: "x = (m1, ch, skip)" by (cases x)
  note d = x [unfolded x_eq]
  obtain ps where n: "(if mode = OrganizeDedupe then Inr (?start vs m1 ch)
        else normalize_manifest_entries svc value m1 (entry_map vs) skip ch) = Inr ps"
    and r: "(if ps_changes ps = [] then Inr (value, s)
        else commit_existing svc s value (ps_manifest ps) (ps_changes ps) (ps_current ps) (ps_versions ps)) = Inr (m, s')"
    using rest [unfolded x_eq prod.case] by (rule and_thenE)
  note base = base_entries [OF assms(1-3) cb v]
  have "m1 = manifest_map ?es \<or> deduplicate_manifest (ms_env svc) (manifest_map ?es) (entry_map vs) = Inr (m1, ch, skip)"
    using d by (simp split: if_splits)
  then have c1: "consistent (ms_env svc) ?i m1 (entry_map vs)" "dom (gm_get m1) = dom (gm_get (manifest_map ?es))"
    using base(2) dedupe_consistent [OF _ base(2)] by blast+
  have "dom (gm_get (entry_map vs)) = dom (gm_get (manifest_map ?es))"
    using arg_cong [OF validated_entries_consistent(2) [OF v base(1)], of set]
    by (simp add: entry_map_def manifest_map_def dom_map_of_conv_image_fst gm_dom_of_list)
  then have start: "normalize_inv (ms_env svc) ?i (set (versions s ?i))
      \<lparr>ps_manifest = m1, ps_current = entry_map vs, ps_versions = [], ps_changes = ch, ps_targeted = [], ps_content = [], ps_ids = 0\<rparr>"
    using c1 base(3) by (auto simp: normalize_inv_def)
  have inv: "normalize_inv (ms_env svc) ?i (set (versions s ?i)) ps"
  proof (cases "mode = OrganizeDedupe")
    case True
    then show ?thesis using n start by auto
  next
    case False
    then have "fold_res (normalize_entry svc value skip) (sort (map fst (entry_map vs)))
        \<lparr>ps_manifest = m1, ps_current = entry_map vs, ps_versions = [], ps_changes = ch, ps_targeted = [], ps_content = [], ps_ids = 0\<rparr> = Inr ps"
      using n by (simp add: normalize_manifest_entries_def)
    then show ?thesis using start
      by (rule fold_res_invariant) (rule normalize_entry_inv [OF _ _ assms(4,5)])
  qed
  show ?thesis
  proof (cases "ps_changes ps = []")
    case True
    then show ?thesis using r assms(1,2) by simp
  next
    case False
    then obtain c where c: "finish_commit svc s (Some value) ?i (wrap64 (ar_revision (a_ref value) + 1)) [] []
        (ps_manifest ps) (ps_changes ps) (ps_current ps) (ps_versions ps) = Inr c" "mb_commit backend s c = Inr (m, s')"
      using r assms(3) by (auto simp: commit_existing_def and_then_eq_Inr)
    show ?thesis
      by (rule finish_readable [OF assms(1,2) c]) (use inv in \<open>auto simp: normalize_inv_def\<close>)
  qed
qed

lemma step_readable:
  assumes "memory_step svc s s'" "inv s" "readable backend versions (ms_env svc) s" "ms_backend svc = backend"
    and "nfc_closed (ms_env svc)" "digest_ok (ms_env svc)"
  shows "inv s' \<and> readable backend versions (ms_env svc) s'"
  using assms(1)
proof cases
  case (remembers svc' base sources artifacts entries mode result)
  then show ?thesis using remember_readable [of s svc'] assms(2-6) by (simp add: same_store_def)
next
  case (forgets svc' v0 requested reason m)
  then show ?thesis using set_entry_state_readable [of s svc' Inactive] assms(2-4) by (simp add: same_store_def forget_def)
next
  case (reactivates svc' v0 requested reason m)
  then show ?thesis using set_entry_state_readable [of s svc' Active] assms(2-4) by (simp add: same_store_def reactivate_def)
next
  case (organizes svc' v0 mode m)
  then show ?thesis using organize_readable [of s svc'] assms(2-6) by (simp add: same_store_def)
qed

text \<open>A step is at most one commit, so it only adds revisions and versions.\<close>

lemma commit_existing_commits:
  "commit_existing svc s base manifest changes current vs = Inr (m, s') \<Longrightarrow> ms_backend svc = backend \<Longrightarrow>
     \<exists>c. mb_commit backend s c = Inr (m, s')"
  by (auto simp: commit_existing_def and_then_eq_Inr)

lemma set_entry_state_commits:
  assumes "set_entry_state svc s base entries target reason = Inr (m, s')" "ms_backend svc = backend"
  shows "s' = s \<and> m = base \<or> (\<exists>c. mb_commit backend s c = Inr (m, s'))"
  using assms(1) unfolding set_entry_state_def canonical_base_value [OF assms(1)] Let_def
  by (auto simp: and_then_eq_Inr split: if_splits dest: commit_existing_commits [OF _ assms(2)])

lemma organize_commits:
  assumes "organize svc s base how = Inr (m, s')" "ms_backend svc = backend"
  shows "s' = s \<and> m = base \<or> (\<exists>c. mb_commit backend s c = Inr (m, s'))"
proof -
  have "canonical_base svc s (Some base) = Inr (Some base)"
    using assms(1) canonical_base_Inr by (auto simp: organize_def and_then_eq_Inr)
  then show ?thesis using assms(1) unfolding organize_def Let_def prod.case_eq_if
    by (elim and_thenE) (metis (no_types, lifting) commit_existing_commits [OF _ assms(2)] Inr_inject Pair_inject option.sel)
qed

lemma step_commits:
  assumes "memory_step svc s s'" "ms_backend svc = backend"
  shows "s' = s \<or> (\<exists>c m. mb_commit backend s c = Inr (m, s'))"
  using assms(1)
proof cases
  case (remembers svc' base sources artifacts entries mode result)
  then show ?thesis using assms(2)
    by (auto simp: same_store_def remember_def apply_write_plan_def and_then_eq_Inr split: option.splits)
next
  case (organizes svc' v0 mode m)
  then show ?thesis using assms(2) using organize_commits [of svc' s] by (fastforce simp: same_store_def)
qed (use assms(2) in \<open>auto simp: same_store_def forget_def reactivate_def dest!: set_entry_state_commits\<close>)

lemma lookup_version_append: "lookup_version vs item = Inr v \<Longrightarrow> lookup_version (vs @ ws) item = Inr v"
  by (simp add: lookup_version_def find_append split: option.splits)

lemma steps_history:
  assumes "(memory_step svc)\<^sup>*\<^sup>* s s'" "inv s" "readable backend versions (ms_env svc) s" "ms_backend svc = backend"
    and "nfc_closed (ms_env svc)" "digest_ok (ms_env svc)"
  shows "inv s' \<and> readable backend versions (ms_env svc) s'
    \<and> (\<forall>r m. mb_get backend s r = Inr m \<longrightarrow> mb_get backend s' r = Inr m)
    \<and> (\<forall>i. \<exists>ws. versions s' i = versions s i @ ws)"
  using assms(1)
proof (induction rule: rtranclp_induct)
  case (step u w)
  have "inv w \<and> readable backend versions (ms_env svc) w"
    using step_readable [OF step.hyps(2)] step.IH assms(4-6) by blast
  moreover have "(mb_get backend u r = Inr m \<longrightarrow> mb_get backend w r = Inr m) \<and> (\<exists>ws. versions w i = versions u i @ ws)" for r m i
    using step_commits [OF step.hyps(2) assms(4)] commit_keeps commit_versions step.IH by fastforce
  ultimately show ?case using step.IH by (metis append.assoc)
qed (use assms in simp)

lemma steps_entries:
  assumes "(memory_step svc)\<^sup>*\<^sup>* s s'" "inv s" "readable backend versions (ms_env svc) s" "ms_backend svc = backend"
    and "nfc_closed (ms_env svc)" "digest_ok (ms_env svc)" "mb_get backend s r = Inr m"
  shows "mb_get backend s' r = Inr m \<and> (\<exists>vs. validated_entries svc s m = Inr vs \<and> validated_entries svc s' m = Inr vs)"
proof -
  note h = steps_history [OF assms(1-6)]
  have r: "a_ref m = r" by (rule get_ref [OF assms(7)])
  have valid: "\<exists>vs. validated_entries svc t m = Inr vs \<and> map_res (lookup_version (versions t (ar_id r))) (cn_manifest (a_content m)) = Inr vs"
    if "inv t" "readable backend versions (ms_env svc) t" "mb_get backend t r = Inr m" for t
    using that validated_complete [OF that(1) assms(4), of m] by (simp add: readable_def r)
  obtain vs vs' where v: "validated_entries svc s m = Inr vs" "map_res (lookup_version (versions s (ar_id r))) (cn_manifest (a_content m)) = Inr vs"
      "validated_entries svc s' m = Inr vs'" "map_res (lookup_version (versions s' (ar_id r))) (cn_manifest (a_content m)) = Inr vs'"
    using valid [OF assms(2,3,7)] valid [of s'] h assms(7) by blast
  obtain ws where "versions s' (ar_id r) = versions s (ar_id r) @ ws" using h by blast
  then have "map_res (lookup_version (versions s' (ar_id r))) (cn_manifest (a_content m)) = Inr vs"
    using v(2) by (auto simp: map_res_eq_Inr intro: lookup_version_append elim: list_all2_mono)
  then show ?thesis using v h assms(7) by simp
qed

end

end
