(* ===== verification/Memory_Repository.thy ===== *)
theory Memory_Repository
  imports Memory_History
begin

text \<open>
  The relational Memory store (\<open>internal/sqlstore/memory.go\<close>, \<open>memory_entries.go\<close>): the authoritative
  Artifact revisions of a Memory, its immutable entry versions and the head projection of its active
  entries, written in one transaction. A transaction body is a function from tables to an error or new
  tables, so a failing commit leaves the caller's tables as they were. The JSON columns of an entry
  row hold the reference lists they encode. The search index is an interface of the repository: its
  state is a component of the tables and its two operations are fields of \<open>memory_index\<close>.
\<close>

section \<open>Tables\<close>

record version_row =
  vr_scope :: string
  vr_entry :: entry_version

record entry_head =
  eh_scope :: string
  eh_memory :: string
  eh_revision :: int
  eh_entry :: string
  eh_version :: string
  eh_hash :: string
  eh_searchable :: string

record 'i memory_tables =
  mt_artifacts :: artifact_tables
  mt_versions :: "version_row list"
  mt_heads :: "entry_head list"
  mt_index :: 'i

record 'i memory_index =
  ix_capabilities :: memory_capabilities
  ix_replace :: "'i \<Rightarrow> string \<Rightarrow> artifact_ref \<Rightarrow> memory_projection list \<Rightarrow> memory_error + 'i"
  ix_hydrate :: "'i \<Rightarrow> string \<Rightarrow> memory_projection list \<Rightarrow> memory_error + memory_projection list"

definition no_memory_index :: "unit memory_index" where
  "no_memory_index = \<lparr>ix_capabilities = \<lparr>cp_fts = False, cp_vector = False, cp_hybrid = False, cp_profile = None\<rparr>,
     ix_replace = (\<lambda>i _ _ _. Inr i), ix_hydrate = (\<lambda>_ _ ps. Inr ps)\<rparr>"

record 'i memory_repository =
  mr_scope :: string
  mr_artifacts :: "memory_content artifact_repository"
  mr_index :: "'i memory_index"
  mr_env :: canonical_env
  mr_has_source :: "string \<Rightarrow> source_ref \<Rightarrow> bool"

section \<open>Reading\<close>

definition lift_store :: "artifact_ref \<Rightarrow> store_error \<Rightarrow> memory_error" where
  "lift_store ref e = (case e of RepositoryNotFound _ _ \<Rightarrow> MemoryArtifact (ArtNotFound ref) | _ \<Rightarrow> MemoryStore e)"

definition get_memory :: "'i memory_repository \<Rightarrow> 'i memory_tables \<Rightarrow> artifact_ref \<Rightarrow> memory_error + memory" where
  "get_memory r tb ref =
     (if ar_family ref \<noteq> memory_family then Inl (MemoryArtifact (ArtNotFound ref))
      else map_sum (lift_store ref) id (get_artifact (mr_artifacts r) (mt_artifacts tb) (mr_scope r) ref))"

definition latest_memory :: "'i memory_repository \<Rightarrow> 'i memory_tables \<Rightarrow> string \<Rightarrow> memory_error + memory" where
  "latest_memory r tb artifact_id =
     (case latest_artifact (mr_artifacts r) (mt_artifacts tb) (mr_scope r) memory_family artifact_id of
        Inr m \<Rightarrow> Inr m
      | Inl (RepositoryNotFound _ _) \<Rightarrow>
         (case new_artifact_ref memory_family artifact_id 1 of
            Inl e \<Rightarrow> Inl (MemoryArtifact e)
          | Inr requested \<Rightarrow> Inl (MemoryArtifact (ArtNotFound requested)))
      | Inl e \<Rightarrow> Inl (MemoryStore e))"

definition stored_versions :: "'i memory_repository \<Rightarrow> 'i memory_tables \<Rightarrow> string \<Rightarrow> entry_version list" where
  "stored_versions r tb memory_id = map vr_entry (filter (\<lambda>w. vr_scope w = mr_scope r \<and> ev_memory (vr_entry w) = memory_id)
     (mt_versions tb))"

definition memory_entries :: "'i memory_repository \<Rightarrow> 'i memory_tables \<Rightarrow> artifact_ref \<Rightarrow> memory_error + entry_version list" where
  "memory_entries r tb ref =
     and_then (get_memory r tb ref) (\<lambda>canonical.
     let by_id = gm_of_list ev_id id (stored_versions r tb (ar_id (a_ref canonical))) [] in
     map_res (\<lambda>item. case gm_get by_id (me_version item) of
         None \<Rightarrow> Inl (InvalidCitation ''missing-version'')
       | Some v \<Rightarrow> Inr v) (cn_manifest (a_content canonical)))"

definition find_version :: "'i memory_repository \<Rightarrow> 'i memory_tables \<Rightarrow> string \<Rightarrow> string \<Rightarrow> string \<Rightarrow> entry_version option" where
  "find_version r tb memory_id entry_id version_id =
     find (\<lambda>v. ev_entry v = entry_id \<and> ev_id v = version_id) (stored_versions r tb memory_id)"

definition active_ids :: "memory_content \<Rightarrow> string list" where
  "active_ids c = map me_version (filter (\<lambda>e. me_state e = Active) (cn_manifest c))"

definition memory_projections ::
  "'i memory_repository \<Rightarrow> 'i memory_tables \<Rightarrow> artifact_ref \<Rightarrow> memory_error + memory_projection list" where
  "memory_projections r tb ref =
     and_then (get_memory r tb ref) (\<lambda>canonical.
     let heads = sort_key eh_entry (filter (\<lambda>h. eh_scope h = mr_scope r \<and> eh_memory h = ar_id ref
           \<and> eh_revision h = ar_revision ref) (mt_heads tb));
         rows = concat (map (\<lambda>h. map (\<lambda>v. \<lparr>pj_entry = v, pj_searchable = eh_searchable h, pj_embedding = None, pj_hash = None\<rparr>)
           (filter (\<lambda>v. ev_id v = eh_version h) (stored_versions r tb (ar_id ref)))) heads) in
     and_then (ix_hydrate (mr_index r) (mt_index tb) (mr_scope r) rows) (\<lambda>projections.
     and_then (check (set (active_ids (a_content canonical)) = set (map (\<lambda>p. ev_id (pj_entry p)) projections))
       (InvalidCitation ''projection-version'')) (\<lambda>_. Inr projections)))"

section \<open>Committing\<close>

definition commit_fault :: "string \<Rightarrow> memory_error" where
  "commit_fault detail = BackendConfiguration (''invalid relational Memory commit: '' @ detail)"

definition validate_memory_commit :: "canonical_env \<Rightarrow> memory_commit \<Rightarrow> memory_error + unit" where
  "validate_memory_commit env value =
     (let next = cm_memory value; ref = a_ref next in
      and_then (check (ar_family ref = memory_family) (commit_fault ''family is not memory'')) (\<lambda>_.
      and_then (content_hash env (a_content next)) (\<lambda>hash.
      and_then (check (hash = cm_hash value) (commit_fault ''content hash does not match canonical content'')) (\<lambda>_.
      and_then (check (case cm_base value of None \<Rightarrow> True | Some b \<Rightarrow> ar_id (a_ref b) = ar_id ref)
        (commit_fault ''base and revision identities differ'')) (\<lambda>_.
      and_then (check (ar_revision ref = (case cm_base value of None \<Rightarrow> 1 | Some b \<Rightarrow> wrap64 (ar_revision (a_ref b) + 1)))
        (commit_fault ''revision is not the next prepared revision'')) (\<lambda>_.
      check (set (active_ids (a_content next)) = set (map (\<lambda>p. ev_id (pj_entry p)) (cm_projections value)))
        (commit_fault ''active manifest and projections differ'')))))))"

text \<open>The keys and checks of \<open>pc_memory_entry_versions\<close>.\<close>

definition unserializable :: "entry_version \<Rightarrow> memory_error" where
  "unserializable v = MemoryStore (InvalidStoredPayload ''memory-entry'' (ev_id v) ''value is not JSON serializable'')"

definition insert_version :: "'i memory_repository \<Rightarrow> entry_version \<Rightarrow> 'i memory_tables \<Rightarrow> memory_error + 'i memory_tables" where
  "insert_version r v tb =
     and_then (map_sum (\<lambda>_. unserializable v) id (map_res check_source_ref (ev_sources v))) (\<lambda>_.
     and_then (map_sum (\<lambda>_. unserializable v) id (map_res check_artifact_ref (ev_artifacts v))) (\<lambda>_.
     if list_ex (\<lambda>w. vr_scope w = mr_scope r \<and> ev_memory (vr_entry w) = ev_memory v
            \<and> (ev_id (vr_entry w) = ev_id v \<or> ev_entry (vr_entry w) = ev_entry v \<and> ev_version (vr_entry w) = ev_version v))
          (mt_versions tb)
        \<or> find_artifact_row (mt_artifacts tb) (mr_scope r)
            \<lparr>ar_family = memory_family, ar_id = ev_memory v, ar_revision = ev_revision v\<rparr> = None
        \<or> ev_version v \<le> 0 \<or> ev_revision v \<le> 0
     then Inl (MemoryStore (ConstraintFailed ''pc_memory_entry_versions''))
     else Inr (tb\<lparr>mt_versions := mt_versions tb @ [\<lparr>vr_scope = mr_scope r, vr_entry = v\<rparr>]\<rparr>)))"

text \<open>The keys and checks of \<open>pc_memory_entry_heads\<close>.\<close>

definition insert_entry_head ::
  "'i memory_repository \<Rightarrow> artifact_ref \<Rightarrow> memory_projection \<Rightarrow> 'i memory_tables \<Rightarrow> memory_error + 'i memory_tables" where
  "insert_entry_head r ref p tb =
     (let v = pj_entry p in
      if list_ex (\<lambda>h. eh_scope h = mr_scope r \<and> eh_memory h = ar_id ref \<and> eh_entry h = ev_entry v) (mt_heads tb)
         \<or> find_artifact_row (mt_artifacts tb) (mr_scope r)
             \<lparr>ar_family = memory_family, ar_id = ar_id ref, ar_revision = ar_revision ref\<rparr> = None
         \<or> find_version r tb (ar_id ref) (ev_entry v) (ev_id v) = None
         \<or> ar_revision ref \<le> 0
      then Inl (MemoryStore (ConstraintFailed ''pc_memory_entry_heads''))
      else Inr (tb\<lparr>mt_heads := mt_heads tb @ [\<lparr>eh_scope = mr_scope r, eh_memory = ar_id ref, eh_revision = ar_revision ref,
             eh_entry = ev_entry v, eh_version = ev_id v, eh_hash = ev_hash v, eh_searchable = pj_searchable p\<rparr>]\<rparr>))"

definition delete_entry_heads :: "'i memory_repository \<Rightarrow> string \<Rightarrow> 'i memory_tables \<Rightarrow> 'i memory_tables" where
  "delete_entry_heads r memory_id tb =
     tb\<lparr>mt_heads := filter (\<lambda>h. \<not> (eh_scope h = mr_scope r \<and> eh_memory h = memory_id)) (mt_heads tb)\<rparr>"

definition replace_index ::
  "'i memory_repository \<Rightarrow> artifact_ref \<Rightarrow> memory_projection list \<Rightarrow> 'i memory_tables \<Rightarrow> memory_error + 'i memory_tables" where
  "replace_index r ref projections tb =
     and_then (ix_replace (mr_index r) (mt_index tb) (mr_scope r) ref projections) (\<lambda>i. Inr (tb\<lparr>mt_index := i\<rparr>))"

definition write_revision ::
  "'i memory_repository \<Rightarrow> 'i memory_tables \<Rightarrow> memory_commit \<Rightarrow> memory_error + memory \<times> 'i memory_tables" where
  "write_revision r tb value =
     (let next = cm_memory value in
      and_then (lift_artifact (new_draft memory_family (a_content next) (li_sources (a_lineage next)) (li_artifacts (a_lineage next)))) (\<lambda>d.
      and_then (map_sum MemoryStore id (case cm_base value of
          None \<Rightarrow> create_artifact (mr_has_source r) (mr_artifacts r) (mt_artifacts tb) (mr_scope r) (ar_id (a_ref next)) d
        | Some base \<Rightarrow> revise_artifact (mr_has_source r) (mr_artifacts r) (mt_artifacts tb) (mr_scope r) base d)) (\<lambda>(stored, written).
      and_then (check (stored = next) (commit_fault ''generic Artifact result differs from prepared revision'')) (\<lambda>_.
      Inr (stored, tb\<lparr>mt_artifacts := written\<rparr>)))))"

definition commit_memory ::
  "'i memory_repository \<Rightarrow> 'i memory_tables \<Rightarrow> memory_commit \<Rightarrow> memory_error + memory \<times> 'i memory_tables" where
  "commit_memory r tb value =
     and_then (validate_memory_commit (mr_env r) value) (\<lambda>_.
     and_then (write_revision r tb value) (\<lambda>(decoded, tb1).
     and_then (fold_res (insert_version r) (cm_entries value) tb1) (\<lambda>tb2.
     and_then (replace_index r (a_ref decoded) [] tb2) (\<lambda>tb3.
     and_then (fold_res (insert_entry_head r (a_ref decoded)) (cm_projections value)
       (delete_entry_heads r (ar_id (a_ref decoded)) tb3)) (\<lambda>tb4.
     and_then (replace_index r (a_ref decoded) (cm_projections value) tb4) (\<lambda>tb5.
     Inr (decoded, tb5)))))))"

definition apply_plan ::
  "'i memory_repository \<Rightarrow> 'i memory_tables \<Rightarrow> write_plan \<Rightarrow> memory_error + memory option \<times> 'i memory_tables" where
  "apply_plan r tb plan = (case wp_commit plan of
     None \<Rightarrow> Inr (wp_result plan, tb)
   | Some commit \<Rightarrow>
      and_then (commit_memory r tb commit) (\<lambda>(committed, tb').
      and_then (check (wp_result plan = Some committed) (InvalidCitation ''memory-mismatch'')) (\<lambda>_.
      Inr (Some committed, tb'))))"

definition repository_changes ::
  "'i memory_repository \<Rightarrow> 'i memory_tables \<Rightarrow> artifact_ref \<Rightarrow> int option \<Rightarrow> memory_error + revision_changes list" where
  "repository_changes r tb ref since =
     and_then (get_memory r tb ref) (\<lambda>target.
     let lower = (case since of None \<Rightarrow> ar_revision (a_ref target) - 1 | Some s \<Rightarrow> s) in
     and_then (map_sum MemoryStore id (artifact_revisions (mr_artifacts r) (mt_artifacts tb) (mr_scope r) memory_family (ar_id ref))) (\<lambda>revisions.
     Inr (map (\<lambda>m. \<lparr>rc_ref = a_ref m, rc_changes = cn_changes (a_content m)\<rparr>)
       (filter (\<lambda>m. \<not> (ar_revision (a_ref m) \<le> lower \<or> ar_revision (a_ref m) > ar_revision (a_ref target))) revisions))))"

definition validate_search_heads :: "'i memory_repository \<Rightarrow> 'i memory_tables \<Rightarrow> artifact_ref list \<Rightarrow> memory_error + unit" where
  "validate_search_heads r tb refs =
     and_then (map_res (\<lambda>ref.
       and_then (get_memory r tb ref) (\<lambda>exact.
       and_then (latest_memory r tb (ar_id ref)) (\<lambda>latest.
       check (a_ref exact = a_ref latest) (InvalidCitation ''memory-mismatch'')))) refs) (\<lambda>_. Inr ())"

definition expand_hits :: "'i memory_repository \<Rightarrow> 'i memory_tables \<Rightarrow> citation list \<Rightarrow> memory_error + entry_version list" where
  "expand_hits r tb hits = map_res (\<lambda>hit. case find_version r tb (ar_id (ct_memory hit)) (ct_entry hit) (ct_version hit) of
       None \<Rightarrow> Inl (InvalidCitation ''expand-anchor'')
     | Some v \<Rightarrow> Inr v) hits"

text \<open>The repository as the backend of the Memory service.\<close>

definition repository_backend :: "'i memory_repository \<Rightarrow> 'i memory_tables memory_backend" where
  "repository_backend r = \<lparr>mb_capabilities = ix_capabilities (mr_index r),
     mb_get = get_memory r, mb_latest = latest_memory r, mb_entries = memory_entries r,
     mb_projections = memory_projections r, mb_commit = commit_memory r,
     mb_changes = repository_changes r, mb_expand = expand_hits r\<rparr>"

section \<open>The store keeps the backend contract\<close>

definition version_key :: "version_row \<Rightarrow> string \<times> string \<times> string" where
  "version_key w = (vr_scope w, ev_memory (vr_entry w), ev_id (vr_entry w))"

lemma version_key_row [simp]: "version_key \<lparr>vr_scope = s, vr_entry = v\<rparr> = (s, ev_memory v, ev_id v)"
  by (simp add: version_key_def)

definition memory_inv :: "'i memory_tables \<Rightarrow> bool" where
  "memory_inv tb \<longleftrightarrow> artifacts_inv (mt_artifacts tb) \<and> distinct (map version_key (mt_versions tb))"

lemma insert_version_Inr:
  assumes "insert_version r v tb = Inr tb'"
  shows "tb' = tb\<lparr>mt_versions := mt_versions tb @ [\<lparr>vr_scope = mr_scope r, vr_entry = v\<rparr>]\<rparr>"
    "(mr_scope r, ev_memory v, ev_id v) \<notin> version_key ` set (mt_versions tb)"
  using assms by (auto simp: insert_version_def version_key_def list_ex_iff res_simps split: if_splits)

lemma insert_versions_Inr:
  assumes "fold_res (insert_version r) vs tb = Inr tb'"
  shows "tb' = tb\<lparr>mt_versions := mt_versions tb @ map (\<lambda>v. \<lparr>vr_scope = mr_scope r, vr_entry = v\<rparr>) vs\<rparr>
    \<and> (distinct (map version_key (mt_versions tb)) \<longrightarrow> distinct (map version_key (mt_versions tb')))"
  using assms
proof (induction vs arbitrary: tb)
  case (Cons v vs)
  then obtain tb1 where s: "insert_version r v tb = Inr tb1" "fold_res (insert_version r) vs tb1 = Inr tb'"
    by (auto simp: and_then_eq_Inr)
  have "distinct (map version_key (mt_versions tb)) \<Longrightarrow> distinct (map version_key (mt_versions tb1))"
    using insert_version_Inr [OF s(1)] by simp
  moreover have "mt_versions tb @ map (\<lambda>v. \<lparr>vr_scope = mr_scope r, vr_entry = v\<rparr>) (v # vs)
      = mt_versions tb1 @ map (\<lambda>v. \<lparr>vr_scope = mr_scope r, vr_entry = v\<rparr>) vs"
    using insert_version_Inr(1) [OF s(1)] by simp
  ultimately show ?case using insert_version_Inr(1) [OF s(1)] Cons.IH [OF s(2)] by (metis memory_tables.update_convs(2) memory_tables.surjective)
qed simp

definition projected_head :: "'i memory_repository \<Rightarrow> artifact_ref \<Rightarrow> memory_projection \<Rightarrow> entry_head" where
  "projected_head r ref p = \<lparr>eh_scope = mr_scope r, eh_memory = ar_id ref, eh_revision = ar_revision ref,
     eh_entry = ev_entry (pj_entry p), eh_version = ev_id (pj_entry p), eh_hash = ev_hash (pj_entry p),
     eh_searchable = pj_searchable p\<rparr>"

lemma insert_entry_heads_Inr:
  assumes "fold_res (insert_entry_head r ref) ps tb = Inr tb'"
  shows "tb' = tb\<lparr>mt_heads := mt_heads tb @ map (projected_head r ref) ps\<rparr>"
  using assms
proof (induction ps arbitrary: tb)
  case (Cons p ps)
  then obtain tb1 where s: "insert_entry_head r ref p tb = Inr tb1" "fold_res (insert_entry_head r ref) ps tb1 = Inr tb'"
    by (auto simp: and_then_eq_Inr)
  show ?case using s(1) Cons.IH [OF s(2)] by (auto simp: insert_entry_head_def Let_def projected_head_def split: if_splits)
qed simp

lemma replace_index_Inr: "replace_index r ref ps tb = Inr tb' \<Longrightarrow> \<exists>i. tb' = tb\<lparr>mt_index := i\<rparr>"
  by (auto simp: replace_index_def and_then_eq_Inr)

lemma validate_memory_commit_Inr:
  "validate_memory_commit env c = Inr u \<longleftrightarrow> ar_family (a_ref (cm_memory c)) = memory_family
     \<and> content_hash env (a_content (cm_memory c)) = Inr (cm_hash c)
     \<and> (\<forall>b. cm_base c = Some b \<longrightarrow> ar_id (a_ref b) = ar_id (a_ref (cm_memory c)))
     \<and> ar_revision (a_ref (cm_memory c)) = next_revision (cm_base c)
     \<and> set (active_ids (a_content (cm_memory c))) = set (map (\<lambda>p. ev_id (pj_entry p)) (cm_projections c))"
  by (auto simp: validate_memory_commit_def Let_def res_simps next_revision_def split: option.splits)

lemma commit_memoryE:
  assumes "commit_memory r tb c = Inr (m, tb')"
  obtains written index where "m = cm_memory c" "validate_memory_commit (mr_env r) c = Inr ()"
    "write_revision r tb c = Inr (m, tb\<lparr>mt_artifacts := written\<rparr>)"
    "tb' = tb\<lparr>mt_artifacts := written,
       mt_versions := mt_versions tb @ map (\<lambda>v. \<lparr>vr_scope = mr_scope r, vr_entry = v\<rparr>) (cm_entries c),
       mt_heads := filter (\<lambda>h. \<not> (eh_scope h = mr_scope r \<and> eh_memory h = ar_id (a_ref m))) (mt_heads tb)
         @ map (projected_head r (a_ref m)) (cm_projections c),
       mt_index := index\<rparr>"
    "distinct (map version_key (mt_versions tb)) \<Longrightarrow> distinct (map version_key (mt_versions tb'))"
proof -
  obtain tb1 tb2 tb3 tb4 where s: "validate_memory_commit (mr_env r) c = Inr ()" "write_revision r tb c = Inr (m, tb1)"
      "fold_res (insert_version r) (cm_entries c) tb1 = Inr tb2" "replace_index r (a_ref m) [] tb2 = Inr tb3"
      "fold_res (insert_entry_head r (a_ref m)) (cm_projections c) (delete_entry_heads r (ar_id (a_ref m)) tb3) = Inr tb4"
      "replace_index r (a_ref m) (cm_projections c) tb4 = Inr tb'"
    using assms by (auto simp: commit_memory_def and_then_eq_Inr)
  obtain w where w: "tb1 = tb\<lparr>mt_artifacts := w\<rparr>" "m = cm_memory c"
    using s(2) by (auto simp: write_revision_def Let_def res_simps)
  obtain i1 i2 where "tb3 = tb2\<lparr>mt_index := i1\<rparr>" "tb' = tb4\<lparr>mt_index := i2\<rparr>"
    using replace_index_Inr [OF s(4)] replace_index_Inr [OF s(6)] by blast
  then show thesis
    using that [OF w(2) s(1), of w i2] s(2) insert_versions_Inr [OF s(3)] insert_entry_heads_Inr [OF s(5)]
    by (auto simp: w(1) delete_entry_heads_def)
qed

lemma write_revision_written:
  assumes "artifacts_inv (mt_artifacts tb)" "write_revision r tb c = Inr (m, tb1)"
  shows "written (mr_artifacts r) (mt_artifacts tb) (mr_scope r) m (mt_artifacts tb1)"
  using assms(2) create_written(1) [OF assms(1)] revise_written(1) [OF assms(1)]
  by (auto simp: write_revision_def Let_def res_simps split: option.splits)

lemma stored_versions_commit:
  assumes "commit_memory r tb c = Inr (m, tb')"
  shows "stored_versions r tb' i = stored_versions r tb i @ filter (\<lambda>v. ev_memory v = i) (cm_entries c)"
  using assms by (elim commit_memoryE) (auto simp: stored_versions_def filter_map comp_def)

lemma find_gm_of_list:
  assumes "distinct (map ev_id vs)"
  shows "gm_get (gm_of_list ev_id id vs []) k = find (\<lambda>v. ev_id v = k) vs"
proof (cases "find (\<lambda>v. ev_id v = k) vs")
  case None
  then have "k \<notin> ev_id ` set vs" by (auto simp: find_None_iff)
  then show ?thesis using None by (simp add: gm_get_of_list_notin)
next
  case (Some v)
  then have "v \<in> set vs" "ev_id v = k" by (auto simp: find_Some_iff)
  then show ?thesis using Some gm_get_of_list [OF assms, of v id "[]"] by simp
qed

lemma get_memory_Inr:
  "get_memory r tb ref = Inr m \<longleftrightarrow> ar_family ref = memory_family
     \<and> get_artifact (mr_artifacts r) (mt_artifacts tb) (mr_scope r) ref = Inr m"
  by (auto simp: get_memory_def res_simps)

lemma stored_versions_distinct:
  assumes "memory_inv tb" shows "distinct (map ev_id (stored_versions r tb i))"
proof -
  let ?rows = "filter (\<lambda>w. vr_scope w = mr_scope r \<and> ev_memory (vr_entry w) = i) (mt_versions tb)"
  have "distinct (map version_key ?rows)" using assms by (simp add: memory_inv_def distinct_map_filter)
  moreover have "map version_key ?rows = map (\<lambda>k. (mr_scope r, i, k)) (map ev_id (map vr_entry ?rows))"
    by (simp add: version_key_def)
  ultimately have "distinct (map (\<lambda>k. (mr_scope r, i, k)) (map ev_id (map vr_entry ?rows)))" by (simp only:)
  then show ?thesis by (simp only: distinct_map stored_versions_def)
qed

lemma commit_memory_facts:
  assumes "commit_memory r tb c = Inr (m, tb')" "memory_inv tb"
  shows "memory_inv tb'" "m = cm_memory c" "ar_family (a_ref m) = memory_family"
    "written (mr_artifacts r) (mt_artifacts tb) (mr_scope r) m (mt_artifacts tb')"
proof -
  have "memory_inv tb' \<and> m = cm_memory c \<and> ar_family (a_ref m) = memory_family
      \<and> written (mr_artifacts r) (mt_artifacts tb) (mr_scope r) m (mt_artifacts tb')"
    using assms(1)
  proof (rule commit_memoryE)
    fix w i
    assume c: "m = cm_memory c" "validate_memory_commit (mr_env r) c = Inr ()"
      "write_revision r tb c = Inr (m, tb\<lparr>mt_artifacts := w\<rparr>)"
      and tb': "tb' = tb\<lparr>mt_artifacts := w,
         mt_versions := mt_versions tb @ map (\<lambda>v. \<lparr>vr_scope = mr_scope r, vr_entry = v\<rparr>) (cm_entries c),
         mt_heads := filter (\<lambda>h. \<not> (eh_scope h = mr_scope r \<and> eh_memory h = ar_id (a_ref m))) (mt_heads tb)
           @ map (projected_head r (a_ref m)) (cm_projections c),
         mt_index := i\<rparr>"
      and d: "distinct (map version_key (mt_versions tb)) \<Longrightarrow> distinct (map version_key (mt_versions tb'))"
    have inv: "artifacts_inv (mt_artifacts tb)" "distinct (map version_key (mt_versions tb))"
      using assms(2) by (simp_all add: memory_inv_def)
    have "written (mr_artifacts r) (mt_artifacts tb) (mr_scope r) m w"
      using write_revision_written [OF inv(1) c(3)] by simp
    moreover have "mt_artifacts tb' = w" by (simp add: tb')
    ultimately show ?thesis using c(1,2) d [OF inv(2)] by (auto simp: memory_inv_def written_def validate_memory_commit_Inr)
  qed
  then show "memory_inv tb'" "m = cm_memory c" "ar_family (a_ref m) = memory_family"
    "written (mr_artifacts r) (mt_artifacts tb) (mr_scope r) m (mt_artifacts tb')" by blast+
qed

interpretation ms: memory_store "repository_backend r" memory_inv "stored_versions r" for r :: "'i memory_repository"
proof (unfold_locales, goal_cases)
  case (1 s ref m)
  then show ?case using get_artifact_ref by (auto simp: repository_backend_def get_memory_Inr)
next
  case (2 s c m s')
  then show ?case using commit_memory_facts(1) by (simp add: repository_backend_def)
next
  case (3 s c m s')
  then show ?case by (auto simp: repository_backend_def elim: commit_memoryE)
next
  case (4 s c m s')
  then have "commit_memory r s c = Inr (m, s')" by (simp add: repository_backend_def)
  from commit_memory_facts [OF this 4(1)] show ?case by (simp add: repository_backend_def get_memory_Inr written_def)
next
  case (5 s c m s')
  then have "commit_memory r s c = Inr (m, s')" by (simp add: repository_backend_def)
  from commit_memory_facts [OF this 5(1)] show ?case by (simp add: repository_backend_def latest_memory_def written_def)
next
  case (6 s c m s' ref x)
  then have "commit_memory r s c = Inr (m, s')" by (simp add: repository_backend_def)
  from commit_memory_facts [OF this 6(1)] show ?case using 6(3) by (simp add: repository_backend_def get_memory_Inr written_def)
next
  case (7 s c m s' ref x)
  then have "commit_memory r s c = Inr (m, s')" by (simp add: repository_backend_def)
  from commit_memory_facts(4) [OF this 7(1)] have "\<And>r' b. get_artifact (mr_artifacts r) (mt_artifacts s') (mr_scope r) r' = Inr b
      \<Longrightarrow> r' = a_ref m \<or> get_artifact (mr_artifacts r) (mt_artifacts s) (mr_scope r) r' = Inr b"
    unfolding written_def by blast
  then show ?case using 7(3) by (auto simp: repository_backend_def get_memory_Inr)
next
  case (8 s c m s' i)
  then show ?case using stored_versions_commit by (simp add: repository_backend_def)
next
  case (9 s i)
  then show ?case by (rule stored_versions_distinct)
next
  case (10 s ref m)
  then have get: "get_memory r s ref = Inr m" by (simp add: repository_backend_def)
  then have ref: "a_ref m = ref" using get_artifact_ref by (auto simp: get_memory_Inr)
  show ?case
    using get by (simp add: repository_backend_def memory_entries_def ref find_gm_of_list [OF stored_versions_distinct [OF 10(1)]]
      lookup_version_def [abs_def])
qed

end
