(* ===== verification/Memory_Example.thy ===== *)
theory Memory_Example
  imports Memory_Repository
begin

text \<open>
  A worked Memory: a small service over the relational store, with concrete functions for the code
  outside the repository, one remembered entry and two entries of the same content. The properties of
  the Memory service are applied to it.
\<close>

section \<open>The service\<close>

fun flat_json :: "json \<Rightarrow> string" and flat_list :: "json list \<Rightarrow> string" and flat_members :: "(string \<times> json) list \<Rightarrow> string" where
  "flat_json JNull = ''-''"
| "flat_json (JBool b) = (if b then ''T'' else ''F'')"
| "flat_json (JNum s) = s"
| "flat_json (JStr s) = s"
| "flat_json (JArr xs) = flat_list xs"
| "flat_json (JObj ms) = flat_members ms"
| "flat_list [] = '';''"
| "flat_list (x # xs) = flat_json x @ '','' @ flat_list xs"
| "flat_members [] = '';''"
| "flat_members ((k, v) # ms) = flat_json v @ '','' @ flat_members ms"

definition small_hash :: string where
  "small_hash = replicate 64 CHR ''0''"

definition small_env :: canonical_env where
  "small_env = \<lparr>ce_nfc = (\<lambda>s. s), ce_transform = (\<lambda>j. Some (flat_json j)), ce_digest = (\<lambda>_. small_hash)\<rparr>"

definition small_entry :: "string \<Rightarrow> string \<Rightarrow> string \<Rightarrow> entry_version" where
  "small_entry e v t = \<lparr>ev_memory = ''memory'', ev_entry = e, ev_id = v, ev_version = 1, ev_previous = None, ev_kind = ''fact'',
     ev_text = t, ev_hash = small_hash, ev_revision = 1, ev_sources = [], ev_artifacts = []\<rparr>"

definition small_line :: "string \<Rightarrow> string \<Rightarrow> entry_state \<Rightarrow> manifest_entry" where
  "small_line e v st = \<lparr>me_entry = e, me_version = v, me_hash = small_hash, me_state = st\<rparr>"

definition one_line :: memory_content where
  "one_line = \<lparr>cn_manifest = [small_line ''entryi'' ''versionii'' Active],
     cn_changes = [\<lparr>mc_op = AddOp, mc_entry = ''entryi'', mc_from = None, mc_to = Some ''versionii'', mc_reason = None\<rparr>]\<rparr>"

definition forgotten_line :: memory_content where
  "forgotten_line = \<lparr>cn_manifest = [small_line ''entryi'' ''versionii'' Inactive],
     cn_changes = [\<lparr>mc_op = DeactivateOp, mc_entry = ''entryi'', mc_from = Some ''versionii'', mc_to = None, mc_reason = None\<rparr>]\<rparr>"

definition two_lines :: memory_content where
  "two_lines = \<lparr>cn_manifest = [small_line ''a'' ''va'' Active, small_line ''b'' ''vb'' Active], cn_changes = []\<rparr>"

definition deduped_lines :: memory_content where
  "deduped_lines = \<lparr>cn_manifest = [small_line ''a'' ''va'' Active, small_line ''b'' ''vb'' Inactive],
     cn_changes = [\<lparr>mc_op = DeactivateOp, mc_entry = ''b'', mc_from = Some ''vb'', mc_to = None, mc_reason = Some ''dedupe''\<rparr>]\<rparr>"

text \<open>A codec of the four contents.\<close>

definition small_contents :: "(string \<times> memory_content) list" where
  "small_contents = [(''one'', one_line), (''forgotten'', forgotten_line), (''two'', two_lines), (''deduped'', deduped_lines)]"

definition small_codec :: "memory_content artifact_codec" where
  "small_codec = \<lparr>ac_family = ''memory'', ac_types = [''memory''],
     ac_encode = (\<lambda>c. map_option fst (find (\<lambda>x. snd x = c) small_contents)), ac_decode = map_of small_contents\<rparr>"

definition small_repository :: "unit memory_repository" where
  "small_repository = \<lparr>mr_scope = ''p'', mr_artifacts = \<lparr>ar_by_family = [(''memory'', small_codec)], ar_type_of = (\<lambda>_. ''memory'')\<rparr>,
     mr_index = no_memory_index, mr_env = small_env, mr_has_source = (\<lambda>_ _. True)\<rparr>"

definition small_service :: "(unit memory_tables, unit) memory_service" where
  "small_service = \<lparr>ms_env = small_env, ms_analyze = (\<lambda>t. t), ms_backend = repository_backend small_repository,
     ms_pipeline = None, ms_embedding = None,
     ms_float = \<lparr>fo_add = (\<lambda>x y. x), fo_mul = (\<lambda>x y. x), fo_div = (\<lambda>x y. x), fo_sqrt = (\<lambda>x. x)\<rparr>,
     ms_sources = None, ms_artifacts = None, ms_ids = (\<lambda>kind n. Inr (kind @ replicate n CHR ''i''))\<rparr>"

definition no_memories :: "unit memory_tables" where
  "no_memories = \<lparr>mt_artifacts = no_artifacts, mt_versions = [], mt_heads = [], mt_index = ()\<rparr>"

definition small_memory :: "int \<Rightarrow> memory_content \<Rightarrow> memory" where
  "small_memory n c = \<lparr>a_ref = \<lparr>ar_family = ''memory'', ar_id = ''memory'', ar_revision = n\<rparr>, a_content = c,
     a_lineage = \<lparr>li_sources = [], li_artifacts = []\<rparr>\<rparr>"

definition small_head :: "entry_version \<Rightarrow> entry_head" where
  "small_head v = \<lparr>eh_scope = ''p'', eh_memory = ''memory'', eh_revision = 1, eh_entry = ev_entry v, eh_version = ev_id v,
     eh_hash = ev_hash v, eh_searchable = ev_text v\<rparr>"

text \<open>The tables that hold revision 1 of the Memory.\<close>

definition small_tables :: "string \<Rightarrow> entry_version list \<Rightarrow> unit memory_tables" where
  "small_tables payload vs = \<lparr>mt_artifacts = \<lparr>at_rows = [\<lparr>aw_scope = ''p'',
       aw_ref = \<lparr>ar_family = ''memory'', ar_id = ''memory'', ar_revision = 1\<rparr>, aw_content = payload\<rparr>],
       at_heads = [\<lparr>ah_scope = ''p'', ah_family = ''memory'', ah_id = ''memory'', ah_revision = 1\<rparr>],
       at_lsources = [], at_lartifacts = []\<rparr>,
     mt_versions = map (\<lambda>v. \<lparr>vr_scope = ''p'', vr_entry = v\<rparr>) vs, mt_heads = map small_head vs, mt_index = ()\<rparr>"

definition small_input :: "unit entry_input" where
  "small_input = \<lparr>ei_entry = None, ei_kind = ''fact'', ei_text = ''tea'', ei_sources = [], ei_artifacts = [], ei_reason = None\<rparr>"

section \<open>Values\<close>

lemma small_fields [simp]:
  "ev_memory (small_entry e v t) = ''memory''" "ev_entry (small_entry e v t) = e" "ev_id (small_entry e v t) = v"
  "ev_text (small_entry e v t) = t" "ev_hash (small_entry e v t) = small_hash"
  "me_entry (small_line e v st) = e" "me_version (small_line e v st) = v" "me_hash (small_line e v st) = small_hash"
  "me_state (small_line e v st) = st"
  "a_ref (small_memory n c) = \<lparr>ar_family = ''memory'', ar_id = ''memory'', ar_revision = n\<rparr>" "a_content (small_memory n c) = c"
  "a_lineage (small_memory n c) = \<lparr>li_sources = [], li_artifacts = []\<rparr>"
  by (simp_all add: small_entry_def small_line_def small_memory_def)

lemma small_env_ok: "nfc_closed small_env" "digest_ok small_env"
proof -
  show "nfc_closed small_env" by (simp add: nfc_closed_def small_env_def)
  have "lower_hex CHR ''0''" by (simp add: lower_hex_def)
  then show "digest_ok small_env"
    by (auto simp: digest_ok_def small_env_def valid_hash_def small_hash_def list_all_iff)
qed

lemma small_hash_ok: "valid_hash small_hash"
  using small_env_ok(2) by (simp add: digest_ok_def small_env_def)

lemma identifiers:
  "valid_identifier ''memory''" "valid_identifier ''entryi''" "valid_identifier ''versionii''" "valid_identifier ''a''"
  "valid_identifier ''b''" "valid_identifier ''va''" "valid_identifier ''vb''"
  by (simp_all add: valid_identifier_def is_ascii_def)

lemma validate_ids: "valid_identifier s \<Longrightarrow> validate_identifier s = Inr s"
  by (simp add: validate_identifier_Inr)

lemma small_texts: "trim_python ''fact'' = ''fact''" "trim_python ''tea'' = ''tea''" "trim_python ''dedupe'' = ''dedupe''"
  "rune_count ''dedupe'' = 6"
proof -
  have "graphic ''fact''" "graphic ''tea''" "graphic ''dedupe''" by (simp_all add: graphic_def)
  then show "trim_python ''fact'' = ''fact''" "trim_python ''tea'' = ''tea''" "trim_python ''dedupe'' = ''dedupe''"
    "rune_count ''dedupe'' = 6" by (simp_all add: graphic_text)
qed

lemma small_scope: "require_scope ''p'' = Inr ()"
proof -
  have "graphic ''p''" by (simp add: graphic_def)
  then show ?thesis by (simp add: require_scope_def graphic_text)
qed

lemma small_ref: "1 \<le> n \<Longrightarrow> wf_artifact_ref \<lparr>ar_family = ''memory'', ar_id = ''memory'', ar_revision = n\<rparr>"
proof -
  have "valid_part 128 ''memory''" by (rule graphic_valid_part; simp add: graphic_def)
  then show "1 \<le> n \<Longrightarrow> ?thesis" by (simp add: wf_artifact_ref_def)
qed

lemma small_refs: "1 \<le> n \<Longrightarrow> new_artifact_ref ''memory'' ''memory'' n = Inr \<lparr>ar_family = ''memory'', ar_id = ''memory'', ar_revision = n\<rparr>"
  "1 \<le> n \<Longrightarrow> validate_artifact_ref \<lparr>ar_family = ''memory'', ar_id = ''memory'', ar_revision = n\<rparr> = Inr ()"
  by (simp_all add: new_artifact_ref_iff validate_artifact_ref_iff small_ref)

definition tea_material :: entry_material where
  "tea_material = \<lparr>em_kind = ''fact'', em_text = ''tea'', em_sources = [], em_artifacts = [],
     em_bytes = ''fact,tea,;,;,;'', em_hash = small_hash\<rparr>"

lemma small_material: "new_entry_material small_env ''fact'' ''tea'' [] [] = Inr tea_material"
proof -
  have k: "normalize_kind small_env ''fact'' = Inr ''fact''" "normalize_text small_env ''tea'' = Inr ''tea''"
    by (simp_all add: normalize_kind_def normalize_text_def normalize_non_empty_def small_env_def small_texts max_entry_text_bytes_def)
  have refs: "canonical_source_refs small_env [] = Inr []" "canonical_artifact_refs small_env [] = Inr []"
    "normalize_source_refs small_env [] = Inr []" "normalize_artifact_refs small_env [] = Inr []"
    by (simp_all add: canonical_source_refs_def canonical_artifact_refs_def canonical_refs_def by_encoding_def values_sorted_by_def
        normalize_source_refs_def normalize_artifact_refs_def normalize_ref_values_def)
  have "entry_content_bytes small_env ''fact'' ''tea'' [] [] = Inr ''fact,tea,;,;,;''"
    by (simp add: entry_content_bytes_def k refs) (simp add: canonical_json_def small_env_def gomap_simps)
  then show ?thesis
    by (simp add: new_entry_material_def k refs entry_content_hash_def tea_material_def) (simp add: domain_hash_def small_env_def)
qed

lemma small_entry_material: "material_from_version small_env (small_entry e v ''tea'') = Inr tea_material"
  by (simp add: material_from_version_def small_entry_def small_material)

lemma small_line_valid:
  "valid_identifier e \<Longrightarrow> valid_identifier v \<Longrightarrow> st \<noteq> NoState \<Longrightarrow> new_manifest_entry e v small_hash st = Inr (small_line e v st)"
  "valid_identifier e \<Longrightarrow> valid_identifier v \<Longrightarrow> st \<noteq> NoState \<Longrightarrow> valid_item (small_line e v st)"
  by (simp_all add: valid_item_iff small_line_def new_manifest_entry_Inr small_hash_ok)

lemma small_agrees: "agrees small_env ''memory'' (small_line e v st) (small_entry e v ''tea'')"
  using small_entry_material by (simp add: agrees_def tea_material_def)


lemma small_content_hash:
  "content_hash small_env one_line = Inr small_hash" "content_hash small_env forgotten_line = Inr small_hash"
  "content_hash small_env deduped_lines = Inr small_hash"
proof -
  have line: "manifest_entry_json (small_line e v st) = Inr (JObj [(''entry_id'', JStr e), (''entry_version_id'', JStr v),
       (''entry_content_hash'', JStr small_hash), (''state'', JStr (state_name st))])"
    if "valid_identifier e" "valid_identifier v" for e v st
    using that small_hash_ok by (simp add: manifest_entry_json_def small_line_def validate_ids validate_content_hash_def valid_hash_def)
  have json: "\<exists>b. canonical_json small_env (JObj [(''schema'', JStr s), (''manifest'', JObj [(''format'', JStr f), (''entries'', JArr es)]),
       (''changes'', JArr cs)]) = Inr b"
    if "jcs_normalize_list (\<lambda>s. s) es = Inr es'" "jcs_normalize_list (\<lambda>s. s) cs = Inr cs'" for s f es cs es' cs'
    using that by (simp add: canonical_json_def small_env_def gomap_simps)
  have hash: "content_hash small_env c = Inr small_hash" if "\<exists>b. content_bytes small_env c = Inr b" for c
    using that by (auto simp: content_hash_def small_env_def)
  note rules = content_bytes_def line identifiers change_json_def validate_ids validate_optional_def normalize_reason_def
    string_value_def gomap_simps
  show "content_hash small_env one_line = Inr small_hash"
    by (rule hash) (simp add: one_line_def rules json)
  show "content_hash small_env forgotten_line = Inr small_hash"
    by (rule hash) (simp add: forgotten_line_def rules json)
  have "ce_nfc small_env = (\<lambda>s. s)" by (simp add: small_env_def)
  then show "content_hash small_env deduped_lines = Inr small_hash"
    by (intro hash) (simp add: deduped_lines_def rules json small_texts)
qed

lemma small_lines_distinct: "one_line \<noteq> forgotten_line" "one_line \<noteq> two_lines" "one_line \<noteq> deduped_lines"
  "forgotten_line \<noteq> two_lines" "forgotten_line \<noteq> deduped_lines" "two_lines \<noteq> deduped_lines"
  by (simp_all add: one_line_def forgotten_line_def two_lines_def deduped_lines_def small_line_def)

lemma small_codec_values:
  "ac_encode small_codec one_line = Some ''one''" "ac_encode small_codec forgotten_line = Some ''forgotten''"
  "ac_encode small_codec two_lines = Some ''two''" "ac_encode small_codec deduped_lines = Some ''deduped''"
  "ac_decode small_codec ''one'' = Some one_line" "ac_decode small_codec ''forgotten'' = Some forgotten_line"
  "ac_decode small_codec ''two'' = Some two_lines" "ac_decode small_codec ''deduped'' = Some deduped_lines"
  using small_lines_distinct [THEN not_sym] by (simp_all add: small_codec_def small_contents_def small_lines_distinct)

lemma small_decode:
  assumes "1 \<le> n" "ac_decode small_codec payload = Some c"
  shows "codec_decode small_codec \<lparr>ar_family = ''memory'', ar_id = ''memory'', ar_revision = n\<rparr>
    \<lparr>li_sources = [], li_artifacts = []\<rparr> payload = Inr (small_memory n c)"
  using assms by (simp add: codec_decode_def restore_artifact_def small_memory_def new_lineage_def small_refs)

lemma small_get:
  assumes "ac_decode small_codec payload = Some c"
  shows "get_memory small_repository (small_tables payload vs) \<lparr>ar_family = ''memory'', ar_id = ''memory'', ar_revision = 1\<rparr>
      = Inr (small_memory 1 c)"
    "latest_memory small_repository (small_tables payload vs) ''memory'' = Inr (small_memory 1 c)"
    "get_memory small_repository (small_tables payload vs) ref = Inr m \<Longrightarrow> ref = a_ref (small_memory 1 c) \<and> m = small_memory 1 c"
proof -
  let ?tb = "small_tables payload vs" and ?ref = "\<lparr>ar_family = ''memory'', ar_id = ''memory'', ar_revision = 1\<rparr>"
  have get: "get_artifact (mr_artifacts small_repository) (mt_artifacts ?tb) ''p'' ?ref = Inr (small_memory 1 c)"
    using small_decode [OF _ assms, of 1]
    by (simp add: get_artifact_def small_scope small_refs find_artifact_row_def small_tables_def decode_artifact_row_def
        small_repository_def load_lineage_def new_lineage_def)
  then show g: "get_memory small_repository ?tb ?ref = Inr (small_memory 1 c)"
    by (simp add: get_memory_Inr memory_family_def small_repository_def)
  show "latest_memory small_repository ?tb ''memory'' = Inr (small_memory 1 c)"
    using get by (simp add: latest_memory_def latest_artifact_def memory_family_def small_scope small_refs find_head_def
        small_repository_def) (simp add: small_tables_def small_refs)
  assume x: "get_memory small_repository ?tb ref = Inr m"
  then have "find_artifact_row (mt_artifacts ?tb) ''p'' ref \<noteq> None"
    by (auto simp: get_memory_Inr small_repository_def get_artifact_def res_simps split: option.splits)
  then have "ref = ?ref" by (auto simp: find_artifact_row_def small_tables_def split: if_splits)
  then show "ref = a_ref (small_memory 1 c) \<and> m = small_memory 1 c" using x g by (auto simp: small_memory_def)
qed

lemma no_memories_ok: "memory_inv no_memories" "readable (repository_backend small_repository) (stored_versions small_repository) small_env no_memories"
proof -
  show "memory_inv no_memories" by (simp add: memory_inv_def no_memories_def artifacts_inv_empty)
  show "readable (repository_backend small_repository) (stored_versions small_repository) small_env no_memories"
    by (auto simp: readable_def repository_backend_def get_memory_Inr get_artifact_def res_simps find_artifact_row_def
        no_memories_def no_artifacts_def split: option.splits)
qed

lemma small_inv:
  assumes "distinct (map ev_id vs)" "list_all (\<lambda>v. ev_memory v = ''memory'') vs"
  shows "memory_inv (small_tables payload vs)"
proof -
  have "positions (Suc 0) = [1]" by (simp add: positions_def)
  then have "artifacts_inv (mt_artifacts (small_tables payload vs))"
    by (auto simp: artifacts_inv_def small_tables_def revision_rows_def find_head_def positions_def head_key_def)
  then show ?thesis using assms
    by (auto simp: memory_inv_def small_tables_def distinct_map inj_on_def list_all_iff)
qed

lemma small_readable:
  assumes "ac_decode small_codec payload = Some c" "wf_manifest (cn_manifest c)" "complete small_env vs (small_memory 1 c)"
    and "list_all (\<lambda>v. ev_memory v = ''memory'') vs"
  shows "readable (repository_backend small_repository) (stored_versions small_repository) small_env (small_tables payload vs)"
proof -
  have "stored_versions small_repository (small_tables payload vs) ''memory'' = vs"
    using assms(4) by (simp add: stored_versions_def small_tables_def small_repository_def filter_map comp_def list_all_iff filter_id_conv map_idI)
  then show ?thesis using assms(2,3) unfolding readable_def
    by (auto simp: repository_backend_def small_memory_def dest!: small_get(3) [OF assms(1)])
qed


section \<open>Remembering, forgetting and organizing\<close>

lemma small_service_fields [simp]:
  "ms_env small_service = small_env" "ms_analyze small_service t = t" "ms_backend small_service = repository_backend small_repository"
  "ms_embedding small_service = None" "ms_sources small_service = None" "ms_artifacts small_service = None"
  by (simp_all add: small_service_def)

lemma small_repository_fields [simp]:
  "mr_scope small_repository = ''p''" "mr_env small_repository = small_env" "mr_index small_repository = no_memory_index"
  "gm_get (ar_by_family (mr_artifacts small_repository)) ''memory'' = Some small_codec"
  "ar_type_of (mr_artifacts small_repository) c = ''memory''" "ac_types small_codec = [''memory'']" "wrap64 2 = 2"
  by (simp_all add: small_repository_def small_codec_def wrap64_def)

lemma small_projections: "attach_embeddings small_service ps = Inr (map fst ps)"
  by (simp add: attach_embeddings_def Let_def)

definition tea_projection :: "string \<Rightarrow> string \<Rightarrow> memory_projection" where
  "tea_projection e v = \<lparr>pj_entry = small_entry e v ''tea'', pj_searchable = ''tea'', pj_embedding = None, pj_hash = None\<rparr>"

definition first_commit :: memory_commit where
  "first_commit = \<lparr>cm_base = None, cm_memory = small_memory 1 one_line, cm_hash = small_hash,
     cm_entries = [small_entry ''entryi'' ''versionii'' ''tea''], cm_projections = [tea_projection ''entryi'' ''versionii'']\<rparr>"

lemma small_draft: "new_draft ''memory'' c [] [] = Inr \<lparr>dr_family = ''memory'', dr_content = c, dr_lineage = \<lparr>li_sources = [], li_artifacts = []\<rparr>\<rparr>"
proof -
  have "valid_part 128 ''memory''" by (rule graphic_valid_part; simp add: graphic_def)
  then show ?thesis by (simp add: new_draft_iff wf_lineage_def)
qed

lemma small_plan:
  "plan_remember small_service no_memories None [] [] [small_input] RememberAppend
     = Inr \<lparr>wp_result = Some (small_memory 1 one_line), wp_commit = Some first_commit\<rparr>"
proof -
  have ids: "new_id small_service k n = Inr (k @ replicate n CHR ''i'')" if "valid_identifier (k @ replicate n CHR ''i'')" for k n
    using that by (simp add: new_id_def small_service_def validate_ids)
  have mat: "material_from_candidate small_service small_input \<lparr>oe_sources = [], oe_artifacts = []\<rparr> None = Inr tea_material"
    by (simp add: material_from_candidate_def small_input_def canonical_candidate_sources_def source_refs_def
        canonical_candidate_artifacts_def small_service_def small_material)
  have nid: "new_id small_service ''memory'' 0 = Inr ''memory''" "new_id small_service ''entry'' 1 = Inr ''entryi''"
    "new_id small_service ''version'' 2 = Inr ''versionii''" "new_id small_service ''entry'' (Suc 0) = Inr ''entryi''"
    using ids [of "''memory''" 0] ids [of "''entry''" 1] ids [of "''version''" 2] identifiers by (simp_all add: numeral_2_eq_2)
  have add: "plan_candidate small_service ''memory'' 1 \<lparr>oe_sources = [], oe_artifacts = []\<rparr> small_input
      \<lparr>ps_manifest = [], ps_current = [], ps_versions = [], ps_changes = [], ps_targeted = [], ps_content = [], ps_ids = 1\<rparr>
    = Inr \<lparr>ps_manifest = [(''entryi'', small_line ''entryi'' ''versionii'' Active)],
        ps_current = [(''entryi'', small_entry ''entryi'' ''versionii'' ''tea'')], ps_versions = [small_entry ''entryi'' ''versionii'' ''tea''],
        ps_changes = cn_changes one_line, ps_targeted = [], ps_content = [em_bytes tea_material], ps_ids = 3\<rparr>"
    by (simp add: plan_candidate_def small_input_def [THEN arg_cong, of ei_entry] small_input_def [THEN arg_cong, of ei_reason]
        plan_add_def mat nid new_entry_version_def numeral_2_eq_2 [symmetric] record_version_def new_change_def
        validate_ids identifiers validate_optional_def normalize_reason_def or_zero_def small_line_valid one_line_def
        small_entry_def tea_material_def)
  have projections: "prepare_projections small_service no_memories None (cn_manifest one_line)
      [(''entryi'', small_entry ''entryi'' ''versionii'' ''tea'')] [''versionii''] = Inr [tea_projection ''entryi'' ''versionii'']"
    by (simp add: prepare_projections_def one_line_def prepare_projection_def small_line_def small_projections tea_projection_def Let_def)
  have finish: "finish_commit small_service no_memories None ''memory'' 1 [] [] [(''entryi'', small_line ''entryi'' ''versionii'' Active)]
      (cn_changes one_line) [(''entryi'', small_entry ''entryi'' ''versionii'' ''tea'')] [small_entry ''entryi'' ''versionii'' ''tea''] = Inr first_commit"
  proof -
    have c: "\<lparr>cn_manifest = sorted_manifest [(''entryi'', small_line ''entryi'' ''versionii'' Active)], cn_changes = sorted_changes (cn_changes one_line)\<rparr> = one_line"
      by (simp add: one_line_def sorted_manifest_def sorted_changes_def)
    have e: "map ev_id [small_entry ''entryi'' ''versionii'' ''tea''] = [''versionii'']" by (simp add: small_entry_def)
    show ?thesis unfolding finish_commit_def c Let_def e projections memory_family_def small_draft small_service_fields small_content_hash
      by (simp add: lift_artifact_def new_artifact_def small_refs first_commit_def small_memory_def)
  qed
  show ?thesis
    by (simp add: plan_remember_def select_remember_mode_def canonical_base_def canonical_operation_evidence_def
        candidate_inputs_def prepare_commit_def nid active_content_def entry_map_def add [unfolded One_nat_def] one_line_def [THEN arg_cong, of cn_changes]
        source_refs_def finish [unfolded one_line_def, simplified] first_commit_def [THEN arg_cong, of cm_memory])
qed


text \<open>Reading revision 1 through the service.\<close>

lemma small_base:
  assumes "ac_decode small_codec payload = Some c"
  shows "canonical_base small_service (small_tables payload vs) (Some (small_memory 1 c)) = Inr (Some (small_memory 1 c))"
  using small_get(1,2) [OF assms, of vs] by (simp add: canonical_base_def repository_backend_def small_memory_def)

lemma small_validated:
  assumes "ac_decode small_codec payload = Some c" "wf_manifest (cn_manifest c)" "complete small_env vs (small_memory 1 c)"
    and "list_all (\<lambda>v. ev_memory v = ''memory'') vs" "distinct (map ev_id vs)"
    and "map_res (lookup_version vs) (cn_manifest c) = Inr ws"
  shows "validated_entries small_service (small_tables payload vs) (small_memory 1 c) = Inr ws"
proof -
  have "stored_versions small_repository (small_tables payload vs) ''memory'' = vs"
    using assms(4) by (simp add: stored_versions_def small_tables_def filter_map comp_def list_all_iff filter_id_conv map_idI)
  then show ?thesis
    using ms.validated_complete [OF small_inv [OF assms(5,4), of payload], of small_service small_repository "small_memory 1 c"]
      small_get(1) [OF assms(1), of vs] assms(2,3,6)
    by (simp add: repository_backend_def small_memory_def)
qed

lemma unit_index: "(tb :: unit memory_tables)\<lparr>mt_index := i\<rparr> = tb"
  by (cases tb) simp

text \<open>A second revision with the same entry versions.\<close>

lemma small_revise:
  assumes "ac_decode small_codec payload = Some c" "ac_encode small_codec c' = Some payload'" "ac_decode small_codec payload' = Some c'"
    and "content_hash small_env c' = Inr small_hash" "set (active_ids c') = set (map (\<lambda>p. ev_id (pj_entry p)) ps)"
    and "list_all (\<lambda>p. pj_entry p \<in> set vs) ps" "distinct (map (\<lambda>p. ev_entry (pj_entry p)) ps)"
    and "list_all (\<lambda>v. ev_memory v = ''memory'') vs"
  shows "\<exists>tb. commit_memory small_repository (small_tables payload vs) \<lparr>cm_base = Some (small_memory 1 c), cm_memory = small_memory 2 c',
    cm_hash = small_hash, cm_entries = [], cm_projections = ps\<rparr> = Inr (small_memory 2 c', tb)"
proof -
  let ?r = small_repository and ?tb = "small_tables payload vs"
  let ?c = "\<lparr>cm_base = Some (small_memory 1 c), cm_memory = small_memory 2 c', cm_hash = small_hash, cm_entries = [], cm_projections = ps\<rparr>"
  let ?ref = "\<lparr>ar_family = ''memory'', ar_id = ''memory'', ar_revision = 2\<rparr>"
  have valid: "validate_memory_commit small_env ?c = Inr ()"
    using assms(4,5) by (simp add: validate_memory_commit_Inr small_memory_def memory_family_def next_revision_def wrap64_def)
  obtain w where w: "write_revision ?r ?tb ?c = Inr (small_memory 2 c', ?tb\<lparr>mt_artifacts := w\<rparr>)" "find_artifact_row w ''p'' ?ref \<noteq> None"
  proof -
    have "\<exists>w. revise_artifact (mr_has_source ?r) (mr_artifacts ?r) (mt_artifacts ?tb) ''p'' (small_memory 1 c)
        \<lparr>dr_family = ''memory'', dr_content = c', dr_lineage = \<lparr>li_sources = [], li_artifacts = []\<rparr>\<rparr> = Inr (small_memory 2 c', w)
        \<and> find_artifact_row w ''p'' ?ref \<noteq> None"
      using assms(1-3) small_decode [of 2 payload' c']
      by (simp add: revise_artifact_def small_scope codec_for_draft_def supports_content_def insert_revision_def find_artifact_row_def
          find_head_def update_head_def head_matches_def small_memory_def small_refs small_tables_def)
    then show thesis using that
      by (auto simp: write_revision_def memory_family_def small_memory_def small_draft lift_artifact_def)
  qed
  have versions: "stored_versions ?r (tb\<lparr>mt_heads := hs\<rparr>) ''memory'' = vs" if "mt_versions tb = mt_versions ?tb" for tb hs
    using assms(8) that by (simp add: stored_versions_def small_tables_def filter_map comp_def list_all_iff filter_id_conv map_idI)
  have heads: "\<exists>tb'. fold_res (insert_entry_head ?r ?ref) qs tb = Inr tb'"
    if "set qs \<subseteq> set ps" "distinct (map (\<lambda>p. ev_entry (pj_entry p)) qs)" "mt_versions tb = mt_versions ?tb" "mt_artifacts tb = w"
      "\<forall>h \<in> set (mt_heads tb). eh_scope h = ''p'' \<longrightarrow> eh_memory h = ''memory'' \<longrightarrow> eh_entry h \<notin> (\<lambda>p. ev_entry (pj_entry p)) ` set qs" for qs tb
    using that
  proof (induction qs arbitrary: tb)
    case (Cons q qs)
    have "stored_versions ?r tb ''memory'' = vs" using versions [OF Cons.prems(3), of "mt_heads tb"] by simp
    then have "find_version ?r tb ''memory'' (ev_entry (pj_entry q)) (ev_id (pj_entry q)) \<noteq> None"
      using Cons.prems(1) assms(6) by (auto simp: find_version_def find_None_iff list_all_iff)
    then obtain hs where "insert_entry_head ?r ?ref q tb = Inr (tb\<lparr>mt_heads := mt_heads tb @ [hs]\<rparr>)" "eh_entry hs = ev_entry (pj_entry q)"
      using Cons.prems(4,5) w(2) by (auto simp: insert_entry_head_def Let_def list_ex_iff memory_family_def)
    then show ?case using Cons.IH [of "tb\<lparr>mt_heads := mt_heads tb @ [hs]\<rparr>"] Cons.prems by (auto simp: image_iff)
  qed simp
  obtain tb' where "fold_res (insert_entry_head ?r ?ref) ps (delete_entry_heads ?r ''memory'' (?tb\<lparr>mt_artifacts := w\<rparr>)) = Inr tb'"
    using heads [of ps "delete_entry_heads ?r ''memory'' (?tb\<lparr>mt_artifacts := w\<rparr>)"] assms(7)
    by (auto simp: delete_entry_heads_def small_tables_def)
  then show ?thesis using valid w(1)
    by (simp add: commit_memory_def replace_index_def no_memory_index_def unit_index)
qed


lemma small_active_ids: "active_ids one_line = [''versionii'']" "active_ids forgotten_line = []" "active_ids two_lines = [''va'', ''vb'']"
  "active_ids deduped_lines = [''va'']"
  by (simp_all add: active_ids_def one_line_def forgotten_line_def two_lines_def deduped_lines_def small_line_def)

lemma small_remember:
  "remember small_service no_memories None [] [] [small_input] RememberAppend
     = Inr (Some (small_memory 1 one_line), small_tables ''one'' [small_entry ''entryi'' ''versionii'' ''tea''])"
proof -
  let ?r = small_repository and ?ref = "\<lparr>ar_family = ''memory'', ar_id = ''memory'', ar_revision = 1\<rparr>"
    and ?v = "small_entry ''entryi'' ''versionii'' ''tea''"
  have valid: "validate_memory_commit small_env first_commit = Inr ()"
    by (simp add: validate_memory_commit_Inr first_commit_def small_content_hash small_memory_def memory_family_def next_revision_def
        small_active_ids tea_projection_def)
  have written: "write_revision ?r no_memories first_commit = Inr (small_memory 1 one_line,
      no_memories\<lparr>mt_artifacts := mt_artifacts (small_tables ''one'' [])\<rparr>)"
    using small_decode [of 1 "''one''" one_line] small_codec_values
    by (simp add: write_revision_def first_commit_def memory_family_def small_memory_def small_draft lift_artifact_def
        create_artifact_def small_scope codec_for_draft_def supports_content_def small_refs insert_revision_def no_memories_def
        no_artifacts_def find_artifact_row_def insert_head_def find_head_def small_tables_def)
  have "commit_memory ?r no_memories first_commit = Inr (small_memory 1 one_line, small_tables ''one'' [?v])"
    by (simp add: commit_memory_def valid written replace_index_def no_memory_index_def unit_index)
      (simp add: first_commit_def insert_version_def no_memories_def find_artifact_row_def small_memory_def memory_family_def
        small_tables_def delete_entry_heads_def insert_entry_head_def Let_def tea_projection_def find_version_def stored_versions_def
        small_head_def small_entry_def)
  then show ?thesis
    by (simp add: remember_def small_plan apply_write_plan_def repository_backend_def)
qed

lemma small_manifests:
  "wf_manifest (cn_manifest one_line)" "complete small_env [small_entry ''entryi'' ''versionii'' ''tea''] (small_memory 1 one_line)"
  "wf_manifest (cn_manifest two_lines)"
  "complete small_env [small_entry ''a'' ''va'' ''tea'', small_entry ''b'' ''vb'' ''tea''] (small_memory 1 two_lines)"
  using small_agrees identifiers small_line_valid(2)
  by (simp_all add: wf_manifest_def complete_def one_line_def two_lines_def small_memory_def)

text \<open>The two stores the transitions start from.\<close>

definition one_store :: "unit memory_tables" where
  "one_store = small_tables ''one'' [small_entry ''entryi'' ''versionii'' ''tea'']"

definition two_store :: "unit memory_tables" where
  "two_store = small_tables ''two'' [small_entry ''a'' ''va'' ''tea'', small_entry ''b'' ''vb'' ''tea'']"

lemma small_stores:
  "memory_inv one_store" "readable (repository_backend small_repository) (stored_versions small_repository) small_env one_store"
  "memory_inv two_store" "readable (repository_backend small_repository) (stored_versions small_repository) small_env two_store"
  using small_inv small_readable small_codec_values small_manifests
  by (simp_all add: one_store_def two_store_def)

lemma small_store_projections:
  "memory_projections small_repository one_store (a_ref (small_memory 1 one_line)) = Inr [tea_projection ''entryi'' ''versionii'']"
  "memory_projections small_repository two_store (a_ref (small_memory 1 two_lines)) = Inr [tea_projection ''a'' ''va'', tea_projection ''b'' ''vb'']"
proof -
  have one: "get_memory small_repository one_store (a_ref (small_memory 1 one_line)) = Inr (small_memory 1 one_line)"
    and two: "get_memory small_repository two_store (a_ref (small_memory 1 two_lines)) = Inr (small_memory 1 two_lines)"
    using small_get(1) small_codec_values by (simp_all add: one_store_def two_store_def small_memory_def)
  show "memory_projections small_repository one_store (a_ref (small_memory 1 one_line)) = Inr [tea_projection ''entryi'' ''versionii'']"
    unfolding memory_projections_def one and_then_Inr Let_def
    by (simp add: small_active_ids no_memory_index_def stored_versions_def one_store_def small_tables_def small_head_def
        tea_projection_def)
  show "memory_projections small_repository two_store (a_ref (small_memory 1 two_lines)) = Inr [tea_projection ''a'' ''va'', tea_projection ''b'' ''vb'']"
    unfolding memory_projections_def two and_then_Inr Let_def
    by (simp add: small_active_ids no_memory_index_def stored_versions_def two_store_def small_tables_def small_head_def
        tea_projection_def)
qed

lemma small_existing:
  assumes "ac_decode small_codec payload = Some c" "ac_encode small_codec c' = Some payload'" "ac_decode small_codec payload' = Some c'"
    and "content_hash small_env c' = Inr small_hash" "set (active_ids c') = set (map (\<lambda>p. ev_id (pj_entry p)) ps)"
    and "list_all (\<lambda>p. pj_entry p \<in> set vs) ps" "distinct (map (\<lambda>p. ev_entry (pj_entry p)) ps)"
    and "list_all (\<lambda>v. ev_memory v = ''memory'') vs"
    and "\<lparr>cn_manifest = sorted_manifest manifest, cn_changes = sorted_changes changes\<rparr> = c'"
    and "prepare_projections small_service (small_tables payload vs) (Some (small_memory 1 c)) (cn_manifest c') current [] = Inr ps"
  shows "\<exists>tb. commit_existing small_service (small_tables payload vs) (small_memory 1 c) manifest changes current [] = Inr (small_memory 2 c', tb)"
proof -
  have "finish_commit small_service (small_tables payload vs) (Some (small_memory 1 c)) ''memory'' 2 [] [] manifest changes current []
      = Inr \<lparr>cm_base = Some (small_memory 1 c), cm_memory = small_memory 2 c', cm_hash = small_hash, cm_entries = [], cm_projections = ps\<rparr>"
    unfolding finish_commit_def assms(9) Let_def list.map(1) assms(10) memory_family_def small_draft small_service_fields assms(4)
    by (simp add: lift_artifact_def new_artifact_def small_refs small_memory_def)
  then show ?thesis using small_revise [OF assms(1-8)]
    by (simp add: commit_existing_def repository_backend_def)
qed

lemma small_forget:
  "\<exists>tb. forget small_service one_store (small_memory 1 one_line) [small_entry ''entryi'' ''versionii'' ''tea''] None
     = Inr (small_memory 2 forgotten_line, tb)"
proof -
  let ?v = "small_entry ''entryi'' ''versionii'' ''tea''"
  have val: "validated_entries small_service one_store (small_memory 1 one_line) = Inr [?v]"
    unfolding one_store_def using small_codec_values small_manifests
    by (intro small_validated) (simp_all add: small_entry_def one_line_def small_line_def lookup_version_def)
  have base: "canonical_base small_service one_store (Some (small_memory 1 one_line)) = Inr (Some (small_memory 1 one_line))"
    unfolding one_store_def by (rule small_base [OF small_codec_values(5)])
  have map: "manifest_map (cn_manifest one_line) = [(''entryi'', small_line ''entryi'' ''versionii'' Active)]" "entry_map [?v] = [(''entryi'', ?v)]"
    by (simp_all add: manifest_map_def entry_map_def one_line_def small_line_def small_entry_def)
  have step: "fold_res (set_state_step small_env [(''entryi'', ?v)] Inactive None) [?v] ([(''entryi'', small_line ''entryi'' ''versionii'' Active)], [], [])
      = Inr ([(''entryi'', small_line ''entryi'' ''versionii'' Inactive)], cn_changes forgotten_line, [''entryi'' @ [CHR 0x00] @ ''versionii''])"
    by (simp add: set_state_step_def small_entry_def small_line_def validate_ids identifiers state_change_def new_change_def validate_optional_def
        normalize_reason_def forgotten_line_def small_line_valid or_zero_def new_manifest_entry_Inr small_hash_ok)
  have none: "filter (\<lambda>e. me_state e = Active) (cn_manifest forgotten_line) = []" by (simp add: forgotten_line_def)
  have proj: "prepare_projections small_service one_store (Some (small_memory 1 one_line)) (cn_manifest forgotten_line) [(''entryi'', ?v)] [] = Inr []"
    using small_store_projections(1) by (simp add: prepare_projections_def none repository_backend_def small_projections)
  have "\<exists>tb. commit_existing small_service one_store (small_memory 1 one_line) [(''entryi'', small_line ''entryi'' ''versionii'' Inactive)]
      (cn_changes forgotten_line) [(''entryi'', ?v)] [] = Inr (small_memory 2 forgotten_line, tb)"
    using proj unfolding one_store_def
    by (intro small_existing [OF small_codec_values(5,2,6) small_content_hash(2), of "[]"])
      (simp_all add: active_ids_def sorted_manifest_def sorted_changes_def forgotten_line_def)
  moreover have "cn_changes forgotten_line \<noteq> []" by (simp add: forgotten_line_def)
  ultimately show ?thesis
    by (simp add: forget_def set_entry_state_def base val normalize_reason_def small_memory_def [THEN arg_cong, of a_content] map step del: fold_res.simps)
qed

lemma small_dedupe:
  "\<exists>tb. organize small_service two_store (small_memory 1 two_lines) OrganizeDedupe = Inr (small_memory 2 deduped_lines, tb)"
proof -
  let ?a = "small_entry ''a'' ''va'' ''tea''" and ?b = "small_entry ''b'' ''vb'' ''tea''"
  let ?m = "[(''a'', small_line ''a'' ''va'' Active), (''b'', small_line ''b'' ''vb'' Active)]"
    and ?m' = "[(''a'', small_line ''a'' ''va'' Active), (''b'', small_line ''b'' ''vb'' Inactive)]"
    and ?current = "[(''a'', ?a), (''b'', ?b)]"
  have val: "validated_entries small_service two_store (small_memory 1 two_lines) = Inr [?a, ?b]"
    unfolding two_store_def using small_codec_values small_manifests
    by (intro small_validated) (simp_all add: two_lines_def lookup_version_def)
  have base: "canonical_base small_service two_store (Some (small_memory 1 two_lines)) = Inr (Some (small_memory 1 two_lines))"
    unfolding two_store_def by (rule small_base [OF small_codec_values(7)])
  have map: "manifest_map (cn_manifest two_lines) = ?m" "entry_map [?a, ?b] = ?current"
    by (simp_all add: manifest_map_def entry_map_def two_lines_def gomap_simps)
  have reason: "normalize_reason small_env (Some ''dedupe'') = Inr (Some ''dedupe'')"
    by (simp add: normalize_reason_def small_texts) (simp add: small_env_def small_texts)
  have dedupe: "deduplicate_manifest small_env ?m ?current = Inr (?m', cn_changes deduped_lines, [''b''])"
    by (simp add: deduplicate_manifest_def group_entry_def small_entry_material gomap_simps dedupe_entry_def new_change_def
        validate_ids identifiers validate_optional_def reason small_line_valid or_zero_def deduped_lines_def)
  have active: "filter (\<lambda>e. me_state e = Active) (cn_manifest deduped_lines) = [small_line ''a'' ''va'' Active]" by (simp add: deduped_lines_def)
  have proj: "prepare_projections small_service two_store (Some (small_memory 1 two_lines)) (cn_manifest deduped_lines) ?current []
      = Inr [tea_projection ''a'' ''va'']"
    using small_store_projections(2)
    by (simp add: prepare_projections_def active repository_backend_def small_projections prepare_projection_def Let_def gomap_simps tea_projection_def)
  have "\<exists>tb. commit_existing small_service two_store (small_memory 1 two_lines) ?m' (cn_changes deduped_lines) ?current []
      = Inr (small_memory 2 deduped_lines, tb)"
    using proj unfolding two_store_def
    by (intro small_existing [OF small_codec_values(7,4,8) small_content_hash(3), of "[tea_projection ''a'' ''va'']"])
      (simp_all add: active_ids_def sorted_manifest_def sorted_changes_def deduped_lines_def tea_projection_def)
  moreover have "cn_changes deduped_lines \<noteq> []" by (simp add: deduped_lines_def)
  ultimately show ?thesis
    by (simp add: organize_def base val map dedupe)
qed

end
