(* ===== verification/Memory_Trace.thy ===== *)
theory Memory_Trace
  imports Memory_Remember "HOL-Library.Sublist"
begin

text \<open>
  What a plan of \<open>PlanRemember\<close> holds, as a function of the base and of the candidates: the new manifest is the old one
  overridden by the lines of the planned versions, the planned versions realize candidates in their order, and
  the content of every candidate is that of a planned version or of a version of the base.
\<close>

definition version_line :: "entry_version \<Rightarrow> manifest_entry" where
  "version_line v = \<lparr>me_entry = ev_entry v, me_version = ev_id v, me_hash = ev_hash v, me_state = Active\<rparr>"

definition override :: "entry_version list \<Rightarrow> (string, manifest_entry) gomap \<Rightarrow> (string, manifest_entry) gomap" where
  "override vs m = fold (\<lambda>v. gm_set (ev_entry v) (version_line v)) vs m"

text \<open>A planned version of a candidate: its content is that of the candidate, for a new entry that the base does not have,
  or for the entry the candidate names, after the version it was read at.\<close>

definition realizes ::
  "('s, 'x) memory_service \<Rightarrow> string \<Rightarrow> int \<Rightarrow> 'x operation_evidence \<Rightarrow> (string, manifest_entry) gomap \<Rightarrow> 'x entry_input \<Rightarrow> entry_version \<Rightarrow> bool" where
  "realizes svc i rv evidence manifest x v \<longleftrightarrow>
     (\<exists>m. material_from_candidate svc x evidence (ei_entry x) = Inr m \<and> material_from_version (ms_env svc) v = Inr m \<and> ev_hash v = em_hash m)
     \<and> ev_memory v = i \<and> ev_revision v = rv
     \<and> (case ei_entry x of
          None \<Rightarrow> gm_get manifest (ev_entry v) = None \<and> ev_version v = 1 \<and> ev_previous v = None
        | Some old \<Rightarrow> ev_entry v = ev_entry old \<and> ev_version v = wrap64 (ev_version old + 1) \<and> ev_previous v = Some (ev_id old))"

definition has_content :: "canonical_env \<Rightarrow> entry_version set \<Rightarrow> string \<Rightarrow> bool" where
  "has_content env vs bytes \<longleftrightarrow> (\<exists>v \<in> vs. \<exists>m. material_from_version env v = Inr m \<and> em_bytes m = bytes)"

definition remembered ::
  "('s, 'x) memory_service \<Rightarrow> 'x operation_evidence \<Rightarrow> entry_version set \<Rightarrow> 'x entry_input \<Rightarrow> bool" where
  "remembered svc evidence vs x \<longleftrightarrow>
     (\<exists>m. material_from_candidate svc x evidence (ei_entry x) = Inr m \<and> has_content (ms_env svc) vs (em_bytes m))"

text \<open>The change a planned version is reported by.\<close>

definition reports :: "memory_change \<Rightarrow> entry_version \<Rightarrow> bool" where
  "reports c v \<longleftrightarrow> mc_entry c = ev_entry v \<and> mc_to c = Some (ev_id v) \<and> mc_from c = ev_previous v
     \<and> mc_op c = (if ev_previous v = None then AddOp else ReviseOp)"

definition plan_trace ::
  "('s, 'x) memory_service \<Rightarrow> string \<Rightarrow> int \<Rightarrow> 'x operation_evidence \<Rightarrow> (string, manifest_entry) gomap \<Rightarrow> entry_version list
     \<Rightarrow> 'x entry_input list \<Rightarrow> plan_state \<Rightarrow> bool" where
  "plan_trace svc i rv evidence manifest current processed ps \<longleftrightarrow>
     ps_manifest ps = override (ps_versions ps) manifest
     \<and> (\<exists>chosen. subseq chosen processed \<and> list_all2 (realizes svc i rv evidence manifest) chosen (ps_versions ps))
     \<and> list_all2 reports (ps_changes ps) (ps_versions ps)
     \<and> (\<forall>x \<in> set processed. remembered svc evidence (set current \<union> set (ps_versions ps)) x)
     \<and> (\<forall>b \<in> set (ps_content ps). has_content (ms_env svc) (set current \<union> set (ps_versions ps)) b)
     \<and> (\<forall>k v item. gm_get (ps_current ps) k = Some v \<longrightarrow> gm_get (ps_manifest ps) k = Some item \<longrightarrow> me_state item \<noteq> Inactive
          \<longrightarrow> v \<in> set current \<union> set (ps_versions ps))"

lemma fold_res_prefix:
  assumes "fold_res f xs s = Inr t" "P ys s" "\<And>x u w zs. P zs u \<Longrightarrow> f x u = Inr w \<Longrightarrow> P (zs @ [x]) w"
  shows "P (ys @ xs) t"
  using assms(1,2)
proof (induction xs arbitrary: ys s)
  case (Cons x xs)
  then obtain u where "f x s = Inr u" "fold_res f xs u = Inr t" by (auto simp: res_simps)
  then show ?case using Cons.IH [of u "ys @ [x]"] assms(3) [OF Cons.prems(2)] by simp
qed simp

lemma override_snoc: "override (vs @ [v]) m = gm_set (ev_entry v) (version_line v) (override vs m)"
  by (simp add: override_def)

lemma override_None: "gm_get (override vs m) k = None \<Longrightarrow> gm_get m k = None"
proof (induction vs arbitrary: m)
  case (Cons v vs)
  then have "gm_get (gm_set (ev_entry v) (version_line v) m) k = None" by (simp add: override_def)
  then show ?case by (simp add: gm_get_set split: if_splits)
qed (simp add: override_def)

lemma has_content_mono: "has_content env vs b \<Longrightarrow> vs \<subseteq> ws \<Longrightarrow> has_content env ws b"
  by (auto simp: has_content_def)

lemma remembered_mono: "remembered svc evidence vs x \<Longrightarrow> vs \<subseteq> ws \<Longrightarrow> remembered svc evidence ws x"
  unfolding remembered_def using has_content_mono by blast

text \<open>A candidate that plans nothing.\<close>

lemma plan_trace_skip:
  assumes "plan_trace svc i rv evidence manifest current processed ps" "remembered svc evidence (set current \<union> set (ps_versions ps)) x"
    and "ps_manifest ps' = ps_manifest ps" "ps_versions ps' = ps_versions ps" "ps_changes ps' = ps_changes ps" "ps_content ps' = ps_content ps"
      "ps_current ps' = ps_current ps"
  shows "plan_trace svc i rv evidence manifest current (processed @ [x]) ps'"
proof -
  obtain chosen where "subseq chosen processed" "list_all2 (realizes svc i rv evidence manifest) chosen (ps_versions ps)"
    using assms(1) by (auto simp: plan_trace_def)
  moreover have "subseq chosen (processed @ [x])" using calculation(1) by (metis append_Nil2 list_emb_append_mono list_emb_Nil)
  ultimately show ?thesis using assms unfolding plan_trace_def by auto
qed

text \<open>A candidate that plans a version.\<close>

lemma plan_trace_record:
  assumes trace: "plan_trace svc i rv evidence manifest current processed ps"
    and "digest_ok (ms_env svc)" "nfc_closed (ms_env svc)"
    and mat: "material_from_candidate svc x evidence (ei_entry x) = Inr material"
    and new: "new_entry_version svc i e (ei_entry x) material rv n = Inr v"
    and e: "ei_entry x = None \<Longrightarrow> gm_get (ps_manifest ps) e = None" "\<And>old. ei_entry x = Some old \<Longrightarrow> e = ev_entry old"
    and rec: "record_version svc op (map_option ev_id (ei_entry x)) reason v mid = Inr ps'" "op = (if ei_entry x = None then AddOp else ReviseOp)"
    and mid: "ps_manifest mid = ps_manifest ps" "ps_versions mid = ps_versions ps" "ps_changes mid = ps_changes ps"
      "set (ps_content mid) \<subseteq> insert (em_bytes material) (set (ps_content ps))" "ps_current mid = ps_current ps"
  shows "plan_trace svc i rv evidence manifest current (processed @ [x]) ps'"
proof -
  obtain k t ss as where m: "new_entry_material (ms_env svc) k t ss as = Inr material"
    using mat by (rule material_from_candidate_material)
  note v = new_entry_version_ok [OF assms(3) new m]
  have f: "ev_version v = (case ei_entry x of None \<Rightarrow> 1 | Some p \<Rightarrow> wrap64 (ev_version p + 1))" "ev_previous v = map_option ev_id (ei_entry x)"
    using new by (auto simp: new_entry_version_def res_simps)
  obtain c where ps': "ps' = mid\<lparr>ps_manifest := gm_set (ev_entry v)
        \<lparr>me_entry = ev_entry v, me_version = ev_id v, me_hash = ev_hash v, me_state = Active\<rparr> (ps_manifest mid),
      ps_current := gm_set (ev_entry v) v (ps_current mid), ps_versions := ps_versions mid @ [v],
      ps_changes := ps_changes mid @ [c], ps_ids := Suc (ps_ids mid)\<rparr>"
    and c: "mc_entry c = ev_entry v" "mc_op c = op" "mc_from c = map_option ev_id (ei_entry x)" "mc_to c = Some (ev_id v)"
    using rec(1) assms(2) m v(2,6) by (rule record_version_Inr)
  let ?old = "set current \<union> set (ps_versions ps)" and ?new = "set current \<union> set (ps_versions ps')"
  have sub: "?old \<subseteq> ?new" "v \<in> ?new" by (auto simp: ps' mid)
  have man: "ps_manifest ps = override (ps_versions ps) manifest" using trace by (simp add: plan_trace_def)
  have r: "realizes svc i rv evidence manifest x v"
    using mat v f e override_None [of "ps_versions ps" manifest "ev_entry v"]
    by (auto simp: realizes_def man split: option.splits)
  have here: "has_content (ms_env svc) ?new (em_bytes material)" using v(1) sub(2) by (auto simp: has_content_def)
  obtain chosen where ch: "subseq chosen processed" "list_all2 (realizes svc i rv evidence manifest) chosen (ps_versions ps)"
    using trace by (auto simp: plan_trace_def)
  have "subseq (chosen @ [x]) (processed @ [x])" using ch(1) by simp
  moreover have "list_all2 (realizes svc i rv evidence manifest) (chosen @ [x]) (ps_versions ps')"
    using ch(2) r by (auto simp: ps' mid intro: list_all2_appendI)
  moreover have "ps_manifest ps' = override (ps_versions ps') manifest"
    by (simp add: ps' mid override_snoc man version_line_def)
  moreover have "list_all2 reports (ps_changes ps') (ps_versions ps')"
    using trace c f(2) rec(2) by (auto simp: ps' mid plan_trace_def reports_def intro!: list_all2_appendI)
  moreover have "remembered svc evidence ?new y" if "y \<in> set (processed @ [x])" for y
  proof (cases "y = x")
    case True
    then show ?thesis using here mat by (auto simp: remembered_def)
  next
    case False
    then show ?thesis using that trace remembered_mono [OF _ sub(1)] by (auto simp: plan_trace_def)
  qed
  moreover have "has_content (ms_env svc) ?new b" if "b \<in> set (ps_content ps')" for b
    using that mid(4) trace has_content_mono [OF _ sub(1)] here by (auto simp: plan_trace_def ps')
  moreover have "w \<in> ?new" if "gm_get (ps_current ps') k' = Some w" "gm_get (ps_manifest ps') k' = Some item" "me_state item \<noteq> Inactive" for k' w item
    using that trace sub by (auto simp: plan_trace_def ps' mid gm_get_set split: if_splits)
  ultimately show ?thesis unfolding plan_trace_def by blast
qed

lemma plan_trace_add:
  assumes trace: "plan_trace svc i rv evidence manifest current processed ps"
    and env: "digest_ok (ms_env svc)" "nfc_closed (ms_env svc)"
    and x: "ei_entry x = None" and step: "plan_add svc i rv evidence x ps = Inr ps'"
  shows "plan_trace svc i rv evidence manifest current (processed @ [x]) ps'"
proof -
  let ?ps = "\<lambda>material. ps\<lparr>ps_content := em_bytes material # ps_content ps, ps_ids := Suc (ps_ids ps)\<rparr>"
  obtain material where m: "material_from_candidate svc x evidence None = Inr material"
      and r: "(em_bytes material \<in> set (ps_content ps) \<and> ps' = ps) \<or> (\<exists>e v. new_entry_version svc i e None material rv (Suc (ps_ids ps)) = Inr v
        \<and> gm_get (ps_manifest ps) e = None \<and> record_version svc AddOp None (ei_reason x) v (?ps material) = Inr ps')"
    using step by (rule plan_addE)
  consider (same) "em_bytes material \<in> set (ps_content ps)" "ps' = ps"
    | (added) e v where "new_entry_version svc i e None material rv (Suc (ps_ids ps)) = Inr v"
        "gm_get (ps_manifest ps) e = None" "record_version svc AddOp None (ei_reason x) v (?ps material) = Inr ps'"
    using r by blast
  then show ?thesis
  proof cases
    case same
    then show ?thesis using trace m x by (intro plan_trace_skip [OF trace]) (auto simp: plan_trace_def remembered_def)
  next
    case added
    then show ?thesis
      using m x by (intro plan_trace_record [OF trace env, where mid = "?ps material" and op = AddOp and reason = "ei_reason x"]) auto
  qed
qed

lemma plan_trace_revise:
  assumes trace: "plan_trace svc i rv evidence manifest current processed ps"
    and env: "digest_ok (ms_env svc)" "nfc_closed (ms_env svc)"
    and x: "ei_entry x = Some entry" and step: "plan_revise svc i rv evidence x ps = Inr ps'"
  shows "plan_trace svc i rv evidence manifest current (processed @ [x]) ps'"
proof -
  obtain e where cl: "claim_revision_target x (ps_current ps) (ps_targeted ps) = Inr (e, entry)" "e = ev_entry entry" "gm_get (ps_current ps) e = Some entry"
    using step x unfolding plan_revise_def claim_revision_target_def
    by (auto simp: res_simps validate_identifier_def split: option.splits if_splits)
  let ?ps = "ps\<lparr>ps_targeted := e # ps_targeted ps\<rparr>"
  obtain material old item where m: "material_from_candidate svc x evidence (Some entry) = Inr material" "material_from_version (ms_env svc) entry = Inr old"
    and live: "gm_get (ps_manifest ps) e = Some item" "me_state item \<noteq> Inactive"
    and r: "em_bytes material = em_bytes old \<and> ps' = ?ps \<or> (\<exists>v. new_entry_version svc i e (Some entry) material rv (ps_ids ps) = Inr v
        \<and> record_version svc ReviseOp (Some (ev_id entry)) (ei_reason x) v ?ps = Inr ps')"
    using step cl(1) x by (auto simp: plan_revise_def Let_def res_simps split: option.splits if_splits)
  consider (same) "em_bytes material = em_bytes old" "ps' = ?ps"
    | (revised) v where "new_entry_version svc i e (Some entry) material rv (ps_ids ps) = Inr v"
        "record_version svc ReviseOp (Some (ev_id entry)) (ei_reason x) v ?ps = Inr ps'"
    using r by blast
  then show ?thesis
  proof cases
    case same
    have "entry \<in> set current \<union> set (ps_versions ps)" using trace cl(3) live by (auto simp: plan_trace_def)
    then have "remembered svc evidence (set current \<union> set (ps_versions ps)) x"
      using m same(1) x unfolding remembered_def has_content_def by metis
    then show ?thesis using same(2) by (intro plan_trace_skip [OF trace]) auto
  next
    case revised
    then show ?thesis
      using m x cl(2) by (intro plan_trace_record [OF trace env, where mid = ?ps and op = ReviseOp and reason = "ei_reason x"]) auto
  qed
qed

lemma plan_trace_candidate:
  assumes "plan_trace svc i rv evidence manifest current processed ps" "digest_ok (ms_env svc)" "nfc_closed (ms_env svc)"
    and "plan_candidate svc i rv evidence x ps = Inr ps'"
  shows "plan_trace svc i rv evidence manifest current (processed @ [x]) ps'"
  using assms plan_trace_add plan_trace_revise by (cases "ei_entry x") (auto simp: plan_candidate_def)

text \<open>Where the loop starts.\<close>

definition active_versions :: "manifest_entry list \<Rightarrow> entry_version list \<Rightarrow> entry_version list" where
  "active_versions es vs = filter (\<lambda>v. \<exists>item \<in> set es. me_entry item = ev_entry v \<and> me_state item = Active) vs"

lemma initial_plan_trace:
  assumes "active_content (ms_env svc) (manifest_map es) vs = Inr content" "wf_manifest es" "distinct (map ev_entry vs)"
  shows "plan_trace svc i rv evidence (manifest_map es) (active_versions es vs) []
    \<lparr>ps_manifest = manifest_map es, ps_current = entry_map vs, ps_versions = [], ps_changes = [],
     ps_targeted = [], ps_content = content, ps_ids = ids\<rparr>"
proof -
  have d: "distinct (map me_entry es)" and valid: "list_all valid_item es" using assms(2) by (simp_all add: wf_manifest_def)
  note get = manifest_map_get [OF d]
  have active: "active_versions es vs
      = filter (\<lambda>v. case gm_get (manifest_map es) (ev_entry v) of None \<Rightarrow> False | Some item \<Rightarrow> me_state item = Active) vs"
    unfolding active_versions_def
  proof (rule filter_cong)
    fix v
    show "(\<exists>item \<in> set es. me_entry item = ev_entry v \<and> me_state item = Active)
        = (case gm_get (manifest_map es) (ev_entry v) of None \<Rightarrow> False | Some item \<Rightarrow> me_state item = Active)"
    proof (cases "gm_get (manifest_map es) (ev_entry v)")
      case None
      then have "me_entry item \<noteq> ev_entry v" if "item \<in> set es" for item using that get [of "ev_entry v" item] by auto
      then show ?thesis using None by auto
    next
      case (Some found)
      have "item = found" if "item \<in> set es" "me_entry item = ev_entry v" for item using that get [of "ev_entry v" item] Some by auto
      then show ?thesis using Some get [of "ev_entry v" found] by auto
    qed
  qed simp
  obtain ms where ms: "list_all2 (\<lambda>v m. material_from_version (ms_env svc) v = Inr m) (active_versions es vs) ms" "content = map em_bytes ms"
    using assms(1) by (auto simp: active_content_def active res_simps map_res_eq_Inr)
  have "has_content (ms_env svc) (set (active_versions es vs)) b" if "b \<in> set content" for b
    using ms(1) that unfolding ms(2) has_content_def
    by (induction rule: list_all2_induct) auto
  moreover have "v \<in> set (active_versions es vs)"
    if "gm_get (entry_map vs) k = Some v" "gm_get (manifest_map es) k = Some item" "me_state item \<noteq> Inactive" for k v item
  proof -
    have "item \<in> set es" "me_entry item = k" using that(2) by (simp_all add: get)
    moreover have "me_state item = Active"
      using calculation(1) valid that(3) by (cases "me_state item") (auto simp: list_all_iff valid_item_iff)
    ultimately show ?thesis using that(1) by (auto simp: active_versions_def entry_map_get [OF assms(3)])
  qed
  ultimately show ?thesis by (auto simp: plan_trace_def override_def)
qed

lemma base_versions_distinct:
  assumes "(case base of None \<Rightarrow> Inr [] | Some m \<Rightarrow> validated_entries svc st m) = Inr vs" "wf_manifest (base_manifest base)"
  shows "distinct (map ev_entry vs)"
proof (cases base)
  case (Some m)
  then show ?thesis
    using assms validated_entries_consistent(2) [of svc st m vs] by (simp add: base_manifest_def wf_manifest_def)
qed (use assms in simp)

text \<open>The plan of a commit, from the base and the request.\<close>

definition planned_from ::
  "('s, 'x) memory_service \<Rightarrow> 's \<Rightarrow> memory option \<Rightarrow> product_value list \<Rightarrow> 'x artifact list \<Rightarrow> 'x entry_input list \<Rightarrow> remember_mode
     \<Rightarrow> 'x operation_evidence \<Rightarrow> entry_version list \<Rightarrow> 'x entry_input list \<Rightarrow> bool" where
  "planned_from svc st base sources artifacts entries mode evidence current candidates \<longleftrightarrow>
     canonical_operation_evidence svc sources artifacts = Inr evidence
     \<and> (case base of None \<Rightarrow> Inr [] | Some m \<Rightarrow> validated_entries svc st m) = Inr current
     \<and> (\<exists>selected. select_remember_mode mode (entries \<noteq> []) (sources \<noteq> [] \<or> artifacts \<noteq> []) = Inr selected
          \<and> candidate_inputs svc selected entries evidence base current = Inr candidates)"

lemma plan_remember_from:
  assumes "plan_remember svc st base sources artifacts entries mode = Inr plan" "wp_commit plan = Some c"
  obtains vs candidates evidence where "planned_from svc st base sources artifacts entries mode evidence vs candidates"
    "prepare_commit svc st base candidates evidence vs = Inr (Some c)"
proof -
  have "canonical = base" if "canonical_base svc st base = Inr canonical" for canonical
    using that by (auto simp: canonical_base_def res_simps split: option.splits)
  then show thesis using assms that unfolding planned_from_def
    by (auto simp: plan_remember_def res_simps split: if_splits option.splits)
qed

lemma remember_plan_realizes:
  assumes "nfc_closed (ms_env svc)" "digest_ok (ms_env svc)" "wf_manifest (base_manifest base)"
    and "plan_remember svc st base sources artifacts entries mode = Inr plan" "wp_commit plan = Some c"
  obtains evidence current candidates chosen changes where
    "planned_from svc st base sources artifacts entries mode evidence current candidates"
    "subseq chosen candidates"
    "list_all2 (realizes svc (ar_id (a_ref (cm_memory c))) (next_revision base) evidence (manifest_map (base_manifest base))) chosen (cm_entries c)"
    "\<And>x. x \<in> set candidates \<Longrightarrow> remembered svc evidence (set (active_versions (base_manifest base) current) \<union> set (cm_entries c)) x"
    "list_all2 reports changes (cm_entries c)"
    "a_content (cm_memory c) = \<lparr>cn_manifest = sorted_manifest (override (cm_entries c) (manifest_map (base_manifest base))),
       cn_changes = sorted_changes changes\<rparr>"
proof -
  obtain vs candidates evidence where p: "planned_from svc st base sources artifacts entries mode evidence vs candidates"
      "prepare_commit svc st base candidates evidence vs = Inr (Some c)"
    using plan_remember_from [OF assms(4,5)] by blast
  from p(2) obtain i content ids ps refs where q:
      "active_content (ms_env svc) (manifest_map (base_manifest base)) vs = Inr content"
      "fold_res (plan_candidate svc i (next_revision base) evidence) candidates
         \<lparr>ps_manifest = manifest_map (base_manifest base), ps_current = entry_map vs, ps_versions = [], ps_changes = [],
          ps_targeted = [], ps_content = content, ps_ids = ids\<rparr> = Inr ps"
      "finish_commit svc st base i (next_revision base) refs (map a_ref (oe_artifacts evidence))
         (ps_manifest ps) (ps_changes ps) (ps_current ps) (ps_versions ps) = Inr c"
    by (elim prepare_commitE) blast
  have read: "(case base of None \<Rightarrow> Inr [] | Some m \<Rightarrow> validated_entries svc st m) = Inr vs"
    using p(1) unfolding planned_from_def by (elim conjE)
  have "distinct (map ev_entry vs)" by (rule base_versions_distinct [OF read assms(3)])
  note start = initial_plan_trace [OF q(1) assms(3) this]
  have "plan_trace svc i (next_revision base) evidence (manifest_map (base_manifest base)) (active_versions (base_manifest base) vs)
      ([] @ candidates) ps"
    using q(2) start by (rule fold_res_prefix) (rule plan_trace_candidate [OF _ assms(2,1)])
  then show thesis
    using that [OF p(1)] finish_commit_Inr [OF q(3)] by (auto simp: plan_trace_def)
qed

end
