(* ===== verification/Memory_Properties.thy ===== *)
theory Memory_Properties
  imports Memory_Example Memory_Trace
begin

text \<open>
  The Memory service over the relational store. The contract of \<open>Memory_History\<close>, interpreted on the
  repository, gives the histories their meaning; the head of a Memory is a compare-and-set cell, so
  concurrent commits of the same base have one winner; and the operations of the service change
  exactly what they are asked to change.
\<close>

section \<open>Memory heads as compare-and-set cells\<close>

definition base_version :: "memory_commit \<Rightarrow> int option" where
  "base_version c = map_option (\<lambda>b. ar_revision (a_ref b)) (cm_base c)"

definition commit_put ::
  "'i memory_repository \<Rightarrow> 'i memory_tables \<Rightarrow> string \<Rightarrow> int option \<Rightarrow> memory_commit \<Rightarrow> memory_error + 'i memory_tables" where
  "commit_put r tb memory_id expected c =
     and_then (check (ar_id (a_ref (cm_memory c)) = memory_id \<and> base_version c = expected) (commit_fault ''another Memory'')) (\<lambda>_.
     and_then (commit_memory r tb c) (\<lambda>(_, tb'). Inr tb'))"

definition memory_version :: "'i memory_repository \<Rightarrow> 'i memory_tables \<Rightarrow> string \<Rightarrow> int option" where
  "memory_version r tb memory_id = find_head (mt_artifacts tb) (mr_scope r) memory_family memory_id"

lemma write_revision_head:
  assumes "artifacts_inv (mt_artifacts tb)" "write_revision r tb c = Inr (m, tb1)"
  shows "memory_version r tb (ar_id (a_ref (cm_memory c))) = base_version c"
    "memory_version r tb1 k = (if k = ar_id (a_ref (cm_memory c)) then Some (next_version (base_version c)) else memory_version r tb k)"
proof -
  let ?nx = "cm_memory c"
  obtain d stored w where d: "new_draft memory_family (a_content ?nx) (li_sources (a_lineage ?nx)) (li_artifacts (a_lineage ?nx)) = Inr d"
      "(case cm_base c of
          None \<Rightarrow> create_artifact (mr_has_source r) (mr_artifacts r) (mt_artifacts tb) (mr_scope r) (ar_id (a_ref ?nx)) d
        | Some b \<Rightarrow> revise_artifact (mr_has_source r) (mr_artifacts r) (mt_artifacts tb) (mr_scope r) b d) = Inr (stored, w)"
      "stored = ?nx" "tb1 = tb\<lparr>mt_artifacts := w\<rparr>"
    using assms(2) by (auto simp: write_revision_def Let_def lift_artifact_def res_simps)
  have fam: "dr_family d = memory_family" using d(1) by (auto simp: new_draft_def res_simps)
  have "memory_version r tb (ar_id (a_ref ?nx)) = base_version c
     \<and> memory_version r tb1 k = (if k = ar_id (a_ref ?nx) then Some (next_version (base_version c)) else memory_version r tb k)"
  proof (cases "cm_base c")
    case None
    then have "create_artifact (mr_has_source r) (mr_artifacts r) (mt_artifacts tb) (mr_scope r) (ar_id (a_ref ?nx)) d = Inr (stored, w)"
      using d(2) by simp
    then show ?thesis using None
      by (elim create_advances [OF assms(1)])
        (auto simp: memory_version_def base_version_def fam d(4) advanced_def next_version_def version_number_def)
  next
    case (Some b)
    then have rv: "revise_artifact (mr_has_source r) (mr_artifacts r) (mt_artifacts tb) (mr_scope r) b d = Inr (stored, w)"
      using d(2) by simp
    have "ar_id (a_ref b) = ar_id (a_ref ?nx)" using revise_written(2) [OF assms(1) rv] d(3) by simp
    then show ?thesis using Some rv
      by (elim revise_advances [OF assms(1)])
        (auto simp: memory_version_def base_version_def fam d(4) advanced_def next_version_def version_number_def)
  qed
  then show "memory_version r tb (ar_id (a_ref (cm_memory c))) = base_version c"
    "memory_version r tb1 k = (if k = ar_id (a_ref (cm_memory c)) then Some (next_version (base_version c)) else memory_version r tb k)"
    by blast+
qed

lemma commit_memory_head:
  assumes "memory_inv tb" "commit_memory r tb c = Inr (m, tb')"
  shows "memory_version r tb (ar_id (a_ref (cm_memory c))) = base_version c
    \<and> memory_version r tb' k = (if k = ar_id (a_ref (cm_memory c)) then Some (next_version (base_version c)) else memory_version r tb k)"
proof -
  have inv: "artifacts_inv (mt_artifacts tb)" using assms(1) by (simp add: memory_inv_def)
  show ?thesis using assms(2)
    by (elim commit_memoryE) (use write_revision_head [OF inv, of r c] in \<open>fastforce simp: memory_version_def\<close>)
qed

lemma commit_put_Inr:
  assumes "commit_put r tb k x c = Inr tb'"
  obtains m where "commit_memory r tb c = Inr (m, tb')" "ar_id (a_ref (cm_memory c)) = k" "base_version c = x"
  using assms by (auto simp: commit_put_def res_simps)

interpretation mc: compare_and_set memory_inv "memory_version r" "commit_put r" for r :: "'i memory_repository"
proof (unfold_locales, goal_cases)
  case (1 t k x v t')
  then show ?case by (elim commit_put_Inr) (rule commit_memory_facts(1))
next
  case (2 t k x v t')
  then show ?case by (elim commit_put_Inr) (use commit_memory_head in blast)
next
  case (3 t k x v t' k')
  then show ?case by (elim commit_put_Inr) (use commit_memory_head in blast)
qed

text \<open>A sequence of commits, each with the version of the Memory it was prepared from.\<close>

definition commit_writes :: "memory_commit list \<Rightarrow> (string \<times> int option \<times> memory_commit) list" where
  "commit_writes cs = map (\<lambda>c. (ar_id (a_ref (cm_memory c)), base_version c, c)) cs"

section \<open>Reading through the service\<close>

lemma base_readable:
  assumes "ms_backend svc = repository_backend r" "readable (repository_backend r) (stored_versions r) (ms_env svc) tb"
    and "canonical_base svc tb (Some m) = Inr x"
  shows "wf_manifest (cn_manifest (a_content m))" "latest_memory r tb (ar_id (a_ref m)) = Inr m" "get_memory r tb (a_ref m) = Inr m"
  using assms by (auto simp: canonical_base_def res_simps readable_def repository_backend_def)

lemma repository_commit_returns:
  "ms_backend svc = repository_backend r \<Longrightarrow> returns_commit svc tb"
  using ms.commit_returns unfolding returns_commit_def by metis

lemma repository_commit_latest:
  "memory_inv tb \<Longrightarrow> mb_commit (repository_backend r) tb c = Inr (m, tb') \<Longrightarrow> latest_memory r tb' (ar_id (a_ref m)) = Inr m"
  using ms.commit_latest by (fastforce simp: repository_backend_def)

lemma planned_commit_valid:
  assumes "nfc_closed (ms_env svc)" "digest_ok (ms_env svc)" "wf_manifest (base_manifest base)"
    and "plan_remember svc st base sources artifacts entries mode = Inr plan" "wp_commit plan = Some c"
  shows "validate_memory_commit (ms_env svc) c = Inr ()"
proof -
  note facts = remember_plan_facts [OF assms]
  have "map snd (map (\<lambda>p. (ev_entry (pj_entry p), ev_id (pj_entry p))) (cm_projections c)) = active_ids (a_content (cm_memory c))"
    using facts by (simp add: active_ids_def)
  then have "active_ids (a_content (cm_memory c)) = map (\<lambda>p. ev_id (pj_entry p)) (cm_projections c)" by (simp add: comp_def)
  then show ?thesis using facts by (simp add: validate_memory_commit_Inr)
qed

section \<open>Properties\<close>

text \<open>C15: a commit planned by \<open>PlanRemember\<close> is one the relational store accepts (family, content hash,
  identity and revision of the base, projections of exactly the active lines). Its manifest is the one of the
  base with the line of every planned version, and of no other entry, set active at that version; an inactive line of the
  base is kept as it was. The planned versions realize candidates of the request in their order: each has the
  content of its candidate and stands for a new entry, or follows the version of the entry the candidate names.
  No candidate is lost: the content of each is that of a planned version or of an entry active in the base. The
  changes of the content report the planned versions one by one.\<close>

theorem remember_plan_sound:
  assumes "nfc_closed (ms_env svc)" "digest_ok (ms_env svc)" "wf_manifest (base_manifest base)"
    and "plan_remember svc st base sources artifacts entries mode = Inr plan" "wp_commit plan = Some c"
  shows "validate_memory_commit (ms_env svc) c = Inr () \<and> wp_result plan = Some (cm_memory c) \<and> cm_base c = base
    \<and> wf_manifest (cn_manifest (a_content (cm_memory c)))
    \<and> (\<forall>e \<in> set (base_manifest base). me_entry e \<notin> ev_entry ` set (cm_entries c) \<or> me_state e = Inactive
          \<longrightarrow> e \<in> set (cn_manifest (a_content (cm_memory c))))
    \<and> (\<exists>evidence current candidates chosen changes.
        planned_from svc st base sources artifacts entries mode evidence current candidates
        \<and> a_content (cm_memory c) = \<lparr>cn_manifest = sorted_manifest (override (cm_entries c) (manifest_map (base_manifest base))),
             cn_changes = sorted_changes changes\<rparr>
        \<and> list_all2 reports changes (cm_entries c)
        \<and> subseq chosen candidates
        \<and> list_all2 (realizes svc (ar_id (a_ref (cm_memory c))) (next_revision base) evidence (manifest_map (base_manifest base)))
             chosen (cm_entries c)
        \<and> (\<forall>x \<in> set candidates.
             remembered svc evidence (set (active_versions (base_manifest base) current) \<union> set (cm_entries c)) x))"
proof -
  note facts = remember_plan_facts [OF assms]
  obtain evidence current candidates chosen changes where r:
      "planned_from svc st base sources artifacts entries mode evidence current candidates" "subseq chosen candidates"
      "list_all2 (realizes svc (ar_id (a_ref (cm_memory c))) (next_revision base) evidence (manifest_map (base_manifest base))) chosen (cm_entries c)"
      "\<And>x. x \<in> set candidates \<Longrightarrow> remembered svc evidence (set (active_versions (base_manifest base) current) \<union> set (cm_entries c)) x"
      "list_all2 reports changes (cm_entries c)"
      "a_content (cm_memory c) = \<lparr>cn_manifest = sorted_manifest (override (cm_entries c) (manifest_map (base_manifest base))),
         cn_changes = sorted_changes changes\<rparr>"
    using remember_plan_realizes [OF assms] by blast
  have "\<forall>x \<in> set candidates. remembered svc evidence (set (active_versions (base_manifest base) current) \<union> set (cm_entries c)) x"
    using r(4) by blast
  note plan = r(1,6,5,2,3) this
  show ?thesis by (intro conjI exI) ((rule plan) | (use facts planned_commit_valid [OF assms] in blast))+
qed

text \<open>In every sequence of Memory commits, of all the commits prepared from the same revision of a
  Memory (or from its absence) at most one is stored, and the revision of a Memory counts the commits
  stored for it: no concurrent remember, forget or organize is lost.\<close>

theorem memory_single_winner:
  assumes "memory_inv tb"
  shows "wins (\<lambda>w. fst w = i \<and> fst (snd w) = x) (commit_writes cs) (snd (run_puts (commit_put r) tb (commit_writes cs))) \<le> 1
    \<and> version_number (memory_version r (fst (run_puts (commit_put r) tb (commit_writes cs))) i)
      = version_number (memory_version r tb i)
        + int (wins (\<lambda>w. fst w = i) (commit_writes cs) (snd (run_puts (commit_put r) tb (commit_writes cs))))"
  using mc.single_winner [OF assms] mc.version_counts [OF assms] by blast

text \<open>C16: whatever operations services run on a store of readable Memories, every revision that could be
  read before still reads as the same Memory with the same entry versions, each of which still has the
  content hash its manifest line records, and the store stays one of readable Memories.\<close>

theorem memory_history_readable:
  assumes "ms_backend svc = repository_backend r" "nfc_closed (ms_env svc)" "digest_ok (ms_env svc)"
    and "memory_inv tb" "readable (repository_backend r) (stored_versions r) (ms_env svc) tb"
    and "(memory_step svc)\<^sup>*\<^sup>* tb tb'"
  shows "memory_inv tb' \<and> readable (repository_backend r) (stored_versions r) (ms_env svc) tb'
    \<and> (get_memory r tb ref = Inr m \<longrightarrow> get_memory r tb' ref = Inr m
        \<and> (\<exists>vs. validated_entries svc tb m = Inr vs \<and> validated_entries svc tb' m = Inr vs))"
proof -
  have "mb_get (repository_backend r) = get_memory r" by (simp add: repository_backend_def)
  then show ?thesis
    using ms.steps_history [OF assms(6,4,5,1,2,3)] ms.steps_entries [OF assms(6,4,5,1,2,3), of ref m] by simp
qed

text \<open>C17: forgetting (reactivating) entries yields the manifest of the base with exactly the requested
  entries inactive (active) and every other line as it was, as the latest revision of the same
  Memory; nothing is written when no entry changes state. The identifiers of the requested entries
  have no NUL byte.\<close>

theorem memory_transition_exact:
  assumes "ms_backend svc = repository_backend r" "memory_inv tb"
    and "readable (repository_backend r) (stored_versions r) (ms_env svc) tb"
    and "forget svc tb base entries reason = Inr (m, tb') \<and> target = Inactive
      \<or> reactivate svc tb base entries reason = Inr (m, tb') \<and> target = Active"
    and "list_all (\<lambda>e. CHR 0x00 \<notin> set (ev_entry e)) entries"
  shows "cn_manifest (a_content m) = map (with_state target (ev_entry ` set entries)) (cn_manifest (a_content base))
    \<and> latest_memory r tb' (ar_id (a_ref base)) = Inr m
    \<and> (m = base \<and> tb' = tb \<or> ar_revision (a_ref m) = wrap64 (ar_revision (a_ref base) + 1) \<and> ar_id (a_ref m) = ar_id (a_ref base))"
proof -
  have run: "set_entry_state svc tb base entries target reason = Inr (m, tb')" "target \<noteq> NoState"
    using assms(4) by (auto simp: forget_def reactivate_def)
  note base = base_readable [OF assms(1,3) canonical_base_value [OF run(1)]]
  note exact = set_entry_state_manifest [OF run(1) base(1) run(2) assms(5) repository_commit_returns [OF assms(1)]]
  have "latest_memory r tb' (ar_id (a_ref base)) = Inr m"
    using exact(2) base(2) ms.set_entry_state_commits [OF run(1) assms(1)] repository_commit_latest [OF assms(2)] by metis
  then show ?thesis using exact by blast
qed

text \<open>C18: organizing a Memory in dedupe mode deactivates exactly the active entries whose canonical content
  another active entry with a smaller identity has: afterwards no two active entries have the same
  content, every content that was active still is, through the entry with the least identity, and the
  result is the latest revision of the Memory.\<close>

theorem memory_dedupe_exact:
  assumes "ms_backend svc = repository_backend r" "memory_inv tb"
    and "readable (repository_backend r) (stored_versions r) (ms_env svc) tb"
    and "organize svc tb base OrganizeDedupe = Inr (m, tb')"
  shows "latest_memory r tb' (ar_id (a_ref base)) = Inr m \<and> (\<exists>vs. validated_entries svc tb base = Inr vs
    \<and> cn_manifest (a_content m) = map (with_state Inactive
        (duplicate_ids (ms_env svc) (entry_map vs) (set (cn_manifest (a_content base))))) (cn_manifest (a_content base))
    \<and> (\<forall>x \<in> set (cn_manifest (a_content m)). \<forall>y \<in> set (cn_manifest (a_content m)).
         me_state x = Active \<and> me_state y = Active \<and> content_of (ms_env svc) (entry_map vs) x = content_of (ms_env svc) (entry_map vs) y
           \<longrightarrow> x = y)
    \<and> (\<forall>x \<in> set (cn_manifest (a_content base)). me_state x = Active \<longrightarrow>
         (\<exists>y \<in> set (cn_manifest (a_content m)). y \<in> set (cn_manifest (a_content base)) \<and> me_state y = Active
           \<and> content_of (ms_env svc) (entry_map vs) y = content_of (ms_env svc) (entry_map vs) x \<and> me_entry y \<le> me_entry x)))"
proof -
  have cb: "canonical_base svc tb (Some base) = Inr (Some base)"
    using assms(4) canonical_base_Inr by (auto simp: organize_def and_then_eq_Inr)
  note base = base_readable [OF assms(1,3) cb]
  obtain vs where vs: "validated_entries svc tb base = Inr vs"
    using assms(4) cb by (cases "validated_entries svc tb base") (auto simp: organize_def Let_def res_simps)
  note exact = organize_dedupe_manifest [OF assms(4) base(1) vs repository_commit_returns [OF assms(1)]]
  have id: "m = base \<or> ar_id (a_ref m) = ar_id (a_ref base)" by (rule organize_identity [OF assms(4) repository_commit_returns [OF assms(1)]])
  have "latest_memory r tb' (ar_id (a_ref base)) = Inr m"
    using id base(2) ms.organize_commits [OF assms(4,1)] repository_commit_latest [OF assms(2)] by metis
  then show ?thesis using vs exact dedupe_unique [OF base(1) exact] by blast
qed

section \<open>On the worked Memory\<close>

theorem remember_plan_sound_witness:
  "\<exists>plan. plan_remember small_service no_memories None [] [] [small_input] RememberAppend = Inr plan
     \<and> wp_result plan = Some (small_memory 1 one_line) \<and> validate_memory_commit small_env first_commit = Inr ()
     \<and> cn_manifest one_line = sorted_manifest (override (cm_entries first_commit) [])
     \<and> (\<exists>evidence v. cm_entries first_commit = [v] \<and> realizes small_service ''memory'' 1 evidence [] small_input v)"
proof -
  obtain evidence current candidates chosen changes where r:
      "planned_from small_service no_memories None [] [] [small_input] RememberAppend evidence current candidates"
      "a_content (cm_memory first_commit) = \<lparr>cn_manifest = sorted_manifest (override (cm_entries first_commit) (manifest_map [])),
         cn_changes = sorted_changes changes\<rparr>"
      "subseq chosen candidates"
      "list_all2 (realizes small_service (ar_id (a_ref (cm_memory first_commit))) 1 evidence (manifest_map [])) chosen (cm_entries first_commit)"
    and v: "validate_memory_commit small_env first_commit = Inr ()"
    using remember_plan_sound [OF _ _ _ small_plan, of first_commit] small_env_ok
    by (simp add: base_manifest_def wf_manifest_def next_revision_def) blast
  have "candidates = [small_input]" using r(1) by (auto simp: planned_from_def select_remember_mode_def candidate_inputs_def)
  then have "set chosen \<subseteq> {small_input}" using r(3) by (auto elim: list_emb_set)
  then have "\<exists>v. cm_entries first_commit = [v] \<and> realizes small_service ''memory'' 1 evidence [] small_input v"
    using r(4) by (auto simp: first_commit_def list_all2_Cons2 manifest_map_def)
  moreover have "cn_manifest (a_content (cm_memory first_commit)) = sorted_manifest (override (cm_entries first_commit) [])"
    unfolding r(2) by (simp add: manifest_map_def)
  moreover have "a_content (cm_memory first_commit) = one_line" by (simp add: first_commit_def)
  ultimately show ?thesis using v small_plan by auto
qed

theorem memory_single_winner_witness:
  "wins (\<lambda>w. fst w = ''memory'' \<and> fst (snd w) = None) (commit_writes [first_commit, first_commit])
     (snd (run_puts (commit_put small_repository) no_memories (commit_writes [first_commit, first_commit]))) \<le> 1"
  using memory_single_winner [OF no_memories_ok(1)] by blast

theorem memory_history_readable_witness:
  "get_memory small_repository one_store (a_ref (small_memory 1 one_line)) = Inr (small_memory 1 one_line)
     \<and> (\<exists>tb. forget small_service one_store (small_memory 1 one_line) [small_entry ''entryi'' ''versionii'' ''tea''] None
           = Inr (small_memory 2 forgotten_line, tb)
         \<and> get_memory small_repository tb (a_ref (small_memory 1 one_line)) = Inr (small_memory 1 one_line))"
proof -
  obtain tb where f: "forget small_service one_store (small_memory 1 one_line) [small_entry ''entryi'' ''versionii'' ''tea''] None
      = Inr (small_memory 2 forgotten_line, tb)" using small_forget by blast
  have "memory_step small_service one_store tb" by (rule forgets [OF _ f]) (simp add: same_store_def)
  then have steps: "(memory_step small_service)\<^sup>*\<^sup>* one_store tb" by blast
  have get: "get_memory small_repository one_store (a_ref (small_memory 1 one_line)) = Inr (small_memory 1 one_line)"
    using small_get(1) small_codec_values by (simp add: one_store_def)
  then show ?thesis
    using memory_history_readable [OF small_service_fields(3) _ _ small_stores(1) _ steps] small_env_ok small_stores(2) f
    by (simp del: small_fields)
qed

theorem memory_transition_exact_witness:
  "\<exists>tb. latest_memory small_repository tb ''memory'' = Inr (small_memory 2 forgotten_line)
     \<and> cn_manifest forgotten_line = map (with_state Inactive {''entryi''}) (cn_manifest one_line)"
proof -
  obtain tb where "forget small_service one_store (small_memory 1 one_line) [small_entry ''entryi'' ''versionii'' ''tea''] None
      = Inr (small_memory 2 forgotten_line, tb)" using small_forget by blast
  then show ?thesis
    using memory_transition_exact [OF small_service_fields(3) small_stores(1), of "small_memory 1 one_line"
        "[small_entry ''entryi'' ''versionii'' ''tea'']" None "small_memory 2 forgotten_line" tb Inactive] small_stores(2)
    by auto
qed

theorem memory_dedupe_exact_witness:
  "\<exists>tb. organize small_service two_store (small_memory 1 two_lines) OrganizeDedupe = Inr (small_memory 2 deduped_lines, tb)
     \<and> latest_memory small_repository tb ''memory'' = Inr (small_memory 2 deduped_lines)"
proof -
  obtain tb where "organize small_service two_store (small_memory 1 two_lines) OrganizeDedupe = Inr (small_memory 2 deduped_lines, tb)"
    using small_dedupe by blast
  then show ?thesis
    using memory_dedupe_exact [OF small_service_fields(3) small_stores(3) _ \<open>organize _ _ _ _ = _\<close>] small_stores(4) by auto
qed

end
