(* ===== verification/Binary64.thy ===== *)
theory Binary64
  imports Memory_Plan
begin

text \<open>
  The \<open>float64\<close> arithmetic of Go that the fusion of two rankings computes with, on bit patterns: conversion of an
  integer, addition and division of IEEE 754 binary64 numbers, rounded to nearest with ties to even. Every
  finite number is a multiple of \<open>2^-1074\<close>, the least subnormal, so its magnitude is a natural number
  of such units, and an exact result is a fraction of units that \<open>round64\<close> rounds. Which NaN an
  operation gives is not modelled: every NaN result is \<open>quiet_nan64\<close>.
\<close>

unbundle bit_operations_syntax

section \<open>Patterns\<close>

definition nan64 :: "float64 \<Rightarrow> bool" where
  "nan64 w \<longleftrightarrow> \<not> finite64 w \<and> take_bit 52 w \<noteq> 0"

definition inf64 :: "float64" where
  "inf64 = 0x7FF0000000000000"

definition quiet_nan64 :: "float64" where
  "quiet_nan64 = 0x7FF8000000000000"

definition one64 :: float64 where
  "one64 = 0x3FF0000000000000"

fun bit_length :: "nat \<Rightarrow> nat" where
  "bit_length n = (if n = 0 then 0 else Suc (bit_length (n div 2)))"

declare bit_length.simps [simp del]

text \<open>The magnitude of a finite number, in units of \<open>2^-1074\<close>.\<close>

definition units64 :: "float64 \<Rightarrow> nat" where
  "units64 w = (let e = unat (abs64 w) div 2 ^ 52; f = unat (abs64 w) mod 2 ^ 52 in
     if e = 0 then f else (2 ^ 52 + f) * 2 ^ (e - 1))"

text \<open>The pattern nearest to \<open>a / b\<close> units: \<open>k\<close> is how many binary digits of it do not fit.\<close>

definition round_even :: "nat \<Rightarrow> nat \<Rightarrow> nat" where
  "round_even a c = (let m = a div c; r = a mod c in if c < 2 * r \<or> 2 * r = c \<and> odd m then m + 1 else m)"

definition round_units :: "nat \<Rightarrow> nat \<Rightarrow> nat" where
  "round_units a b = (let k = bit_length (a div b) - 53 in k * 2 ^ 52 + round_even a (b * 2 ^ k))"

definition round64 :: "nat \<Rightarrow> nat \<Rightarrow> float64" where
  "round64 a b = of_nat (min (round_units a b) (unat inf64))"

definition with_sign :: "bool \<Rightarrow> float64 \<Rightarrow> float64" where
  "with_sign negative w = (if negative then set_bit 63 w else w)"

section \<open>Operations\<close>

definition float_of_nat :: "nat \<Rightarrow> float64" where
  "float_of_nat n = round64 (n * 2 ^ 1074) 1"

definition signed_units64 :: "float64 \<Rightarrow> int" where
  "signed_units64 w = (if bit w 63 then - int (units64 w) else int (units64 w))"

definition add64 :: "float64 \<Rightarrow> float64 \<Rightarrow> float64" where
  "add64 x y =
     (if nan64 x \<or> nan64 y then quiet_nan64
      else if \<not> finite64 x then (if \<not> finite64 y \<and> x \<noteq> y then quiet_nan64 else x)
      else if \<not> finite64 y then y
      else let s = signed_units64 x + signed_units64 y in
        if s = 0 then with_sign (bit x 63 \<and> bit y 63) 0
        else with_sign (s < 0) (round64 (nat \<bar>s\<bar>) 1))"

definition div64 :: "float64 \<Rightarrow> float64 \<Rightarrow> float64" where
  "div64 x y =
     (let negative = (bit x 63 \<noteq> bit y 63) in
      if nan64 x \<or> nan64 y then quiet_nan64
      else if \<not> finite64 x then (if \<not> finite64 y then quiet_nan64 else with_sign negative inf64)
      else if \<not> finite64 y then with_sign negative 0
      else if units64 y = 0 then (if units64 x = 0 then quiet_nan64 else with_sign negative inf64)
      else with_sign negative (round64 (units64 x * 2 ^ 1074) (units64 y)))"

section \<open>Rounding\<close>

lemma bit_length_range: "0 < n \<Longrightarrow> 2 ^ (bit_length n - 1) \<le> n \<and> n < 2 ^ bit_length n"
proof (induction n rule: bit_length.induct)
  case (1 n)
  show ?case
  proof (cases "n div 2 = 0")
    case True
    then show ?thesis using 1(2) by (simp add: bit_length.simps [of n] bit_length.simps [of 0])
  next
    case False
    then have ih: "2 ^ (bit_length (n div 2) - 1) \<le> n div 2" "n div 2 < 2 ^ bit_length (n div 2)" using 1 by auto
    moreover obtain l where "bit_length (n div 2) = Suc l" using False by (simp add: bit_length.simps [of "n div 2"])
    moreover have "2 * (n div 2) \<le> n" "n < 2 * (n div 2) + 2" by auto
    ultimately have "2 * 2 ^ l \<le> n" "n < 2 * (2 * 2 ^ l)" by auto
    then show ?thesis using 1(2) \<open>bit_length (n div 2) = Suc l\<close> by (simp add: bit_length.simps [of n])
  qed
qed

lemma bit_length_unique:
  assumes "2 ^ l \<le> n" "n < 2 ^ Suc l"
  shows "bit_length n = Suc l"
proof -
  have "0 < n" using assms(1) by (meson less_le_trans zero_less_numeral zero_less_power)
  note r = bit_length_range [OF this]
  have "(2::nat) ^ l < 2 ^ bit_length n" "(2::nat) ^ (bit_length n - 1) < 2 ^ Suc l" using assms r by (meson le_less_trans)+
  then have "l < bit_length n" "bit_length n - 1 < Suc l" by (simp_all only: power_strict_increasing_iff one_less_numeral_iff semiring_norm)
  then show ?thesis by simp
qed

lemma bit_length_small: "n < 2 ^ l \<Longrightarrow> bit_length n \<le> l"
proof (cases "n = 0")
  case False
  assume "n < 2 ^ l"
  then have "(2::nat) ^ (bit_length n - 1) < 2 ^ l" using bit_length_range [of n] False by (meson le_less_trans neq0_conv)
  then have "bit_length n - 1 < l" by (simp only: power_strict_increasing_iff one_less_numeral_iff semiring_norm)
  then show ?thesis by simp
qed (simp add: bit_length.simps)

lemma round_even_exact [simp]: "0 < c \<Longrightarrow> round_even (m * c) c = m"
  by (simp add: round_even_def)

text \<open>Rounding is exact on the numbers there are: the pattern of a finite number is recovered from its units.\<close>

lemma round_units_exact:
  assumes "m < 2 ^ 53" "k = 0 \<or> 2 ^ 52 \<le> m"
  shows "round_units (m * 2 ^ k) 1 = k * 2 ^ 52 + m"
proof -
  have "bit_length (m * 2 ^ k) - 53 = k"
  proof (cases "k = 0")
    case True
    then show ?thesis using bit_length_small [OF assms(1)] by simp
  next
    case False
    then have "bit_length (m * 2 ^ k) = Suc (52 + k)" using assms by (intro bit_length_unique) (auto simp: power_add)
    then show ?thesis by simp
  qed
  then show ?thesis by (simp add: round_units_def)
qed

lemma exponent_field: "unat (take_bit 11 (drop_bit 52 w)) = unat (abs64 w) div 2 ^ 52" for w :: float64
proof -
  have "take_bit 11 (drop_bit 52 w) = drop_bit 52 (abs64 w)" by (simp add: abs64_def drop_bit_take_bit)
  then have "unat (take_bit 11 (drop_bit 52 w)) = drop_bit 52 (unat (abs64 w))" by (simp only: unat_drop_bit_eq)
  then show ?thesis by (simp only: drop_bit_eq_div)
qed

lemma finite64_iff: "finite64 w \<longleftrightarrow> unat (abs64 w) < unat inf64"
proof -
  have "unat (abs64 w) < 2 ^ 63" by (simp only: abs64_def unsigned_take_bit_eq take_bit_nat_less_exp)
  then have "unat (abs64 w) div 2 ^ 52 < 2048" by (simp add: less_mult_imp_div_less)
  moreover have "finite64 w \<longleftrightarrow> unat (abs64 w) div 2 ^ 52 \<noteq> 2047"
    unfolding finite64_def exponent_field [symmetric] word_unat_eq_iff by simp
  moreover have "unat (abs64 w) div 2 ^ 52 < 2047 \<longleftrightarrow> unat (abs64 w) < 2047 * 2 ^ 52" by (simp add: div_less_iff_less_mult)
  moreover have "unat inf64 = 2047 * 2 ^ 52" by (simp add: inf64_def)
  ultimately show ?thesis by linarith
qed

lemma round64_units64:
  assumes "finite64 w"
  shows "round64 (units64 w) 1 = abs64 w"
proof -
  let ?n = "unat (abs64 w)"
  let ?e = "?n div 2 ^ 52" and ?f = "?n mod 2 ^ 52"
  have n: "?e * 2 ^ 52 + ?f = ?n" by (rule div_mult_mod_eq)
  have "round_units (units64 w) 1 = ?n"
  proof (cases "?e = 0")
    case True
    then show ?thesis using round_units_exact [of ?f 0] n by (simp add: units64_def)
  next
    case False
    have "?f < 2 ^ 52" by simp
    then have "round_units ((2 ^ 52 + ?f) * 2 ^ (?e - 1)) 1 = (?e - 1) * 2 ^ 52 + (2 ^ 52 + ?f)"
      by (intro round_units_exact) simp_all
    moreover have "(?e - 1) * 2 ^ 52 + (2 ^ 52 + ?f) = ?e * 2 ^ 52 + ?f" using False by (cases ?e) simp_all
    ultimately show ?thesis using False n by (simp add: units64_def Let_def)
  qed
  moreover have "?n \<le> unat inf64" using assms by (simp add: finite64_iff inf64_def)
  ultimately show ?thesis by (simp add: round64_def min_def)
qed

text \<open>An integer below \<open>2^53\<close> is converted exactly.\<close>

lemma units64_of_pattern:
  assumes "m < 2 ^ 53" "k = 0 \<or> 2 ^ 52 \<le> m" "k * 2 ^ 52 + m < unat inf64"
  shows "units64 (of_nat (k * 2 ^ 52 + m)) = m * 2 ^ k"
proof -
  let ?n = "k * 2 ^ 52 + m"
  have b: "?n < 2 ^ 63" using assms(3) by (simp add: inf64_def)
  have "?n < 2 ^ LENGTH(64)" using b by simp
  then have "unat (of_nat ?n :: float64) = ?n" by (simp only: unat_of_nat mod_less)
  then have n: "unat (abs64 (of_nat ?n)) = ?n"
    by (simp only: abs64_def unsigned_take_bit_eq take_bit_nat_eq_self [OF b])
  show ?thesis
  proof (cases "m < 2 ^ 52")
    case True
    then show ?thesis using assms(2) n by (simp add: units64_def)
  next
    case False
    then have "m div 2 ^ 52 = 1" "m mod 2 ^ 52 = m - 2 ^ 52" using assms(1) by (simp_all add: div_nat_eqI mod_if)
    then have "?n div 2 ^ 52 = Suc k" "?n mod 2 ^ 52 = m - 2 ^ 52" by (simp_all add: div_add1_eq)
    then show ?thesis using n False by (simp add: units64_def)
  qed
qed

section \<open>Numbers that are not negative\<close>

text \<open>The patterns from zero to infinity; division of such numbers gives one of them unless it is indeterminate.\<close>

definition nonneg64 :: "float64 \<Rightarrow> bool" where
  "nonneg64 w \<longleftrightarrow> unat w \<le> unat inf64"

lemma nonneg64_abs: "nonneg64 w \<Longrightarrow> abs64 w = w"
  by (simp add: word_unat_eq_iff nonneg64_def abs64_def inf64_def unsigned_take_bit_eq take_bit_nat_eq_self)

lemma nonneg64_sign: "nonneg64 w \<Longrightarrow> \<not> bit w 63"
  using nonneg64_abs [of w] by (metis abs64_def bit_take_bit_iff less_irrefl)

lemma nonneg64_infinite: "nonneg64 w \<Longrightarrow> \<not> finite64 w \<Longrightarrow> w = inf64"
  by (simp add: word_unat_eq_iff finite64_iff nonneg64_abs) (simp add: nonneg64_def)

lemma nonneg64_number: "nonneg64 w \<Longrightarrow> \<not> nan64 w"
  using nonneg64_infinite [of w] by (cases "finite64 w") (simp_all add: nan64_def inf64_def)

lemma round64_nonneg: "nonneg64 (round64 a b)"
  by (simp add: nonneg64_def round64_def inf64_def unat_of_nat min_def)

lemma nonneg64_simps [simp]: "nonneg64 inf64" "nonneg64 0" "nonneg64 one64"
  by (simp_all add: nonneg64_def inf64_def one64_def)

lemma add64_nonneg:
  assumes "nonneg64 x" "nonneg64 y"
  shows "nonneg64 (add64 x y)"
proof -
  note n = assms [THEN nonneg64_number] assms [THEN nonneg64_sign]
  have inf: "x = y" if "\<not> finite64 x" "\<not> finite64 y" using assms that nonneg64_infinite by blast
  have "0 \<le> signed_units64 x + signed_units64 y" using n by (simp add: signed_units64_def)
  then show ?thesis using assms n inf by (auto simp: add64_def Let_def with_sign_def round64_nonneg)
qed

lemma div64_nonneg:
  assumes "nonneg64 x" "nonneg64 y" "finite64 x" "0 < units64 x"
  shows "nonneg64 (div64 x y)"
  using assms assms(1,2) [THEN nonneg64_number] assms(1,2) [THEN nonneg64_sign]
  by (auto simp: div64_def Let_def with_sign_def round64_nonneg)

lemma add64_zero:
  assumes "nonneg64 x" "finite64 x"
  shows "add64 0 x = x"
proof -
  have z: "finite64 0" "\<not> nan64 0" "\<not> bit (0 :: float64) 63" "units64 0 = 0" by (simp_all add: finite64_def nan64_def units64_def abs64_def)
  have r: "round64 (units64 x) 1 = x" using round64_units64 [OF assms(2)] nonneg64_abs [OF assms(1)] by simp
  have "round64 0 1 = 0" by (simp add: round64_def round_units_def round_even_def bit_length.simps)
  then have "x = 0" if "units64 x = 0" using r that by simp
  moreover have "signed_units64 0 + signed_units64 x = int (units64 x)"
    using z nonneg64_sign [OF assms(1)] by (simp add: signed_units64_def)
  ultimately show ?thesis using z r assms(2) nonneg64_number [OF assms(1)] by (auto simp: add64_def Let_def with_sign_def)
qed

lemma one64_units: "finite64 one64" "units64 one64 = 2 ^ 1074"
  by (simp_all add: finite64_def one64_def units64_def abs64_def)

lemma float_of_nat_units:
  assumes "n < 2 ^ 53"
  shows "units64 (float_of_nat n) = n * 2 ^ 1074"
proof (cases "n = 0")
  case False
  define l where "l = bit_length n"
  have l: "2 ^ (l - 1) \<le> n" "n < 2 ^ l" "l \<le> 53" "0 < l"
    using bit_length_range [of n] bit_length_small [OF assms] False by (auto simp: l_def bit_length.simps [of n])
  define m k where "m = n * 2 ^ (53 - l)" and "k = 1074 - (53 - l)"
  have "m < 2 ^ l * 2 ^ (53 - l)" "2 ^ (l - 1) * 2 ^ (53 - l) \<le> m" using l by (simp_all add: m_def)
  then have m: "m < 2 ^ 53" "2 ^ 52 \<le> m" using l(3,4) by (simp_all add: power_add [symmetric])
  have mk: "n * 2 ^ 1074 = m * 2 ^ k" by (simp add: m_def k_def power_add [symmetric] mult.assoc)
  have k: "k * 2 ^ 52 + m < unat inf64" using m(1) by (simp add: inf64_def k_def)
  then have "float_of_nat n = of_nat (k * 2 ^ 52 + m)"
    unfolding float_of_nat_def round64_def mk using m round_units_exact [of m k] by (simp add: min_def)
  then show ?thesis unfolding mk using units64_of_pattern [OF m(1) _ k] m(2) by simp
qed (simp add: float_of_nat_def round64_def round_units_def bit_length.simps round_even_def units64_def abs64_def)

text \<open>The first score of the fusion, \<open>1/61\<close>, on its pattern.\<close>

lemma round_even_cancel: "0 < c \<Longrightarrow> round_even (a * c) (b * c) = round_even a b"
  by (simp add: round_even_def mult_mod_left [symmetric] Let_def mult.assoc [symmetric])

lemma round_units_cancel: "0 < c \<Longrightarrow> round_units (a * c) (b * c) = round_units a b"
  using round_even_cancel [of c a "b * 2 ^ (bit_length (a div b) - 53)"] by (simp add: round_units_def Let_def ac_simps)

lemma float_of_61: "float_of_nat 61 = 0x404E800000000000"
proof -
  have "(61 :: nat) * 2 ^ 1074 = (61 * 2 ^ 47) * 2 ^ 1027" by simp
  then have "round_units (61 * 2 ^ 1074) 1 = 1027 * 2 ^ 52 + 61 * 2 ^ 47"
    using round_units_exact [of "61 * 2 ^ 47" 1027] by (simp only:) simp
  then show ?thesis unfolding float_of_nat_def round64_def by (simp only:) (simp add: inf64_def)
qed

lemma first_reciprocal: "div64 one64 (float_of_nat 61) = 0x3F90C9714FBCDA3B"
proof -
  define u :: nat where "u = 2 ^ 1074"
  have u: "u = 2 ^ 58 * 2 ^ 1016" "0 < u" "u = 2 ^ 6 * 2 ^ 1068" by (simp_all add: u_def)
  have "2 ^ 1068 * 61 \<le> u" "u < 2 ^ Suc 1068 * 61" by (simp_all add: u_def)
  then have "2 ^ 1068 \<le> u div 61" "u div 61 < 2 ^ Suc 1068"
    by (simp_all only: less_eq_div_iff_mult_less_eq div_less_iff_less_mult zero_less_numeral)
  then have "bit_length (u div 61) = Suc 1068" by (rule bit_length_unique)
  then have "bit_length (u div 61) - 53 = 1016" by simp
  then have "round_units u 61 = 1016 * 2 ^ 52 + round_even u (61 * 2 ^ 1016)" unfolding round_units_def Let_def by (simp only:)
  then have "round_units u 61 = 1016 * 2 ^ 52 + round_even (2 ^ 58 * 2 ^ 1016) (61 * 2 ^ 1016)" by (simp only: u(1) [symmetric])
  then have "round_units (u * u) (61 * u) = 1016 * 2 ^ 52 + round_even (2 ^ 58) 61"
    by (simp only: round_units_cancel [OF u(2)] round_even_cancel zero_less_power zero_less_numeral)
  then have r: "round64 (u * u) (61 * u) = 0x3F90C9714FBCDA3B" by (simp add: round64_def inf64_def round_even_def)
  have n: "units64 (float_of_nat 61) = 61 * u" "units64 one64 = u" using float_of_nat_units [of 61] one64_units(2) by (simp_all add: u_def)
  have "finite64 (float_of_nat 61)" "\<not> bit (float_of_nat 61) 63" "\<not> bit one64 63"
    by (simp_all add: float_of_61 finite64_def one64_def bit_iff_odd)
  then have "div64 one64 (float_of_nat 61) = round64 (u * 2 ^ 1074) (61 * u)"
    using u(2) by (simp add: div64_def Let_def nan64_def one64_units(1) with_sign_def n)
  then show ?thesis using r unfolding u_def [symmetric] by (simp only:)
qed

end
