(* ===== verification/Search_Ranking.thy ===== *)
theory Search_Ranking
  imports Binary64 Context_Pack "HOL-Library.Product_Lexorder"
begin

text \<open>
  The pure part of Memory search (\<open>artifact/memory/search.go\<close>, \<open>reranking.go\<close>): analysis of texts into terms,
  admission of channel hits, fusion of the full-text and the vector ranking by reciprocal ranks, and
  the selection of a reranking model. The NFC and case folding of \<open>golang.org/x/text\<close> and the letter and
  number tables of \<open>unicode\<close> are a parameter. Scores are the bit patterns of \<open>float64\<close>, added and divided by the
  operations of \<open>Binary64\<close>; the similarity of two vectors, which a compiler may fuse, uses the \<open>float_ops\<close> of the
  Memory service.
\<close>

section \<open>Comparing floats\<close>

text \<open>Sign and magnitude as one integer: the order of the numbers, with both zeros at 0.\<close>

definition order64 :: "float64 \<Rightarrow> int" where
  "order64 w = (if bit w 63 then - uint (abs64 w) else uint (abs64 w))"

definition less64 :: "float64 \<Rightarrow> float64 \<Rightarrow> bool" where
  "less64 a b \<longleftrightarrow> \<not> nan64 a \<and> \<not> nan64 b \<and> order64 a < order64 b"

definition two64 :: float64 where
  "two64 = 0x4000000000000000"

definition min_semantic_similarity :: float64 where
  "min_semantic_similarity = 0x3FD3333333333333"

definition negate64 :: "float64 \<Rightarrow> float64" where
  "negate64 w = flip_bit 63 w"

definition min64 :: "float64 \<Rightarrow> float64 \<Rightarrow> float64" where
  "min64 a b = (if nan64 a then a else if nan64 b then b else if less64 b a then b else a)"

definition max64 :: "float64 \<Rightarrow> float64 \<Rightarrow> float64" where
  "max64 a b = (if nan64 a then a else if nan64 b then b else if less64 a b then b else a)"

section \<open>Analysing texts\<close>

record text_env =
  te_nfc :: "string \<Rightarrow> string"
  te_fold :: "string \<Rightarrow> string"
  te_letter :: "nat \<Rightarrow> bool"
  te_number :: "nat \<Rightarrow> bool"

definition is_cjk :: "nat \<Rightarrow> bool" where
  "is_cjk c \<longleftrightarrow> 0x3400 \<le> c \<and> c \<le> 0x4DBF \<or> 0x4E00 \<le> c \<and> c \<le> 0x9FFF
     \<or> 0xF900 \<le> c \<and> c \<le> 0xFAFF \<or> 0x20000 \<le> c \<and> c \<le> 0x2FA1F"

definition encode_rune :: "nat \<Rightarrow> string" where
  "encode_rune r = map char_of (
     if r < 128 then [r]
     else if r < 2048 then [192 + r div 64, 128 + r mod 64]
     else if r < 65536 then [224 + r div 4096, 128 + r div 64 mod 64, 128 + r mod 64]
     else [240 + r div 262144, 128 + r div 4096 mod 64, 128 + r div 64 mod 64, 128 + r mod 64])"

fun show_hex :: "nat \<Rightarrow> string" where
  "show_hex n = (if n < 16 then [hex_digit n] else show_hex (n div 16) @ [hex_digit (n mod 16)])"

declare show_hex.simps [simp del]

definition flush_word :: "string list \<Rightarrow> nat list \<Rightarrow> string list" where
  "flush_word terms word = (if word = [] then terms else terms @ [concat (map encode_rune word)])"

definition flush_cjk :: "string list \<Rightarrow> nat list \<Rightarrow> string list" where
  "flush_cjk terms cjk = terms @ map (\<lambda>c. ''u_'' @ show_hex c) cjk
     @ map (\<lambda>(a, b). ''b_'' @ show_hex a @ ''_'' @ show_hex b) (zip cjk (tl cjk))"

fun analyze_loop :: "text_env \<Rightarrow> nat list \<Rightarrow> string list \<Rightarrow> nat list \<Rightarrow> nat list \<Rightarrow> string list" where
  "analyze_loop env [] terms word cjk = flush_cjk (flush_word terms word) cjk"
| "analyze_loop env (c # cs) terms word cjk =
     (if is_cjk c then analyze_loop env cs (flush_word terms word) [] (cjk @ [c])
      else if te_letter env c \<or> te_number env c \<or> c = 95 then analyze_loop env cs (flush_cjk terms cjk) (word @ [c]) []
      else analyze_loop env cs (flush_cjk (flush_word terms word) cjk) [] [])"

fun join_with :: "string \<Rightarrow> string list \<Rightarrow> string" where
  "join_with sep [] = []"
| "join_with sep [x] = x"
| "join_with sep (x # y # ys) = x @ sep @ join_with sep (y # ys)"

definition analyze_text :: "text_env \<Rightarrow> string \<Rightarrow> string" where
  "analyze_text env value = join_with '' '' (analyze_loop env (runes (te_fold env (te_nfc env value))) [] [] [])"

text \<open>\<open>strings.Fields\<close>: the words between runs of space.\<close>

function split_fields :: "string \<Rightarrow> string \<Rightarrow> string list" where
  "split_fields word [] = (if word = [] then [] else [word])"
| "split_fields word (c # cs) =
     (if is_space (fst (decode_rune (c # cs)))
      then (if word = [] then [] else [word]) @ split_fields [] (drop (snd (decode_rune (c # cs))) (c # cs))
      else split_fields (word @ take (snd (decode_rune (c # cs))) (c # cs)) (drop (snd (decode_rune (c # cs))) (c # cs)))"
  by pat_completeness auto
termination
  by (relation "measure (\<lambda>(word, s). length s)") auto

declare split_fields.simps(2) [simp del]

definition string_fields :: "string \<Rightarrow> string list" where
  "string_fields s = split_fields [] s"

definition quote_term :: "string \<Rightarrow> string" where
  "quote_term t = dquote # concat (map (\<lambda>c. if c = dquote then [dquote, dquote] else [c]) t) @ [dquote]"

definition fts_match_query :: "text_env \<Rightarrow> string \<Rightarrow> string option" where
  "fts_match_query env value =
     (let analyzed = analyze_text env value in
      if analyzed = [] then None else Some (join_with '' OR '' (map quote_term (string_fields analyzed))))"

definition term_set :: "string \<Rightarrow> string list" where
  "term_set value = first_by id [] (string_fields value)"

text \<open>The product of a term count with 0.25 is exact, so rounding it up is the ceiling of a quarter.\<close>

definition admits_fts_text :: "text_env \<Rightarrow> string \<Rightarrow> string \<Rightarrow> bool" where
  "admits_fts_text env query txt_value =
     (let query_terms = term_set (analyze_text env query);
          required = (if length query_terms > 2 then max 2 ((length query_terms + 3) div 4) else 1);
          text_terms = term_set (analyze_text env txt_value) in
      query_terms \<noteq> [] \<and> required \<le> length (filter (\<lambda>t. t \<in> set text_terms) query_terms))"

section \<open>Channels\<close>

datatype matched_by = MatchedFTS | MatchedVector

record channel_hit =
  hc_memory :: artifact_ref
  hc_entry :: string
  hc_version :: string
  hc_text :: string
  hc_distance :: "float64 option"

record search_hit = memory_hit +
  mh_score :: float64
  mh_matched :: "matched_by list"

definition admit_fts_candidates :: "text_env \<Rightarrow> string \<Rightarrow> channel_hit list \<Rightarrow> channel_hit list" where
  "admit_fts_candidates env query candidates = filter (\<lambda>c. admits_fts_text env query (hc_text c)) candidates"

definition unit_l2_cosine_similarity :: "float_ops \<Rightarrow> float64 \<Rightarrow> float64" where
  "unit_l2_cosine_similarity fo d =
     max64 (negate64 one64) (min64 one64 (fo_add fo one64 (negate64 (fo_div fo (fo_mul fo d d) two64))))"

definition admit_vector_candidates :: "float_ops \<Rightarrow> channel_hit list \<Rightarrow> channel_hit list" where
  "admit_vector_candidates fo candidates = filter (\<lambda>c. case hc_distance c of
     None \<Rightarrow> False
   | Some d \<Rightarrow> (let s = unit_l2_cosine_similarity fo d in
       \<not> nan64 s \<and> order64 min_semantic_similarity \<le> order64 s)) candidates"

section \<open>Fusing the rankings\<close>

record hit_identity =
  hi_artifact :: string
  hi_revision :: int
  hi_entry :: string
  hi_version :: string

definition hit_identity_of :: "channel_hit \<Rightarrow> hit_identity" where
  "hit_identity_of h = \<lparr>hi_artifact = ar_id (hc_memory h), hi_revision = ar_revision (hc_memory h),
     hi_entry = hc_entry h, hi_version = hc_version h\<rparr>"

definition rrf_constant :: nat where
  "rrf_constant = 60"

definition reciprocal_rank :: "nat \<Rightarrow> float64" where
  "reciprocal_rank index = div64 one64 (float_of_nat (rrf_constant + index + 1))"

record fuse_state =
  fz_candidates :: "(hit_identity, channel_hit) gomap"
  fz_scores :: "(hit_identity, float64) gomap"
  fz_channels :: "(hit_identity, matched_by list) gomap"

definition score_at :: "(hit_identity, float64) gomap \<Rightarrow> hit_identity \<Rightarrow> float64" where
  "score_at scores k = (case gm_get scores k of None \<Rightarrow> 0 | Some x \<Rightarrow> x)"

definition channels_at :: "(hit_identity, matched_by list) gomap \<Rightarrow> hit_identity \<Rightarrow> matched_by list" where
  "channels_at channels k = (case gm_get channels k of None \<Rightarrow> [] | Some x \<Rightarrow> x)"

definition fuse_hit :: "matched_by \<Rightarrow> nat \<Rightarrow> channel_hit \<Rightarrow> fuse_state \<Rightarrow> fuse_state" where
  "fuse_hit channel index h st =
     (let k = hit_identity_of h in
      \<lparr>fz_candidates = (if gm_get (fz_candidates st) k = None then gm_set k h (fz_candidates st) else fz_candidates st),
       fz_scores = gm_set k (add64 (score_at (fz_scores st) k) (reciprocal_rank index)) (fz_scores st),
       fz_channels = gm_set k (channel # channels_at (fz_channels st) k) (fz_channels st)\<rparr>)"

fun fuse_channel :: "matched_by \<Rightarrow> nat \<Rightarrow> hit_identity list \<Rightarrow> channel_hit list \<Rightarrow> fuse_state \<Rightarrow> fuse_state" where
  "fuse_channel channel index seen [] st = st"
| "fuse_channel channel index seen (h # hs) st =
     (if hit_identity_of h \<in> set seen then fuse_channel channel (Suc index) seen hs st
      else fuse_channel channel (Suc index) (hit_identity_of h # seen) hs (fuse_hit channel index h st))"

definition compare_strings :: "string \<Rightarrow> string \<Rightarrow> int" where
  "compare_strings l r = (if l < r then -1 else if r < l then 1 else 0)"

definition compare_identities :: "(hit_identity \<Rightarrow> float64) \<Rightarrow> hit_identity \<Rightarrow> hit_identity \<Rightarrow> int" where
  "compare_identities score l r =
     (if less64 (score r) (score l) then -1
      else if less64 (score l) (score r) then 1
      else if compare_strings (hi_artifact l) (hi_artifact r) \<noteq> 0 then compare_strings (hi_artifact l) (hi_artifact r)
      else if compare_strings (hi_entry l) (hi_entry r) \<noteq> 0 then compare_strings (hi_entry l) (hi_entry r)
      else compare_strings (hi_version l) (hi_version r))"

text \<open>\<open>slices.SortFunc\<close> by a comparison function.\<close>

fun insert_func :: "('a \<Rightarrow> 'a \<Rightarrow> int) \<Rightarrow> 'a \<Rightarrow> 'a list \<Rightarrow> 'a list" where
  "insert_func cmp x [] = [x]"
| "insert_func cmp x (y # ys) = (if cmp x y \<le> 0 then x # y # ys else y # insert_func cmp x ys)"

definition sort_func :: "('a \<Rightarrow> 'a \<Rightarrow> int) \<Rightarrow> 'a list \<Rightarrow> 'a list" where
  "sort_func cmp xs = foldr (insert_func cmp) xs []"

definition fused_state :: "channel_hit list \<Rightarrow> channel_hit list \<Rightarrow> fuse_state" where
  "fused_state fts vector = fuse_channel MatchedVector 0 [] vector
     (fuse_channel MatchedFTS 0 [] fts \<lparr>fz_candidates = [], fz_scores = [], fz_channels = []\<rparr>)"

definition fused_hit :: "fuse_state \<Rightarrow> hit_identity \<Rightarrow> search_hit" where
  "fused_hit st k = (let h = the (gm_get (fz_candidates st) k) in
     \<lparr>mh_memory_ref = hc_memory h, mh_entry_id = hc_entry h, mh_entry_version_id = hc_version h, mh_text = hc_text h,
      mh_score = score_at (fz_scores st) k,
      mh_matched = filter (\<lambda>c. c \<in> set (channels_at (fz_channels st) k)) [MatchedFTS, MatchedVector]\<rparr>)"

text \<open>The order in which Go ranges over the candidates, and in which an unstable sort leaves equal ones, is
  the argument \<open>order\<close>.\<close>

definition fuse_rankings ::
  "(hit_identity list \<Rightarrow> hit_identity list) \<Rightarrow> channel_hit list \<Rightarrow> channel_hit list \<Rightarrow> int \<Rightarrow> memory_error + search_hit list" where
  "fuse_rankings order fts vector limit =
     (if limit < 1 then Inl (MemoryFault ''memory search limit must be positive'')
      else
        let st = fused_state fts vector;
            identities = sort_func (compare_identities (score_at (fz_scores st))) (order (map fst (fz_candidates st))) in
        Inr (map (fused_hit st) (if int (length identities) > limit then take (nat limit) identities else identities)))"

section \<open>Reranking\<close>

record rerank_input =
  ri_query :: string
  ri_max :: int
  ri_candidates :: "(int \<times> string) list"

record rerank_decision =
  rd_ranks :: "int list"
  rd_discarded :: int
  rd_fallback :: bool

fun normalize_ranks_loop :: "int \<Rightarrow> int \<Rightarrow> int list \<Rightarrow> int list \<Rightarrow> int \<Rightarrow> int list \<times> int" where
  "normalize_ranks_loop pool limit [] selected discarded = (selected, discarded)"
| "normalize_ranks_loop pool limit (rank # ranks) selected discarded =
     (if rank < 1 \<or> rank > pool \<or> rank \<in> set selected then normalize_ranks_loop pool limit ranks selected (discarded + 1)
      else if int (length (selected @ [rank])) = limit then (selected @ [rank], discarded)
      else normalize_ranks_loop pool limit ranks (selected @ [rank]) discarded)"

definition normalize_ranks :: "int list \<Rightarrow> int \<Rightarrow> int \<Rightarrow> int list \<times> int" where
  "normalize_ranks chosen pool limit = normalize_ranks_loop pool limit chosen [] 0"

definition rerank_input_of :: "string \<Rightarrow> search_hit list \<Rightarrow> int \<Rightarrow> rerank_input" where
  "rerank_input_of query candidates limit = \<lparr>ri_query = query, ri_max = limit, ri_candidates = map (\<lambda>(i, h). (int i + 1, mh_text h)) (enumerate 0 candidates)\<rparr>"

definition llm_rerank ::
  "(rerank_input \<Rightarrow> memory_error + int list) \<Rightarrow> string \<Rightarrow> search_hit list \<Rightarrow> int \<Rightarrow> memory_error + rerank_decision" where
  "llm_rerank generate query candidates limit =
     and_then (check (candidates \<noteq> []) (MemoryFault ''rerank requires at least one candidate'')) (\<lambda>_.
     and_then (check (1 \<le> limit \<and> limit \<le> int (length candidates))
       (MemoryFault ''rerank limit must be between one and the candidate count'')) (\<lambda>_.
     and_then (check (query \<noteq> []) (MemoryFault ''rerank query must not be empty'')) (\<lambda>_.
     and_then (map_res (\<lambda>h. check (mh_text h \<noteq> []) (MemoryFault ''rerank candidate text must not be empty'')) candidates) (\<lambda>_.
     and_then (generate (rerank_input_of query candidates limit)) (\<lambda>answer.
     let (selected, discarded) = normalize_ranks answer (int (length candidates)) limit in
     Inr (if selected = []
       then \<lparr>rd_ranks = map (\<lambda>i. int i + 1) [0..<nat limit], rd_discarded = discarded, rd_fallback = True\<rparr>
       else \<lparr>rd_ranks = selected, rd_discarded = discarded, rd_fallback = False\<rparr>))))))"

section \<open>What the fusion computes\<close>

fun first_at :: "'k \<Rightarrow> 'k list \<Rightarrow> nat option" where
  "first_at k [] = None"
| "first_at k (x # xs) = (if x = k then Some 0 else map_option Suc (first_at k xs))"

text \<open>The reference: a hit is scored by its first rank in each channel, full text first.\<close>

definition rrf_score :: "channel_hit list \<Rightarrow> channel_hit list \<Rightarrow> hit_identity \<Rightarrow> float64" where
  "rrf_score fts vector k = (let
     rank = (\<lambda>hs s. case first_at k (map hit_identity_of hs) of None \<Rightarrow> s | Some i \<Rightarrow> add64 s (reciprocal_rank i)) in
     rank vector (rank fts 0))"

definition rank_key :: "(hit_identity \<Rightarrow> float64) \<Rightarrow> hit_identity \<Rightarrow> int \<times> string \<times> string \<times> string" where
  "rank_key score k = (- order64 (score k), hi_artifact k, hi_entry k, hi_version k)"

definition hit_key :: "search_hit \<Rightarrow> hit_identity" where
  "hit_key h = \<lparr>hi_artifact = ar_id (mh_memory_ref h), hi_revision = ar_revision (mh_memory_ref h),
     hi_entry = mh_entry_id h, hi_version = mh_entry_version_id h\<rparr>"

definition fused_from :: "channel_hit list \<Rightarrow> channel_hit list \<Rightarrow> search_hit \<Rightarrow> bool" where
  "fused_from fts vector h \<longleftrightarrow>
     (\<exists>c. find (\<lambda>c. hit_identity_of c = hit_key h) (fts @ vector) = Some c \<and> mh_memory_ref h = hc_memory c \<and> mh_text h = hc_text c)
     \<and> mh_score h = rrf_score fts vector (hit_key h)
     \<and> mh_matched h = (if hit_key h \<in> hit_identity_of ` set fts then [MatchedFTS] else [])
         @ (if hit_key h \<in> hit_identity_of ` set vector then [MatchedVector] else [])"

text \<open>Scores are numbers.\<close>

lemma reciprocal_rank_nonneg: "nonneg64 (reciprocal_rank index)"
  unfolding reciprocal_rank_def float_of_nat_def by (rule div64_nonneg) (simp_all add: round64_nonneg one64_units)

lemma rrf_number: "\<not> nan64 (rrf_score fts vector k)"
  by (rule nonneg64_number) (auto simp: rrf_score_def add64_nonneg reciprocal_rank_nonneg split: option.splits)

lemma first_at_None: "first_at k ks = None \<longleftrightarrow> k \<notin> set ks"
  by (induction ks) auto

lemma fuse_candidates:
  "gm_get (fz_candidates (fuse_channel ch i seen hs st)) k = (case gm_get (fz_candidates st) k of
     Some c \<Rightarrow> Some c | None \<Rightarrow> if k \<in> set seen then None else find (\<lambda>c. hit_identity_of c = k) hs)"
proof (induction hs arbitrary: i seen st)
  case (Cons h hs)
  then show ?case by (auto simp: fuse_hit_def Let_def gomap_simps split: option.splits)
qed (auto split: option.splits)

lemma fuse_scores:
  "gm_get (fz_scores (fuse_channel ch i seen hs st)) k = (if k \<in> set seen then gm_get (fz_scores st) k
     else case first_at k (map hit_identity_of hs) of
       None \<Rightarrow> gm_get (fz_scores st) k
     | Some j \<Rightarrow> Some (add64 (score_at (fz_scores st) k) (reciprocal_rank (i + j))))"
proof (induction hs arbitrary: i seen st)
  case (Cons h hs)
  then show ?case by (auto simp: fuse_hit_def Let_def gomap_simps score_at_def split: option.splits)
qed auto

lemma fuse_channels:
  "channels_at (fz_channels (fuse_channel ch i seen hs st)) k
     = (if k \<in> hit_identity_of ` set hs \<and> k \<notin> set seen then [ch] else []) @ channels_at (fz_channels st) k"
proof (induction hs arbitrary: i seen st)
  case (Cons h hs)
  then show ?case by (auto simp: fuse_hit_def Let_def gomap_simps channels_at_def split: option.splits)
qed auto

lemma fuse_wf: "gm_wf (fz_candidates st) \<Longrightarrow> gm_wf (fz_candidates (fuse_channel ch i seen hs st))"
proof (induction hs arbitrary: i seen st)
  case (Cons h hs)
  then show ?case by (auto simp: fuse_hit_def Let_def gomap_simps)
qed simp

lemma fused_state_facts:
  "gm_get (fz_candidates (fused_state fts vector)) k = find (\<lambda>c. hit_identity_of c = k) (fts @ vector)"
  "score_at (fz_scores (fused_state fts vector)) = rrf_score fts vector"
  "set (channels_at (fz_channels (fused_state fts vector)) k)
     = (if k \<in> hit_identity_of ` set fts then {MatchedFTS} else {}) \<union> (if k \<in> hit_identity_of ` set vector then {MatchedVector} else {})"
  "distinct (map fst (fz_candidates (fused_state fts vector)))"
proof -
  show "gm_get (fz_candidates (fused_state fts vector)) k = find (\<lambda>c. hit_identity_of c = k) (fts @ vector)"
    by (auto simp: fused_state_def fuse_candidates find_append split: option.splits)
  show "score_at (fz_scores (fused_state fts vector)) = rrf_score fts vector"
    by (auto simp: fun_eq_iff fused_state_def score_at_def fuse_scores rrf_score_def split: option.splits)
  show "set (channels_at (fz_channels (fused_state fts vector)) k)
     = (if k \<in> hit_identity_of ` set fts then {MatchedFTS} else {}) \<union> (if k \<in> hit_identity_of ` set vector then {MatchedVector} else {})"
    by (auto simp: fused_state_def fuse_channels channels_at_def [of "[]"])
  have "gm_wf (fz_candidates (fused_state fts vector))" unfolding fused_state_def by (intro fuse_wf) simp
  then show "distinct (map fst (fz_candidates (fused_state fts vector)))" by (simp add: gm_wf_def)
qed

lemma fused_identities: "fst ` set (fz_candidates (fused_state fts vector)) = hit_identity_of ` (set fts \<union> set vector)"
proof -
  have "k \<in> fst ` set (fz_candidates (fused_state fts vector)) \<longleftrightarrow> k \<in> hit_identity_of ` (set fts \<union> set vector)" for k
  proof -
    have "k \<notin> fst ` set (fz_candidates (fused_state fts vector)) \<longleftrightarrow> find (\<lambda>c. hit_identity_of c = k) (fts @ vector) = None"
      unfolding gm_dom [symmetric] fused_state_facts(1) ..
    then show ?thesis by (auto simp: find_None_iff)
  qed
  then show ?thesis by blast
qed

lemma fused_hit_from:
  assumes "k \<in> hit_identity_of ` (set fts \<union> set vector)"
  shows "hit_key (fused_hit (fused_state fts vector) k) = k" "fused_from fts vector (fused_hit (fused_state fts vector) k)"
proof -
  obtain c where c: "find (\<lambda>c. hit_identity_of c = k) (fts @ vector) = Some c" "hit_identity_of c = k"
    using assms by (cases "find (\<lambda>c. hit_identity_of c = k) (fts @ vector)") (auto simp: find_None_iff find_Some_iff)
  have h: "fused_hit (fused_state fts vector) k = \<lparr>mh_memory_ref = hc_memory c, mh_entry_id = hc_entry c,
      mh_entry_version_id = hc_version c, mh_text = hc_text c, mh_score = rrf_score fts vector k,
      mh_matched = (if k \<in> hit_identity_of ` set fts then [MatchedFTS] else []) @ (if k \<in> hit_identity_of ` set vector then [MatchedVector] else [])\<rparr>"
    by (auto simp: fused_hit_def fused_state_facts c(1))
  then show key: "hit_key (fused_hit (fused_state fts vector) k) = k" using c(2) by (auto simp: hit_key_def hit_identity_of_def)
  show "fused_from fts vector (fused_hit (fused_state fts vector) k)" unfolding fused_from_def key using c(1) by (simp add: h)
qed

lemma insert_func_key:
  assumes "\<And>y. y \<in> set ys \<Longrightarrow> cmp x y \<le> 0 \<longleftrightarrow> f x \<le> f y"
  shows "insert_func cmp x ys = insort_key f x ys"
  using assms by (induction ys) auto

lemma sort_func_key:
  assumes "\<And>x y. x \<in> set xs \<Longrightarrow> y \<in> set xs \<Longrightarrow> cmp x y \<le> 0 \<longleftrightarrow> f x \<le> f y"
  shows "sort_func cmp xs = sort_key f xs"
  using assms
proof (induction xs)
  case (Cons x xs)
  then have "sort_func cmp xs = sort_key f xs" by simp
  then show ?case using insert_func_key [of "sort_key f xs" cmp x f] Cons.prems by (simp add: sort_func_def)
qed (simp add: sort_func_def)

lemma compare_rank_key:
  assumes "\<not> nan64 (score l)" "\<not> nan64 (score r)"
  shows "compare_identities score l r \<le> 0 \<longleftrightarrow> rank_key score l \<le> rank_key score r"
  using assms by (auto simp: compare_identities_def compare_strings_def rank_key_def less64_def)

text \<open>C24: fusing the two rankings of a Memory search gives, whatever order Go's map iteration takes, the best
  \<open>limit\<close> of all hits of both channels, each entry version once: every returned hit carries the score of
  reciprocal rank fusion computed in \<open>float64\<close> from its first rank in each channel, the channels that found it and the
  text of its first occurrence, the hits are ordered by descending score and then by identifiers, and no
  hit that was left out ranks before one that was returned.\<close>

theorem fuse_rankings_exact:
  assumes "1 \<le> limit" "\<And>ks. mset (order ks) = mset ks"
  shows "\<exists>hits. fuse_rankings order fts vector limit = Inr hits
    \<and> distinct (map hit_key hits) \<and> length hits = min (nat limit) (card (hit_identity_of ` (set fts \<union> set vector)))
    \<and> list_all (fused_from fts vector) hits
    \<and> sorted (map (rank_key (rrf_score fts vector) \<circ> hit_key) hits)
    \<and> (\<forall>h \<in> set hits. \<forall>c \<in> set fts \<union> set vector. hit_identity_of c \<notin> hit_key ` set hits \<longrightarrow>
         rank_key (rrf_score fts vector) (hit_key h) \<le> rank_key (rrf_score fts vector) (hit_identity_of c))"
proof -
  let ?st = "fused_state fts vector" and ?key = "rank_key (rrf_score fts vector)" and ?all = "hit_identity_of ` (set fts \<union> set vector)"
  let ?ids = "sort_key ?key (order (map fst (fz_candidates ?st)))"
  let ?hits = "map (fused_hit ?st) (take (nat limit) ?ids)"
  have m: "mset ?ids = mset (map fst (fz_candidates ?st))" using assms(2) by simp
  have ids: "set ?ids = ?all" using mset_eq_setD [OF m] by (simp add: fused_identities)
  have dist: "distinct ?ids" using m fused_state_facts(4) mset_eq_imp_distinct_iff by blast
  have card: "length ?ids = card ?all" using distinct_card [OF dist] ids by simp
  have "set (order (map fst (fz_candidates ?st))) = ?all" using ids by simp
  then have "sort_func (compare_identities (rrf_score fts vector)) (order (map fst (fz_candidates ?st))) = ?ids"
    by (intro sort_func_key compare_rank_key rrf_number)
  then have "fuse_rankings order fts vector limit = Inr ?hits"
    using assms(1) by (auto simp: fuse_rankings_def fused_state_facts(2) Let_def)
  moreover have keys: "map hit_key ?hits = take (nat limit) ?ids"
    unfolding map_map using fused_hit_from(1) [of _ fts vector] ids by (intro map_idI) (metis comp_apply in_set_takeD)
  then have kset: "hit_key ` set ?hits = set (take (nat limit) ?ids)" by (metis set_map)
  have "distinct (map hit_key ?hits)" unfolding keys using dist by (rule distinct_take)
  moreover have "length ?hits = min (nat limit) (card ?all)" using card by simp
  moreover have "list_all (fused_from fts vector) ?hits"
    using fused_hit_from(2) [of _ fts vector] ids by (auto simp: list_all_iff dest!: in_set_takeD)
  moreover have srt: "sorted (map ?key ?ids)" by simp
  then have "sorted (map (?key \<circ> hit_key) ?hits)"
    unfolding map_map [symmetric] keys by (simp add: sorted_wrt_take flip: take_map)
  moreover have "?key (hit_key h) \<le> ?key (hit_identity_of c)"
    if h: "h \<in> set ?hits" and c: "c \<in> set fts \<union> set vector" "hit_identity_of c \<notin> hit_key ` set ?hits" for h c
  proof -
    have "hit_key h \<in> set (take (nat limit) ?ids)" using h kset by blast
    moreover have "hit_identity_of c \<in> set (drop (nat limit) ?ids)"
      using c ids kset set_append [of "take (nat limit) ?ids" "drop (nat limit) ?ids"] by (metis UnE append_take_drop_id imageI)
    moreover have "sorted (map ?key (take (nat limit) ?ids) @ map ?key (drop (nat limit) ?ids))"
      using srt by (simp flip: map_append)
    ultimately show ?thesis by (auto simp: sorted_append)
  qed
  ultimately show ?thesis by blast
qed

section \<open>What the reranking selects\<close>

lemma normalize_ranks_facts:
  assumes "normalize_ranks_loop pool limit ranks selected d = (ranks', d')" "distinct selected" "set selected \<subseteq> {1..pool}"
    and "int (length selected) < limit"
  shows "distinct ranks' \<and> set ranks' \<subseteq> {1..pool} \<and> int (length ranks') \<le> limit
    \<and> (ranks' = [] \<longleftrightarrow> selected = [] \<and> (\<forall>r \<in> set ranks. r \<notin> {1..pool}))"
  using assms
proof (induction pool limit ranks selected d rule: normalize_ranks_loop.induct)
  case (2 pool limit rank ranks selected d)
  show ?case
  proof (cases "rank < 1 \<or> rank > pool \<or> rank \<in> set selected")
    case True
    then have "distinct ranks' \<and> set ranks' \<subseteq> {1..pool} \<and> int (length ranks') \<le> limit
        \<and> (ranks' = [] \<longleftrightarrow> selected = [] \<and> (\<forall>r \<in> set ranks. r \<notin> {1..pool}))" using "2.IH"(1) "2.prems" by simp
    then show ?thesis using True by auto
  next
    case fresh: False
    show ?thesis
    proof (cases "int (length (selected @ [rank])) = limit")
      case True
      then show ?thesis using fresh "2.prems" by (auto simp: subset_iff)
    next
      case False
      have "distinct (selected @ [rank])" "set (selected @ [rank]) \<subseteq> {1..pool}" "int (length (selected @ [rank])) < limit"
        using fresh "2.prems"(2-4) False by auto
      then show ?thesis using "2.IH"(2) [OF fresh False] "2.prems"(1) fresh False by auto
    qed
  qed
qed auto

lemma llm_rerank_facts:
  assumes "llm_rerank generate query hits limit = Inr d"
  shows "distinct (rd_ranks d) \<and> set (rd_ranks d) \<subseteq> {1..int (length hits)} \<and> rd_ranks d \<noteq> [] \<and> int (length (rd_ranks d)) \<le> limit
    \<and> (\<exists>answer. generate (rerank_input_of query hits limit) = Inr answer
        \<and> (rd_fallback d \<longleftrightarrow> (\<forall>r \<in> set answer. r \<notin> {1..int (length hits)}))
        \<and> (rd_fallback d \<longrightarrow> rd_ranks d = map (\<lambda>i. int i + 1) [0..<nat limit]))"
proof -
  obtain answer where o: "1 \<le> limit" "limit \<le> int (length hits)" "generate (rerank_input_of query hits limit) = Inr answer"
      "d = (let (selected, discarded) = normalize_ranks answer (int (length hits)) limit in
        if selected = [] then \<lparr>rd_ranks = map (\<lambda>i. int i + 1) [0..<nat limit], rd_discarded = discarded, rd_fallback = True\<rparr>
        else \<lparr>rd_ranks = selected, rd_discarded = discarded, rd_fallback = False\<rparr>)"
    using assms by (auto simp: llm_rerank_def and_then_eq_Inr check_eq_Inr Let_def case_prod_beta)
  obtain selected discarded where s: "normalize_ranks answer (int (length hits)) limit = (selected, discarded)" by fastforce
  have f: "distinct selected \<and> set selected \<subseteq> {1..int (length hits)} \<and> int (length selected) \<le> limit
      \<and> (selected = [] \<longleftrightarrow> (\<forall>r \<in> set answer. r \<notin> {1..int (length hits)}))"
    using normalize_ranks_facts [OF s [unfolded normalize_ranks_def]] o(1) by simp
  have "inj_on (\<lambda>i. int i + 1) {0..<nat limit}" by (auto intro: inj_onI)
  then have "distinct (map (\<lambda>i. int i + 1) [0..<nat limit])" by (simp add: distinct_map)
  then show ?thesis using f o by (auto simp: s)
qed

text \<open>Whatever ranks the reranking model answers, the decision selects between one and \<open>limit\<close> distinct
  positions of the candidates it was shown; it falls back to the first \<open>limit\<close> candidates exactly when no
  answered rank is a position.\<close>

theorem rerank_selection_sound:
  assumes "llm_rerank generate query hits limit = Inr d"
  shows "distinct (rd_ranks d) \<and> set (rd_ranks d) \<subseteq> {1..int (length hits)} \<and> rd_ranks d \<noteq> [] \<and> int (length (rd_ranks d)) \<le> limit
    \<and> (\<exists>answer. generate (rerank_input_of query hits limit) = Inr answer
        \<and> (rd_fallback d \<longleftrightarrow> (\<forall>r \<in> set answer. r \<notin> {1..int (length hits)}))
        \<and> (rd_fallback d \<longrightarrow> rd_ranks d = map (\<lambda>i. int i + 1) [0..<nat limit]))"
  using assms by (rule llm_rerank_facts)

end
