(* ===== verification/Source_Window.thy ===== *)
theory Source_Window
  imports Source_Store Compare_And_Set
begin

text \<open>
  Incremental consumption of the journal: the pure window policy of \<open>trigger/source_window.go\<close> and
  \<open>trigger/trigger.go\<close>, the compare-and-set cursors of \<open>internal/sqlstore/cursors.go\<close>, and the slice of
  the journal one window reads in \<open>internal/sqlstore/memory_flush.go\<close>. The journal's contract is the locale
  \<open>journal_log\<close>, interpreted on the Source tables; inside it, draining a Scope window by window is shown to
  deliver every entry once and in order.
\<close>

section \<open>The window policy\<close>

record source_high_watermark =
  hw_sequence :: int
  hw_limit :: int

definition new_source_high_watermark :: "int \<Rightarrow> int \<Rightarrow> string + source_high_watermark" where
  "new_source_high_watermark sequence limit =
     (if sequence < 0 then Inl ''Source high watermark sequence must be non-negative''
      else if limit < 1 then Inl ''Source window limit must be positive''
      else Inr \<lparr>hw_sequence = sequence, hw_limit = limit\<rparr>)"

record process_source_window =
  pw_after :: int
  pw_through :: int

record ('s, 'a) transition =
  tr_state :: 's
  tr_actions :: "'a list"

definition source_window_initial :: int where
  "source_window_initial = 0"

definition source_window_activate ::
  "source_high_watermark \<Rightarrow> int \<Rightarrow> (int, process_source_window) transition" where
  "source_window_activate signal state =
     (if hw_sequence signal \<le> state then \<lparr>tr_state = state, tr_actions = []\<rparr>
      else let through = min (hw_sequence signal) (wrap64 (state + hw_limit signal)) in
           \<lparr>tr_state = through, tr_actions = [\<lparr>pw_after = state, pw_through = through\<rparr>]\<rparr>)"

lemma window_no_overflow:
  assumes "0 \<le> state" "1 \<le> hw_limit signal" "state + hw_limit signal \<le> max_int64" "state < hw_sequence signal"
  shows "source_window_activate signal state =
    \<lparr>tr_state = min (hw_sequence signal) (state + hw_limit signal),
     tr_actions = [\<lparr>pw_after = state, pw_through = min (hw_sequence signal) (state + hw_limit signal)\<rparr>]\<rparr>"
proof -
  have "wrap64 (state + hw_limit signal) = state + hw_limit signal"
    using assms by (intro wrap64_id) (simp add: in_int64_def)
  then show ?thesis using assms(4) by (simp add: source_window_activate_def Let_def)
qed

section \<open>The contract of a journal\<close>

locale journal_log =
  fixes inv :: "'t \<Rightarrow> bool"
    and entries :: "'t \<Rightarrow> string \<Rightarrow> 'e list"
    and position_of :: "'e \<Rightarrow> int"
    and high :: "'t \<Rightarrow> string \<Rightarrow> int"
    and after :: "'t \<Rightarrow> string \<Rightarrow> int \<Rightarrow> 'e list"
  assumes numbered: "inv t \<Longrightarrow> map position_of (entries t s) = positions (length (entries t s))"
    and high_is_length: "inv t \<Longrightarrow> high t s = int (length (entries t s))"
    and after_law: "inv t \<Longrightarrow> 0 \<le> c \<Longrightarrow> after t s c = filter (\<lambda>e. c < position_of e) (entries t s)"
begin

definition slice :: "'t \<Rightarrow> string \<Rightarrow> process_source_window \<Rightarrow> 'e list" where
  "slice t s w = takeWhile (\<lambda>e. position_of e \<le> pw_through w) (after t s (pw_after w))"

fun drain :: "nat \<Rightarrow> int \<Rightarrow> 't \<Rightarrow> string \<Rightarrow> int \<Rightarrow> 'e list list" where
  "drain 0 limit t s c = []"
| "drain (Suc n) limit t s c =
     (let tr = source_window_activate \<lparr>hw_sequence = high t s, hw_limit = limit\<rparr> c in
      case tr_actions tr of
        [] \<Rightarrow> []
      | w # _ \<Rightarrow> slice t s w # drain n limit t s (tr_state tr))"

lemma position_nth: "inv t \<Longrightarrow> i < length (entries t s) \<Longrightarrow> position_of (entries t s ! i) = int i + 1"
proof -
  assume "inv t" and i: "i < length (entries t s)"
  then have "map position_of (entries t s) ! i = positions (length (entries t s)) ! i" using numbered by simp
  moreover have "positions (length (entries t s)) ! i = int (i + 1)"
    using i by (simp add: positions_def del: upt_Suc)
  ultimately show ?thesis using i by simp
qed

lemma after_drop:
  assumes "inv t" "0 \<le> c" shows "after t s c = drop (nat c) (entries t s)"
proof -
  let ?xs = "entries t s"
  have "filter (\<lambda>e. c < position_of e) (take (nat c) ?xs) = []"
    using position_nth [OF assms(1)] assms(2) by (auto simp: filter_empty_conv set_conv_nth)
  moreover have "filter (\<lambda>e. c < position_of e) (drop (nat c) ?xs) = drop (nat c) ?xs"
    using position_nth [OF assms(1)] assms(2) by (auto simp: filter_id_conv set_conv_nth)
  ultimately have "filter (\<lambda>e. c < position_of e) (take (nat c) ?xs @ drop (nat c) ?xs) = drop (nat c) ?xs"
    by (simp only: filter_append) simp
  then show ?thesis using after_law [OF assms] by simp
qed

lemma slice_take:
  assumes "inv t" "0 \<le> pw_after w" "pw_after w \<le> pw_through w"
  shows "slice t s w = take (nat (pw_through w - pw_after w)) (drop (nat (pw_after w)) (entries t s))"
proof -
  let ?d = "drop (nat (pw_after w)) (entries t s)" and ?n = "nat (pw_through w - pw_after w)"
  have p: "position_of (?d ! i) = pw_after w + int i + 1" if "i < length ?d" for i
    using that position_nth [OF assms(1)] assms(2) by simp
  have "takeWhile (\<lambda>e. position_of e \<le> pw_through w) ?d = take ?n ?d"
    using p assms(3) by (intro takeWhile_eq_take_P_nth) auto
  then show ?thesis using after_drop [OF assms(1,2)] by (simp add: slice_def)
qed

text \<open>Enough rounds deliver everything after the cursor, once and in order, in windows of at most the
  limit.\<close>

lemma drain_delivers:
  assumes "inv t" "1 \<le> limit" "high t s + limit \<le> max_int64"
  shows "0 \<le> c \<Longrightarrow> c \<le> high t s \<Longrightarrow> nat (high t s - c) \<le> n \<Longrightarrow>
    concat (drain n limit t s c) = drop (nat c) (entries t s)
    \<and> (\<forall>w \<in> set (drain n limit t s c). w \<noteq> [] \<and> int (length w) \<le> limit)"
proof (induction n arbitrary: c)
  case 0
  then have "nat c = length (entries t s)" using high_is_length [OF assms(1)] by simp
  then show ?case by simp
next
  case (Suc n)
  let ?hw = "\<lparr>hw_sequence = high t s, hw_limit = limit\<rparr>"
  note h = high_is_length [OF assms(1), of s]
  show ?case
  proof (cases "high t s \<le> c")
    case True
    then have "nat c = length (entries t s)" using h Suc.prems by simp
    then show ?thesis using True by (simp add: source_window_activate_def)
  next
    case False
    define th where "th = min (high t s) (c + limit)"
    define w where "w = \<lparr>pw_after = c, pw_through = th\<rparr>"
    have th: "c < th" "th \<le> high t s" "th \<le> c + limit" using False assms(2) by (auto simp: th_def)
    have a: "source_window_activate ?hw c = \<lparr>tr_state = th, tr_actions = [w]\<rparr>"
      using window_no_overflow [of c ?hw] Suc.prems assms(2,3) False by (simp add: th_def w_def)
    have sl: "slice t s w = take (nat (th - c)) (drop (nat c) (entries t s))"
      using slice_take [OF assms(1), of w] Suc.prems th by (simp add: w_def)
    have len: "length (slice t s w) = nat (th - c)" using sl h th Suc.prems(1) by simp
    have ih: "concat (drain n limit t s th) = drop (nat th) (entries t s)"
        "\<forall>w \<in> set (drain n limit t s th). w \<noteq> [] \<and> int (length w) \<le> limit"
      using Suc.IH [of th] th Suc.prems by simp_all
    have "drop (nat th) (entries t s) = drop (nat (th - c)) (drop (nat c) (entries t s))"
      using th Suc.prems(1) by (simp add: nat_diff_distrib)
    then have "slice t s w @ drop (nat th) (entries t s) = drop (nat c) (entries t s)"
      using sl by (metis append_take_drop_id)
    moreover have "slice t s w \<noteq> [] \<and> int (length (slice t s w)) \<le> limit" using len th by auto
    ultimately show ?thesis using a ih by simp
  qed
qed

end

section \<open>The Source tables as a journal\<close>

definition rows_after :: "source_tables \<Rightarrow> string \<Rightarrow> int \<Rightarrow> source_row list" where
  "rows_after tb s c = filter (\<lambda>r. row_position r > c) (scope_rows tb s)"

definition window_rows :: "source_tables \<Rightarrow> string \<Rightarrow> process_source_window \<Rightarrow> source_row list" where
  "window_rows tb s w = takeWhile (\<lambda>r. row_position r \<le> pw_through w) (rows_after tb s (pw_after w))"

lemma sorted_positions: "sorted (positions n)"
  by (simp add: positions_def sorted_map sorted_wrt_mono_rel [OF _ sorted_upt] del: upt_Suc)

lemma scope_rows_journal: "tables_inv tb \<Longrightarrow> scope_rows tb s = journal_rows tb s"
  using tables_invD(1) [of tb s] sorted_positions [of "length (journal_rows tb s)"]
  by (simp add: scope_rows_def journal_rows_def sort_key_id_if_sorted)

lemma max_position_length: "tables_inv tb \<Longrightarrow> max_position tb s = int (length (journal_rows tb s))"
proof (cases "journal_rows tb s")
  case (Cons r rs)
  assume inv: "tables_inv tb"
  have "max_position tb s = Max (set (map row_position (journal_rows tb s)))"
    using Cons Max.set_eq_fold [of "row_position r" "map row_position rs"]
    by (simp add: max_position_def journal_rows_def)
  also have "\<dots> = Max {1..int (length (journal_rows tb s))}"
    using journal_positions [OF inv, of s] by simp
  also have "\<dots> = int (length (journal_rows tb s))" using Cons by (intro Max_eqI) auto
  finally show ?thesis .
qed (simp add: max_position_def journal_rows_def)

interpretation jl: journal_log tables_inv journal_rows row_position max_position rows_after
proof (unfold_locales, goal_cases)
  case 1
  then show ?case by (rule tables_invD(1))
next
  case 2
  then show ?case by (rule max_position_length)
next
  case 3
  then show ?case by (simp add: rows_after_def scope_rows_journal)
qed

text \<open>Repeated window reads of one Scope, from a cursor until the policy has no action.\<close>

fun drain_windows :: "nat \<Rightarrow> int \<Rightarrow> source_tables \<Rightarrow> string \<Rightarrow> int \<Rightarrow> source_row list list" where
  "drain_windows 0 limit tb s c = []"
| "drain_windows (Suc n) limit tb s c =
     (let tr = source_window_activate \<lparr>hw_sequence = max_position tb s, hw_limit = limit\<rparr> c in
      case tr_actions tr of
        [] \<Rightarrow> []
      | w # _ \<Rightarrow> window_rows tb s w # drain_windows n limit tb s (tr_state tr))"

lemma drain_windows_drain: "drain_windows n limit tb s c = jl.drain n limit tb s c"
  by (induction n arbitrary: c) (auto simp: jl.slice_def window_rows_def Let_def split: list.splits)

text \<open>C6: windowed consumption is exactly-once and in order: from any cursor inside the journal, repeatedly
  reading bounded windows delivers precisely the rows after the cursor, each once, in journal order, in
  nonempty windows of at most the configured limit, and stops within one round per remaining row.\<close>

theorem windows_deliver_exactly_once:
  assumes "tables_inv tb" "1 \<le> limit" "max_position tb s + limit \<le> max_int64"
    and "0 \<le> c" "c \<le> max_position tb s" "nat (max_position tb s - c) \<le> rounds"
  shows "concat (drain_windows rounds limit tb s c) = drop (nat c) (journal_rows tb s)
    \<and> list_all (\<lambda>w. w \<noteq> [] \<and> int (length w) \<le> limit) (drain_windows rounds limit tb s c)"
  using jl.drain_delivers [OF assms] by (simp add: drain_windows_drain list_all_iff)


section \<open>Cursors\<close>

lemma digit_char_digit: "d < 10 \<Longrightarrow> is_digit (digit_char d) \<and> digit_value (digit_char d) = d"
  by (simp add: is_digit_def digit_value_def byte_of_digit)

lemma show_nat_parse: "list_all is_digit (show_nat n) \<and> digits_value (show_nat n) = n"
proof (induction n rule: show_nat.induct)
  case (1 n)
  show ?case
  proof (cases "n < 10")
    case True
    then show ?thesis
      using digit_char_digit [OF True] digits_value_snoc [of "[]" "digit_char n"]
      by (subst (1 2) show_nat.simps) simp
  next
    case False
    then show ?thesis
      using 1 digit_char_digit [of "n mod 10"] by (subst (1 2) show_nat.simps) simp
  qed
qed

lemma show_int_parse: "parse_big_int (show_int i) = Some i"
proof -
  have nonsign: "hd (show_nat n) \<noteq> CHR ''-'' \<and> hd (show_nat n) \<noteq> CHR ''+''" for n
  proof -
    have "is_digit (hd (show_nat n))"
      using show_nat_parse [of n] show_nat_nonempty [of n] by (cases "show_nat n") auto
    then show ?thesis by (auto simp: is_digit_def)
  qed
  show ?thesis
    using show_nat_parse show_nat_nonempty nonsign by (auto simp: parse_big_int_def show_int_def Let_def)
qed

lemma cursor_payload_round_trip: "in_int64 c \<Longrightarrow> decode_source_cursor (cursor_wire c) = Some c"
  by (simp add: decode_source_cursor_def cursor_wire_def show_int_parse)

lemma cursor_rows_unique:
  assumes "distinct (map (\<lambda>r. (cur_scope r, cur_binding r)) rows)" "r \<in> set rows" "q \<in> set rows"
    and "cur_scope r = cur_scope q" "cur_binding r = cur_binding q"
  shows "r = q"
  using assms by (auto simp: distinct_map dest: inj_onD)

lemma find_cursor_Some:
  assumes "tables_inv tb"
  shows "find_cursor tb s b = Some r \<longleftrightarrow> r \<in> set (tb_cursors tb) \<and> cur_scope r = s \<and> cur_binding r = b"
proof
  assume "find_cursor tb s b = Some r"
  then show "r \<in> set (tb_cursors tb) \<and> cur_scope r = s \<and> cur_binding r = b"
    by (auto simp: find_cursor_def find_Some_iff)
next
  assume r: "r \<in> set (tb_cursors tb) \<and> cur_scope r = s \<and> cur_binding r = b"
  then obtain q where q: "find_cursor tb s b = Some q"
    by (cases "find_cursor tb s b") (auto simp: find_cursor_def find_None_iff)
  then have "q \<in> set (tb_cursors tb)" "cur_scope q = s" "cur_binding q = b"
    by (auto simp: find_cursor_def find_Some_iff)
  then have "q = r" using r by (intro cursor_rows_unique [OF tables_invD(5) [OF assms]]) simp_all
  with q show "find_cursor tb s b = Some r" by simp
qed

lemma affected_one:
  assumes "tables_inv tb"
  shows "affected_rows (tb_cursors tb) s b g = 1 \<longleftrightarrow> (\<exists>r. find_cursor tb s b = Some r \<and> cur_generation r = g)"
proof -
  let ?m = "filter (\<lambda>r. cur_scope r = s \<and> cur_binding r = b \<and> cur_generation r = g) (tb_cursors tb)"
  have "distinct ?m" using tables_invD(5) [OF assms] by (simp add: distinct_map)
  then have "length ?m = card (set ?m)" by (rule distinct_card [symmetric])
  moreover have "card (set ?m) \<le> 1"
    by (auto simp: card_le_Suc0_iff_eq intro: cursor_rows_unique [OF tables_invD(5) [OF assms]])
  ultimately have "length ?m = 1 \<longleftrightarrow> ?m \<noteq> []" by (cases ?m) simp_all
  also have "\<dots> \<longleftrightarrow> (\<exists>r. find_cursor tb s b = Some r \<and> cur_generation r = g)"
    by (auto simp: filter_empty_conv find_cursor_Some [OF assms])
  finally show ?thesis by (simp add: affected_rows_def)
qed

text \<open>What the client of a cursor sees: its generation, and nothing of other bindings.\<close>

definition generation_of :: "source_tables \<Rightarrow> string \<Rightarrow> string \<Rightarrow> int option" where
  "generation_of tb s b = map_option cur_generation (find_cursor tb s b)"

lemma find_cursor_update:
  "find_cursor (tb\<lparr>tb_cursors := update_cursor_rows (tb_cursors tb) s b g p\<rparr>) s' b' =
     map_option (\<lambda>r. if cur_scope r = s \<and> cur_binding r = b \<and> cur_generation r = g
       then r\<lparr>cur_payload := p, cur_generation := g + 1\<rparr> else r) (find_cursor tb s' b')"
proof -
  have "find (\<lambda>r. cur_scope r = s' \<and> cur_binding r = b') (update_cursor_rows rows s b g p)
     = map_option (\<lambda>r. if cur_scope r = s \<and> cur_binding r = b \<and> cur_generation r = g
       then r\<lparr>cur_payload := p, cur_generation := g + 1\<rparr> else r)
         (find (\<lambda>r. cur_scope r = s' \<and> cur_binding r = b') rows)" for rows
    by (induction rows) (auto simp: update_cursor_rows_def)
  then show ?thesis by (simp add: find_cursor_def)
qed

lemma save_cursor_ok:
  assumes "tables_inv tb" "save_cursor tb s b c e = Inr (st, tb')"
  shows "e = generation_of tb s b" "sc_cursor st = c"
    "sc_generation st = (case e of None \<Rightarrow> 1 | Some g \<Rightarrow> g + 1)"
    "tables_inv tb'" "\<And>t. journal_rows tb' t = journal_rows tb t"
    "find_cursor tb' s b = Some \<lparr>cur_scope = s, cur_binding = b, cur_payload = cursor_wire c, cur_generation = sc_generation st\<rparr>"
    "\<And>s' b'. (s', b') \<noteq> (s, b) \<Longrightarrow> find_cursor tb' s' b' = find_cursor tb s' b'"
proof -
  show "e = generation_of tb s b" "sc_cursor st = c" "sc_generation st = (case e of None \<Rightarrow> 1 | Some g \<Rightarrow> g + 1)"
    "\<And>t. journal_rows tb' t = journal_rows tb t"
    using assms(2) affected_one [OF assms(1), of s b]
    by (auto simp: save_cursor_def res_simps generation_of_def split: option.splits if_splits sum.splits)
  show "tables_inv tb'"
  proof (cases e)
    case None
    then have "find_cursor tb s b = None" and
      "tb' = tb\<lparr>tb_cursors := tb_cursors tb @ [\<lparr>cur_scope = s, cur_binding = b, cur_payload = cursor_wire c, cur_generation = 1\<rparr>]\<rparr>"
      using assms(2) by (auto simp: save_cursor_def res_simps split: option.splits sum.splits)
    then show ?thesis using assms(1) by (auto simp: tables_inv_def find_cursor_def find_None_iff)
  next
    case (Some g)
    then have "tb' = tb\<lparr>tb_cursors := update_cursor_rows (tb_cursors tb) s b g (cursor_wire c)\<rparr>"
      using assms(2) by (auto simp: save_cursor_def res_simps split: option.splits sum.splits if_splits)
    moreover have "map (\<lambda>r. (cur_scope r, cur_binding r)) (update_cursor_rows rows s b g p)
        = map (\<lambda>r. (cur_scope r, cur_binding r)) rows" for rows p
      by (auto simp: update_cursor_rows_def)
    ultimately show ?thesis using assms(1) by (simp add: tables_inv_def)
  qed
  show "find_cursor tb' s b = Some \<lparr>cur_scope = s, cur_binding = b, cur_payload = cursor_wire c, cur_generation = sc_generation st\<rparr>"
  proof (cases e)
    case None
    then show ?thesis
      using assms(2) by (auto simp: save_cursor_def res_simps find_cursor_def find_append split: option.splits sum.splits)
  next
    case (Some g)
    then obtain r where r: "find_cursor tb s b = Some r" "cur_generation r = g"
      using \<open>e = generation_of tb s b\<close> by (auto simp: generation_of_def)
    then have "cur_scope r = s" "cur_binding r = b" by (auto simp: find_cursor_Some [OF assms(1)])
    with Some r show ?thesis
      using assms(2) by (auto simp: save_cursor_def res_simps find_cursor_update split: option.splits sum.splits if_splits)
  qed
  show "find_cursor tb' s' b' = find_cursor tb s' b'" if "(s', b') \<noteq> (s, b)" for s' b'
  proof (cases e)
    case None
    then show ?thesis
      using assms(2) that by (auto simp: save_cursor_def res_simps find_cursor_def find_append split: option.splits sum.splits)
  next
    case (Some g)
    have "cur_scope r \<noteq> s \<or> cur_binding r \<noteq> b" if "find_cursor tb s' b' = Some r" for r
      using that \<open>(s', b') \<noteq> (s, b)\<close> by (auto simp: find_cursor_Some [OF assms(1)])
    then have "find_cursor (tb\<lparr>tb_cursors := update_cursor_rows (tb_cursors tb) s b g (cursor_wire c)\<rparr>) s' b'
        = find_cursor tb s' b'"
      by (cases "find_cursor tb s' b'") (auto simp: find_cursor_update)
    with Some show ?thesis
      using assms(2) by (auto simp: save_cursor_def res_simps split: option.splits sum.splits if_splits)
  qed
qed

lemma load_after_save:
  assumes "tables_inv tb" "save_cursor tb s b c e = Inr (st, tb')" "in_int64 c"
  shows "load_cursor tb' s b = Inr (Some st)"
proof -
  have "require_identifier ''scope_id'' s 256 = Inr ()" "require_identifier ''binding_name'' b 128 = Inr ()"
    using assms(2) by (auto simp: save_cursor_def res_simps)
  then show ?thesis
    using save_cursor_ok(2,6) [OF assms(1,2)] cursor_payload_round_trip [OF assms(3)]
    by (cases st) (simp add: load_cursor_def)
qed

text \<open>Cursors are compare-and-set cells: the key is the Scope and the binding, the version the
  generation.\<close>

definition cursor_put ::
  "source_tables \<Rightarrow> string \<times> string \<Rightarrow> int option \<Rightarrow> int \<Rightarrow> store_error + source_tables" where
  "cursor_put tb = (\<lambda>(scope_id, binding) expected cursor.
     map_sum id snd (save_cursor tb scope_id binding cursor expected))"

definition cursor_version :: "source_tables \<Rightarrow> string \<times> string \<Rightarrow> int option" where
  "cursor_version tb = (\<lambda>(scope_id, binding). generation_of tb scope_id binding)"

lemma cursor_put_Inr:
  assumes "cursor_put tb (s, b) x c = Inr tb'"
  obtains st where "save_cursor tb s b c x = Inr (st, tb')"
  using assms by (cases "save_cursor tb s b c x") (auto simp: cursor_put_def)

interpretation cc: compare_and_set tables_inv cursor_version cursor_put
proof (unfold_locales, goal_cases)
  case (1 t k x v t')
  obtain s b where k: "k = (s, b)" by (cases k)
  obtain st where "save_cursor t s b v x = Inr (st, t')" using 1(2) unfolding k by (elim cursor_put_Inr)
  then show ?case by (rule save_cursor_ok(4) [OF 1(1)])
next
  case (2 t k x v t')
  obtain s b where k: "k = (s, b)" by (cases k)
  obtain st where "save_cursor t s b v x = Inr (st, t')" using 2(2) unfolding k by (elim cursor_put_Inr)
  then show ?case using save_cursor_ok(1) [OF 2(1)] by (simp add: k cursor_version_def)
next
  case (3 t k x v t' k')
  obtain s b where k: "k = (s, b)" by (cases k)
  obtain s' b' where k': "k' = (s', b')" by (cases k')
  obtain st where sv: "save_cursor t s b v x = Inr (st, t')" using 3(2) unfolding k by (elim cursor_put_Inr)
  note ok = save_cursor_ok [OF 3(1) sv]
  show ?case
  proof (cases "k' = k")
    case True
    then show ?thesis using ok(3,6)
      by (simp add: k k' cursor_version_def generation_of_def next_version_def version_number_def split: option.splits)
  next
    case False
    then show ?thesis using ok(7) [of s' b']
      by (auto simp: k k' cursor_version_def generation_of_def)
  qed
qed

text \<open>Saving a cursor is compare-and-set: a successful save expected exactly the stored generation, is read
  back with the next generation, leaves every other binding alone, and makes any further save with the
  same expectation fail with the generation it now stores, so of two workers that observed the same
  cursor at most one commits.\<close>

theorem cursor_compare_and_set:
  assumes "tables_inv tb" "save_cursor tb s b c expected = Inr (st, tb')" "in_int64 c"
  shows "expected = generation_of tb s b \<and> load_cursor tb' s b = Inr (Some st)
    \<and> save_cursor tb' s b c' expected = Inl (GenerationConflict b expected (Some (sc_generation st)))
    \<and> ((s', b') \<noteq> (s, b) \<longrightarrow> load_cursor tb' s' b' = load_cursor tb s' b')"
proof -
  note ok = save_cursor_ok [OF assms(1,2)]
  note load = load_after_save [OF assms]
  have ids: "require_identifier ''scope_id'' s 256 = Inr ()" "require_identifier ''binding_name'' b 128 = Inr ()"
      "case expected of None \<Rightarrow> True | Some g \<Rightarrow> 1 \<le> g"
    using assms(2) by (auto simp: save_cursor_def res_simps)
  have "save_cursor tb' s b c' expected = Inl (GenerationConflict b expected (Some (sc_generation st)))"
  proof (cases expected)
    case None
    then show ?thesis using ids ok(6) load by (simp add: save_cursor_def)
  next
    case (Some g)
    then have "affected_rows (tb_cursors tb') s b g \<noteq> 1"
      using affected_one [OF ok(4), of s b g] ok(3,6) by simp
    then show ?thesis using Some ids load by (simp add: save_cursor_def)
  qed
  moreover have "load_cursor tb' s' b' = load_cursor tb s' b'" if "(s', b') \<noteq> (s, b)"
    unfolding load_cursor_def ok(7) [OF that] ..
  ultimately show ?thesis using ok(1) load by simp
qed

section \<open>A worked journal\<close>

definition demo_codec :: source_codec where
  "demo_codec = \<lparr>cd_name = ''content'', cd_type = ''source.ContentSource'',
     cd_encode = (\<lambda>v. if sv_materialization v = ''captured'' \<and> sv_fields v = [] then Some (Encoded (JStr (sv_name v))) else None),
     cd_decode = (\<lambda>b. case b of
        Encoded (JStr n) \<Rightarrow> Some \<lparr>sv_type = ''source.ContentSource'', sv_name = n, sv_materialization = ''captured'', sv_fields = []\<rparr>
      | _ \<Rightarrow> None)\<rparr>"

definition demo_repository :: source_repository where
  "demo_repository = \<lparr>sr_by_name = [(''content'', demo_codec)], sr_by_source = [(''source.ContentSource'', demo_codec)]\<rparr>"

lemma demo_repository_new: "new_source_repository [demo_codec] = Inr demo_repository"
  by (simp add: new_source_repository_def demo_repository_def demo_codec_def)

lemma demo_codec_law: "codec_law demo_repository"
  by (auto simp: codec_law_def demo_repository_def demo_codec_def parse_source_envelope_def split: if_splits)

definition demo_env :: json_env where
  "demo_env = \<lparr>je_canonical = (\<lambda>j. []), je_sha256 = (\<lambda>t. replicate 64 (CHR ''0'')), je_schema = sample_check\<rparr>"

definition demo_value :: product_value where
  "demo_value = ContentValue \<lparr>sv_type = ''source.ContentSource'', sv_name = ''a'', sv_materialization = ''captured'', sv_fields = []\<rparr>"

lemma demo_encode: "encode_source demo_repository demo_value = Inr (\<lparr>sr_type = ''content'', sr_id = ''a''\<rparr>, Encoded (JStr ''a''))"
proof -
  have "valid_part 128 ''content''" by (rule graphic_valid_part) (simp_all add: graphic_def)
  then have "new_source_ref ''content'' ''a'' = Inr \<lparr>sr_type = ''content'', sr_id = ''a''\<rparr>"
    by (simp add: new_source_ref_iff wf_source_ref_def)
  then show ?thesis by (simp add: encode_source_def demo_value_def demo_repository_def demo_codec_def repository_ref_def)
qed

lemma journal_demo_scope: "require_scope ''p'' = Inr ()" "require_identifier ''scope_id'' ''p'' 256 = Inr ()"
    "require_identifier ''binding_name'' ''w'' 128 = Inr ()"
proof -
  have "graphic ''p''" "graphic ''w''" by (simp_all add: graphic_def)
  then show "require_scope ''p'' = Inr ()" "require_identifier ''scope_id'' ''p'' 256 = Inr ()"
    "require_identifier ''binding_name'' ''w'' 128 = Inr ()"
    by (simp_all add: require_scope_def require_identifier_def graphic_text)
qed

lemma demo_add: "\<exists>st. add_source demo_env demo_repository empty_tables ''p'' demo_value
    = Inr (st, added empty_tables ''p'' \<lparr>sr_type = ''content'', sr_id = ''a''\<rparr> (Encoded (JStr ''a'')))"
  using add_source_eq [OF tables_inv_empty journal_demo_scope(1) demo_encode, of demo_env]
  by (simp add: find_source_def empty_tables_def head_of_def max_int64_def)

theorem add_source_journal_witness:
  "\<exists>st tb. add_source demo_env demo_repository empty_tables ''p'' demo_value = Inr (st, tb) \<and> tables_inv tb"
  using demo_add add_source_journal [OF tables_inv_empty] by blast

theorem add_source_idempotent_witness:
  "\<exists>st tb again. add_source demo_env demo_repository empty_tables ''p'' demo_value = Inr (st, tb)
     \<and> add_source demo_env demo_repository tb ''p'' demo_value = Inr (again, tb) \<and> ss_position again = ss_position st"
  using demo_add add_source_idempotent [OF tables_inv_empty demo_codec_law] by blast

abbreviation demo_one :: source_tables where
  "demo_one \<equiv> added empty_tables ''p'' \<lparr>sr_type = ''content'', sr_id = ''a''\<rparr> (Encoded (JStr ''a''))"

lemma demo_one_inv: "tables_inv demo_one"
  by (rule added_inv [OF tables_inv_empty]) (simp add: find_source_def empty_tables_def)

lemma demo_one_rows: "length (journal_rows demo_one ''p'') = 1"
  unfolding added_journal by (simp add: empty_tables_def journal_rows_def)

theorem windows_deliver_exactly_once_witness:
  "concat (drain_windows 1 100 demo_one ''p'' 0) = journal_rows demo_one ''p'' \<and> journal_rows demo_one ''p'' \<noteq> []"
proof -
  have "max_position demo_one ''p'' = 1" using max_position_length [OF demo_one_inv] demo_one_rows by simp
  moreover have "journal_rows demo_one ''p'' \<noteq> []" using demo_one_rows by (metis length_0_conv zero_neq_one)
  ultimately show ?thesis
    using windows_deliver_exactly_once [OF demo_one_inv, of 100 "''p''" 0 1] by (simp add: max_int64_def)
qed

theorem cursor_compare_and_set_witness:
  "\<exists>st tb. save_cursor empty_tables ''p'' ''w'' 3 None = Inr (st, tb)
     \<and> save_cursor tb ''p'' ''w'' 4 None = Inl (GenerationConflict ''w'' None (Some (sc_generation st)))"
proof -
  obtain st tb where s: "save_cursor empty_tables ''p'' ''w'' 3 None = Inr (st, tb)"
    using journal_demo_scope by (auto simp: save_cursor_def find_cursor_def empty_tables_def)
  then show ?thesis
    using cursor_compare_and_set [OF tables_inv_empty s, of 4] by (auto simp: in_int64_def max_int64_def)
qed

definition demo_registry :: source_tables where
  "demo_registry = empty_tables\<lparr>tb_manifests := [\<lparr>mr_name = ''t'', mr_version = ''1'',
     mr_fingerprint = dm_fingerprint sample_manifest, mr_manifest = Encoded (definition_wire sample_manifest True)\<rparr>]\<rparr>"

definition sample_reordered :: "(string \<times> json) list" where
  "sample_reordered = [(''materialization'', JStr ''captured''), (''name'', JStr ''a''), (''definition_version'', JStr ''1'')]"

lemma demo_digest: "env_digest demo_env = sample_digest"
  by (simp add: fun_eq_iff env_digest_def demo_env_def sample_digest_def)

lemma demo_find_manifest: "find_manifest demo_env demo_registry ''t'' ''1'' = Inr (Some sample_manifest)"
proof -
  have "parse_definition_manifest sample_digest (definition_wire sample_manifest True) = Inr sample_manifest"
    using manifest_encodes [OF sample_manifest_valid] sample_manifest_valid by (auto simp: marshal_definition_manifest_def)
  moreover have "new_definition_identity ''t'' ''1'' = Inr \<lparr>di_name = ''t'', di_version = ''1''\<rparr>"
  proof -
    have "validate_identity \<lparr>di_name = ''t'', di_version = ''1''\<rparr> = Inr ()" by (simp add: validate_identity_iff)
    then show ?thesis by (simp add: new_definition_identity_def)
  qed
  ultimately show ?thesis
    by (simp add: find_manifest_def demo_registry_def demo_digest) (simp add: sample_manifest_def)
qed

lemma demo_admit_persisted:
  assumes "sample_payload_ok ms"
  shows "admit_persisted_observation demo_env demo_registry (sample_with ms) = Inr (sample_with ms)"
proof -
  have "new_definition_identity ''t'' ''1'' = Inr \<lparr>di_name = ''t'', di_version = ''1''\<rparr>"
  proof -
    have "validate_identity \<lparr>di_name = ''t'', di_version = ''1''\<rparr> = Inr ()" by (simp add: validate_identity_iff)
    then show ?thesis by (simp add: new_definition_identity_def)
  qed
  moreover have "sr_type (so_ref (sample_with ms)) = ''t''" "so_version (sample_with ms) = ''1''"
    by (simp_all add: sample_with_def)
  moreover have "je_schema demo_env = sample_check" by (simp add: demo_env_def)
  ultimately show ?thesis
    using sample_with_valid [OF assms] sample_with_admitted [OF assms] demo_find_manifest demo_digest
    by (simp add: admit_persisted_observation_def)
qed

lemma sample_encodings:
  obtains j k where "encode_source_observation (sample_with sample_envelope) = Inr (Encoded j)"
    "encode_source_observation (sample_with sample_reordered) = Inr (Encoded k)" "json_meaning k = json_meaning j"
proof -
  have ok: "sample_payload_ok sample_envelope" "sample_payload_ok sample_reordered"
    by (rule sample_envelope_ok) (simp add: sample_payload_ok_def sample_reordered_def)
  have same: "so_projections (sample_with ms) = so_projections (sample_with [])" for ms by (simp add: sample_with_def)
  have "\<forall>p \<in> set (so_projections (sample_with sample_envelope)). validate_projection_value p = Inr ()"
    using wf_observationD(9) sample_with_valid [OF ok(1)] by (simp add: wf_observation_def)
  then obtain js where js: "map_res marshal_projection_value (so_projections (sample_with [])) = Inr js"
    using marshal_projections_round_trip same by metis
  define body where "body ms = JObj [(''encoding'', JStr envelope_encoding), (''representation'', JStr ''observation''),
     (''value'', JObj [(''name'', JStr ''a''), (''definition_version'', JStr ''1''),
       (''materialization'', JStr ''captured''), (''description'', JNull),
       (''source_type'', JStr ''t''), (''definition_fingerprint'', JStr (''sha256:'' @ replicate 64 (CHR ''0''))),
       (''payload'', JObj ms), (''projections'', JArr js)])]" for ms
  have e: "encode_source_observation (sample_with ms) = Inr (Encoded (body ms))" if "sample_payload_ok ms" for ms
    using sample_with_valid [OF that] js same [of ms]
    by (simp add: encode_source_observation_def marshal_observation_def)
      (simp add: sample_with_def body_def optional_text_wire_def schema_wire_def)
  have "json_meaning (JObj sample_envelope) = json_meaning (JObj sample_reordered)"
    by (simp add: sample_envelope_def sample_reordered_def fun_eq_iff)
  then have "json_meaning (body sample_reordered) = json_meaning (body sample_envelope)"
    by (simp add: body_def)
  then show thesis using that [OF e [OF ok(1)] e [OF ok(2)]] by simp
qed

lemma demo_registry_inv: "tables_inv demo_registry"
  using tables_inv_empty by (simp add: tables_inv_def demo_registry_def)

theorem accepted_redelivery_witness:
  "\<exists>st tb st2. add_accepted demo_env demo_repository demo_registry ''p'' (sample_with sample_envelope) = Inr (st, tb)
     \<and> add_accepted demo_env demo_repository tb ''p'' (sample_with sample_reordered) = Inr (st2, tb)
     \<and> ss_position st2 = ss_position st"
proof -
  obtain j k where e: "encode_source_observation (sample_with sample_envelope) = Inr (Encoded j)"
    "encode_source_observation (sample_with sample_reordered) = Inr (Encoded k)" "json_meaning k = json_meaning j"
    by (rule sample_encodings)
  have ok: "sample_payload_ok sample_envelope" "sample_payload_ok sample_reordered"
    by (rule sample_envelope_ok) (simp add: sample_payload_ok_def sample_reordered_def)
  have "find_source demo_registry ''p'' (so_ref (sample_with sample_envelope)) = None" "head_of demo_registry ''p'' < max_int64"
    by (simp_all add: find_source_def demo_registry_def empty_tables_def head_of_def max_int64_def)
  then obtain st tb where a: "add_accepted demo_env demo_repository demo_registry ''p'' (sample_with sample_envelope) = Inr (st, tb)"
    using add_accepted_eq [OF demo_registry_inv journal_demo_scope(1) sample_with_valid [OF ok(1)]
        demo_admit_persisted [OF ok(1)] sample_with_valid [OF ok(1)] e(1), of demo_repository] by simp
  have "so_ref (sample_with sample_reordered) = so_ref (sample_with sample_envelope)" by (simp add: sample_with_def)
  then show ?thesis
    using a accepted_redelivery [OF demo_registry_inv a e _ demo_admit_persisted [OF ok(2)]] by blast
qed

end
