(* ===== verification/Memory_Application.thy ===== *)
theory Memory_Application
  imports Memory_Repository Source_Window
begin

text \<open>
  The Memory application (\<open>internal/runtime/memory_application.go\<close>, \<open>memory_commands.go\<close>,
  \<open>memory_queries.go\<close>) over one relational database: reading operations of the service
  (\<open>artifact/memory/service.go\<close>, \<open>service_search.go\<close>), the commands and queries of one Scope after
  admission, and the Source-window flush with its two transactions
  (\<open>internal/sqlstore/memory_flush.go\<close>). A command is a function from the database to a result and the
  database it leaves; a failing transaction leaves the database it was given.
\<close>

section \<open>The database\<close>

record 'i database =
  db_sources :: source_tables
  db_memory :: "'i memory_tables"

definition database_backend :: "'i memory_repository \<Rightarrow> 'i database memory_backend" where
  "database_backend r = \<lparr>mb_capabilities = ix_capabilities (mr_index r),
     mb_get = (\<lambda>db. get_memory r (db_memory db)), mb_latest = (\<lambda>db. latest_memory r (db_memory db)),
     mb_entries = (\<lambda>db. memory_entries r (db_memory db)), mb_projections = (\<lambda>db. memory_projections r (db_memory db)),
     mb_commit = (\<lambda>db c. and_then (commit_memory r (db_memory db) c) (\<lambda>(m, tb). Inr (m, db\<lparr>db_memory := tb\<rparr>))),
     mb_changes = (\<lambda>db. repository_changes r (db_memory db)), mb_expand = (\<lambda>db. expand_hits r (db_memory db))\<rparr>"

section \<open>Reading operations of the service\<close>

definition service_latest :: "('s, 'x) memory_service \<Rightarrow> 's \<Rightarrow> memory \<Rightarrow> memory_error + memory" where
  "service_latest svc st m = and_then (canonical_memory svc st m) (\<lambda>canonical. mb_latest (ms_backend svc) st (ar_id (a_ref canonical)))"

definition service_revisions :: "('s, 'x) memory_service \<Rightarrow> 's \<Rightarrow> memory \<Rightarrow> memory_error + memory list" where
  "service_revisions svc st m =
     and_then (canonical_memory svc st m) (\<lambda>canonical.
     and_then (mb_latest (ms_backend svc) st (ar_id (a_ref canonical))) (\<lambda>latest.
     map_res (\<lambda>revision. mb_get (ms_backend svc) st
         \<lparr>ar_family = memory_family, ar_id = ar_id (a_ref canonical), ar_revision = revision\<rparr>)
       (positions (nat (ar_revision (a_ref latest))))))"

definition service_changes :: "('s, 'x) memory_service \<Rightarrow> 's \<Rightarrow> memory \<Rightarrow> int option \<Rightarrow> memory_error + revision_changes list" where
  "service_changes svc st m since =
     and_then (canonical_memory svc st m) (\<lambda>target.
     case since of
       None \<Rightarrow> mb_changes (ms_backend svc) st (a_ref target) None
     | Some s \<Rightarrow>
        (if s < 0 then Inl (InvalidOperation ''since-negative'')
         else if s > ar_revision (a_ref target) then Inl (InvalidOperation ''since-greater'')
         else if s = ar_revision (a_ref target) then Inr []
         else
           and_then (if s > 0 then and_then (mb_get (ms_backend svc) st
                \<lparr>ar_family = memory_family, ar_id = ar_id (a_ref target), ar_revision = s\<rparr>) (\<lambda>_. Inr ()) else Inr ()) (\<lambda>_.
           mb_changes (ms_backend svc) st (a_ref target) (Some s))))"

definition service_entries :: "('s, 'x) memory_service \<Rightarrow> 's \<Rightarrow> memory \<Rightarrow> memory_error + entry_version list" where
  "service_entries svc st m = and_then (canonical_memory svc st m) (validated_entries svc st)"

definition validate_anchor ::
  "('s, 'x) memory_service \<Rightarrow> 's \<Rightarrow> artifact_ref \<Rightarrow> string \<Rightarrow> string \<Rightarrow> entry_version \<Rightarrow> memory_error + unit" where
  "validate_anchor svc st ref entry_id version_id version =
     and_then (mb_get (ms_backend svc) st ref) (\<lambda>m.
     case find (\<lambda>e. me_entry e = entry_id) (cn_manifest (a_content m)) of
       None \<Rightarrow> Inl (InvalidCitation ''expand-anchor'')
     | Some item \<Rightarrow>
        and_then (check (me_version item = version_id \<and> ev_memory version = ar_id ref \<and> ev_entry version = entry_id
          \<and> ev_id version = version_id) (InvalidCitation ''expand-anchor'')) (\<lambda>_.
        and_then (material_from_version (ms_env svc) version) (\<lambda>material.
        check (em_hash material = me_hash item \<and> ev_hash version = me_hash item) (InvalidCitation ''hash-mismatch''))))"

definition service_expand :: "('s, 'x) memory_service \<Rightarrow> 's \<Rightarrow> citation list \<Rightarrow> memory_error + entry_version list" where
  "service_expand svc st hits =
     and_then (mb_expand (ms_backend svc) st hits) (\<lambda>versions.
     and_then (check (length versions = length hits) (InvalidCitation ''expand-count'')) (\<lambda>_.
     and_then (map_res (\<lambda>(hit, v). validate_anchor svc st (ct_memory hit) (ct_entry hit) (ct_version hit) v) (zip hits versions)) (\<lambda>_.
     Inr versions)))"

definition validate_citation :: "('s, 'x) memory_service \<Rightarrow> 's \<Rightarrow> citation \<Rightarrow> memory_error + entry_version" where
  "validate_citation svc st c = and_then (service_expand svc st [c]) (\<lambda>values. Inr (hd values))"

section \<open>Results\<close>

datatype application_error =
    StateError string
  | ApplicationMemory memory_error
  | ApplicationStore store_error
  | ApplicationFault string

definition on_memory :: "memory_error + 'a \<Rightarrow> application_error + 'a" where
  "on_memory = map_sum ApplicationMemory id"

definition on_store :: "store_error + 'a \<Rightarrow> application_error + 'a" where
  "on_store = map_sum ApplicationStore id"

record remember_request =
  rq_kind :: string
  rq_text :: string
  rq_reason :: "string option"
  rq_expected :: "int option"

record entry_record =
  er_memory :: artifact_ref
  er_state :: entry_state
  er_entry :: entry_version

record mutation_result =
  mu_previous :: "int option"
  mu_memory :: artifact_ref
  mu_entry :: "entry_record option"

record entries_page =
  pg_memory :: "artifact_ref option"
  pg_entries :: "entry_record list"

record changes_page =
  cg_memory :: "artifact_ref option"
  cg_revisions :: "revision_changes list"

record flush_result =
  fr_previous :: int
  fr_current :: int
  fr_high :: int
  fr_count :: nat
  fr_memory :: "artifact_ref option"

record 'i flush_store =
  fs_scope :: string
  fs_env :: json_env
  fs_sources :: source_repository
  fs_memory :: "'i memory_repository"

record ('i, 'x) memory_application =
  ma_services :: "string \<Rightarrow> application_error + ('i database, 'x) memory_service option"
  ma_flushes :: "(string \<Rightarrow> application_error + 'i flush_store option) option"
  ma_artifact :: string
  ma_limit :: int

definition default_memory_artifact :: string where
  "default_memory_artifact = ''memory''"

definition default_source_window_limit :: int where
  "default_source_window_limit = 100"

definition new_memory_application ::
  "(string \<Rightarrow> application_error + ('i database, 'x) memory_service option) \<Rightarrow> string \<Rightarrow> application_error + ('i, 'x) memory_application" where
  "new_memory_application services artifact_id =
     (let selected = (if artifact_id = [] then default_memory_artifact else artifact_id) in
      and_then (on_memory (lift_artifact (new_artifact_ref memory_family selected 1))) (\<lambda>_.
      Inr \<lparr>ma_services = services, ma_flushes = None, ma_artifact = selected, ma_limit = default_source_window_limit\<rparr>))"

definition new_memory_application_with_flush ::
  "(string \<Rightarrow> application_error + ('i database, 'x) memory_service option) \<Rightarrow> (string \<Rightarrow> application_error + 'i flush_store option)
    \<Rightarrow> string \<Rightarrow> int \<Rightarrow> application_error + ('i, 'x) memory_application" where
  "new_memory_application_with_flush services flushes artifact_id limit =
     and_then (check (1 \<le> limit) (ApplicationFault ''runtime: source_window_limit must be positive'')) (\<lambda>_.
     and_then (new_memory_application services artifact_id) (\<lambda>app.
     Inr (app\<lparr>ma_flushes := Some flushes, ma_limit := limit\<rparr>)))"

definition application_service :: "('i, 'x) memory_application \<Rightarrow> string \<Rightarrow> application_error + ('i database, 'x) memory_service" where
  "application_service app scope = and_then (ma_services app scope) (\<lambda>s.
     case s of None \<Rightarrow> Inl (StateError ''memory'') | Some svc \<Rightarrow> Inr svc)"

section \<open>Queries\<close>

definition head_or_none ::
  "('i, 'x) memory_application \<Rightarrow> ('i database, 'x) memory_service \<Rightarrow> 'i database \<Rightarrow> application_error + memory option" where
  "head_or_none app svc db = (case mb_latest (ms_backend svc) db (ma_artifact app) of
     Inl (MemoryArtifact (ArtNotFound _)) \<Rightarrow> Inr None
   | Inl e \<Rightarrow> Inl (ApplicationMemory e)
   | Inr m \<Rightarrow> Inr (Some m))"

definition entry_record_of :: "memory \<Rightarrow> entry_version \<Rightarrow> application_error + entry_record" where
  "entry_record_of m v = (case find (\<lambda>e. me_entry e = ev_entry v \<and> me_version e = ev_id v) (cn_manifest (a_content m)) of
     None \<Rightarrow> Inl (ApplicationMemory (EntryNotFound (ev_entry v)))
   | Some e \<Rightarrow> Inr \<lparr>er_memory = a_ref m, er_state = me_state e, er_entry = v\<rparr>)"

definition logical_entry ::
  "('i database, 'x) memory_service \<Rightarrow> 'i database \<Rightarrow> memory \<Rightarrow> string \<Rightarrow> application_error + entry_version" where
  "logical_entry svc db m entry_id =
     and_then (on_memory (service_entries svc db m)) (\<lambda>entries.
     case find (\<lambda>v. ev_entry v = entry_id) entries of
       None \<Rightarrow> Inl (ApplicationMemory (EntryNotFound entry_id))
     | Some v \<Rightarrow> Inr v)"

definition last_changed_entry ::
  "('i database, 'x) memory_service \<Rightarrow> 'i database \<Rightarrow> memory \<Rightarrow> application_error + entry_record option" where
  "last_changed_entry svc db m =
     (if cn_changes (a_content m) = [] then Inr None
      else
        and_then (logical_entry svc db m (mc_entry (last (cn_changes (a_content m))))) (\<lambda>entry.
        and_then (entry_record_of m entry) (\<lambda>r. Inr (Some r))))"

definition cited_entry ::
  "('i database, 'x) memory_service \<Rightarrow> 'i database \<Rightarrow> memory \<Rightarrow> citation \<Rightarrow> application_error + entry_version" where
  "cited_entry svc db m c =
     and_then (check (list_ex (\<lambda>e. me_entry e = ct_entry c \<and> me_version e = ct_version c) (cn_manifest (a_content m)))
       (ApplicationMemory (EntryNotFound (ct_entry c)))) (\<lambda>_.
     on_memory (validate_citation svc db c))"

definition list_memory ::
  "('i, 'x) memory_application \<Rightarrow> 'i database \<Rightarrow> string \<Rightarrow> bool \<Rightarrow> application_error + entries_page" where
  "list_memory app db scope include_inactive =
     and_then (application_service app scope) (\<lambda>svc.
     and_then (head_or_none app svc db) (\<lambda>head.
     case head of
       None \<Rightarrow> Inr \<lparr>pg_memory = None, pg_entries = []\<rparr>
     | Some current \<Rightarrow>
        and_then (on_memory (service_entries svc db current)) (\<lambda>entries.
        and_then (map_res (entry_record_of current) entries) (\<lambda>records.
        Inr \<lparr>pg_memory = Some (a_ref current), pg_entries = filter (\<lambda>r. include_inactive \<or> er_state r = Active) records\<rparr>))))"

definition get_memory_entry ::
  "('i, 'x) memory_application \<Rightarrow> 'i database \<Rightarrow> string \<Rightarrow> citation \<Rightarrow> application_error + entry_record" where
  "get_memory_entry app db scope c =
     and_then (application_service app scope) (\<lambda>svc.
     and_then (on_memory (mb_get (ms_backend svc) db (ct_memory c))) (\<lambda>m.
     and_then (check (ar_id (a_ref m) = ma_artifact app) (ApplicationMemory (MemoryArtifact (ArtNotFound (ct_memory c))))) (\<lambda>_.
     and_then (cited_entry svc db m c) (entry_record_of m))))"

definition memory_changes_page ::
  "('i, 'x) memory_application \<Rightarrow> 'i database \<Rightarrow> string \<Rightarrow> int option \<Rightarrow> application_error + changes_page" where
  "memory_changes_page app db scope since =
     and_then (application_service app scope) (\<lambda>svc.
     and_then (head_or_none app svc db) (\<lambda>head.
     case head of
       None \<Rightarrow> Inr \<lparr>cg_memory = None, cg_revisions = []\<rparr>
     | Some current \<Rightarrow>
        and_then (on_memory (service_changes svc db current since)) (\<lambda>revisions.
        Inr \<lparr>cg_memory = Some (a_ref current), cg_revisions = revisions\<rparr>)))"

section \<open>Commands\<close>

definition validate_expected_revision :: "string \<Rightarrow> memory option \<Rightarrow> int option \<Rightarrow> application_error + unit" where
  "validate_expected_revision artifact_id current expected = (case expected of
     None \<Rightarrow> Inr ()
   | Some n \<Rightarrow>
      and_then (on_memory (lift_artifact (new_artifact_ref memory_family artifact_id n))) (\<lambda>requested.
      case current of
        None \<Rightarrow> Inl (ApplicationMemory (MemoryArtifact (ArtNotFound requested)))
      | Some m \<Rightarrow> check (ar_revision (a_ref m) = n)
          (ApplicationMemory (MemoryArtifact (ArtRevisionConflict requested (a_ref m))))))"

definition current_citation ::
  "('i, 'x) memory_application \<Rightarrow> ('i database, 'x) memory_service \<Rightarrow> 'i database \<Rightarrow> citation \<Rightarrow> application_error + memory \<times> entry_version" where
  "current_citation app svc db c =
     and_then (on_memory (mb_latest (ms_backend svc) db (ma_artifact app))) (\<lambda>current.
     and_then (check (ar_id (ct_memory c) = ar_id (a_ref current)) (ApplicationMemory (MemoryArtifact (ArtNotFound (ct_memory c))))) (\<lambda>_.
     and_then (check (ct_memory c = a_ref current)
       (ApplicationMemory (MemoryArtifact (ArtRevisionConflict (ct_memory c) (a_ref current))))) (\<lambda>_.
     and_then (cited_entry svc db current c) (\<lambda>entry. Inr (current, entry)))))"

text \<open>A command writes in the transaction of the service and then reads its result back; an error of that
  reading is reported although the write stays. The partial result that Go returns beside an error is
  not part of the model.\<close>

definition after_write ::
  "application_error + 'a \<times> 'i database \<Rightarrow> 'i database \<Rightarrow> ('a \<Rightarrow> 'i database \<Rightarrow> application_error + 'b)
    \<Rightarrow> (application_error + 'b) \<times> 'i database" where
  "after_write outcome db read = (case outcome of
     Inl e \<Rightarrow> (Inl e, db)
   | Inr (a, db') \<Rightarrow> (read a db', db'))"

definition entry_mutation ::
  "('i database, 'x) memory_service \<Rightarrow> 'i database \<Rightarrow> memory \<Rightarrow> memory \<Rightarrow> string \<Rightarrow> application_error + mutation_result" where
  "entry_mutation svc db current updated entry_id =
     and_then (logical_entry svc db updated entry_id) (\<lambda>entry.
     and_then (entry_record_of updated entry) (\<lambda>r.
     Inr \<lparr>mu_previous = Some (ar_revision (a_ref current)), mu_memory = a_ref updated, mu_entry = Some r\<rparr>))"

definition remember_memory ::
  "('i, 'x) memory_application \<Rightarrow> 'i database \<Rightarrow> string \<Rightarrow> remember_request
    \<Rightarrow> (application_error + mutation_result) \<times> 'i database" where
  "remember_memory app db scope request =
     after_write
       (and_then (application_service app scope) (\<lambda>svc.
        and_then (head_or_none app svc db) (\<lambda>current.
        and_then (validate_expected_revision (ma_artifact app) current (rq_expected request)) (\<lambda>_.
        and_then (on_memory (remember svc db current [] []
          [\<lparr>ei_entry = None, ei_kind = rq_kind request, ei_text = rq_text request, ei_sources = [], ei_artifacts = [],
            ei_reason = rq_reason request\<rparr>] RememberAppend)) (\<lambda>(result, db').
        Inr ((svc, current, result), db')))))) db
       (\<lambda>(svc, current, result) db'. case result of
          None \<Rightarrow> Inl (StateError ''empty-write'')
        | Some updated \<Rightarrow>
           and_then (if map_option a_ref current = Some (a_ref updated) then Inr None else last_changed_entry svc db' updated) (\<lambda>entry.
           Inr \<lparr>mu_previous = map_option (\<lambda>m. ar_revision (a_ref m)) current, mu_memory = a_ref updated, mu_entry = entry\<rparr>))"

definition revise_memory ::
  "('i, 'x) memory_application \<Rightarrow> 'i database \<Rightarrow> string \<Rightarrow> citation \<Rightarrow> string \<Rightarrow> string \<Rightarrow> string option
    \<Rightarrow> (application_error + mutation_result) \<times> 'i database" where
  "revise_memory app db scope c kind txt reason =
     after_write
       (and_then (application_service app scope) (\<lambda>svc.
        and_then (current_citation app svc db c) (\<lambda>(current, entry).
        and_then (on_memory (remember svc db (Some current) [] []
          [\<lparr>ei_entry = Some entry, ei_kind = kind, ei_text = txt, ei_sources = [], ei_artifacts = [], ei_reason = reason\<rparr>]
          RememberAppend)) (\<lambda>(result, db'). Inr ((svc, current, entry, result), db'))))) db
       (\<lambda>(svc, current, entry, result) db'. case result of
          None \<Rightarrow> Inl (StateError ''empty-write'')
        | Some updated \<Rightarrow> entry_mutation svc db' current updated (ev_entry entry))"

definition retire_memory ::
  "('i, 'x) memory_application \<Rightarrow> 'i database \<Rightarrow> string \<Rightarrow> citation \<Rightarrow> string option
    \<Rightarrow> (application_error + mutation_result) \<times> 'i database" where
  "retire_memory app db scope c reason =
     after_write
       (and_then (application_service app scope) (\<lambda>svc.
        and_then (current_citation app svc db c) (\<lambda>(current, entry).
        and_then (on_memory (forget svc db current [entry] reason)) (\<lambda>(updated, db'). Inr ((svc, current, entry, updated), db'))))) db
       (\<lambda>(svc, current, entry, updated) db'. entry_mutation svc db' current updated (ev_entry entry))"

section \<open>Flushing a Source window\<close>

definition new_memory_flush_store ::
  "string \<Rightarrow> json_env \<Rightarrow> source_repository \<Rightarrow> 'i memory_repository \<Rightarrow> application_error + 'i flush_store" where
  "new_memory_flush_store scope env sources r =
     and_then (on_store (require_scope scope)) (\<lambda>_.
     and_then (check (mr_scope r = scope)
       (ApplicationFault ''sqlstore: Memory Flush repository must use the same database and Scope'')) (\<lambda>_.
     Inr \<lparr>fs_scope = scope, fs_env = env, fs_sources = sources, fs_memory = r\<rparr>))"

text \<open>Which values of a window reach extraction.\<close>

definition extractable :: "product_value \<Rightarrow> bool" where
  "extractable v = (case v of
     RawValue _ \<Rightarrow> False
   | AcceptedValue ob \<Rightarrow> (case accepted_text_evidence ob of Inl _ \<Rightarrow> False | Inr _ \<Rightarrow> True)
   | _ \<Rightarrow> True)"

record window_observation =
  wo_previous :: int
  wo_next :: int
  wo_generation :: "int option"
  wo_high :: int
  wo_values :: "product_value list"

definition observe_window :: "'i flush_store \<Rightarrow> 'i database \<Rightarrow> string \<Rightarrow> int \<Rightarrow> application_error + window_observation" where
  "observe_window fs db binding limit =
     and_then (on_store (load_cursor (db_sources db) (fs_scope fs) binding)) (\<lambda>state.
     let previous = (case state of None \<Rightarrow> source_window_initial | Some c \<Rightarrow> sc_cursor c) in
     and_then (on_store (journal_position (db_sources db) (fs_scope fs))) (\<lambda>high.
     and_then (map_sum ApplicationFault id (new_source_high_watermark high limit)) (\<lambda>signal.
     let tr = source_window_activate signal previous in
     and_then (case tr_actions tr of
         [] \<Rightarrow> Inr []
       | w # _ \<Rightarrow>
          and_then (on_store (list_sources (fs_env fs) (fs_sources fs) (db_sources db) (fs_scope fs) (pw_after w) None)) (\<lambda>rows.
          Inr (filter extractable (map ss_value (takeWhile (\<lambda>row. ss_position row \<le> pw_through w) rows))))) (\<lambda>values.
     Inr \<lparr>wo_previous = previous, wo_next = tr_state tr, wo_generation = map_option sc_generation state,
          wo_high = high, wo_values = values\<rparr>))))"

definition apply_window ::
  "'i flush_store \<Rightarrow> 'i database \<Rightarrow> string \<Rightarrow> write_plan \<Rightarrow> int \<Rightarrow> int option \<Rightarrow> application_error + memory option \<times> 'i database" where
  "apply_window fs db binding plan cursor expected =
     and_then (on_memory (apply_plan (fs_memory fs) (db_memory db) plan)) (\<lambda>(result, tb).
     and_then (on_store (save_cursor (db_sources db) (fs_scope fs) binding cursor expected)) (\<lambda>(_, sources).
     Inr (result, db\<lparr>db_memory := tb, db_sources := sources\<rparr>)))"

definition source_window_name :: string where
  "source_window_name = ''memory-source-window''"

text \<open>Planning runs between the two transactions: it reads the database that \<open>later\<close> yields for the
  observed one, and the final transaction runs on the database of that moment.\<close>

definition flush_window ::
  "('i, 'x) memory_application \<Rightarrow> ('i database \<Rightarrow> 'i database) \<Rightarrow> 'i database \<Rightarrow> string
    \<Rightarrow> flush_result \<times> application_error option \<times> 'i database" where
  "flush_window app later db scope =
     (let none = \<lparr>fr_previous = 0, fr_current = 0, fr_high = 0, fr_count = 0, fr_memory = None\<rparr> in
      case ma_flushes app of
        None \<Rightarrow> (none, Some (StateError ''memory-flush''), db)
      | Some flushes \<Rightarrow>
      case flushes scope of
        Inl e \<Rightarrow> (none, Some e, db)
      | Inr None \<Rightarrow> (none, Some (StateError ''memory-flush''), db)
      | Inr (Some fs) \<Rightarrow>
      case observe_window fs db source_window_name (ma_limit app) of
        Inl e \<Rightarrow> (none, Some e, db)
      | Inr ob \<Rightarrow>
      let result = \<lparr>fr_previous = wo_previous ob, fr_current = wo_next ob, fr_high = wo_high ob,
            fr_count = length (wo_values ob), fr_memory = None\<rparr> in
      if wo_next ob = wo_previous ob then (result, None, db)
      else let db1 = later db in
      case and_then (application_service app scope) (\<lambda>svc.
           and_then (head_or_none app svc db1) (\<lambda>current.
           and_then (on_memory (plan_remember svc db1 current (wo_values ob) [] [] RememberExtract)) (\<lambda>plan.
           apply_window fs db1 source_window_name plan (wo_next ob) (wo_generation ob)))) of
        Inl e \<Rightarrow> (result, Some e, db1)
      | Inr (updated, db2) \<Rightarrow> (result\<lparr>fr_memory := map_option a_ref updated\<rparr>, None, db2))"

section \<open>The database keeps the backend contract\<close>

lemma database_commit: "mb_commit (database_backend r) db c = Inr (m, db') \<longleftrightarrow>
    (\<exists>tb. commit_memory r (db_memory db) c = Inr (m, tb) \<and> db' = db\<lparr>db_memory := tb\<rparr>)"
  by (auto simp: database_backend_def and_then_eq_Inr)

lemma database_reads:
  "mb_get (database_backend r) db = mb_get (repository_backend r) (db_memory db)"
  "mb_latest (database_backend r) db = mb_latest (repository_backend r) (db_memory db)"
  "mb_entries (database_backend r) db = mb_entries (repository_backend r) (db_memory db)"
  by (simp_all add: database_backend_def repository_backend_def)

lemma repository_commit: "mb_commit (repository_backend r) = commit_memory r"
  by (simp add: repository_backend_def)

definition database_inv :: "'i database \<Rightarrow> bool" where
  "database_inv db \<longleftrightarrow> tables_inv (db_sources db) \<and> memory_inv (db_memory db)"

interpretation dm: memory_store "database_backend r" "\<lambda>db. memory_inv (db_memory db)" "\<lambda>db. stored_versions r (db_memory db)"
  for r :: "'i memory_repository"
proof (unfold_locales, goal_cases)
  case (1 s ref m)
  then show ?case unfolding database_reads by (rule ms.get_ref)
next
  case (2 s c m s')
  then show ?case unfolding database_commit using commit_memory_facts(1) by fastforce
next
  case (3 s c m s')
  then show ?case unfolding database_commit using ms.commit_returns [unfolded repository_commit] by fastforce
next
  case (4 s c m s')
  then show ?case unfolding database_commit database_reads using ms.commit_get [unfolded repository_commit] by fastforce
next
  case (5 s c m s')
  then show ?case unfolding database_commit database_reads using ms.commit_latest [unfolded repository_commit] by fastforce
next
  case (6 s c m s' ref x)
  then show ?case unfolding database_commit database_reads using ms.commit_keeps [unfolded repository_commit] by fastforce
next
  case (7 s c m s' ref x)
  then show ?case unfolding database_commit database_reads using ms.commit_only [unfolded repository_commit] by fastforce
next
  case (8 s c m s' i)
  then show ?case unfolding database_commit using stored_versions_commit by fastforce
next
  case (9 s i)
  then show ?case by (rule stored_versions_distinct)
next
  case (10 s ref m)
  then show ?case unfolding database_reads by (rule ms.entries_lookup)
qed

end
