(* ===== verification/Memory_Commands.thy ===== *)
theory Memory_Commands
  imports Memory_Application Memory_Example
begin

text \<open>
  What the commands and the flush of the Memory application guarantee: a flush moves the Memory and the
  Source cursor together and only from the generation it observed, commands on a stale revision
  change nothing, a retired entry is inactive in the new head, and a citation that resolves once
  resolves to the same record after every later command. The last section shows the two windows on
  which a flush can never succeed.
\<close>

section \<open>Applying a window\<close>

lemma on_memory_Inr [res_simps]: "on_memory x = Inr y \<longleftrightarrow> x = Inr y"
  by (cases x) (simp_all add: on_memory_def)

lemma on_store_Inr [res_simps]: "on_store x = Inr y \<longleftrightarrow> x = Inr y"
  by (cases x) (simp_all add: on_store_def)

lemma apply_plan_Inr:
  assumes "apply_plan r tb plan = Inr (result, tb')"
  shows "wp_commit plan = None \<and> result = wp_result plan \<and> tb' = tb
    \<or> (\<exists>c. wp_commit plan = Some c \<and> result = Some (cm_memory c) \<and> commit_memory r tb c = Inr (cm_memory c, tb'))"
  using assms commit_memoryE by (fastforce simp: apply_plan_def res_simps split: option.splits)

lemma apply_window_Inr:
  assumes "apply_window fs db b plan cursor expected = Inr (result, db')"
  obtains tb st sources where "apply_plan (fs_memory fs) (db_memory db) plan = Inr (result, tb)"
    "save_cursor (db_sources db) (fs_scope fs) b cursor expected = Inr (st, sources)"
    "db' = db\<lparr>db_memory := tb, db_sources := sources\<rparr>"
  using assms by (auto simp: apply_window_def res_simps)

lemma apply_plan_inv:
  assumes "apply_plan r tb plan = Inr (result, tb')" "memory_inv tb" shows "memory_inv tb'"
  using apply_plan_Inr [OF assms(1)] assms(2) commit_memory_facts(1) by blast

lemma apply_window_inv:
  assumes "apply_window fs db b plan cursor expected = Inr (result, db')" "database_inv db" shows "database_inv db'"
  using assms by (elim apply_window_Inr) (auto simp: database_inv_def dest: apply_plan_inv save_cursor_ok(4))

text \<open>The cursor of a window as a compare-and-set cell of the database.\<close>

definition window_put ::
  "'i flush_store \<Rightarrow> 'i database \<Rightarrow> string \<times> string \<Rightarrow> int option \<Rightarrow> write_plan \<times> int \<Rightarrow> application_error + 'i database" where
  "window_put fs db = (\<lambda>(scope, b) expected (plan, cursor).
     and_then (check (scope = fs_scope fs) (ApplicationFault ''another Scope'')) (\<lambda>_.
     and_then (apply_window fs db b plan cursor expected) (\<lambda>(_, db'). Inr db')))"

lemma window_put_Inr:
  assumes "window_put fs db k x v = Inr db'"
  obtains result st where "apply_window fs db (snd k) (fst v) (snd v) x = Inr (result, db')" "fst k = fs_scope fs"
    "save_cursor (db_sources db) (fst k) (snd k) (snd v) x = Inr (st, db_sources db')"
proof -
  obtain result where a: "apply_window fs db (snd k) (fst v) (snd v) x = Inr (result, db')" "fst k = fs_scope fs"
    using assms by (cases k; cases v) (auto simp: window_put_def res_simps)
  obtain st where "save_cursor (db_sources db) (fst k) (snd k) (snd v) x = Inr (st, db_sources db')"
    using a by (elim apply_window_Inr) simp
  with a show thesis using that by blast
qed

interpretation fw: compare_and_set database_inv "\<lambda>db. cursor_version (db_sources db)" "window_put fs" for fs :: "'i flush_store"
proof (unfold_locales, goal_cases)
  case (1 db k x v db')
  then show ?case by (elim window_put_Inr) (rule apply_window_inv)
next
  case (2 db k x v db')
  have "cursor_put (db_sources db) k x (snd v) = Inr (db_sources db')"
    using 2(2) by (elim window_put_Inr) (cases k, simp add: cursor_put_def)
  then show ?case using cc.put_expects 2(1) by (auto simp: database_inv_def)
next
  case (3 db k x v db' k')
  have "cursor_put (db_sources db) k x (snd v) = Inr (db_sources db')"
    using 3(2) by (elim window_put_Inr) (cases k, simp add: cursor_put_def)
  then show ?case using cc.put_advances 3(1) by (auto simp: database_inv_def)
qed

section \<open>One flush\<close>

lemma flush_windowE:
  assumes "flush_window app later db scope = (result, None, db')" "fr_current result \<noteq> fr_previous result"
  obtains flushes fs ob svc current plan updated where "ma_flushes app = Some flushes" "flushes scope = Inr (Some fs)"
    "observe_window fs db source_window_name (ma_limit app) = Inr ob"
    "application_service app scope = Inr svc" "head_or_none app svc (later db) = Inr current"
    "plan_remember svc (later db) current (wo_values ob) [] [] RememberExtract = Inr plan"
    "apply_window fs (later db) source_window_name plan (wo_next ob) (wo_generation ob) = Inr (updated, db')"
    "result = \<lparr>fr_previous = wo_previous ob, fr_current = wo_next ob, fr_high = wo_high ob,
       fr_count = length (wo_values ob), fr_memory = map_option a_ref updated\<rparr>"
proof -
  obtain flushes fs ob where f: "ma_flushes app = Some flushes" "flushes scope = Inr (Some fs)"
      "observe_window fs db source_window_name (ma_limit app) = Inr ob"
    using assms(1) by (auto simp: flush_window_def Let_def split: option.splits sum.splits)
  have ne: "wo_next ob \<noteq> wo_previous ob"
  proof
    assume "wo_next ob = wo_previous ob"
    then have "fr_current result = fr_previous result" using assms(1) f by (auto simp: flush_window_def Let_def)
    then show False using assms(2) by simp
  qed
  show thesis using assms(1) f ne that [OF f]
    by (auto simp: flush_window_def Let_def res_simps split: sum.splits)
qed

lemma flush_applied:
  assumes "flush_window app later db scope = (result, None, db')" "fr_current result \<noteq> fr_previous result"
  shows "\<exists>flushes fs plan generation updated. ma_flushes app = Some flushes \<and> flushes scope = Inr (Some fs)
    \<and> apply_window fs (later db) source_window_name plan (fr_current result) generation = Inr (updated, db')
    \<and> fr_memory result = map_option a_ref updated"
  by (rule flush_windowE [OF assms]) fastforce

text \<open>Of all the flushes that observed the same generation of a Source cursor, in whatever order they
  apply their windows and whatever Memory revisions they planned, at most one succeeds, and the
  generation counts the successful ones: no window of Sources is applied twice.\<close>

theorem flush_single_winner:
  assumes "database_inv db"
  shows "wins (\<lambda>w. fst w = k \<and> fst (snd w) = x) ws (snd (run_puts (window_put fs) db ws)) \<le> 1
    \<and> version_number (cursor_version (db_sources (fst (run_puts (window_put fs) db ws))) k)
      = version_number (cursor_version (db_sources db) k)
        + int (wins (\<lambda>w. fst w = k) ws (snd (run_puts (window_put fs) db ws)))"
  using fw.single_winner [OF assms] fw.version_counts [OF assms] by blast


section \<open>Commands\<close>

text \<open>The commands of one Scope as steps of the database. A flush observes its window in an earlier database
  \<open>db0\<close>; Source operations leave the Memory tables alone.\<close>

inductive application_step :: "('i, 'x) memory_application \<Rightarrow> string \<Rightarrow> 'i database \<Rightarrow> 'i database \<Rightarrow> bool" for app scope where
  app_remembers: "remember_memory app db scope request = (result, db') \<Longrightarrow> application_step app scope db db'"
| app_revises: "revise_memory app db scope c kind txt reason = (result, db') \<Longrightarrow> application_step app scope db db'"
| app_retires: "retire_memory app db scope c reason = (result, db') \<Longrightarrow> application_step app scope db db'"
| app_flushes: "flush_window app (\<lambda>_. db) db0 scope = (fr, err, db') \<Longrightarrow> fr_current fr \<noteq> fr_previous fr \<Longrightarrow> application_step app scope db db'"
| app_sources: "db_memory db' = db_memory db \<Longrightarrow> application_step app scope db db'"

text \<open>The application of one Scope over one repository.\<close>

definition serves :: "('i, 'x) memory_application \<Rightarrow> string \<Rightarrow> 'i memory_repository \<Rightarrow> bool" where
  "serves app scope r \<longleftrightarrow> (\<forall>svc. application_service app scope = Inr svc \<longrightarrow> ms_backend svc = database_backend r)
     \<and> (\<forall>flushes fs. ma_flushes app = Some flushes \<longrightarrow> flushes scope = Inr (Some fs) \<longrightarrow> fs_memory fs = r)"

definition commits :: "'i memory_repository \<Rightarrow> 'i database \<Rightarrow> 'i database \<Rightarrow> bool" where
  "commits r db db' \<longleftrightarrow> db_memory db' = db_memory db \<or> (\<exists>c m. commit_memory r (db_memory db) c = Inr (m, db_memory db'))"

lemma after_write_result:
  assumes "after_write outcome db f = (result, db')"
  shows "outcome = Inr (a, db1) \<Longrightarrow> db1 = db' \<and> result = f a db'" "outcome = Inl e \<Longrightarrow> db' = db \<and> result = Inl e"
  using assms by (auto simp: after_write_def)

lemma after_write_commits:
  assumes "after_write outcome db f = (result, db')" "\<And>a db1. outcome = Inr (a, db1) \<Longrightarrow> commits r db db1"
  shows "commits r db db'"
  using assms by (cases outcome) (auto simp: after_write_def commits_def split: prod.splits)

lemma remember_commits:
  assumes "remember svc db base sources artifacts entries mode = Inr (result, db')" "ms_backend svc = database_backend r"
  shows "commits r db db'"
  using assms by (auto simp: remember_def apply_write_plan_def and_then_eq_Inr database_commit commits_def split: option.splits)

lemma forget_commits:
  assumes "forget svc db base entries reason = Inr (m, db')" "ms_backend svc = database_backend r"
  shows "commits r db db'"
  using dm.set_entry_state_commits [OF assms(1) [unfolded forget_def] assms(2)]
  by (auto simp: database_commit commits_def)

lemma step_commits_memory:
  assumes "application_step app scope db db'" "serves app scope r"
  shows "commits r db db'"
  using assms(1)
proof cases
  case (app_remembers request result)
  then show ?thesis unfolding remember_memory_def
    by (rule after_write_commits) (use assms(2) in \<open>auto simp: res_simps serves_def intro: remember_commits\<close>)
next
  case (app_revises c kind words reason result)
  then show ?thesis unfolding revise_memory_def
    by (rule after_write_commits) (use assms(2) in \<open>auto simp: res_simps serves_def intro: remember_commits\<close>)
next
  case (app_retires c reason result)
  then show ?thesis unfolding retire_memory_def
    by (rule after_write_commits) (use assms(2) in \<open>auto simp: res_simps serves_def intro: forget_commits\<close>)
next
  case (app_flushes db0 fr err)
  show ?thesis
  proof (cases err)
    case None
    obtain flushes fs plan generation updated where w: "ma_flushes app = Some flushes" "flushes scope = Inr (Some fs)"
        "apply_window fs db source_window_name plan (fr_current fr) generation = Inr (updated, db')"
      using flush_applied [OF app_flushes(1) [unfolded None] app_flushes(2)] by blast
    have "fs_memory fs = r" using assms(2) w(1,2) by (simp add: serves_def)
    then show ?thesis using w(3) by (elim apply_window_Inr) (auto simp: commits_def dest!: apply_plan_Inr)
  next
    case (Some e)
    then show ?thesis using app_flushes
      by (auto simp: flush_window_def Let_def commits_def split: option.splits sum.splits if_splits)
  qed
qed (simp add: commits_def)

text \<open>Commits only add revisions and entry versions, so what a citation names stays where it is.\<close>

lemma find_version_append:
  "find_version r tb i e v = Some x \<Longrightarrow> stored_versions r tb' i = stored_versions r tb i @ ws \<Longrightarrow> find_version r tb' i e v = Some x"
  by (simp add: find_version_def find_append)

lemma commits_keep:
  assumes "commits r db db'" "memory_inv (db_memory db)"
  shows "memory_inv (db_memory db')"
    "get_memory r (db_memory db) ref = Inr m \<Longrightarrow> get_memory r (db_memory db') ref = Inr m"
    "find_version r (db_memory db) i e v = Some x \<Longrightarrow> find_version r (db_memory db') i e v = Some x"
proof -
  consider "db_memory db' = db_memory db" | c n where "commit_memory r (db_memory db) c = Inr (n, db_memory db')"
    using assms(1) by (auto simp: commits_def)
  then have "memory_inv (db_memory db')
    \<and> (get_memory r (db_memory db) ref = Inr m \<longrightarrow> get_memory r (db_memory db') ref = Inr m)
    \<and> (find_version r (db_memory db) i e v = Some x \<longrightarrow> find_version r (db_memory db') i e v = Some x)"
  proof cases
    case 2
    have keeps: "get_memory r (db_memory db) ref = Inr m \<Longrightarrow> get_memory r (db_memory db') ref = Inr m"
      using ms.commit_keeps [of "db_memory db" r c n "db_memory db'" ref m] assms(2) 2 by (simp add: repository_backend_def)
    then show ?thesis
      using commit_memory_facts(1) [OF 2 assms(2)] find_version_append stored_versions_commit [OF 2] by blast
  qed (use assms(2) in simp)
  then show "memory_inv (db_memory db')"
    "get_memory r (db_memory db) ref = Inr m \<Longrightarrow> get_memory r (db_memory db') ref = Inr m"
    "find_version r (db_memory db) i e v = Some x \<Longrightarrow> find_version r (db_memory db') i e v = Some x" by blast+
qed

lemma validate_citation_Inr:
  assumes "ms_backend svc = database_backend r" "validate_citation svc db c = Inr v"
  obtains m where "find_version r (db_memory db) (ar_id (ct_memory c)) (ct_entry c) (ct_version c) = Some v"
    "get_memory r (db_memory db) (ct_memory c) = Inr m"
proof -
  have "find_version r (db_memory db) (ar_id (ct_memory c)) (ct_entry c) (ct_version c) = Some v
      \<and> (\<exists>m. get_memory r (db_memory db) (ct_memory c) = Inr m)"
    using assms by (auto simp: validate_citation_def service_expand_def database_backend_def expand_hits_def res_simps
        validate_anchor_def list_all2_Cons1 split: option.splits)
  then show thesis using that by blast
qed

lemma validate_citation_kept:
  assumes "ms_backend svc = database_backend r" "validate_citation svc db c = Inr v" "commits r db db'" "memory_inv (db_memory db)"
  shows "validate_citation svc db' c = Inr v"
proof -
  obtain m where m: "find_version r (db_memory db) (ar_id (ct_memory c)) (ct_entry c) (ct_version c) = Some v"
      "get_memory r (db_memory db) (ct_memory c) = Inr m"
    using assms(1,2) by (rule validate_citation_Inr)
  note keep = commits_keep(2,3) [OF assms(3,4)]
  show ?thesis using assms(1,2) m keep(1) [OF m(2)] keep(2) [OF m(1)]
    by (simp add: validate_citation_def service_expand_def database_backend_def expand_hits_def validate_anchor_def)
qed

lemma get_memory_entry_kept:
  assumes "serves app scope r" "get_memory_entry app db scope c = Inr rec" "commits r db db'" "memory_inv (db_memory db)"
  shows "get_memory_entry app db' scope c = Inr rec"
proof -
  obtain svc m v where s: "application_service app scope = Inr svc" "mb_get (ms_backend svc) db (ct_memory c) = Inr m"
      "ar_id (a_ref m) = ma_artifact app" "cited_entry svc db m c = Inr v" "entry_record_of m v = Inr rec"
    using assms(2) by (auto simp: get_memory_entry_def res_simps)
  have b: "ms_backend svc = database_backend r" using assms(1) s(1) by (simp add: serves_def)
  have "mb_get (ms_backend svc) db' (ct_memory c) = Inr m"
    using s(2) b commits_keep(2) [OF assms(3,4)] by (simp add: database_backend_def)
  moreover have "cited_entry svc db' m c = Inr v"
    using s(4) validate_citation_kept [OF b _ assms(3,4)] by (auto simp: cited_entry_def res_simps)
  ultimately show ?thesis using s by (simp add: get_memory_entry_def on_memory_def)
qed

text \<open>C20: a citation that resolves once resolves to the same record, with the same text, hash and state,
  after any sequence of remember, revise, retire and flush commands and of Source operations.\<close>

theorem citation_stable:
  assumes "serves app scope r" "memory_inv (db_memory db)" "(application_step app scope)\<^sup>*\<^sup>* db db'"
    and "get_memory_entry app db scope c = Inr rec"
  shows "get_memory_entry app db' scope c = Inr rec"
proof -
  have "memory_inv (db_memory db') \<and> get_memory_entry app db' scope c = Inr rec"
    using assms(3)
  proof (induction rule: rtranclp_induct)
    case (step u w)
    then show ?case
      using step_commits_memory [OF step.hyps(2) assms(1)] commits_keep(1) get_memory_entry_kept [OF assms(1)] by blast
  qed (use assms in simp)
  then show ?thesis by blast
qed

text \<open>A revise or retire command that cites a revision other than the head, and a remember command
  that expects one, change nothing and report which revision is the head.\<close>

theorem stale_commands_rejected:
  assumes "application_service app scope = Inr svc" "mb_latest (ms_backend svc) db (ma_artifact app) = Inr head"
    and "ar_id (a_ref head) = ma_artifact app"
    and "new_artifact_ref memory_family (ma_artifact app) n = Inr requested" "n \<noteq> ar_revision (a_ref head)"
    and "ct_memory c = requested" "rq_expected request = Some n"
  shows "revise_memory app db scope c kind text reason = (Inl (ApplicationMemory (MemoryArtifact (ArtRevisionConflict requested (a_ref head)))), db)
    \<and> retire_memory app db scope c reason = (Inl (ApplicationMemory (MemoryArtifact (ArtRevisionConflict requested (a_ref head)))), db)
    \<and> remember_memory app db scope request = (Inl (ApplicationMemory (MemoryArtifact (ArtRevisionConflict requested (a_ref head)))), db)"
proof -
  have r: "requested = \<lparr>ar_family = memory_family, ar_id = ma_artifact app, ar_revision = n\<rparr>"
    using assms(4) by (simp add: new_artifact_ref_iff)
  then have ne: "requested \<noteq> a_ref head" using assms(5) by (metis artifact_ref.select_convs(3))
  have cur: "current_citation app svc db c = Inl (ApplicationMemory (MemoryArtifact (ArtRevisionConflict requested (a_ref head))))"
    using assms(2,3,6) r ne by (simp add: current_citation_def on_memory_def check_def)
  have exp: "validate_expected_revision (ma_artifact app) (Some head) (rq_expected request)
      = Inl (ApplicationMemory (MemoryArtifact (ArtRevisionConflict requested (a_ref head))))"
    using assms(4,5,7) by (simp add: validate_expected_revision_def on_memory_def lift_artifact_def check_def)
  show ?thesis
    using assms(1,2) cur exp
    by (simp add: revise_memory_def retire_memory_def remember_memory_def after_write_def head_or_none_def)
qed

lemma current_citation_Inr:
  assumes "current_citation app svc db c = Inr (current, entry)" "ms_backend svc = database_backend r"
  shows "latest_memory r (db_memory db) (ma_artifact app) = Inr current" "ct_memory c = a_ref current"
    "\<exists>e \<in> set (cn_manifest (a_content current)). me_entry e = ct_entry c \<and> me_version e = ct_version c"
    "find_version r (db_memory db) (ar_id (ct_memory c)) (ct_entry c) (ct_version c) = Some entry"
proof -
  have cited: "validate_citation svc db c = Inr entry"
    using assms(1) by (auto simp: current_citation_def cited_entry_def res_simps)
  show "latest_memory r (db_memory db) (ma_artifact app) = Inr current" "ct_memory c = a_ref current"
    "\<exists>e \<in> set (cn_manifest (a_content current)). me_entry e = ct_entry c \<and> me_version e = ct_version c"
    using assms by (auto simp: current_citation_def cited_entry_def res_simps database_backend_def list_ex_iff)
  show "find_version r (db_memory db) (ar_id (ct_memory c)) (ct_entry c) (ct_version c) = Some entry"
    using validate_citation_Inr [OF assms(2) cited] by blast
qed

lemma latest_memory_id: "latest_memory r tb i = Inr m \<Longrightarrow> ar_id (a_ref m) = i"
  by (auto simp: latest_memory_def latest_artifact_def res_simps new_artifact_ref_iff split: option.splits sum.splits store_error.splits
      dest!: get_artifact_ref)

lemma find_version_key: "find_version r tb i e v = Some x \<Longrightarrow> ev_entry x = e \<and> ev_id x = v"
  by (auto simp: find_version_def find_Some_iff)

lemma entry_mutation_Inr:
  assumes "entry_mutation svc db current updated k = Inr result"
  obtains v e where "mu_previous result = Some (ar_revision (a_ref current))" "mu_memory result = a_ref updated"
    "e \<in> set (cn_manifest (a_content updated))" "me_entry e = k" "me_version e = ev_id v" "ev_entry v = k"
    "mu_entry result = Some \<lparr>er_memory = a_ref updated, er_state = me_state e, er_entry = v\<rparr>"
proof -
  obtain entries v rec where v: "find (\<lambda>v. ev_entry v = k) entries = Some v" "entry_record_of updated v = Inr rec"
      "result = \<lparr>mu_previous = Some (ar_revision (a_ref current)), mu_memory = a_ref updated, mu_entry = Some rec\<rparr>"
    using assms by (auto simp: entry_mutation_def logical_entry_def res_simps split: option.splits)
  obtain e where e: "find (\<lambda>e. me_entry e = ev_entry v \<and> me_version e = ev_id v) (cn_manifest (a_content updated)) = Some e"
      "rec = \<lparr>er_memory = a_ref updated, er_state = me_state e, er_entry = v\<rparr>"
    using v(2) by (auto simp: entry_record_of_def split: option.splits)
  have "ev_entry v = k" using v(1) by (auto simp: find_Some_iff)
  moreover have "e \<in> set (cn_manifest (a_content updated)) \<and> me_entry e = ev_entry v \<and> me_version e = ev_id v"
    using e(1) by (auto simp: find_Some_iff)
  ultimately show thesis using that [of e v] v(3) e(2) by simp
qed

text \<open>Retiring a cited entry of the head makes exactly that entry inactive in the next head: the result
  is the record of the cited version with the state inactive, every other line of the manifest is
  the old one, and the reported revision is the new head. The entry identifier has no NUL byte.\<close>

theorem retire_exact:
  assumes "serves app scope r" "memory_inv (db_memory db)"
    and "\<forall>svc. application_service app scope = Inr svc \<longrightarrow>
      readable (database_backend r) (\<lambda>db. stored_versions r (db_memory db)) (ms_env svc) db"
    and "retire_memory app db scope c reason = (Inr result, db')" "CHR 0x00 \<notin> set (ct_entry c)"
    and "get_memory r (db_memory db) (ct_memory c) = Inr head"
  shows "\<exists>rec m. mu_entry result = Some rec \<and> er_state rec = Inactive \<and> er_memory rec = mu_memory result
    \<and> ev_entry (er_entry rec) = ct_entry c \<and> ev_id (er_entry rec) = ct_version c
    \<and> mu_previous result = Some (ar_revision (ct_memory c))
    \<and> latest_memory r (db_memory db') (ma_artifact app) = Inr m \<and> a_ref m = mu_memory result
    \<and> cn_manifest (a_content m) = map (with_state Inactive {ct_entry c}) (cn_manifest (a_content head))"
proof -
  obtain svc current entry updated where s: "application_service app scope = Inr svc" "current_citation app svc db c = Inr (current, entry)"
      "forget svc db current [entry] reason = Inr (updated, db')" "entry_mutation svc db' current updated (ev_entry entry) = Inr result"
    using assms(4) unfolding retire_memory_def after_write_def by (auto simp: res_simps split: sum.splits)
  have b: "ms_backend svc = database_backend r" using assms(1) s(1) by (simp add: serves_def)
  note cur = current_citation_Inr [OF s(2) b]
  have key: "ev_entry entry = ct_entry c" using find_version_key [OF cur(4)] by simp
  note run = s(3) [unfolded forget_def]
  have cb: "canonical_base svc db (Some current) = Inr (Some current)" by (rule canonical_base_value [OF run])
  then have get: "get_memory r (db_memory db) (a_ref current) = Inr current"
    "latest_memory r (db_memory db) (ar_id (a_ref current)) = Inr current"
    using b by (auto simp: canonical_base_def res_simps database_backend_def)
  then have head: "head = current" using assms(6) cur(2) by simp
  have rd: "readable (database_backend r) (\<lambda>db. stored_versions r (db_memory db)) (ms_env svc) db" using assms(3) s(1) by blast
  then have wf: "wf_manifest (cn_manifest (a_content current))" using get(1) by (simp add: readable_def database_backend_def)
  have returns: "returns_commit svc db" using dm.commit_returns b unfolding returns_commit_def by metis
  have "CHR 0x00 \<notin> set (ev_entry entry)" using assms(5) key by simp
  then have exact: "cn_manifest (a_content updated) = map (with_state Inactive {ct_entry c}) (cn_manifest (a_content current))"
    and ids: "updated = current \<and> db' = db \<or> ar_revision (a_ref updated) = wrap64 (ar_revision (a_ref current) + 1) \<and> ar_id (a_ref updated) = ar_id (a_ref current)"
    using set_entry_state_manifest [OF run wf _ _ returns] key by simp_all
  have id: "ar_id (a_ref current) = ma_artifact app" by (rule latest_memory_id [OF cur(1)])
  have latest: "latest_memory r (db_memory db') (ma_artifact app) = Inr updated"
    using dm.set_entry_state_commits [OF run b]
  proof
    assume "\<exists>c. mb_commit (database_backend r) db c = Inr (updated, db')"
    then obtain c where "mb_commit (database_backend r) db c = Inr (updated, db')" by blast
    from dm.commit_latest [OF assms(2) this] show ?thesis using ids id by (auto simp: database_backend_def)
  qed (use cur(1) in simp)
  obtain v e where m: "mu_previous result = Some (ar_revision (a_ref current))" "mu_memory result = a_ref updated"
      "e \<in> set (cn_manifest (a_content updated))" "me_entry e = ct_entry c" "me_version e = ev_id v" "ev_entry v = ct_entry c"
      "mu_entry result = Some \<lparr>er_memory = a_ref updated, er_state = me_state e, er_entry = v\<rparr>"
    using entry_mutation_Inr [OF s(4)] unfolding key .
  obtain e0 where e0: "e0 \<in> set (cn_manifest (a_content current))" "e = with_state Inactive {ct_entry c} e0" using m(3) exact by auto
  obtain e1 where e1: "e1 \<in> set (cn_manifest (a_content current))" "me_entry e1 = ct_entry c" "me_version e1 = ct_version c" using cur(3) by blast
  have "e0 = e1" using wf e0 e1(1,2) m(4) by (auto simp: wf_manifest_def distinct_map inj_on_def)
  then have "me_state e = Inactive" "ev_id v = ct_version c" using e0 e1 m(4,5) by (simp_all add: with_state_def)
  then show ?thesis using m latest exact head cur(2) by auto
qed

section \<open>Windows that block the flush\<close>

lemma fold_res_fails:
  assumes "x \<in> set xs" "\<And>s. \<exists>e. f x s = Inl e"
  shows "\<exists>e. fold_res f xs s = Inl e"
  using assms(1)
proof (induction xs arbitrary: s)
  case (Cons y ys)
  show ?case
  proof (cases "f y s")
    case (Inr s')
    then have "y \<noteq> x" using assms(2) [of s] by auto
    then show ?thesis using Inr Cons by simp
  qed simp
qed simp

lemma and_then_fails: "\<exists>e. m = Inl e \<Longrightarrow> \<exists>e. and_then m f = Inl e"
  by auto

lemma native_evidence_rejected:
  assumes "NativeValue n \<in> set vals"
  shows "\<exists>e. canonical_operation_evidence svc vals artifacts = Inl e"
  unfolding canonical_operation_evidence_def
  by (intro and_then_fails fold_res_fails [OF assms]) (simp add: require_evidence_def)

lemma blocked_plan:
  assumes "vals = [] \<or> (\<exists>n. NativeValue n \<in> set vals)"
  shows "plan_remember svc st base vals [] [] RememberExtract \<noteq> Inr plan"
proof
  assume plan: "plan_remember svc st base vals [] [] RememberExtract = Inr plan"
  then have "vals \<noteq> []" "\<exists>evidence. canonical_operation_evidence svc vals [] = Inr evidence"
    by (auto simp: plan_remember_def select_remember_mode_def res_simps split: if_splits)
  moreover from this(1) assms obtain n where "NativeValue n \<in> set vals" by blast
  ultimately show False using native_evidence_rejected [of n vals svc "[]"] by auto
qed

text \<open>C21: a flush whose window holds no value that may be extracted, or holds a native Source that is
  neither content nor a Skill snapshot, reports an error and leaves the cursor and the Memory as they
  are, whatever the service: every later flush observes the same window and fails the same way.\<close>

theorem flush_blocked:
  assumes "ma_flushes app = Some flushes" "flushes scope = Inr (Some fs)"
    and "observe_window fs db source_window_name (ma_limit app) = Inr ob" "wo_next ob \<noteq> wo_previous ob"
    and "wo_values ob = [] \<or> (\<exists>n. NativeValue n \<in> set (wo_values ob))"
  shows "\<exists>result e. flush_window app (\<lambda>_. db) db scope = (result, Some e, db)"
proof -
  let ?run = "and_then (application_service app scope) (\<lambda>svc.
           and_then (head_or_none app svc db) (\<lambda>current.
           and_then (on_memory (plan_remember svc db current (wo_values ob) [] [] RememberExtract)) (\<lambda>plan.
           apply_window fs db source_window_name plan (wo_next ob) (wo_generation ob))))"
  have "?run \<noteq> Inr x" for x
    by (simp add: res_simps blocked_plan [OF assms(5)])
  then have "\<exists>e. ?run = Inl e" by (cases ?run) auto
  then show ?thesis using assms(1-4) by (auto simp: flush_window_def Let_def)
qed

section \<open>Reading back a written entry\<close>

lemma entry_mutation_total:
  assumes "memory_inv (db_memory db)" "ms_backend svc = database_backend r"
    and "readable (database_backend r) (\<lambda>db. stored_versions r (db_memory db)) (ms_env svc) db"
    and "get_memory r (db_memory db) (a_ref updated) = Inr updated" "k \<in> me_entry ` set (cn_manifest (a_content updated))"
  shows "\<exists>result. entry_mutation svc db current updated k = Inr result"
proof -
  let ?lines = "cn_manifest (a_content updated)"
  have get: "mb_get (database_backend r) db (a_ref updated) = Inr updated" using assms(4) by (simp add: database_backend_def)
  obtain vs where vs: "validated_entries svc db updated = Inr vs"
      and look: "map_res (lookup_version (stored_versions r (db_memory db) (ar_id (a_ref updated)))) ?lines = Inr vs"
    using dm.validated_complete [OF assms(1,2) get] assms(3) get by (auto simp: readable_def)
  obtain by_id where items: "map_res (validated_entry (ms_env svc) (ar_id (a_ref updated)) by_id) ?lines = Inr vs"
    using vs by (auto simp: validated_entries_def and_then_eq_Inr)
  have "list_all2 (\<lambda>e v. ev_id v = me_version e) ?lines vs"
    using look by (auto simp: map_res_eq_Inr lookup_version_def find_Some_iff split: option.splits elim!: list_all2_mono)
  moreover have "list_all2 (\<lambda>e v. ev_entry v = me_entry e) ?lines vs"
    using items by (auto simp: map_res_eq_Inr validated_entry_def and_then_eq_Inr res_simps split: option.splits elim!: list_all2_mono)
  ultimately have lines: "list_all2 (\<lambda>e v. ev_id v = me_version e \<and> ev_entry v = me_entry e) ?lines vs"
    by (simp add: list_all2_conv_all_nth)
  have pairs: "map (\<lambda>v. (ev_entry v, ev_id v)) vs = map (\<lambda>e. (me_entry e, me_version e)) ?lines"
    using lines by (simp add: list_all2_conv_all_nth list_eq_iff_nth_eq)
  have same: "(\<lambda>v. (ev_entry v, ev_id v)) ` set vs = (\<lambda>e. (me_entry e, me_version e)) ` set ?lines"
    using arg_cong [OF pairs, of set] by simp
  then have "fst ` (\<lambda>v. (ev_entry v, ev_id v)) ` set vs = fst ` (\<lambda>e. (me_entry e, me_version e)) ` set ?lines" by (rule arg_cong)
  then have "k \<in> ev_entry ` set vs" using assms(5) by (simp add: image_image)
  then obtain v where v: "find (\<lambda>v. ev_entry v = k) vs = Some v"
    by (cases "find (\<lambda>v. ev_entry v = k) vs") (auto simp: find_None_iff)
  then have "v \<in> set vs" by (auto simp: find_Some_iff)
  then have "(ev_entry v, ev_id v) \<in> (\<lambda>e. (me_entry e, me_version e)) ` set ?lines" using same by blast
  then obtain e where "e \<in> set ?lines" "ev_id v = me_version e" "ev_entry v = me_entry e" by auto
  then obtain rec where "entry_record_of updated v = Inr rec"
    by (cases "find (\<lambda>e. me_entry e = ev_entry v \<and> me_version e = ev_id v) ?lines") (auto simp: entry_record_of_def find_None_iff)
  moreover have "canonical_memory svc db updated = Inr updated"
    using get assms(2) by (simp add: canonical_memory_def)
  ultimately show ?thesis using vs v
    by (simp add: entry_mutation_def logical_entry_def service_entries_def on_memory_def)
qed

end
