(* ===== verification/Memory_Search.thy ===== *)
theory Memory_Search
  imports Search_Ranking Memory_Commands
begin

text \<open>
  Memory search from the application to the store: \<open>MemoryApplication.Search\<close> with its retries
  (\<open>internal/runtime/memory_queries.go\<close>), \<open>Service.Search\<close> with mode selection and reranking
  (\<open>artifact/memory/service_search.go\<close>) and the transaction of the repository around the search index
  (\<open>internal/sqlstore/memory.go\<close>, \<open>memory_index.go\<close>). A search takes several transactions while other
  commands commit: \<open>clock n\<close> is the database that the n-th read sees, reads that a branch does not make are
  skipped. The transaction of the repository reads at three instants, because OceanBase reads committed
  data per statement; with SQLite the three are equal. The two query operations of the index are a
  parameter. The latency and the token usage of a reranking are not modelled.
\<close>

section \<open>Requests and results\<close>

datatype search_mode = SearchFTS | SearchVector | SearchHybrid | SearchAuto | OtherMode string

fun mode_name :: "search_mode \<Rightarrow> string" where
  "mode_name SearchFTS = ''fts''"
| "mode_name SearchVector = ''vector''"
| "mode_name SearchHybrid = ''hybrid''"
| "mode_name SearchAuto = ''auto''"
| "mode_name (OtherMode s) = s"

record search_request =
  sq_query :: string
  sq_analyzed :: string
  sq_memories :: "artifact_ref list"
  sq_limit :: int
  sq_mode :: search_mode
  sq_vector :: "float64 list option"
  sq_profile :: "embedding_profile option"

record search_channels =
  sc_fts :: "channel_hit list"
  sc_vector :: "channel_hit list"

record reranker =
  rk_policy :: string
  rk_rerank :: "string \<Rightarrow> search_hit list \<Rightarrow> int \<Rightarrow> memory_error + rerank_decision"

definition rerank_version :: string where
  "rerank_version = ''powercontext.memory.rerank.listwise.v1''"

definition llm_reranker :: "(rerank_input \<Rightarrow> memory_error + int list) \<Rightarrow> reranker" where
  "llm_reranker generate = \<lparr>rk_policy = rerank_version, rk_rerank = llm_rerank generate\<rparr>"

record rerank_trace =
  rkt_policy :: string
  rkt_candidates :: "search_hit list"
  rkt_decision :: rerank_decision

record search_result =
  sx_mode :: search_mode
  sx_hits :: "search_hit list"
  sx_rerank :: "rerank_trace option"

section \<open>The index\<close>

record 'i search_index =
  si_search :: "'i \<Rightarrow> string \<Rightarrow> search_request \<Rightarrow> memory_error + search_channels"
  si_complete :: "'i \<Rightarrow> string \<Rightarrow> artifact_ref list \<Rightarrow> embedding_profile \<Rightarrow> memory_error + bool"

definition no_search_index :: "'i search_index" where
  "no_search_index = \<lparr>si_search = (\<lambda>_ _ _. Inl (CapabilityNotSupported ''fts'')), si_complete = (\<lambda>_ _ _ _. Inr False)\<rparr>"

text \<open>\<open>CompositeMemoryIndex\<close>: several projections over one database, each with its write and its query side.\<close>

type_synonym 'i full_index = "'i memory_index \<times> 'i search_index"

definition add_capabilities :: "memory_capabilities \<Rightarrow> memory_capabilities \<Rightarrow> memory_error + memory_capabilities" where
  "add_capabilities caps all =
     (let merged = all\<lparr>cp_fts := cp_fts all \<or> cp_fts caps, cp_vector := cp_vector all \<or> cp_vector caps\<rparr> in
      if \<not> cp_vector caps then Inr merged
      else case cp_profile caps of
        None \<Rightarrow> Inl (MemoryFault ''sqlstore: vector Memory index has no embedding profile'')
      | Some profile \<Rightarrow>
         (if cp_profile all \<noteq> None \<and> cp_profile all \<noteq> Some profile
          then Inl (MemoryFault ''sqlstore: vector Memory indexes use different embedding profiles'')
          else Inr (merged\<lparr>cp_profile := Some profile\<rparr>)))"

definition composite_replace ::
  "'i full_index list \<Rightarrow> 'i \<Rightarrow> string \<Rightarrow> artifact_ref \<Rightarrow> memory_projection list \<Rightarrow> memory_error + 'i" where
  "composite_replace indexes i scope_id ref projections = fold_res (\<lambda>x i. ix_replace (fst x) i scope_id ref projections) indexes i"

definition composite_hydrate ::
  "'i full_index list \<Rightarrow> 'i \<Rightarrow> string \<Rightarrow> memory_projection list \<Rightarrow> memory_error + memory_projection list" where
  "composite_hydrate indexes i scope_id projections = fold_res (\<lambda>x ps. ix_hydrate (fst x) i scope_id ps) indexes projections"

definition composite_search :: "'i full_index list \<Rightarrow> 'i \<Rightarrow> string \<Rightarrow> search_request \<Rightarrow> memory_error + search_channels" where
  "composite_search indexes i scope_id request = fold_res (\<lambda>x all.
     and_then (si_search (snd x) i scope_id request) (\<lambda>channels.
     Inr \<lparr>sc_fts = sc_fts all @ sc_fts channels, sc_vector = sc_vector all @ sc_vector channels\<rparr>)) indexes \<lparr>sc_fts = [], sc_vector = []\<rparr>"

fun composite_complete ::
  "'i full_index list \<Rightarrow> bool \<Rightarrow> 'i \<Rightarrow> string \<Rightarrow> artifact_ref list \<Rightarrow> embedding_profile \<Rightarrow> memory_error + bool" where
  "composite_complete [] found i scope_id memories profile = Inr found"
| "composite_complete (x # xs) found i scope_id memories profile =
     (if \<not> cp_vector (ix_capabilities (fst x)) then composite_complete xs found i scope_id memories profile
      else
        and_then (si_complete (snd x) i scope_id memories profile) (\<lambda>whole.
        if whole then composite_complete xs True i scope_id memories profile else Inr False))"

definition new_composite_memory_index :: "'i full_index list \<Rightarrow> memory_error + 'i full_index" where
  "new_composite_memory_index indexes =
     and_then (check (indexes \<noteq> []) (MemoryFault ''sqlstore: composite Memory index requires at least one index'')) (\<lambda>_.
     and_then (fold_res (\<lambda>x all. add_capabilities (ix_capabilities (fst x)) all) indexes
       \<lparr>cp_fts = False, cp_vector = False, cp_hybrid = False, cp_profile = None\<rparr>) (\<lambda>caps.
     Inr (\<lparr>ix_capabilities = caps\<lparr>cp_hybrid := cp_fts caps \<and> cp_vector caps\<rparr>,
            ix_replace = composite_replace indexes, ix_hydrate = composite_hydrate indexes\<rparr>,
          \<lparr>si_search = composite_search indexes, si_complete = composite_complete indexes False\<rparr>)))"

section \<open>The repository\<close>

definition repository_search ::
  "'i memory_repository \<Rightarrow> 'i search_index \<Rightarrow> 'i memory_tables \<Rightarrow> 'i memory_tables \<Rightarrow> 'i memory_tables \<Rightarrow> search_request
    \<Rightarrow> memory_error + search_channels" where
  "repository_search r si before during after request =
     and_then (validate_search_heads r before (sq_memories request)) (\<lambda>_.
     and_then (si_search si (mt_index during) (mr_scope r) request) (\<lambda>channels.
     and_then (validate_search_heads r after (sq_memories request)) (\<lambda>_. Inr channels)))"

record 's search_backend =
  sb_complete :: "'s \<Rightarrow> artifact_ref list \<Rightarrow> embedding_profile \<Rightarrow> memory_error + bool"
  sb_search :: "'s \<Rightarrow> 's \<Rightarrow> 's \<Rightarrow> search_request \<Rightarrow> memory_error + search_channels"

definition database_search :: "'i memory_repository \<Rightarrow> 'i search_index \<Rightarrow> 'i database search_backend" where
  "database_search r si = \<lparr>sb_complete = (\<lambda>db. si_complete si (mt_index (db_memory db)) (mr_scope r)),
     sb_search = (\<lambda>before during after. repository_search r si (db_memory before) (db_memory during) (db_memory after))\<rparr>"

section \<open>The service\<close>

record 's search_service =
  ss_text :: text_env
  ss_order :: "hit_identity list \<Rightarrow> hit_identity list"
  ss_backend :: "'s search_backend"
  ss_reranker :: "reranker option"
  ss_rerank_limit :: int

definition new_rerank_limit :: "int \<Rightarrow> memory_error + int" where
  "new_rerank_limit configured =
     (let limit = (if configured = 0 then 30 else configured) in
      if limit < 1 then Inl (InvalidOperation ''search-limit'') else Inr limit)"

definition dedupe_memories :: "memory list \<Rightarrow> memory list" where
  "dedupe_memories memories = first_by a_ref [] memories"

fun validate_heads :: "('s, 'x) memory_service \<Rightarrow> (nat \<Rightarrow> 's) \<Rightarrow> nat \<Rightarrow> memory list \<Rightarrow> memory_error + unit" where
  "validate_heads svc clock n [] = Inr ()"
| "validate_heads svc clock n (m # ms) =
     and_then (mb_get (ms_backend svc) (clock n) (a_ref m)) (\<lambda>exact.
     and_then (mb_latest (ms_backend svc) (clock (Suc n)) (ar_id (a_ref m))) (\<lambda>latest.
     and_then (check (exact = m \<and> a_ref exact = a_ref latest) (CapabilityNotSupported ''head'')) (\<lambda>_.
     validate_heads svc clock (n + 2) ms)))"

definition select_search_mode ::
  "('s, 'x) memory_service \<Rightarrow> (artifact_ref list \<Rightarrow> embedding_profile \<Rightarrow> memory_error + bool) \<Rightarrow> search_mode \<Rightarrow> artifact_ref list
    \<Rightarrow> memory_error + search_mode" where
  "select_search_mode svc vector_complete requested memories =
     (let caps = mb_capabilities (ms_backend svc) in
      if requested = SearchFTS then
        and_then (check (cp_fts caps) (CapabilityNotSupported ''fts'')) (\<lambda>_. Inr SearchFTS)
      else
        and_then (case (cp_profile caps, ms_embedding svc) of
            (Some profile, Some (own, _)) \<Rightarrow>
              if cp_vector caps \<and> embedding_profile_matches own profile then vector_complete memories profile else Inr False
          | _ \<Rightarrow> Inr False) (\<lambda>vector_available.
        let hybrid_available = (cp_hybrid caps \<and> vector_available) in
        case requested of
          SearchVector \<Rightarrow> and_then (check vector_available (CapabilityNotSupported ''vector'')) (\<lambda>_. Inr SearchVector)
        | SearchHybrid \<Rightarrow> and_then (check hybrid_available (CapabilityNotSupported ''hybrid'')) (\<lambda>_. Inr SearchHybrid)
        | SearchAuto \<Rightarrow>
            (if hybrid_available then Inr SearchHybrid
             else and_then (check (cp_fts caps) (CapabilityNotSupported ''fts'')) (\<lambda>_. Inr SearchFTS))
        | _ \<Rightarrow> Inl (InvalidOperation ''search-mode'')))"

text \<open>The embedding of the query: the mode it leaves, the vector and its profile.\<close>

definition embed_query ::
  "('s, 'x) memory_service \<Rightarrow> search_mode \<Rightarrow> search_mode \<Rightarrow> string
    \<Rightarrow> memory_error + search_mode \<times> float64 list option \<times> embedding_profile option" where
  "embed_query svc requested selected query =
     (if selected \<noteq> SearchVector \<and> selected \<noteq> SearchHybrid then Inr (selected, None, None)
      else
        let caps = mb_capabilities (ms_backend svc) in
        case cp_profile caps of
          None \<Rightarrow> Inl (CapabilityNotSupported (mode_name selected))
        | Some profile \<Rightarrow>
           (if ep_distance profile \<noteq> ''l2'' \<or> ep_normalization profile \<noteq> ''unit''
            then Inl (CapabilityNotSupported (mode_name selected))
            else case embed_texts svc [query] profile of
              Inr vectors \<Rightarrow> Inr (selected, Some (hd vectors), Some profile)
            | Inl e \<Rightarrow>
               (if requested = SearchAuto \<and> cp_fts caps \<and> is_unavailable e then Inr (SearchFTS, None, None)
                else if is_unavailable e then Inl (CapabilityNotSupported (mode_name selected))
                else Inl e)))"

definition coarse_limit :: "'s search_service \<Rightarrow> int \<Rightarrow> int" where
  "coarse_limit sv limit = (if ss_reranker sv = None then limit else max limit (ss_rerank_limit sv))"

definition candidate_limit :: "int \<Rightarrow> int" where
  "candidate_limit coarse = (if coarse \<le> max_int64 div 4 then max (coarse * 4) 32 else max_int64)"

definition reranked_search_result ::
  "'s search_service \<Rightarrow> search_mode \<Rightarrow> string \<Rightarrow> search_hit list \<Rightarrow> int \<Rightarrow> memory_error + search_result" where
  "reranked_search_result sv mode query hits limit =
     (let plain = Inr \<lparr>sx_mode = mode, sx_hits = take (nat (min limit (int (length hits)))) hits, sx_rerank = None\<rparr> in
      case ss_reranker sv of
        None \<Rightarrow> plain
      | Some rk \<Rightarrow>
         (if hits = [] then plain
          else
            and_then (rk_rerank rk query hits (min limit (int (length hits)))) (\<lambda>d.
            and_then (map_res (\<lambda>rank. if rank < 1 \<or> rank > int (length hits) then Inl (MemoryInference False ''memory-rerank'')
                else Inr (hits ! nat (rank - 1))) (rd_ranks d)) (\<lambda>selected.
            Inr \<lparr>sx_mode = mode, sx_hits = selected,
              sx_rerank = Some \<lparr>rkt_policy = rk_policy rk, rkt_candidates = hits, rkt_decision = d\<rparr>\<rparr>))))"

definition fused_channels ::
  "float_ops \<Rightarrow> 's search_service \<Rightarrow> search_mode \<Rightarrow> string \<Rightarrow> search_channels \<Rightarrow> int \<Rightarrow> memory_error + search_hit list" where
  "fused_channels fo sv mode query channels limit =
     (let fts = admit_fts_candidates (ss_text sv) query (sc_fts channels);
          vector = admit_vector_candidates fo (sc_vector channels) in
      fuse_rankings (ss_order sv) (if mode = SearchVector then [] else fts) (if mode = SearchFTS then [] else vector) limit)"

definition service_search ::
  "'s search_service \<Rightarrow> ('s, 'x) memory_service \<Rightarrow> (nat \<Rightarrow> 's) \<Rightarrow> nat \<Rightarrow> string \<Rightarrow> memory list \<Rightarrow> int \<Rightarrow> search_mode
    \<Rightarrow> memory_error + search_result" where
  "service_search sv svc clock n query memories limit mode =
     and_then (check (memories \<noteq> []) (InvalidOperation ''search-memories'')) (\<lambda>_.
     and_then (check (1 \<le> limit) (InvalidOperation ''search-limit'')) (\<lambda>_.
     and_then (check (mode \<in> {SearchFTS, SearchVector, SearchHybrid, SearchAuto}) (InvalidOperation ''search-mode'')) (\<lambda>_.
     let selected = dedupe_memories memories; refs = map a_ref selected; t = n + 2 * length selected in
     and_then (validate_heads svc clock n selected) (\<lambda>_.
     and_then (select_search_mode svc (sb_complete (ss_backend sv) (clock t)) mode refs) (\<lambda>chosen.
     and_then (normalize_text (ms_env svc) query) (\<lambda>normalized.
     and_then (embed_query svc mode chosen normalized) (\<lambda>(used, vector, profile).
     and_then (sb_search (ss_backend sv) (clock (t + 1)) (clock (t + 2)) (clock (t + 3))
       \<lparr>sq_query = normalized, sq_analyzed = analyze_text (ss_text sv) normalized, sq_memories = refs,
        sq_limit = candidate_limit (coarse_limit sv limit), sq_mode = used, sq_vector = vector, sq_profile = profile\<rparr>) (\<lambda>channels.
     and_then (fused_channels (ms_float svc) sv used normalized channels (coarse_limit sv limit)) (\<lambda>hits.
     reranked_search_result sv used normalized hits limit)))))))))"

section \<open>The application\<close>

record search_page =
  pg_memory :: "artifact_ref option"
  pg_mode :: "search_mode option"
  pg_hits :: "search_hit list"
  pg_rerank :: "rerank_trace option"

definition no_search_page :: search_page where
  "no_search_page = \<lparr>pg_memory = None, pg_mode = None, pg_hits = [], pg_rerank = None\<rparr>"

fun is_stale_memory_search :: "memory_error \<Rightarrow> bool" where
  "is_stale_memory_search (CapabilityNotSupported c) = (c = ''head'')"
| "is_stale_memory_search (InvalidCitation c) = (c = ''memory-mismatch'')"
| "is_stale_memory_search _ = False"

definition memory_search_attempts :: nat where
  "memory_search_attempts = 3"

text \<open>One round of the loop reads the head at \<open>n\<close>, searches within the next six reads and reads the head again.\<close>

fun search_with_service ::
  "('i, 'x) memory_application \<Rightarrow> 'i database search_service \<Rightarrow> ('i database, 'x) memory_service \<Rightarrow> (nat \<Rightarrow> 'i database)
    \<Rightarrow> string \<Rightarrow> int \<Rightarrow> search_mode \<Rightarrow> nat \<Rightarrow> nat \<Rightarrow> application_error + search_page" where
  "search_with_service app sv svc clock query limit mode 0 n = Inl (ApplicationFault ''no attempt left'')"
| "search_with_service app sv svc clock query limit mode (Suc left) n =
     and_then (head_or_none app svc (clock n)) (\<lambda>head.
     case head of
       None \<Rightarrow> Inr no_search_page
     | Some current \<Rightarrow>
        (case service_search sv svc clock (n + 1) query [current] limit mode of
           Inr s \<Rightarrow> Inr \<lparr>pg_memory = Some (a_ref current), pg_mode = Some (sx_mode s), pg_hits = sx_hits s, pg_rerank = sx_rerank s\<rparr>
         | Inl e \<Rightarrow>
            and_then (head_or_none app svc (clock (n + 7))) (\<lambda>head.
            case head of
              None \<Rightarrow> Inl (ApplicationMemory e)
            | Some latest \<Rightarrow>
               (if \<not> is_stale_memory_search e \<or> a_ref latest = a_ref current then Inl (ApplicationMemory e)
                else if left = 0 then Inl (ApplicationMemory (MemoryArtifact (ArtRevisionConflict (a_ref current) (a_ref latest))))
                else search_with_service app sv svc clock query limit mode left (n + 8)))))"

definition search_memory ::
  "('i, 'x) memory_application \<Rightarrow> 'i database search_service \<Rightarrow> (nat \<Rightarrow> 'i database) \<Rightarrow> string \<Rightarrow> string \<Rightarrow> int \<Rightarrow> search_mode
    \<Rightarrow> application_error + search_page" where
  "search_memory app sv clock scope query limit mode =
     and_then (application_service app scope) (\<lambda>svc.
     search_with_service app sv svc clock query limit mode memory_search_attempts 0)"

end
