(* ===== verification/Search_Properties.thy ===== *)
theory Search_Properties
  imports Memory_Search Memory_Properties
begin

text \<open>
  What a Memory search guarantees while other commands commit: the page is the search of one database in
  which the named revision was the head, and the retry loop fails for staleness only after as many
  commits as it makes attempts.
\<close>

section \<open>Heads only grow\<close>

definition grows :: "'i memory_repository \<Rightarrow> 'i database \<Rightarrow> 'i database \<Rightarrow> bool" where
  "grows r db db' \<longleftrightarrow> memory_inv (db_memory db')
     \<and> (\<forall>ref m. get_memory r (db_memory db) ref = Inr m \<longrightarrow> get_memory r (db_memory db') ref = Inr m)
     \<and> (\<forall>k v. memory_version r (db_memory db) k = Some v \<longrightarrow> (\<exists>v'. v \<le> v' \<and> memory_version r (db_memory db') k = Some v'))"

lemma grows_refl: "memory_inv (db_memory db) \<Longrightarrow> grows r db db"
  by (auto simp: grows_def)

lemma grows_trans: "grows r a b \<Longrightarrow> grows r b c \<Longrightarrow> grows r a c"
  unfolding grows_def by (metis order_trans)

lemma commits_grow:
  assumes "commits r db db'" "memory_inv (db_memory db)"
  shows "grows r db db'"
proof -
  have "\<exists>v'. v \<le> v' \<and> memory_version r (db_memory db') k = Some v'" if v: "memory_version r (db_memory db) k = Some v" for k v
  proof -
    consider "db_memory db' = db_memory db" | c n where "commit_memory r (db_memory db) c = Inr (n, db_memory db')"
      using assms(1) by (auto simp: commits_def)
    then show ?thesis
    proof cases
      case 2
      then show ?thesis using commit_memory_head [OF assms(2) 2, of k] v
        by (auto simp: next_version_def version_number_def)
    qed (use v in auto)
  qed
  then show ?thesis using commits_keep [OF assms] by (simp add: grows_def)
qed

lemma steps_grow:
  assumes "(application_step app scope)\<^sup>*\<^sup>* db db'" "serves app scope r" "memory_inv (db_memory db)"
  shows "grows r db db'"
  using assms(1)
proof (induction rule: rtranclp_induct)
  case (step a b)
  have "memory_inv (db_memory a)" using step.IH by (simp add: grows_def)
  from grows_trans [OF step.IH commits_grow [OF step_commits_memory [OF step.hyps(2) assms(2)] this]] show ?case .
qed (rule grows_refl [OF assms(3)])

text \<open>The databases that the reads of a search see.\<close>

definition runs :: "('i, 'x) memory_application \<Rightarrow> string \<Rightarrow> 'i memory_repository \<Rightarrow> (nat \<Rightarrow> 'i database) \<Rightarrow> bool" where
  "runs app scope r clock \<longleftrightarrow> serves app scope r \<and> memory_inv (db_memory (clock 0))
     \<and> (\<forall>n. (application_step app scope)\<^sup>*\<^sup>* (clock n) (clock (Suc n)))"

lemma runs_grow:
  assumes "runs app scope r clock" "i \<le> j"
  shows "grows r (clock i) (clock j)"
proof -
  have from_start: "grows r (clock 0) (clock n)" for n
  proof (induction n)
    case (Suc n)
    have "memory_inv (db_memory (clock n))" using Suc by (simp add: grows_def)
    then have "grows r (clock n) (clock (Suc n))" using assms(1) by (intro steps_grow) (auto simp: runs_def)
    from grows_trans [OF Suc this] show ?case .
  qed (use assms(1) in \<open>simp add: runs_def grows_refl\<close>)
  have inv: "memory_inv (db_memory (clock n))" for n using from_start [of n] by (simp add: grows_def)
  show ?thesis using assms(2)
  proof (induction rule: dec_induct)
    case (step n)
    have "grows r (clock n) (clock (Suc n))" using assms(1) inv by (intro steps_grow) (auto simp: runs_def)
    from grows_trans [OF step.IH this] show ?case .
  qed (rule grows_refl [OF inv])
qed

lemma latest_memory_version:
  assumes "latest_memory r tb i = Inr m"
  shows "memory_version r tb i = Some (ar_revision (a_ref m))" "ar_id (a_ref m) = i" "ar_family (a_ref m) = memory_family"
    "get_memory r tb (a_ref m) = Inr m"
proof -
  have l: "latest_artifact (mr_artifacts r) (mt_artifacts tb) (mr_scope r) memory_family i = Inr m"
    using assms by (auto simp: latest_memory_def split: sum.splits store_error.splits)
  then obtain v ref where v: "find_head (mt_artifacts tb) (mr_scope r) memory_family i = Some v" "new_artifact_ref memory_family i v = Inr ref"
      "get_artifact (mr_artifacts r) (mt_artifacts tb) (mr_scope r) ref = Inr m"
    by (auto simp: latest_artifact_def and_then_eq_Inr map_sum_eq_Inr split: option.splits)
  have ref: "ref = \<lparr>ar_family = memory_family, ar_id = i, ar_revision = v\<rparr>" using v(2) by (simp add: new_artifact_ref_iff)
  have "a_ref m = ref" using v(3) by (rule get_artifact_ref)
  then show "memory_version r tb i = Some (ar_revision (a_ref m))" "ar_id (a_ref m) = i" "ar_family (a_ref m) = memory_family"
    "get_memory r tb (a_ref m) = Inr m"
    using v ref by (simp_all add: memory_version_def get_memory_Inr)
qed

lemma head_is_latest:
  assumes "get_memory r tb ref = Inr m" "memory_version r tb (ar_id ref) = Some (ar_revision ref)"
  shows "latest_memory r tb (ar_id ref) = Inr m" "a_ref m = ref"
proof -
  have g: "ar_family ref = memory_family" "get_artifact (mr_artifacts r) (mt_artifacts tb) (mr_scope r) ref = Inr m"
    using assms(1) by (simp_all add: get_memory_Inr)
  then show "a_ref m = ref" using get_artifact_ref by blast
  show "latest_memory r tb (ar_id ref) = Inr m"
    using latest_is_head [OF g(2)] assms(2) g(1) by (simp add: memory_version_def latest_memory_def)
qed

lemma validate_search_heads_one:
  assumes "validate_search_heads r tb [ref] = Inr u"
  shows "\<exists>m. get_memory r tb ref = Inr m" "memory_version r tb (ar_id ref) = Some (ar_revision ref)"
proof -
  obtain exact latest where h: "get_memory r tb ref = Inr exact" "latest_memory r tb (ar_id ref) = Inr latest" "a_ref exact = a_ref latest"
    using assms by (auto simp: validate_search_heads_def and_then_eq_Inr check_eq_Inr)
  have "a_ref exact = ref" using h(1) get_artifact_ref by (auto simp: get_memory_Inr)
  then show "\<exists>m. get_memory r tb ref = Inr m" "memory_version r tb (ar_id ref) = Some (ar_revision ref)"
    using h latest_memory_version(1) [OF h(2)] by auto
qed

text \<open>The two checks around the query of the index pin the head at the query itself.\<close>

lemma repository_search_head:
  assumes "repository_search r si (db_memory a) (db_memory b) (db_memory c) request = Inr channels"
    and "grows r a b" "grows r b c" "sq_memories request = [ref]"
  obtains m where "latest_memory r (db_memory b) (ar_id ref) = Inr m" "a_ref m = ref"
    "si_search si (mt_index (db_memory b)) (mr_scope r) request = Inr channels"
proof -
  have s: "validate_search_heads r (db_memory a) [ref] = Inr ()" "validate_search_heads r (db_memory c) [ref] = Inr ()"
      "si_search si (mt_index (db_memory b)) (mr_scope r) request = Inr channels"
    using assms(1,4) by (auto simp: repository_search_def and_then_eq_Inr)
  note va = validate_search_heads_one [OF s(1)] and vc = validate_search_heads_one [OF s(2)]
  obtain m where m: "get_memory r (db_memory b) ref = Inr m" using va(1) assms(2) by (auto simp: grows_def)
  obtain v where v: "ar_revision ref \<le> v" "memory_version r (db_memory b) (ar_id ref) = Some v"
    using va(2) assms(2) unfolding grows_def by blast
  then have "v \<le> ar_revision ref" using vc(2) assms(3) unfolding grows_def by fastforce
  then have "memory_version r (db_memory b) (ar_id ref) = Some (ar_revision ref)" using v by simp
  then show thesis using that head_is_latest [OF m] s(3) by blast
qed

section \<open>Hits\<close>

lemma mset_sort_func: "mset (sort_func cmp xs) = mset xs"
proof -
  have "mset (insert_func cmp x ys) = add_mset x (mset ys)" for x ys by (induction ys) auto
  then show ?thesis by (induction xs) (auto simp: sort_func_def)
qed

lemma fuse_rankings_members:
  assumes "fuse_rankings order fts vector limit = Inr hits" "\<And>ks. mset (order ks) = mset ks"
  shows "distinct (map hit_key hits)" "int (length hits) \<le> limit" "hit_key ` set hits \<subseteq> hit_identity_of ` (set fts \<union> set vector)"
proof -
  let ?st = "fused_state fts vector"
  let ?ids = "sort_func (compare_identities (score_at (fz_scores ?st))) (order (map fst (fz_candidates ?st)))"
  have m: "mset ?ids = mset (map fst (fz_candidates ?st))" using assms(2) by (simp add: mset_sort_func)
  have ids: "set ?ids = hit_identity_of ` (set fts \<union> set vector)" using mset_eq_setD [OF m] by (simp add: fused_identities)
  have dist: "distinct ?ids" using m fused_state_facts(4) mset_eq_imp_distinct_iff by blast
  have l: "1 \<le> limit" "hits = map (fused_hit ?st) (take (nat limit) ?ids)"
    using assms(1) by (auto simp: fuse_rankings_def Let_def split: if_splits)
  have keys: "map hit_key hits = take (nat limit) ?ids"
    unfolding l(2) map_map using fused_hit_from(1) [of _ fts vector] ids by (intro map_idI) (metis comp_apply in_set_takeD)
  show "distinct (map hit_key hits)" unfolding keys using dist by (rule distinct_take)
  show "int (length hits) \<le> limit" using l by simp
  show "hit_key ` set hits \<subseteq> hit_identity_of ` (set fts \<union> set vector)"
    using keys ids by (metis set_map set_take_subset)
qed

lemma fused_channels_members:
  assumes "fused_channels fo sv mode query channels limit = Inr hits" "\<And>ks. mset (ss_order sv ks) = mset ks"
  shows "distinct (map hit_key hits)" "int (length hits) \<le> limit"
    "hit_key ` set hits \<subseteq> hit_identity_of ` (set (sc_fts channels) \<union> set (sc_vector channels))"
  using fuse_rankings_members [OF assms(1) [unfolded fused_channels_def Let_def] assms(2)]
  by (auto simp: admit_fts_candidates_def admit_vector_candidates_def split: if_splits)

lemma distinct_selected:
  assumes "distinct (map key xs)" "distinct ranks" "set ranks \<subseteq> {1..int (length xs)}"
  shows "distinct (map (\<lambda>rank. key (xs ! nat (rank - 1))) ranks)"
proof -
  have "inj_on (\<lambda>rank. key (xs ! nat (rank - 1))) (set ranks)"
  proof (rule inj_onI)
    fix i j assume ij: "i \<in> set ranks" "j \<in> set ranks" "key (xs ! nat (i - 1)) = key (xs ! nat (j - 1))"
    then have r: "1 \<le> i" "i \<le> int (length xs)" "1 \<le> j" "j \<le> int (length xs)" using assms(3) by auto
    then have "map key xs ! nat (i - 1) = map key xs ! nat (j - 1)" using ij(3) by simp
    then have "nat (i - 1) = nat (j - 1)" using r nth_eq_iff_index_eq [OF assms(1)] by simp
    then show "i = j" using r by simp
  qed
  then show ?thesis using assms(2) by (simp add: distinct_map)
qed

lemma reranked_members:
  assumes "reranked_search_result sv mode query hits limit = Inr s" "distinct (map hit_key hits)" "1 \<le> limit"
    and "ss_reranker sv = None \<or> (\<exists>g. ss_reranker sv = Some (llm_reranker g))"
  shows "set (sx_hits s) \<subseteq> set hits" "distinct (map hit_key (sx_hits s))" "int (length (sx_hits s)) \<le> limit" "sx_mode s = mode"
proof -
  have "set (sx_hits s) \<subseteq> set hits \<and> distinct (map hit_key (sx_hits s)) \<and> int (length (sx_hits s)) \<le> limit \<and> sx_mode s = mode"
  proof (cases "ss_reranker sv = None \<or> hits = []")
    case True
    then have "s = \<lparr>sx_mode = mode, sx_hits = take (nat (min limit (int (length hits)))) hits, sx_rerank = None\<rparr>"
      using assms(1) by (auto simp: reranked_search_result_def Let_def split: option.splits)
    moreover have "distinct (map hit_key (take (nat (min limit (int (length hits)))) hits))"
      using assms(2) by (simp flip: take_map)
    ultimately show ?thesis using assms(3) by (auto dest: in_set_takeD)
  next
    case False
    then obtain g d selected where g: "llm_rerank g query hits (min limit (int (length hits))) = Inr d"
        "map_res (\<lambda>rank. if rank < 1 \<or> rank > int (length hits) then Inl (MemoryInference False ''memory-rerank'')
          else Inr (hits ! nat (rank - 1))) (rd_ranks d) = Inr selected" "sx_hits s = selected" "sx_mode s = mode"
      using assms(1,4) by (auto simp: reranked_search_result_def Let_def llm_reranker_def and_then_eq_Inr)
    have ranks: "distinct (rd_ranks d)" "set (rd_ranks d) \<subseteq> {1..int (length hits)}" "int (length (rd_ranks d)) \<le> min limit (int (length hits))"
      using llm_rerank_facts [OF g(1)] by blast+
    have sel: "selected = map (\<lambda>rank. hits ! nat (rank - 1)) (rd_ranks d)"
      using g(2) unfolding map_res_eq_Inr list_all2_conv_all_nth by (auto intro!: nth_equalityI split: if_splits)
    have "nat (rank - 1) < length hits" if "rank \<in> set (rd_ranks d)" for rank using subsetD [OF ranks(2) that] by auto
    then have "set selected \<subseteq> set hits" unfolding sel by (auto intro!: nth_mem)
    moreover have "distinct (map hit_key selected)"
      using distinct_selected [OF assms(2) ranks(1,2)] by (simp add: sel o_def)
    moreover have "int (length selected) \<le> limit" using ranks(3) by (simp add: sel)
    ultimately show ?thesis using g by simp
  qed
  then show "set (sx_hits s) \<subseteq> set hits" "distinct (map hit_key (sx_hits s))" "int (length (sx_hits s)) \<le> limit" "sx_mode s = mode"
    by auto
qed

section \<open>Pages\<close>

lemma service_search_one:
  assumes "service_search sv svc clock n query [m] limit mode = Inr s"
  obtains used normalized vector profile channels hits where "1 \<le> limit"
    "sb_search (ss_backend sv) (clock (n + 3)) (clock (n + 4)) (clock (n + 5))
       \<lparr>sq_query = normalized, sq_analyzed = analyze_text (ss_text sv) normalized, sq_memories = [a_ref m],
        sq_limit = candidate_limit (coarse_limit sv limit), sq_mode = used, sq_vector = vector, sq_profile = profile\<rparr> = Inr channels"
    "fused_channels (ms_float svc) sv used normalized channels (coarse_limit sv limit) = Inr hits"
    "reranked_search_result sv used normalized hits limit = Inr s"
  using assms by (auto simp: service_search_def dedupe_memories_def Let_def and_then_eq_Inr check_eq_Inr numeral_eq_Suc)

lemma search_loop_page:
  assumes "search_with_service app sv svc clock query limit mode left n = Inr page" "pg_memory page = Some ref"
  shows "\<exists>k current s. head_or_none app svc (clock k) = Inr (Some current) \<and> a_ref current = ref
    \<and> service_search sv svc clock (k + 1) query [current] limit mode = Inr s \<and> pg_hits page = sx_hits s \<and> pg_mode page = Some (sx_mode s)"
  using assms
proof (induction left arbitrary: n)
  case (Suc left)
  obtain head where h: "head_or_none app svc (clock n) = Inr head" using Suc.prems(1) by (auto simp: and_then_eq_Inr)
  show ?case
  proof (cases head)
    case None
    then show ?thesis using Suc.prems h by (auto simp: no_search_page_def)
  next
    case (Some current)
    show ?thesis
    proof (cases "service_search sv svc clock (n + 1) query [current] limit mode")
      case (Inr s)
      then have "page = \<lparr>pg_memory = Some (a_ref current), pg_mode = Some (sx_mode s), pg_hits = sx_hits s, pg_rerank = sx_rerank s\<rparr>"
        using Suc.prems(1) h Some by simp
      then show ?thesis using Inr h Some Suc.prems(2) by auto
    next
      case (Inl e)
      then have "search_with_service app sv svc clock query limit mode left (n + 8) = Inr page"
        using Suc.prems(1) h Some by (auto simp: and_then_eq_Inr split: option.splits if_splits)
      then show ?thesis using Suc.IH Suc.prems(2) by blast
    qed
  qed
qed simp

lemma head_or_none_Some:
  assumes "head_or_none app svc db = Inr (Some m)" "ms_backend svc = database_backend r"
  shows "latest_memory r (db_memory db) (ma_artifact app) = Inr m"
  using assms by (auto simp: head_or_none_def database_backend_def split: sum.splits memory_error.splits artifact_error.splits)

text \<open>C22: a search of a Memory is consistent although other commands commit while it runs: a page that names
  a revision is the search of one database in which that revision was the head of the Memory, and all
  its hits come from the answer that the index of that very database gave for this revision; every hit
  is listed once and there are at most \<open>limit\<close> of them, with and without the reranking model.\<close>

theorem search_page_consistent:
  assumes "runs app scope r clock" "ss_backend sv = database_search r si" "\<And>ks. mset (ss_order sv ks) = mset ks"
    and "ss_reranker sv = None \<or> (\<exists>g. ss_reranker sv = Some (llm_reranker g))"
    and "search_memory app sv clock scope query limit mode = Inr page" "pg_memory page = Some ref"
  shows "\<exists>n m request channels. latest_memory r (db_memory (clock n)) (ma_artifact app) = Inr m \<and> a_ref m = ref
    \<and> sq_memories request = [ref] \<and> si_search si (mt_index (db_memory (clock n))) (mr_scope r) request = Inr channels
    \<and> hit_key ` set (pg_hits page) \<subseteq> hit_identity_of ` (set (sc_fts channels) \<union> set (sc_vector channels))
    \<and> distinct (map hit_key (pg_hits page)) \<and> int (length (pg_hits page)) \<le> limit"
proof -
  obtain svc where svc: "application_service app scope = Inr svc"
      "search_with_service app sv svc clock query limit mode memory_search_attempts 0 = Inr page"
    using assms(5) by (auto simp: search_memory_def and_then_eq_Inr)
  have b: "ms_backend svc = database_backend r" using assms(1) svc(1) by (simp add: runs_def serves_def)
  obtain k current s where p: "head_or_none app svc (clock k) = Inr (Some current)" "a_ref current = ref"
      "service_search sv svc clock (k + 1) query [current] limit mode = Inr s" "pg_hits page = sx_hits s"
    using search_loop_page [OF svc(2) assms(6)] by blast
  obtain used normalized vector profile channels hits where q: "1 \<le> limit"
      "sb_search (ss_backend sv) (clock (k + 1 + 3)) (clock (k + 1 + 4)) (clock (k + 1 + 5))
       \<lparr>sq_query = normalized, sq_analyzed = analyze_text (ss_text sv) normalized, sq_memories = [a_ref current],
        sq_limit = candidate_limit (coarse_limit sv limit), sq_mode = used, sq_vector = vector, sq_profile = profile\<rparr> = Inr channels"
      "fused_channels (ms_float svc) sv used normalized channels (coarse_limit sv limit) = Inr hits"
      "reranked_search_result sv used normalized hits limit = Inr s"
    using p(3) by (rule service_search_one)
  let ?request = "\<lparr>sq_query = normalized, sq_analyzed = analyze_text (ss_text sv) normalized, sq_memories = [a_ref current],
        sq_limit = candidate_limit (coarse_limit sv limit), sq_mode = used, sq_vector = vector, sq_profile = profile\<rparr>"
  have "repository_search r si (db_memory (clock (k + 1 + 3))) (db_memory (clock (k + 1 + 4))) (db_memory (clock (k + 1 + 5))) ?request = Inr channels"
    using q(2) by (simp add: assms(2) database_search_def)
  then obtain m where m: "latest_memory r (db_memory (clock (k + 1 + 4))) (ar_id ref) = Inr m" "a_ref m = ref"
      "si_search si (mt_index (db_memory (clock (k + 1 + 4)))) (mr_scope r) ?request = Inr channels"
    by (rule repository_search_head [OF _ runs_grow [OF assms(1)] runs_grow [OF assms(1)]]) (use p(2) in auto)
  have art: "ar_id ref = ma_artifact app"
    using latest_memory_version(2) [OF head_or_none_Some [OF p(1) b]] p(2) by simp
  note f = fused_channels_members [OF q(3) assms(3)]
  note rr = reranked_members [OF q(4) f(1) q(1) assms(4)]
  have "hit_key ` set (pg_hits page) \<subseteq> hit_identity_of ` (set (sc_fts channels) \<union> set (sc_vector channels))"
    unfolding p(4) by (rule order_trans [OF image_mono [OF rr(1)] f(3)])
  moreover have "sq_memories ?request = [ref]" using p(2) by simp
  ultimately show ?thesis using m rr(2,3) unfolding art p(4) by (intro exI [of _ "k + 1 + 4"] exI [of _ m] exI [of _ ?request] exI [of _ channels]) simp
qed

section \<open>Retries\<close>

text \<open>A full-text search over a Memory that exists, with an index that answers.\<close>

definition answers :: "('i, 'x) memory_application \<Rightarrow> 'i database search_service \<Rightarrow> ('i database, 'x) memory_service \<Rightarrow> 'i memory_repository
    \<Rightarrow> 'i search_index \<Rightarrow> (nat \<Rightarrow> 'i database) \<Rightarrow> string \<Rightarrow> int \<Rightarrow> bool" where
  "answers app sv svc r si clock query limit \<longleftrightarrow> ms_backend svc = database_backend r \<and> ss_backend sv = database_search r si
     \<and> ss_reranker sv = None \<and> 1 \<le> limit \<and> cp_fts (mb_capabilities (ms_backend svc))
     \<and> (\<exists>q. normalize_text (ms_env svc) query = Inr q) \<and> (\<forall>i s request. \<exists>channels. si_search si i s request = Inr channels)
     \<and> (\<forall>n. \<exists>m. latest_memory r (db_memory (clock n)) (ma_artifact app) = Inr m)"

lemma head_or_none_latest:
  assumes "latest_memory r (db_memory db) (ma_artifact app) = Inr m" "ms_backend svc = database_backend r"
  shows "head_or_none app svc db = Inr (Some m)"
  using assms by (simp add: head_or_none_def database_backend_def)

lemma heads_exist:
  assumes "answers app sv svc r si clock query limit"
  shows "\<exists>m. latest_memory r (db_memory (clock n)) (ma_artifact app) = Inr m"
  using assms unfolding answers_def by blast

lemma version_after:
  assumes "runs app scope r clock" "memory_version r (db_memory (clock i)) k = Some v" "i \<le> j"
  obtains v' where "memory_version r (db_memory (clock j)) k = Some v'" "v \<le> v'"
  using runs_grow [OF assms(1,3)] assms(2) unfolding grows_def by blast

lemma heads_check:
  assumes "runs app scope r clock" "latest_memory r (db_memory (clock i)) k = Inr m" "i \<le> j" "latest_memory r (db_memory (clock j)) k = Inr l"
  shows "get_memory r (db_memory (clock j)) (a_ref m) = Inr m"
    "validate_search_heads r (db_memory (clock j)) [a_ref m] = (if a_ref l = a_ref m then Inr () else Inl (InvalidCitation ''memory-mismatch''))"
    "a_ref l \<noteq> a_ref m \<longleftrightarrow> ar_revision (a_ref m) < ar_revision (a_ref l)"
proof -
  note vm = latest_memory_version [OF assms(2)] and vl = latest_memory_version [OF assms(4)]
  show g: "get_memory r (db_memory (clock j)) (a_ref m) = Inr m"
    using runs_grow [OF assms(1,3)] vm(4) unfolding grows_def by blast
  show "validate_search_heads r (db_memory (clock j)) [a_ref m] = (if a_ref l = a_ref m then Inr () else Inl (InvalidCitation ''memory-mismatch''))"
    using g assms(4) vm(2) by (auto simp: validate_search_heads_def check_def)
  obtain v' where "memory_version r (db_memory (clock j)) k = Some v'" "ar_revision (a_ref m) \<le> v'"
    using version_after [OF assms(1) vm(1) assms(3)] by blast
  then have "ar_revision (a_ref m) \<le> ar_revision (a_ref l)" using vl(1) by simp
  moreover have "a_ref l = a_ref m \<longleftrightarrow> ar_revision (a_ref l) = ar_revision (a_ref m)"
    using vm(2,3) vl(2,3) by (metis artifact_ref.equality unit.exhaust)
  ultimately show "a_ref l \<noteq> a_ref m \<longleftrightarrow> ar_revision (a_ref m) < ar_revision (a_ref l)" by auto
qed

lemma search_fails_stale:
  assumes "runs app scope r clock" "answers app sv svc r si clock query limit"
    and "latest_memory r (db_memory (clock n)) (ma_artifact app) = Inr m"
    and "service_search sv svc clock (n + 1) query [m] limit SearchFTS = Inl e"
  shows "is_stale_memory_search e" "latest_memory r (db_memory (clock (n + 7))) (ma_artifact app) = Inr l \<Longrightarrow> ar_revision (a_ref m) < ar_revision (a_ref l)"
proof -
  have b: "ms_backend svc = database_backend r" "ss_backend sv = database_search r si" "ss_reranker sv = None" "1 \<le> limit"
      "cp_fts (mb_capabilities (ms_backend svc))"
    using assms(2) unfolding answers_def by blast+
  obtain q where q: "normalize_text (ms_env svc) query = Inr q" using assms(2) by (auto simp: answers_def)
  obtain l2 l4 l6 where l: "latest_memory r (db_memory (clock (n + 2))) (ma_artifact app) = Inr l2"
      "latest_memory r (db_memory (clock (n + 4))) (ma_artifact app) = Inr l4" "latest_memory r (db_memory (clock (n + 6))) (ma_artifact app) = Inr l6"
    using heads_exist [OF assms(2)] by meson
  have id: "ar_id (a_ref m) = ma_artifact app" using latest_memory_version(2) [OF assms(3)] .
  have get: "get_memory r (db_memory (clock (Suc n))) (a_ref m) = Inr m"
    using runs_grow [OF assms(1), of n "Suc n"] latest_memory_version(4) [OF assms(3)] unfolding grows_def by auto
  note c2 = heads_check [OF assms(1,3) _ l(1)] and c4 = heads_check [OF assms(1,3) _ l(2)] and c6 = heads_check [OF assms(1,3) _ l(3)]
  have heads: "validate_heads svc clock (Suc n) [m] = (if a_ref l2 = a_ref m then Inr () else Inl (CapabilityNotSupported ''head''))"
    using get l(1) id by (auto simp: b(1) database_backend_def check_def)
  have mode: "select_search_mode svc f SearchFTS refs = Inr SearchFTS" for f refs
    using b(5) by (simp add: select_search_mode_def check_def)
  let ?req = "\<lparr>sq_query = q, sq_analyzed = analyze_text (ss_text sv) q, sq_memories = [a_ref m],
      sq_limit = candidate_limit (coarse_limit sv limit), sq_mode = SearchFTS, sq_vector = None, sq_profile = None\<rparr>"
  obtain ch where ch: "si_search si (mt_index (db_memory (clock (n + 5)))) (mr_scope r) ?req = Inr ch"
    using assms(2) unfolding answers_def by blast
  have repo: "sb_search (ss_backend sv) (clock (n + 4)) (clock (n + 5)) (clock (n + 6)) ?req
      = (if a_ref l4 = a_ref m \<and> a_ref l6 = a_ref m then Inr ch else Inl (InvalidCitation ''memory-mismatch''))"
    using c4(2) c6(2) ch by (simp add: b(2) database_search_def repository_search_def)
  have fuse: "\<exists>hits. fused_channels (ms_float svc) sv SearchFTS q ch (coarse_limit sv limit) = Inr hits"
    using b(3,4) by (auto simp: fused_channels_def fuse_rankings_def coarse_limit_def Let_def)
  have run: "service_search sv svc clock (Suc n) query [m] limit SearchFTS =
      and_then (validate_heads svc clock (Suc n) [m]) (\<lambda>_.
      and_then (sb_search (ss_backend sv) (clock (n + 4)) (clock (n + 5)) (clock (n + 6)) ?req) (\<lambda>channels.
      and_then (fused_channels (ms_float svc) sv SearchFTS q channels (coarse_limit sv limit)) (\<lambda>hits.
      reranked_search_result sv SearchFTS q hits limit)))"
    using b(4) q by (simp add: service_search_def dedupe_memories_def mode embed_query_def check_def numeral_eq_Suc)
  have bad: "(a_ref l2 \<noteq> a_ref m \<or> a_ref l4 \<noteq> a_ref m \<or> a_ref l6 \<noteq> a_ref m) \<and> is_stale_memory_search e"
    using assms(4) fuse unfolding Suc_eq_plus1 [symmetric] run heads repo
    by (auto simp: reranked_search_result_def b(3) split: if_splits)
  then show "is_stale_memory_search e" by blast
  assume l7: "latest_memory r (db_memory (clock (n + 7))) (ma_artifact app) = Inr l"
  have later: "ar_revision (a_ref x) \<le> ar_revision (a_ref l)" if "latest_memory r (db_memory (clock j)) (ma_artifact app) = Inr x" "j \<le> n + 7" for j x
    using version_after [OF assms(1) latest_memory_version(1) [OF that(1)] that(2)] latest_memory_version(1) [OF l7] by fastforce
  show "ar_revision (a_ref m) < ar_revision (a_ref l)"
    using bad c2(3) c4(3) c6(3) later [OF l(1)] later [OF l(2)] later [OF l(3)] by auto
qed

lemma search_retries:
  assumes "head_or_none app svc (clock n) = Inr (Some m)" "service_search sv svc clock (n + 1) query [m] limit mode = Inl e'"
    and "head_or_none app svc (clock (n + 7)) = Inr (Some l)" "is_stale_memory_search e'" "ar_revision (a_ref m) < ar_revision (a_ref l)"
  shows "search_with_service app sv svc clock query limit mode (Suc left) n =
    (if left = 0 then Inl (ApplicationMemory (MemoryArtifact (ArtRevisionConflict (a_ref m) (a_ref l))))
     else search_with_service app sv svc clock query limit mode left (n + 8))"
proof -
  have "a_ref l \<noteq> a_ref m" using assms(5) by auto
  then show ?thesis using assms(1-4) by simp
qed

lemma search_loop_overtaken:
  assumes "runs app scope r clock" "answers app sv svc r si clock query limit"
    and "latest_memory r (db_memory (clock n)) (ma_artifact app) = Inr m"
    and "search_with_service app sv svc clock query limit SearchFTS (Suc left) n = Inl e"
  shows "(\<exists>l. latest_memory r (db_memory (clock (n + 8 * left + 7))) (ma_artifact app) = Inr l
      \<and> ar_revision (a_ref m) + int (Suc left) \<le> ar_revision (a_ref l))
    \<and> (\<exists>a b. e = ApplicationMemory (MemoryArtifact (ArtRevisionConflict a b)))"
  using assms(3,4)
proof (induction left arbitrary: n m)
  case (0 n m)
  have b: "ms_backend svc = database_backend r" using assms(2) by (simp add: answers_def)
  obtain l where l: "latest_memory r (db_memory (clock (n + 7))) (ma_artifact app) = Inr l" using assms(2) unfolding answers_def by blast
  obtain e' where e': "service_search sv svc clock (n + 1) query [m] limit SearchFTS = Inl e'"
    using 0 head_or_none_latest [OF 0(1) b] by (auto split: sum.splits)
  have "is_stale_memory_search e'" "ar_revision (a_ref m) < ar_revision (a_ref l)"
    using search_fails_stale [OF assms(1,2) 0(1) e'] l by auto
  note st = this
  have "e = ApplicationMemory (MemoryArtifact (ArtRevisionConflict (a_ref m) (a_ref l)))"
    using 0(2) search_retries [OF head_or_none_latest [OF 0(1) b] e' head_or_none_latest [OF l b] st, of 0] by simp
  then show ?case using st(2) l by auto
next
  case (Suc left n m)
  have b: "ms_backend svc = database_backend r" using assms(2) by (simp add: answers_def)
  obtain l l8 where l: "latest_memory r (db_memory (clock (n + 7))) (ma_artifact app) = Inr l"
      "latest_memory r (db_memory (clock (n + 8))) (ma_artifact app) = Inr l8" using heads_exist [OF assms(2)] by meson
  obtain e' where e': "service_search sv svc clock (n + 1) query [m] limit SearchFTS = Inl e'"
    using Suc.prems head_or_none_latest [OF Suc.prems(1) b] by (auto split: sum.splits)
  have st: "is_stale_memory_search e'" "ar_revision (a_ref m) < ar_revision (a_ref l)"
    using search_fails_stale [OF assms(1,2) Suc.prems(1) e'] l(1) by auto
  have "search_with_service app sv svc clock query limit SearchFTS (Suc left) (n + 8) = Inl e"
    using Suc.prems(2) search_retries [OF head_or_none_latest [OF Suc.prems(1) b] e' head_or_none_latest [OF l(1) b] st, of "Suc left"]
    by (simp del: search_with_service.simps)
  from Suc.IH [OF l(2) this] obtain l' where l': "latest_memory r (db_memory (clock (n + 8 + 8 * left + 7))) (ma_artifact app) = Inr l'"
      "ar_revision (a_ref l8) + int (Suc left) \<le> ar_revision (a_ref l')" "\<exists>a b. e = ApplicationMemory (MemoryArtifact (ArtRevisionConflict a b))"
    by blast
  have "ar_revision (a_ref l) \<le> ar_revision (a_ref l8)"
    using version_after [OF assms(1) latest_memory_version(1) [OF l(1)], of "n + 8"] latest_memory_version(1) [OF l(2)] by fastforce
  then show ?case using l' st(2) by (auto simp: algebra_simps)
qed

lemma search_loop_names:
  assumes "answers app sv svc r si clock query limit" "search_with_service app sv svc clock query limit mode left n = Inr page"
  shows "pg_memory page \<noteq> None"
  using assms(2)
proof (induction left arbitrary: n)
  case (Suc left)
  obtain m where "latest_memory r (db_memory (clock n)) (ma_artifact app) = Inr m" using heads_exist [OF assms(1)] by blast
  then have "head_or_none app svc (clock n) = Inr (Some m)" using assms(1) by (intro head_or_none_latest) (auto simp: answers_def)
  then show ?case using Suc by (auto simp: and_then_eq_Inr split: sum.splits option.splits if_splits)
qed simp

text \<open>C23: a full-text search of an existing Memory, over an index that answers, returns a page unless it is
  overtaken three times: whatever commands commit while it runs, it succeeds whenever the Memory gains
  fewer than three revisions between its first and its last possible read.\<close>

theorem search_succeeds_unless_overtaken:
  assumes "runs app scope r clock" "application_service app scope = Inr svc" "answers app sv svc r si clock query limit"
    and "latest_memory r (db_memory (clock 0)) (ma_artifact app) = Inr m" "latest_memory r (db_memory (clock 23)) (ma_artifact app) = Inr m'"
    and "ar_revision (a_ref m') < ar_revision (a_ref m) + 3"
  shows "\<exists>page ref. search_memory app sv clock scope query limit SearchFTS = Inr page \<and> pg_memory page = Some ref"
proof -
  have loop: "search_memory app sv clock scope query limit SearchFTS = search_with_service app sv svc clock query limit SearchFTS (Suc 2) 0"
    using assms(2) by (simp add: search_memory_def memory_search_attempts_def numeral_3_eq_3 numeral_2_eq_2)
  show ?thesis
  proof (cases "search_with_service app sv svc clock query limit SearchFTS (Suc 2) 0")
    case (Inl e)
    from search_loop_overtaken [OF assms(1,3,4) this] assms(5,6) show ?thesis by auto
  next
    case (Inr page)
    then show ?thesis using loop search_loop_names [OF assms(3) Inr] by auto
  qed
qed

end
