(* ===== verification/Application_Example.thy ===== *)
theory Application_Example
  imports Memory_Commands
begin

text \<open>
  A worked Memory application: the small service of \<open>Memory_Example\<close> behind the commands of one Scope,
  with the journal of \<open>Source_Window\<close>. The properties of the commands and of the flush are applied to it.
\<close>

section \<open>A worked application\<close>

text \<open>A service of the Memory tables as a service of the database.\<close>

definition on_database :: "'i memory_repository \<Rightarrow> ('i memory_tables, 'x) memory_service \<Rightarrow> ('i database, 'x) memory_service" where
  "on_database r svc = \<lparr>ms_env = ms_env svc, ms_analyze = ms_analyze svc, ms_backend = database_backend r,
     ms_pipeline = ms_pipeline svc, ms_embedding = ms_embedding svc, ms_float = ms_float svc, ms_sources = ms_sources svc,
     ms_artifacts = ms_artifacts svc, ms_ids = ms_ids svc\<rparr>"

lemma on_database_fields [simp]:
  "ms_env (on_database r svc) = ms_env svc" "ms_backend (on_database r svc) = database_backend r"
  "ms_embedding (on_database r svc) = ms_embedding svc" "ms_float (on_database r svc) = ms_float svc"
  "ms_analyze (on_database r svc) = ms_analyze svc" "ms_sources (on_database r svc) = ms_sources svc"
  "ms_pipeline (on_database r svc) = ms_pipeline svc" "ms_artifacts (on_database r svc) = ms_artifacts svc"
  by (simp_all add: on_database_def)

lemma on_database_reads:
  assumes "ms_backend svc = repository_backend r"
  shows "canonical_base (on_database r svc) db base = canonical_base svc (db_memory db) base"
    "validated_entries (on_database r svc) db m = validated_entries svc (db_memory db) m"
    "finish_commit (on_database r svc) db base i rv ss as manifest changes current versions
       = finish_commit svc (db_memory db) base i rv ss as manifest changes current versions"
proof -
  show "canonical_base (on_database r svc) db base = canonical_base svc (db_memory db) base"
    using assms by (simp add: canonical_base_def database_reads cong: option.case_cong)
  show "validated_entries (on_database r svc) db m = validated_entries svc (db_memory db) m"
    using assms by (simp add: validated_entries_def database_reads)
  have "embed_texts (on_database r svc) = embed_texts svc"
    by (intro ext) (simp add: embed_texts_def split: option.split)
  moreover have "mb_capabilities (database_backend r) = mb_capabilities (repository_backend r)"
    by (simp add: database_backend_def repository_backend_def)
  ultimately have "attach_embeddings (on_database r svc) = attach_embeddings svc"
    by (intro ext) (simp only: attach_embeddings_def on_database_fields assms)
  moreover have "prepare_projection (on_database r svc) = prepare_projection svc"
    by (intro ext) (simp only: prepare_projection_def on_database_fields)
  moreover have "mb_projections (database_backend r) db = mb_projections (repository_backend r) (db_memory db)"
    by (simp add: database_backend_def repository_backend_def)
  ultimately show "finish_commit (on_database r svc) db base i rv ss as manifest changes current versions
       = finish_commit svc (db_memory db) base i rv ss as manifest changes current versions"
    by (simp only: finish_commit_def prepare_projections_def on_database_fields assms)
qed

lemma on_database_forget:
  assumes "ms_backend svc = repository_backend r" "forget svc (db_memory db) base entries reason = Inr (m, tb)"
  shows "forget (on_database r svc) db base entries reason = Inr (m, db\<lparr>db_memory := tb\<rparr>)"
proof -
  have existing: "commit_existing (on_database r svc) db b manifest changes current vs
      = and_then (commit_existing svc (db_memory db) b manifest changes current vs) (\<lambda>(m, tb). Inr (m, db\<lparr>db_memory := tb\<rparr>))"
    for b manifest changes current vs
    using assms(1)
    by (cases "finish_commit svc (db_memory db) (Some b) (ar_id (a_ref b)) (wrap64 (ar_revision (a_ref b) + 1)) [] [] manifest changes current vs")
      (simp_all add: commit_existing_def on_database_reads database_backend_def repository_backend_def)
  have same: "db\<lparr>db_memory := db_memory db\<rparr> = db" by simp
  show ?thesis using assms(2)
    unfolding forget_def set_entry_state_def on_database_reads [OF assms(1)] on_database_fields
    by (auto simp: and_then_eq_Inr Let_def existing same split: if_splits)
qed

definition small_flush :: "source_repository \<Rightarrow> unit flush_store" where
  "small_flush sources = \<lparr>fs_scope = ''p'', fs_env = demo_env, fs_sources = sources, fs_memory = small_repository\<rparr>"

definition small_app :: "(unit memory_tables, unit) memory_service \<Rightarrow> source_repository \<Rightarrow> (unit, unit) memory_application" where
  "small_app svc sources = \<lparr>ma_services = (\<lambda>_. Inr (Some (on_database small_repository svc))),
     ma_flushes = Some (\<lambda>_. Inr (Some (small_flush sources))), ma_artifact = ''memory'', ma_limit = 100\<rparr>"

definition small_db :: "source_tables \<Rightarrow> unit database" where
  "small_db sources = \<lparr>db_sources = sources, db_memory = one_store\<rparr>"

definition small_citation :: citation where
  "small_citation = \<lparr>ct_memory = \<lparr>ar_family = ''memory'', ar_id = ''memory'', ar_revision = 1\<rparr>, ct_entry = ''entryi'', ct_version = ''versionii''\<rparr>"

lemma small_app_fields [simp]:
  "application_service (small_app svc sources) scope = Inr (on_database small_repository svc)"
  "ma_flushes (small_app svc sources) = Some (\<lambda>_. Inr (Some (small_flush sources)))"
  "ma_artifact (small_app svc sources) = ''memory''" "ma_limit (small_app svc sources) = 100"
  "db_memory (small_db tables) = one_store" "db_sources (small_db tables) = tables"
  "fs_scope (small_flush sources) = ''p''" "fs_memory (small_flush sources) = small_repository"
  "fs_env (small_flush sources) = demo_env" "fs_sources (small_flush sources) = sources"
  by (simp_all add: small_app_def application_service_def small_db_def small_flush_def)

lemma small_serves: "serves (small_app svc sources) scope small_repository"
  by (simp add: serves_def)

lemma small_current:
  "latest_memory small_repository one_store ''memory'' = Inr (small_memory 1 one_line)"
  "get_memory small_repository one_store (ct_memory small_citation) = Inr (small_memory 1 one_line)"
  "find_version small_repository one_store ''memory'' ''entryi'' ''versionii'' = Some (small_entry ''entryi'' ''versionii'' ''tea'')"
proof -
  show "latest_memory small_repository one_store ''memory'' = Inr (small_memory 1 one_line)"
    unfolding one_store_def by (rule small_get(2) [OF small_codec_values(5)])
  show "get_memory small_repository one_store (ct_memory small_citation) = Inr (small_memory 1 one_line)"
    unfolding one_store_def using small_get(1) [OF small_codec_values(5)] by (simp add: small_citation_def)
  show "find_version small_repository one_store ''memory'' ''entryi'' ''versionii'' = Some (small_entry ''entryi'' ''versionii'' ''tea'')"
    by (simp add: one_store_def find_version_def stored_versions_def small_tables_def)
qed

lemma small_cited:
  "validate_citation (on_database small_repository small_service) (small_db tables) small_citation
     = Inr (small_entry ''entryi'' ''versionii'' ''tea'')"
  using small_current small_entry_material
  by (simp add: validate_citation_def service_expand_def database_backend_def expand_hits_def validate_anchor_def
      small_citation_def one_line_def tea_material_def)

lemma small_cited_entry:
  "cited_entry (on_database small_repository small_service) (small_db tables) (small_memory 1 one_line) small_citation
     = Inr (small_entry ''entryi'' ''versionii'' ''tea'')"
  by (simp add: cited_entry_def small_cited on_memory_def check_def) (simp add: small_citation_def one_line_def)

lemma small_db_readable:
  "readable (database_backend small_repository) (\<lambda>db. stored_versions small_repository (db_memory db)) small_env (small_db tables)"
  using small_stores(2) by (simp add: readable_def database_backend_def repository_backend_def)

lemma small_retire:
  "\<exists>result db. retire_memory (small_app small_service sources) (small_db tables) ''p'' small_citation None = (Inr result, db)"
proof -
  let ?svc = "on_database small_repository small_service" and ?v = "small_entry ''entryi'' ''versionii'' ''tea''"
  obtain tb where "forget small_service one_store (small_memory 1 one_line) [?v] None = Inr (small_memory 2 forgotten_line, tb)"
    using small_forget by blast
  then have f: "forget ?svc (small_db tables) (small_memory 1 one_line) [?v] None = Inr (small_memory 2 forgotten_line, (small_db tables)\<lparr>db_memory := tb\<rparr>)"
    by (intro on_database_forget) simp_all
  have cur: "current_citation (small_app small_service sources) ?svc (small_db tables) small_citation = Inr (small_memory 1 one_line, ?v)"
    using small_current(1) small_cited_entry by (simp add: current_citation_def on_memory_def database_backend_def small_citation_def)
  have rd: "memory_inv tb \<and> readable (database_backend small_repository) (\<lambda>db. stored_versions small_repository (db_memory db)) small_env
      ((small_db tables)\<lparr>db_memory := tb\<rparr>)"
    using dm.set_entry_state_readable [OF _ _ _ _ f [unfolded forget_def], of small_repository] small_stores(1) small_db_readable by simp
  have "get_memory small_repository tb (a_ref (small_memory 2 forgotten_line)) = Inr (small_memory 2 forgotten_line)"
    using dm.set_entry_state_commits [OF f [unfolded forget_def], of small_repository]
  proof
    assume "\<exists>c. mb_commit (database_backend small_repository) (small_db tables) c = Inr (small_memory 2 forgotten_line, (small_db tables)\<lparr>db_memory := tb\<rparr>)"
    then obtain c where c: "mb_commit (database_backend small_repository) (small_db tables) c
        = Inr (small_memory 2 forgotten_line, (small_db tables)\<lparr>db_memory := tb\<rparr>)" by blast
    have "memory_inv (db_memory (small_db tables))" using small_stores(1) by simp
    from dm.commit_get [OF this c] show ?thesis by (simp add: database_backend_def)
  qed (simp_all add: small_memory_def)
  then obtain result where "entry_mutation ?svc ((small_db tables)\<lparr>db_memory := tb\<rparr>) (small_memory 1 one_line)
      (small_memory 2 forgotten_line) ''entryi'' = Inr result"
    using entry_mutation_total [of "(small_db tables)\<lparr>db_memory := tb\<rparr>" ?svc small_repository "small_memory 2 forgotten_line" "''entryi''"] rd
    by (auto simp: forgotten_line_def)
  then show ?thesis using cur f by (simp add: retire_memory_def after_write_def on_memory_def)
qed

section \<open>Commands\<close>

theorem retire_exact_witness:
  "\<exists>result db rec m. retire_memory (small_app small_service demo_repository) (small_db empty_tables) ''p'' small_citation None = (Inr result, db)
     \<and> mu_entry result = Some rec \<and> er_state rec = Inactive \<and> ev_id (er_entry rec) = ''versionii''
     \<and> latest_memory small_repository (db_memory db) ''memory'' = Inr m
     \<and> cn_manifest (a_content m) = [small_line ''entryi'' ''versionii'' Inactive]"
proof -
  let ?app = "small_app small_service demo_repository" and ?db = "small_db empty_tables"
  obtain result db where r: "retire_memory ?app ?db ''p'' small_citation None = (Inr result, db)" using small_retire by blast
  have "memory_inv (db_memory ?db)" using small_stores(1) by simp
  moreover have "\<forall>svc. application_service ?app ''p'' = Inr svc \<longrightarrow>
      readable (database_backend small_repository) (\<lambda>db. stored_versions small_repository (db_memory db)) (ms_env svc) ?db"
    using small_db_readable by simp
  moreover have "CHR 0x00 \<notin> set (ct_entry small_citation)" by (simp add: small_citation_def)
  moreover have "get_memory small_repository (db_memory ?db) (ct_memory small_citation) = Inr (small_memory 1 one_line)"
    using small_current(2) by simp
  ultimately obtain rec m where x: "mu_entry result = Some rec" "er_state rec = Inactive" "ev_id (er_entry rec) = ct_version small_citation"
      "latest_memory small_repository (db_memory db) (ma_artifact ?app) = Inr m"
      "cn_manifest (a_content m) = map (with_state Inactive {ct_entry small_citation}) (cn_manifest (a_content (small_memory 1 one_line)))"
    using retire_exact [OF small_serves _ _ r] by blast
  then have "cn_manifest (a_content m) = [small_line ''entryi'' ''versionii'' Inactive]"
    by (simp add: one_line_def with_state_def small_citation_def small_line_def)
  then show ?thesis using r x by (fastforce simp: small_citation_def)
qed

lemma small_get_entry:
  "\<exists>rec. get_memory_entry (small_app small_service sources) (small_db tables) ''p'' small_citation = Inr rec \<and> er_state rec = Active"
  using small_current(2) small_cited_entry [of tables]
  by (simp add: get_memory_entry_def on_memory_def database_backend_def entry_record_of_def small_line_def one_line_def)

theorem citation_stable_witness:
  "\<exists>result db rec. retire_memory (small_app small_service demo_repository) (small_db empty_tables) ''p'' small_citation None = (Inr result, db)
     \<and> get_memory_entry (small_app small_service demo_repository) db ''p'' small_citation = Inr rec \<and> er_state rec = Active"
proof -
  let ?app = "small_app small_service demo_repository" and ?db = "small_db empty_tables"
  obtain result db where r: "retire_memory ?app ?db ''p'' small_citation None = (Inr result, db)" using small_retire by blast
  have "memory_inv (db_memory ?db)" using small_stores(1) by simp
  moreover have "(application_step ?app ''p'')\<^sup>*\<^sup>* ?db db" using app_retires [OF r] by blast
  moreover obtain rec where "get_memory_entry ?app ?db ''p'' small_citation = Inr rec" "er_state rec = Active"
    using small_get_entry by blast
  ultimately show ?thesis using citation_stable [OF small_serves] r by blast
qed

theorem stale_commands_rejected_witness:
  "retire_memory (small_app small_service demo_repository) (small_db empty_tables) ''p''
     (small_citation\<lparr>ct_memory := \<lparr>ar_family = ''memory'', ar_id = ''memory'', ar_revision = 2\<rparr>\<rparr>) None
   = (Inl (ApplicationMemory (MemoryArtifact (ArtRevisionConflict \<lparr>ar_family = ''memory'', ar_id = ''memory'', ar_revision = 2\<rparr>
       \<lparr>ar_family = ''memory'', ar_id = ''memory'', ar_revision = 1\<rparr>))), small_db empty_tables)"
proof -
  let ?app = "small_app small_service demo_repository" and ?db = "small_db empty_tables"
    and ?c = "small_citation\<lparr>ct_memory := \<lparr>ar_family = ''memory'', ar_id = ''memory'', ar_revision = 2\<rparr>\<rparr>"
  have app: "application_service ?app ''p'' = Inr (on_database small_repository small_service)" by simp
  have "mb_latest (ms_backend (on_database small_repository small_service)) ?db (ma_artifact ?app) = Inr (small_memory 1 one_line)"
    using small_current(1) by (simp add: database_backend_def)
  moreover have "new_artifact_ref memory_family (ma_artifact ?app) 2 = Inr (ct_memory ?c)" by (simp add: small_refs memory_family_def)
  ultimately show ?thesis
    using stale_commands_rejected [OF app, of ?db "small_memory 1 one_line" 2 "ct_memory ?c" ?c
        "\<lparr>rq_kind = [], rq_text = [], rq_reason = None, rq_expected = Some 2\<rparr>" "[]" "[]" None] by simp
qed

section \<open>Flushing\<close>

lemma empty_fields [simp]: "tb_cursors empty_tables = []" "tb_acceptances empty_tables = []"
  by (simp_all add: empty_tables_def)

lemma demo_one_row:
  "scope_rows demo_one ''p'' = [\<lparr>row_scope = ''p'', row_type = ''content'', row_id = ''a'', row_payload = Encoded (JStr ''a''), row_position = 1\<rparr>]"
  "max_position demo_one ''p'' = 1" "tb_cursors demo_one = []" "tb_acceptances demo_one = []"
  by (simp_all add: added_def append_row_def locked_head_def new_row_def empty_tables_def scope_rows_def max_position_def head_of_def)

definition native_codec :: source_codec where
  "native_codec = \<lparr>cd_name = ''content'', cd_type = ''source.SkillUsageSource'', cd_encode = (\<lambda>v. Some (Encoded (JStr (sv_name v)))),
     cd_decode = (\<lambda>b. case b of
        Encoded (JStr n) \<Rightarrow> Some \<lparr>sv_type = ''source.SkillUsageSource'', sv_name = n, sv_materialization = ''captured'', sv_fields = []\<rparr>
      | _ \<Rightarrow> None)\<rparr>"

definition native_repository :: source_repository where
  "native_repository = \<lparr>sr_by_name = [(''content'', native_codec)], sr_by_source = [(''source.SkillUsageSource'', native_codec)]\<rparr>"

lemma demo_binding: "require_identifier ''binding_name'' source_window_name 128 = Inr ()"
proof -
  have "graphic source_window_name" by (simp add: graphic_def source_window_name_def)
  then show ?thesis by (simp add: require_identifier_def graphic_text) (simp add: source_window_name_def)
qed

lemma small_observed:
  assumes "map_res (decode_source demo_env sources demo_one) (scope_rows demo_one ''p'') = Inr [st]" "ss_position st = 1" "extractable (ss_value st)"
  shows "observe_window (small_flush sources) (small_db demo_one) source_window_name 100
    = Inr \<lparr>wo_previous = 0, wo_next = 1, wo_generation = None, wo_high = 1, wo_values = [ss_value st]\<rparr>"
proof -
  have w: "source_window_activate \<lparr>hw_sequence = 1, hw_limit = 100\<rparr> 0 = \<lparr>tr_state = 1, tr_actions = [\<lparr>pw_after = 0, pw_through = 1\<rparr>]\<rparr>"
    by (simp add: source_window_activate_def wrap64_def)
  have "list_sources demo_env sources demo_one ''p'' 0 None = Inr [st]"
    using assms(1) journal_demo_scope by (simp add: list_sources_def demo_one_row)
  then show ?thesis using assms(2,3) journal_demo_scope demo_binding
    by (simp add: observe_window_def load_cursor_def find_cursor_def demo_one_row journal_position_def source_window_initial_def on_store_def
      new_source_high_watermark_def w check_def)
qed

lemma demo_decoded:
  "\<exists>st. map_res (decode_source demo_env demo_repository demo_one) (scope_rows demo_one ''p'') = Inr [st] \<and> ss_position st = 1 \<and> ss_value st = demo_value"
  "\<exists>st v. map_res (decode_source demo_env native_repository demo_one) (scope_rows demo_one ''p'') = Inr [st] \<and> ss_position st = 1 \<and> ss_value st = NativeValue v"
proof -
  have "valid_part 128 ''content''" by (rule graphic_valid_part) (simp_all add: graphic_def)
  then have r: "new_source_ref ''content'' ''a'' = Inr \<lparr>sr_type = ''content'', sr_id = ''a''\<rparr>"
    by (simp add: new_source_ref_iff wf_source_ref_def)
  show "\<exists>st. map_res (decode_source demo_env demo_repository demo_one) (scope_rows demo_one ''p'') = Inr [st] \<and> ss_position st = 1 \<and> ss_value st = demo_value"
    by (simp add: demo_one_row decode_source_def parse_source_envelope_def decode_native_def row_accepted_def demo_repository_def
        demo_codec_def r native_value_def demo_value_def)
  show "\<exists>st v. map_res (decode_source demo_env native_repository demo_one) (scope_rows demo_one ''p'') = Inr [st] \<and> ss_position st = 1 \<and> ss_value st = NativeValue v"
    by (simp add: demo_one_row decode_source_def parse_source_envelope_def decode_native_def row_accepted_def native_repository_def
        native_codec_def r native_value_def)
qed

theorem flush_blocked_witness:
  "\<exists>result e. flush_window (small_app small_service native_repository) (\<lambda>_. small_db demo_one) (small_db demo_one) ''p''
     = (result, Some e, small_db demo_one)"
proof -
  obtain st v where st: "map_res (decode_source demo_env native_repository demo_one) (scope_rows demo_one ''p'') = Inr [st]"
      "ss_position st = 1" "ss_value st = NativeValue v"
    using demo_decoded(2) by blast
  then have "observe_window (small_flush native_repository) (small_db demo_one) source_window_name (ma_limit (small_app small_service native_repository))
      = Inr \<lparr>wo_previous = 0, wo_next = 1, wo_generation = None, wo_high = 1, wo_values = [NativeValue v]\<rparr>"
    using small_observed [of native_repository st] by (simp add: extractable_def)
  then show ?thesis by (rule flush_blocked [OF small_app_fields(2) refl]) simp_all
qed

text \<open>A service that extracts nothing.\<close>

definition idle_service :: "(unit memory_tables, unit) memory_service" where
  "idle_service = small_service\<lparr>ms_pipeline := Some (\<lambda>_ _ _. Inr []),
     ms_sources := Some \<lparr>rs_get = Inr, rs_ref = (\<lambda>_. Inr \<lparr>sr_type = ''content'', sr_id = ''a''\<rparr>)\<rparr>\<rparr>"

lemma idle_service_fields [simp]:
  "ms_env idle_service = small_env" "ms_backend idle_service = repository_backend small_repository"
  "ms_pipeline idle_service = Some (\<lambda>_ _ _. Inr [])" "ms_artifacts idle_service = None"
  "ms_sources idle_service = Some \<lparr>rs_get = Inr, rs_ref = (\<lambda>_. Inr \<lparr>sr_type = ''content'', sr_id = ''a''\<rparr>)\<rparr>"
  by (simp_all add: idle_service_def)

lemma idle_flush:
  "\<exists>result db. flush_window (small_app idle_service demo_repository) (\<lambda>_. small_db demo_one) (small_db demo_one) ''p'' = (result, None, db)
     \<and> fr_previous result = 0 \<and> fr_current result = 1"
proof -
  let ?svc = "on_database small_repository idle_service" and ?m = "small_memory 1 one_line" and ?db = "small_db demo_one"
  obtain st where "map_res (decode_source demo_env demo_repository demo_one) (scope_rows demo_one ''p'') = Inr [st]"
      "ss_position st = 1" "ss_value st = demo_value"
    using demo_decoded(1) by blast
  then have ob: "observe_window (small_flush demo_repository) ?db source_window_name 100
      = Inr \<lparr>wo_previous = 0, wo_next = 1, wo_generation = None, wo_high = 1, wo_values = [demo_value]\<rparr>"
    using small_observed [of demo_repository st] by (simp add: extractable_def demo_value_def)
  have head: "head_or_none (small_app idle_service demo_repository) ?svc ?db = Inr (Some ?m)"
    using small_current(1) by (simp add: head_or_none_def database_backend_def)
  have base: "canonical_base ?svc ?db (Some ?m) = Inr (Some ?m)"
    using small_current(1,2) by (simp add: canonical_base_def database_backend_def small_citation_def)
  have entries: "\<exists>vs. validated_entries ?svc ?db ?m = Inr vs"
  proof -
    have get: "mb_get (database_backend small_repository) ?db (a_ref ?m) = Inr ?m"
      using small_current(2) by (simp add: database_backend_def small_citation_def)
    have "memory_inv (db_memory ?db)" using small_stores(1) by simp
    then show ?thesis
      using dm.validated_complete [OF _ _ get, of ?svc] small_db_readable [of demo_one, unfolded readable_def] get by fastforce
  qed
  have evidence: "canonical_operation_evidence ?svc [demo_value] [] = Inr \<lparr>oe_sources = [demo_value], oe_artifacts = []\<rparr>"
    by (simp add: canonical_operation_evidence_def require_evidence_def demo_value_def append_unique_def)
  have request: "new_candidate_request [demo_value] ([] :: unit artifact list) vs = Inr ([demo_value], [], vs)" for vs :: "entry_version list"
  proof -
    have "valid_part 128 ''source''" by (rule graphic_valid_part) (simp_all add: graphic_def)
    then have "new_source_ref ''source'' ''a'' = Inr \<lparr>sr_type = ''source'', sr_id = ''a''\<rparr>"
      by (simp add: new_source_ref_iff wf_source_ref_def)
    then show ?thesis by (simp add: new_candidate_request_def require_evidence_def demo_value_def)
  qed
  have "plan_remember ?svc ?db (Some ?m) [demo_value] [] [] RememberExtract = Inr \<lparr>wp_result = Some ?m, wp_commit = None\<rparr>"
    using entries request by (auto simp: plan_remember_def select_remember_mode_def base evidence candidate_inputs_def)
  then have "\<exists>db. apply_window (small_flush demo_repository) ?db source_window_name \<lparr>wp_result = Some ?m, wp_commit = None\<rparr> 1 None = Inr (Some ?m, db)
      \<and> plan_remember ?svc ?db (Some ?m) [demo_value] [] [] RememberExtract = Inr \<lparr>wp_result = Some ?m, wp_commit = None\<rparr>"
    using journal_demo_scope demo_binding
    by (simp add: apply_window_def apply_plan_def on_memory_def on_store_def save_cursor_def find_cursor_def demo_one_row)
  then show ?thesis using ob head by (auto simp: flush_window_def Let_def on_memory_def)
qed



definition two_windows :: "((string \<times> string) \<times> int option \<times> write_plan \<times> int) list" where
  "two_windows = replicate 2 ((''p'', source_window_name), None, \<lparr>wp_result = None, wp_commit = None\<rparr>, 1)"

theorem flush_single_winner_witness:
  "wins (\<lambda>w. fst w = (''p'', source_window_name) \<and> fst (snd w) = None) two_windows
     (snd (run_puts (window_put (small_flush demo_repository)) (small_db demo_one) two_windows)) \<le> 1"
proof -
  have "database_inv (small_db demo_one)" using demo_one_inv small_stores(1) by (simp add: database_inv_def)
  from flush_single_winner [OF this, of "(''p'', source_window_name)" None two_windows "small_flush demo_repository"]
  show ?thesis by (rule conjunct1)
qed

end
