(* ===== verification/Search_Example.thy ===== *)
theory Search_Example
  imports Search_Properties Application_Example
begin

text \<open>
  The worked Memory application of \<open>Application_Example\<close> with a full-text index, searched while nothing else
  happens. The properties of ranking, reranking and searching are applied to it.
\<close>

definition tea_hit :: channel_hit where
  "tea_hit = \<lparr>hc_memory = \<lparr>ar_family = ''memory'', ar_id = ''memory'', ar_revision = 1\<rparr>, hc_entry = ''entryi'', hc_version = ''versionii'',
     hc_text = ''tea'', hc_distance = None\<rparr>"

definition tea_index :: "unit search_index" where
  "tea_index = \<lparr>si_search = (\<lambda>_ _ _. Inr \<lparr>sc_fts = [tea_hit], sc_vector = []\<rparr>), si_complete = (\<lambda>_ _ _ _. Inr False)\<rparr>"

definition tea_repository :: "unit memory_repository" where
  "tea_repository = small_repository\<lparr>mr_index := no_memory_index\<lparr>ix_capabilities := \<lparr>cp_fts = True, cp_vector = False, cp_hybrid = False, cp_profile = None\<rparr>\<rparr>\<rparr>"

definition tea_service :: "(unit database, unit) memory_service" where
  "tea_service = on_database tea_repository small_service"

definition tea_app :: "(unit, unit) memory_application" where
  "tea_app = \<lparr>ma_services = (\<lambda>_. Inr (Some tea_service)), ma_flushes = None, ma_artifact = ''memory'', ma_limit = 100\<rparr>"

definition tea_search :: "unit database search_service" where
  "tea_search = \<lparr>ss_text = \<lparr>te_nfc = (\<lambda>s. s), te_fold = (\<lambda>s. s), te_letter = (\<lambda>c. 97 \<le> c \<and> c \<le> 122), te_number = (\<lambda>_. False)\<rparr>,
     ss_order = rev, ss_backend = database_search tea_repository tea_index, ss_reranker = None, ss_rerank_limit = 30\<rparr>"

lemma tea_latest: "latest_memory tea_repository one_store ''memory'' = Inr (small_memory 1 one_line)"
  using small_current(1) by (simp add: latest_memory_def tea_repository_def)

lemma tea_runs: "runs tea_app ''p'' tea_repository (\<lambda>_. small_db empty_tables)"
  using small_stores(1) by (simp add: runs_def serves_def application_service_def tea_app_def tea_service_def)

lemma tea_answers: "answers tea_app tea_search tea_service tea_repository tea_index (\<lambda>_. small_db empty_tables) ''tea'' 5"
proof -
  have "\<exists>q. normalize_text small_env ''tea'' = Inr q"
    using small_texts(2) by (simp add: normalize_text_def normalize_non_empty_def small_env_def max_entry_text_bytes_def)
  then show ?thesis using tea_latest
    by (simp add: answers_def tea_service_def tea_search_def tea_app_def tea_index_def database_backend_def tea_repository_def small_service_def)
qed

lemma tea_found: "\<exists>page ref. search_memory tea_app tea_search (\<lambda>_. small_db empty_tables) ''p'' ''tea'' 5 SearchFTS = Inr page \<and> pg_memory page = Some ref"
proof -
  have l: "latest_memory tea_repository (db_memory (small_db empty_tables)) (ma_artifact tea_app) = Inr (small_memory 1 one_line)"
    using tea_latest by (simp add: tea_app_def)
  have "\<exists>s. service_search tea_search tea_service (\<lambda>_. small_db empty_tables) (0 + 1) ''tea'' [small_memory 1 one_line] 5 SearchFTS = Inr s"
  proof (cases "service_search tea_search tea_service (\<lambda>_. small_db empty_tables) (0 + 1) ''tea'' [small_memory 1 one_line] 5 SearchFTS")
    case (Inl e)
    from search_fails_stale(2) [OF tea_runs tea_answers l Inl l] show ?thesis by simp
  qed simp
  moreover have "head_or_none tea_app tea_service (small_db empty_tables) = Inr (Some (small_memory 1 one_line))"
    using l by (rule head_or_none_latest) (simp add: tea_service_def)
  moreover have "application_service tea_app ''p'' = Inr tea_service" by (simp add: application_service_def tea_app_def)
  ultimately show ?thesis by (auto simp: search_memory_def memory_search_attempts_def numeral_3_eq_3)
qed

theorem search_page_consistent_witness:
  "\<exists>page ref. search_memory tea_app tea_search (\<lambda>_. small_db empty_tables) ''p'' ''tea'' 5 SearchFTS = Inr page
     \<and> hit_key ` set (pg_hits page) \<subseteq> {hit_identity_of tea_hit} \<and> distinct (map hit_key (pg_hits page))"
proof -
  obtain page ref where p: "search_memory tea_app tea_search (\<lambda>_. small_db empty_tables) ''p'' ''tea'' 5 SearchFTS = Inr page" "pg_memory page = Some ref"
    using tea_found by blast
  have "ss_backend tea_search = database_search tea_repository tea_index" "\<And>ks. mset (ss_order tea_search ks) = mset ks"
      "ss_reranker tea_search = None \<or> (\<exists>g. ss_reranker tea_search = Some (llm_reranker g))"
    by (simp_all add: tea_search_def)
  from search_page_consistent [OF tea_runs this p] p(1) show ?thesis by (auto simp: tea_index_def)
qed

theorem search_succeeds_unless_overtaken_witness:
  "\<exists>page ref. search_memory tea_app tea_search (\<lambda>_. small_db empty_tables) ''p'' ''tea'' 5 SearchFTS = Inr page \<and> pg_memory page = Some ref"
proof -
  have l: "latest_memory tea_repository (db_memory (small_db empty_tables)) (ma_artifact tea_app) = Inr (small_memory 1 one_line)"
    using tea_latest by (simp add: tea_app_def)
  have "application_service tea_app ''p'' = Inr tea_service" by (simp add: application_service_def tea_app_def)
  from search_succeeds_unless_overtaken [OF tea_runs this tea_answers l l] show ?thesis by simp
qed

text \<open>A hit found first in one channel has the score \<open>1/61\<close>.\<close>

theorem fuse_rankings_exact_witness:
  "\<exists>h. fuse_rankings rev [tea_hit, tea_hit] [] 1 = Inr [h] \<and> hit_key h = hit_identity_of tea_hit \<and> mh_score h = 0x3F90C9714FBCDA3B"
proof -
  obtain hits where "fuse_rankings rev [tea_hit, tea_hit] [] 1 = Inr hits" "length hits = 1" "list_all (fused_from [tea_hit, tea_hit] []) hits"
    using fuse_rankings_exact [of 1 rev "[tea_hit, tea_hit]" "[]"] by auto
  then obtain h where h: "fuse_rankings rev [tea_hit, tea_hit] [] 1 = Inr [h]" "fused_from [tea_hit, tea_hit] [] h"
    by (auto simp: length_Suc_conv)
  then have key: "hit_key h = hit_identity_of tea_hit" by (auto simp: fused_from_def split: if_splits)
  have "finite64 (0x3F90C9714FBCDA3B :: float64)" "nonneg64 (0x3F90C9714FBCDA3B :: float64)"
    by (simp_all add: finite64_def nonneg64_def inf64_def)
  then have "rrf_score [tea_hit, tea_hit] [] (hit_identity_of tea_hit) = 0x3F90C9714FBCDA3B"
    by (simp add: rrf_score_def reciprocal_rank_def rrf_constant_def first_reciprocal add64_zero)
  then show ?thesis using h key by (auto simp: fused_from_def)
qed

theorem rerank_selection_sound_witness:
  "\<exists>d. llm_rerank (\<lambda>_. Inr [7, 2, 2, 1]) ''q'' [\<lparr>mh_memory_ref = hc_memory tea_hit, mh_entry_id = ''a'', mh_entry_version_id = ''v'', mh_text = ''t'',
       mh_score = 0, mh_matched = []\<rparr>, \<lparr>mh_memory_ref = hc_memory tea_hit, mh_entry_id = ''b'', mh_entry_version_id = ''w'', mh_text = ''u'',
       mh_score = 0, mh_matched = []\<rparr>] 2 = Inr d \<and> distinct (rd_ranks d) \<and> rd_ranks d = [2, 1]"
proof -
  let ?hits = "[\<lparr>mh_memory_ref = hc_memory tea_hit, mh_entry_id = ''a'', mh_entry_version_id = ''v'', mh_text = ''t'',
       mh_score = 0, mh_matched = []\<rparr>, \<lparr>mh_memory_ref = hc_memory tea_hit, mh_entry_id = ''b'', mh_entry_version_id = ''w'', mh_text = ''u'',
       mh_score = 0, mh_matched = []\<rparr>] :: search_hit list"
  have "llm_rerank (\<lambda>_. Inr [7, 2, 2, 1]) ''q'' ?hits 2 = Inr \<lparr>rd_ranks = [2, 1], rd_discarded = 2, rd_fallback = False\<rparr>"
    by (simp add: llm_rerank_def check_def normalize_ranks_def)
  with rerank_selection_sound [OF this] show ?thesis by auto
qed

end
