(* ===== verification/Review_Model.thy ===== *)
theory Review_Model
  imports Artifact_Store Context_Pack
begin

text \<open>
  Candidates for review (\<open>internal/review/model.go\<close>, \<open>errors.go\<close>, \<open>generation.go\<close>) and the managed Skill content
  they may propose (\<open>artifact/skill/model.go\<close>): a Candidate is one proposal of an Experience or a Skill with
  the exact Sources and Artifacts it rests on, its lifecycle status and, once decided, its result.
  Package-backed Skill proposals, whose archives live in their own table, are not modelled.
\<close>

section \<open>Skill content\<close>

record skill_content =
  k_name :: string
  k_description :: string
  k_instructions :: string
  k_validation :: "string list"

definition skill_family :: string where
  "skill_family = ''skill''"

definition trimmed_bounded :: "string \<Rightarrow> string \<Rightarrow> nat \<Rightarrow> string + unit" where
  "trimmed_bounded label value maximum =
     and_then (check (trim_python value \<noteq> [] \<and> value = trim_python value) (label @ '' must be non-empty and trimmed'')) (\<lambda>_.
     check (rune_count value \<le> maximum) (label @ '' must not exceed '' @ show_nat maximum @ '' characters''))"

definition new_skill_content :: "string \<Rightarrow> string \<Rightarrow> string \<Rightarrow> string list \<Rightarrow> string + skill_content" where
  "new_skill_content name description instructions validation =
     and_then (trimmed_bounded ''Skill name'' name 128) (\<lambda>_.
     and_then (trimmed_bounded ''Skill description'' description 2000) (\<lambda>_.
     and_then (check (trim_python instructions \<noteq> [] \<and> rune_count instructions \<le> 32000)
       ''Skill instructions must be non-blank and not exceed 32000 characters'') (\<lambda>_.
     and_then (check (1 \<le> length validation \<and> length validation \<le> 32) ''Skill validation must contain 1..32 items'') (\<lambda>_.
     and_then (map_res (\<lambda>item. trimmed_bounded ''Skill validation item'' item 2000) validation) (\<lambda>_.
     Inr \<lparr>k_name = name, k_description = description, k_instructions = instructions, k_validation = validation\<rparr>)))))"

section \<open>Proposals\<close>

datatype proposal = ExperienceProposal experience_content | SkillProposal skill_content

text \<open>The dynamic Go type of a proposal.\<close>

fun proposal_type :: "proposal \<Rightarrow> string" where
  "proposal_type (ExperienceProposal c) = ''experience.Content''"
| "proposal_type (SkillProposal c) = ''skill.Content''"

datatype candidate_status = Pending | Approved | Rejected | OtherStatus string

datatype review_error =
    CandidateNotFound string
  | CandidateConflict string int int
  | CandidateTerminal string candidate_status
  | InvalidCandidateField string string
  | ArtifactTargetConflict artifact_ref artifact_ref
  | GenerationUnavailable string
  | ReviewStore store_error
  | ReviewSource source_error
  | ReviewArtifact artifact_error
  | ReviewFault string

record candidate =
  ca_id :: string
  ca_version :: int
  ca_family :: string
  ca_status :: candidate_status
  ca_proposal :: proposal
  ca_sources :: "source_ref list"
  ca_artifacts :: "artifact_ref list"
  ca_target :: "artifact_ref option"
  ca_reason :: "string option"
  ca_result :: "artifact_ref option"
  ca_decision :: "string option"

definition max_evidence :: nat where
  "max_evidence = 32"

definition max_page_size :: int where
  "max_page_size = 100"

definition max_reason_length :: nat where
  "max_reason_length = 2000"

definition candidate_text :: "string \<Rightarrow> string \<Rightarrow> nat \<Rightarrow> review_error + unit" where
  "candidate_text field value maximum =
     and_then (check (valid_utf8 value \<and> trim_space value \<noteq> [] \<and> trim_space value = value)
       (InvalidCandidateField field ''must be a non-empty trimmed string'')) (\<lambda>_.
     check (maximum = 0 \<or> rune_count value \<le> maximum)
       (InvalidCandidateField field (''must not exceed '' @ show_nat maximum @ '' characters'')))"

definition optional_text :: "string \<Rightarrow> string option \<Rightarrow> review_error + unit" where
  "optional_text field value = (case value of None \<Rightarrow> Inr () | Some v \<Rightarrow> candidate_text field v max_reason_length)"

definition validate_reason :: "string option \<Rightarrow> review_error + unit" where
  "validate_reason value = optional_text ''reason'' value"

definition evidence_count :: "source_ref list \<Rightarrow> artifact_ref list \<Rightarrow> review_error + unit" where
  "evidence_count sources artifacts =
     and_then (check (1 \<le> length sources + length artifacts)
       (InvalidCandidateField ''evidence'' ''at least one exact reference is required'')) (\<lambda>_.
     check (length sources + length artifacts \<le> max_evidence)
       (InvalidCandidateField ''evidence'' (''must not exceed '' @ show_nat max_evidence @ '' exact references'')))"

definition check_sources :: "source_ref list \<Rightarrow> review_error + source_ref list" where
  "check_sources sources = map_res (\<lambda>r. map_sum ReviewSource id (new_source_ref (sr_type r) (sr_id r))) sources"

definition check_artifacts :: "artifact_ref list \<Rightarrow> review_error + unit list" where
  "check_artifacts artifacts = map_res (\<lambda>r. map_sum ReviewArtifact id (validate_artifact_ref r)) artifacts"

definition check_target :: "string \<Rightarrow> artifact_ref option \<Rightarrow> review_error + unit" where
  "check_target family target = (case target of
     None \<Rightarrow> Inr ()
   | Some t \<Rightarrow>
      and_then (map_sum ReviewArtifact id (validate_artifact_ref t)) (\<lambda>_.
      check (ar_family t = family) (InvalidCandidateField ''target'' ''must belong to the proposed family'')))"

definition check_result :: "candidate_status \<Rightarrow> artifact_ref option \<Rightarrow> review_error + unit" where
  "check_result status result =
     and_then (if status = Approved
       then check (result \<noteq> None) (InvalidCandidateField ''result_artifact'' ''approved Candidate must identify its result Artifact'')
       else check (result = None)
         (InvalidCandidateField ''result_artifact'' ''only an approved Candidate may identify a result Artifact'')) (\<lambda>_.
     case result of None \<Rightarrow> Inr () | Some r \<Rightarrow> map_sum ReviewArtifact id (validate_artifact_ref r))"

definition check_decision :: "candidate_status \<Rightarrow> string option \<Rightarrow> review_error + unit" where
  "check_decision status decision =
     (if status = Rejected
      then check (decision \<noteq> None) (InvalidCandidateField ''decision_reason'' ''rejected Candidate must include a decision reason'')
      else check (decision = None)
        (InvalidCandidateField ''decision_reason'' ''only a rejected Candidate may include a decision reason''))"

fun status_text :: "candidate_status \<Rightarrow> string" where
  "status_text Pending = ''pending''"
| "status_text Approved = ''approved''"
| "status_text Rejected = ''rejected''"
| "status_text (OtherStatus s) = s"

text \<open>\<open>NewCandidate\<close>. The source ranges over a Go map of the two reasons; when both are invalid the error names
  either of them, here the first one.\<close>

definition new_candidate :: "candidate \<Rightarrow> review_error + candidate" where
  "new_candidate c =
     and_then (candidate_text ''candidate_id'' (ca_id c) 128) (\<lambda>_.
     and_then (candidate_text ''family'' (ca_family c) 0) (\<lambda>_.
     and_then (check (1 \<le> ca_version c) (InvalidCandidateField ''version'' ''must be positive'')) (\<lambda>_.
     and_then (check (ca_status c \<in> {Pending, Approved, Rejected}) (InvalidCandidateField ''status'' (status_text (ca_status c)))) (\<lambda>_.
     and_then (evidence_count (ca_sources c) (ca_artifacts c)) (\<lambda>_.
     and_then (check_sources (ca_sources c)) (\<lambda>_.
     and_then (check_artifacts (ca_artifacts c)) (\<lambda>_.
     and_then (check_target (ca_family c) (ca_target c)) (\<lambda>_.
     and_then (optional_text ''reason'' (ca_reason c)) (\<lambda>_.
     and_then (optional_text ''decision_reason'' (ca_decision c)) (\<lambda>_.
     and_then (check_result (ca_status c) (ca_result c)) (\<lambda>_.
     and_then (check_decision (ca_status c) (ca_decision c)) (\<lambda>_. Inr c))))))))))))"

section \<open>Generation requests\<close>

text \<open>An unknown origin is quoted in the error of the source (\<open>%q\<close>); the quoting is left out.\<close>

datatype skill_origin = OriginExperience | OriginSource | OriginUsage | OtherOrigin string

definition invalid_skill_origin :: "string \<Rightarrow> review_error" where
  "invalid_skill_origin detail = InvalidCandidateField ''origin'' detail"

definition validate_skill_lineage ::
  "skill_origin \<Rightarrow> source_ref list \<Rightarrow> artifact_ref list \<Rightarrow> artifact_ref option \<Rightarrow> review_error + unit" where
  "validate_skill_lineage origin sources artifacts target = (case origin of
     OriginExperience \<Rightarrow> check (target = None \<and> artifacts \<noteq> [] \<and> list_all (\<lambda>r. ar_family r = experience_family) artifacts)
       (invalid_skill_origin ''Experience generation requires approved Experience references and no target'')
   | OriginSource \<Rightarrow> check (target = None \<and> sources \<noteq> [] \<and> artifacts = [])
       (invalid_skill_origin ''Source generation requires only exact Source references'')
   | OriginUsage \<Rightarrow> check (case target of None \<Rightarrow> False
         | Some t \<Rightarrow> ar_family t = skill_family \<and> sources \<noteq> [] \<and> t \<in> set artifacts)
       (invalid_skill_origin ''usage evolution requires the exact target Skill and bounded Source evidence'')
   | OtherOrigin s \<Rightarrow> Inl (invalid_skill_origin (''unsupported Skill generation origin '' @ s)))"

definition artifact_evidence_id :: "artifact_ref \<Rightarrow> string" where
  "artifact_evidence_id r = ''artifact:'' @ ar_family r @ ''/'' @ ar_id r @ ''@'' @ show_int (ar_revision r)"

definition generation_input_of ::
  "generation_evidence list \<Rightarrow> artifact_ref option \<Rightarrow> review_error + generation_input" where
  "generation_input_of evidence target =
     and_then (case target of
         None \<Rightarrow> Inr None
       | Some t \<Rightarrow>
          and_then (check (list_ex (\<lambda>e. ge_id e = artifact_evidence_id t) evidence)
            (InvalidCandidateField ''artifacts'' ''must include the exact target Artifact'')) (\<lambda>_.
          Inr (Some (artifact_evidence_id t)))) (\<lambda>target_id.
     map_sum (InvalidCandidateField ''evidence'') id (new_generation_input evidence target_id))"

section \<open>What a valid Candidate is\<close>

definition wf_candidate :: "candidate \<Rightarrow> bool" where
  "wf_candidate c \<longleftrightarrow> new_candidate c = Inr c"

lemma new_candidate_Inr: "new_candidate c = Inr c' \<longleftrightarrow> c' = c \<and> wf_candidate c"
  unfolding wf_candidate_def by (auto simp: new_candidate_def res_simps)

lemma wf_candidate_facts:
  assumes "wf_candidate c"
  shows "1 \<le> ca_version c" "ca_status c \<in> {Pending, Approved, Rejected}"
    "list_all wf_source_ref (ca_sources c)" "list_all wf_artifact_ref (ca_artifacts c)"
    "1 \<le> length (ca_sources c) + length (ca_artifacts c)" "length (ca_sources c) + length (ca_artifacts c) \<le> 32"
    "ca_result c \<noteq> None \<longleftrightarrow> ca_status c = Approved" "ca_decision c \<noteq> None \<longleftrightarrow> ca_status c = Rejected"
    "ca_target c = Some t \<Longrightarrow> ar_family t = ca_family c"
proof -
  note all = assms [unfolded wf_candidate_def new_candidate_def]
  show "1 \<le> ca_version c" "ca_status c \<in> {Pending, Approved, Rejected}"
    using all by (auto simp: res_simps)
  obtain ss where ss: "check_sources (ca_sources c) = Inr ss" using all by (auto simp: and_then_eq_Inr)
  have "list_all (\<lambda>r. wf_source_ref r) (ca_sources c) \<longleftrightarrow> (\<exists>ys. check_sources (ca_sources c) = Inr ys)"
    unfolding check_sources_def by (rule map_res_unit_iff [symmetric]) (simp add: map_sum_eq_Inr new_source_ref_iff wf_source_ref_def)
  then show "list_all wf_source_ref (ca_sources c)" using ss by auto
  obtain as where as: "check_artifacts (ca_artifacts c) = Inr as" using all by (auto simp: and_then_eq_Inr)
  have "list_all (\<lambda>r. wf_artifact_ref r) (ca_artifacts c) \<longleftrightarrow> (\<exists>ys. check_artifacts (ca_artifacts c) = Inr ys)"
    unfolding check_artifacts_def by (rule map_res_unit_iff [symmetric]) (simp add: map_sum_eq_Inr validate_artifact_ref_iff)
  then show "list_all wf_artifact_ref (ca_artifacts c)" using as by auto
  show "1 \<le> length (ca_sources c) + length (ca_artifacts c)" "length (ca_sources c) + length (ca_artifacts c) \<le> 32"
    using all by (auto simp: and_then_eq_Inr evidence_count_def max_evidence_def res_simps)
  have "check_result (ca_status c) (ca_result c) = Inr ()" using all by (auto simp: and_then_eq_Inr)
  then show "ca_result c \<noteq> None \<longleftrightarrow> ca_status c = Approved"
    by (auto simp: check_result_def and_then_eq_Inr res_simps split: if_splits)
  have "check_decision (ca_status c) (ca_decision c) = Inr ()" using all by (auto simp: and_then_eq_Inr)
  then show "ca_decision c \<noteq> None \<longleftrightarrow> ca_status c = Rejected"
    by (auto simp: check_decision_def res_simps split: if_splits)
  assume "ca_target c = Some t"
  moreover have "check_target (ca_family c) (ca_target c) = Inr ()" using all by (auto simp: and_then_eq_Inr)
  ultimately show "ar_family t = ca_family c" by (auto simp: check_target_def and_then_eq_Inr res_simps)
qed

end
