(* ===== verification/Review_Store.thy ===== *)
theory Review_Store
  imports Review_Model
begin

text \<open>
  Candidates in the relational store (\<open>internal/sqlstore/candidates.go\<close>) and the transactions of the Review
  backend (\<open>internal/sqlstore/review.go\<close>) with the service in front of them (\<open>internal/review/service.go\<close>). A
  Candidate is a mutable head over immutable proposal versions; every change of the head is a
  conditional update on the expected version and the pending status. Approving writes the Artifact,
  the Experience index and the terminal head in one transaction: a transaction body is a function from
  tables to an error or a result with new tables. The JSON columns of a version row hold the
  reference lists they encode. The Experience index is an interface of the backend.
\<close>

section \<open>Tables\<close>

record candidate_version =
  cv_scope :: string
  cv_id :: string
  cv_version :: int
  cv_family :: string
  cv_proposal :: string
  cv_sources :: "source_ref list"
  cv_artifacts :: "artifact_ref list"
  cv_target :: "artifact_ref option"
  cv_reason :: "string option"

record candidate_head =
  ch_scope :: string
  ch_id :: string
  ch_family :: string
  ch_version :: int
  ch_status :: candidate_status
  ch_result :: "artifact_ref option"
  ch_decision :: "string option"

record 'i review_tables =
  rv_versions :: "candidate_version list"
  rv_heads :: "candidate_head list"
  rv_artifacts :: artifact_tables
  rv_sources :: source_tables
  rv_index :: 'i

record candidate_repository =
  cr_by_family :: "(string, proposal artifact_codec) gomap"

fun add_candidate_codecs :: "proposal artifact_codec list \<Rightarrow> candidate_repository \<Rightarrow> review_error + candidate_repository" where
  "add_candidate_codecs [] repo = Inr repo"
| "add_candidate_codecs (c # cs) repo =
     (case gm_get (cr_by_family repo) (ac_family c) of
        Some _ \<Rightarrow> Inl (ReviewStore (CodecConflict ''candidate family'' (ac_family c)))
      | None \<Rightarrow> add_candidate_codecs cs (repo\<lparr>cr_by_family := gm_set (ac_family c) c (cr_by_family repo)\<rparr>))"

definition new_candidate_repository :: "string \<Rightarrow> proposal artifact_codec list \<Rightarrow> review_error + candidate_repository" where
  "new_candidate_repository dialect codecs =
     and_then (check (dialect = ''sqlite'' \<or> dialect = ''mysql'') (ReviewFault ''sqlstore: unsupported dialect'')) (\<lambda>_.
     and_then (check (codecs \<noteq> []) (ReviewFault ''sqlstore: at least one Candidate proposal codec is required'')) (\<lambda>_.
     add_candidate_codecs codecs \<lparr>cr_by_family = []\<rparr>))"

section \<open>Reading Candidates\<close>

definition require_proposal :: "candidate_repository \<Rightarrow> string \<Rightarrow> proposal \<Rightarrow> review_error + unit" where
  "require_proposal repo family p = (case gm_get (cr_by_family repo) family of
     None \<Rightarrow> Inl (InvalidCandidateField ''family'' family)
   | Some codec \<Rightarrow> check (proposal_type p \<in> set (ac_types codec))
       (InvalidCandidateField ''proposal'' ''must match a registered exact content type''))"

text \<open>The join of a head with its version row, decoded (\<open>scanAndDecode\<close>).\<close>

definition decode_candidate :: "candidate_repository \<Rightarrow> candidate_head \<Rightarrow> candidate_version \<Rightarrow> review_error + candidate" where
  "decode_candidate repo h v = (case gm_get (cr_by_family repo) (ch_family h) of
     None \<Rightarrow> Inl (InvalidCandidateField ''family'' (ch_family h))
   | Some codec \<Rightarrow>
      (case ac_decode codec (cv_proposal v) of
         None \<Rightarrow> Inl (ReviewStore (InvalidStoredPayload ''candidate-proposal'' (ch_family h) ''payload does not match the model''))
       | Some p \<Rightarrow>
          and_then (map_sum (\<lambda>_. ReviewStore (InvalidStoredPayload ''candidate'' ''source-refs'' ''payload does not match the model'')) id
            (check_sources (cv_sources v))) (\<lambda>_.
          and_then (map_sum (\<lambda>_. ReviewStore (InvalidStoredPayload ''candidate'' ''artifact-refs'' ''payload does not match the model'')) id
            (check_artifacts (cv_artifacts v))) (\<lambda>_.
          and_then (check_artifacts (case cv_target v of None \<Rightarrow> [] | Some t \<Rightarrow> [t])) (\<lambda>_.
          and_then (check_artifacts (case ch_result h of None \<Rightarrow> [] | Some r \<Rightarrow> [r])) (\<lambda>_.
          new_candidate \<lparr>ca_id = ch_id h, ca_version = ch_version h, ca_family = ch_family h, ca_status = ch_status h,
            ca_proposal = p, ca_sources = cv_sources v, ca_artifacts = cv_artifacts v, ca_target = cv_target v,
            ca_reason = cv_reason v, ca_result = ch_result h, ca_decision = ch_decision h\<rparr>))))))"

definition find_candidate_head :: "'i review_tables \<Rightarrow> string \<Rightarrow> string \<Rightarrow> candidate_head option" where
  "find_candidate_head tb scope_id candidate_id = find (\<lambda>h. ch_scope h = scope_id \<and> ch_id h = candidate_id) (rv_heads tb)"

definition find_candidate_version :: "'i review_tables \<Rightarrow> string \<Rightarrow> string \<Rightarrow> int \<Rightarrow> candidate_version option" where
  "find_candidate_version tb scope_id candidate_id version =
     find (\<lambda>v. cv_scope v = scope_id \<and> cv_id v = candidate_id \<and> cv_version v = version) (rv_versions tb)"

definition find_current :: "candidate_repository \<Rightarrow> 'i review_tables \<Rightarrow> string \<Rightarrow> string \<Rightarrow> review_error + candidate option" where
  "find_current repo tb scope_id candidate_id = (case find_candidate_head tb scope_id candidate_id of
     None \<Rightarrow> Inr None
   | Some h \<Rightarrow>
      (case find_candidate_version tb scope_id candidate_id (ch_version h) of
         None \<Rightarrow> Inr None
       | Some v \<Rightarrow> and_then (decode_candidate repo h v) (\<lambda>c. Inr (Some c))))"

definition get_candidate :: "candidate_repository \<Rightarrow> 'i review_tables \<Rightarrow> string \<Rightarrow> string \<Rightarrow> review_error + candidate" where
  "get_candidate repo tb scope_id candidate_id =
     and_then (map_sum ReviewStore id (require_scope scope_id)) (\<lambda>_.
     and_then (find_current repo tb scope_id candidate_id) (\<lambda>found.
     case found of None \<Rightarrow> Inl (CandidateNotFound candidate_id) | Some c \<Rightarrow> Inr c))"

record candidate_page =
  cp_candidates :: "candidate list"
  cp_next :: "string option"

text \<open>The rows a listing selects, in the order of their identifiers.\<close>

definition listed_heads ::
  "'i review_tables \<Rightarrow> string \<Rightarrow> candidate_status \<Rightarrow> string option \<Rightarrow> string option \<Rightarrow> (candidate_head \<times> candidate_version) list" where
  "listed_heads tb scope_id status family cursor =
     concat (map (\<lambda>h. map (Pair h) (filter (\<lambda>v. cv_scope v = scope_id \<and> cv_id v = ch_id h \<and> cv_version v = ch_version h) (rv_versions tb)))
       (sort_key ch_id (filter (\<lambda>h. ch_scope h = scope_id \<and> ch_status h = status
           \<and> (case family of None \<Rightarrow> True | Some f \<Rightarrow> ch_family h = f)
           \<and> (case cursor of None \<Rightarrow> True | Some k \<Rightarrow> k < ch_id h)) (rv_heads tb))))"

definition list_candidates ::
  "candidate_repository \<Rightarrow> 'i review_tables \<Rightarrow> string \<Rightarrow> candidate_status \<Rightarrow> string option \<Rightarrow> string option \<Rightarrow> int
    \<Rightarrow> review_error + candidate_page" where
  "list_candidates repo tb scope_id status family cursor limit =
     and_then (map_sum ReviewStore id (require_scope scope_id)) (\<lambda>_.
     and_then (check (status \<in> {Pending, Approved, Rejected}) (InvalidCandidateField ''status'' (status_text status))) (\<lambda>_.
     and_then (check (1 \<le> limit \<and> limit \<le> max_page_size) (ReviewStore (InvalidArgument ''limit'' ''must be between 1 and 100''))) (\<lambda>_.
     and_then (case family of None \<Rightarrow> Inr ()
         | Some f \<Rightarrow> check (gm_get (cr_by_family repo) f \<noteq> None) (InvalidCandidateField ''family'' f)) (\<lambda>_.
     and_then (map_res (\<lambda>(h, v). decode_candidate repo h v)
       (take (nat (limit + 1)) (listed_heads tb scope_id status family cursor))) (\<lambda>found.
     let page = take (nat limit) found in
     Inr \<lparr>cp_candidates = page,
       cp_next = (if int (length found) > limit \<and> page \<noteq> [] then Some (ca_id (last page)) else None)\<rparr>)))))"

section \<open>Writing Candidates\<close>

text \<open>The keys and checks of \<open>pc_artifact_candidate_versions\<close>.\<close>

definition insert_candidate_version ::
  "candidate_repository \<Rightarrow> string \<Rightarrow> candidate \<Rightarrow> 'i review_tables \<Rightarrow> review_error + 'i review_tables" where
  "insert_candidate_version repo scope_id c tb = (case gm_get (cr_by_family repo) (ca_family c) of
     None \<Rightarrow> Inl (ReviewFault ''nil codec'')
   | Some codec \<Rightarrow>
      (case ac_encode codec (ca_proposal c) of
         None \<Rightarrow> Inl (ReviewStore (InvalidStoredPayload ''candidate-proposal'' (ca_family c) ''value is not JSON serializable''))
       | Some payload \<Rightarrow>
          and_then (check_sources (ca_sources c)) (\<lambda>_.
          and_then (check_artifacts (ca_artifacts c)) (\<lambda>_.
          if find_candidate_version tb scope_id (ca_id c) (ca_version c) \<noteq> None
             \<or> (case ca_target c of None \<Rightarrow> False
                | Some t \<Rightarrow> find_artifact_row (rv_artifacts tb) scope_id t = None \<or> ar_revision t \<le> 0)
             \<or> ca_version c \<le> 0
          then Inl (ReviewStore (ConstraintFailed ''pc_artifact_candidate_versions''))
          else Inr (tb\<lparr>rv_versions := rv_versions tb @ [\<lparr>cv_scope = scope_id, cv_id = ca_id c, cv_version = ca_version c,
            cv_family = ca_family c, cv_proposal = payload, cv_sources = ca_sources c, cv_artifacts = ca_artifacts c,
            cv_target = ca_target c, cv_reason = ca_reason c\<rparr>]\<rparr>)))))"

definition create_candidate ::
  "candidate_repository \<Rightarrow> 'i review_tables \<Rightarrow> string \<Rightarrow> string \<Rightarrow> string \<Rightarrow> proposal \<Rightarrow> source_ref list \<Rightarrow> artifact_ref list
    \<Rightarrow> artifact_ref option \<Rightarrow> string option \<Rightarrow> review_error + candidate \<times> 'i review_tables" where
  "create_candidate repo tb scope_id candidate_id family p sources artifacts target reason =
     and_then (map_sum ReviewStore id (require_scope scope_id)) (\<lambda>_.
     and_then (require_proposal repo family p) (\<lambda>_.
     and_then (new_candidate \<lparr>ca_id = candidate_id, ca_version = 1, ca_family = family, ca_status = Pending, ca_proposal = p,
       ca_sources = sources, ca_artifacts = artifacts, ca_target = target, ca_reason = reason, ca_result = None, ca_decision = None\<rparr>) (\<lambda>c.
     and_then (find_current repo tb scope_id candidate_id) (\<lambda>found.
     case found of
       Some current \<Rightarrow> Inl (CandidateConflict candidate_id 1 (ca_version current))
     | None \<Rightarrow>
        and_then (insert_candidate_version repo scope_id c tb) (\<lambda>tb1.
        if find_candidate_head tb1 scope_id candidate_id \<noteq> None
        then Inl (ReviewStore (ConstraintFailed ''pc_artifact_candidate_heads''))
        else Inr (c, tb1\<lparr>rv_heads := rv_heads tb1 @ [\<lparr>ch_scope = scope_id, ch_id = candidate_id, ch_family = family,
          ch_version = 1, ch_status = Pending, ch_result = None, ch_decision = None\<rparr>]\<rparr>))))))"

text \<open>The conditional update of a pending head: how many rows it matched and the heads it leaves.\<close>

definition pending_head :: "string \<Rightarrow> string \<Rightarrow> int \<Rightarrow> candidate_head \<Rightarrow> bool" where
  "pending_head scope_id candidate_id expected h \<longleftrightarrow>
     ch_scope h = scope_id \<and> ch_id h = candidate_id \<and> ch_version h = expected \<and> ch_status h = Pending"

definition update_pending ::
  "(candidate_head \<Rightarrow> candidate_head) \<Rightarrow> 'i review_tables \<Rightarrow> string \<Rightarrow> string \<Rightarrow> int \<Rightarrow> nat \<times> 'i review_tables" where
  "update_pending f tb scope_id candidate_id expected =
     (length (filter (pending_head scope_id candidate_id expected) (rv_heads tb)),
      tb\<lparr>rv_heads := map (\<lambda>h. if pending_head scope_id candidate_id expected h then f h else h) (rv_heads tb)\<rparr>)"

definition lock_pending ::
  "candidate_repository \<Rightarrow> 'i review_tables \<Rightarrow> string \<Rightarrow> string \<Rightarrow> int \<Rightarrow> review_error + candidate" where
  "lock_pending repo tb scope_id candidate_id expected =
     and_then (map_sum ReviewStore id (require_scope scope_id)) (\<lambda>_.
     let (_, tb1) = update_pending (\<lambda>h. h) tb scope_id candidate_id expected in
     and_then (find_current repo tb1 scope_id candidate_id) (\<lambda>found.
     case found of
       None \<Rightarrow> Inl (CandidateNotFound candidate_id)
     | Some c \<Rightarrow>
        and_then (check (ca_status c = Pending) (CandidateTerminal candidate_id (ca_status c))) (\<lambda>_.
        and_then (check (ca_version c = expected) (CandidateConflict candidate_id expected (ca_version c))) (\<lambda>_. Inr c))))"

definition require_one_cas ::
  "candidate_repository \<Rightarrow> 'i review_tables \<Rightarrow> string \<Rightarrow> string \<Rightarrow> int \<Rightarrow> nat \<Rightarrow> review_error + unit" where
  "require_one_cas repo tb scope_id candidate_id expected affected =
     (if affected = 1 then Inr ()
      else
        and_then (get_candidate repo tb scope_id candidate_id) (\<lambda>c.
        if ca_status c \<noteq> Pending then Inl (CandidateTerminal candidate_id (ca_status c))
        else Inl (CandidateConflict candidate_id expected (ca_version c))))"

definition revise_candidate ::
  "candidate_repository \<Rightarrow> 'i review_tables \<Rightarrow> string \<Rightarrow> string \<Rightarrow> int \<Rightarrow> proposal \<Rightarrow> source_ref list \<Rightarrow> artifact_ref list
    \<Rightarrow> artifact_ref option \<Rightarrow> string option \<Rightarrow> review_error + candidate \<times> 'i review_tables" where
  "revise_candidate repo tb scope_id candidate_id expected p sources artifacts target reason =
     and_then (lock_pending repo tb scope_id candidate_id expected) (\<lambda>current.
     and_then (require_proposal repo (ca_family current) p) (\<lambda>_.
     and_then (new_candidate \<lparr>ca_id = candidate_id, ca_version = wrap64 (ca_version current + 1), ca_family = ca_family current,
       ca_status = Pending, ca_proposal = p, ca_sources = sources, ca_artifacts = artifacts, ca_target = target,
       ca_reason = reason, ca_result = None, ca_decision = None\<rparr>) (\<lambda>revised.
     and_then (insert_candidate_version repo scope_id revised tb) (\<lambda>tb1.
     let (affected, tb2) = update_pending (\<lambda>h. h\<lparr>ch_version := ca_version revised\<rparr>) tb1 scope_id candidate_id expected in
     and_then (require_one_cas repo tb2 scope_id candidate_id expected affected) (\<lambda>_. Inr (revised, tb2))))))"

definition reject_candidate ::
  "candidate_repository \<Rightarrow> 'i review_tables \<Rightarrow> string \<Rightarrow> string \<Rightarrow> int \<Rightarrow> string \<Rightarrow> review_error + candidate \<times> 'i review_tables" where
  "reject_candidate repo tb scope_id candidate_id expected reason =
     and_then (lock_pending repo tb scope_id candidate_id expected) (\<lambda>current.
     and_then (new_candidate (current\<lparr>ca_status := Rejected, ca_result := None, ca_decision := Some reason\<rparr>)) (\<lambda>rejected.
     let (affected, tb1) = update_pending (\<lambda>h. h\<lparr>ch_status := Rejected, ch_decision := Some reason\<rparr>) tb scope_id candidate_id expected in
     and_then (require_one_cas repo tb1 scope_id candidate_id expected affected) (\<lambda>_. Inr (rejected, tb1))))"

definition mark_approved ::
  "candidate_repository \<Rightarrow> 'i review_tables \<Rightarrow> string \<Rightarrow> string \<Rightarrow> int \<Rightarrow> artifact_ref \<Rightarrow> review_error + candidate \<times> 'i review_tables" where
  "mark_approved repo tb scope_id candidate_id expected result =
     (let (affected, tb1) = update_pending (\<lambda>h. h\<lparr>ch_status := Approved, ch_result := Some result\<rparr>) tb scope_id candidate_id expected in
      and_then (check (affected = 0 \<or> find_artifact_row (rv_artifacts tb) scope_id result \<noteq> None \<and> 0 < ar_revision result)
        (ReviewStore (ConstraintFailed ''pc_artifact_candidate_heads''))) (\<lambda>_.
      and_then (require_one_cas repo tb1 scope_id candidate_id expected affected) (\<lambda>_.
      and_then (get_candidate repo tb1 scope_id candidate_id) (\<lambda>c. Inr (c, tb1)))))"

section \<open>The transactions of a review\<close>

record 'i experience_index =
  ei_replace :: "'i \<Rightarrow> string \<Rightarrow> proposal artifact \<Rightarrow> review_error + 'i"

definition no_experience_index :: "'i experience_index" where
  "no_experience_index = \<lparr>ei_replace = (\<lambda>i _ _. Inr i)\<rparr>"

record 'i review_backend =
  rb_scope :: string
  rb_env :: json_env
  rb_candidates :: candidate_repository
  rb_artifacts :: "proposal artifact_repository"
  rb_sources :: source_repository
  rb_index :: "'i experience_index"

definition new_review_backend ::
  "string \<Rightarrow> json_env \<Rightarrow> candidate_repository \<Rightarrow> proposal artifact_repository \<Rightarrow> source_repository \<Rightarrow> 'i experience_index option
    \<Rightarrow> review_error + 'i review_backend" where
  "new_review_backend scope_id env candidates artifacts sources index =
     and_then (map_sum ReviewStore id (require_scope scope_id)) (\<lambda>_.
     Inr \<lparr>rb_scope = scope_id, rb_env = env, rb_candidates = candidates, rb_artifacts = artifacts, rb_sources = sources,
       rb_index = (case index of None \<Rightarrow> no_experience_index | Some i \<Rightarrow> i)\<rparr>)"

text \<open>A missing reference of the evidence is an invalid Candidate, any other error is passed on.\<close>

definition evidence_error :: "store_error \<Rightarrow> review_error" where
  "evidence_error e = (case e of
     RepositoryNotFound _ _ \<Rightarrow> InvalidCandidateField ''evidence'' ''reference is not available in this scope''
   | _ \<Rightarrow> ReviewStore e)"

definition validate_evidence :: "'i review_backend \<Rightarrow> 'i review_tables \<Rightarrow> source_ref list \<Rightarrow> artifact_ref list \<Rightarrow> review_error + unit" where
  "validate_evidence rb tb sources artifacts =
     and_then (evidence_count sources artifacts) (\<lambda>_.
     and_then (map_res (\<lambda>r. map_sum evidence_error id (get_source (rb_env rb) (rb_sources rb) (rv_sources tb) (rb_scope rb) r)) sources) (\<lambda>_.
     and_then (map_res (\<lambda>r. map_sum evidence_error id (get_artifact (rb_artifacts rb) (rv_artifacts tb) (rb_scope rb) r)) artifacts) (\<lambda>_.
     Inr ())))"

definition validate_target ::
  "'i review_backend \<Rightarrow> 'i review_tables \<Rightarrow> string \<Rightarrow> artifact_ref option \<Rightarrow> artifact_ref list \<Rightarrow> review_error + unit" where
  "validate_target rb tb family target artifacts = (case target of
     None \<Rightarrow> Inr ()
   | Some t \<Rightarrow>
      and_then (check (ar_family t = family) (InvalidCandidateField ''target'' (''must identify a '' @ family @ '' Artifact''))) (\<lambda>_.
      and_then (check (t \<in> set artifacts)
        (InvalidCandidateField ''artifacts'' (''must include the exact target '' @ family @ '' Artifact''))) (\<lambda>_.
      case latest_artifact (rb_artifacts rb) (rv_artifacts tb) (rb_scope rb) (ar_family t) (ar_id t) of
        Inl (RepositoryNotFound _ _) \<Rightarrow> Inl (InvalidCandidateField ''target'' ''Artifact is not available in this scope'')
      | Inl e \<Rightarrow> Inl (ReviewStore e)
      | Inr latest \<Rightarrow> check (a_ref latest = t) (ArtifactTargetConflict t (a_ref latest)))))"

definition validate_reviewed_proposal :: "string \<Rightarrow> proposal \<Rightarrow> proposal \<Rightarrow> review_error + unit" where
  "validate_reviewed_proposal family current p =
     and_then (check (proposal_type current = proposal_type p) (InvalidCandidateField ''family'' family)) (\<lambda>_.
     check (case p of ExperienceProposal _ \<Rightarrow> family = experience_family | SkillProposal _ \<Rightarrow> family = skill_family)
       (InvalidCandidateField ''family'' family))"

definition validate_approval_lineage :: "candidate \<Rightarrow> review_error + unit" where
  "validate_approval_lineage c =
     (if ca_family c \<noteq> skill_family then Inr ()
      else case ca_target c of
        None \<Rightarrow> check (list_all (\<lambda>r. ar_family r = experience_family) (ca_artifacts c))
          (InvalidCandidateField ''artifacts'' ''new managed Skill lineage may reference only Experience Artifacts'')
      | Some t \<Rightarrow>
         and_then (check (t \<in> set (ca_artifacts c))
           (InvalidCandidateField ''artifacts'' ''managed Skill lineage must include its exact target'')) (\<lambda>_.
         check (ca_sources c \<noteq> []) (InvalidCandidateField ''sources'' ''managed Skill replacement requires bounded Source evidence'')))"

definition candidate_draft :: "candidate \<Rightarrow> review_error + proposal draft" where
  "candidate_draft c = (case ca_proposal c of
     ExperienceProposal _ \<Rightarrow>
      (if ca_family c \<noteq> experience_family then Inl (InvalidCandidateField ''family'' (ca_family c))
       else map_sum ReviewArtifact id (new_draft experience_family (ca_proposal c) (ca_sources c) (ca_artifacts c)))
   | SkillProposal _ \<Rightarrow>
      (if ca_family c \<noteq> skill_family then Inl (InvalidCandidateField ''family'' (ca_family c))
       else map_sum ReviewArtifact id (new_draft skill_family (ca_proposal c) (ca_sources c) (ca_artifacts c))))"

definition review_propose ::
  "'i review_backend \<Rightarrow> 'i review_tables \<Rightarrow> string \<Rightarrow> string \<Rightarrow> proposal \<Rightarrow> source_ref list \<Rightarrow> artifact_ref list
    \<Rightarrow> artifact_ref option \<Rightarrow> string option \<Rightarrow> review_error + candidate \<times> 'i review_tables" where
  "review_propose rb tb candidate_id family p sources artifacts target reason =
     and_then (validate_evidence rb tb sources artifacts) (\<lambda>_.
     and_then (validate_target rb tb family target artifacts) (\<lambda>_.
     create_candidate (rb_candidates rb) tb (rb_scope rb) candidate_id family p sources artifacts target reason))"

definition review_get :: "'i review_backend \<Rightarrow> 'i review_tables \<Rightarrow> string \<Rightarrow> review_error + candidate" where
  "review_get rb tb candidate_id = get_candidate (rb_candidates rb) tb (rb_scope rb) candidate_id"

definition review_get_artifact :: "'i review_backend \<Rightarrow> 'i review_tables \<Rightarrow> artifact_ref \<Rightarrow> review_error + proposal artifact" where
  "review_get_artifact rb tb ref = map_sum
     (\<lambda>e. case e of RepositoryNotFound _ _ \<Rightarrow> ReviewArtifact (ArtNotFound ref) | _ \<Rightarrow> ReviewStore e) id
     (get_artifact (rb_artifacts rb) (rv_artifacts tb) (rb_scope rb) ref)"

definition review_list ::
  "'i review_backend \<Rightarrow> 'i review_tables \<Rightarrow> candidate_status \<Rightarrow> string option \<Rightarrow> string option \<Rightarrow> int \<Rightarrow> review_error + candidate_page" where
  "review_list rb tb status family cursor limit = list_candidates (rb_candidates rb) tb (rb_scope rb) status family cursor limit"

definition review_revise ::
  "'i review_backend \<Rightarrow> 'i review_tables \<Rightarrow> string \<Rightarrow> int \<Rightarrow> proposal \<Rightarrow> source_ref list \<Rightarrow> artifact_ref list
    \<Rightarrow> artifact_ref option \<Rightarrow> string option \<Rightarrow> review_error + candidate \<times> 'i review_tables" where
  "review_revise rb tb candidate_id expected p sources artifacts target reason =
     and_then (lock_pending (rb_candidates rb) tb (rb_scope rb) candidate_id expected) (\<lambda>current.
     and_then (validate_reviewed_proposal (ca_family current) (ca_proposal current) p) (\<lambda>_.
     and_then (check (target = ca_target current) (InvalidCandidateField ''target'' ''cannot change across Candidate versions'')) (\<lambda>_.
     and_then (validate_evidence rb tb sources artifacts) (\<lambda>_.
     and_then (validate_target rb tb (ca_family current) target artifacts) (\<lambda>_.
     revise_candidate (rb_candidates rb) tb (rb_scope rb) candidate_id expected p sources artifacts target reason)))))"

definition review_reject ::
  "'i review_backend \<Rightarrow> 'i review_tables \<Rightarrow> string \<Rightarrow> int \<Rightarrow> string \<Rightarrow> review_error + candidate \<times> 'i review_tables" where
  "review_reject rb tb candidate_id expected reason =
     reject_candidate (rb_candidates rb) tb (rb_scope rb) candidate_id expected reason"

text \<open>The foreign key of Artifact lineage into the Sources of the Scope.\<close>

definition scope_has_source :: "'i review_tables \<Rightarrow> string \<Rightarrow> source_ref \<Rightarrow> bool" where
  "scope_has_source tb scope_id r \<longleftrightarrow> find_source (rv_sources tb) scope_id r \<noteq> None"

definition store_approved ::
  "'i review_backend \<Rightarrow> 'i review_tables \<Rightarrow> (string \<Rightarrow> review_error + string) \<Rightarrow> candidate \<Rightarrow> proposal draft
    \<Rightarrow> review_error + proposal artifact \<times> artifact_tables" where
  "store_approved rb tb ids c d = (case ca_target c of
     None \<Rightarrow>
      and_then (ids (ca_family c)) (\<lambda>artifact_id.
      map_sum ReviewStore id (create_artifact (scope_has_source tb) (rb_artifacts rb) (rv_artifacts tb) (rb_scope rb) artifact_id d))
   | Some t \<Rightarrow>
      and_then (map_sum ReviewStore id (get_artifact (rb_artifacts rb) (rv_artifacts tb) (rb_scope rb) t)) (\<lambda>current.
      map_sum (\<lambda>e. case e of StoreArtifact (ArtRevisionConflict _ now) \<Rightarrow> ArtifactTargetConflict t now | _ \<Rightarrow> ReviewStore e) id
        (revise_artifact (scope_has_source tb) (rb_artifacts rb) (rv_artifacts tb) (rb_scope rb) current d)))"

definition index_approved :: "'i review_backend \<Rightarrow> 'i \<Rightarrow> proposal artifact \<Rightarrow> review_error + 'i" where
  "index_approved rb i a = (case a_content a of
     ExperienceProposal _ \<Rightarrow> ei_replace (rb_index rb) i (rb_scope rb) a
   | SkillProposal _ \<Rightarrow> Inr i)"

definition review_approve ::
  "'i review_backend \<Rightarrow> 'i review_tables \<Rightarrow> (string \<Rightarrow> review_error + string) \<Rightarrow> string \<Rightarrow> int \<Rightarrow> review_error + candidate \<times> 'i review_tables" where
  "review_approve rb tb ids candidate_id expected =
     and_then (lock_pending (rb_candidates rb) tb (rb_scope rb) candidate_id expected) (\<lambda>c.
     and_then (validate_approval_lineage c) (\<lambda>_.
     and_then (candidate_draft c) (\<lambda>d.
     and_then (store_approved rb tb ids c d) (\<lambda>(stored, artifacts).
     and_then (index_approved rb (rv_index tb) stored) (\<lambda>i.
     mark_approved (rb_candidates rb) (tb\<lparr>rv_artifacts := artifacts, rv_index := i\<rparr>) (rb_scope rb) candidate_id expected (a_ref stored))))))"

section \<open>The Review service\<close>

text \<open>\<open>uniqueSources\<close> and \<open>uniqueArtifacts\<close>: the first occurrence of every reference.\<close>

fun unique_refs :: "'a list \<Rightarrow> 'a list \<Rightarrow> 'a list" where
  "unique_refs seen [] = []"
| "unique_refs seen (v # vs) = (if v \<in> set seen then unique_refs seen vs else v # unique_refs (v # seen) vs)"

record 'i review_service =
  rs_backend :: "'i review_backend"
  rs_ids :: "string \<Rightarrow> review_error + string"

definition service_propose ::
  "'i review_service \<Rightarrow> 'i review_tables \<Rightarrow> string \<Rightarrow> proposal \<Rightarrow> source_ref list \<Rightarrow> artifact_ref list
    \<Rightarrow> artifact_ref option \<Rightarrow> string option \<Rightarrow> review_error + candidate \<times> 'i review_tables" where
  "service_propose svc tb family p sources artifacts target reason =
     and_then (validate_reason reason) (\<lambda>_.
     and_then (rs_ids svc ''candidate'') (\<lambda>i.
     review_propose (rs_backend svc) tb i family p (unique_refs [] sources) (unique_refs [] artifacts) target reason))"

definition experience_candidate :: "candidate \<Rightarrow> review_error + candidate" where
  "experience_candidate c = (case ca_proposal c of
     ExperienceProposal _ \<Rightarrow> if ca_family c = experience_family then new_candidate c else Inl (InvalidCandidateField ''family'' (ca_family c))
   | _ \<Rightarrow> Inl (InvalidCandidateField ''family'' (ca_family c)))"

definition skill_candidate :: "candidate \<Rightarrow> review_error + candidate" where
  "skill_candidate c = (case ca_proposal c of
     SkillProposal _ \<Rightarrow> if ca_family c = skill_family then new_candidate c else Inl (InvalidCandidateField ''family'' (ca_family c))
   | _ \<Rightarrow> Inl (InvalidCandidateField ''family'' (ca_family c)))"

definition propose_experience ::
  "'i review_service \<Rightarrow> 'i review_tables \<Rightarrow> experience_content \<Rightarrow> source_ref list \<Rightarrow> artifact_ref list
    \<Rightarrow> artifact_ref option \<Rightarrow> string option \<Rightarrow> (review_error + candidate) \<times> 'i review_tables" where
  "propose_experience svc tb content sources artifacts target reason =
     (case service_propose svc tb experience_family (ExperienceProposal content) sources artifacts target reason of
        Inl e \<Rightarrow> (Inl e, tb)
      | Inr (c, tb') \<Rightarrow> (experience_candidate c, tb'))"

definition propose_skill ::
  "'i review_service \<Rightarrow> 'i review_tables \<Rightarrow> skill_content \<Rightarrow> source_ref list \<Rightarrow> artifact_ref list
    \<Rightarrow> artifact_ref option \<Rightarrow> string option \<Rightarrow> (review_error + candidate) \<times> 'i review_tables" where
  "propose_skill svc tb content sources artifacts target reason =
     (case service_propose svc tb skill_family (SkillProposal content) sources artifacts target reason of
        Inl e \<Rightarrow> (Inl e, tb)
      | Inr (c, tb') \<Rightarrow> (skill_candidate c, tb'))"

definition service_revise ::
  "'i review_service \<Rightarrow> 'i review_tables \<Rightarrow> string \<Rightarrow> int \<Rightarrow> proposal \<Rightarrow> source_ref list \<Rightarrow> artifact_ref list
    \<Rightarrow> artifact_ref option \<Rightarrow> string option \<Rightarrow> review_error + candidate \<times> 'i review_tables" where
  "service_revise svc tb candidate_id expected p sources artifacts target reason =
     and_then (validate_reason reason) (\<lambda>_.
     review_revise (rs_backend svc) tb candidate_id expected p (unique_refs [] sources) (unique_refs [] artifacts) target reason)"

definition service_reject ::
  "'i review_service \<Rightarrow> 'i review_tables \<Rightarrow> string \<Rightarrow> int \<Rightarrow> string \<Rightarrow> review_error + candidate \<times> 'i review_tables" where
  "service_reject svc tb candidate_id expected reason =
     and_then (validate_reason (Some reason)) (\<lambda>_. review_reject (rs_backend svc) tb candidate_id expected reason)"

definition service_approve ::
  "'i review_service \<Rightarrow> 'i review_tables \<Rightarrow> string \<Rightarrow> int \<Rightarrow> review_error + candidate \<times> 'i review_tables" where
  "service_approve svc tb candidate_id expected = review_approve (rs_backend svc) tb (rs_ids svc) candidate_id expected"

definition get_experience :: "'i review_service \<Rightarrow> 'i review_tables \<Rightarrow> artifact_ref \<Rightarrow> review_error + proposal artifact" where
  "get_experience svc tb ref =
     and_then (check (ar_family ref = experience_family) (ReviewArtifact (ArtNotFound ref))) (\<lambda>_.
     and_then (review_get_artifact (rs_backend svc) tb ref) (\<lambda>a.
     case a_content a of ExperienceProposal _ \<Rightarrow> Inr a | _ \<Rightarrow> Inl (ReviewArtifact (ArtNotFound ref))))"

definition get_skill :: "'i review_service \<Rightarrow> 'i review_tables \<Rightarrow> artifact_ref \<Rightarrow> review_error + proposal artifact" where
  "get_skill svc tb ref =
     and_then (check (ar_family ref = skill_family) (ReviewArtifact (ArtNotFound ref))) (\<lambda>_.
     and_then (review_get_artifact (rs_backend svc) tb ref) (\<lambda>a.
     case a_content a of SkillProposal _ \<Rightarrow> Inr a | _ \<Rightarrow> Inl (ReviewArtifact (ArtNotFound ref))))"

section \<open>Generation\<close>

text \<open>The evidence reader and the two generators are arguments of the service; a generator may decline.
  A generator that is absent is the capability error. The model runs between the two transactions: it
  leaves the tables to whoever uses them meanwhile.\<close>

record generation_service =
  gs_evidence :: "source_ref list \<Rightarrow> artifact_ref list \<Rightarrow> review_error + generation_evidence list"
  gs_experience :: "(generation_input \<Rightarrow> review_error + experience_content option) option"
  gs_skill :: "(generation_input \<Rightarrow> review_error + skill_content option) option"

definition generate_experience ::
  "generation_service \<Rightarrow> 'i review_service \<Rightarrow> 'i review_tables \<Rightarrow> source_ref list \<Rightarrow> artifact_ref list
    \<Rightarrow> artifact_ref option \<Rightarrow> string option \<Rightarrow> (review_error + candidate option) \<times> 'i review_tables" where
  "generate_experience gs svc tb sources artifacts target reason = (case gs_experience gs of
     None \<Rightarrow> (Inl (GenerationUnavailable experience_family), tb)
   | Some generate \<Rightarrow>
      (case and_then (check (case target of None \<Rightarrow> True | Some t \<Rightarrow> ar_family t = experience_family)
               (InvalidCandidateField ''target'' ''must identify an Experience'')) (\<lambda>_.
             and_then (gs_evidence gs sources artifacts) (\<lambda>evidence.
             and_then (generation_input_of evidence target) generate)) of
         Inl e \<Rightarrow> (Inl e, tb)
       | Inr None \<Rightarrow> (Inr None, tb)
       | Inr (Some content) \<Rightarrow>
          (case propose_experience svc tb content sources artifacts target reason of
             (Inl e, tb') \<Rightarrow> (Inl e, tb')
           | (Inr c, tb') \<Rightarrow> (Inr (Some c), tb'))))"

definition generate_skill ::
  "generation_service \<Rightarrow> 'i review_service \<Rightarrow> 'i review_tables \<Rightarrow> skill_origin \<Rightarrow> source_ref list \<Rightarrow> artifact_ref list
    \<Rightarrow> artifact_ref option \<Rightarrow> string option \<Rightarrow> (review_error + candidate option) \<times> 'i review_tables" where
  "generate_skill gs svc tb origin sources artifacts target reason = (case gs_skill gs of
     None \<Rightarrow> (Inl (GenerationUnavailable skill_family), tb)
   | Some generate \<Rightarrow>
      (case and_then (validate_skill_lineage origin sources artifacts target) (\<lambda>_.
             and_then (gs_evidence gs sources artifacts) (\<lambda>evidence.
             and_then (generation_input_of evidence target) generate)) of
         Inl e \<Rightarrow> (Inl e, tb)
       | Inr None \<Rightarrow> (Inr None, tb)
       | Inr (Some content) \<Rightarrow>
          (case propose_skill svc tb content sources artifacts target reason of
             (Inl e, tb') \<Rightarrow> (Inl e, tb')
           | (Inr c, tb') \<Rightarrow> (Inr (Some c), tb'))))"

end
