(* ===== verification/Review_Properties.thy ===== *)
theory Review_Properties
  imports Review_Store
begin

text \<open>
  What the Review backend guarantees: a decision is a compare-and-set on the pending version of a
  Candidate, approving writes exactly the proposed content as the next Artifact revision, a decided
  Candidate never changes, and the pages of a listing enumerate it exactly once.
\<close>

section \<open>Heads\<close>

definition candidate_key :: "candidate_head \<Rightarrow> string \<times> string" where
  "candidate_key h = (ch_scope h, ch_id h)"

definition version_cell :: "candidate_version \<Rightarrow> string \<times> string \<times> int" where
  "version_cell v = (cv_scope v, cv_id v, cv_version v)"

definition review_inv :: "'i review_tables \<Rightarrow> bool" where
  "review_inv tb \<longleftrightarrow> distinct (map candidate_key (rv_heads tb)) \<and> distinct (map version_cell (rv_versions tb))
     \<and> (\<forall>s k h. find_candidate_head tb s k = Some h \<longrightarrow> find_candidate_version tb s k (ch_version h) \<noteq> None \<and> in_int64 (ch_version h))
     \<and> artifacts_inv (rv_artifacts tb)"

lemma candidate_head_key: "find_candidate_head tb s k = find (\<lambda>h. candidate_key h = (s, k)) (rv_heads tb)"
  by (simp add: find_candidate_head_def candidate_key_def)

lemma find_map_key:
  assumes "\<And>x. key (g x) = key x"
  shows "find (\<lambda>x. key x = q) (map g xs) = map_option g (find (\<lambda>x. key x = q) xs)"
  by (induction xs) (simp_all add: assms)

lemma update_pending_fields [simp]:
  "rv_versions (snd (update_pending f tb s k n)) = rv_versions tb"
  "rv_artifacts (snd (update_pending f tb s k n)) = rv_artifacts tb"
  "rv_sources (snd (update_pending f tb s k n)) = rv_sources tb"
  "rv_index (snd (update_pending f tb s k n)) = rv_index tb"
  "find_candidate_version (snd (update_pending f tb s k n)) = find_candidate_version tb"
  by (simp_all add: update_pending_def find_candidate_version_def fun_eq_iff)

lemma update_pending_head:
  assumes "\<And>h. candidate_key (f h) = candidate_key h"
  shows "find_candidate_head (snd (update_pending f tb s k n)) s' k'
    = map_option (\<lambda>h. if pending_head s k n h then f h else h) (find_candidate_head tb s' k')"
  unfolding candidate_head_key update_pending_def snd_conv
  by (simp add: find_map_key assms)

lemma update_pending_same: "snd (update_pending (\<lambda>h. h) tb s k n) = tb"
  by (simp add: update_pending_def)

lemma find_head_pending:
  assumes "find_candidate_head tb s k = Some h" "pending_head s' k' n h"
  shows "s' = s" "k' = k" "ch_version h = n" "ch_status h = Pending"
  using assms by (auto simp: find_candidate_head_def find_Some_iff pending_head_def)

lemma decode_candidate_fields:
  assumes "decode_candidate repo h v = Inr c"
  shows "ca_id c = ch_id h" "ca_version c = ch_version h" "ca_family c = ch_family h" "ca_status c = ch_status h"
    "ca_sources c = cv_sources v" "ca_artifacts c = cv_artifacts v" "ca_target c = cv_target v" "ca_reason c = cv_reason v"
    "ca_result c = ch_result h" "ca_decision c = ch_decision h" "wf_candidate c"
    "\<exists>codec. gm_get (cr_by_family repo) (ch_family h) = Some codec \<and> ac_decode codec (cv_proposal v) = Some (ca_proposal c)"
  using assms by (auto simp: decode_candidate_def and_then_eq_Inr new_candidate_Inr split: option.splits)

lemma get_candidate_Inr:
  "get_candidate repo tb s k = Inr c \<longleftrightarrow> require_scope s = Inr () \<and> (\<exists>h v. find_candidate_head tb s k = Some h
     \<and> find_candidate_version tb s k (ch_version h) = Some v \<and> decode_candidate repo h v = Inr c)"
  by (auto simp: get_candidate_def find_current_def res_simps split: option.splits)

lemma lock_pending_Inr:
  assumes "lock_pending repo tb s k n = Inr c"
  shows "get_candidate repo tb s k = Inr c" "ca_status c = Pending" "ca_version c = n"
    "\<exists>h. find_candidate_head tb s k = Some h \<and> pending_head s k n h"
proof -
  have "update_pending (\<lambda>h. h) tb s k n = (fst (update_pending (\<lambda>h. h) tb s k n), tb)"
    using update_pending_same by (metis prod.collapse)
  then have l: "get_candidate repo tb s k = Inr c \<and> ca_status c = Pending \<and> ca_version c = n"
    using assms by (auto simp: lock_pending_def get_candidate_def res_simps split: option.splits prod.splits)
  then show "get_candidate repo tb s k = Inr c" "ca_status c = Pending" "ca_version c = n" by auto
  obtain h v where h: "find_candidate_head tb s k = Some h" "decode_candidate repo h v = Inr c"
    using l by (auto simp: get_candidate_Inr)
  then have "pending_head s k n h"
    using l decode_candidate_fields(2,4) [OF h(2)] by (auto simp: pending_head_def find_candidate_head_def find_Some_iff)
  then show "\<exists>h. find_candidate_head tb s k = Some h \<and> pending_head s k n h" using h(1) by blast
qed

lemma require_one_cas_Inr: "require_one_cas repo tb s k n affected = Inr u \<longleftrightarrow> affected = 1"
  by (auto simp: require_one_cas_def res_simps split: if_splits)

section \<open>What the writes do\<close>

lemma insert_candidate_version_Inr:
  assumes "insert_candidate_version repo s c tb = Inr tb'"
  obtains v where "tb' = tb\<lparr>rv_versions := rv_versions tb @ [v]\<rparr>" "version_cell v = (s, ca_id c, ca_version c)"
    "find_candidate_version tb s (ca_id c) (ca_version c) = None"
  using assms by (auto simp: insert_candidate_version_def res_simps version_cell_def split: option.splits if_splits)

text \<open>One write of the Candidate \<open>k\<close>: at most new version rows, and one head that is new or was pending.\<close>

definition head_moved :: "'i review_tables \<Rightarrow> string \<Rightarrow> string \<Rightarrow> int option \<Rightarrow> 'i review_tables \<Rightarrow> bool" where
  "head_moved tb s k x tb' \<longleftrightarrow>
     (\<exists>vs. rv_versions tb' = rv_versions tb @ vs \<and> (distinct (map version_cell (rv_versions tb)) \<longrightarrow> distinct (map version_cell (rv_versions tb'))))
     \<and> (case x of
          None \<Rightarrow> find_candidate_head tb s k = None \<and> map candidate_key (rv_heads tb') = map candidate_key (rv_heads tb) @ [(s, k)]
        | Some n \<Rightarrow> (\<exists>h. find_candidate_head tb s k = Some h \<and> pending_head s k n h)
            \<and> map candidate_key (rv_heads tb') = map candidate_key (rv_heads tb))
     \<and> (\<exists>h'. find_candidate_head tb' s k = Some h' \<and> find_candidate_version tb' s k (ch_version h') \<noteq> None \<and> in_int64 (ch_version h')
          \<and> ch_version h' + (if ch_status h' = Pending then 0 else 1) = next_version x)
     \<and> (\<forall>s' k'. (s', k') \<noteq> (s, k) \<longrightarrow> find_candidate_head tb' s' k' = find_candidate_head tb s' k')"

lemma find_version_old:
  assumes "rv_versions tb' = rv_versions tb @ vs" "find_candidate_version tb s k n = Some v"
  shows "find_candidate_version tb' s k n = Some v"
  using assms by (simp add: find_candidate_version_def find_append)

lemma find_version_new:
  assumes "rv_versions tb' = rv_versions tb @ [v]" "version_cell v = (s, k, n)" "find_candidate_version tb s k n = None"
  shows "find_candidate_version tb' s k n = Some v" "distinct (map version_cell (rv_versions tb)) \<Longrightarrow> distinct (map version_cell (rv_versions tb'))"
proof -
  show "find_candidate_version tb' s k n = Some v" using assms by (simp add: find_candidate_version_def find_append version_cell_def)
  show "distinct (map version_cell (rv_versions tb)) \<Longrightarrow> distinct (map version_cell (rv_versions tb'))"
    using assms by (auto simp: find_candidate_version_def version_cell_def find_None_iff)
qed

lemma create_moved:
  assumes "create_candidate repo tb s k family p ss as t r = Inr (c, tb')"
  shows "head_moved tb s k None tb'" "rv_artifacts tb' = rv_artifacts tb"
proof -
  let ?c = "\<lparr>ca_id = k, ca_version = 1, ca_family = family, ca_status = Pending, ca_proposal = p,
       ca_sources = ss, ca_artifacts = as, ca_target = t, ca_reason = r, ca_result = None, ca_decision = None\<rparr>"
  let ?h = "\<lparr>ch_scope = s, ch_id = k, ch_family = family, ch_version = 1, ch_status = Pending, ch_result = None, ch_decision = None\<rparr>"
  obtain tb1 where tb1: "insert_candidate_version repo s ?c tb = Inr tb1" "find_candidate_head tb1 s k = None"
      "tb' = tb1\<lparr>rv_heads := rv_heads tb1 @ [?h]\<rparr>"
    using assms by (auto simp: create_candidate_def and_then_eq_Inr new_candidate_Inr split: option.splits if_splits)
  obtain v where v: "tb1 = tb\<lparr>rv_versions := rv_versions tb @ [v]\<rparr>" "version_cell v = (s, k, 1)" "find_candidate_version tb s k 1 = None"
    using tb1(1) by (elim insert_candidate_version_Inr) simp
  have rows: "rv_versions tb' = rv_versions tb @ [v]" using tb1(3) v(1) by simp
  have "find_candidate_head tb' s' k' = (case find_candidate_head tb s' k' of Some h \<Rightarrow> Some h | None \<Rightarrow> if (s', k') = (s, k) then Some ?h else None)"
    for s' k' using tb1(3) v(1) by (auto simp: find_candidate_head_def find_append split: option.splits)
  moreover have "find_candidate_head tb s k = None" using tb1(2) v(1) by (simp add: find_candidate_head_def)
  ultimately show "head_moved tb s k None tb'"
    using find_version_new [OF rows v(2,3)] rows tb1(3) v(1)
    by (auto simp: head_moved_def next_version_def version_number_def candidate_key_def in_int64_def max_int64_def split: option.splits)
  show "rv_artifacts tb' = rv_artifacts tb" using tb1(3) v(1) by simp
qed

lemma update_moved:
  assumes "find_candidate_head tb s k = Some h" "pending_head s k n h" "\<And>h. candidate_key (f h) = candidate_key h"
    and "rv_versions tb1 = rv_versions tb @ vs" "rv_heads tb1 = rv_heads tb"
    and "distinct (map version_cell (rv_versions tb)) \<Longrightarrow> distinct (map version_cell (rv_versions tb1))"
    and "find_candidate_version tb1 s k (ch_version (f h)) \<noteq> None" "in_int64 (ch_version (f h))"
    and "ch_version (f h) + (if ch_status (f h) = Pending then 0 else 1) = n + 1"
  shows "head_moved tb s k (Some n) (snd (update_pending f tb1 s k n))"
proof -
  have same: "find_candidate_head tb1 = find_candidate_head tb" using assms(5) by (simp add: find_candidate_head_def fun_eq_iff)
  have keys: "map candidate_key (rv_heads (snd (update_pending f tb1 s k n))) = map candidate_key (rv_heads tb)"
    using assms(3,5) by (simp add: update_pending_def)
  have other: "map_option (\<lambda>h. if pending_head s k n h then f h else h) (find_candidate_head tb s' k') = find_candidate_head tb s' k'"
    if "(s', k') \<noteq> (s, k)" for s' k'
    using that by (auto simp: find_candidate_head_def find_Some_iff pending_head_def split: option.splits intro!: option.map_ident_strong)
  show ?thesis
    unfolding head_moved_def update_pending_fields update_pending_head [of f, OF assms(3)] same
    using assms keys other by (auto simp: next_version_def version_number_def)
qed


lemma candidate_key_update [simp]:
  "candidate_key (h\<lparr>ch_version := n\<rparr>) = candidate_key h" "candidate_key (h\<lparr>ch_status := st, ch_decision := d\<rparr>) = candidate_key h"
  "candidate_key (h\<lparr>ch_status := st, ch_result := r\<rparr>) = candidate_key h"
  by (simp_all add: candidate_key_def)

lemma pending_version_row:
  assumes "lock_pending repo tb s k n = Inr c"
  obtains h v where "find_candidate_head tb s k = Some h" "pending_head s k n h" "find_candidate_version tb s k n = Some v"
    "decode_candidate repo h v = Inr c"
proof -
  obtain h v where h: "find_candidate_head tb s k = Some h" "find_candidate_version tb s k (ch_version h) = Some v" "decode_candidate repo h v = Inr c"
    using lock_pending_Inr(1) [OF assms] by (auto simp: get_candidate_Inr)
  moreover have "pending_head s k n h" using lock_pending_Inr(4) [OF assms] h(1) by auto
  ultimately show thesis using that by (simp add: pending_head_def)
qed

lemma revise_moved:
  assumes "revise_candidate repo tb s k n p ss as t r = Inr (c, tb')" "review_inv tb"
  shows "head_moved tb s k (Some n) tb'" "rv_artifacts tb' = rv_artifacts tb"
proof -
  obtain cur tb1 where l: "lock_pending repo tb s k n = Inr cur" "wf_candidate c" "ca_id c = k" "ca_version c = wrap64 (ca_version cur + 1)"
      "insert_candidate_version repo s c tb = Inr tb1" "tb' = snd (update_pending (\<lambda>h. h\<lparr>ch_version := ca_version c\<rparr>) tb1 s k n)"
    using assms(1) by (auto simp: revise_candidate_def and_then_eq_Inr new_candidate_Inr case_prod_beta Let_def)
  obtain h where h: "find_candidate_head tb s k = Some h" "pending_head s k n h" using lock_pending_Inr(4) [OF l(1)] by blast
  obtain v where v: "tb1 = tb\<lparr>rv_versions := rv_versions tb @ [v]\<rparr>" "version_cell v = (s, k, ca_version c)"
      "find_candidate_version tb s k (ca_version c) = None"
    using l(5) l(3) by (elim insert_candidate_version_Inr) simp
  have rows: "rv_versions tb1 = rv_versions tb @ [v]" using v(1) by simp
  have "1 \<le> n" "1 \<le> ca_version c"
    using wf_candidate_facts(1) l(2) lock_pending_Inr(1,3) [OF l(1)] decode_candidate_fields(11) by (auto simp: get_candidate_Inr)
  moreover have "ca_version c = wrap64 (n + 1)" using l(4) lock_pending_Inr(3) [OF l(1)] by simp
  moreover have "in_int64 n" using assms(2) h by (auto simp: review_inv_def pending_head_def)
  ultimately have "ca_version c = n + 1" by (simp add: wrap64_succ split: if_splits)
  moreover have in64: "in_int64 (ca_version c)" using l(4) wrap64_in_int64 by simp
  ultimately have "ch_version (h\<lparr>ch_version := ca_version c\<rparr>) + (if ch_status (h\<lparr>ch_version := ca_version c\<rparr>) = Pending then 0 else 1) = n + 1"
    using h(2) by (simp add: pending_head_def)
  then show "head_moved tb s k (Some n) tb'" unfolding l(6)
    using in64 by (intro update_moved [OF h _ rows _ find_version_new(2) [OF rows v(2,3)]]) (simp_all add: v(1) find_version_new(1) [OF rows v(2,3), unfolded v(1)])
  show "rv_artifacts tb' = rv_artifacts tb" unfolding l(6) by (simp add: v(1))
qed

lemma reject_moved:
  assumes "reject_candidate repo tb s k n reason = Inr (c, tb')" "review_inv tb"
  shows "head_moved tb s k (Some n) tb'" "rv_artifacts tb' = rv_artifacts tb"
proof -
  let ?f = "\<lambda>h. h\<lparr>ch_status := Rejected, ch_decision := Some reason\<rparr>"
  obtain cur where l: "lock_pending repo tb s k n = Inr cur" "tb' = snd (update_pending ?f tb s k n)"
    using assms(1) by (auto simp: reject_candidate_def and_then_eq_Inr case_prod_beta Let_def)
  obtain h v where h: "find_candidate_head tb s k = Some h" "pending_head s k n h" "find_candidate_version tb s k n = Some v"
    using l(1) by (rule pending_version_row)
  show "head_moved tb s k (Some n) tb'" unfolding l(2)
    using h assms(2) by (intro update_moved [OF h(1,2), where vs = "[]"]) (auto simp: pending_head_def review_inv_def)
  show "rv_artifacts tb' = rv_artifacts tb" unfolding l(2) by simp
qed

lemma mark_approved_moved:
  assumes "mark_approved repo tb s k n result = Inr (c, tb')" "lock_pending repo tb0 s k n = Inr cur" "review_inv tb0"
    and "rv_heads tb = rv_heads tb0" "rv_versions tb = rv_versions tb0"
  shows "head_moved tb0 s k (Some n) tb'" "rv_artifacts tb' = rv_artifacts tb" "get_candidate repo tb' s k = Inr c"
    "find_artifact_row (rv_artifacts tb) s result \<noteq> None"
proof -
  let ?f = "\<lambda>h. h\<lparr>ch_status := Approved, ch_result := Some result\<rparr>"
  have m: "tb' = snd (update_pending ?f tb s k n)" "fst (update_pending ?f tb s k n) = 1"
      "fst (update_pending ?f tb s k n) = 0 \<or> find_artifact_row (rv_artifacts tb) s result \<noteq> None"
    using assms(1) by (auto simp: mark_approved_def and_then_eq_Inr case_prod_beta Let_def require_one_cas_Inr check_eq_Inr)
  obtain h v where h: "find_candidate_head tb0 s k = Some h" "pending_head s k n h" "find_candidate_version tb0 s k n = Some v"
    using assms(2) by (rule pending_version_row)
  have "find_candidate_version tb = find_candidate_version tb0" using assms(5) by (simp add: find_candidate_version_def fun_eq_iff)
  then show "head_moved tb0 s k (Some n) tb'" unfolding m(1)
    using h assms(3-5) by (intro update_moved [OF h(1,2), where vs = "[]"]) (auto simp: pending_head_def review_inv_def)
  show "rv_artifacts tb' = rv_artifacts tb" unfolding m(1) by simp
  show "get_candidate repo tb' s k = Inr c"
    using assms(1) by (auto simp: mark_approved_def and_then_eq_Inr case_prod_beta Let_def)
  show "find_artifact_row (rv_artifacts tb) s result \<noteq> None" using m(2,3) by simp
qed


section \<open>Decisions as compare-and-set\<close>

lemma head_moved_inv:
  assumes "head_moved tb s k x tb'" "review_inv tb" "artifacts_inv (rv_artifacts tb')"
  shows "review_inv tb'"
proof -
  have "distinct (map candidate_key (rv_heads tb'))"
    using assms(1,2) by (auto simp: head_moved_def review_inv_def candidate_head_key find_None_iff split: option.splits)
  moreover have "find_candidate_version tb' s' k' (ch_version h) \<noteq> None \<and> in_int64 (ch_version h)" if "find_candidate_head tb' s' k' = Some h" for s' k' h
  proof (cases "(s', k') = (s, k)")
    case False
    then have "find_candidate_head tb s' k' = Some h" using that assms(1) by (simp add: head_moved_def)
    then have "find_candidate_version tb s' k' (ch_version h) \<noteq> None \<and> in_int64 (ch_version h)" using assms(2) by (simp add: review_inv_def)
    then show ?thesis using assms(1) find_version_old by (fastforce simp: head_moved_def)
  qed (use that assms(1) in \<open>auto simp: head_moved_def\<close>)
  ultimately show ?thesis using assms by (auto simp: review_inv_def head_moved_def)
qed

lemma approve_stores:
  assumes "store_approved rb tb ids c d = Inr (a, artifacts)" "artifacts_inv (rv_artifacts tb)"
  shows "written (rb_artifacts rb) (rv_artifacts tb) (rb_scope rb) a artifacts"
    "case ca_target c of
       None \<Rightarrow> ar_revision (a_ref a) = 1 \<and> ids (ca_family c) = Inr (ar_id (a_ref a))
         \<and> find_head (rv_artifacts tb) (rb_scope rb) (dr_family d) (ar_id (a_ref a)) = None
     | Some t \<Rightarrow> a_ref a = t\<lparr>ar_revision := ar_revision t + 1\<rparr>
         \<and> (\<exists>old. latest_artifact (rb_artifacts rb) (rv_artifacts tb) (rb_scope rb) (ar_family t) (ar_id t) = Inr old \<and> a_ref old = t)"
proof -
  let ?art = "rv_artifacts tb" and ?repo = "rb_artifacts rb" and ?s = "rb_scope rb"
  have "written ?repo ?art ?s a artifacts \<and> (case ca_target c of
       None \<Rightarrow> ar_revision (a_ref a) = 1 \<and> ids (ca_family c) = Inr (ar_id (a_ref a)) \<and> find_head ?art ?s (dr_family d) (ar_id (a_ref a)) = None
     | Some t \<Rightarrow> a_ref a = t\<lparr>ar_revision := ar_revision t + 1\<rparr> \<and> (\<exists>old. latest_artifact ?repo ?art ?s (ar_family t) (ar_id t) = Inr old \<and> a_ref old = t))"
  proof (cases "ca_target c")
    case None
    then obtain i where i: "ids (ca_family c) = Inr i" "create_artifact (scope_has_source tb) ?repo ?art ?s i d = Inr (a, artifacts)"
      using assms(1) by (auto simp: store_approved_def and_then_eq_Inr map_sum_eq_Inr)
    then show ?thesis using None create_written [OF assms(2) i(2)] by simp
  next
    case (Some t)
    then obtain old where old: "get_artifact ?repo ?art ?s t = Inr old" "revise_artifact (scope_has_source tb) ?repo ?art ?s old d = Inr (a, artifacts)"
      using assms(1) by (auto simp: store_approved_def and_then_eq_Inr map_sum_eq_Inr)
    have ref: "a_ref old = t" using old(1) by (rule get_artifact_ref)
    have head: "find_head ?art ?s (ar_family t) (ar_id t) = Some (ar_revision t)"
      using old(2) by (elim revise_artifact_Inr) (simp add: ref)
    have "a_ref a = t\<lparr>ar_revision := ar_revision t + 1\<rparr>"
      using revise_written(2,3) [OF assms(2) old(2)] ref by (cases t) simp
    then show ?thesis using Some revise_written(1) [OF assms(2) old(2)] latest_is_head [OF old(1) head] ref by auto
  qed
  then show "written ?repo ?art ?s a artifacts" "case ca_target c of
       None \<Rightarrow> ar_revision (a_ref a) = 1 \<and> ids (ca_family c) = Inr (ar_id (a_ref a)) \<and> find_head ?art ?s (dr_family d) (ar_id (a_ref a)) = None
     | Some t \<Rightarrow> a_ref a = t\<lparr>ar_revision := ar_revision t + 1\<rparr> \<and> (\<exists>old. latest_artifact ?repo ?art ?s (ar_family t) (ar_id t) = Inr old \<and> a_ref old = t)"
    by auto
qed

lemma review_approveE:
  assumes "review_approve rb tb ids k n = Inr (c', tb')"
  obtains c d a artifacts i where "lock_pending (rb_candidates rb) tb (rb_scope rb) k n = Inr c" "candidate_draft c = Inr d"
    "store_approved rb tb ids c d = Inr (a, artifacts)"
    "mark_approved (rb_candidates rb) (tb\<lparr>rv_artifacts := artifacts, rv_index := i\<rparr>) (rb_scope rb) k n (a_ref a) = Inr (c', tb')"
  using assms by (auto simp: review_approve_def and_then_eq_Inr)

text \<open>What one transaction of the backend does to the Artifacts: it keeps every readable revision.\<close>

definition artifacts_kept :: "'i review_backend \<Rightarrow> 'i review_tables \<Rightarrow> 'i review_tables \<Rightarrow> bool" where
  "artifacts_kept rb tb tb' \<longleftrightarrow> artifacts_inv (rv_artifacts tb') \<and> (\<forall>s r a. get_artifact (rb_artifacts rb) (rv_artifacts tb) s r = Inr a
     \<longrightarrow> get_artifact (rb_artifacts rb) (rv_artifacts tb') s r = Inr a)"

lemma approve_moved:
  assumes "review_approve rb tb ids k n = Inr (c', tb')" "review_inv tb"
  shows "head_moved tb (rb_scope rb) k (Some n) tb'" "artifacts_kept rb tb tb'"
proof -
  obtain c d a artifacts i where s: "lock_pending (rb_candidates rb) tb (rb_scope rb) k n = Inr c"
      "store_approved rb tb ids c d = Inr (a, artifacts)"
      "mark_approved (rb_candidates rb) (tb\<lparr>rv_artifacts := artifacts, rv_index := i\<rparr>) (rb_scope rb) k n (a_ref a) = Inr (c', tb')"
    using assms(1) by (rule review_approveE)
  note m = mark_approved_moved [OF s(3,1) assms(2)]
  show "head_moved tb (rb_scope rb) k (Some n) tb'" using m(1) by simp
  have "written (rb_artifacts rb) (rv_artifacts tb) (rb_scope rb) a artifacts"
    using approve_stores(1) [OF s(2)] assms(2) by (simp add: review_inv_def)
  then show "artifacts_kept rb tb tb'" using m(2) by (simp add: artifacts_kept_def written_def)
qed

text \<open>Proposing, revising, rejecting and approving as one write of the cell of a Candidate: the version of a
  decided Candidate counts its decision.\<close>

datatype decision =
    Propose string proposal "source_ref list" "artifact_ref list" "artifact_ref option" "string option"
  | ReviseWith proposal "source_ref list" "artifact_ref list" "artifact_ref option" "string option"
  | RejectWith string
  | ApproveAs "string \<Rightarrow> review_error + string"

definition review_put ::
  "'i review_backend \<Rightarrow> 'i review_tables \<Rightarrow> string \<Rightarrow> int option \<Rightarrow> decision \<Rightarrow> review_error + 'i review_tables" where
  "review_put rb tb k expected d = map_sum id snd (case (expected, d) of
     (None, Propose family p ss as t reason) \<Rightarrow> review_propose rb tb k family p ss as t reason
   | (Some n, ReviseWith p ss as t reason) \<Rightarrow> review_revise rb tb k n p ss as t reason
   | (Some n, RejectWith reason) \<Rightarrow> review_reject rb tb k n reason
   | (Some n, ApproveAs ids) \<Rightarrow> review_approve rb tb ids k n
   | _ \<Rightarrow> Inl (ReviewFault ''no such transaction''))"

definition decision_version :: "'i review_backend \<Rightarrow> 'i review_tables \<Rightarrow> string \<Rightarrow> int option" where
  "decision_version rb tb k = map_option (\<lambda>h. ch_version h + (if ch_status h = Pending then 0 else 1))
     (find_candidate_head tb (rb_scope rb) k)"

lemma review_put_moved:
  assumes "review_put rb tb k x d = Inr tb'" "review_inv tb"
  shows "head_moved tb (rb_scope rb) k x tb'" "artifacts_kept rb tb tb'"
proof -
  have inv: "artifacts_inv (rv_artifacts tb)" using assms(2) by (simp add: review_inv_def)
  have same: "artifacts_kept rb tb tb'" if "rv_artifacts tb' = rv_artifacts tb" using that inv by (simp add: artifacts_kept_def)
  have "head_moved tb (rb_scope rb) k x tb' \<and> artifacts_kept rb tb tb'"
  proof (cases x)
    case None
    then obtain family p ss as t reason c where "create_candidate (rb_candidates rb) tb (rb_scope rb) k family p ss as t reason = Inr (c, tb')"
      using assms(1) by (auto simp: review_put_def review_propose_def and_then_eq_Inr map_sum_eq_Inr split: decision.splits)
    from create_moved [OF this] show ?thesis using same None by simp
  next
    case (Some n)
    then consider (rev) p ss as t reason c where "review_revise rb tb k n p ss as t reason = Inr (c, tb')"
      | (rej) reason c where "review_reject rb tb k n reason = Inr (c, tb')"
      | (app) ids c where "review_approve rb tb ids k n = Inr (c, tb')"
      using assms(1) by (auto simp: review_put_def map_sum_eq_Inr split: decision.splits)
    then show ?thesis
    proof cases
      case rev
      then have "revise_candidate (rb_candidates rb) tb (rb_scope rb) k n p ss as t reason = Inr (c, tb')"
        by (auto simp: review_revise_def and_then_eq_Inr)
      from revise_moved [OF this assms(2)] show ?thesis using same Some by simp
    next
      case rej
      from reject_moved [OF this [unfolded review_reject_def] assms(2)] show ?thesis using same Some by simp
    next
      case app
      from approve_moved [OF this assms(2)] show ?thesis using Some by simp
    qed
  qed
  then show "head_moved tb (rb_scope rb) k x tb'" "artifacts_kept rb tb tb'" by auto
qed

lemma review_put_inv: "review_put rb tb k x d = Inr tb' \<Longrightarrow> review_inv tb \<Longrightarrow> review_inv tb'"
  using review_put_moved [of rb tb k x d tb'] head_moved_inv by (auto simp: artifacts_kept_def)

interpretation rd: compare_and_set review_inv "decision_version rb" "review_put rb" for rb :: "'i review_backend"
proof (unfold_locales, goal_cases)
  case (1 t k x v t')
  then show ?case using review_put_inv by blast
next
  case (2 t k x v t')
  then show ?case using review_put_moved(1) [OF 2(2,1)]
    by (auto simp: head_moved_def decision_version_def pending_head_def split: option.splits)
next
  case (3 t k x v t' k')
  then show ?case using review_put_moved(1) [OF 3(2,1)]
    by (auto simp: head_moved_def decision_version_def split: option.splits)
qed

end
