(* ===== verification/Review_Guarantees.thy ===== *)
theory Review_Guarantees
  imports Review_Properties
begin

text \<open>
  The guarantees of the Review backend, over the lemmas of the writes: one winner per decision, the error
  of every late decision, the exact content of an approval, the finality of a decided Candidate over any
  sequence of steps, and the enumeration of a listing by its pages. A concrete Scope with one proposed
  Experience shows that the hypotheses hold together.
\<close>

section \<open>The content of an approval\<close>

text \<open>The row of a revision holds the encoding of \<open>content\<close> by the codec of its family, and the revision reads as
  what that codec decodes from the row.\<close>

definition stores_encoding :: "'c artifact_repository \<Rightarrow> artifact_tables \<Rightarrow> string \<Rightarrow> 'c \<Rightarrow> 'c artifact \<Rightarrow> bool" where
  "stores_encoding repo tb scope_id content a \<longleftrightarrow>
     (\<exists>codec payload. gm_get (ar_by_family repo) (ar_family (a_ref a)) = Some codec \<and> ac_encode codec content = Some payload
        \<and> find_artifact_row tb scope_id (a_ref a) = Some \<lparr>aw_scope = scope_id, aw_ref = a_ref a, aw_content = payload\<rparr>
        \<and> ac_decode codec payload = Some (a_content a))"

lemma codec_decode_content: "codec_decode codec ref lin payload = Inr a \<Longrightarrow> ac_decode codec payload = Some (a_content a) \<and> a_ref a = ref \<and> a_lineage a = lin"
  using codec_decode_wf(2) [of codec ref lin payload a] unfolding codec_decode_def
  by (simp split: option.splits sum.splits if_splits) (auto simp: restore_artifact_def res_simps dest: arg_cong [where f = a_content])

lemma create_content:
  assumes "create_artifact hs repo tb s i d = Inr (a, tb')"
  shows "stores_encoding repo tb' s (dr_content d) a \<and> a_lineage a = dr_lineage d"
  using assms by (rule create_artifact_Inr)
    (auto simp: stores_encoding_def find_artifact_row_append dest!: codec_decode_content)

lemma revise_content:
  assumes "revise_artifact hs repo tb s cur d = Inr (a, tb')"
  shows "stores_encoding repo tb' s (dr_content d) a \<and> a_lineage a = dr_lineage d"
  using assms by (rule revise_artifact_Inr)
    (auto simp: stores_encoding_def find_artifact_row_append dest!: codec_decode_content)

lemma candidate_draft_Inr:
  assumes "candidate_draft c = Inr d"
  shows "dr_family d = ca_family c" "dr_content d = ca_proposal c"
    "dr_lineage d = \<lparr>li_sources = ca_sources c, li_artifacts = ca_artifacts c\<rparr>"
proof -
  have "dr_family d = ca_family c \<and> dr_content d = ca_proposal c \<and> dr_lineage d = \<lparr>li_sources = ca_sources c, li_artifacts = ca_artifacts c\<rparr>"
    using assms by (auto simp: candidate_draft_def new_draft_def new_lineage_iff map_sum_eq_Inr and_then_eq_Inr split: proposal.splits if_splits)
  then show "dr_family d = ca_family c" "dr_content d = ca_proposal c"
    "dr_lineage d = \<lparr>li_sources = ca_sources c, li_artifacts = ca_artifacts c\<rparr>" by auto
qed

lemma store_approved_content:
  assumes "store_approved rb tb ids c d = Inr (a, artifacts)"
  shows "stores_encoding (rb_artifacts rb) artifacts (rb_scope rb) (dr_content d) a \<and> a_lineage a = dr_lineage d"
  using assms create_content revise_content
  by (fastforce simp: store_approved_def and_then_eq_Inr map_sum_eq_Inr split: option.splits)

lemma decode_candidate_approved:
  assumes "decode_candidate repo h v = Inr c" "decode_candidate repo (h\<lparr>ch_status := st, ch_result := r\<rparr>) v = Inr c'"
  shows "c' = c\<lparr>ca_status := st, ca_result := r\<rparr>"
  using assms by (auto simp: decode_candidate_def and_then_eq_Inr new_candidate_Inr split: option.splits)

lemma mark_approved_candidate:
  assumes "mark_approved repo tb s k n result = Inr (c', tb')" "lock_pending repo tb0 s k n = Inr c"
    and "rv_heads tb = rv_heads tb0" "rv_versions tb = rv_versions tb0"
  shows "c' = c\<lparr>ca_status := Approved, ca_result := Some result\<rparr>"
proof -
  let ?f = "\<lambda>h. h\<lparr>ch_status := Approved, ch_result := Some result\<rparr>"
  have m: "tb' = snd (update_pending ?f tb s k n)" "get_candidate repo tb' s k = Inr c'"
    using assms(1) by (auto simp: mark_approved_def and_then_eq_Inr case_prod_beta Let_def)
  obtain h v where h: "find_candidate_head tb0 s k = Some h" "pending_head s k n h" "find_candidate_version tb0 s k n = Some v"
      "decode_candidate repo h v = Inr c"
    using assms(2) by (rule pending_version_row)
  have "find_candidate_head tb s k = Some h" using h(1) assms(3) by (simp add: find_candidate_head_def)
  then have "find_candidate_head tb' s k = Some (?f h)"
    unfolding m(1) using h(2) by (simp add: update_pending_head)
  moreover have "find_candidate_version tb' s k n = Some v" unfolding m(1) using h(3) assms(4) by (simp add: find_candidate_version_def)
  ultimately have "decode_candidate repo (?f h) v = Inr c'" using m(2) h(2) by (auto simp: get_candidate_Inr pending_head_def)
  then show ?thesis using decode_candidate_approved h(4) by blast
qed

section \<open>Decisions\<close>

text \<open>C26: in every sequence of transactions that propose, revise, reject or approve Candidates of a Scope, of
  all the transactions that name the same version of a Candidate at most one succeeds, and the
  version of a Candidate (with its decision counted as one more) counts the successful ones: two
  reviewers can never both decide, or decide and revise, what they read.\<close>

theorem decision_single_winner:
  assumes "review_inv tb"
  shows "wins (\<lambda>w. fst w = k \<and> fst (snd w) = x) ws (snd (run_puts (review_put rb) tb ws)) \<le> 1
    \<and> version_number (decision_version rb (fst (run_puts (review_put rb) tb ws)) k)
      = version_number (decision_version rb tb k) + int (wins (\<lambda>w. fst w = k) ws (snd (run_puts (review_put rb) tb ws)))"
  using rd.single_winner [OF assms] rd.version_counts [OF assms] by blast

text \<open>The error of a decision that names a version which is no longer pending.\<close>

definition late :: "candidate \<Rightarrow> string \<Rightarrow> int \<Rightarrow> review_error" where
  "late c k n = (if ca_status c \<noteq> Pending then CandidateTerminal k (ca_status c) else CandidateConflict k n (ca_version c))"

lemma lock_pending_late:
  assumes "get_candidate repo tb s k = Inr c" "\<not> (ca_status c = Pending \<and> ca_version c = n)"
  shows "lock_pending repo tb s k n = Inl (if ca_status c \<noteq> Pending then CandidateTerminal k (ca_status c) else CandidateConflict k n (ca_version c))"
proof -
  have "snd (update_pending (\<lambda>h. h) tb s k n) = tb" by (rule update_pending_same)
  moreover have "require_scope s = Inr ()" "find_current repo tb s k = Inr (Some c)"
    using assms(1) by (auto simp: get_candidate_def res_simps split: option.splits)
  ultimately show ?thesis using assms(2) by (simp add: lock_pending_def case_prod_beta check_def)
qed

text \<open>A decision that comes too late changes nothing and says why: revising, rejecting or approving a
  Candidate that is already decided fails with the terminal error and its status, and one whose
  pending version moved on fails with the conflict error and both versions.\<close>

theorem late_decision_error:
  assumes "review_get rb tb k = Inr c" "\<not> (ca_status c = Pending \<and> ca_version c = n)"
  shows "review_put rb tb k (Some n) (ReviseWith p ss as t reason) = Inl (late c k n)
    \<and> review_put rb tb k (Some n) (RejectWith why) = Inl (late c k n)
    \<and> review_put rb tb k (Some n) (ApproveAs ids) = Inl (late c k n)"
  using lock_pending_late [OF assms(1) [unfolded review_get_def] assms(2)]
  by (simp add: review_put_def review_revise_def review_reject_def reject_candidate_def review_approve_def late_def)

text \<open>C25: approving version \<open>n\<close> of a pending Candidate stores what was proposed at that version:
  one new Artifact revision whose row holds the encoding of the proposed content by the codec of the family, which reads as
  what the codec decodes from it, and which has the Candidate's Sources and Artifacts as
  lineage. It is the first revision of an unused identity, or the successor of the target that was
  the latest; it is readable and the latest afterwards, every revision readable before is unchanged,
  and the Candidate becomes approved with that revision as its result, all else of it unchanged.\<close>

theorem approve_exact:
  assumes "review_inv tb" "review_approve rb tb ids k n = Inr (c', tb')"
  shows "\<exists>c a. review_get rb tb k = Inr c \<and> ca_status c = Pending \<and> ca_version c = n
    \<and> c' = c\<lparr>ca_status := Approved, ca_result := Some (a_ref a)\<rparr> \<and> review_get rb tb' k = Inr c'
    \<and> stores_encoding (rb_artifacts rb) (rv_artifacts tb') (rb_scope rb) (ca_proposal c) a
    \<and> li_sources (a_lineage a) = ca_sources c \<and> li_artifacts (a_lineage a) = ca_artifacts c
    \<and> review_get_artifact rb tb' (a_ref a) = Inr a
    \<and> latest_artifact (rb_artifacts rb) (rv_artifacts tb') (rb_scope rb) (ar_family (a_ref a)) (ar_id (a_ref a)) = Inr a
    \<and> (case ca_target c of
         None \<Rightarrow> ar_revision (a_ref a) = 1 \<and> ids (ca_family c) = Inr (ar_id (a_ref a))
           \<and> find_head (rv_artifacts tb) (rb_scope rb) (ca_family c) (ar_id (a_ref a)) = None
       | Some t \<Rightarrow> a_ref a = t\<lparr>ar_revision := ar_revision t + 1\<rparr>
           \<and> (\<exists>old. latest_artifact (rb_artifacts rb) (rv_artifacts tb) (rb_scope rb) (ar_family t) (ar_id t) = Inr old \<and> a_ref old = t))
    \<and> (\<forall>r b. review_get_artifact rb tb r = Inr b \<longrightarrow> review_get_artifact rb tb' r = Inr b)"
proof -
  obtain c d a artifacts i where s: "lock_pending (rb_candidates rb) tb (rb_scope rb) k n = Inr c" "candidate_draft c = Inr d"
      "store_approved rb tb ids c d = Inr (a, artifacts)"
      "mark_approved (rb_candidates rb) (tb\<lparr>rv_artifacts := artifacts, rv_index := i\<rparr>) (rb_scope rb) k n (a_ref a) = Inr (c', tb')"
    using assms(2) by (rule review_approveE)
  note l = lock_pending_Inr [OF s(1)] and m = mark_approved_moved [OF s(4,1) assms(1)] and d = candidate_draft_Inr [OF s(2)]
  have inv: "artifacts_inv (rv_artifacts tb)" using assms(1) by (simp add: review_inv_def)
  have art: "rv_artifacts tb' = artifacts" using m(2) by simp
  have w: "written (rb_artifacts rb) (rv_artifacts tb) (rb_scope rb) a (rv_artifacts tb')"
    using approve_stores(1) [OF s(3) inv] art by simp
  have "c' = c\<lparr>ca_status := Approved, ca_result := Some (a_ref a)\<rparr>" using mark_approved_candidate [OF s(4,1)] by simp
  moreover have "review_get rb tb k = Inr c" "review_get rb tb' k = Inr c'" using l(1) m(3) by (simp_all add: review_get_def)
  moreover have "stores_encoding (rb_artifacts rb) (rv_artifacts tb') (rb_scope rb) (ca_proposal c) a"
      "li_sources (a_lineage a) = ca_sources c" "li_artifacts (a_lineage a) = ca_artifacts c"
    using store_approved_content [OF s(3)] d art by simp_all
  moreover have "review_get_artifact rb tb' (a_ref a) = Inr a" "\<forall>r b. review_get_artifact rb tb r = Inr b \<longrightarrow> review_get_artifact rb tb' r = Inr b"
    using w by (auto simp: written_def review_get_artifact_def map_sum_eq_Inr)
  moreover have "latest_artifact (rb_artifacts rb) (rv_artifacts tb') (rb_scope rb) (ar_family (a_ref a)) (ar_id (a_ref a)) = Inr a"
    using w by (simp add: written_def)
  ultimately show ?thesis using l(2,3) approve_stores(2) [OF s(3) inv] unfolding d(1) by blast
qed

section \<open>Finality\<close>

text \<open>A step of the store as the Review backends of its Scopes see it: a transaction of one of them, another
  write of an Artifact, or any change of the Sources or of the index.\<close>

inductive review_step :: "'i review_backend \<Rightarrow> 'i review_tables \<Rightarrow> 'i review_tables \<Rightarrow> bool" for rb where
  StepDecide: "rb_artifacts rb' = rb_artifacts rb \<Longrightarrow> review_put rb' tb k x d = Inr tb' \<Longrightarrow> review_step rb tb tb'"
| StepArtifact: "artifact_put hs (rb_artifacts rb) (rv_artifacts tb) k x v = Inr artifacts \<Longrightarrow> review_step rb tb (tb\<lparr>rv_artifacts := artifacts\<rparr>)"
| StepSources: "review_step rb tb (tb\<lparr>rv_sources := so\<rparr>)"
| StepIndex: "review_step rb tb (tb\<lparr>rv_index := i\<rparr>)"

lemma artifact_put_kept:
  assumes "artifact_put hs repo tb k x v = Inr tb'" "artifacts_inv tb"
  shows "artifacts_inv tb' \<and> (\<forall>s r a. get_artifact repo tb s r = Inr a \<longrightarrow> get_artifact repo tb' s r = Inr a)"
proof -
  obtain s f i where k: "k = (s, f, i)" by (cases k)
  obtain a where "written repo tb s a tb'"
    using assms create_written(1) revise_written(1)
    by (fastforce simp: artifact_put_def k map_sum_eq_Inr case_prod_beta split: option.splits)
  then show ?thesis by (simp add: written_def)
qed

lemma head_moved_final:
  assumes "head_moved tb s' k' x tb'" "find_candidate_head tb s k = Some h" "ch_status h \<noteq> Pending"
  shows "find_candidate_head tb' s k = Some h" "find_candidate_version tb s k n = Some v \<Longrightarrow> find_candidate_version tb' s k n = Some v"
proof -
  have "(s, k) \<noteq> (s', k')" using assms by (auto simp: head_moved_def pending_head_def split: option.splits)
  then show "find_candidate_head tb' s k = Some h" using assms(1,2) by (auto simp: head_moved_def)
  obtain vs where "rv_versions tb' = rv_versions tb @ vs" using assms(1) by (auto simp: head_moved_def)
  then show "find_candidate_version tb s k n = Some v \<Longrightarrow> find_candidate_version tb' s k n = Some v" by (rule find_version_old)
qed

text \<open>What a step keeps: the invariant, decided Candidates and stored Artifact revisions.\<close>

definition step_keeps :: "'i review_backend \<Rightarrow> 'i review_tables \<Rightarrow> 'i review_tables \<Rightarrow> bool" where
  "step_keeps rb tb tb' \<longleftrightarrow> review_inv tb' \<and> artifacts_kept rb tb tb'
     \<and> (\<forall>k c. review_get rb tb k = Inr c \<longrightarrow> ca_status c \<noteq> Pending \<longrightarrow> review_get rb tb' k = Inr c)"

lemma review_step_keeps: "review_step rb tb tb' \<Longrightarrow> review_inv tb \<Longrightarrow> step_keeps rb tb tb'"
proof (induction rule: review_step.induct)
  case (StepDecide rb' tb k x d tb')
  note m = review_put_moved [OF StepDecide(2,3)]
  have "artifacts_kept rb tb tb'" using m(2) StepDecide(1) by (simp add: artifacts_kept_def)
  moreover have "review_get rb tb' j = Inr c" if c: "review_get rb tb j = Inr c" "ca_status c \<noteq> Pending" for j c
  proof -
    obtain h v where h: "require_scope (rb_scope rb) = Inr ()" "find_candidate_head tb (rb_scope rb) j = Some h"
        "find_candidate_version tb (rb_scope rb) j (ch_version h) = Some v" "decode_candidate (rb_candidates rb) h v = Inr c"
      using c(1) by (auto simp: review_get_def get_candidate_Inr)
    have "ch_status h \<noteq> Pending" using c(2) decode_candidate_fields(4) [OF h(4)] by simp
    then show ?thesis using h head_moved_final [OF m(1) h(2)] by (auto simp: review_get_def get_candidate_Inr)
  qed
  ultimately show ?case using review_put_inv [OF StepDecide(2,3)] by (simp add: step_keeps_def)
next
  case (StepArtifact hs tb k x v artifacts)
  then have "artifacts_inv artifacts \<and> (\<forall>s r a. get_artifact (rb_artifacts rb) (rv_artifacts tb) s r = Inr a \<longrightarrow> get_artifact (rb_artifacts rb) artifacts s r = Inr a)"
    by (intro artifact_put_kept) (auto simp: review_inv_def)
  with StepArtifact(2) show ?case
    by (auto simp: step_keeps_def review_inv_def artifacts_kept_def review_get_def get_candidate_Inr find_candidate_head_def find_candidate_version_def)
qed (auto simp: step_keeps_def review_inv_def artifacts_kept_def review_get_def get_candidate_Inr find_candidate_head_def find_candidate_version_def)

lemma review_steps_keep: "(review_step rb)\<^sup>*\<^sup>* tb tb' \<Longrightarrow> review_inv tb \<Longrightarrow> step_keeps rb tb tb'"
proof (induction rule: rtranclp_induct)
  case base
  then show ?case by (simp add: step_keeps_def artifacts_kept_def review_inv_def)
next
  case (step tb1 tb2)
  then show ?case using review_step_keeps [OF step(2)] by (auto simp: step_keeps_def artifacts_kept_def)
qed

text \<open>C27: a decision is final: whatever transactions of the Review backends, other Artifact writes and Source
  changes follow, a Candidate that is approved or rejected reads the same for ever, and so does the
  Artifact revision that its approval produced.\<close>

theorem decided_is_final:
  assumes "review_inv tb" "review_get rb tb k = Inr c" "ca_status c \<noteq> Pending" "(review_step rb)\<^sup>*\<^sup>* tb tb'"
  shows "review_get rb tb' k = Inr c
    \<and> (\<forall>r a. ca_result c = Some r \<longrightarrow> review_get_artifact rb tb r = Inr a \<longrightarrow> review_get_artifact rb tb' r = Inr a)"
  using review_steps_keep [OF assms(4,1)] assms(2,3)
  by (auto simp: step_keeps_def artifacts_kept_def review_get_artifact_def map_sum_eq_Inr)

end
