(* ===== verification/Review_Pages.thy ===== *)
theory Review_Pages
  imports Review_Properties
begin

text \<open>
  The pages of a Candidate listing (\<open>CandidateRepository.List\<close>). A client follows the cursor of each page;
  over a store that does not change meanwhile this ends, and the pages together are every Candidate with
  the status and family asked for, once each, in the order of their identifiers.
\<close>

section \<open>The rows of a listing\<close>

definition row_id :: "candidate_head \<times> candidate_version \<Rightarrow> string" where
  "row_id p = ch_id (fst p)"

definition after_cursor :: "string option \<Rightarrow> string \<Rightarrow> bool" where
  "after_cursor cursor k \<longleftrightarrow> (case cursor of None \<Rightarrow> True | Some c \<Rightarrow> c < k)"

lemma filter_concat_pairs:
  "filter (\<lambda>p. P (fst p)) (concat (map (\<lambda>h. map (Pair h) (g h)) xs)) = concat (map (\<lambda>h. map (Pair h) (g h)) (filter P xs))"
  by (induction xs) (auto simp: filter_map o_def)

lemma listed_heads_cursor:
  "listed_heads tb s st fam cursor = filter (\<lambda>p. after_cursor cursor (ch_id (fst p))) (listed_heads tb s st fam None)"
  unfolding listed_heads_def filter_concat_pairs [where P = "\<lambda>h. after_cursor cursor (ch_id h)"] filter_sort filter_filter
  by (simp add: after_cursor_def conj_ac cong: conj_cong)

lemma listed_heads_later:
  assumes "after_cursor cursor k"
  shows "listed_heads tb s st fam (Some k) = filter (\<lambda>p. k < row_id p) (listed_heads tb s st fam cursor)"
proof -
  have "k < i \<longleftrightarrow> after_cursor cursor i \<and> k < i" for i
    using assms by (auto simp: after_cursor_def split: option.splits)
  then show ?thesis
    unfolding listed_heads_cursor [of _ _ _ _ "Some k"] listed_heads_cursor [of _ _ _ _ cursor] filter_filter row_id_def
    by (auto simp: after_cursor_def intro!: filter_cong)
qed

lemma filter_find:
  assumes "distinct (map f xs)" "find (\<lambda>x. f x = q) xs = Some v"
  shows "filter (\<lambda>x. f x = q) xs = [v]"
  using assms
proof (induction xs)
  case (Cons x xs)
  show ?case
  proof (cases "f x = q")
    case True
    then have "q \<notin> f ` set xs" using Cons.prems(1) by simp
    then have "filter (\<lambda>x. f x = q) xs = []" by (auto simp: filter_empty_conv)
    then show ?thesis using True Cons.prems(2) by simp
  qed (use Cons in simp)
qed simp

definition selected_heads :: "'i review_tables \<Rightarrow> string \<Rightarrow> candidate_status \<Rightarrow> string option \<Rightarrow> candidate_head list" where
  "selected_heads tb s st fam = filter (\<lambda>h. ch_scope h = s \<and> ch_status h = st
     \<and> (case fam of None \<Rightarrow> True | Some f \<Rightarrow> ch_family h = f)) (rv_heads tb)"

lemma head_row:
  assumes "review_inv tb" "h \<in> set (rv_heads tb)"
  shows "find_candidate_head tb (ch_scope h) (ch_id h) = Some h"
    "\<exists>v. find_candidate_version tb (ch_scope h) (ch_id h) (ch_version h) = Some v
       \<and> filter (\<lambda>v. cv_scope v = ch_scope h \<and> cv_id v = ch_id h \<and> cv_version v = ch_version h) (rv_versions tb) = [v]"
proof -
  have d: "distinct (map candidate_key (rv_heads tb))" "distinct (map version_cell (rv_versions tb))"
    using assms(1) by (simp_all add: review_inv_def)
  have "find (\<lambda>x. candidate_key x = candidate_key h) (rv_heads tb) = Some h" using find_by_key [OF d(1) assms(2)] .
  then show head: "find_candidate_head tb (ch_scope h) (ch_id h) = Some h"
    by (simp add: candidate_head_key candidate_key_def)
  obtain v where v: "find_candidate_version tb (ch_scope h) (ch_id h) (ch_version h) = Some v"
    using head assms(1) unfolding review_inv_def by blast
  have "find (\<lambda>v. version_cell v = (ch_scope h, ch_id h, ch_version h)) (rv_versions tb) = Some v"
    using v by (simp add: find_candidate_version_def version_cell_def)
  then have "filter (\<lambda>v. version_cell v = (ch_scope h, ch_id h, ch_version h)) (rv_versions tb) = [v]"
    using filter_find [OF d(2)] by blast
  then show "\<exists>v. find_candidate_version tb (ch_scope h) (ch_id h) (ch_version h) = Some v
       \<and> filter (\<lambda>v. cv_scope v = ch_scope h \<and> cv_id v = ch_id h \<and> cv_version v = ch_version h) (rv_versions tb) = [v]"
    using v by (auto simp: version_cell_def)
qed

lemma listed_heads_rows:
  assumes "review_inv tb"
  shows "listed_heads tb s st fam None
    = map (\<lambda>h. (h, the (find_candidate_version tb s (ch_id h) (ch_version h)))) (sort_key ch_id (selected_heads tb s st fam))"
proof -
  have one: "map (Pair h) (filter (\<lambda>v. cv_scope v = s \<and> cv_id v = ch_id h \<and> cv_version v = ch_version h) (rv_versions tb))
      = [(h, the (find_candidate_version tb s (ch_id h) (ch_version h)))]" if "h \<in> set (selected_heads tb s st fam)" for h
    using that head_row(2) [OF assms, of h] by (auto simp: selected_heads_def)
  have "concat (map (\<lambda>h. map (Pair h) (filter (\<lambda>v. cv_scope v = s \<and> cv_id v = ch_id h \<and> cv_version v = ch_version h) (rv_versions tb))) hs)
      = map (\<lambda>h. (h, the (find_candidate_version tb s (ch_id h) (ch_version h)))) hs" if "set hs \<subseteq> set (selected_heads tb s st fam)" for hs
    using that by (induction hs) (simp_all add: one)
  from this [of "sort_key ch_id (selected_heads tb s st fam)"] show ?thesis
    by (simp add: listed_heads_def selected_heads_def)
qed

lemma strict_ids:
  assumes "review_inv tb" shows "sorted_wrt (<) (map row_id (listed_heads tb s st fam cursor))"
proof -
  have "distinct (map candidate_key (selected_heads tb s st fam))"
    using assms by (auto simp: review_inv_def selected_heads_def distinct_map_filter)
  moreover have "map candidate_key (selected_heads tb s st fam) = map (Pair s) (map ch_id (selected_heads tb s st fam))"
    by (auto simp: selected_heads_def candidate_key_def)
  ultimately have "distinct (map ch_id (selected_heads tb s st fam))" by (simp only: distinct_map)
  then have "distinct (map ch_id (sort_key ch_id (selected_heads tb s st fam)))" by (simp add: distinct_map)
  then have "sorted_wrt (<) (map ch_id (sort_key ch_id (selected_heads tb s st fam)))"
    using sorted_sort_key strict_sorted_iff by blast
  then have "sorted_wrt (<) (map row_id (listed_heads tb s st fam None))"
    unfolding listed_heads_rows [OF assms] by (simp add: row_id_def o_def)
  then show ?thesis unfolding listed_heads_cursor [of tb s st fam cursor] by (simp add: sorted_wrt_map sorted_wrt_filter)
qed

lemma filter_after:
  fixes f :: "'a \<Rightarrow> 'b::linorder"
  assumes "sorted_wrt (<) (map f xs)" "0 < n" "n \<le> length xs"
  shows "filter (\<lambda>x. f (last (take n xs)) < f x) xs = drop n xs"
proof -
  have s: "sorted_wrt (<) (map f (take n xs))" "sorted_wrt (<) (map f (drop n xs))"
      "\<forall>x \<in> set (take n xs). \<forall>y \<in> set (drop n xs). f x < f y"
    using assms(1) sorted_wrt_append [of "(<)" "map f (take n xs)" "map f (drop n xs)"]
    by (auto simp flip: map_append simp: sorted_wrt_map)
  have ne: "take n xs \<noteq> []" using assms(2,3) by auto
  have "f x \<le> f (last (take n xs))" if "x \<in> set (take n xs)" for x
  proof -
    have "sorted_wrt (<) (map f (butlast (take n xs) @ [last (take n xs)]))" using s(1) ne by simp
    then have "\<forall>y \<in> set (butlast (take n xs)). f y < f (last (take n xs))" unfolding map_append sorted_wrt_append by auto
    moreover have "x \<in> set (butlast (take n xs)) \<or> x = last (take n xs)"
      using that ne by (metis append_butlast_last_id rotate1.simps(2) set_ConsD set_rotate1)
    ultimately show ?thesis by auto
  qed
  then have "filter (\<lambda>x. f (last (take n xs)) < f x) (take n xs) = []" by (auto simp: filter_empty_conv not_less)
  moreover have "filter (\<lambda>x. f (last (take n xs)) < f x) (drop n xs) = drop n xs"
    using s(3) last_in_set [OF ne] by (auto intro!: filter_True)
  ultimately show ?thesis using filter_append [of _ "take n xs" "drop n xs"] by (metis append_take_drop_id self_append_conv2)
qed

section \<open>Following the cursors\<close>

text \<open>The client of a listing: it asks for the next page while there is a cursor.\<close>

fun collect_pages ::
  "nat \<Rightarrow> 'i review_backend \<Rightarrow> 'i review_tables \<Rightarrow> candidate_status \<Rightarrow> string option \<Rightarrow> string option \<Rightarrow> int \<Rightarrow> review_error + candidate list" where
  "collect_pages 0 rb tb st fam cursor limit = Inl (ReviewFault ''out of fuel'')"
| "collect_pages (Suc fuel) rb tb st fam cursor limit =
     and_then (review_list rb tb st fam cursor limit) (\<lambda>page.
     case cp_next page of
       None \<Rightarrow> Inr (cp_candidates page)
     | Some k \<Rightarrow> and_then (collect_pages fuel rb tb st fam (Some k) limit) (\<lambda>rest. Inr (cp_candidates page @ rest)))"

definition listing_request :: "'i review_backend \<Rightarrow> candidate_status \<Rightarrow> string option \<Rightarrow> int \<Rightarrow> bool" where
  "listing_request rb st fam limit \<longleftrightarrow> require_scope (rb_scope rb) = Inr () \<and> st \<in> {Pending, Approved, Rejected}
     \<and> 1 \<le> limit \<and> limit \<le> max_page_size \<and> (\<forall>f. fam = Some f \<longrightarrow> gm_get (cr_by_family (rb_candidates rb)) f \<noteq> None)"

definition decoded_rows :: "'i review_backend \<Rightarrow> (candidate_head \<times> candidate_version) list \<Rightarrow> candidate list \<Rightarrow> bool" where
  "decoded_rows rb = list_all2 (\<lambda>(h, v) c. decode_candidate (rb_candidates rb) h v = Inr c)"

lemma review_list_page:
  assumes "listing_request rb st fam limit" "decoded_rows rb (listed_heads tb (rb_scope rb) st fam cursor) cs"
  shows "review_list rb tb st fam cursor limit = Inr \<lparr>cp_candidates = take (nat limit) cs,
    cp_next = (if nat limit < length cs then Some (ca_id (last (take (nat limit) cs))) else None)\<rparr>"
proof -
  let ?n = "nat (limit + 1)"
  have l: "1 \<le> limit" using assms(1) by (simp add: listing_request_def)
  have "map_res (\<lambda>(h, v). decode_candidate (rb_candidates rb) h v) (take ?n (listed_heads tb (rb_scope rb) st fam cursor)) = Inr (take ?n cs)"
    using assms(2) unfolding map_res_eq_Inr decoded_rows_def by (intro list_all2_takeI) (simp add: case_prod_beta')
  moreover have "take (nat limit) (take ?n cs) = take (nat limit) cs" using l by (simp add: min_def)
  moreover have "int (length (take ?n cs)) > limit \<longleftrightarrow> nat limit < length cs" using l by auto
  moreover have "nat limit < length cs \<longrightarrow> take (nat limit) cs \<noteq> []" using l by auto
  ultimately show ?thesis
    using assms(1) by (auto simp: review_list_def list_candidates_def listing_request_def check_def Let_def split: option.splits)
qed

lemma decoded_ids: "decoded_rows rb rows cs \<Longrightarrow> map ca_id cs = map row_id rows"
  unfolding decoded_rows_def
  by (induction rule: list_all2_induct) (auto simp: row_id_def dest: decode_candidate_fields(1))

lemma collect_pages_all:
  assumes "review_inv tb" "listing_request rb st fam limit" "decoded_rows rb (listed_heads tb (rb_scope rb) st fam cursor) cs" "length cs < fuel"
  shows "collect_pages fuel rb tb st fam cursor limit = Inr cs"
  using assms(3,4)
proof (induction fuel arbitrary: cursor cs)
  case (Suc fuel)
  let ?rows = "listed_heads tb (rb_scope rb) st fam cursor" and ?n = "nat limit"
  have l: "0 < ?n" using assms(2) by (simp add: listing_request_def)
  note page = review_list_page [OF assms(2) Suc.prems(1)]
  show ?case
  proof (cases "?n < length cs")
    case False
    then show ?thesis using page by simp
  next
    case True
    let ?k = "ca_id (last (take ?n cs))"
    have len: "length ?rows = length cs" using Suc.prems(1) by (simp add: decoded_rows_def list_all2_lengthD)
    have "?k = last (map ca_id (take ?n cs))" using True l by (subst last_map) auto
    also have "\<dots> = last (map row_id (take ?n ?rows))" using decoded_ids [OF Suc.prems(1)] by (simp flip: take_map)
    also have "\<dots> = row_id (last (take ?n ?rows))" using True l len by (subst last_map) auto
    finally have k: "?k = row_id (last (take ?n ?rows))" .
    have "last (take ?n ?rows) \<in> set ?rows" using True l len by (metis last_in_set in_set_takeD length_greater_0_conv less_trans take_eq_Nil neq0_conv)
    then have "after_cursor cursor ?k" unfolding k listed_heads_cursor [of tb _ _ _ cursor] by (simp add: row_id_def)
    then have "listed_heads tb (rb_scope rb) st fam (Some ?k) = filter (\<lambda>p. ?k < row_id p) ?rows" by (rule listed_heads_later)
    also have "\<dots> = drop ?n ?rows" unfolding k using True len l by (intro filter_after strict_ids assms(1)) auto
    finally have rest: "listed_heads tb (rb_scope rb) st fam (Some ?k) = drop ?n ?rows" .
    have "decoded_rows rb (drop ?n ?rows) (drop ?n cs)" using Suc.prems(1) by (simp add: decoded_rows_def list_all2_dropI)
    then have "collect_pages fuel rb tb st fam (Some ?k) limit = Inr (drop ?n cs)"
      using Suc.IH [of "Some ?k" "drop ?n cs"] Suc.prems(2) True l rest by simp
    then show ?thesis using page True by simp
  qed
qed simp

lemma listed_iff_get:
  assumes "review_inv tb" "require_scope s = Inr ()" "(h, v) \<in> set (listed_heads tb s st fam None)"
  shows "find_candidate_head tb s (ch_id h) = Some h" "find_candidate_version tb s (ch_id h) (ch_version h) = Some v"
    "ch_status h = st" "\<forall>f. fam = Some f \<longrightarrow> ch_family h = f"
proof -
  have h: "h \<in> set (rv_heads tb)" "ch_scope h = s" "ch_status h = st" "\<forall>f. fam = Some f \<longrightarrow> ch_family h = f"
      "v = the (find_candidate_version tb s (ch_id h) (ch_version h))"
    using assms(3) unfolding listed_heads_rows [OF assms(1)] by (auto simp: selected_heads_def split: option.splits)
  show "find_candidate_head tb s (ch_id h) = Some h" "find_candidate_version tb s (ch_id h) (ch_version h) = Some v"
    using head_row [OF assms(1) h(1)] h(2,5) by auto
  show "ch_status h = st" "\<forall>f. fam = Some f \<longrightarrow> ch_family h = f" using h by auto
qed

lemma listed_members:
  assumes "review_inv tb" "require_scope (rb_scope rb) = Inr ()" "decoded_rows rb (listed_heads tb (rb_scope rb) st fam None) cs"
  shows "c \<in> set cs \<longleftrightarrow> review_get rb tb (ca_id c) = Inr c \<and> ca_status c = st \<and> (\<forall>f. fam = Some f \<longrightarrow> ca_family c = f)"
proof
  assume "c \<in> set cs"
  then obtain h v where r: "(h, v) \<in> set (listed_heads tb (rb_scope rb) st fam None)" "decode_candidate (rb_candidates rb) h v = Inr c"
    using assms(3) by (auto simp: decoded_rows_def list_all2_conv_all_nth in_set_conv_nth split: prod.splits) (metis nth_mem prod.collapse)
  then show "review_get rb tb (ca_id c) = Inr c \<and> ca_status c = st \<and> (\<forall>f. fam = Some f \<longrightarrow> ca_family c = f)"
    using listed_iff_get [OF assms(1,2) r(1)] assms(2) decode_candidate_fields(1,3,4) [OF r(2)]
    by (auto simp: review_get_def get_candidate_Inr)
next
  assume c: "review_get rb tb (ca_id c) = Inr c \<and> ca_status c = st \<and> (\<forall>f. fam = Some f \<longrightarrow> ca_family c = f)"
  then obtain h v where h: "find_candidate_head tb (rb_scope rb) (ca_id c) = Some h" "find_candidate_version tb (rb_scope rb) (ca_id c) (ch_version h) = Some v"
      "decode_candidate (rb_candidates rb) h v = Inr c"
    by (auto simp: review_get_def get_candidate_Inr)
  have "h \<in> set (selected_heads tb (rb_scope rb) st fam)"
    using find_SomeD [OF h(1) [unfolded find_candidate_head_def]] c decode_candidate_fields(3,4) [OF h(3)]
    by (auto simp: selected_heads_def split: option.splits)
  then have row: "(h, v) \<in> set (listed_heads tb (rb_scope rb) st fam None)"
    using h(2) decode_candidate_fields(1) [OF h(3)] unfolding listed_heads_rows [OF assms(1)] by force
  then obtain i where "i < length cs" "decode_candidate (rb_candidates rb) h v = Inr (cs ! i)"
    using assms(3) by (fastforce simp: decoded_rows_def list_all2_conv_all_nth in_set_conv_nth split: prod.splits)
  then show "c \<in> set cs" using h(3) by auto
qed

text \<open>C28: following the cursors of a listing ends, after at most one page more than there are matching
  Candidates, and the pages together are exactly the Candidates of the Scope with that status and
  family, each once, in the order of their identifiers; whatever the page size is.\<close>

theorem pages_enumerate:
  assumes "review_inv tb" "listing_request rb st fam limit" "decoded_rows rb (listed_heads tb (rb_scope rb) st fam None) cs"
  shows "collect_pages (Suc (length cs)) rb tb st fam None limit = Inr cs
    \<and> sorted (map ca_id cs) \<and> distinct (map ca_id cs)
    \<and> (c \<in> set cs \<longleftrightarrow> review_get rb tb (ca_id c) = Inr c \<and> ca_status c = st \<and> (\<forall>f. fam = Some f \<longrightarrow> ca_family c = f))"
proof -
  have "sorted_wrt (<) (map ca_id cs)" using strict_ids [OF assms(1)] decoded_ids [OF assms(3)] by simp
  then have "sorted (map ca_id cs)" "distinct (map ca_id cs)" by (simp_all add: strict_sorted_iff)
  moreover have "require_scope (rb_scope rb) = Inr ()" using assms(2) by (simp add: listing_request_def)
  ultimately show ?thesis using collect_pages_all [OF assms] listed_members [OF assms(1) _ assms(3)] by blast
qed

end
