(* ===== verification/Review_Example.thy ===== *)
theory Review_Example
  imports Review_Guarantees Review_Pages
begin

text \<open>
  A Scope with one approved Experience and one pending Candidate that proposes its next revision. It is
  reached by the transactions of the Review backend themselves, and every guarantee is applied to it.
\<close>

definition first_lesson :: proposal where
  "first_lesson = ExperienceProposal \<lparr>x_situation = ''s'', x_action = ''a'', x_outcome = ''o'', x_lesson = ''old''\<rparr>"

definition next_lesson :: proposal where
  "next_lesson = ExperienceProposal \<lparr>x_situation = ''s'', x_action = ''a'', x_outcome = ''o'', x_lesson = ''new''\<rparr>"

definition lesson_codec :: "proposal artifact_codec" where
  "lesson_codec = \<lparr>ac_family = ''experience'', ac_types = [''experience.Content''],
     ac_encode = (\<lambda>p. if p = first_lesson then Some ''x'' else if p = next_lesson then Some ''y'' else None),
     ac_decode = (\<lambda>s. if s = ''x'' then Some first_lesson else if s = ''y'' then Some next_lesson else None)\<rparr>"

definition lesson_backend :: "unit review_backend" where
  "lesson_backend = \<lparr>rb_scope = ''p'', rb_env = \<lparr>je_canonical = (\<lambda>_. []), je_sha256 = (\<lambda>_. []), je_schema = (\<lambda>_. None)\<rparr>,
     rb_candidates = \<lparr>cr_by_family = [(''experience'', lesson_codec)]\<rparr>,
     rb_artifacts = \<lparr>ar_by_family = [(''experience'', lesson_codec)], ar_type_of = proposal_type\<rparr>,
     rb_sources = \<lparr>sr_by_name = [], sr_by_source = []\<rparr>, rb_index = no_experience_index\<rparr>"

definition lesson_ref :: "int \<Rightarrow> artifact_ref" where
  "lesson_ref n = \<lparr>ar_family = ''experience'', ar_id = ''e'', ar_revision = n\<rparr>"

definition lesson_tables :: "unit review_tables" where
  "lesson_tables = \<lparr>rv_versions = [], rv_heads = [],
     rv_artifacts = \<lparr>at_rows = [\<lparr>aw_scope = ''p'', aw_ref = lesson_ref 1, aw_content = ''x''\<rparr>],
       at_heads = [\<lparr>ah_scope = ''p'', ah_family = ''experience'', ah_id = ''e'', ah_revision = 1\<rparr>], at_lsources = [], at_lartifacts = []\<rparr>,
     rv_sources = empty_tables, rv_index = ()\<rparr>"

definition lesson_candidate :: "candidate_status \<Rightarrow> artifact_ref option \<Rightarrow> candidate" where
  "lesson_candidate st r = \<lparr>ca_id = ''c'', ca_version = 1, ca_family = ''experience'', ca_status = st, ca_proposal = next_lesson,
     ca_sources = [], ca_artifacts = [lesson_ref 1], ca_target = Some (lesson_ref 1), ca_reason = None, ca_result = r, ca_decision = None\<rparr>"

definition proposed_tables :: "unit review_tables" where
  "proposed_tables = lesson_tables\<lparr>
     rv_versions := [\<lparr>cv_scope = ''p'', cv_id = ''c'', cv_version = 1, cv_family = ''experience'', cv_proposal = ''y'',
       cv_sources = [], cv_artifacts = [lesson_ref 1], cv_target = Some (lesson_ref 1), cv_reason = None\<rparr>],
     rv_heads := [\<lparr>ch_scope = ''p'', ch_id = ''c'', ch_family = ''experience'', ch_version = 1, ch_status = Pending,
       ch_result = None, ch_decision = None\<rparr>]\<rparr>"

section \<open>Evaluating it\<close>

lemma graphic_candidate_text:
  assumes "graphic s" "s \<noteq> []" "m = 0 \<or> length s \<le> m"
  shows "candidate_text f s m = Inr ()"
  using assms by (simp add: candidate_text_def graphic_text)

lemma lesson_texts [simp]: "candidate_text ''candidate_id'' ''c'' 128 = Inr ()" "candidate_text ''family'' ''experience'' 0 = Inr ()"
  by (rule graphic_candidate_text; simp add: graphic_def)+

lemma lesson_ref_wf: "1 \<le> n \<Longrightarrow> wf_artifact_ref (lesson_ref n)"
proof -
  have "valid_part 128 ''experience''" "valid_part 128 ''e''" by (rule graphic_valid_part; simp add: graphic_def)+
  then show "1 \<le> n \<Longrightarrow> ?thesis" by (simp add: wf_artifact_ref_def lesson_ref_def)
qed

lemma lesson_refs [simp]:
  "validate_artifact_ref (lesson_ref 1) = Inr ()" "validate_artifact_ref (lesson_ref 2) = Inr ()"
  "new_artifact_ref ''experience'' ''e'' 1 = Inr (lesson_ref 1)" "new_artifact_ref ''experience'' ''e'' 2 = Inr (lesson_ref 2)"
  using lesson_ref_wf [of 1] lesson_ref_wf [of 2]
  by (simp_all add: validate_artifact_ref_iff new_artifact_ref_iff) (simp_all add: lesson_ref_def)

lemma lesson_new_candidate [simp]:
  "new_candidate (lesson_candidate Pending None) = Inr (lesson_candidate Pending None)"
  "new_candidate (lesson_candidate Approved (Some (lesson_ref 2))) = Inr (lesson_candidate Approved (Some (lesson_ref 2)))"
  by (simp_all add: new_candidate_def lesson_candidate_def evidence_count_def max_evidence_def check_sources_def check_artifacts_def
      check_target_def optional_text_def check_result_def check_decision_def) (simp_all add: lesson_ref_def)

lemma lesson_contents [simp]: "first_lesson \<noteq> next_lesson" "next_lesson \<noteq> first_lesson"
  "proposal_type first_lesson = ''experience.Content''" "proposal_type next_lesson = ''experience.Content''"
  by (simp_all add: first_lesson_def next_lesson_def)

definition lesson_artifact :: "int \<Rightarrow> proposal artifact" where
  "lesson_artifact n = \<lparr>a_ref = lesson_ref n, a_content = (if n = 1 then first_lesson else next_lesson),
     a_lineage = \<lparr>li_sources = [], li_artifacts = (if n = 1 then [] else [lesson_ref 1])\<rparr>\<rparr>"

lemma lesson_scope [simp]: "require_scope ''p'' = Inr ()" "rb_scope lesson_backend = ''p''"
  using plain_scope by (simp_all add: lesson_backend_def)

lemma lesson_decode:
  "codec_decode lesson_codec (lesson_ref 1) \<lparr>li_sources = [], li_artifacts = []\<rparr> ''x'' = Inr (lesson_artifact 1)"
  "codec_decode lesson_codec (lesson_ref 2) \<lparr>li_sources = [], li_artifacts = [lesson_ref 1]\<rparr> ''y'' = Inr (lesson_artifact 2)"
  by (simp_all add: codec_decode_def lesson_codec_def restore_artifact_def new_lineage_def lesson_artifact_def)

lemma lesson_get:
  "get_artifact (rb_artifacts lesson_backend) (rv_artifacts lesson_tables) ''p'' (lesson_ref 1) = Inr (lesson_artifact 1)"
  "latest_artifact (rb_artifacts lesson_backend) (rv_artifacts lesson_tables) ''p'' ''experience'' ''e'' = Inr (lesson_artifact 1)"
proof -
  have "load_lineage (rv_artifacts lesson_tables) ''p'' (lesson_ref 1) = Inr \<lparr>li_sources = [], li_artifacts = []\<rparr>"
    by (simp add: load_lineage_def lesson_tables_def new_lineage_def)
  then show g: "get_artifact (rb_artifacts lesson_backend) (rv_artifacts lesson_tables) ''p'' (lesson_ref 1) = Inr (lesson_artifact 1)"
    using lesson_decode(1)
    by (simp add: get_artifact_def find_artifact_row_def lesson_tables_def decode_artifact_row_def lesson_backend_def)
       (simp add: lesson_ref_def)
  show "latest_artifact (rb_artifacts lesson_backend) (rv_artifacts lesson_tables) ''p'' ''experience'' ''e'' = Inr (lesson_artifact 1)"
    using g by (simp add: latest_artifact_def find_head_def lesson_tables_def)
qed

lemma lesson_proposed:
  "review_propose lesson_backend lesson_tables ''c'' ''experience'' next_lesson [] [lesson_ref 1] (Some (lesson_ref 1)) None
     = Inr (lesson_candidate Pending None, proposed_tables)"
proof -
  have ev: "validate_evidence lesson_backend lesson_tables [] [lesson_ref 1] = Inr ()"
    using lesson_get by (simp add: validate_evidence_def evidence_count_def max_evidence_def)
  have ta: "validate_target lesson_backend lesson_tables ''experience'' (Some (lesson_ref 1)) [lesson_ref 1] = Inr ()"
    using lesson_get by (simp add: validate_target_def lesson_artifact_def) (simp add: lesson_ref_def)
  have rows: "find_artifact_row (rv_artifacts lesson_tables) ''p'' (lesson_ref 1) \<noteq> None" "ar_revision (lesson_ref 1) = 1"
    by (simp_all add: find_artifact_row_def lesson_tables_def lesson_ref_def)
  have "insert_candidate_version (rb_candidates lesson_backend) ''p'' (lesson_candidate Pending None) lesson_tables
      = Inr (proposed_tables\<lparr>rv_heads := []\<rparr>)"
    using rows by (simp add: insert_candidate_version_def lesson_backend_def lesson_candidate_def lesson_codec_def check_sources_def
        check_artifacts_def find_candidate_version_def) (simp add: proposed_tables_def lesson_tables_def)
  moreover have "require_proposal (rb_candidates lesson_backend) ''experience'' next_lesson = Inr ()"
    by (simp add: require_proposal_def lesson_backend_def lesson_codec_def)
  moreover have "find_current (rb_candidates lesson_backend) lesson_tables ''p'' ''c'' = Inr None"
    by (simp add: find_current_def find_candidate_head_def lesson_tables_def)
  ultimately show ?thesis
    using ev ta lesson_new_candidate(1) unfolding review_propose_def create_candidate_def lesson_candidate_def
    by (simp add: find_candidate_head_def) (simp add: proposed_tables_def)
qed

lemma lesson_inv: "review_inv lesson_tables" "review_inv proposed_tables"
proof -
  have "artifacts_inv (rv_artifacts lesson_tables)"
    by (auto simp: artifacts_inv_def lesson_tables_def revision_rows_def find_head_def head_key_def positions_def lesson_ref_def)
  then show l: "review_inv lesson_tables" by (simp add: review_inv_def lesson_tables_def find_candidate_head_def)
  have "create_candidate (rb_candidates lesson_backend) lesson_tables ''p'' ''c'' ''experience'' next_lesson [] [lesson_ref 1]
      (Some (lesson_ref 1)) None = Inr (lesson_candidate Pending None, proposed_tables)"
    using lesson_proposed by (auto simp: review_propose_def and_then_eq_Inr)
  note moved = create_moved [OF this]
  have "artifacts_inv (rv_artifacts proposed_tables)" using moved(2) l by (simp add: review_inv_def)
  then show "review_inv proposed_tables" using head_moved_inv [OF moved(1) l] by blast
qed

lemma lesson_current:
  "find_candidate_head proposed_tables ''p'' ''c'' = Some \<lparr>ch_scope = ''p'', ch_id = ''c'', ch_family = ''experience'', ch_version = 1,
     ch_status = Pending, ch_result = None, ch_decision = None\<rparr>"
  "find_candidate_version proposed_tables ''p'' ''c'' 1 = Some \<lparr>cv_scope = ''p'', cv_id = ''c'', cv_version = 1, cv_family = ''experience'', cv_proposal = ''y'',
       cv_sources = [], cv_artifacts = [lesson_ref 1], cv_target = Some (lesson_ref 1), cv_reason = None\<rparr>"
  by (simp_all add: find_candidate_head_def find_candidate_version_def proposed_tables_def)

definition lesson_head :: "candidate_status \<Rightarrow> artifact_ref option \<Rightarrow> candidate_head" where
  "lesson_head st r = \<lparr>ch_scope = ''p'', ch_id = ''c'', ch_family = ''experience'', ch_version = 1, ch_status = st, ch_result = r, ch_decision = None\<rparr>"

lemma lesson_decoded:
  assumes "r = None \<or> r = Some (lesson_ref 2)" "new_candidate (lesson_candidate st r) = Inr (lesson_candidate st r)"
  shows "decode_candidate (rb_candidates lesson_backend) (lesson_head st r) \<lparr>cv_scope = ''p'', cv_id = ''c'', cv_version = 1,
     cv_family = ''experience'', cv_proposal = ''y'', cv_sources = [], cv_artifacts = [lesson_ref 1], cv_target = Some (lesson_ref 1), cv_reason = None\<rparr>
   = Inr (lesson_candidate st r)"
  using assms by (auto simp: decode_candidate_def lesson_backend_def lesson_codec_def lesson_head_def check_sources_def check_artifacts_def lesson_candidate_def)

lemma lesson_pending: "review_get lesson_backend proposed_tables ''c'' = Inr (lesson_candidate Pending None)"
  using lesson_current lesson_decoded [of None Pending]
  by (simp add: review_get_def get_candidate_Inr lesson_head_def)

lemma lesson_locked: "lock_pending (rb_candidates lesson_backend) proposed_tables ''p'' ''c'' 1 = Inr (lesson_candidate Pending None)"
  using lesson_pending update_pending_same [of proposed_tables "''p''" "''c''" 1]
  by (auto simp: review_get_def get_candidate_def lock_pending_def case_prod_beta and_then_eq_Inr lesson_candidate_def split: option.splits)

lemma lesson_stored:
  "\<exists>artifacts. store_approved lesson_backend proposed_tables ids (lesson_candidate Pending None)
     \<lparr>dr_family = ''experience'', dr_content = next_lesson, dr_lineage = \<lparr>li_sources = [], li_artifacts = [lesson_ref 1]\<rparr>\<rparr>
     = Inr (lesson_artifact 2, artifacts) \<and> find_artifact_row artifacts ''p'' (lesson_ref 2) \<noteq> None"
proof -
  let ?d = "\<lparr>dr_family = ''experience'', dr_content = next_lesson, dr_lineage = \<lparr>li_sources = [], li_artifacts = [lesson_ref 1]\<rparr>\<rparr>"
  let ?rev = "revise_artifact (scope_has_source proposed_tables) (rb_artifacts lesson_backend) (rv_artifacts lesson_tables) ''p'' (lesson_artifact 1) ?d"
  have "codec_decode lesson_codec \<lparr>ar_family = ''experience'', ar_id = ''e'', ar_revision = 2\<rparr>
      \<lparr>li_sources = [], li_artifacts = [\<lparr>ar_family = ''experience'', ar_id = ''e'', ar_revision = 1\<rparr>]\<rparr> ''y'' = Inr (lesson_artifact 2)"
    "validate_artifact_ref \<lparr>ar_family = ''experience'', ar_id = ''e'', ar_revision = 1\<rparr> = Inr ()"
    "new_artifact_ref ''experience'' ''e'' 2 = Inr \<lparr>ar_family = ''experience'', ar_id = ''e'', ar_revision = 2\<rparr>"
    using lesson_decode(2) lesson_refs(1,4) unfolding lesson_ref_def by simp_all
  then have "\<exists>artifacts. ?rev = Inr (lesson_artifact 2, artifacts)"
    by (simp add: revise_artifact_def lesson_artifact_def [of 1] lesson_ref_def codec_for_draft_def lesson_backend_def supports_content_def
        lesson_codec_def [THEN arg_cong [where f = ac_types]] lesson_codec_def [THEN arg_cong [where f = ac_encode]]
        insert_revision_def find_artifact_row_def find_head_def update_head_def head_matches_def lesson_tables_def wrap64_def Let_def)
  then obtain artifacts where r: "?rev = Inr (lesson_artifact 2, artifacts)" by blast
  have "find_artifact_row artifacts ''p'' (lesson_ref 2) \<noteq> None"
    using revise_written(1) [OF _ r] lesson_inv(1) by (simp add: written_def review_inv_def lesson_artifact_def)
  moreover have "store_approved lesson_backend proposed_tables ids (lesson_candidate Pending None) ?d = Inr (lesson_artifact 2, artifacts)"
    using r lesson_get(1) by (simp add: store_approved_def lesson_candidate_def proposed_tables_def)
  ultimately show ?thesis by blast
qed

lemma lesson_approved: "\<exists>tb'. review_approve lesson_backend proposed_tables ids ''c'' 1 = Inr (lesson_candidate Approved (Some (lesson_ref 2)), tb')"
proof -
  let ?d = "\<lparr>dr_family = ''experience'', dr_content = next_lesson, dr_lineage = \<lparr>li_sources = [], li_artifacts = [lesson_ref 1]\<rparr>\<rparr>"
  obtain artifacts where a: "store_approved lesson_backend proposed_tables ids (lesson_candidate Pending None) ?d = Inr (lesson_artifact 2, artifacts)"
      "find_artifact_row artifacts ''p'' (lesson_ref 2) \<noteq> None" using lesson_stored by blast
  have "valid_part 128 ''experience''" by (rule graphic_valid_part) (simp_all add: graphic_def)
  then have "validate_part ''family'' ''experience'' 128 = Inr ()" by (simp only: validate_part_iff)
  then have d: "candidate_draft (lesson_candidate Pending None) = Inr ?d"
    by (simp add: candidate_draft_def lesson_candidate_def next_lesson_def experience_family_def new_draft_def new_lineage_def
        max_family_length_def)
  have l: "validate_approval_lineage (lesson_candidate Pending None) = Inr ()"
    by (simp add: validate_approval_lineage_def lesson_candidate_def skill_family_def)
  have i: "index_approved lesson_backend (rv_index proposed_tables) (lesson_artifact 2) = Inr ()"
    by (simp add: index_approved_def lesson_artifact_def next_lesson_def lesson_backend_def no_experience_index_def)
  let ?tb = "proposed_tables\<lparr>rv_artifacts := artifacts, rv_index := ()\<rparr>"
  let ?f = "\<lambda>h. h\<lparr>ch_status := Approved, ch_result := Some (lesson_ref 2)\<rparr>"
  let ?u = "update_pending ?f ?tb ''p'' ''c'' 1"
  have f: "fst ?u = 1" by (simp add: update_pending_def pending_head_def proposed_tables_def)
  have "find_candidate_head (snd ?u) ''p'' ''c'' = Some (lesson_head Approved (Some (lesson_ref 2)))"
    by (simp add: find_candidate_head_def update_pending_def pending_head_def proposed_tables_def lesson_head_def)
  then have g: "get_candidate (rb_candidates lesson_backend) (snd ?u) ''p'' ''c'' = Inr (lesson_candidate Approved (Some (lesson_ref 2)))"
    using lesson_current(2) lesson_decoded [of "Some (lesson_ref 2)" Approved]
    by (auto simp: get_candidate_Inr find_candidate_version_def lesson_head_def)
  have "mark_approved (rb_candidates lesson_backend) ?tb ''p'' ''c'' 1 (lesson_ref 2) = Inr (lesson_candidate Approved (Some (lesson_ref 2)), snd ?u)"
    using f g a(2) by (simp add: mark_approved_def case_prod_beta Let_def require_one_cas_def check_def) (simp add: lesson_ref_def)
  then show ?thesis
    using lesson_locked l d a(1) i by (simp add: review_approve_def lesson_artifact_def)
qed

section \<open>The guarantees on it\<close>

theorem decision_single_winner_witness:
  "wins (\<lambda>w. fst w = ''c'' \<and> fst (snd w) = Some 1) [(''c'', Some 1, ApproveAs Inr), (''c'', Some 1, RejectWith ''no'')]
     (snd (run_puts (review_put lesson_backend) proposed_tables [(''c'', Some 1, ApproveAs Inr), (''c'', Some 1, RejectWith ''no'')])) \<le> 1"
  using decision_single_winner [OF lesson_inv(2)] by blast

theorem late_decision_error_witness:
  "review_put lesson_backend proposed_tables ''c'' (Some 2) (RejectWith ''no'') = Inl (CandidateConflict ''c'' 2 1)"
proof -
  have "\<not> (ca_status (lesson_candidate Pending None) = Pending \<and> ca_version (lesson_candidate Pending None) = 2)"
    by (simp add: lesson_candidate_def)
  from late_decision_error [OF lesson_pending this] show ?thesis by (simp add: late_def lesson_candidate_def)
qed

theorem approve_exact_witness:
  "\<exists>tb' a. review_approve lesson_backend proposed_tables Inr ''c'' 1 = Inr (lesson_candidate Approved (Some (lesson_ref 2)), tb')
     \<and> review_get_artifact lesson_backend tb' (lesson_ref 2) = Inr a \<and> a_content a = next_lesson"
proof -
  obtain tb' where r: "review_approve lesson_backend proposed_tables Inr ''c'' 1 = Inr (lesson_candidate Approved (Some (lesson_ref 2)), tb')"
    using lesson_approved by blast
  show ?thesis using approve_exact [OF lesson_inv(2) r] lesson_pending r
    by (auto simp: lesson_candidate_def stores_encoding_def lesson_backend_def lesson_codec_def split: if_splits)
qed

theorem decided_is_final_witness:
  "\<exists>tb. review_approve lesson_backend proposed_tables Inr ''c'' 1 = Inr (lesson_candidate Approved (Some (lesson_ref 2)), tb)
     \<and> review_get lesson_backend (tb\<lparr>rv_sources := empty_tables\<rparr>) ''c'' = Inr (lesson_candidate Approved (Some (lesson_ref 2)))"
proof -
  obtain tb where r: "review_approve lesson_backend proposed_tables Inr ''c'' 1 = Inr (lesson_candidate Approved (Some (lesson_ref 2)), tb)"
    using lesson_approved by blast
  have "review_put lesson_backend proposed_tables ''c'' (Some 1) (ApproveAs Inr) = Inr tb" using r by (simp add: review_put_def)
  then have inv: "review_inv tb" using review_put_inv lesson_inv(2) by blast
  have "mark_approved (rb_candidates lesson_backend) tb1 ''p'' ''c'' 1 x = Inr (c, tb) \<Longrightarrow> get_candidate (rb_candidates lesson_backend) tb ''p'' ''c'' = Inr c"
    for tb1 x c by (auto simp: mark_approved_def and_then_eq_Inr case_prod_beta Let_def)
  then have g: "review_get lesson_backend tb ''c'' = Inr (lesson_candidate Approved (Some (lesson_ref 2)))"
    using r by (elim review_approveE) (simp add: review_get_def)
  have "ca_status (lesson_candidate Approved (Some (lesson_ref 2))) \<noteq> Pending" by (simp add: lesson_candidate_def)
  moreover have "(review_step lesson_backend)\<^sup>*\<^sup>* tb (tb\<lparr>rv_sources := empty_tables\<rparr>)"
    by (rule r_into_rtranclp) (rule StepSources)
  ultimately have "review_get lesson_backend (tb\<lparr>rv_sources := empty_tables\<rparr>) ''c'' = Inr (lesson_candidate Approved (Some (lesson_ref 2)))"
    using decided_is_final [OF inv g] by blast
  with r show ?thesis by blast
qed

theorem pages_enumerate_witness:
  "collect_pages 2 lesson_backend proposed_tables Pending None None 1 = Inr [lesson_candidate Pending None]"
proof -
  have "listing_request lesson_backend Pending None 1" by (simp add: listing_request_def max_page_size_def)
  moreover have "decoded_rows lesson_backend (listed_heads proposed_tables (rb_scope lesson_backend) Pending None None) [lesson_candidate Pending None]"
    using lesson_decoded [of None Pending] by (simp add: decoded_rows_def listed_heads_def proposed_tables_def lesson_head_def)
  ultimately have "collect_pages (Suc (length [lesson_candidate Pending None])) lesson_backend proposed_tables Pending None None 1
      = Inr [lesson_candidate Pending None]"
    using pages_enumerate [OF lesson_inv(2)] by blast
  then show ?thesis by (simp only: list.size numeral_2_eq_2 One_nat_def add_0_right plus_nat.simps)
qed

end
