(* ===== verification/Scope_Model.thy ===== *)
theory Scope_Model
  imports Artifact_Model
begin

text \<open>
  Scope identity, organization and selection (\<open>internal/scope/models.go\<close>). The metadata of a Scope is one
  record; drafts, persisted descriptors and mutations extend it the way the Go structs repeat its fields.
  A constructor that validates is a function into \<open>scope_error + value\<close> with the checks in the source's
  order. An absent parent is the empty string, as in the code.
\<close>

section \<open>Errors\<close>

text \<open>\<open>ScopeText\<close> is a formatted error, \<open>ScopeNoRows\<close> and \<open>ScopeConstraint\<close> are the errors of the database
  (\<open>sql.ErrNoRows\<close> and a violated constraint).\<close>

datatype scope_error =
    ScopeNotFound
  | BindingNotFound
  | RelationshipFault
  | ScopeValidation
  | IdempotencyConflict
  | ScopeVersionConflict int int
  | ScopeText string
  | ScopeNoRows
  | ScopeConstraint string

section \<open>Validation of text\<close>

definition scope_id_length :: nat where
  "scope_id_length = 256"

definition validate_id :: "string \<Rightarrow> scope_error + unit" where
  "validate_id v =
     (if \<not> valid_utf8 v \<or> trim_space v = [] then Inl (ScopeText ''scope ID must not be empty'')
      else if rune_count v > scope_id_length then Inl (ScopeText (''scope ID '' @ too_long_detail scope_id_length))
      else Inr ())"

definition required_text :: "string \<Rightarrow> string \<Rightarrow> nat \<Rightarrow> scope_error + unit" where
  "required_text field v maximum =
     (if trim_python v = [] \<or> v \<noteq> trim_python v
        then Inl (ScopeText (field @ '' must be non-empty without surrounding whitespace''))
      else if rune_count v > maximum then Inl (ScopeText (field @ '' '' @ too_long_detail maximum))
      else Inr ())"

section \<open>Metadata\<close>

record external_reference =
  er_kind :: string
  er_value :: string

definition new_external_reference :: "string \<Rightarrow> string \<Rightarrow> scope_error + external_reference" where
  "new_external_reference kind value =
     and_then (required_text ''external reference kind'' kind 128) (\<lambda>_.
     and_then (required_text ''external reference value'' value 2000) (\<lambda>_.
     Inr \<lparr>er_kind = kind, er_value = value\<rparr>))"

record scope_metadata =
  sm_title :: string
  sm_summary :: string
  sm_parent :: string
  sm_context :: "string list"
  sm_external :: "external_reference list"

fun validate_ids :: "string list \<Rightarrow> scope_error + unit" where
  "validate_ids [] = Inr ()"
| "validate_ids (v # vs) = and_then (validate_id v) (\<lambda>_. validate_ids vs)"

text \<open>\<open>slices.Compact\<close> after \<open>slices.Sort\<close>.\<close>

definition canonical_scope_ids :: "string list \<Rightarrow> bool \<Rightarrow> scope_error + string list" where
  "canonical_scope_ids values require_non_empty =
     (if require_non_empty \<and> values = [] then Inl (ScopeText ''exact Scope selection requires scope IDs'')
      else and_then (validate_ids values) (\<lambda>_.
        let compacted = remdups_adj (sort values) in
        if length compacted \<noteq> length values then Inl (ScopeText ''Scope references must be unique'')
        else Inr compacted))"

fun has_duplicate_from :: "external_reference list \<Rightarrow> external_reference list \<Rightarrow> bool" where
  "has_duplicate_from seen [] = False"
| "has_duplicate_from seen (v # vs) = (if v \<in> set seen then True else has_duplicate_from (v # seen) vs)"

definition has_duplicate_external_reference :: "external_reference list \<Rightarrow> bool" where
  "has_duplicate_external_reference values = has_duplicate_from [] values"

definition new_metadata ::
  "string \<Rightarrow> string \<Rightarrow> string \<Rightarrow> string list \<Rightarrow> external_reference list \<Rightarrow> scope_error + scope_metadata" where
  "new_metadata title summary parent context external =
     and_then (required_text ''title'' title 256) (\<lambda>_.
     and_then (required_text ''summary'' summary 2000) (\<lambda>_.
     and_then (if parent \<noteq> [] then validate_id parent else Inr ()) (\<lambda>_.
     and_then (canonical_scope_ids context False) (\<lambda>references.
     and_then (check (\<not> list_ex (\<lambda>r. er_kind r = [] \<or> er_value r = []) external)
       (ScopeText ''Scope external references must be constructed values'')) (\<lambda>_.
     and_then (check (\<not> has_duplicate_external_reference external)
       (ScopeText ''Scope external references must be unique'')) (\<lambda>_.
     Inr \<lparr>sm_title = title, sm_summary = summary, sm_parent = parent, sm_context = references, sm_external = external\<rparr>))))))"

section \<open>Drafts, descriptors, mutations\<close>

record scope_draft = scope_metadata +
  sd_key :: string

record descriptor = scope_metadata +
  de_id :: string
  de_version :: int

record scope_mutation = scope_metadata +
  mu_expected :: int

definition new_scope_draft ::
  "string \<Rightarrow> string \<Rightarrow> string \<Rightarrow> string list \<Rightarrow> external_reference list \<Rightarrow> string \<Rightarrow> scope_error + scope_draft" where
  "new_scope_draft title summary parent context external key =
     and_then (new_metadata title summary parent context external) (\<lambda>m.
     and_then (required_text ''idempotency key'' key 256) (\<lambda>_.
     Inr (scope_metadata.extend m (scope_draft.fields key))))"

definition new_descriptor ::
  "string \<Rightarrow> string \<Rightarrow> string \<Rightarrow> string \<Rightarrow> string list \<Rightarrow> external_reference list \<Rightarrow> int \<Rightarrow> scope_error + descriptor" where
  "new_descriptor i title summary parent context external version =
     and_then (validate_id i) (\<lambda>_.
     and_then (new_metadata title summary parent context external) (\<lambda>m.
     and_then (check (\<not> version < 1) (ScopeText ''Scope version must be positive'')) (\<lambda>_.
     Inr (scope_metadata.extend m (descriptor.fields i version)))))"

definition new_mutation ::
  "int \<Rightarrow> string \<Rightarrow> string \<Rightarrow> string \<Rightarrow> string list \<Rightarrow> external_reference list \<Rightarrow> scope_error + scope_mutation" where
  "new_mutation expected title summary parent context external =
     and_then (check (\<not> expected < 1) (ScopeText ''expected Scope version must be positive'')) (\<lambda>_.
     and_then (new_metadata title summary parent context external) (\<lambda>m.
     Inr (scope_metadata.extend m (scope_mutation.fields expected))))"

section \<open>Bindings and selections\<close>

record binding_key =
  bk_integration :: string
  bk_kind :: string
  bk_external :: string

definition new_binding_key :: "string \<Rightarrow> string \<Rightarrow> string \<Rightarrow> scope_error + binding_key" where
  "new_binding_key integration kind external =
     and_then (required_text ''binding integration'' integration 128) (\<lambda>_.
     and_then (required_text ''binding kind'' kind 64) (\<lambda>_.
     and_then (required_text ''binding external ID'' external 256) (\<lambda>_.
     Inr \<lparr>bk_integration = integration, bk_kind = kind, bk_external = external\<rparr>)))"

record scope_binding =
  bi_key :: binding_key
  bi_scope :: string

definition new_binding :: "binding_key \<Rightarrow> string \<Rightarrow> scope_error + scope_binding" where
  "new_binding key scope_id =
     and_then (check (\<not> (bk_integration key = [] \<or> bk_kind key = [] \<or> bk_external key = []))
       (ScopeText ''Scope binding key must be constructed'')) (\<lambda>_.
     and_then (validate_id scope_id) (\<lambda>_.
     Inr \<lparr>bi_key = key, bi_scope = scope_id\<rparr>))"

text \<open>A selection mode is a string type in the code; a zero selection has the empty mode.\<close>

record scope_selection =
  sl_mode :: string
  sl_ids :: "string list"
  sl_root :: string

definition selection_all :: string where "selection_all = ''all''"
definition selection_exact :: string where "selection_exact = ''exact''"
definition selection_subtree :: string where "selection_subtree = ''subtree''"

definition all_selection :: scope_selection where
  "all_selection = \<lparr>sl_mode = selection_all, sl_ids = [], sl_root = []\<rparr>"

definition new_exact_selection :: "string list \<Rightarrow> scope_error + scope_selection" where
  "new_exact_selection scope_ids =
     and_then (canonical_scope_ids scope_ids True) (\<lambda>ids. Inr \<lparr>sl_mode = selection_exact, sl_ids = ids, sl_root = []\<rparr>)"

definition new_subtree_selection :: "string \<Rightarrow> scope_error + scope_selection" where
  "new_subtree_selection root =
     and_then (validate_id root) (\<lambda>_. Inr \<lparr>sl_mode = selection_subtree, sl_ids = [], sl_root = root\<rparr>)"

section \<open>What the constructors accept\<close>

definition valid_id :: "string \<Rightarrow> bool" where
  "valid_id v \<longleftrightarrow> valid_utf8 v \<and> trim_space v \<noteq> [] \<and> rune_count v \<le> scope_id_length"

definition plain_text :: "string \<Rightarrow> nat \<Rightarrow> bool" where
  "plain_text v maximum \<longleftrightarrow> v \<noteq> [] \<and> trim_python v = v \<and> rune_count v \<le> maximum"

lemma validate_id_iff [res_simps]: "validate_id v = Inr u \<longleftrightarrow> valid_id v"
  by (simp add: validate_id_def valid_id_def)

lemma required_text_iff [res_simps]: "required_text f v n = Inr u \<longleftrightarrow> plain_text v n"
  by (auto simp: required_text_def plain_text_def)

lemma validate_ids_iff [res_simps]: "validate_ids vs = Inr u \<longleftrightarrow> (\<forall>v \<in> set vs. valid_id v)"
  by (induction vs) (auto simp: res_simps)

lemma valid_id_nonempty: "valid_id v \<Longrightarrow> v \<noteq> []"
  by (auto simp: valid_id_def trim_space_def trim_func_def)

lemma sorted_distinct_adj: "sorted xs \<Longrightarrow> distinct_adj xs \<longleftrightarrow> distinct (xs :: 'a::linorder list)"
proof (induction xs)
  case (Cons x xs)
  then show ?case by (cases xs) (auto simp: distinct_adj_Cons)
qed simp

lemma compact_sort_length: "length (remdups_adj (sort xs)) = length xs \<longleftrightarrow> distinct (xs :: 'a::linorder list)"
  using distinct_adj_conv_length_remdups_adj [of "sort xs"] by (simp add: sorted_distinct_adj)

lemma canonical_scope_ids_iff [res_simps]:
  "canonical_scope_ids vs r = Inr ids \<longleftrightarrow>
     (r \<longrightarrow> vs \<noteq> []) \<and> (\<forall>v \<in> set vs. valid_id v) \<and> distinct vs \<and> ids = sort vs"
  by (auto simp: canonical_scope_ids_def res_simps Let_def compact_sort_length remdups_adj_distinct split: if_splits)

lemma has_duplicate_from_iff: "has_duplicate_from seen vs \<longleftrightarrow> \<not> distinct vs \<or> set vs \<inter> set seen \<noteq> {}"
  by (induction vs arbitrary: seen) auto

lemma has_duplicate_iff: "has_duplicate_external_reference vs \<longleftrightarrow> \<not> distinct vs"
  by (simp add: has_duplicate_external_reference_def has_duplicate_from_iff)

end
