(* ===== verification/Sql_Dialect.thy ===== *)
theory Sql_Dialect
  imports Main
begin

text \<open>
  What the two supported databases answer after a conditional update (\<open>internal/sqlstore/database.go\<close>). SQLite
  counts the rows an UPDATE matches; the MySQL protocol counts the rows it changes unless the client asks
  for matched rows, which \<open>oceanBaseDriverConfig\<close> does not.
\<close>

datatype dialect = SQLite | OceanBase

fun rows_affected :: "dialect \<Rightarrow> nat \<Rightarrow> nat \<Rightarrow> nat" where
  "rows_affected SQLite matched changed = matched"
| "rows_affected OceanBase matched changed = changed"

end
