(* ===== verification/Scope_Store.thy ===== *)
theory Scope_Store
  imports Scope_Model Context_Pack Sql_Dialect
begin

text \<open>
  Scopes in the relational store (\<open>internal/sqlstore/scopes.go\<close>), the transactions around them
  (\<open>runtime_scopes.go\<close>) and the application in front (\<open>internal/runtime/scope_application.go\<close>). One record holds
  the six tables; keys, checks and foreign keys of \<open>schema.go\<close> are part of the statements. A transaction
  body is a function from tables to an error or a result with new tables. \<open>sha\<close> is the hexadecimal SHA-256
  digest. The two supported databases differ in what \<open>RowsAffected\<close> reports and in what
  \<open>LockHierarchy\<close> locks, so a transaction names its \<open>dialect\<close> and the tables its reads and its writes see.
\<close>

section \<open>Tables\<close>

record scope_row =
  srow_id :: string
  srow_title :: string
  srow_summary :: string
  srow_parent :: "string option"
  srow_version :: int

record external_row =
  xr_scope :: string
  xr_ordinal :: nat
  xr_kind :: string
  xr_value :: string
  xr_digest :: string

record request_row =
  rq_key :: string
  rq_digest :: string
  rq_scope :: string

record scope_tables =
  st_scopes :: "scope_row list"
  st_context :: "(string \<times> string) list"
  st_external :: "external_row list"
  st_requests :: "request_row list"
  st_settings :: "(string \<times> string) list"
  st_bindings :: "(binding_key \<times> string) list"

definition empty_scopes :: scope_tables where
  "empty_scopes = \<lparr>st_scopes = [], st_context = [], st_external = [], st_requests = [], st_settings = [], st_bindings = []\<rparr>"

definition nullif :: "string \<Rightarrow> string option" where
  "nullif v = (if v = [] then None else Some v)"

definition scope_exists :: "scope_tables \<Rightarrow> string \<Rightarrow> bool" where
  "scope_exists tb i = list_ex (\<lambda>r. srow_id r = i) (st_scopes tb)"

definition insert_scope :: "scope_tables \<Rightarrow> scope_row \<Rightarrow> scope_error + scope_tables" where
  "insert_scope tb r =
     and_then (check (\<not> scope_exists tb (srow_id r)) (ScopeConstraint ''pc_scopes'')) (\<lambda>_.
     and_then (check (srow_version r > 0) (ScopeConstraint ''ck_pc_scopes_version_positive'')) (\<lambda>_.
     and_then (check (case srow_parent r of None \<Rightarrow> True | Some p \<Rightarrow> p = srow_id r \<or> scope_exists tb p)
       (ScopeConstraint ''fk_pc_scopes_parent'')) (\<lambda>_.
     Inr (tb\<lparr>st_scopes := st_scopes tb @ [r]\<rparr>))))"

definition insert_context :: "string \<Rightarrow> string \<Rightarrow> scope_tables \<Rightarrow> scope_error + scope_tables" where
  "insert_context i reference tb =
     and_then (check ((i, reference) \<notin> set (st_context tb)) (ScopeConstraint ''pc_scope_context_references'')) (\<lambda>_.
     and_then (check (i \<noteq> reference) (ScopeConstraint ''ck_pc_scope_context_references_not_self'')) (\<lambda>_.
     and_then (check (scope_exists tb i) (ScopeConstraint ''fk_pc_scope_context_references_scope'')) (\<lambda>_.
     and_then (check (scope_exists tb reference) (ScopeConstraint ''fk_pc_scope_context_references_referenced'')) (\<lambda>_.
     Inr (tb\<lparr>st_context := st_context tb @ [(i, reference)]\<rparr>)))))"

definition insert_external :: "external_row \<Rightarrow> scope_tables \<Rightarrow> scope_error + scope_tables" where
  "insert_external x tb =
     and_then (check (\<not> list_ex (\<lambda>y. xr_scope y = xr_scope x \<and> xr_ordinal y = xr_ordinal x) (st_external tb))
       (ScopeConstraint ''pc_scope_external_references'')) (\<lambda>_.
     and_then (check (\<not> list_ex (\<lambda>y. xr_scope y = xr_scope x \<and> xr_kind y = xr_kind x \<and> xr_digest y = xr_digest x) (st_external tb))
       (ScopeConstraint ''uq_pc_scope_external_references_value'')) (\<lambda>_.
     and_then (check (scope_exists tb (xr_scope x)) (ScopeConstraint ''fk_pc_scope_external_references_scope'')) (\<lambda>_.
     Inr (tb\<lparr>st_external := st_external tb @ [x]\<rparr>))))"

section \<open>The repository\<close>

definition external_reference_row :: "(string \<Rightarrow> string) \<Rightarrow> string \<Rightarrow> nat \<times> external_reference \<Rightarrow> external_row" where
  "external_reference_row sha i = (\<lambda>(ordinal, r).
     \<lparr>xr_scope = i, xr_ordinal = ordinal, xr_kind = er_kind r, xr_value = er_value r, xr_digest = sha (er_value r)\<rparr>)"

definition write_scope_relationships ::
  "(string \<Rightarrow> string) \<Rightarrow> string \<Rightarrow> string list \<Rightarrow> external_reference list \<Rightarrow> scope_tables \<Rightarrow> scope_error + scope_tables" where
  "write_scope_relationships sha i context external tb =
     and_then (fold_res (insert_context i) context tb) (\<lambda>tb1.
     fold_res (\<lambda>p. insert_external (external_reference_row sha i p)) (enumerate 0 external) tb1)"

definition load_context_references :: "scope_tables \<Rightarrow> string \<Rightarrow> string list" where
  "load_context_references tb i = sort (map snd (filter (\<lambda>p. fst p = i) (st_context tb)))"

definition decode_reference :: "external_row \<Rightarrow> scope_error + external_reference" where
  "decode_reference x = map_sum (\<lambda>e. case e of ScopeText t \<Rightarrow> ScopeText (''decode Scope external reference: '' @ t) | _ \<Rightarrow> e) id
     (new_external_reference (xr_kind x) (xr_value x))"

definition load_external_references :: "scope_tables \<Rightarrow> string \<Rightarrow> scope_error + external_reference list" where
  "load_external_references tb i =
     map_res decode_reference (sort_key xr_ordinal (filter (\<lambda>x. xr_scope x = i) (st_external tb)))"

definition null_string :: "string option \<Rightarrow> string" where
  "null_string v = (case v of None \<Rightarrow> [] | Some s \<Rightarrow> s)"

definition load_scope :: "scope_tables \<Rightarrow> scope_row \<Rightarrow> scope_error + descriptor" where
  "load_scope tb r =
     and_then (load_external_references tb (srow_id r)) (\<lambda>external.
     new_descriptor (srow_id r) (srow_title r) (srow_summary r) (null_string (srow_parent r))
       (load_context_references tb (srow_id r)) external (srow_version r))"

definition find_scope :: "scope_tables \<Rightarrow> string \<Rightarrow> scope_row option" where
  "find_scope tb i = find (\<lambda>r. srow_id r = i) (st_scopes tb)"

definition get_scope :: "scope_tables \<Rightarrow> string \<Rightarrow> scope_error + descriptor" where
  "get_scope tb i = (case find_scope tb i of None \<Rightarrow> Inl ScopeNoRows | Some r \<Rightarrow> load_scope tb r)"

definition list_scopes :: "scope_tables \<Rightarrow> scope_error + descriptor list" where
  "list_scopes tb = map_res (load_scope tb) (sort_key srow_id (st_scopes tb))"

text \<open>\<open>json.Marshal\<close> of \<open>encoding/json/v2\<close> writes a nil slice as an empty array and refuses invalid UTF-8.\<close>

definition external_reference_json :: "external_reference \<Rightarrow> string" where
  "external_reference_json r =
     ''{'' @ json_key ''kind'' @ json_quote False False (er_kind r) @ '','' @ json_key ''value'' @ json_quote False False (er_value r) @ ''}''"

definition draft_json :: "'a scope_metadata_scheme \<Rightarrow> string" where
  "draft_json d = ''{'' @ json_key ''title'' @ json_quote False False (sm_title d) @ '','' @
     json_key ''summary'' @ json_quote False False (sm_summary d) @ '','' @
     json_key ''parent_scope_id'' @ json_quote False False (sm_parent d) @ '','' @
     json_key ''context_references'' @ ''['' @ join_comma (map (json_quote False False) (sm_context d)) @ ''],'' @
     json_key ''external_references'' @ ''['' @ join_comma (map external_reference_json (sm_external d)) @ '']}''"

definition draft_digest :: "(string \<Rightarrow> string) \<Rightarrow> scope_draft \<Rightarrow> scope_error + string" where
  "draft_digest sha d =
     and_then (check (list_all valid_utf8 ([sm_title d, sm_summary d, sm_parent d] @ sm_context d @ map er_kind (sm_external d) @ map er_value (sm_external d)))
       (ScopeText ''json: invalid UTF-8'')) (\<lambda>_.
     Inr (sha (draft_json d)))"

definition find_scope_creation :: "scope_tables \<Rightarrow> string \<Rightarrow> string \<Rightarrow> scope_error + descriptor option" where
  "find_scope_creation tb key digest = (case find (\<lambda>q. rq_key q = key) (st_requests tb) of
     None \<Rightarrow> Inr None
   | Some q \<Rightarrow> if rq_digest q \<noteq> digest then Inl IdempotencyConflict
       else and_then (get_scope tb (rq_scope q)) (\<lambda>d. Inr (Some d)))"

definition insert_request :: "scope_tables \<Rightarrow> request_row \<Rightarrow> scope_error + scope_tables" where
  "insert_request tb q =
     and_then (check (\<not> list_ex (\<lambda>p. rq_key p = rq_key q) (st_requests tb)) (ScopeConstraint ''pc_scope_creation_requests'')) (\<lambda>_.
     and_then (check (scope_exists tb (rq_scope q)) (ScopeConstraint ''fk_pc_scope_creation_requests_scope'')) (\<lambda>_.
     Inr (tb\<lparr>st_requests := st_requests tb @ [q]\<rparr>)))"

definition scope_create ::
  "(string \<Rightarrow> string) \<Rightarrow> scope_tables \<Rightarrow> string \<Rightarrow> scope_draft \<Rightarrow> scope_error + descriptor \<times> scope_tables" where
  "scope_create sha tb i d =
     and_then (new_descriptor i (sm_title d) (sm_summary d) (sm_parent d) (sm_context d) (sm_external d) 1) (\<lambda>_.
     and_then (map_sum (\<lambda>_. ScopeValidation) id
       (new_scope_draft (sm_title d) (sm_summary d) (sm_parent d) (sm_context d) (sm_external d) (sd_key d))) (\<lambda>_.
     and_then (draft_digest sha d) (\<lambda>digest.
     and_then (find_scope_creation tb (sd_key d) digest) (\<lambda>found.
     case found of Some existing \<Rightarrow> Inr (existing, tb)
     | None \<Rightarrow>
       and_then (insert_scope tb \<lparr>srow_id = i, srow_title = sm_title d, srow_summary = sm_summary d, srow_parent = nullif (sm_parent d), srow_version = 1\<rparr>) (\<lambda>tb1.
       and_then (write_scope_relationships sha i (sm_context d) (sm_external d) tb1) (\<lambda>tb2.
       and_then (insert_request tb2 \<lparr>rq_key = sd_key d, rq_digest = digest, rq_scope = i\<rparr>) (\<lambda>tb3.
       and_then (get_scope tb3 i) (\<lambda>created. Inr (created, tb3)))))))))"

text \<open>The UPDATE of one row, on the condition that its version is the expected one. The new version is an
  \<open>int64\<close> sum.\<close>

definition update_scope_row :: "scope_mutation \<Rightarrow> scope_row \<Rightarrow> scope_row" where
  "update_scope_row mu r = r\<lparr>srow_title := sm_title mu, srow_summary := sm_summary mu, srow_parent := nullif (sm_parent mu),
     srow_version := wrap64 (mu_expected mu + 1)\<rparr>"

definition matches_version :: "string \<Rightarrow> int \<Rightarrow> scope_row \<Rightarrow> bool" where
  "matches_version i expected r \<longleftrightarrow> srow_id r = i \<and> srow_version r = expected"

definition update_scope_rows :: "scope_tables \<Rightarrow> string \<Rightarrow> scope_mutation \<Rightarrow> scope_error + nat \<times> scope_tables" where
  "update_scope_rows tb i mu =
     (let hits = filter (matches_version i (mu_expected mu)) (st_scopes tb) in
      if hits = [] then Inr (0, tb)
      else and_then (check (wrap64 (mu_expected mu + 1) > 0) (ScopeConstraint ''ck_pc_scopes_version_positive'')) (\<lambda>_.
        and_then (check (sm_parent mu = [] \<or> scope_exists tb (sm_parent mu)) (ScopeConstraint ''fk_pc_scopes_parent'')) (\<lambda>_.
        Inr (length hits, tb\<lparr>st_scopes := map (\<lambda>r. if matches_version i (mu_expected mu) r then update_scope_row mu r else r) (st_scopes tb)\<rparr>))))"

definition clear_relationships :: "string \<Rightarrow> scope_tables \<Rightarrow> scope_tables" where
  "clear_relationships i tb = tb\<lparr>st_context := filter (\<lambda>p. fst p \<noteq> i) (st_context tb), st_external := filter (\<lambda>x. xr_scope x \<noteq> i) (st_external tb)\<rparr>"

definition scope_update ::
  "(string \<Rightarrow> string) \<Rightarrow> scope_tables \<Rightarrow> string \<Rightarrow> scope_mutation \<Rightarrow> scope_error + descriptor \<times> scope_tables" where
  "scope_update sha tb i mu =
     and_then (update_scope_rows tb i mu) (\<lambda>(affected, tb1).
     if affected \<noteq> 1 then and_then (get_scope tb1 i) (\<lambda>current. Inl (ScopeVersionConflict (mu_expected mu) (de_version current)))
     else and_then (write_scope_relationships sha i (sm_context mu) (sm_external mu) (clear_relationships i tb1)) (\<lambda>tb2.
       and_then (get_scope tb2 i) (\<lambda>updated. Inr (updated, tb2))))"

definition default_setting :: string where
  "default_setting = ''default''"

text \<open>An UPDATE of a key-value table: the rows matched and the rows changed.\<close>

definition matched_rows :: "'k \<Rightarrow> ('k \<times> string) list \<Rightarrow> nat" where
  "matched_rows k rows = length (filter (\<lambda>p. fst p = k) rows)"

definition changed_rows :: "'k \<Rightarrow> string \<Rightarrow> ('k \<times> string) list \<Rightarrow> nat" where
  "changed_rows k v rows = length (filter (\<lambda>p. fst p = k \<and> snd p \<noteq> v) rows)"

definition store_value :: "dialect \<Rightarrow> string \<Rightarrow> string \<Rightarrow> bool \<Rightarrow> 'k \<Rightarrow> string \<Rightarrow> ('k \<times> string) list \<Rightarrow> scope_error + ('k \<times> string) list" where
  "store_value dia table fk target_exists k v rows =
     and_then (check (matched_rows k rows = 0 \<or> target_exists) (ScopeConstraint fk)) (\<lambda>_.
     let rows1 = map (\<lambda>p. if fst p = k then (k, v) else p) rows in
     if rows_affected dia (matched_rows k rows) (changed_rows k v rows) = 0
       then and_then (check (matched_rows k rows = 0) (ScopeConstraint table)) (\<lambda>_.
         and_then (check target_exists (ScopeConstraint fk)) (\<lambda>_. Inr (rows1 @ [(k, v)])))
     else Inr rows1)"

definition set_default :: "dialect \<Rightarrow> scope_tables \<Rightarrow> string \<Rightarrow> scope_error + scope_tables" where
  "set_default dia tb i =
     and_then (store_value dia ''pc_scope_settings'' ''fk_pc_scope_settings_scope'' (scope_exists tb i) default_setting i (st_settings tb))
       (\<lambda>rows. Inr (tb\<lparr>st_settings := rows\<rparr>))"

definition default_scope :: "scope_tables \<Rightarrow> scope_error + descriptor option" where
  "default_scope tb = (case map_of (st_settings tb) default_setting of
     None \<Rightarrow> Inr None
   | Some i \<Rightarrow> and_then (get_scope tb i) (\<lambda>d. Inr (Some d)))"

definition set_binding :: "dialect \<Rightarrow> scope_tables \<Rightarrow> binding_key \<Rightarrow> string \<Rightarrow> scope_error + scope_binding \<times> scope_tables" where
  "set_binding dia tb key i =
     and_then (new_binding key i) (\<lambda>b.
     and_then (store_value dia ''pc_scope_bindings'' ''fk_pc_scope_bindings_scope'' (scope_exists tb i) key i (st_bindings tb))
       (\<lambda>rows. Inr (b, tb\<lparr>st_bindings := rows\<rparr>)))"

definition clear_binding :: "scope_tables \<Rightarrow> binding_key \<Rightarrow> bool \<times> scope_tables" where
  "clear_binding tb key =
     (matched_rows key (st_bindings tb) > 0, tb\<lparr>st_bindings := filter (\<lambda>p. fst p \<noteq> key) (st_bindings tb)\<rparr>)"

definition find_binding :: "scope_tables \<Rightarrow> binding_key \<Rightarrow> scope_error + scope_binding option" where
  "find_binding tb key = (case map_of (st_bindings tb) key of
     None \<Rightarrow> Inr None
   | Some i \<Rightarrow> and_then (new_binding key i) (\<lambda>b. Inr (Some b)))"

section \<open>Transactions\<close>

definition required_scope_error :: "scope_error \<Rightarrow> scope_error" where
  "required_scope_error e = (if e = ScopeNoRows then ScopeNotFound else e)"

abbreviation required :: "scope_error + 'a \<Rightarrow> scope_error + 'a" where
  "required m \<equiv> map_sum required_scope_error id m"

text \<open>\<open>RuntimeScopeStore.Create\<close> and \<open>Update\<close>. \<open>seen\<close> is what the reads of the transaction see, \<open>tb\<close> what its
  statements change. With SQLite the write lock of \<open>LockHierarchy\<close> makes them the same.\<close>

definition store_create ::
  "(string \<Rightarrow> string) \<Rightarrow> scope_tables \<Rightarrow> scope_tables \<Rightarrow> string \<Rightarrow> scope_draft \<Rightarrow> (descriptor list \<Rightarrow> scope_error + unit)
     \<Rightarrow> scope_error + descriptor \<times> scope_tables" where
  "store_create sha seen tb i d validate =
     and_then (draft_digest sha d) (\<lambda>digest.
     and_then (find_scope_creation seen (sd_key d) digest) (\<lambda>found.
     case found of Some existing \<Rightarrow> Inr (existing, tb)
     | None \<Rightarrow>
       and_then (list_scopes seen) (\<lambda>scopes.
       and_then (validate scopes) (\<lambda>_.
       scope_create sha tb i d))))"

definition store_update ::
  "(string \<Rightarrow> string) \<Rightarrow> scope_tables \<Rightarrow> scope_tables \<Rightarrow> string \<Rightarrow> scope_mutation \<Rightarrow> (descriptor list \<Rightarrow> scope_error + unit)
     \<Rightarrow> scope_error + descriptor \<times> scope_tables" where
  "store_update sha seen tb i mu validate =
     and_then (required (get_scope seen i)) (\<lambda>current.
     and_then (check (de_version current = mu_expected mu) (ScopeVersionConflict (mu_expected mu) (de_version current))) (\<lambda>_.
     and_then (list_scopes seen) (\<lambda>scopes.
     and_then (validate scopes) (\<lambda>_.
     scope_update sha tb i mu))))"

definition store_bootstrap ::
  "dialect \<Rightarrow> (string \<Rightarrow> string) \<Rightarrow> scope_tables \<Rightarrow> string \<Rightarrow> scope_draft \<Rightarrow> scope_error + descriptor \<times> scope_tables" where
  "store_bootstrap dia sha tb i d =
     and_then (required (default_scope tb)) (\<lambda>found.
     case found of Some existing \<Rightarrow> Inr (existing, tb)
     | None \<Rightarrow>
       and_then (scope_create sha tb i d) (\<lambda>(created, tb1).
       and_then (set_default dia tb1 (de_id created)) (\<lambda>tb2. Inr (created, tb2))))"

definition store_get :: "scope_tables \<Rightarrow> string \<Rightarrow> scope_error + descriptor option" where
  "store_get tb i = (case get_scope tb i of
     Inl e \<Rightarrow> if e = ScopeNoRows then Inr None else Inl e
   | Inr d \<Rightarrow> Inr (Some d))"

definition store_set_default :: "dialect \<Rightarrow> scope_tables \<Rightarrow> string \<Rightarrow> scope_error + descriptor \<times> scope_tables" where
  "store_set_default dia tb i =
     and_then (required (get_scope tb i)) (\<lambda>value.
     and_then (set_default dia tb i) (\<lambda>tb1. Inr (value, tb1)))"

definition store_default :: "scope_tables \<Rightarrow> scope_error + descriptor option" where
  "store_default tb = required (default_scope tb)"

definition store_set_binding :: "dialect \<Rightarrow> scope_tables \<Rightarrow> binding_key \<Rightarrow> string \<Rightarrow> scope_error + scope_binding \<times> scope_tables" where
  "store_set_binding dia tb key i =
     and_then (required (get_scope tb i)) (\<lambda>_. set_binding dia tb key i)"

end
