(* ===== verification/Scope_Application.thy ===== *)
theory Scope_Application
  imports Scope_Store
begin

text \<open>
  The Scope application (\<open>internal/runtime/scope_application.go\<close>) after admission by the runtime: the check of a
  parent and of Context references against the hierarchy, the commands, the resolution of a request to a
  Scope, and the selection of several Scopes. A resolution takes one transaction per read while other
  commands commit: \<open>clock n\<close> is the database the n-th read sees.
\<close>

section \<open>The relationship check\<close>

definition scope_index :: "descriptor list \<Rightarrow> (string, descriptor) gomap" where
  "scope_index scopes = gm_of_list de_id id scopes []"

text \<open>The loop over the ancestors of a proposed parent. Every round visits a Scope of the index for the first
  time, so it ends on cyclic data as well.\<close>

definition unvisited :: "(string, descriptor) gomap \<Rightarrow> string list \<Rightarrow> nat" where
  "unvisited by_id visited = length (filter (\<lambda>k. k \<notin> set visited) (map fst by_id))"

lemma unvisited_less:
  assumes "gm_get by_id k = Some d" "k \<notin> set visited"
  shows "unvisited by_id (k # visited) < unvisited by_id visited"
proof -
  let ?old = "filter (\<lambda>j. j \<notin> set visited) (map fst by_id)"
  have "k \<in> set ?old" using assms by (force dest: map_of_SomeD)
  moreover have "filter (\<lambda>j. j \<notin> set (k # visited)) (map fst by_id) = filter (\<lambda>j. j \<noteq> k) ?old"
    by (simp add: filter_filter conj_commute)
  ultimately show ?thesis unfolding unvisited_def by (simp only:) (rule length_filter_less, auto)
qed

function walk_ancestors :: "(string, descriptor) gomap \<Rightarrow> string list \<Rightarrow> string \<Rightarrow> scope_error + unit" where
  "walk_ancestors by_id visited parent =
     (if parent = [] then Inr ()
      else if parent \<in> set visited then Inl RelationshipFault
      else (case gm_get by_id parent of
              None \<Rightarrow> Inl ScopeNotFound
            | Some p \<Rightarrow> walk_ancestors by_id (parent # visited) (sm_parent p)))"
  by pat_completeness auto
termination
  by (relation "measure (\<lambda>(by_id, visited, parent). unvisited by_id visited)") (auto intro: unvisited_less)

declare walk_ancestors.simps [simp del]

fun check_references :: "(string, descriptor) gomap \<Rightarrow> string \<Rightarrow> string list \<Rightarrow> scope_error + unit" where
  "check_references by_id i [] = Inr ()"
| "check_references by_id i (r # rs) =
     (if r = i then Inl RelationshipFault
      else if gm_get by_id r = None then Inl ScopeNotFound
      else check_references by_id i rs)"

definition validate_scope_relationships :: "descriptor list \<Rightarrow> string \<Rightarrow> string \<Rightarrow> string list \<Rightarrow> scope_error + unit" where
  "validate_scope_relationships scopes i parent references =
     and_then (walk_ancestors (scope_index scopes) [i] parent) (\<lambda>_.
     check_references (scope_index scopes) i references)"

section \<open>Commands\<close>

definition app_create ::
  "(string \<Rightarrow> string) \<Rightarrow> scope_tables \<Rightarrow> scope_tables \<Rightarrow> string \<Rightarrow> scope_draft \<Rightarrow> scope_error + descriptor \<times> scope_tables" where
  "app_create sha seen tb i d =
     and_then (map_sum (\<lambda>_. ScopeValidation) id
       (new_scope_draft (sm_title d) (sm_summary d) (sm_parent d) (sm_context d) (sm_external d) (sd_key d))) (\<lambda>_.
     store_create sha seen tb i d (\<lambda>scopes. validate_scope_relationships scopes i (sm_parent d) (sm_context d)))"

definition app_update ::
  "(string \<Rightarrow> string) \<Rightarrow> scope_tables \<Rightarrow> scope_tables \<Rightarrow> string \<Rightarrow> scope_mutation \<Rightarrow> scope_error + descriptor \<times> scope_tables" where
  "app_update sha seen tb i mu =
     and_then (map_sum (\<lambda>_. ScopeValidation) id
       (new_mutation (mu_expected mu) (sm_title mu) (sm_summary mu) (sm_parent mu) (sm_context mu) (sm_external mu))) (\<lambda>_.
     store_update sha seen tb i mu (\<lambda>scopes. validate_scope_relationships scopes i (sm_parent mu) (sm_context mu)))"

definition app_bootstrap :: "dialect \<Rightarrow> (string \<Rightarrow> string) \<Rightarrow> scope_tables \<Rightarrow> string \<Rightarrow> scope_error + descriptor \<times> scope_tables" where
  "app_bootstrap dia sha tb i =
     and_then (new_scope_draft ''Default'' ''Default context'' [] [] [] ''powercontext.default-scope.v1'') (\<lambda>d.
     store_bootstrap dia sha tb i d)"

definition found_or :: "scope_error \<Rightarrow> scope_error + 'a option \<Rightarrow> scope_error + 'a" where
  "found_or e m = and_then m (\<lambda>found. case found of None \<Rightarrow> Inl e | Some v \<Rightarrow> Inr v)"

definition app_get :: "scope_tables \<Rightarrow> string \<Rightarrow> scope_error + descriptor" where
  "app_get tb i = found_or ScopeNotFound (store_get tb i)"

definition app_list :: "scope_tables \<Rightarrow> scope_error + descriptor list" where
  "app_list tb = map_sum id (sort_key de_id) (list_scopes tb)"

definition app_default :: "scope_tables \<Rightarrow> scope_error + descriptor" where
  "app_default tb = found_or ScopeNotFound (store_default tb)"

text \<open>The state a command leaves: what its transaction wrote, or the state before it when it fails. With
  SQLite, and with any database while no other transaction runs, a command reads what it changes. The
  identifier a creation gets from the factory is an argument of the command.\<close>

datatype scope_command =
    CreateScope string scope_draft
  | UpdateScope string scope_mutation
  | BootstrapDefault string
  | SetDefault string
  | Bind binding_key string
  | ClearBinding binding_key

definition committed :: "scope_tables \<Rightarrow> scope_error + 'a \<times> scope_tables \<Rightarrow> scope_tables" where
  "committed tb m = (case m of Inl _ \<Rightarrow> tb | Inr (_, tb') \<Rightarrow> tb')"

fun run_command :: "dialect \<Rightarrow> (string \<Rightarrow> string) \<Rightarrow> scope_command \<Rightarrow> scope_tables \<Rightarrow> scope_tables" where
  "run_command dia sha (CreateScope i d) tb = committed tb (app_create sha tb tb i d)"
| "run_command dia sha (UpdateScope i mu) tb = committed tb (app_update sha tb tb i mu)"
| "run_command dia sha (BootstrapDefault i) tb = committed tb (app_bootstrap dia sha tb i)"
| "run_command dia sha (SetDefault i) tb = committed tb (store_set_default dia tb i)"
| "run_command dia sha (Bind key i) tb = committed tb (store_set_binding dia tb key i)"
| "run_command dia sha (ClearBinding key) tb = snd (clear_binding tb key)"

definition run_commands :: "dialect \<Rightarrow> (string \<Rightarrow> string) \<Rightarrow> scope_command list \<Rightarrow> scope_tables \<Rightarrow> scope_tables" where
  "run_commands dia sha cmds tb = fold (run_command dia sha) cmds tb"

section \<open>Resolution\<close>

text \<open>The loop over the binding keys of a request: two reads per key, then one for the default.\<close>

fun resolve_keys :: "(nat \<Rightarrow> scope_tables) \<Rightarrow> nat \<Rightarrow> binding_key list \<Rightarrow> scope_error + descriptor" where
  "resolve_keys clock n [] = found_or BindingNotFound (store_default (clock n))"
| "resolve_keys clock n (key # keys) =
     and_then (find_binding (clock n) key) (\<lambda>found.
     case found of
       None \<Rightarrow> resolve_keys clock (n + 2) keys
     | Some b \<Rightarrow> found_or ScopeNotFound (store_get (clock (n + 1)) (bi_scope b)))"

definition app_resolve :: "(nat \<Rightarrow> scope_tables) \<Rightarrow> string option \<Rightarrow> binding_key list \<Rightarrow> scope_error + descriptor" where
  "app_resolve clock explicit keys = (case explicit of
     Some i \<Rightarrow> found_or ScopeNotFound (store_get (clock 0) i)
   | None \<Rightarrow> resolve_keys clock 0 keys)"

section \<open>Selection\<close>

definition select_exact :: "(string, descriptor) gomap \<Rightarrow> string list \<Rightarrow> scope_error + descriptor list" where
  "select_exact by_id ids = map_res (\<lambda>i. case gm_get by_id i of None \<Rightarrow> Inl ScopeNotFound | Some v \<Rightarrow> Inr v) ids"

text \<open>The entry of the \<open>children\<close> map for one parent, filled in the order of the sorted Scopes.\<close>

definition children_of :: "descriptor list \<Rightarrow> string \<Rightarrow> descriptor list" where
  "children_of scopes parent = filter (\<lambda>v. sm_parent v = parent) scopes"

text \<open>The loop that appends the unvisited children of \<open>result[index]\<close> while it runs over \<open>result\<close>.\<close>

definition new_children :: "descriptor list \<Rightarrow> string list \<Rightarrow> descriptor \<Rightarrow> descriptor list" where
  "new_children scopes visited d = first_by de_id visited (children_of scopes (de_id d))"

definition pending :: "descriptor list \<Rightarrow> string list \<Rightarrow> nat" where
  "pending scopes visited = card (de_id ` set scopes - set visited)"

lemma pending_new_children:
  "pending scopes (map de_id (new_children scopes visited d) @ visited) + length (new_children scopes visited d) = pending scopes visited"
proof -
  let ?new = "new_children scopes visited d" and ?ids = "de_id ` set (new_children scopes visited d)"
  have card: "card ?ids = length ?new"
    by (metis distinct_card first_by_distinct length_map new_children_def set_map)
  have sub: "?ids \<subseteq> de_id ` set scopes - set visited"
    unfolding new_children_def children_of_def first_by_keys by auto
  have "de_id ` set scopes - set (map de_id ?new @ visited) = (de_id ` set scopes - set visited) - ?ids"
    by auto
  then have "pending scopes (map de_id ?new @ visited) = card (de_id ` set scopes - set visited) - card ?ids"
    unfolding pending_def using sub by (simp add: card_Diff_subset)
  moreover have "card ?ids \<le> card (de_id ` set scopes - set visited)"
    using sub by (intro card_mono) auto
  ultimately show ?thesis by (simp add: card pending_def)
qed

function subtree_loop :: "descriptor list \<Rightarrow> string list \<Rightarrow> descriptor list \<Rightarrow> nat \<Rightarrow> descriptor list" where
  "subtree_loop scopes visited result index =
     (if index < length result then
        (let new = new_children scopes visited (result ! index) in
         subtree_loop scopes (map de_id new @ visited) (result @ new) (Suc index))
      else result)"
  by pat_completeness auto
termination
proof (relation "measure (\<lambda>(scopes, visited, result, index). pending scopes visited + length result - index)", goal_cases)
  case (2 scopes visited result index new)
  have "pending scopes (map de_id new @ visited) + length new = pending scopes visited"
    unfolding 2(2) by (rule pending_new_children)
  with 2(1) show ?case by simp
qed simp

declare subtree_loop.simps [simp del]

definition select_subtree :: "descriptor list \<Rightarrow> string \<Rightarrow> scope_error + descriptor list" where
  "select_subtree scopes root = (case gm_get (scope_index scopes) root of
     None \<Rightarrow> Inl ScopeNotFound
   | Some d \<Rightarrow> Inr (subtree_loop scopes [de_id d] [d] 0))"

definition resolve_selection :: "scope_tables \<Rightarrow> scope_selection \<Rightarrow> scope_error + descriptor list" where
  "resolve_selection tb s =
     (if sl_mode s \<noteq> selection_all \<and> sl_mode s \<noteq> selection_exact \<and> sl_mode s \<noteq> selection_subtree then Inl ScopeValidation
      else and_then (list_scopes tb) (\<lambda>listed.
        let scopes = sort_key de_id listed in
        if sl_mode s = selection_all then Inr scopes
        else if sl_mode s = selection_exact then select_exact (scope_index scopes) (sl_ids s)
        else select_subtree scopes (sl_root s)))"

end
