(* ===== verification/Scope_Hierarchy.thy ===== *)
theory Scope_Hierarchy
  imports Scope_Application Compare_And_Set
begin

text \<open>
  The hierarchy of Scopes: the relationship check decides exactly whether a parent may be set, every command
  keeps the hierarchy free of cycles and of dangling references, and a subtree selection is the set of
  descendants.
\<close>

section \<open>The walk over ancestors\<close>

definition index_rel :: "(string, descriptor) gomap \<Rightarrow> (string \<times> string) set" where
  "index_rel by_id = {(i, q). \<exists>d. gm_get by_id i = Some d \<and> sm_parent d = q \<and> q \<noteq> []}"

lemma index_rel_step: "gm_get by_id i = Some d \<Longrightarrow> (i, q) \<in> index_rel by_id \<longleftrightarrow> q = sm_parent d \<and> q \<noteq> []"
  by (auto simp: index_rel_def)

lemma index_rel_from: "(i, q) \<in> index_rel by_id \<Longrightarrow> \<exists>d. gm_get by_id i = Some d"
  by (auto simp: index_rel_def)

lemma walk_sound:
  assumes "walk_ancestors by_id visited p = Inr ()" "p \<noteq> []"
  shows "gm_get by_id p \<noteq> None \<and> (\<forall>v \<in> set visited. (p, v) \<notin> (index_rel by_id)\<^sup>*)"
  using assms
proof (induction by_id visited p rule: walk_ancestors.induct)
  case (1 by_id visited p)
  from "1.prems" obtain d where d: "p \<notin> set visited" "gm_get by_id p = Some d"
      "walk_ancestors by_id (p # visited) (sm_parent d) = Inr ()"
    by (subst (asm) walk_ancestors.simps) (auto split: if_splits option.splits)
  have "(p, v) \<notin> (index_rel by_id)\<^sup>*" if v: "v \<in> set visited" for v
  proof
    assume "(p, v) \<in> (index_rel by_id)\<^sup>*"
    moreover have "p \<noteq> v" using d(1) v by auto
    ultimately obtain q where q: "(p, q) \<in> index_rel by_id" "(q, v) \<in> (index_rel by_id)\<^sup>*"
      by (meson converse_rtranclE)
    then show False using "1.IH" [OF "1.prems"(2) d(1,2,3)] v by (auto simp: index_rel_step [OF d(2)])
  qed
  with d(2) show ?case by auto
qed

text \<open>In a hierarchy without cycles or dangling parents the walk refuses exactly the parents below a visited Scope.\<close>

lemma walk_exact:
  assumes "acyclic (index_rel by_id)" "\<And>i q. (i, q) \<in> index_rel by_id \<Longrightarrow> gm_get by_id q \<noteq> None" "p \<noteq> []"
  shows "walk_ancestors by_id visited p =
     (if \<exists>v \<in> set visited. (p, v) \<in> (index_rel by_id)\<^sup>* then Inl RelationshipFault
      else if gm_get by_id p = None then Inl ScopeNotFound else Inr ())"
  using assms
proof (induction by_id visited p rule: walk_ancestors.induct)
  case (1 by_id visited p)
  note rel = "1.prems"
  show ?case
  proof (cases "gm_get by_id p")
    case None
    then have "(p, v) \<in> (index_rel by_id)\<^sup>* \<longleftrightarrow> v = p" for v
      by (metis converse_rtranclE index_rel_from option.distinct(1) rtrancl.rtrancl_refl)
    with None rel(3) show ?thesis by (subst walk_ancestors.simps) auto
  next
    case (Some d)
    let ?q = "sm_parent d"
    have up: "(p, v) \<in> (index_rel by_id)\<^sup>* \<longleftrightarrow> v = p \<or> (?q \<noteq> [] \<and> (?q, v) \<in> (index_rel by_id)\<^sup>*)" for v
      by (metis (no_types) Some converse_rtranclE converse_rtrancl_into_rtrancl index_rel_step rtrancl.rtrancl_refl)
    have upward: "?q \<noteq> [] \<Longrightarrow> (?q, p) \<notin> (index_rel by_id)\<^sup>*"
      using rel(1) Some by (metis acyclic_def index_rel_step rtrancl_into_trancl2)
    have found: "?q \<noteq> [] \<Longrightarrow> gm_get by_id ?q \<noteq> None" using rel(2) [of p ?q] Some by (simp add: index_rel_step)
    show ?thesis
    proof (cases "p \<in> set visited")
      case True
      then show ?thesis using rel(3) by (subst walk_ancestors.simps) auto
    next
      case False
      show ?thesis
      proof (cases "?q = []")
        case True
        then show ?thesis using False Some rel(3) up
          by (subst walk_ancestors.simps) (auto simp: walk_ancestors.simps [of by_id "p # visited" "[]"])
      next
        case q: False
        have "walk_ancestors by_id visited p = walk_ancestors by_id (p # visited) ?q"
          using False Some rel(3) by (subst walk_ancestors.simps) simp
        also have "\<dots> = (if \<exists>v \<in> set (p # visited). (?q, v) \<in> (index_rel by_id)\<^sup>* then Inl RelationshipFault
            else if gm_get by_id ?q = None then Inl ScopeNotFound else Inr ())"
          by (rule "1.IH" [OF rel(3) False Some rel(1) _ q]) (rule rel(2))
        also have "\<dots> = (if \<exists>v \<in> set visited. (?q, v) \<in> (index_rel by_id)\<^sup>* then Inl RelationshipFault else Inr ())"
          using found [OF q] upward [OF q] by auto
        finally show ?thesis using up q False Some by auto
      qed
    qed
  qed
qed

lemma check_references_iff:
  "check_references by_id i rs = Inr () \<longleftrightarrow> (\<forall>r \<in> set rs. r \<noteq> i \<and> gm_get by_id r \<noteq> None)"
  by (induction rs) auto

section \<open>Stored hierarchies\<close>

definition parent_rel :: "scope_tables \<Rightarrow> (string \<times> string) set" where
  "parent_rel tb = {(srow_id r, p) | r p. r \<in> set (st_scopes tb) \<and> srow_parent r = Some p}"

definition constructed_key :: "binding_key \<Rightarrow> bool" where
  "constructed_key k \<longleftrightarrow> bk_integration k \<noteq> [] \<and> bk_kind k \<noteq> [] \<and> bk_external k \<noteq> []"

definition scope_inv :: "scope_tables \<Rightarrow> bool" where
  "scope_inv tb \<longleftrightarrow> distinct (map srow_id (st_scopes tb))
     \<and> (\<forall>r \<in> set (st_scopes tb). in_int64 (srow_version r) \<and> (\<exists>d. load_scope tb r = Inr d))
     \<and> (\<forall>(i, p) \<in> parent_rel tb. scope_exists tb p) \<and> acyclic (parent_rel tb)
     \<and> (\<forall>(i, j) \<in> set (st_context tb). scope_exists tb i \<and> scope_exists tb j \<and> i \<noteq> j)
     \<and> (\<forall>x \<in> set (st_external tb). scope_exists tb (xr_scope x))
     \<and> distinct (map rq_key (st_requests tb)) \<and> (\<forall>q \<in> set (st_requests tb). scope_exists tb (rq_scope q))
     \<and> distinct (map fst (st_settings tb)) \<and> (\<forall>(k, i) \<in> set (st_settings tb). scope_exists tb i)
     \<and> distinct (map fst (st_bindings tb)) \<and> (\<forall>(k, i) \<in> set (st_bindings tb). scope_exists tb i \<and> constructed_key k)"

lemma scope_inv_empty: "scope_inv empty_scopes"
  by (simp add: scope_inv_def empty_scopes_def parent_rel_def acyclic_def)

lemma scope_exists_iff: "scope_exists tb i \<longleftrightarrow> i \<in> srow_id ` set (st_scopes tb)"
  by (auto simp: scope_exists_def list_ex_iff)

lemma find_scope_exists: "scope_exists tb i \<longleftrightarrow> (\<exists>r. find_scope tb i = Some r)"
  unfolding find_scope_def scope_exists_def
  by (metis (mono_tags, lifting) find_None_iff list_ex_iff not_None_eq)

lemma find_scope_SomeD: "find_scope tb i = Some r \<Longrightarrow> r \<in> set (st_scopes tb) \<and> srow_id r = i"
  unfolding find_scope_def by (auto simp: find_Some_iff)

lemma find_scope_row: "distinct (map srow_id (st_scopes tb)) \<Longrightarrow> r \<in> set (st_scopes tb) \<Longrightarrow> find_scope tb (srow_id r) = Some r"
  using find_scope_exists [of tb "srow_id r"] find_scope_SomeD by (auto simp: scope_exists_iff inj_on_def distinct_map)

text \<open>A loaded descriptor repeats its row.\<close>

lemma load_scopeD:
  assumes "load_scope tb r = Inr d"
  shows "de_id d = srow_id r" "sm_parent d = null_string (srow_parent r)" "de_version d = srow_version r"
    "sm_title d = srow_title r" "sm_summary d = srow_summary r" "sm_context d = load_context_references tb (srow_id r)"
    "load_external_references tb (srow_id r) = Inr (sm_external d)" "valid_id (srow_id r)" "1 \<le> srow_version r"
  using assms
  by (auto simp: load_scope_def new_descriptor_def new_metadata_def res_simps scope_metadata.extend_def descriptor.fields_def
      load_context_references_def sort_key_id_if_sorted)

lemma list_scopes_ok:
  assumes "scope_inv tb"
  obtains ds where "list_scopes tb = Inr ds" "list_all2 (\<lambda>r d. load_scope tb r = Inr d) (sort_key srow_id (st_scopes tb)) ds"
proof -
  have "\<forall>r \<in> set (sort_key srow_id (st_scopes tb)). \<exists>d. load_scope tb r = Inr d"
    using assms by (auto simp: scope_inv_def)
  then obtain f where "\<And>r. r \<in> set (sort_key srow_id (st_scopes tb)) \<Longrightarrow> load_scope tb r = Inr (f r)" by metis
  then have "list_scopes tb = Inr (map f (sort_key srow_id (st_scopes tb)))"
    unfolding list_scopes_def by (rule map_res_total)
  then show thesis using that by (metis list_scopes_def map_res_eq_Inr)
qed

lemma scope_inv_loads: "scope_inv tb \<Longrightarrow> find_scope tb i = Some r \<Longrightarrow> \<exists>d. load_scope tb r = Inr d"
  using find_scope_SomeD [of tb i r] by (simp add: scope_inv_def)

text \<open>The index of the listed Scopes is the stored hierarchy.\<close>

lemma index_of_list:
  assumes "scope_inv tb" "list_scopes tb = Inr ds"
  shows "gm_get (scope_index ds) i = (case find_scope tb i of None \<Rightarrow> None | Some r \<Rightarrow> Some (projr (load_scope tb r)))"
proof -
  have all2: "list_all2 (\<lambda>r d. load_scope tb r = Inr d) (sort_key srow_id (st_scopes tb)) ds"
    using assms(2) by (simp add: list_scopes_def map_res_eq_Inr)
  then have ids: "map de_id ds = map srow_id (sort_key srow_id (st_scopes tb))"
    by (induction rule: list_all2_induct) (auto dest: load_scopeD(1))
  have dist: "distinct (map srow_id (st_scopes tb))" using assms(1) by (simp add: scope_inv_def)
  then have distinct: "distinct (map de_id ds)" unfolding ids by (simp add: distinct_map)
  show ?thesis
  proof (cases "find_scope tb i")
    case None
    then have "i \<notin> srow_id ` set (st_scopes tb)" using find_scope_exists [of tb i] by (simp add: scope_exists_iff)
    then have "i \<notin> de_id ` set ds" using ids by (metis image_set set_sort)
    then show ?thesis using None by (simp add: scope_index_def gm_get_of_list_notin)
  next
    case (Some r)
    then have r: "r \<in> set (sort_key srow_id (st_scopes tb))" "srow_id r = i" using find_scope_SomeD by auto
    then obtain d where d: "d \<in> set ds" "load_scope tb r = Inr d"
      using map_res_coversE [of "load_scope tb"] assms(2) unfolding list_scopes_def by metis
    then have "gm_get (scope_index ds) (de_id d) = Some (id d)"
      unfolding scope_index_def by (intro gm_get_of_list distinct)
    then show ?thesis using d(2) r(2) Some load_scopeD(1) [OF d(2)] by simp
  qed
qed

lemma stored_nonempty: "scope_inv tb \<Longrightarrow> scope_exists tb i \<Longrightarrow> i \<noteq> []"
  by (metis find_scope_SomeD find_scope_exists load_scopeD(8) scope_inv_loads valid_id_nonempty)

lemma parent_exists: "scope_inv tb \<Longrightarrow> (i, p) \<in> parent_rel tb \<Longrightarrow> scope_exists tb p"
  by (auto simp: scope_inv_def)

lemma parent_rel_row:
  "distinct (map srow_id (st_scopes tb)) \<Longrightarrow> find_scope tb i = Some r \<Longrightarrow> (i, p) \<in> parent_rel tb \<longleftrightarrow> srow_parent r = Some p"
  unfolding parent_rel_def by (auto dest: find_scope_SomeD) (metis find_scope_row option.inject)+

lemma index_rel_list:
  assumes "scope_inv tb" "list_scopes tb = Inr ds"
  shows "index_rel (scope_index ds) = parent_rel tb"
proof -
  have dist: "distinct (map srow_id (st_scopes tb))" using assms(1) by (simp add: scope_inv_def)
  have "(i, p) \<in> index_rel (scope_index ds) \<longleftrightarrow> (i, p) \<in> parent_rel tb" for i p
  proof (cases "find_scope tb i")
    case None
    then have "(i, p) \<notin> parent_rel tb" using find_scope_exists [of tb i] by (auto simp: parent_rel_def scope_exists_iff)
    with None show ?thesis by (simp add: index_rel_def index_of_list [OF assms])
  next
    case (Some r)
    then obtain d where d: "load_scope tb r = Inr d" using assms(1) scope_inv_loads by blast
    have "p \<noteq> []" if "(i, p) \<in> parent_rel tb" using that assms(1) parent_exists stored_nonempty by blast
    then show ?thesis using Some d load_scopeD(2) [OF d] parent_rel_row [OF dist Some, of p]
      by (auto simp: index_rel_def index_of_list [OF assms] null_string_def split: option.splits)
  qed
  then show ?thesis by auto
qed

lemma index_found:
  assumes "scope_inv tb" "list_scopes tb = Inr ds"
  shows "gm_get (scope_index ds) i = None \<longleftrightarrow> \<not> scope_exists tb i"
  by (auto simp: index_of_list [OF assms] find_scope_exists split: option.splits)

lemma relationships_checked:
  assumes "scope_inv tb" "list_scopes tb = Inr ds"
  shows "validate_scope_relationships ds i parent refs =
     (if parent \<noteq> [] \<and> (parent, i) \<in> (parent_rel tb)\<^sup>* then Inl RelationshipFault
      else if parent \<noteq> [] \<and> \<not> scope_exists tb parent then Inl ScopeNotFound
      else check_references (scope_index ds) i refs)"
proof (cases "parent = []")
  case True
  then show ?thesis by (simp add: validate_scope_relationships_def walk_ancestors.simps)
next
  case False
  have "acyclic (index_rel (scope_index ds))"
    using assms(1) by (simp add: index_rel_list [OF assms] scope_inv_def)
  moreover have "gm_get (scope_index ds) q \<noteq> None" if "(i, q) \<in> index_rel (scope_index ds)" for i q
    using that parent_exists [OF assms(1)] unfolding index_rel_list [OF assms] index_found [OF assms] by blast
  ultimately have "walk_ancestors (scope_index ds) [i] parent =
     (if (parent, i) \<in> (parent_rel tb)\<^sup>* then Inl RelationshipFault
      else if \<not> scope_exists tb parent then Inl ScopeNotFound else Inr ())"
    using walk_exact [of "scope_index ds" parent "[i]"] False index_found [OF assms, of parent]
    by (simp add: index_rel_list [OF assms])
  then show ?thesis using False by (simp add: validate_scope_relationships_def)
qed

end
