(* ===== verification/Scope_Writes.thy ===== *)
theory Scope_Writes
  imports Scope_Hierarchy
begin

text \<open>
  The writes of the Scope store in closed form, and the invariant over every command: identifiers are
  unique, every row loads, parents and references exist, and the hierarchy has no cycle.
\<close>

section \<open>Relationship rows\<close>

lemma scope_exists_frame [simp]:
  "scope_exists (tb\<lparr>st_context := c\<rparr>) = scope_exists tb" "scope_exists (tb\<lparr>st_external := x\<rparr>) = scope_exists tb"
  "scope_exists (tb\<lparr>st_requests := q\<rparr>) = scope_exists tb" "scope_exists (tb\<lparr>st_settings := s\<rparr>) = scope_exists tb"
  "scope_exists (tb\<lparr>st_bindings := b\<rparr>) = scope_exists tb"
  by (simp_all add: scope_exists_def fun_eq_iff)

lemma find_scope_frame [simp]:
  "find_scope (tb\<lparr>st_context := c\<rparr>) i = find_scope tb i" "find_scope (tb\<lparr>st_external := x\<rparr>) i = find_scope tb i"
  "find_scope (tb\<lparr>st_requests := q\<rparr>) i = find_scope tb i" "find_scope (tb\<lparr>st_settings := s\<rparr>) i = find_scope tb i"
  "find_scope (tb\<lparr>st_bindings := b\<rparr>) i = find_scope tb i"
  by (simp_all add: find_scope_def)

lemma insert_contexts:
  "fold_res (insert_context i) refs tb = Inr tb' \<Longrightarrow>
     tb' = tb\<lparr>st_context := st_context tb @ map (Pair i) refs\<rparr>
     \<and> (\<forall>r \<in> set refs. r \<noteq> i \<and> scope_exists tb i \<and> scope_exists tb r)"
proof (induction refs arbitrary: tb)
  case (Cons r refs)
  from Cons.prems obtain tb1 where 1: "insert_context i r tb = Inr tb1" "fold_res (insert_context i) refs tb1 = Inr tb'"
    by (auto simp: res_simps)
  have "tb1 = tb\<lparr>st_context := st_context tb @ [(i, r)]\<rparr>" "r \<noteq> i" "scope_exists tb i" "scope_exists tb r"
    using 1(1) by (auto simp: insert_context_def res_simps)
  with Cons.IH [OF 1(2)] show ?case by simp
qed simp

lemma insert_externals:
  "fold_res insert_external xs tb = Inr tb' \<Longrightarrow>
     tb' = tb\<lparr>st_external := st_external tb @ xs\<rparr> \<and> (\<forall>x \<in> set xs. scope_exists tb (xr_scope x))"
proof (induction xs arbitrary: tb)
  case (Cons x xs)
  from Cons.prems obtain tb1 where 1: "insert_external x tb = Inr tb1" "fold_res insert_external xs tb1 = Inr tb'"
    by (auto simp: res_simps)
  have "tb1 = tb\<lparr>st_external := st_external tb @ [x]\<rparr>" "scope_exists tb (xr_scope x)"
    using 1(1) by (auto simp: insert_external_def res_simps)
  with Cons.IH [OF 1(2)] show ?case by simp
qed simp

lemma fold_res_map: "fold_res f (map g xs) s = fold_res (\<lambda>x. f (g x)) xs s"
  by (induction xs arbitrary: s) (auto simp: and_then_def split: sum.splits)

definition external_rows :: "(string \<Rightarrow> string) \<Rightarrow> string \<Rightarrow> external_reference list \<Rightarrow> external_row list" where
  "external_rows sha i external = map (external_reference_row sha i) (enumerate 0 external)"

lemma external_rows_scope: "x \<in> set (external_rows sha i external) \<Longrightarrow> xr_scope x = i"
  by (auto simp: external_rows_def external_reference_row_def)

definition with_relationships ::
  "(string \<Rightarrow> string) \<Rightarrow> string \<Rightarrow> string list \<Rightarrow> external_reference list \<Rightarrow> scope_tables \<Rightarrow> scope_tables" where
  "with_relationships sha i refs external tb =
     tb\<lparr>st_context := st_context tb @ map (Pair i) refs, st_external := st_external tb @ external_rows sha i external\<rparr>"

lemma write_scope_relationshipsD:
  assumes "write_scope_relationships sha i refs external tb = Inr tb'"
  shows "tb' = with_relationships sha i refs external tb
     \<and> (\<forall>r \<in> set refs. r \<noteq> i \<and> scope_exists tb i \<and> scope_exists tb r) \<and> (external \<noteq> [] \<longrightarrow> scope_exists tb i)"
proof -
  obtain tb1 where 1: "fold_res (insert_context i) refs tb = Inr tb1"
      "fold_res insert_external (external_rows sha i external) tb1 = Inr tb'"
    using assms by (auto simp: write_scope_relationships_def external_rows_def fold_res_map res_simps)
  note c = insert_contexts [OF 1(1)]
  note x = insert_externals [OF 1(2)]
  have "external \<noteq> [] \<longrightarrow> external_rows sha i external \<noteq> []" by (cases external) (auto simp: external_rows_def)
  with c x show ?thesis
    by (auto simp: with_relationships_def external_rows_scope dest!: hd_in_set)
qed

lemma with_relationships_frame [simp]:
  "st_scopes (with_relationships sha i refs external tb) = st_scopes tb"
  "st_requests (with_relationships sha i refs external tb) = st_requests tb"
  "st_settings (with_relationships sha i refs external tb) = st_settings tb"
  "st_bindings (with_relationships sha i refs external tb) = st_bindings tb"
  "st_context (with_relationships sha i refs external tb) = st_context tb @ map (Pair i) refs"
  "st_external (with_relationships sha i refs external tb) = st_external tb @ external_rows sha i external"
  by (simp_all add: with_relationships_def)

text \<open>Loading a Scope reads only the rows of that Scope.\<close>

lemma load_scope_cong:
  assumes "filter (\<lambda>p. fst p = srow_id r) (st_context tb) = filter (\<lambda>p. fst p = srow_id r) (st_context tb')"
    and "filter (\<lambda>x. xr_scope x = srow_id r) (st_external tb) = filter (\<lambda>x. xr_scope x = srow_id r) (st_external tb')"
  shows "load_scope tb r = load_scope tb' r"
  using assms by (simp add: load_scope_def load_context_references_def load_external_references_def)

lemma load_with_relationships:
  assumes "srow_id r \<noteq> i" shows "load_scope (with_relationships sha i refs external tb) r = load_scope tb r"
proof (rule load_scope_cong)
  show "filter (\<lambda>p. fst p = srow_id r) (st_context (with_relationships sha i refs external tb)) = filter (\<lambda>p. fst p = srow_id r) (st_context tb)"
    using assms by (simp add: filter_map o_def)
  show "filter (\<lambda>x. xr_scope x = srow_id r) (st_external (with_relationships sha i refs external tb)) = filter (\<lambda>x. xr_scope x = srow_id r) (st_external tb)"
    using assms by (auto simp: filter_empty_conv dest: external_rows_scope)
qed

lemma load_scope_scopes [simp]: "load_scope (tb\<lparr>st_scopes := rs\<rparr>) r = load_scope tb r" "load_scope (tb\<lparr>st_requests := qs\<rparr>) r = load_scope tb r"
    "load_scope (tb\<lparr>st_settings := ss\<rparr>) r = load_scope tb r" "load_scope (tb\<lparr>st_bindings := bs\<rparr>) r = load_scope tb r"
  by (rule load_scope_cong; simp)+

lemma load_clear_relationships: "srow_id r \<noteq> i \<Longrightarrow> load_scope (clear_relationships i tb) r = load_scope tb r"
  by (rule load_scope_cong) (auto simp: clear_relationships_def intro!: filter_cong)

section \<open>Creating\<close>

definition created_row :: "string \<Rightarrow> scope_draft \<Rightarrow> scope_row" where
  "created_row i d = \<lparr>srow_id = i, srow_title = sm_title d, srow_summary = sm_summary d, srow_parent = nullif (sm_parent d), srow_version = 1\<rparr>"

definition created_tables :: "(string \<Rightarrow> string) \<Rightarrow> scope_tables \<Rightarrow> string \<Rightarrow> scope_draft \<Rightarrow> string \<Rightarrow> scope_tables" where
  "created_tables sha tb i d digest =
     (with_relationships sha i (sm_context d) (sm_external d) (tb\<lparr>st_scopes := st_scopes tb @ [created_row i d]\<rparr>))
       \<lparr>st_requests := st_requests tb @ [\<lparr>rq_key = sd_key d, rq_digest = digest, rq_scope = i\<rparr>]\<rparr>"

lemma find_scope_creationD:
  "find_scope_creation tb key digest = Inr (Some e) \<Longrightarrow>
     \<exists>q \<in> set (st_requests tb). rq_key q = key \<and> rq_digest q = digest \<and> get_scope tb (rq_scope q) = Inr e"
  by (auto simp: find_scope_creation_def find_Some_iff res_simps split: option.splits if_splits)

lemma scope_createD:
  assumes "scope_create sha tb i d = Inr (c, tb')"
  obtains (existing) q where "q \<in> set (st_requests tb)" "rq_key q = sd_key d" "draft_digest sha d = Inr (rq_digest q)"
      "get_scope tb (rq_scope q) = Inr c" "tb' = tb"
    | (fresh) digest where "draft_digest sha d = Inr digest" "tb' = created_tables sha tb i d digest"
      "\<not> scope_exists tb i" "\<forall>q \<in> set (st_requests tb). rq_key q \<noteq> sd_key d" "get_scope tb' i = Inr c"
      "sm_parent d \<noteq> [] \<longrightarrow> sm_parent d = i \<or> scope_exists tb (sm_parent d)"
      "\<forall>r \<in> set (sm_context d). r \<noteq> i \<and> scope_exists tb r"
proof -
  obtain digest found where df: "draft_digest sha d = Inr digest" "find_scope_creation tb (sd_key d) digest = Inr found"
    using assms by (auto simp: scope_create_def res_simps)
  show thesis
  proof (cases found)
    case (Some e)
    moreover have "c = e" "tb' = tb" using assms df Some by (auto simp: scope_create_def res_simps)
    ultimately show thesis using existing df find_scope_creationD [of tb "sd_key d" digest e] by blast
  next
    case None
    obtain tb1 tb2 where 1: "insert_scope tb (created_row i d) = Inr tb1"
        "write_scope_relationships sha i (sm_context d) (sm_external d) tb1 = Inr tb2"
        "insert_request tb2 \<lparr>rq_key = sd_key d, rq_digest = digest, rq_scope = i\<rparr> = Inr tb'" "get_scope tb' i = Inr c"
      using assms df None by (auto simp: scope_create_def res_simps created_row_def)
    have tb1: "tb1 = tb\<lparr>st_scopes := st_scopes tb @ [created_row i d]\<rparr>" "\<not> scope_exists tb i"
        "sm_parent d \<noteq> [] \<longrightarrow> sm_parent d = i \<or> scope_exists tb (sm_parent d)"
      using 1(1) by (auto simp: insert_scope_def res_simps created_row_def nullif_def)
    have ex: "scope_exists tb1 r \<longleftrightarrow> r = i \<or> scope_exists tb r" for r
      by (auto simp: tb1(1) scope_exists_iff created_row_def)
    have tb2: "tb2 = with_relationships sha i (sm_context d) (sm_external d) tb1" "\<forall>r \<in> set (sm_context d). r \<noteq> i \<and> scope_exists tb r"
      using write_scope_relationshipsD [OF 1(2)] ex by auto
    have "tb' = created_tables sha tb i d digest" "\<forall>q \<in> set (st_requests tb). rq_key q \<noteq> sd_key d"
      using 1(3) by (auto simp: insert_request_def res_simps created_tables_def tb1(1) tb2(1) list_ex_iff)
    then show thesis using fresh [OF df(1)] tb1 tb2(2) 1(4) by blast
  qed
qed

lemma parent_rel_UN: "parent_rel tb = (\<Union>r \<in> set (st_scopes tb). {(srow_id r, p) | p. srow_parent r = Some p})"
  by (auto simp: parent_rel_def)

lemma scope_exists_ids: "map srow_id (st_scopes tb') = map srow_id (st_scopes tb) \<Longrightarrow> scope_exists tb' = scope_exists tb"
  by (rule ext) (simp only: scope_exists_iff set_map [symmetric])

text \<open>Creating adds one leaf to the hierarchy.\<close>

lemma created_exists: "scope_exists (created_tables sha tb i d digest) j \<longleftrightarrow> j = i \<or> scope_exists tb j"
  by (auto simp: created_tables_def scope_exists_iff created_row_def)

lemma created_parent_rel:
  "parent_rel (created_tables sha tb i d digest) = (if sm_parent d = [] then {} else {(i, sm_parent d)}) \<union> parent_rel tb"
  by (auto simp: parent_rel_UN created_tables_def created_row_def nullif_def)

lemma created_load:
  "srow_id r \<noteq> i \<Longrightarrow> load_scope (created_tables sha tb i d digest) r = load_scope tb r"
  by (simp add: created_tables_def load_with_relationships)

lemma created_row_found:
  assumes "\<not> scope_exists tb i" shows "find_scope (created_tables sha tb i d digest) i = Some (created_row i d)"
  using assms find_scope_exists [of tb i]
  by (simp add: find_scope_def created_tables_def find_append created_row_def del: not_None_eq split: option.splits)

lemma no_edge_to_missing:
  assumes "scope_inv tb" "\<not> scope_exists tb i" "(p, i) \<in> (parent_rel tb)\<^sup>*" shows "p = i"
  using assms(3,2) parent_exists [OF assms(1)] by (metis rtranclE)

lemma created_acyclic:
  assumes "scope_inv tb" "\<not> scope_exists tb i" "sm_parent d \<noteq> [] \<longrightarrow> sm_parent d \<noteq> i"
  shows "acyclic (parent_rel (created_tables sha tb i d digest))"
proof -
  have "acyclic (parent_rel tb)" using assms(1) by (simp add: scope_inv_def)
  then show ?thesis using no_edge_to_missing [OF assms(1,2), of "sm_parent d"] assms(3)
    by (auto simp: created_parent_rel)
qed

lemma created_inv:
  assumes inv: "scope_inv tb" and new: "\<not> scope_exists tb i" "\<forall>q \<in> set (st_requests tb). rq_key q \<noteq> sd_key d"
    and got: "get_scope (created_tables sha tb i d digest) i = Inr c"
    and parent: "sm_parent d \<noteq> [] \<longrightarrow> sm_parent d \<noteq> i \<and> scope_exists tb (sm_parent d)"
    and refs: "\<forall>r \<in> set (sm_context d). r \<noteq> i \<and> scope_exists tb r"
  shows "scope_inv (created_tables sha tb i d digest)"
proof -
  let ?t = "created_tables sha tb i d digest"
  note i = inv [unfolded scope_inv_def]
  have ids: "srow_id r \<noteq> i" if "r \<in> set (st_scopes tb)" for r using that new(1) by (auto simp: scope_exists_iff)
  have new_row: "load_scope ?t (created_row i d) = Inr c"
    using got created_row_found [OF new(1)] by (simp add: get_scope_def)
  have scopes: "st_scopes ?t = st_scopes tb @ [created_row i d]" by (simp add: created_tables_def)
  have id_row: "srow_id (created_row i d) = i" "srow_version (created_row i d) = 1" by (simp_all add: created_row_def)
  have "distinct (map srow_id (st_scopes ?t))" using i ids by (auto simp: scopes id_row)
  moreover have "\<forall>r \<in> set (st_scopes ?t). in_int64 (srow_version r) \<and> (\<exists>e. load_scope ?t r = Inr e)"
    using i ids new_row by (auto simp: scopes id_row created_load in_int64_def max_int64_def)
  moreover have "\<forall>(j, p) \<in> parent_rel ?t. scope_exists ?t p"
    using parent_exists [OF inv] parent by (auto simp: created_parent_rel created_exists split: if_splits)
  moreover have "\<forall>(j, k) \<in> set (st_context ?t). scope_exists ?t j \<and> scope_exists ?t k \<and> j \<noteq> k"
    using i refs by (auto simp: created_exists) (auto simp: created_tables_def)
  moreover have "\<forall>x \<in> set (st_external ?t). scope_exists ?t (xr_scope x)"
    using i by (auto simp: created_exists) (auto simp: created_tables_def dest: external_rows_scope)
  moreover have "distinct (map rq_key (st_requests ?t)) \<and> (\<forall>q \<in> set (st_requests ?t). scope_exists ?t (rq_scope q))"
    using i new(2) by (auto simp: created_exists) (auto simp: created_tables_def)
  moreover have "st_settings ?t = st_settings tb" "st_bindings ?t = st_bindings tb" by (simp_all add: created_tables_def)
  ultimately show ?thesis using i created_acyclic [OF inv new(1)] parent
    unfolding scope_inv_def by (auto simp: created_exists)
qed

section \<open>Updating\<close>

definition updated_tables :: "(string \<Rightarrow> string) \<Rightarrow> scope_tables \<Rightarrow> string \<Rightarrow> scope_mutation \<Rightarrow> scope_tables" where
  "updated_tables sha tb i mu =
     with_relationships sha i (sm_context mu) (sm_external mu) (clear_relationships i
       (tb\<lparr>st_scopes := map (\<lambda>r. if srow_id r = i then update_scope_row mu r else r) (st_scopes tb)\<rparr>))"

lemma updated_frame [simp]:
  "st_scopes (updated_tables sha tb i mu) = map (\<lambda>r. if srow_id r = i then update_scope_row mu r else r) (st_scopes tb)"
  "st_requests (updated_tables sha tb i mu) = st_requests tb"
  "st_settings (updated_tables sha tb i mu) = st_settings tb" "st_bindings (updated_tables sha tb i mu) = st_bindings tb"
  "st_context (updated_tables sha tb i mu) = filter (\<lambda>p. fst p \<noteq> i) (st_context tb) @ map (Pair i) (sm_context mu)"
  "st_external (updated_tables sha tb i mu) = filter (\<lambda>x. xr_scope x \<noteq> i) (st_external tb) @ external_rows sha i (sm_external mu)"
  by (simp_all add: updated_tables_def clear_relationships_def)

lemma updated_ids: "map srow_id (st_scopes (updated_tables sha tb i mu)) = map srow_id (st_scopes tb)"
  by (simp add: update_scope_row_def)

lemma updated_exists: "scope_exists (updated_tables sha tb i mu) = scope_exists tb"
  by (rule scope_exists_ids) (rule updated_ids)

lemma updated_row:
  assumes "find_scope tb i = Some r" shows "find_scope (updated_tables sha tb i mu) i = Some (update_scope_row mu r)"
proof -
  have "find (\<lambda>r. srow_id r = i) (map (\<lambda>r. if srow_id r = i then update_scope_row mu r else r) rs)
      = map_option (update_scope_row mu) (find (\<lambda>r. srow_id r = i) rs)" for rs
    by (induction rs) (auto simp: update_scope_row_def)
  with assms show ?thesis by (simp add: find_scope_def)
qed

lemma updated_load:
  "srow_id r \<noteq> i \<Longrightarrow> load_scope (updated_tables sha tb i mu) r = load_scope tb r"
  by (simp add: updated_tables_def load_with_relationships load_clear_relationships)

lemma version_hits:
  assumes "distinct (map srow_id rs)" "r \<in> set rs" "srow_id r = i" "srow_version r = v"
  shows "filter (matches_version i v) rs = [r]"
    and "map (\<lambda>r. if matches_version i v r then f r else r) rs = map (\<lambda>r. if srow_id r = i then f r else r) rs"
proof -
  have same: "matches_version i v s \<longleftrightarrow> s = r" if "s \<in> set rs" for s
    using that assms by (auto simp: matches_version_def distinct_map inj_on_def)
  have same_id: "srow_id s = i \<longleftrightarrow> s = r" if "s \<in> set rs" for s
    using that assms by (auto simp: distinct_map inj_on_def)
  have "distinct rs" using assms(1) by (simp add: distinct_map)
  then show "filter (matches_version i v) rs = [r]"
    using assms(2) same by (induction rs) (auto simp: filter_empty_conv)
  show "map (\<lambda>r. if matches_version i v r then f r else r) rs = map (\<lambda>r. if srow_id r = i then f r else r) rs"
    using same same_id by (simp cong: map_cong)
qed

lemma scope_updateD:
  assumes "scope_inv tb" "scope_update sha tb i mu = Inr (c, tb')"
  obtains r where "find_scope tb i = Some r" "srow_version r = mu_expected mu" "0 < wrap64 (mu_expected mu + 1)"
    "tb' = updated_tables sha tb i mu" "get_scope tb' i = Inr c" "sm_parent mu = [] \<or> scope_exists tb (sm_parent mu)"
    "\<forall>r \<in> set (sm_context mu). r \<noteq> i \<and> scope_exists tb r"
proof -
  have dist: "distinct (map srow_id (st_scopes tb))" using assms(1) by (simp add: scope_inv_def)
  obtain n tb1 tb2 where 1: "update_scope_rows tb i mu = Inr (n, tb1)" "n = 1"
      "write_scope_relationships sha i (sm_context mu) (sm_external mu) (clear_relationships i tb1) = Inr tb2"
      "get_scope tb2 i = Inr c" "tb' = tb2"
    using assms(2) by (auto simp: scope_update_def res_simps split: if_splits)
  then have "filter (matches_version i (mu_expected mu)) (st_scopes tb) \<noteq> []"
    by (auto simp: update_scope_rows_def split: if_splits)
  then obtain r where "r \<in> set (st_scopes tb)" "matches_version i (mu_expected mu) r"
    by (metis (mono_tags, lifting) filter_False)
  then have r: "r \<in> set (st_scopes tb)" "srow_id r = i" "srow_version r = mu_expected mu"
    by (simp_all add: matches_version_def)
  note hits = version_hits [OF dist r]
  have u: "0 < wrap64 (mu_expected mu + 1)" "sm_parent mu = [] \<or> scope_exists tb (sm_parent mu)"
      "tb1 = tb\<lparr>st_scopes := map (\<lambda>r. if srow_id r = i then update_scope_row mu r else r) (st_scopes tb)\<rparr>"
    using 1(1) hits by (auto simp: update_scope_rows_def res_simps)
  have "scope_exists tb1 = scope_exists tb"
    by (rule scope_exists_ids) (simp add: u(3) update_scope_row_def)
  then have "tb2 = updated_tables sha tb i mu" "\<forall>r \<in> set (sm_context mu). r \<noteq> i \<and> scope_exists tb r"
    using write_scope_relationshipsD [OF 1(3)] by (auto simp: updated_tables_def u(3) clear_relationships_def)
  then show thesis using that find_scope_row [OF dist r(1)] r u 1 by metis
qed

lemma updated_parent_rel:
  assumes "scope_exists tb i"
  shows "parent_rel (updated_tables sha tb i mu) =
     (if sm_parent mu = [] then {} else {(i, sm_parent mu)}) \<union> {(j, p) \<in> parent_rel tb. j \<noteq> i}"
  using assms
  by (auto simp: parent_rel_UN scope_exists_iff update_scope_row_def nullif_def split: if_splits)

lemma updated_acyclic:
  assumes "acyclic (parent_rel tb)" "scope_exists tb i" "sm_parent mu \<noteq> [] \<longrightarrow> (sm_parent mu, i) \<notin> (parent_rel tb)\<^sup>*"
  shows "acyclic (parent_rel (updated_tables sha tb i mu))"
proof -
  let ?rest = "{(j, p) \<in> parent_rel tb. j \<noteq> i}"
  have sub: "?rest \<subseteq> parent_rel tb" by auto
  then have "acyclic ?rest" using assms(1) acyclic_subset by blast
  moreover have "sm_parent mu \<noteq> [] \<longrightarrow> (sm_parent mu, i) \<notin> ?rest\<^sup>*" using assms(3) rtrancl_mono [OF sub] by blast
  ultimately show ?thesis by (simp add: updated_parent_rel [OF assms(2)])
qed

lemma updated_inv:
  assumes inv: "scope_inv tb" and row: "find_scope tb i = Some r"
    and got: "get_scope (updated_tables sha tb i mu) i = Inr c"
    and parent: "sm_parent mu \<noteq> [] \<longrightarrow> scope_exists tb (sm_parent mu) \<and> (sm_parent mu, i) \<notin> (parent_rel tb)\<^sup>*"
    and refs: "\<forall>r \<in> set (sm_context mu). r \<noteq> i \<and> scope_exists tb r"
  shows "scope_inv (updated_tables sha tb i mu)"
proof -
  let ?t = "updated_tables sha tb i mu"
  note i = inv [unfolded scope_inv_def]
  have ex: "scope_exists tb i" using row find_scope_exists by blast
  have new_row: "load_scope ?t (update_scope_row mu r) = Inr c"
    using got updated_row [OF row] by (simp add: get_scope_def)
  have old: "s = r" if "s \<in> set (st_scopes tb)" "srow_id s = i" for s
    using that row i find_scope_row [of tb s] by auto
  have "in_int64 (srow_version s) \<and> (\<exists>e. load_scope ?t s = Inr e)" if "s \<in> set (st_scopes ?t)" for s
  proof -
    from that obtain s0 where s0: "s0 \<in> set (st_scopes tb)" "s = (if srow_id s0 = i then update_scope_row mu s0 else s0)" by auto
    show ?thesis
    proof (cases "srow_id s0 = i")
      case True
      then show ?thesis using s0 old new_row by (auto simp: update_scope_row_def wrap64_in_int64)
    next
      case False
      then show ?thesis using s0 i by (auto simp: updated_load)
    qed
  qed
  moreover have "distinct (map srow_id (st_scopes ?t))" unfolding updated_ids using i by blast
  moreover have "\<forall>(j, p) \<in> parent_rel ?t. scope_exists ?t p"
    using parent_exists [OF inv] parent by (auto simp: updated_parent_rel [OF ex] updated_exists split: if_splits)
  moreover have "acyclic (parent_rel ?t)" using updated_acyclic [OF _ ex] i parent by blast
  moreover have "\<forall>(j, k) \<in> set (st_context ?t). scope_exists ?t j \<and> scope_exists ?t k \<and> j \<noteq> k"
    using i refs ex by (auto simp: updated_exists)
  moreover have "\<forall>x \<in> set (st_external ?t). scope_exists ?t (xr_scope x)"
    using i ex by (auto simp: updated_exists dest: external_rows_scope)
  ultimately show ?thesis using i unfolding scope_inv_def by (simp add: updated_exists)
qed

section \<open>Settings and bindings\<close>

lemma matched_rows_iff: "matched_rows k rows = 0 \<longleftrightarrow> map_of rows k = None"
  by (auto simp: matched_rows_def filter_empty_conv map_of_eq_None_iff)

lemma changed_le_matched: "changed_rows k v rows \<le> matched_rows k rows"
  unfolding changed_rows_def matched_rows_def by (induction rows) auto

lemma store_valueD:
  assumes "store_value dia table fk target k v rows = Inr rows'" "distinct (map fst rows)"
  shows "distinct (map fst rows')" "map_of rows' = (map_of rows)(k \<mapsto> v)" "set rows' \<subseteq> insert (k, v) (set rows)" "target"
proof -
  define new where "new = map (\<lambda>p. if fst p = k then (k, v) else p) rows"
  have fsts: "map fst new = map fst rows" "set new \<subseteq> insert (k, v) (set rows)" by (auto simp: new_def)
  have get: "map_of new = (if map_of rows k = None then map_of rows else (map_of rows)(k \<mapsto> v))"
    unfolding new_def by (induction rows) auto
  have "target \<and> (if matched_rows k rows = 0 then rows' = new @ [(k, v)] else rows' = new)"
    using assms(1) changed_le_matched [of k v rows]
    by (cases dia) (auto simp: store_value_def Let_def res_simps new_def [symmetric] split: if_splits)
  then have c: "target" "rows' = (if map_of rows k = None then new @ [(k, v)] else new)"
    by (simp_all add: matched_rows_iff split: if_splits)
  have "map_of (new @ [(k, v)]) = (map_of rows)(k \<mapsto> v)" if "map_of rows k = None"
    using that get by (auto simp: fun_eq_iff map_add_def split: option.splits)
  then show "map_of rows' = (map_of rows)(k \<mapsto> v)" using c(2) get by simp
  show "distinct (map fst rows')"
  proof (cases "map_of rows k")
    case None
    then have "k \<notin> set (map fst rows)" by (simp add: map_of_eq_None_iff)
    then show ?thesis using None c(2) assms(2) fsts(1) by (simp del: set_map)
  qed (use c(2) assms(2) fsts(1) in simp)
  show "set rows' \<subseteq> insert (k, v) (set rows)" "target" using c fsts(2) by (auto split: if_splits)
qed

lemma parent_rel_frame [simp]: "parent_rel (tb\<lparr>st_settings := s\<rparr>) = parent_rel tb" "parent_rel (tb\<lparr>st_bindings := b\<rparr>) = parent_rel tb"
  by (simp_all add: parent_rel_def)

lemma set_default_inv:
  assumes "scope_inv tb" "set_default dia tb i = Inr tb'" shows "scope_inv tb'"
proof -
  obtain rows where r: "tb' = tb\<lparr>st_settings := rows\<rparr>"
      "store_value dia ''pc_scope_settings'' ''fk_pc_scope_settings_scope'' (scope_exists tb i) default_setting i (st_settings tb) = Inr rows"
    using assms(2) by (auto simp: set_default_def res_simps)
  have old: "distinct (map fst (st_settings tb))" "\<forall>(k, j) \<in> set (st_settings tb). scope_exists tb j"
    using assms(1) by (simp_all add: scope_inv_def)
  note v = store_valueD [OF r(2) old(1)]
  have "\<forall>(k, j) \<in> set rows. scope_exists tb j" using v(3,4) old(2) by blast
  with v(1) show ?thesis using assms(1) unfolding scope_inv_def r(1) by simp
qed

lemma set_binding_inv:
  assumes "scope_inv tb" "set_binding dia tb key i = Inr (b, tb')" shows "scope_inv tb'"
proof -
  obtain rows where r: "tb' = tb\<lparr>st_bindings := rows\<rparr>" "constructed_key key"
      "store_value dia ''pc_scope_bindings'' ''fk_pc_scope_bindings_scope'' (scope_exists tb i) key i (st_bindings tb) = Inr rows"
    using assms(2) by (auto simp: set_binding_def new_binding_def constructed_key_def res_simps)
  have old: "distinct (map fst (st_bindings tb))" "\<forall>(k, j) \<in> set (st_bindings tb). scope_exists tb j \<and> constructed_key k"
    using assms(1) by (simp_all add: scope_inv_def)
  note v = store_valueD [OF r(3) old(1)]
  have "\<forall>(k, j) \<in> set rows. scope_exists tb j \<and> constructed_key k" using v(3,4) old(2) r(2) by blast
  with v(1) show ?thesis using assms(1) unfolding scope_inv_def r(1) by simp
qed

lemma clear_binding_inv: "scope_inv tb \<Longrightarrow> scope_inv (snd (clear_binding tb key))"
  unfolding scope_inv_def clear_binding_def by (auto simp: distinct_map_filter)

section \<open>Commands\<close>

lemma app_createD:
  assumes "scope_inv tb" "app_create sha tb tb i d = Inr (c, tb')"
  obtains (existing) q where "q \<in> set (st_requests tb)" "rq_key q = sd_key d" "draft_digest sha d = Inr (rq_digest q)"
      "get_scope tb (rq_scope q) = Inr c" "tb' = tb"
    | (fresh) digest where "draft_digest sha d = Inr digest" "tb' = created_tables sha tb i d digest" "get_scope tb' i = Inr c"
      "\<not> scope_exists tb i" "\<forall>q \<in> set (st_requests tb). rq_key q \<noteq> sd_key d"
      "sm_parent d \<noteq> [] \<longrightarrow> sm_parent d \<noteq> i \<and> scope_exists tb (sm_parent d)"
      "\<forall>r \<in> set (sm_context d). r \<noteq> i \<and> scope_exists tb r"
proof -
  obtain digest found where df: "draft_digest sha d = Inr digest" "find_scope_creation tb (sd_key d) digest = Inr found"
    using assms(2) by (auto simp: app_create_def store_create_def res_simps)
  show thesis
  proof (cases found)
    case (Some e)
    moreover have "c = e" "tb' = tb" using assms df Some by (auto simp: app_create_def store_create_def res_simps)
    ultimately show thesis using existing df find_scope_creationD [of tb "sd_key d" digest e] by blast
  next
    case None
    then obtain ds where v: "list_scopes tb = Inr ds" "validate_scope_relationships ds i (sm_parent d) (sm_context d) = Inr ()"
        "scope_create sha tb i d = Inr (c, tb')"
      using assms df by (auto simp: app_create_def store_create_def res_simps)
    have "sm_parent d \<noteq> [] \<longrightarrow> sm_parent d \<noteq> i \<and> scope_exists tb (sm_parent d)"
      using v(2) unfolding relationships_checked [OF assms(1) v(1)] by (auto split: if_splits)
    with v(3) show thesis using existing fresh by (elim scope_createD) auto
  qed
qed

lemma app_updateD:
  assumes "scope_inv tb" "app_update sha tb tb i mu = Inr (c, tb')"
  obtains r where "find_scope tb i = Some r" "srow_version r = mu_expected mu" "0 < wrap64 (mu_expected mu + 1)"
    "tb' = updated_tables sha tb i mu" "get_scope tb' i = Inr c"
    "sm_parent mu \<noteq> [] \<longrightarrow> scope_exists tb (sm_parent mu) \<and> (sm_parent mu, i) \<notin> (parent_rel tb)\<^sup>*"
    "\<forall>r \<in> set (sm_context mu). r \<noteq> i \<and> scope_exists tb r"
proof -
  obtain ds where v: "list_scopes tb = Inr ds" "validate_scope_relationships ds i (sm_parent mu) (sm_context mu) = Inr ()"
      "scope_update sha tb i mu = Inr (c, tb')"
    using assms(2) by (auto simp: app_update_def store_update_def res_simps)
  have "sm_parent mu \<noteq> [] \<longrightarrow> scope_exists tb (sm_parent mu) \<and> (sm_parent mu, i) \<notin> (parent_rel tb)\<^sup>*"
    using v(2) unfolding relationships_checked [OF assms(1) v(1)] by (auto split: if_splits)
  then show thesis using scope_updateD [OF assms(1) v(3)] that by metis
qed

lemma app_create_inv:
  assumes "scope_inv tb" "app_create sha tb tb i d = Inr (c, tb')" shows "scope_inv tb'"
proof (cases rule: app_createD [OF assms])
  case (2 digest)
  then show ?thesis using created_inv [OF assms(1)] by blast
qed (use assms(1) in simp)

lemma app_update_inv:
  assumes "scope_inv tb" "app_update sha tb tb i mu = Inr (c, tb')" shows "scope_inv tb'"
  by (rule app_updateD [OF assms]) (use updated_inv [OF assms(1)] in blast)

lemma default_draft_parent:
  "new_scope_draft t s [] [] [] key = Inr d \<Longrightarrow> sm_parent d = [] \<and> sm_context d = []"
  by (auto simp: new_scope_draft_def new_metadata_def res_simps scope_metadata.extend_def scope_draft.fields_def)

lemma app_bootstrap_inv:
  assumes "scope_inv tb" "app_bootstrap dia sha tb i = Inr (c, tb')" shows "scope_inv tb'"
proof -
  obtain d where d: "new_scope_draft ''Default'' ''Default context'' [] [] [] ''powercontext.default-scope.v1'' = Inr d"
      "store_bootstrap dia sha tb i d = Inr (c, tb')"
    using assms(2) by (auto simp: app_bootstrap_def res_simps)
  from d(2) consider "tb' = tb" | tb1 where "scope_create sha tb i d = Inr (c, tb1)" "set_default dia tb1 (de_id c) = Inr tb'"
    by (fastforce simp: store_bootstrap_def res_simps split: option.splits)
  then show ?thesis
  proof cases
    case 2
    from 2(1) have "scope_inv tb1"
      by (rule scope_createD) (use assms(1) default_draft_parent [OF d(1)] in \<open>auto intro: created_inv\<close>)
    then show ?thesis using 2(2) by (rule set_default_inv)
  qed (use assms(1) in simp)
qed

lemma run_command_inv: "scope_inv tb \<Longrightarrow> scope_inv (run_command dia sha cmd tb)"
proof (cases cmd)
  case (SetDefault i)
  assume "scope_inv tb"
  then show ?thesis using SetDefault set_default_inv
    by (auto simp: committed_def store_set_default_def res_simps split: sum.splits)
next
  case (Bind key i)
  assume "scope_inv tb"
  then show ?thesis using Bind set_binding_inv
    by (auto simp: committed_def store_set_binding_def res_simps split: sum.splits)
qed (auto simp: committed_def clear_binding_inv split: sum.splits
      intro: app_create_inv app_update_inv app_bootstrap_inv)

lemma run_commands_inv: "scope_inv tb \<Longrightarrow> scope_inv (run_commands dia sha cmds tb)"
  unfolding run_commands_def by (induction cmds arbitrary: tb) (auto simp: run_command_inv)

end
