(* ===== verification/Scope_Selection.thy ===== *)
theory Scope_Selection
  imports Scope_Writes
begin

text \<open>
  Listing and selecting Scopes of a stored hierarchy: the listed descriptors are well formed and in the order
  of their identifiers, and a subtree selection is the set of descendants of its root, each once.
\<close>

section \<open>The listing\<close>

lemma list_scopes_ids:
  assumes "list_scopes tb = Inr ds" shows "map de_id ds = sort (map srow_id (st_scopes tb))"
proof -
  have "list_all2 (\<lambda>r d. load_scope tb r = Inr d) (sort_key srow_id (st_scopes tb)) ds"
    using assms by (simp add: list_scopes_def map_res_eq_Inr)
  then have "map de_id ds = map srow_id (sort_key srow_id (st_scopes tb))"
    by (induction rule: list_all2_induct) (auto dest: load_scopeD(1))
  also have "\<dots> = sort (map srow_id (st_scopes tb))"
    by (rule properties_for_sort [symmetric]) simp_all
  finally show ?thesis .
qed

lemma list_scopes_sorted: "list_scopes tb = Inr ds \<Longrightarrow> sort_key de_id ds = ds"
  using list_scopes_ids [of tb ds] by (simp add: sort_key_id_if_sorted)

lemma app_list_list: "list_scopes tb = Inr ds \<Longrightarrow> app_list tb = Inr ds"
  by (simp add: app_list_def list_scopes_sorted)

lemma list_scopes_distinct: "scope_inv tb \<Longrightarrow> list_scopes tb = Inr ds \<Longrightarrow> distinct (map de_id ds)"
  unfolding list_scopes_ids scope_inv_def by simp

lemma index_member:
  assumes "scope_inv tb" "list_scopes tb = Inr ds" "d \<in> set ds" shows "gm_get (scope_index ds) (de_id d) = Some d"
  using gm_get_of_list [OF list_scopes_distinct [OF assms(1,2)] assms(3), of id] by (simp add: scope_index_def)

lemma index_lookup: "gm_get (scope_index ds) i = Some d \<Longrightarrow> d \<in> set ds \<and> de_id d = i"
  using gm_get_of_list_Some [of de_id id ds "[]" i d] by (auto simp: scope_index_def)

lemma listed_parent:
  assumes "scope_inv tb" "list_scopes tb = Inr ds" "d \<in> set ds"
  shows "(de_id d, p) \<in> parent_rel tb \<longleftrightarrow> sm_parent d = p \<and> p \<noteq> []"
  using index_rel_step [OF index_member [OF assms], of p] by (auto simp: index_rel_list [OF assms(1,2)])

section \<open>The loop of a subtree\<close>

lemma subtree_loop_result:
  assumes "set visited = de_id ` set result" "distinct (map de_id result)" "set result \<subseteq> set scopes"
    and "\<And>d. d \<in> set result \<Longrightarrow> R d" "\<And>d c. R d \<Longrightarrow> c \<in> set scopes \<Longrightarrow> sm_parent c = de_id d \<Longrightarrow> R c"
    and "\<And>j c. j < index \<Longrightarrow> j < length result \<Longrightarrow> c \<in> set scopes \<Longrightarrow> sm_parent c = de_id (result ! j) \<Longrightarrow> de_id c \<in> set visited"
  defines "final \<equiv> subtree_loop scopes visited result index"
  shows "(\<exists>ys. final = result @ ys) \<and> distinct (map de_id final) \<and> set final \<subseteq> set scopes \<and> (\<forall>d \<in> set final. R d)
     \<and> (\<forall>d \<in> set final. \<forall>c \<in> set scopes. sm_parent c = de_id d \<longrightarrow> de_id c \<in> de_id ` set final)"
  using assms(1-6) unfolding final_def
proof (induction scopes visited result index rule: subtree_loop.induct)
  case (1 scopes visited result index)
  note prems = "1.prems"
  show ?case
  proof (cases "index < length result")
    case False
    then have "subtree_loop scopes visited result index = result" by (simp add: subtree_loop.simps)
    moreover have "de_id c \<in> de_id ` set result" if child: "d \<in> set result" "c \<in> set scopes" "sm_parent c = de_id d" for c d
    proof -
      obtain j where "j < length result" "d = result ! j" using child(1) by (auto simp: in_set_conv_nth)
      then show ?thesis using prems(1) prems(6) [of j c] child False by auto
    qed
    ultimately show ?thesis using prems by auto
  next
    case True
    define new where "new = new_children scopes visited (result ! index)"
    have step: "subtree_loop scopes visited result index = subtree_loop scopes (map de_id new @ visited) (result @ new) (Suc index)"
      using True by (simp add: subtree_loop.simps [of scopes visited result index] new_def Let_def)
    have sub: "set new \<subseteq> set (children_of scopes (de_id (result ! index)))"
      unfolding new_def new_children_def by (rule first_by_subset)
    have keys: "de_id ` set new = de_id ` set (children_of scopes (de_id (result ! index))) - set visited"
      unfolding new_def new_children_def by (rule first_by_keys)
    have dist: "distinct (map de_id new)" unfolding new_def new_children_def by (rule first_by_distinct)
    let ?rest = "subtree_loop scopes (map de_id new @ visited) (result @ new) (Suc index)"
    have "(\<exists>ys. ?rest = (result @ new) @ ys) \<and> distinct (map de_id ?rest) \<and> set ?rest \<subseteq> set scopes \<and> (\<forall>d \<in> set ?rest. R d)
        \<and> (\<forall>d \<in> set ?rest. \<forall>c \<in> set scopes. sm_parent c = de_id d \<longrightarrow> de_id c \<in> de_id ` set ?rest)"
    proof (rule "1.IH" [OF True new_def])
      show "set (map de_id new @ visited) = de_id ` set (result @ new)" using prems(1) by auto
      show "distinct (map de_id (result @ new))" using prems(1,2) dist keys by auto
      show "set (result @ new) \<subseteq> set scopes" using prems(3) sub by (auto simp: children_of_def)
      show "R d" if "d \<in> set (result @ new)" for d
        using that prems(4,5) [of "result ! index"] prems(4) sub True by (auto simp: children_of_def)
      show "R c" if "R d" "c \<in> set scopes" "sm_parent c = de_id d" for d c using that prems(5) by blast
      show "de_id c \<in> set (map de_id new @ visited)"
        if "j < Suc index" "j < length (result @ new)" "c \<in> set scopes" "sm_parent c = de_id ((result @ new) ! j)" for j c
      proof (cases "j = index")
        case True
        then have "c \<in> set (children_of scopes (de_id (result ! index)))"
          using that \<open>index < length result\<close> by (simp add: children_of_def nth_append)
        then show ?thesis using keys by auto
      next
        case False
        then show ?thesis using that True prems(6) [of j c] by (simp add: nth_append)
      qed
    qed
    then show ?thesis unfolding step by auto
  qed
qed

lemma select_subtree_exact:
  assumes inv: "scope_inv tb" and l: "list_scopes tb = Inr ds" and root: "d \<in> set ds"
  defines "final \<equiv> subtree_loop ds [de_id d] [d] 0"
  shows "(\<exists>ys. final = d # ys) \<and> distinct (map de_id final) \<and> set final \<subseteq> set ds
     \<and> de_id ` set final = {j. (j, de_id d) \<in> (parent_rel tb)\<^sup>*}"
proof -
  have res: "(\<exists>ys. final = [d] @ ys) \<and> distinct (map de_id final) \<and> set final \<subseteq> set ds
      \<and> (\<forall>c \<in> set final. (de_id c, de_id d) \<in> (parent_rel tb)\<^sup>*)
      \<and> (\<forall>e \<in> set final. \<forall>c \<in> set ds. sm_parent c = de_id e \<longrightarrow> de_id c \<in> de_id ` set final)"
    unfolding final_def
  proof (rule subtree_loop_result)
    show "(de_id c, de_id d) \<in> (parent_rel tb)\<^sup>*"
      if "(de_id e, de_id d) \<in> (parent_rel tb)\<^sup>*" "c \<in> set ds" "sm_parent c = de_id e" for e c
    proof (cases "de_id e = []")
      case False
      then have "(de_id c, de_id e) \<in> parent_rel tb" using listed_parent [OF inv l that(2)] that(3) by simp
      then show ?thesis using that(1) by (rule converse_rtrancl_into_rtrancl)
    next
      case True
      have "scope_exists tb (de_id e)" if "(de_id e, de_id d) \<in> (parent_rel tb)\<^sup>*"
        using that root index_member [OF inv l root] index_found [OF inv l, of "de_id d"]
        by (cases rule: converse_rtranclE) (auto simp: parent_rel_def scope_exists_iff)
      then show ?thesis using True that(1) stored_nonempty [OF inv] by blast
    qed
  qed (use root in auto)
  have "j \<in> de_id ` set final" if "(j, de_id d) \<in> (parent_rel tb)\<^sup>*" for j
    using that
  proof (induction rule: converse_rtrancl_induct)
    case base
    then show ?case using res by auto
  next
    case (step j k)
    then obtain e where e: "e \<in> set final" "de_id e = k" by auto
    have "scope_exists tb j" using step(1) by (auto simp: parent_rel_def scope_exists_iff)
    then obtain c where "gm_get (scope_index ds) j = Some c" using index_found [OF inv l, of j] by auto
    then have c: "c \<in> set ds" "de_id c = j" using index_lookup by blast+
    then have "sm_parent c = k" using listed_parent [OF inv l c(1)] step(1) by simp
    then show ?case using res e c by metis
  qed
  with res show ?thesis by auto
qed

end
