(* ===== verification/Scope_Guarantees.thy ===== *)
theory Scope_Guarantees
  imports Scope_Selection
begin

text \<open>
  What the Scope application guarantees after any sequence of its commands, and the two places where the
  OceanBase profile behaves differently from SQLite.
\<close>

abbreviation reached :: "dialect \<Rightarrow> (string \<Rightarrow> string) \<Rightarrow> scope_command list \<Rightarrow> scope_tables" where
  "reached dia sha cmds \<equiv> run_commands dia sha cmds empty_scopes"

lemma reached_inv: "scope_inv (reached dia sha cmds)"
  by (rule run_commands_inv) (rule scope_inv_empty)

lemma reached_list:
  obtains ds where "list_scopes (reached dia sha cmds) = Inr ds"
  using list_scopes_ok [OF reached_inv] by blast

section \<open>What is loaded is what was written\<close>

definition describes :: "descriptor \<Rightarrow> string \<Rightarrow> 'a scope_metadata_scheme \<Rightarrow> int \<Rightarrow> bool" where
  "describes c i m v \<longleftrightarrow> de_id c = i \<and> de_version c = v \<and> sm_title c = sm_title m \<and> sm_summary c = sm_summary m
     \<and> sm_parent c = sm_parent m \<and> sm_context c = sort (sm_context m) \<and> sm_external c = sm_external m"

lemma external_rows_ordinals: "map xr_ordinal (external_rows sha i ext) = [0..<length ext]"
  by (simp add: external_rows_def external_reference_row_def case_prod_beta o_def flip: enumerate_eq_zip)

lemma decode_written: "decode_reference (external_reference_row sha i (n, x)) = Inr y \<Longrightarrow> y = x"
  by (auto simp: decode_reference_def external_reference_row_def new_external_reference_def res_simps)

lemma decode_rows: "map_res decode_reference (map (external_reference_row sha i) (enumerate n ext)) = Inr ys \<Longrightarrow> ys = ext"
proof (induction ext arbitrary: n ys)
  case (Cons x ext)
  then show ?case using decode_written by (fastforce simp: and_then_eq_Inr simp del: map_res_eq_Inr)
qed simp

lemma written_relationships:
  assumes "filter (\<lambda>p. fst p = i) (st_context tb) = map (Pair i) refs"
    and "filter (\<lambda>x. xr_scope x = i) (st_external tb) = external_rows sha i ext"
    and "load_scope tb r = Inr c" "srow_id r = i"
  shows "sm_context c = sort refs" "sm_external c = ext"
proof -
  show "sm_context c = sort refs" using load_scopeD(6) [OF assms(3)] assms(1,4) by (simp add: load_context_references_def o_def)
  have "sort_key xr_ordinal (external_rows sha i ext) = external_rows sha i ext"
    by (rule sort_key_id_if_sorted) (simp add: external_rows_ordinals)
  then show "sm_external c = ext"
    using load_scopeD(7) [OF assms(3)] assms(2,4) decode_rows [of sha i 0 ext]
    by (simp add: load_external_references_def external_rows_def)
qed

lemma own_external_rows: "filter (\<lambda>x. xr_scope x = i) (external_rows sha i ext) = external_rows sha i ext"
  by (rule filter_True) (auto dest: external_rows_scope)

lemma null_string_nullif [simp]: "null_string (nullif p) = p"
  by (simp add: null_string_def nullif_def)

lemma updated_describes:
  assumes "find_scope tb i = Some r" "get_scope (updated_tables sha tb i mu) i = Inr c"
  shows "describes c i mu (wrap64 (mu_expected mu + 1))"
proof -
  have id: "srow_id (update_scope_row mu r) = i" using find_scope_SomeD [OF assms(1)] by (simp add: update_scope_row_def)
  have l: "load_scope (updated_tables sha tb i mu) (update_scope_row mu r) = Inr c"
    using assms updated_row by (simp add: get_scope_def)
  have "filter (\<lambda>p. fst p = i) (st_context (updated_tables sha tb i mu)) = map (Pair i) (sm_context mu)"
    "filter (\<lambda>x. xr_scope x = i) (st_external (updated_tables sha tb i mu)) = external_rows sha i (sm_external mu)"
    by (auto simp: filter_map o_def filter_empty_conv own_external_rows)
  from written_relationships [OF this l id] show ?thesis
    using load_scopeD [OF l] id by (simp add: describes_def update_scope_row_def)
qed

lemma created_describes:
  assumes "scope_inv tb" "\<not> scope_exists tb i" "get_scope (created_tables sha tb i d digest) i = Inr c"
  shows "describes c i d 1"
proof -
  have l: "load_scope (created_tables sha tb i d digest) (created_row i d) = Inr c"
    using assms(3) created_row_found [OF assms(2)] by (simp add: get_scope_def)
  have "filter (\<lambda>p. fst p = i) (st_context tb) = []" "filter (\<lambda>x. xr_scope x = i) (st_external tb) = []"
    using assms(1,2) by (auto simp: scope_inv_def filter_empty_conv)
  then have "filter (\<lambda>p. fst p = i) (st_context (created_tables sha tb i d digest)) = map (Pair i) (sm_context d)"
    "filter (\<lambda>x. xr_scope x = i) (st_external (created_tables sha tb i d digest)) = external_rows sha i (sm_external d)"
    by (auto simp: created_tables_def filter_map o_def own_external_rows)
  from written_relationships [OF this l] show ?thesis
    using load_scopeD [OF l] by (simp add: describes_def created_row_def)
qed

lemma updated_find_other:
  assumes "j \<noteq> i" shows "find_scope (updated_tables sha tb i mu) j = find_scope tb j"
proof -
  have "find (\<lambda>r. srow_id r = j) (map (\<lambda>r. if srow_id r = i then update_scope_row mu r else r) rs) = find (\<lambda>r. srow_id r = j) rs" for rs
    using assms by (induction rs) (auto simp: update_scope_row_def)
  then show ?thesis by (simp add: find_scope_def)
qed

lemma updated_others:
  assumes "j \<noteq> i" shows "get_scope (updated_tables sha tb i mu) j = get_scope tb j"
proof -
  have "find_scope (updated_tables sha tb i mu) j = find_scope tb j" using assms by (rule updated_find_other)
  moreover have "load_scope (updated_tables sha tb i mu) r = load_scope tb r" if "find_scope tb j = Some r" for r
    using that assms find_scope_SomeD updated_load by blast
  ultimately show ?thesis by (auto simp: get_scope_def split: option.splits)
qed

lemma created_others:
  assumes "j \<noteq> i" shows "get_scope (created_tables sha tb i d digest) j = get_scope tb j"
proof -
  have "find_scope (created_tables sha tb i d digest) j = find_scope tb j"
    using assms by (auto simp: find_scope_def created_tables_def find_append created_row_def split: option.splits)
  moreover have "load_scope (created_tables sha tb i d digest) r = load_scope tb r" if "find_scope tb j = Some r" for r
    using that assms find_scope_SomeD created_load by blast
  ultimately show ?thesis by (auto simp: get_scope_def split: option.splits)
qed

section \<open>Nothing is removed\<close>

definition keeps :: "scope_tables \<Rightarrow> scope_tables \<Rightarrow> bool" where
  "keeps tb tb' \<longleftrightarrow> set (st_requests tb) \<subseteq> set (st_requests tb') \<and> (\<forall>i. scope_exists tb i \<longrightarrow> scope_exists tb' i)"

lemma keeps_refl [simp]: "keeps tb tb"
  by (simp add: keeps_def)

lemma created_keeps: "keeps tb (created_tables sha tb i d digest)"
  by (auto simp: keeps_def created_exists) (auto simp: created_tables_def)

lemma updated_keeps: "keeps tb (updated_tables sha tb i mu)"
  by (simp add: keeps_def updated_exists)

lemma set_default_keeps: "set_default dia tb i = Inr tb' \<Longrightarrow> keeps tb tb'"
  by (auto simp: set_default_def res_simps keeps_def)

lemma set_binding_keeps: "set_binding dia tb key i = Inr (b, tb') \<Longrightarrow> keeps tb tb'"
  by (auto simp: set_binding_def res_simps keeps_def)

lemma keeps_trans: "keeps a b \<Longrightarrow> keeps b c \<Longrightarrow> keeps a c"
  by (auto simp: keeps_def)

lemma scope_create_keeps: "scope_create sha tb i d = Inr (c, tb') \<Longrightarrow> keeps tb tb'"
  by (erule scope_createD) (simp_all add: created_keeps)

lemma app_create_keeps: "app_create sha tb tb i d = Inr (c, tb') \<Longrightarrow> keeps tb tb'"
  by (auto simp: app_create_def store_create_def res_simps split: option.splits dest: scope_create_keeps)

lemma app_update_keeps: "scope_inv tb \<Longrightarrow> app_update sha tb tb i mu = Inr (c, tb') \<Longrightarrow> keeps tb tb'"
  by (erule (1) app_updateD) (simp add: updated_keeps)

lemma app_bootstrap_keeps: "app_bootstrap dia sha tb i = Inr (c, tb') \<Longrightarrow> keeps tb tb'"
  by (auto simp: app_bootstrap_def store_bootstrap_def res_simps split: option.splits
      dest!: scope_create_keeps set_default_keeps intro: keeps_trans)

lemma run_command_keeps:
  assumes "scope_inv tb" shows "keeps tb (run_command dia sha cmd tb)"
proof (cases cmd)
  case (SetDefault i)
  then show ?thesis using set_default_keeps
    by (auto simp: committed_def store_set_default_def res_simps split: sum.splits)
next
  case (Bind key i)
  then show ?thesis using set_binding_keeps
    by (auto simp: committed_def store_set_binding_def res_simps split: sum.splits)
next
  case (ClearBinding key)
  then show ?thesis by (simp add: clear_binding_def keeps_def)
qed (use assms in \<open>auto simp: committed_def split: sum.splits intro: app_create_keeps app_update_keeps app_bootstrap_keeps\<close>)

lemma run_commands_keeps: "scope_inv tb \<Longrightarrow> keeps tb (run_commands dia sha cmds tb)"
  unfolding run_commands_def
proof (induction cmds arbitrary: tb)
  case (Cons cmd cmds)
  then show ?case by (metis fold_simps(2) keeps_trans run_command_inv run_command_keeps)
qed simp

lemma stored_scope_loads:
  assumes "scope_inv tb" "scope_exists tb i" obtains d where "get_scope tb i = Inr d" "de_id d = i"
proof -
  obtain r where r: "find_scope tb i = Some r" using assms(2) find_scope_exists by blast
  then obtain d where "load_scope tb r = Inr d" using scope_inv_loads [OF assms(1)] by blast
  then show thesis using that r load_scopeD(1) find_scope_SomeD [OF r] by (simp add: get_scope_def)
qed

section \<open>The hierarchy\<close>

text \<open>C29: After any sequence of commands, from an empty database and with any identifiers from the factory, the
  parents of Scopes form a forest: the parent relation has no cycle, every parent is a stored Scope, and every
  Context reference goes from a stored Scope to another one.\<close>

theorem hierarchy_invariant:
  "wf ((parent_rel (reached dia sha cmds))\<inverse>)
   \<and> snd ` parent_rel (reached dia sha cmds) \<subseteq> {i. scope_exists (reached dia sha cmds) i}
   \<and> set (st_context (reached dia sha cmds)) \<subseteq> {(i, j). scope_exists (reached dia sha cmds) i \<and> scope_exists (reached dia sha cmds) j \<and> i \<noteq> j}"
proof -
  let ?t = "reached dia sha cmds"
  note i = reached_inv [of dia sha cmds, unfolded scope_inv_def]
  have "parent_rel ?t = (\<lambda>r. (srow_id r, the (srow_parent r))) ` {r \<in> set (st_scopes ?t). srow_parent r \<noteq> None}"
    by (force simp: parent_rel_def image_iff)
  then have "finite (parent_rel ?t)" by simp
  then have "wf ((parent_rel ?t)\<inverse>)" using i finite_acyclic_wf_converse by blast
  then show ?thesis using i by auto
qed

text \<open>The relationship check of a create or an update, on the Scopes the transaction lists, refuses exactly
  what would break the hierarchy: a parent that is the Scope itself or one of its descendants, a parent or a
  reference that does not exist, a reference to itself; the error is that of the first check that fails.\<close>

theorem relationship_check_exact:
  "and_then (list_scopes (reached dia sha cmds)) (\<lambda>scopes. validate_scope_relationships scopes i parent refs) =
     (if parent \<noteq> [] \<and> (parent, i) \<in> (parent_rel (reached dia sha cmds))\<^sup>* then Inl RelationshipFault
      else if parent \<noteq> [] \<and> \<not> scope_exists (reached dia sha cmds) parent then Inl ScopeNotFound
      else case find (\<lambda>r. r = i \<or> \<not> scope_exists (reached dia sha cmds) r) refs of
             None \<Rightarrow> Inr ()
           | Some r \<Rightarrow> if r = i then Inl RelationshipFault else Inl ScopeNotFound)"
proof -
  obtain ds where ds: "list_scopes (reached dia sha cmds) = Inr ds" by (rule reached_list)
  have "check_references (scope_index ds) i rs = (case find (\<lambda>r. r = i \<or> \<not> scope_exists (reached dia sha cmds) r) rs of
      None \<Rightarrow> Inr () | Some r \<Rightarrow> if r = i then Inl RelationshipFault else Inl ScopeNotFound)" for rs
    by (induction rs) (auto simp: index_found [OF reached_inv ds])
  then show ?thesis by (simp add: ds relationships_checked [OF reached_inv ds])
qed

text \<open>C34: Selecting a subtree of a reached hierarchy returns the root first, every descendant of it exactly once
  and no other Scope, each as it is listed; a root that is not stored is the error not found.\<close>

theorem subtree_selection_exact:
  "if scope_exists (reached dia sha cmds) root
   then \<exists>scopes subtree. list_scopes (reached dia sha cmds) = Inr scopes
     \<and> resolve_selection (reached dia sha cmds) \<lparr>sl_mode = selection_subtree, sl_ids = [], sl_root = root\<rparr> = Inr subtree
     \<and> de_id (hd subtree) = root \<and> distinct (map de_id subtree) \<and> set subtree \<subseteq> set scopes
     \<and> de_id ` set subtree = {i. (i, root) \<in> (parent_rel (reached dia sha cmds))\<^sup>*}
   else resolve_selection (reached dia sha cmds) \<lparr>sl_mode = selection_subtree, sl_ids = [], sl_root = root\<rparr> = Inl ScopeNotFound"
proof -
  obtain ds where ds: "list_scopes (reached dia sha cmds) = Inr ds" by (rule reached_list)
  have sel: "resolve_selection (reached dia sha cmds) \<lparr>sl_mode = selection_subtree, sl_ids = [], sl_root = root\<rparr> = select_subtree ds root"
    using ds by (simp add: resolve_selection_def list_scopes_sorted selection_subtree_def selection_all_def selection_exact_def)
  show ?thesis
  proof (cases "gm_get (scope_index ds) root")
    case None
    then show ?thesis using index_found [OF reached_inv ds, of root] sel by (simp add: select_subtree_def)
  next
    case (Some d)
    then have d: "d \<in> set ds" "de_id d = root" using index_lookup by blast+
    have "scope_exists (reached dia sha cmds) root" using Some index_found [OF reached_inv ds, of root] by auto
    then show ?thesis using select_subtree_exact [OF reached_inv ds d(1)] d(2) Some ds sel
      by (auto simp: select_subtree_def)
  qed
qed

section \<open>Descriptors\<close>

definition well_formed :: "descriptor \<Rightarrow> bool" where
  "well_formed d \<longleftrightarrow> valid_id (de_id d) \<and> plain_text (sm_title d) 256 \<and> plain_text (sm_summary d) 2000
     \<and> (sm_parent d = [] \<or> valid_id (sm_parent d) \<and> sm_parent d \<noteq> de_id d)
     \<and> list_all valid_id (sm_context d) \<and> sorted (sm_context d) \<and> distinct (sm_context d) \<and> de_id d \<notin> set (sm_context d)
     \<and> list_all (\<lambda>x. plain_text (er_kind x) 128 \<and> plain_text (er_value x) 2000) (sm_external d) \<and> distinct (sm_external d)
     \<and> 1 \<le> de_version d \<and> de_version d \<le> max_int64"

lemma decoded_reference: "decode_reference x = Inr y \<Longrightarrow> plain_text (er_kind y) 128 \<and> plain_text (er_value y) 2000"
  by (auto simp: decode_reference_def new_external_reference_def res_simps)

lemma loaded_well_formed:
  assumes inv: "scope_inv tb" and row: "r \<in> set (st_scopes tb)" and l: "load_scope tb r = Inr d"
  shows "well_formed d"
proof -
  note i = inv [unfolded scope_inv_def] and dl = load_scopeD [OF l]
  obtain ext where ext: "load_external_references tb (srow_id r) = Inr ext"
      "new_descriptor (srow_id r) (srow_title r) (srow_summary r) (null_string (srow_parent r)) (load_context_references tb (srow_id r)) ext (srow_version r) = Inr d"
    using l by (auto simp: load_scope_def res_simps)
  have vals: "valid_id (srow_id r)" "plain_text (srow_title r) 256" "plain_text (srow_summary r) 2000"
      "null_string (srow_parent r) = [] \<or> valid_id (null_string (srow_parent r))" "distinct ext" "distinct (load_context_references tb (srow_id r))"
      "\<forall>v \<in> set (load_context_references tb (srow_id r)). valid_id v"
    using ext(2) by (auto simp: new_descriptor_def new_metadata_def res_simps has_duplicate_iff split: if_splits)
  have ext_d: "sm_external d = ext" using dl(7) ext(1) by simp
  have "\<forall>y \<in> set ext. plain_text (er_kind y) 128 \<and> plain_text (er_value y) 2000"
    using ext(1) decoded_reference unfolding load_external_references_def by (metis map_res_memberE)
  moreover have "null_string (srow_parent r) \<noteq> srow_id r" if "null_string (srow_parent r) \<noteq> []"
  proof
    assume "null_string (srow_parent r) = srow_id r"
    then have "(srow_id r, srow_id r) \<in> parent_rel tb" using that row by (auto simp: parent_rel_def null_string_def split: option.splits)
    then show False using i by (auto simp: acyclic_def)
  qed
  moreover have "srow_id r \<notin> set (load_context_references tb (srow_id r))" using i by (auto simp: load_context_references_def)
  moreover have "sorted (load_context_references tb (srow_id r))" by (simp add: load_context_references_def)
  moreover have "srow_version r \<le> max_int64" using i row by (simp add: in_int64_def)
  ultimately show ?thesis using vals dl ext_d unfolding well_formed_def list_all_iff by auto
qed

text \<open>C35: After any sequence of commands listing the Scopes succeeds, in the order of their identifiers, and every
  descriptor of the list is well formed: valid texts within their lengths, canonical unique references, no reference
  to itself, and a version that is a positive int64.\<close>

theorem listed_scopes_well_formed:
  "\<exists>scopes. app_list (reached dia sha cmds) = Inr scopes \<and> list_all well_formed scopes
     \<and> map de_id scopes = sort (map srow_id (st_scopes (reached dia sha cmds))) \<and> sorted_wrt (<) (map de_id scopes)"
proof -
  obtain ds where ds: "list_scopes (reached dia sha cmds) = Inr ds" by (rule reached_list)
  have "well_formed d" if d: "d \<in> set ds" for d
    using map_res_memberE [OF ds [unfolded list_scopes_def] d] loaded_well_formed [OF reached_inv] by (metis set_sort)
  then show ?thesis
    using app_list_list [OF ds] list_scopes_ids [OF ds] list_scopes_distinct [OF reached_inv ds]
    by (auto simp: list_all_iff strict_sorted_iff)
qed

end
