(* ===== verification/Scope_Operations.thy ===== *)
theory Scope_Operations
  imports Scope_Guarantees
begin

text \<open>
  The commands of the Scope application: idempotent creation, exact updates with one winner per version, and
  the resolution of a request to a Scope while other commands commit.
\<close>

section \<open>Creation\<close>

lemma created_request:
  assumes "scope_inv tb" "app_create sha tb tb i d = Inr (c, tb')"
  obtains q where "q \<in> set (st_requests tb')" "rq_key q = sd_key d" "draft_digest sha d = Inr (rq_digest q)" "rq_scope q = de_id c"
proof (cases rule: app_createD [OF assms])
  case (1 q)
  have "scope_exists tb (rq_scope q)" using assms(1) 1(1) by (simp add: scope_inv_def)
  then have "rq_scope q = de_id c" using stored_scope_loads [OF assms(1)] 1(4) by (metis sum.inject(2))
  then show thesis using that 1 by blast
next
  case (2 digest)
  have "de_id c = i" using created_describes [OF assms(1) 2(4)] 2(2,3) by (simp add: describes_def)
  then show thesis using that [of "\<lparr>rq_key = sd_key d, rq_digest = digest, rq_scope = i\<rparr>"] 2(1,2) by (simp add: created_tables_def)
qed

lemma find_request_key:
  assumes "distinct (map f xs)" "x \<in> set xs" shows "find (\<lambda>y. f y = f x) xs = Some x"
  using assms by (induction xs) auto

lemma draft_accepted:
  "app_create sha seen tb i d = Inr (c, tb') \<Longrightarrow>
     \<exists>d'. new_scope_draft (sm_title d) (sm_summary d) (sm_parent d) (sm_context d) (sm_external d) (sd_key d) = Inr d'"
  by (auto simp: app_create_def res_simps)


section \<open>Updates\<close>

text \<open>C37: A successful update replaces the metadata of one Scope exactly: the returned descriptor carries the texts,
  the parent, the sorted references and the external references of the mutation with the next version, reading
  the Scope returns it, and every other Scope reads as before.\<close>

theorem scope_update_exact:
  assumes "app_update sha (reached dia sha cmds) (reached dia sha cmds) i mu = Inr (c, tb)"
  shows "describes c i mu (mu_expected mu + 1) \<and> app_get tb i = Inr c
     \<and> (\<forall>j. j \<noteq> i \<longrightarrow> app_get tb j = app_get (reached dia sha cmds) j)"
proof (rule app_updateD [OF reached_inv assms])
  fix r
  assume r: "find_scope (reached dia sha cmds) i = Some r" "srow_version r = mu_expected mu" "0 < wrap64 (mu_expected mu + 1)"
    and tb: "tb = updated_tables sha (reached dia sha cmds) i mu" and c: "get_scope tb i = Inr c"
  have "in_int64 (mu_expected mu)"
    using reached_inv [of dia sha cmds] find_scope_SomeD [OF r(1)] r(2) by (auto simp: scope_inv_def)
  then have "wrap64 (mu_expected mu + 1) = mu_expected mu + 1" using r(3) by (auto simp: wrap64_succ)
  then have "describes c i mu (mu_expected mu + 1)" using updated_describes [OF r(1)] c tb by metis
  moreover have "app_get tb i = Inr c" using c by (simp add: app_get_def store_get_def found_or_def)
  moreover have "app_get tb j = app_get (reached dia sha cmds) j" if "j \<noteq> i" for j
    using that by (simp add: tb app_get_def store_get_def updated_others)
  ultimately show ?thesis by blast
qed

definition scope_version :: "scope_tables \<Rightarrow> string \<Rightarrow> int option" where
  "scope_version tb i = map_option srow_version (find_scope tb i)"

definition scope_put :: "(string \<Rightarrow> string) \<Rightarrow> scope_tables \<Rightarrow> string \<Rightarrow> int option \<Rightarrow> scope_mutation \<Rightarrow> scope_error + scope_tables" where
  "scope_put sha tb i x mu = (case x of
     None \<Rightarrow> Inl ScopeNotFound
   | Some e \<Rightarrow> map_sum id snd (app_update sha tb tb i (mu\<lparr>mu_expected := e\<rparr>)))"

lemma scope_putD:
  assumes "scope_inv tb" "scope_put sha tb i x mu = Inr tb'"
  shows "scope_inv tb'" "scope_version tb i = x"
    "scope_version tb' j = (if j = i then Some (next_version x) else scope_version tb j)"
proof -
  obtain e c where e: "x = Some e" "app_update sha tb tb i (mu\<lparr>mu_expected := e\<rparr>) = Inr (c, tb')"
    using assms(2) by (auto simp: scope_put_def res_simps split: option.splits)
  show "scope_inv tb'" using app_update_inv [OF assms(1) e(2)] .
  obtain r where "find_scope tb i = Some r" "srow_version r = mu_expected (mu\<lparr>mu_expected := e\<rparr>)"
      "0 < wrap64 (mu_expected (mu\<lparr>mu_expected := e\<rparr>) + 1)" "tb' = updated_tables sha tb i (mu\<lparr>mu_expected := e\<rparr>)"
    using app_updateD [OF assms(1) e(2)] by metis
  then have r: "find_scope tb i = Some r" "srow_version r = e" "0 < wrap64 (e + 1)"
      "tb' = updated_tables sha tb i (mu\<lparr>mu_expected := e\<rparr>)" by simp_all
  have "in_int64 e" using assms(1) find_scope_SomeD [OF r(1)] r(2) by (auto simp: scope_inv_def)
  then have w: "wrap64 (e + 1) = e + 1" using r(3) by (auto simp: wrap64_succ)
  show "scope_version tb i = x" using r e by (simp add: scope_version_def)
  show "scope_version tb' j = (if j = i then Some (next_version x) else scope_version tb j)"
    using r(1) w by (simp add: r(4) e(1) scope_version_def updated_row updated_find_other update_scope_row_def next_version_def version_number_def)
qed

interpretation su: compare_and_set scope_inv scope_version "scope_put sha" for sha
  by unfold_locales (fact scope_putD(1), fact scope_putD(2), fact scope_putD(3))

text \<open>Of all updates of a Scope that were prepared on the same version, in any order of the transactions and
  between updates of other Scopes, at most one succeeds, and the version counts the successful updates.\<close>

theorem scope_update_single_winner:
  "wins (\<lambda>w. fst w = i \<and> fst (snd w) = Some v) ws (snd (run_puts (scope_put sha) (reached dia sha cmds) ws)) \<le> 1
   \<and> version_number (scope_version (fst (run_puts (scope_put sha) (reached dia sha cmds) ws)) i)
       = version_number (scope_version (reached dia sha cmds) i)
         + int (wins (\<lambda>w. fst w = i) ws (snd (run_puts (scope_put sha) (reached dia sha cmds) ws)))"
  using su.single_winner [OF reached_inv] su.version_counts [OF reached_inv] by blast

section \<open>Resolution\<close>

text \<open>The Scope a request without an explicit identifier stands for: that of the first key that is bound when it
  is asked for, else the default when no key is.\<close>

fun first_bound :: "(nat \<Rightarrow> scope_tables) \<Rightarrow> nat \<Rightarrow> binding_key list \<Rightarrow> string option" where
  "first_bound clock n [] = map_of (st_settings (clock n)) default_setting"
| "first_bound clock n (key # keys) = (case map_of (st_bindings (clock n)) key of
     None \<Rightarrow> first_bound clock (n + 2) keys
   | Some i \<Rightarrow> Some i)"

definition advancing :: "dialect \<Rightarrow> (string \<Rightarrow> string) \<Rightarrow> (nat \<Rightarrow> scope_tables) \<Rightarrow> bool" where
  "advancing dia sha clock \<longleftrightarrow> (\<exists>cmds. clock 0 = reached dia sha cmds) \<and> (\<forall>n. \<exists>cmds. clock (Suc n) = run_commands dia sha cmds (clock n))"

lemma advancing_inv: "advancing dia sha clock \<Longrightarrow> scope_inv (clock n)"
proof (induction n)
  case 0
  then show ?case using reached_inv by (auto simp: advancing_def)
next
  case (Suc n)
  then show ?case using run_commands_inv by (metis advancing_def)
qed

lemma advancing_keeps: "advancing dia sha clock \<Longrightarrow> keeps (clock n) (clock (Suc n))"
  using advancing_inv run_commands_keeps by (metis advancing_def)

lemma store_get_ok: "get_scope tb i = Inr d \<Longrightarrow> store_get tb i = Inr (Some d)"
  by (simp add: store_get_def)

lemma bound_key:
  assumes "scope_inv tb" "map_of (st_bindings tb) key = Some i"
  shows "find_binding tb key = Inr (Some \<lparr>bi_key = key, bi_scope = i\<rparr>)" "scope_exists tb i"
proof -
  have "(key, i) \<in> set (st_bindings tb)" using assms(2) by (rule map_of_SomeD)
  then have k: "scope_exists tb i" "constructed_key key" using assms(1) by (auto simp: scope_inv_def)
  then obtain r where r: "find_scope tb i = Some r" using find_scope_exists by blast
  then have "valid_id i" using scope_inv_loads [OF assms(1) r] load_scopeD(8) find_scope_SomeD [OF r] by blast
  then have "validate_id i = Inr ()" by (simp add: validate_id_iff)
  then show "find_binding tb key = Inr (Some \<lparr>bi_key = key, bi_scope = i\<rparr>)" "scope_exists tb i"
    using k assms(2) by (auto simp: find_binding_def new_binding_def constructed_key_def)
qed

lemma resolve_keys_exact:
  assumes "advancing dia sha clock"
  shows "case first_bound clock n keys of
      None \<Rightarrow> resolve_keys clock n keys = Inl BindingNotFound
    | Some i \<Rightarrow> \<exists>d. resolve_keys clock n keys = Inr d \<and> de_id d = i"
proof (induction keys arbitrary: n)
  case Nil
  show ?case
  proof (cases "map_of (st_settings (clock n)) default_setting")
    case (Some i)
    then have "scope_exists (clock n) i" using advancing_inv [OF assms, of n] map_of_SomeD [OF Some] by (auto simp: scope_inv_def)
    then obtain d where "get_scope (clock n) i = Inr d" "de_id d = i"
      using stored_scope_loads [OF advancing_inv [OF assms]] by blast
    then show ?thesis using Some by (simp add: store_default_def default_scope_def found_or_def)
  qed (simp add: store_default_def default_scope_def found_or_def)
next
  case (Cons key keys)
  show ?case
  proof (cases "map_of (st_bindings (clock n)) key")
    case None
    then have "find_binding (clock n) key = Inr None" by (simp add: find_binding_def)
    then have "resolve_keys clock n (key # keys) = resolve_keys clock (n + 2) keys" by simp
    moreover have "first_bound clock n (key # keys) = first_bound clock (n + 2) keys" using None by simp
    ultimately show ?thesis using Cons.IH [of "n + 2"] by (simp only:)
  next
    case (Some i)
    note b = bound_key [OF advancing_inv [OF assms] Some]
    have "scope_exists (clock (Suc n)) i" using b(2) advancing_keeps [OF assms, of n] by (simp add: keeps_def)
    then obtain d where "get_scope (clock (Suc n)) i = Inr d" "de_id d = i"
      using stored_scope_loads [OF advancing_inv [OF assms]] by blast
    then show ?thesis using Some b(1) by (simp add: store_get_ok found_or_def)
  qed
qed

text \<open>C38: Resolving a request without an explicit identifier, while other commands commit between its reads, returns
  the Scope of the first key that was bound when it was read, and otherwise the default Scope; it never fails
  because a bound Scope disappeared, and without a binding and a default it reports that none is available.\<close>

theorem resolution_exact:
  assumes "advancing dia sha clock"
  shows "case first_bound clock 0 keys of
      None \<Rightarrow> app_resolve clock None keys = Inl BindingNotFound
    | Some i \<Rightarrow> \<exists>d. app_resolve clock None keys = Inr d \<and> de_id d = i"
proof -
  have "app_resolve clock None keys = resolve_keys clock 0 keys" by (simp add: app_resolve_def)
  then show ?thesis using resolve_keys_exact [OF assms, of 0 keys] by (simp only:)
qed

end
