(* ===== verification/Scope_Example.thy ===== *)
theory Scope_Example
  imports Scope_Operations
begin

text \<open>
  Two Scopes without parents, created by the commands themselves. The guarantees are applied to them, and the
  two differences of the OceanBase profile are shown on them.
\<close>

definition scope_fields :: "string \<Rightarrow> string \<Rightarrow> scope_metadata" where
  "scope_fields title parent = \<lparr>sm_title = title, sm_summary = ''s'', sm_parent = parent, sm_context = [], sm_external = []\<rparr>"

definition draft_of :: "string \<Rightarrow> scope_draft" where
  "draft_of title = scope_metadata.extend (scope_fields title []) (scope_draft.fields title)"

definition move_under :: "string \<Rightarrow> string \<Rightarrow> scope_mutation" where
  "move_under title parent = scope_metadata.extend (scope_fields title parent) (scope_mutation.fields 1)"

definition plain_digest :: "string \<Rightarrow> string" where
  "plain_digest s = s"

definition row_of :: "string \<Rightarrow> string \<Rightarrow> int \<Rightarrow> scope_row" where
  "row_of title parent v = \<lparr>srow_id = title, srow_title = title, srow_summary = ''s'', srow_parent = nullif parent, srow_version = v\<rparr>"

definition descriptor_of :: "string \<Rightarrow> string \<Rightarrow> int \<Rightarrow> descriptor" where
  "descriptor_of title parent v = scope_metadata.extend (scope_fields title parent) (descriptor.fields title v)"

definition request_of :: "string \<Rightarrow> request_row" where
  "request_of title = \<lparr>rq_key = title, rq_digest = draft_json (draft_of title), rq_scope = title\<rparr>"

definition tables_of :: "scope_row list \<Rightarrow> request_row list \<Rightarrow> scope_tables" where
  "tables_of rows requests = \<lparr>st_scopes = rows, st_context = [], st_external = [], st_requests = requests, st_settings = [], st_bindings = []\<rparr>"

definition two_roots :: scope_tables where
  "two_roots = tables_of [row_of ''a'' [] 1, row_of ''b'' [] 1] [request_of ''a'', request_of ''b'']"

lemma graphic_plain_text: "graphic s \<Longrightarrow> s \<noteq> [] \<Longrightarrow> length s \<le> n \<Longrightarrow> required_text f s n = Inr ()"
  by (simp add: required_text_iff plain_text_def graphic_text)

lemma graphic_scope_id: "graphic s \<Longrightarrow> s \<noteq> [] \<Longrightarrow> length s \<le> 256 \<Longrightarrow> validate_id s = Inr ()"
  by (simp add: validate_id_iff valid_id_def graphic_text scope_id_length_def)

lemma short_words: "graphic ''a''" "graphic ''b''" "graphic ''s''"
  by (simp_all add: graphic_def)

lemma short_order: "''a'' \<le> ''b''" "\<not> ''b'' \<le> ''a''"
  by (simp_all add: less_eq_char_def)

lemmas word_simps = short_words [THEN graphic_plain_text] short_words [THEN graphic_scope_id] short_words [THEN graphic_valid]

lemmas example_values = draft_of_def move_under_def scope_fields_def scope_metadata.extend_def scope_draft.fields_def scope_mutation.fields_def
  plain_digest_def

lemma fields_accepted:
  "t \<in> {''a'', ''b''} \<Longrightarrow> p \<in> {[], ''a'', ''b''} \<Longrightarrow> new_metadata t ''s'' p [] [] = Inr (scope_fields t p)"
  by (auto simp: new_metadata_def word_simps canonical_scope_ids_def has_duplicate_external_reference_def scope_fields_def)

lemma draft_accepted_example:
  "t \<in> {''a'', ''b''} \<Longrightarrow> new_scope_draft t ''s'' [] [] [] t = Inr (draft_of t)"
  "t \<in> {''a'', ''b''} \<Longrightarrow> p \<in> {[], ''a'', ''b''} \<Longrightarrow> new_mutation 1 t ''s'' p [] [] = Inr (move_under t p)"
  by (auto simp: new_scope_draft_def new_mutation_def fields_accepted draft_of_def move_under_def word_simps)

lemma digest_example: "t \<in> {''a'', ''b''} \<Longrightarrow> draft_digest plain_digest (draft_of t) = Inr (draft_json (draft_of t))"
  by (auto simp: draft_digest_def word_simps example_values valid_utf8_ascii)

lemma load_example:
  "t \<in> {''a'', ''b''} \<Longrightarrow> p \<in> {[], ''a'', ''b''} \<Longrightarrow> 1 \<le> v \<Longrightarrow> load_scope (tables_of rows qs) (row_of t p v) = Inr (descriptor_of t p v)"
  by (auto simp: load_scope_def load_external_references_def load_context_references_def tables_of_def row_of_def descriptor_of_def
      new_descriptor_def fields_accepted word_simps)

lemma row_fields [simp]: "srow_id (row_of t p v) = t" "srow_version (row_of t p v) = v" "srow_parent (row_of t p v) = nullif p"
  "de_id (descriptor_of t p v) = t" "de_version (descriptor_of t p v) = v" "sm_parent (descriptor_of t p v) = p"
  by (simp_all add: row_of_def descriptor_of_def scope_metadata.extend_def descriptor.fields_def scope_fields_def)

lemma tables_fields [simp]: "st_scopes (tables_of rows qs) = rows" "st_requests (tables_of rows qs) = qs"
  "st_context (tables_of rows qs) = []" "st_external (tables_of rows qs) = []" "st_settings (tables_of rows qs) = []" "st_bindings (tables_of rows qs) = []"
  by (simp_all add: tables_of_def)

lemma list_example:
  "list_scopes (tables_of [] qs) = Inr []"
  "p \<in> {[], ''a'', ''b''} \<Longrightarrow> 1 \<le> v \<Longrightarrow> list_scopes (tables_of [row_of ''a'' p v] qs) = Inr [descriptor_of ''a'' p v]"
  "p \<in> {[], ''a'', ''b''} \<Longrightarrow> q \<in> {[], ''a'', ''b''} \<Longrightarrow> 1 \<le> v \<Longrightarrow> 1 \<le> w \<Longrightarrow>
     list_scopes (tables_of [row_of ''a'' p v, row_of ''b'' q w] qs) = Inr [descriptor_of ''a'' p v, descriptor_of ''b'' q w]"
  using short_order by (simp_all add: list_scopes_def load_example)

lemma draft_fields [simp]: "sm_title (draft_of t) = t" "sm_summary (draft_of t) = ''s''" "sm_parent (draft_of t) = []"
  "sm_context (draft_of t) = []" "sm_external (draft_of t) = []" "sd_key (draft_of t) = t"
  "sm_title (move_under t p) = t" "sm_summary (move_under t p) = ''s''" "sm_parent (move_under t p) = p"
  "sm_context (move_under t p) = []" "sm_external (move_under t p) = []" "mu_expected (move_under t p) = 1"
  by (simp_all add: example_values)

lemmas create_simps = app_create_def store_create_def scope_create_def find_scope_creation_def validate_scope_relationships_def
  walk_ancestors.simps insert_scope_def write_scope_relationships_def insert_request_def get_scope_def find_scope_def scope_exists_def

lemma new_descriptor_example: "t \<in> {''a'', ''b''} \<Longrightarrow> new_descriptor t t ''s'' [] [] [] 1 = Inr (descriptor_of t [] 1)"
  by (auto simp: new_descriptor_def fields_accepted word_simps descriptor_of_def)

lemma written_example:
  "(tables_of rows qs)\<lparr>st_scopes := rows', st_requests := qs'\<rparr> = tables_of rows' qs'"
  "(tables_of rows qs)\<lparr>st_scopes := rows'\<rparr> = tables_of rows' qs" "(tables_of rows qs)\<lparr>st_requests := qs'\<rparr> = tables_of rows qs'"
  "clear_relationships i (tables_of rows qs) = tables_of rows qs"
  "\<lparr>srow_id = t, srow_title = t, srow_summary = ''s'', srow_parent = None, srow_version = 1\<rparr> = row_of t [] 1"
  "\<lparr>rq_key = t, rq_digest = draft_json (draft_of t), rq_scope = t\<rparr> = request_of t"
  "update_scope_row (move_under t p) (row_of t q 1) = row_of t p 2"
  by (simp_all add: tables_of_def row_of_def request_of_def nullif_def clear_relationships_def update_scope_row_def wrap64_def)

lemma nullif_Nil [simp]: "nullif [] = None"
  by (simp add: nullif_def)

lemma request_fields [simp]: "rq_key (request_of t) = t" "rq_scope (request_of t) = t"
  by (simp_all add: request_of_def)

lemmas example_simps = create_simps draft_accepted_example digest_example new_descriptor_example list_example written_example load_example

lemma create_example:
  "app_create plain_digest (tables_of [] []) (tables_of [] []) ''a'' (draft_of ''a'') =
     Inr (descriptor_of ''a'' [] 1, tables_of [row_of ''a'' [] 1] [request_of ''a''])"
  "app_create plain_digest (tables_of [row_of ''a'' [] 1] [request_of ''a'']) (tables_of [row_of ''a'' [] 1] [request_of ''a'']) ''b'' (draft_of ''b'') =
     Inr (descriptor_of ''b'' [] 1, two_roots)"
  by (simp_all add: example_simps two_roots_def)

lemma empty_example: "empty_scopes = tables_of [] []"
  by (simp add: empty_scopes_def tables_of_def)

abbreviation two_creations :: "scope_command list" where
  "two_creations \<equiv> [CreateScope ''a'' (draft_of ''a''), CreateScope ''b'' (draft_of ''b'')]"

lemma two_roots_reached: "reached dia plain_digest two_creations = two_roots"
  by (simp add: empty_example run_commands_def committed_def create_example)

lemma index_example:
  "scope_index [descriptor_of ''a'' p v, descriptor_of ''b'' q w] = [(''a'', descriptor_of ''a'' p v), (''b'', descriptor_of ''b'' q w)]"
  by (simp add: scope_index_def)

lemma update_example:
  "app_update plain_digest two_roots two_roots ''a'' (move_under ''a'' ''b'') =
     Inr (descriptor_of ''a'' ''b'' 2, tables_of [row_of ''a'' ''b'' 2, row_of ''b'' [] 1] [request_of ''a'', request_of ''b''])"
  "app_update plain_digest two_roots (tables_of [row_of ''a'' ''b'' 2, row_of ''b'' [] 1] [request_of ''a'', request_of ''b'']) ''b'' (move_under ''b'' ''a'') =
     Inr (descriptor_of ''b'' ''a'' 2, tables_of [row_of ''a'' ''b'' 2, row_of ''b'' ''a'' 2] [request_of ''a'', request_of ''b''])"
  by (simp_all add: example_simps two_roots_def app_update_def store_update_def scope_update_def update_scope_rows_def matches_version_def
      index_example wrap64_def)

section \<open>Two updates without the lock\<close>


section \<open>Storing a value again\<close>

lemma store_same_value:
  assumes "distinct (map fst rows)" "map_of rows k = Some v" "target"
  shows "store_value SQLite table fk target k v rows = Inr rows"
    "store_value OceanBase table fk target k v rows = Inl (ScopeConstraint table)"
proof -
  have v: "snd p = v" if "p \<in> set rows" "fst p = k" for p
    using that assms(1,2) by (metis map_of_is_SomeI option.inject prod.collapse)
  then have "changed_rows k v rows = 0" by (auto simp: changed_rows_def filter_empty_conv)
  moreover have "matched_rows k rows \<noteq> 0" using assms(2) by (simp add: matched_rows_iff)
  moreover have "map (\<lambda>p. if fst p = k then (k, v) else p) rows = rows"
    using v by (intro map_idI) (auto split: if_splits)
  ultimately show "store_value SQLite table fk target k v rows = Inr rows"
    "store_value OceanBase table fk target k v rows = Inl (ScopeConstraint table)"
    using assms(3) by (simp_all add: store_value_def)
qed

text \<open>Making the default Scope the default again, or binding a key again to its Scope, succeeds and changes
  nothing with SQLite. With OceanBase the update reports no changed row, so the statement that inserts the row
  follows and fails on the primary key.\<close>

theorem same_default_and_binding_again:
  assumes "map_of (st_settings (reached dia sha cmds)) default_setting = Some i"
    and "map_of (st_bindings (reached dia sha cmds)) key = Some j"
  shows "(\<exists>d. store_set_default SQLite (reached dia sha cmds) i = Inr (d, reached dia sha cmds))
     \<and> store_set_default OceanBase (reached dia sha cmds) i = Inl (ScopeConstraint ''pc_scope_settings'')
     \<and> (\<exists>b. store_set_binding SQLite (reached dia sha cmds) key j = Inr (b, reached dia sha cmds))
     \<and> store_set_binding OceanBase (reached dia sha cmds) key j = Inl (ScopeConstraint ''pc_scope_bindings'')"
proof -
  let ?t = "reached dia sha cmds"
  note inv = reached_inv [of dia sha cmds]
  have ex: "scope_exists ?t i" "scope_exists ?t j" "distinct (map fst (st_settings ?t))" "distinct (map fst (st_bindings ?t))"
    using inv map_of_SomeD [OF assms(1)] map_of_SomeD [OF assms(2)] by (auto simp: scope_inv_def)
  obtain d where d: "get_scope ?t i = Inr d" using stored_scope_loads [OF inv ex(1)] by blast
  obtain e where e: "get_scope ?t j = Inr e" using stored_scope_loads [OF inv ex(2)] by blast
  have nb: "new_binding key j = Inr \<lparr>bi_key = key, bi_scope = j\<rparr>"
    using bound_key(1) [OF inv assms(2)] assms(2) by (auto simp: find_binding_def res_simps)
  show ?thesis
    using store_same_value [OF ex(3) assms(1) ex(1)] store_same_value [OF ex(4) assms(2) ex(2)] d e nb
    by (simp add: store_set_default_def store_set_binding_def set_default_def set_binding_def)
qed

section \<open>The guarantees on the example\<close>

definition chat_key :: binding_key where
  "chat_key = \<lparr>bk_integration = ''a'', bk_kind = ''a'', bk_external = ''a''\<rparr>"

definition bound_commands :: "scope_command list" where
  "bound_commands = two_creations @ [SetDefault ''a'', Bind chat_key ''b'']"

lemma bound_reached:
  "reached SQLite plain_digest bound_commands = two_roots\<lparr>st_settings := [(default_setting, ''a'')], st_bindings := [(chat_key, ''b'')]\<rparr>"
proof -
  have "reached SQLite plain_digest bound_commands = run_commands SQLite plain_digest [SetDefault ''a'', Bind chat_key ''b''] two_roots"
    using two_roots_reached [of SQLite] by (simp add: run_commands_def bound_commands_def)
  also have "\<dots> = two_roots\<lparr>st_settings := [(default_setting, ''a'')], st_bindings := [(chat_key, ''b'')]\<rparr>"
    by (simp add: run_commands_def committed_def store_set_default_def store_set_binding_def set_default_def set_binding_def
        store_value_def matched_rows_def get_scope_def find_scope_def scope_exists_def two_roots_def load_example new_binding_def chat_key_def word_simps)
  finally show ?thesis .
qed


theorem scope_update_exact_witness:
  "describes (descriptor_of ''a'' ''b'' 2) ''a'' (move_under ''a'' ''b'') 2"
  using scope_update_exact [of plain_digest SQLite two_creations "''a''" "move_under ''a'' ''b''"] update_example(1)
  by (simp add: two_roots_reached)

theorem resolution_exact_witness:
  "\<exists>d. app_resolve (\<lambda>_. reached SQLite plain_digest bound_commands) None [chat_key] = Inr d \<and> de_id d = ''b''"
proof -
  have "run_commands SQLite plain_digest [] tb = tb" for tb by (simp add: run_commands_def)
  then have "advancing SQLite plain_digest (\<lambda>_. reached SQLite plain_digest bound_commands)"
    unfolding advancing_def by metis
  from resolution_exact [OF this, of "[chat_key]"] show ?thesis by (simp add: bound_reached)
qed

theorem same_default_and_binding_again_witness:
  "store_set_default OceanBase (reached SQLite plain_digest bound_commands) ''a'' = Inl (ScopeConstraint ''pc_scope_settings'')"
  using same_default_and_binding_again [of SQLite plain_digest bound_commands "''a''" chat_key "''b''"]
  by (simp add: bound_reached)

end
