(* ===== verification/Remote_Ingestion.thy ===== *)
theory Remote_Ingestion
  imports Source_Store
begin

text \<open>
  Declarative worker ingestion (\<open>internal/runtime/remote_ingestion.go\<close>) over its transactions
  (\<open>internal/sqlstore/remote_ingestion.go\<close>): registering a Definition, submitting an observation against the
  registered Definition, and persisting one that was admitted before. The operations are those after
  admission by the runtime. \<open>encoded_size\<close> is the length of the encoding of a value, which depends on the bytes of its raw
  JSON members.
\<close>

datatype remote_error =
    RemoteIngest ingest_error
  | RemoteStore store_error
  | DefinitionConflict
  | ObservationConflict

definition remote_store_error :: "store_error \<Rightarrow> remote_error" where
  "remote_store_error e = (case e of StoreIngest x \<Rightarrow> RemoteIngest x | _ \<Rightarrow> RemoteStore e)"

section \<open>Transactions\<close>

definition remote_register ::
  "json_env \<Rightarrow> source_tables \<Rightarrow> definition_manifest \<Rightarrow> remote_error + definition_manifest \<times> source_tables" where
  "remote_register env tb m =
     map_sum (\<lambda>e. case e of StoredPayloadConflict _ _ \<Rightarrow> DefinitionConflict | _ \<Rightarrow> remote_store_error e) id (register_manifest env tb m)"

definition remote_find :: "json_env \<Rightarrow> source_tables \<Rightarrow> definition_identity \<Rightarrow> remote_error + definition_manifest option" where
  "remote_find env tb i =
     and_then (map_sum RemoteIngest id (validate_identity i)) (\<lambda>_.
     map_sum remote_store_error id (find_manifest env tb (di_name i) (di_version i)))"

definition remote_add ::
  "json_env \<Rightarrow> source_repository \<Rightarrow> source_tables \<Rightarrow> string \<Rightarrow> source_observation \<Rightarrow> remote_error + (source_ref \<times> int) \<times> source_tables" where
  "remote_add env repo tb scope_id ob =
     map_sum (\<lambda>e. case e of StoredPayloadConflict _ _ \<Rightarrow> ObservationConflict | _ \<Rightarrow> remote_store_error e)
       (\<lambda>(stored, tb'). ((ss_ref stored, ss_position stored), tb')) (add_accepted env repo tb scope_id ob)"

definition has_native_definition :: "source_repository \<Rightarrow> string \<Rightarrow> bool" where
  "has_native_definition repo name \<longleftrightarrow> gm_get (sr_by_name repo) name \<noteq> None"

section \<open>The application\<close>

definition max_definition_manifest_bytes :: nat where
  "max_definition_manifest_bytes = 64 * 1024"

definition max_source_observation_bytes :: nat where
  "max_source_observation_bytes = 4 * 1024 * 1024"

definition validate_remote_definition ::
  "json_env \<Rightarrow> (json \<Rightarrow> nat) \<Rightarrow> source_repository \<Rightarrow> definition_manifest \<Rightarrow> remote_error + unit" where
  "validate_remote_definition env encoded_size repo m =
     and_then (map_sum RemoteIngest id (validate_definition_manifest (env_digest env) m)) (\<lambda>_.
     and_then (map_sum (\<lambda>_. RemoteIngest (InvalidManifest ''manifest'' ''must be serializable'')) id
       (marshal_definition_manifest (env_digest env) m)) (\<lambda>payload.
     and_then (check (encoded_size payload \<le> max_definition_manifest_bytes) (RemoteIngest (InvalidManifest ''manifest'' ''must not exceed 64 KiB''))) (\<lambda>_.
     and_then (check (\<not> has_native_definition repo (di_name (dm_identity m)))
       (RemoteIngest (InvalidManifest ''name'' ''must not replace an active Source Definition''))) (\<lambda>_.
     map_sum RemoteIngest (\<lambda>_. ()) (compile_admission_manifest (env_digest env) (je_schema env) m)))))"

definition validate_remote_observation_envelope :: "(json \<Rightarrow> nat) \<Rightarrow> source_observation \<Rightarrow> remote_error + unit" where
  "validate_remote_observation_envelope encoded_size ob =
     and_then (map_sum RemoteIngest id (validate_observation ob)) (\<lambda>_.
     and_then (map_sum (\<lambda>_. RemoteIngest (InvalidObservation ''value'' ''must be serializable'')) id (marshal_observation ob)) (\<lambda>payload.
     check (encoded_size payload \<le> max_source_observation_bytes) (RemoteIngest (InvalidObservation ''size'' ''must not exceed 4 MiB''))))"

definition ingest_register ::
  "json_env \<Rightarrow> (json \<Rightarrow> nat) \<Rightarrow> source_repository \<Rightarrow> source_tables \<Rightarrow> definition_manifest \<Rightarrow> remote_error + definition_manifest \<times> source_tables" where
  "ingest_register env encoded_size repo tb m =
     and_then (validate_remote_definition env encoded_size repo m) (\<lambda>_. remote_register env tb m)"

text \<open>The registered Definition of an observation, shared by the two ways to submit: the read is a transaction of its
  own, so \<open>seen\<close> is the database it sees.\<close>

definition registered_definition ::
  "json_env \<Rightarrow> source_repository \<Rightarrow> source_tables \<Rightarrow> source_observation \<Rightarrow> remote_error + definition_manifest" where
  "registered_definition env repo seen ob =
     and_then (map_sum (\<lambda>_. RemoteIngest (InvalidObservation ''definition'' ''must identify a valid Source Definition'')) id
       (new_definition_identity (sr_type (so_ref ob)) (so_version ob))) (\<lambda>i.
     and_then (remote_find env seen i) (\<lambda>found.
     case found of
       None \<Rightarrow> Inl (RemoteIngest DefinitionNotFound)
     | Some m \<Rightarrow> if has_native_definition repo (sr_type (so_ref ob)) then Inl DefinitionConflict else Inr m))"

definition ingest_submit ::
  "json_env \<Rightarrow> (json \<Rightarrow> nat) \<Rightarrow> source_repository \<Rightarrow> source_tables \<Rightarrow> source_tables \<Rightarrow> string \<Rightarrow> source_observation
     \<Rightarrow> remote_error + (source_ref \<times> int) \<times> source_tables" where
  "ingest_submit env encoded_size repo seen tb scope_id ob =
     and_then (validate_remote_observation_envelope encoded_size ob) (\<lambda>_.
     and_then (registered_definition env repo seen ob) (\<lambda>m.
     and_then (map_sum RemoteIngest id (admit_observation (env_digest env) (je_schema env) m ob)) (\<lambda>accepted.
     remote_add env repo tb scope_id accepted)))"

definition submit_accepted ::
  "json_env \<Rightarrow> (json \<Rightarrow> nat) \<Rightarrow> source_repository \<Rightarrow> source_tables \<Rightarrow> source_tables \<Rightarrow> string \<Rightarrow> source_observation
     \<Rightarrow> remote_error + (source_ref \<times> int) \<times> source_tables" where
  "submit_accepted env encoded_size repo seen tb scope_id accepted =
     and_then (map_sum RemoteIngest id (validate_observation accepted)) (\<lambda>_.
     and_then (validate_remote_observation_envelope encoded_size accepted) (\<lambda>_.
     and_then (registered_definition env repo seen accepted) (\<lambda>_.
     remote_add env repo tb scope_id accepted)))"

section \<open>What is accepted\<close>

definition durable :: "source_tables \<Rightarrow> string \<Rightarrow> source_ref \<Rightarrow> bool" where
  "durable tb scope_id ref \<longleftrightarrow> find_source tb scope_id ref \<noteq> None \<and> (scope_id, sr_type ref, sr_id ref) \<in> set (tb_acceptances tb)"

definition rows_kept :: "source_tables \<Rightarrow> source_tables \<Rightarrow> bool" where
  "rows_kept tb tb' \<longleftrightarrow> set (tb_sources tb) \<subseteq> set (tb_sources tb') \<and> set (tb_acceptances tb) \<subseteq> set (tb_acceptances tb')"

lemma find_source_iff: "find_source tb s ref \<noteq> None \<longleftrightarrow> (\<exists>r \<in> set (tb_sources tb). row_scope r = s \<and> row_type r = sr_type ref \<and> row_id r = sr_id ref)"
  unfolding find_source_def by (auto simp: find_None_iff simp del: not_None_eq)

lemma durable_kept: "rows_kept tb tb' \<Longrightarrow> durable tb s ref \<Longrightarrow> durable tb' s ref"
  unfolding durable_def rows_kept_def find_source_iff by blast

lemma acceptance_inv:
  assumes "tables_inv tb" "find_source tb s ref \<noteq> None"
  shows "tables_inv (tb\<lparr>tb_acceptances := (s, sr_type ref, sr_id ref) # tb_acceptances tb\<rparr>)"
  using assms by (auto simp: tables_inv_def journal_rows_def head_of_def find_source_iff row_key_def simp del: not_None_eq)

text \<open>An addition that succeeds leaves the observation stored and marked, removes nothing, and reports its reference.\<close>

lemma add_accepted_durable:
  assumes inv: "tables_inv tb" and add: "add_accepted env repo tb s ob = Inr (st, tb')"
  shows "tables_inv tb' \<and> rows_kept tb tb' \<and> durable tb' s (so_ref ob) \<and> ss_ref st = so_ref ob"
proof -
  note r = add_accepted_requires [OF add]
  obtain payload where p: "encode_source_observation ob = Inr payload" using r(4) by blast
  note eq = add_accepted_eq [OF inv r(1) r(2) r(3) r(2) p, of repo]
  show ?thesis
  proof (cases "find_source tb s (so_ref ob)")
    case (Some row)
    then have old: "row_accepted tb row" "decode_source env repo (locked_head tb s) row = Inr st" "tb' = locked_head tb s"
      using add [unfolded eq] by (auto simp: res_simps split: if_splits)
    have key: "row_key row = (s, sr_type (so_ref ob), sr_id (so_ref ob))"
      using find_source_Some [OF Some] by simp
    then have "ss_ref st = so_ref ob" using decode_position [OF old(2)] by (cases "ss_ref st", cases "so_ref ob") (simp add: row_key_def)
    moreover have "durable tb' s (so_ref ob)"
      using Some old(1,3) key by (simp add: durable_def find_source_def row_accepted_def row_key_def)
    ultimately show ?thesis using old(3) locked_head_inv [OF inv] by (simp add: rows_kept_def)
  next
    case None
    let ?new = "added tb s (so_ref ob) payload"
    have new: "st = \<lparr>ss_ref = so_ref ob, ss_value = AcceptedValue ob, ss_position = head_of tb s + 1\<rparr>"
        "tb' = ?new\<lparr>tb_acceptances := (s, sr_type (so_ref ob), sr_id (so_ref ob)) # tb_acceptances tb\<rparr>"
      using add [unfolded eq] None by (auto split: if_splits)
    have "find_source ?new s (so_ref ob) \<noteq> None" using find_source_added [OF None] by simp
    from acceptance_inv [OF added_inv [OF inv None] this] have "tables_inv tb'" by (simp add: new(2))
    then show ?thesis using find_source_added [OF None, of payload]
      by (auto simp: new rows_kept_def durable_def added_rows find_source_def)
  qed
qed

lemma submit_accepted_durable:
  assumes "tables_inv tb" "submit_accepted env encoded_size repo seen tb s ob = Inr ((ref, position), tb')"
  shows "tables_inv tb' \<and> rows_kept tb tb' \<and> durable tb' s (so_ref ob) \<and> ref = so_ref ob"
proof -
  obtain st where "add_accepted env repo tb s ob = Inr (st, tb')" "ref = ss_ref st"
    using assms(2) by (auto simp: submit_accepted_def remote_add_def res_simps)
  then show ?thesis using add_accepted_durable [OF assms(1)] by blast
qed

end
