(* ===== verification/Connector_Model.thy ===== *)
theory Connector_Model
  imports Remote_Ingestion
begin

text \<open>
  Connectors (\<open>source/connector.go\<close>, \<open>source/connector_lifecycle.go\<close>): bindings, checkpoints, item outcomes,
  completions and results, and the run session through which a Connector submits items from several
  goroutines. Each critical section of the session mutex is one function on the record \<open>session\<close>. Raw JSON is
  the syntax tree of \<open>Json_Model\<close>; an absent value is \<open>None\<close>. A status is a string, as in the code.
\<close>

section \<open>Errors and bindings\<close>

datatype connector_error =
    InvalidConnectorBinding string string
  | InvalidConnector string string
  | InvalidConnectorRun string string
  | SubmissionRejected string
  | ConnectorIngest remote_error
  | ConnectorFailure string
  | ConnectorCancelled
  | CheckpointConflict
  | CheckpointArgument string string
  | CheckpointPayload string
  | CheckpointConstraint

record connector_binding =
  cb_scope :: string
  cb_id :: string
  cb_name :: string
  cb_version :: string

definition connector_identity :: "string \<Rightarrow> string \<Rightarrow> nat \<Rightarrow> connector_error + unit" where
  "connector_identity field v maximum =
     (if \<not> valid_utf8 v then Inl (InvalidConnectorBinding field ''must be valid UTF-8'')
      else if trim_python v = [] then Inl (InvalidConnectorBinding field ''must be a non-empty string'')
      else if trim_python v \<noteq> v then Inl (InvalidConnectorBinding field ''must not contain leading or trailing whitespace'')
      else if rune_count v > maximum then Inl (InvalidConnectorBinding field (too_long_detail maximum))
      else Inr ())"

definition validate_connector_binding :: "connector_binding \<Rightarrow> connector_error + unit" where
  "validate_connector_binding b =
     and_then (connector_identity ''scope_id'' (cb_scope b) max_source_id_length) (\<lambda>_.
     and_then (connector_identity ''binding_id'' (cb_id b) max_source_id_length) (\<lambda>_.
     and_then (connector_identity ''connector_name'' (cb_name b) max_source_type_length) (\<lambda>_.
     connector_identity ''connector_version'' (cb_version b) max_source_type_length)))"

definition new_connector_binding :: "string \<Rightarrow> string \<Rightarrow> string \<Rightarrow> string \<Rightarrow> connector_error + connector_binding" where
  "new_connector_binding scope_id binding_id name version =
     (let b = \<lparr>cb_scope = scope_id, cb_id = binding_id, cb_name = name, cb_version = version\<rparr> in
      and_then (validate_connector_binding b) (\<lambda>_. Inr b))"

definition validate_connector_run_text :: "string \<Rightarrow> string \<Rightarrow> nat \<Rightarrow> connector_error + unit" where
  "validate_connector_run_text field v maximum =
     map_sum (\<lambda>_. InvalidConnectorRun field ''must be a non-empty trimmed valid UTF-8 string'') id (connector_identity field v maximum)"

section \<open>Checkpoints\<close>

record checkpoint =
  ck_found :: bool
  ck_value :: "json option"

definition no_checkpoint :: checkpoint where
  "no_checkpoint = \<lparr>ck_found = False, ck_value = None\<rparr>"

definition immutable_connector_checkpoint :: "json option \<Rightarrow> connector_error + json" where
  "immutable_connector_checkpoint v = (case v of
     None \<Rightarrow> Inl (InvalidConnectorRun ''checkpoint'' ''must be valid JSON'')
   | Some j \<Rightarrow> if json_valid j then Inr j else Inl (InvalidConnectorRun ''checkpoint'' ''must be valid JSON''))"

definition new_connector_checkpoint :: "json option \<Rightarrow> connector_error + checkpoint" where
  "new_connector_checkpoint v =
     and_then (immutable_connector_checkpoint v) (\<lambda>j. Inr \<lparr>ck_found = True, ck_value = Some j\<rparr>)"

definition validate_checkpoint :: "checkpoint \<Rightarrow> connector_error + unit" where
  "validate_checkpoint c =
     (if \<not> ck_found c then check (ck_value c = None) (InvalidConnectorRun ''checkpoint'' ''must not carry a value when absent'')
      else map_sum id (\<lambda>_. ()) (immutable_connector_checkpoint (ck_value c)))"

text \<open>\<open>equalConnectorJSON\<close> and its helpers repeat the comparison of \<open>internal/sqlstore/sources.go\<close> with their own error.\<close>

definition equal_connector_json :: "json \<Rightarrow> json \<Rightarrow> connector_error + bool" where
  "equal_connector_json l r =
     map_sum (\<lambda>_. InvalidConnectorRun ''checkpoint'' ''must be valid JSON'') id (equal_json_values l r)"

definition equal_connector_checkpoints :: "checkpoint \<Rightarrow> checkpoint \<Rightarrow> connector_error + bool" where
  "equal_connector_checkpoints l r =
     and_then (validate_checkpoint l) (\<lambda>_.
     and_then (validate_checkpoint r) (\<lambda>_.
     if ck_found l \<noteq> ck_found r then Inr False
     else case (ck_value l, ck_value r) of
       (Some x, Some y) \<Rightarrow> equal_connector_json x y
     | _ \<Rightarrow> Inr True))"

section \<open>Outcomes, completions, results\<close>

definition run_complete :: string where "run_complete = ''complete''"
definition run_incomplete :: string where "run_incomplete = ''incomplete''"
definition submission_accepted :: string where "submission_accepted = ''accepted''"
definition submission_rejected :: string where "submission_rejected = ''rejected''"
definition submission_failed :: string where "submission_failed = ''failed''"

lemmas status_defs = run_complete_def run_incomplete_def submission_accepted_def submission_rejected_def submission_failed_def

record item_outcome =
  io_item :: string
  io_definition :: string
  io_status :: string
  io_ref :: "source_ref option"
  io_detail :: "string option"

definition accepted_outcome :: "string \<Rightarrow> string \<Rightarrow> source_ref \<Rightarrow> item_outcome" where
  "accepted_outcome item def ref = \<lparr>io_item = item, io_definition = def, io_status = submission_accepted, io_ref = Some ref, io_detail = None\<rparr>"

definition unsafe_outcome :: "string \<Rightarrow> string \<Rightarrow> string \<Rightarrow> string \<Rightarrow> item_outcome" where
  "unsafe_outcome item def status detail = \<lparr>io_item = item, io_definition = def, io_status = status, io_ref = None, io_detail = Some detail\<rparr>"

definition validate_outcome :: "item_outcome \<Rightarrow> connector_error + unit" where
  "validate_outcome o' =
     and_then (validate_connector_run_text ''item_id'' (io_item o') max_source_id_length) (\<lambda>_.
     and_then (validate_connector_run_text ''definition'' (io_definition o') max_source_type_length) (\<lambda>_.
     if io_status o' = submission_accepted then
       (case (io_ref o', io_detail o') of
          (Some ref, None) \<Rightarrow>
            and_then (map_sum (\<lambda>_. InvalidConnectorRun ''source_ref'' ''must be valid'') (\<lambda>_. ()) (new_source_ref (sr_type ref) (sr_id ref))) (\<lambda>_.
            check (sr_type ref = io_definition o') (InvalidConnectorRun ''source_ref'' ''must match the declared Source Definition''))
        | _ \<Rightarrow> Inl (InvalidConnectorRun ''item'' ''accepted outcomes must contain exactly one Source reference''))
     else if io_status o' = submission_rejected \<or> io_status o' = submission_failed then
       (case (io_ref o', io_detail o') of
          (None, Some detail) \<Rightarrow> validate_connector_run_text ''detail'' detail max_source_id_length
        | _ \<Rightarrow> Inl (InvalidConnectorRun ''item'' ''unsafe outcomes must contain one detail and no Source reference''))
     else Inl (InvalidConnectorRun ''status'' ''must be accepted, rejected, or failed'')))"

definition valid_run_status :: "string \<Rightarrow> bool" where
  "valid_run_status s \<longleftrightarrow> s = run_complete \<or> s = run_incomplete"

record completion =
  co_status :: string
  co_checkpoint :: checkpoint

definition new_completion :: "string \<Rightarrow> json option \<Rightarrow> connector_error + completion" where
  "new_completion status v =
     and_then (check (valid_run_status status) (InvalidConnectorRun ''status'' ''must be complete or incomplete'')) (\<lambda>_.
     and_then (new_connector_checkpoint v) (\<lambda>c. Inr \<lparr>co_status = status, co_checkpoint = c\<rparr>))"

definition validate_completion :: "completion \<Rightarrow> connector_error + unit" where
  "validate_completion c =
     and_then (check (valid_run_status (co_status c)) (InvalidConnectorRun ''status'' ''must be complete or incomplete'')) (\<lambda>_.
     and_then (check (ck_found (co_checkpoint c)) (InvalidConnectorRun ''checkpoint'' ''must contain a JSON value'')) (\<lambda>_.
     validate_checkpoint (co_checkpoint c)))"

record run_result =
  rr_binding :: connector_binding
  rr_status :: string
  rr_previous :: checkpoint
  rr_proposed :: checkpoint
  rr_committed :: checkpoint
  rr_items :: "item_outcome list"

fun validate_items :: "string list \<Rightarrow> item_outcome list \<Rightarrow> connector_error + unit" where
  "validate_items seen [] = Inr ()"
| "validate_items seen (x # xs) =
     and_then (validate_outcome x) (\<lambda>_.
     if io_item x \<in> set seen then Inl (InvalidConnectorRun ''items'' ''must not contain duplicate item identifiers'')
     else validate_items (io_item x # seen) xs)"

definition new_run_result ::
  "connector_binding \<Rightarrow> string \<Rightarrow> checkpoint \<Rightarrow> checkpoint \<Rightarrow> checkpoint \<Rightarrow> item_outcome list \<Rightarrow> connector_error + run_result" where
  "new_run_result b status previous proposed committed items =
     and_then (validate_connector_binding b) (\<lambda>_.
     and_then (check (valid_run_status status) (InvalidConnectorRun ''status'' ''must be complete or incomplete'')) (\<lambda>_.
     and_then (validate_checkpoint previous) (\<lambda>_.
     and_then (validate_checkpoint proposed) (\<lambda>_.
     and_then (validate_checkpoint committed) (\<lambda>_.
     and_then (check (ck_found proposed) (InvalidConnectorRun ''proposed_checkpoint'' ''must contain a JSON value'')) (\<lambda>_.
     and_then (validate_items [] items) (\<lambda>_.
     Inr \<lparr>rr_binding = b, rr_status = status, rr_previous = previous, rr_proposed = proposed, rr_committed = committed, rr_items = items\<rparr>)))))))"

section \<open>Declarations\<close>

fun declared_from :: "string list \<Rightarrow> string list \<Rightarrow> connector_error + string list" where
  "declared_from seen [] = Inr (rev seen)"
| "declared_from seen (v # vs) =
     and_then (validate_connector_run_text ''definition'' v max_source_type_length) (\<lambda>_.
     if v \<in> set seen then Inl (InvalidConnectorRun ''source_definitions'' ''must not contain duplicates'')
     else declared_from (v # seen) vs)"

definition declared_connector_definitions :: "string list \<Rightarrow> connector_error + string list" where
  "declared_connector_definitions values =
     (if values = [] then Inl (InvalidConnectorRun ''source_definitions'' ''must not be empty'') else declared_from [] values)"

record connector =
  cn_name :: string
  cn_version :: string
  cn_definitions :: "string list"

definition validate_connector :: "connector \<Rightarrow> connector_binding \<Rightarrow> connector_error + string list" where
  "validate_connector c b =
     and_then (validate_connector_binding b) (\<lambda>_.
     and_then (check (cn_name c = cb_name b) (InvalidConnector ''name'' ''must match the binding'')) (\<lambda>_.
     and_then (check (cn_version c = cb_version b) (InvalidConnector ''version'' ''must match the binding'')) (\<lambda>_.
     and_then (map_sum (\<lambda>_. InvalidConnector ''source_definitions'' ''must contain unique, non-empty trimmed names'') id
       (declared_connector_definitions (cn_definitions c))) (\<lambda>_.
     Inr (cn_definitions c)))))"

section \<open>The run session\<close>

text \<open>\<open>ses_drained\<close> is true once the channel \<open>drained\<close> is closed; the flag \<open>drainClosed\<close> guards that close and has the
  same value. Sequence numbers count the claims of one run and stay far below the range of \<open>uint64\<close>.\<close>

record session =
  ses_binding :: connector_binding
  ses_checkpoint :: checkpoint
  ses_definitions :: "string list"
  ses_outcomes :: "(nat, item_outcome) gomap"
  ses_items :: "(string, nat) gomap"
  ses_next :: nat
  ses_failure :: "connector_error option"
  ses_closed :: bool
  ses_in_flight :: int
  ses_drained :: bool

definition new_session :: "connector_binding \<Rightarrow> checkpoint \<Rightarrow> string list \<Rightarrow> connector_error + session" where
  "new_session b c definitions =
     and_then (validate_connector_binding b) (\<lambda>_.
     and_then (validate_checkpoint c) (\<lambda>_.
     and_then (declared_connector_definitions definitions) (\<lambda>declared.
     Inr \<lparr>ses_binding = b, ses_checkpoint = c, ses_definitions = declared, ses_outcomes = [], ses_items = [], ses_next = 0,
       ses_failure = None, ses_closed = False, ses_in_flight = 0, ses_drained = False\<rparr>)))"

definition record_failure :: "connector_error \<Rightarrow> session \<Rightarrow> session" where
  "record_failure e s = (if ses_failure s = None then s\<lparr>ses_failure := Some e\<rparr> else s)"

definition record_outcome :: "nat \<Rightarrow> item_outcome \<Rightarrow> session \<Rightarrow> session" where
  "record_outcome n o' s = s\<lparr>ses_outcomes := gm_set n o' (ses_outcomes s)\<rparr>"

definition claim :: "session \<Rightarrow> string \<Rightarrow> string \<Rightarrow> bool \<Rightarrow> connector_error + nat \<times> session" where
  "claim s item def tracks =
     and_then (validate_connector_run_text ''item_id'' item max_source_id_length) (\<lambda>_.
     and_then (check (\<not> ses_closed s) (InvalidConnectorRun ''session'' ''is closed'')) (\<lambda>_.
     and_then (check (gm_get (ses_items s) item = None) (InvalidConnectorRun ''duplicate_item'' ''must not be submitted more than once'')) (\<lambda>_.
     and_then (check (def \<in> set (ses_definitions s)) (InvalidConnectorRun ''definition'' ''was not declared by the Connector'')) (\<lambda>_.
     Inr (ses_next s, s\<lparr>ses_next := Suc (ses_next s), ses_items := gm_set item (ses_next s) (ses_items s),
       ses_in_flight := ses_in_flight s + (if tracks then 1 else 0)\<rparr>)))))"

definition finish_drain :: "session \<Rightarrow> session" where
  "finish_drain s = (if ses_closed s \<and> ses_in_flight s = 0 \<and> \<not> ses_drained s then s\<lparr>ses_drained := True\<rparr> else s)"

definition settle_submission :: "session \<Rightarrow> session" where
  "settle_submission s = finish_drain (s\<lparr>ses_in_flight := ses_in_flight s - 1\<rparr>)"

definition close_session :: "session \<Rightarrow> session" where
  "close_session s = finish_drain (s\<lparr>ses_closed := True\<rparr>)"

definition outcomes :: "session \<Rightarrow> item_outcome list" where
  "outcomes s = values_sorted_by (ses_outcomes s)"

text \<open>What \<open>Submit\<close> does with the answer of the sink: the outcome it records, or the failure.\<close>

definition validate_returned_ref :: "source_ref \<Rightarrow> source_ref \<Rightarrow> string \<Rightarrow> connector_error + unit" where
  "validate_returned_ref actual expected def =
     (case new_source_ref (sr_type actual) (sr_id actual) of
        Inl _ \<Rightarrow> Inl (InvalidConnectorRun ''source_ref'' ''must match the accepted observation'')
      | Inr _ \<Rightarrow> check (sr_type actual = def \<and> actual = expected) (InvalidConnectorRun ''source_ref'' ''must match the accepted observation''))"

definition record_answer :: "nat \<Rightarrow> string \<Rightarrow> string \<Rightarrow> source_observation \<Rightarrow> connector_error + source_ref \<Rightarrow> session \<Rightarrow> session" where
  "record_answer n item def ob answer s = (case answer of
     Inl (SubmissionRejected detail) \<Rightarrow> record_outcome n (unsafe_outcome item def submission_rejected detail) s
   | Inl e \<Rightarrow> record_failure e s
   | Inr ref \<Rightarrow> (case validate_returned_ref ref (so_ref ob) def of
       Inl e \<Rightarrow> record_failure e s
     | Inr _ \<Rightarrow> record_outcome n (accepted_outcome item def ref) s))"

text \<open>The checks of \<open>Submit\<close> between the claim and the sink.\<close>

definition check_submission :: "string \<Rightarrow> source_observation \<Rightarrow> connector_error + unit" where
  "check_submission def ob =
     (case validate_observation ob of
        Inl _ \<Rightarrow> Inl (InvalidConnectorRun ''observation'' ''must be admitted and valid'')
      | Inr _ \<Rightarrow> check (sr_type (so_ref ob) = def) (InvalidConnectorRun ''source_ref'' ''must match the declared Source Definition''))"

section \<open>The sink\<close>

definition is_submission_rejection :: "remote_error \<Rightarrow> bool" where
  "is_submission_rejection e = (case e of
     RemoteIngest (InvalidObservation _ _) \<Rightarrow> True
   | RemoteIngest DefinitionNotFound \<Rightarrow> True
   | RemoteIngest UnacceptedObservation \<Rightarrow> True
   | DefinitionConflict \<Rightarrow> True
   | ObservationConflict \<Rightarrow> True
   | _ \<Rightarrow> False)"

definition sink_submit ::
  "json_env \<Rightarrow> (json \<Rightarrow> nat) \<Rightarrow> source_repository \<Rightarrow> source_tables \<Rightarrow> source_tables \<Rightarrow> connector_binding \<Rightarrow> string \<Rightarrow> source_observation
     \<Rightarrow> (connector_error + source_ref) \<times> source_tables" where
  "sink_submit env encoded_size repo seen tb b def ob =
     (case validate_connector_binding b of Inl e \<Rightarrow> (Inl e, tb)
      | Inr _ \<Rightarrow>
     (case validate_observation ob of Inl e \<Rightarrow> (Inl (ConnectorIngest (RemoteIngest e)), tb)
      | Inr _ \<Rightarrow>
     if sr_type (so_ref ob) \<noteq> def
       then (Inl (InvalidConnectorRun ''source_ref'' ''must match the declared Source Definition''), tb)
     else case submit_accepted env encoded_size repo seen tb (cb_scope b) ob of
        Inl e \<Rightarrow> (Inl (if is_submission_rejection e then SubmissionRejected ''durable Source acceptance rejected'' else ConnectorIngest e), tb)
      | Inr ((ref, _), tb') \<Rightarrow>
         (if ref \<noteq> so_ref ob
            then (Inl (InvalidConnectorRun ''source_ref'' ''durable acceptance returned a different Source reference''), tb')
          else (Inr ref, tb'))))"

end
