(* ===== verification/Connector_Checkpoints.thy ===== *)
theory Connector_Checkpoints
  imports Connector_Model Sql_Dialect
begin

text \<open>
  Connector checkpoints in the relational store (\<open>internal/sqlstore/connector_checkpoints.go\<close>,
  \<open>runtime_connector_checkpoints.go\<close>) and the application that commits them for external workers
  (\<open>internal/runtime/connector_checkpoint_application.go\<close>). A stored payload is \<open>Encoded\<close> when the encoder wrote it;
  other bytes are \<open>Foreign\<close>. \<open>canon\<close> is \<open>jsontext.Value.Canonicalize\<close>: it orders members, rewrites strings and
  rounds number literals that are not integers to \<open>float64\<close>. The operations are those after admission, for a
  context that is not cancelled.
\<close>

section \<open>The repository\<close>

record checkpoint_row =
  kr_scope :: string
  kr_binding :: string
  kr_name :: string
  kr_version :: string
  kr_payload :: blob

definition row_of_binding :: "connector_binding \<Rightarrow> checkpoint_row \<Rightarrow> bool" where
  "row_of_binding b r \<longleftrightarrow> kr_scope r = cb_scope b \<and> kr_binding r = cb_id b"

definition invalid_stored_checkpoint :: connector_error where
  "invalid_stored_checkpoint = CheckpointPayload ''payload does not match the model''"

definition decode_checkpoint :: "(json \<Rightarrow> json) \<Rightarrow> blob \<Rightarrow> connector_error + json" where
  "decode_checkpoint canon payload = (case blob_json payload of
     Some (JObj [(k, v)]) \<Rightarrow> if k = ''value'' \<and> json_valid v then Inr (canon v) else Inl invalid_stored_checkpoint
   | _ \<Rightarrow> Inl invalid_stored_checkpoint)"

definition checkpoint_envelope :: "json \<Rightarrow> blob" where
  "checkpoint_envelope v = Encoded (JObj [(''value'', v)])"

definition encode_checkpoint_argument :: "(json \<Rightarrow> json) \<Rightarrow> string \<Rightarrow> json option \<Rightarrow> connector_error + blob \<times> json" where
  "encode_checkpoint_argument canon field v = (case v of
     None \<Rightarrow> Inl (CheckpointArgument field ''must be valid JSON'')
   | Some j \<Rightarrow> if json_valid j then Inr (checkpoint_envelope (canon j), canon j)
       else Inl (CheckpointArgument field ''must be valid JSON''))"

definition load_row :: "(json \<Rightarrow> json) \<Rightarrow> checkpoint_row list \<Rightarrow> connector_binding \<Rightarrow> connector_error + (json \<times> blob) option" where
  "load_row canon rows b = (case find (row_of_binding b) rows of
     None \<Rightarrow> Inr None
   | Some r \<Rightarrow>
      and_then (decode_checkpoint canon (kr_payload r)) (\<lambda>v.
      and_then (check (kr_name r = cb_name b \<and> kr_version r = cb_version b) CheckpointConflict) (\<lambda>_.
      Inr (Some (v, kr_payload r)))))"

definition checkpoint_load :: "(json \<Rightarrow> json) \<Rightarrow> checkpoint_row list \<Rightarrow> connector_binding \<Rightarrow> connector_error + json option" where
  "checkpoint_load canon rows b =
     and_then (validate_connector_binding b) (\<lambda>_.
     and_then (load_row canon rows b) (\<lambda>found. Inr (map_option fst found)))"

definition replace_payload :: "connector_binding \<Rightarrow> blob \<Rightarrow> blob \<Rightarrow> checkpoint_row list \<Rightarrow> checkpoint_row list" where
  "replace_payload b old new rows = map (\<lambda>r. if row_of_binding b r \<and> kr_payload r = old then r\<lparr>kr_payload := new\<rparr> else r) rows"

definition update_checkpoint :: "dialect \<Rightarrow> checkpoint_row list \<Rightarrow> connector_binding \<Rightarrow> blob \<Rightarrow> blob \<Rightarrow> connector_error + checkpoint_row list" where
  "update_checkpoint dia rows b payload comparison =
     (let hits = filter (\<lambda>r. row_of_binding b r \<and> kr_payload r = comparison) rows in
      if rows_affected dia (length hits) (length (filter (\<lambda>r. kr_payload r \<noteq> payload) hits)) \<noteq> 1 then Inl CheckpointConflict
      else Inr (replace_payload b comparison payload rows))"

definition checkpoint_save ::
  "dialect \<Rightarrow> (json \<Rightarrow> json) \<Rightarrow> checkpoint_row list \<Rightarrow> connector_binding \<Rightarrow> json option \<Rightarrow> json option \<Rightarrow> bool
     \<Rightarrow> connector_error + checkpoint_row list" where
  "checkpoint_save dia canon rows b next expected expected_found =
     and_then (validate_connector_binding b) (\<lambda>_.
     and_then (encode_checkpoint_argument canon ''checkpoint'' next) (\<lambda>(payload, _).
     if \<not> expected_found then
       (if list_ex (row_of_binding b) rows then
          and_then (load_row canon rows b) (\<lambda>found. case found of Some _ \<Rightarrow> Inl CheckpointConflict | None \<Rightarrow> Inl CheckpointConstraint)
        else Inr (rows @ [\<lparr>kr_scope = cb_scope b, kr_binding = cb_id b, kr_name = cb_name b, kr_version = cb_version b, kr_payload = payload\<rparr>]))
     else
       and_then (encode_checkpoint_argument canon ''expected'' expected) (\<lambda>(expected_payload, expected_value).
       and_then (load_row canon rows b) (\<lambda>found.
       case found of
         None \<Rightarrow> Inl CheckpointConflict
       | Some (actual, actual_payload) \<Rightarrow>
          if actual \<noteq> expected_value then Inl CheckpointConflict
          else update_checkpoint dia rows b payload (if actual_payload \<noteq> expected_payload then actual_payload else expected_payload)))))"

section \<open>Transactions\<close>

definition store_load :: "(json \<Rightarrow> json) \<Rightarrow> checkpoint_row list \<Rightarrow> connector_binding \<Rightarrow> connector_error + checkpoint" where
  "store_load canon rows b =
     and_then (validate_connector_binding b) (\<lambda>_.
     and_then (checkpoint_load canon rows b) (\<lambda>found.
     case found of None \<Rightarrow> Inr no_checkpoint | Some v \<Rightarrow> new_connector_checkpoint (Some v)))"

definition store_save ::
  "dialect \<Rightarrow> (json \<Rightarrow> json) \<Rightarrow> checkpoint_row list \<Rightarrow> connector_binding \<Rightarrow> checkpoint \<Rightarrow> checkpoint \<Rightarrow> connector_error + checkpoint_row list" where
  "store_save dia canon rows b next expected =
     and_then (validate_connector_binding b) (\<lambda>_.
     and_then (validate_checkpoint next) (\<lambda>_.
     and_then (check (ck_found next) (CheckpointArgument ''checkpoint'' ''must contain a JSON value'')) (\<lambda>_.
     and_then (validate_checkpoint expected) (\<lambda>_.
     checkpoint_save dia canon rows b (ck_value next) (ck_value expected) (ck_found expected)))))"

section \<open>The application\<close>

definition checkpoint_get :: "(json \<Rightarrow> json) \<Rightarrow> checkpoint_row list \<Rightarrow> connector_binding \<Rightarrow> connector_error + checkpoint" where
  "checkpoint_get canon rows b =
     and_then (validate_connector_binding b) (\<lambda>_. store_load canon rows b)"

definition comparable_checkpoint :: "checkpoint \<Rightarrow> connector_error + checkpoint" where
  "comparable_checkpoint actual = (if ck_found actual then Inr actual else new_connector_checkpoint (Some JNull))"

text \<open>\<open>Commit\<close> loads in one transaction and saves in another: \<open>seen\<close> are the rows of the first.\<close>

definition checkpoint_commit ::
  "dialect \<Rightarrow> (json \<Rightarrow> json) \<Rightarrow> checkpoint_row list \<Rightarrow> checkpoint_row list \<Rightarrow> connector_binding \<Rightarrow> json option \<Rightarrow> json option
     \<Rightarrow> connector_error + checkpoint \<times> checkpoint_row list" where
  "checkpoint_commit dia canon seen rows b next expected =
     and_then (validate_connector_binding b) (\<lambda>_.
     and_then (new_connector_checkpoint next) (\<lambda>next_checkpoint.
     and_then (new_connector_checkpoint expected) (\<lambda>comparison.
     and_then (store_load canon seen b) (\<lambda>actual.
     and_then (comparable_checkpoint actual) (\<lambda>comparable.
     and_then (equal_connector_checkpoints comparable comparison) (\<lambda>eq.
     if \<not> eq then Inl CheckpointConflict
     else and_then (store_save dia canon rows b next_checkpoint actual) (\<lambda>rows'. Inr (next_checkpoint, rows'))))))))"

section \<open>Rows of a binding\<close>

text \<open>The primary key of the table, and what canonicalization promises: its result is valid JSON and canonical.\<close>

definition checkpoints_inv :: "checkpoint_row list \<Rightarrow> bool" where
  "checkpoints_inv rows \<longleftrightarrow> distinct (map (\<lambda>r. (kr_scope r, kr_binding r)) rows)"

definition canonicalizes :: "(json \<Rightarrow> json) \<Rightarrow> bool" where
  "canonicalizes canon \<longleftrightarrow> (\<forall>v. json_valid v \<longrightarrow> json_valid (canon v) \<and> canon (canon v) = canon v)"

definition same_binding :: "connector_binding \<Rightarrow> connector_binding \<Rightarrow> bool" where
  "same_binding b b' \<longleftrightarrow> cb_scope b = cb_scope b' \<and> cb_id b = cb_id b'"

lemma row_of_binding_key: "row_of_binding b r \<longleftrightarrow> (kr_scope r, kr_binding r) = (cb_scope b, cb_id b)"
  by (simp add: row_of_binding_def)

lemma one_row:
  assumes "checkpoints_inv rows" "find (row_of_binding b) rows = Some r"
  shows "filter (\<lambda>s. row_of_binding b s \<and> kr_payload s = p) rows = (if kr_payload r = p then [r] else [])"
proof -
  have r: "r \<in> set rows" "row_of_binding b r" using assms(2) by (auto simp: find_Some_iff)
  have "distinct rows" using assms(1) by (simp add: checkpoints_inv_def distinct_map)
  moreover have "row_of_binding b s \<longleftrightarrow> s = r" if "s \<in> set rows" for s
    using that r assms(1) unfolding checkpoints_inv_def distinct_map inj_on_def row_of_binding_key by metis
  ultimately show ?thesis using r(1) by (induction rows) (auto simp: filter_empty_conv)
qed

lemma load_rowD:
  assumes "load_row canon rows b = Inr (Some (v, p))"
  shows "\<exists>r. find (row_of_binding b) rows = Some r \<and> decode_checkpoint canon (kr_payload r) = Inr v \<and> p = kr_payload r
     \<and> kr_name r = cb_name b \<and> kr_version r = cb_version b"
proof (cases "find (row_of_binding b) rows")
  case (Some r)
  then show ?thesis using assms by (cases "decode_checkpoint canon (kr_payload r)") (auto simp: load_row_def res_simps)
qed (use assms in \<open>simp add: load_row_def\<close>)

lemma replace_payload_keys:
  "map (\<lambda>r. (kr_scope r, kr_binding r)) (replace_payload b old new rows) = map (\<lambda>r. (kr_scope r, kr_binding r)) rows"
  by (simp add: replace_payload_def)

lemma find_replaced:
  assumes "find (row_of_binding b) rows = Some r" "kr_payload r = old"
  shows "find (row_of_binding b) (replace_payload b old new rows) = Some (r\<lparr>kr_payload := new\<rparr>)"
  using assms by (induction rows) (auto simp: replace_payload_def row_of_binding_def split: if_splits)

lemma find_replaced_other:
  assumes "\<not> same_binding b b'"
  shows "find (row_of_binding b') (replace_payload b old new rows) = find (row_of_binding b') rows"
  using assms by (induction rows) (auto simp: replace_payload_def row_of_binding_def same_binding_def)

text \<open>A successful save, in the two cases of what it expected.\<close>

lemma checkpoint_saveD:
  assumes inv: "checkpoints_inv rows" and save: "checkpoint_save dia canon rows b next expected expected_found = Inr rows'"
  obtains (created) v where "next = Some v" "json_valid v" "\<not> expected_found" "find (row_of_binding b) rows = None"
      "rows' = rows @ [\<lparr>kr_scope = cb_scope b, kr_binding = cb_id b, kr_name = cb_name b, kr_version = cb_version b, kr_payload = checkpoint_envelope (canon v)\<rparr>]"
    | (replaced) v e r where "next = Some v" "json_valid v" "expected_found" "expected = Some e" "json_valid e"
      "find (row_of_binding b) rows = Some r" "decode_checkpoint canon (kr_payload r) = Inr (canon e)"
      "kr_name r = cb_name b" "kr_version r = cb_version b"
      "rows' = replace_payload b (kr_payload r) (checkpoint_envelope (canon v)) rows"
      "dia = OceanBase \<longrightarrow> kr_payload r \<noteq> checkpoint_envelope (canon v)"
proof -
  obtain v where v: "next = Some v" "json_valid v"
    using save by (auto simp: checkpoint_save_def encode_checkpoint_argument_def res_simps split: option.splits if_splits)
  show thesis
  proof (cases expected_found)
    case False
    then have "\<not> list_ex (row_of_binding b) rows \<and> rows' = rows @ [\<lparr>kr_scope = cb_scope b, kr_binding = cb_id b, kr_name = cb_name b, kr_version = cb_version b, kr_payload = checkpoint_envelope (canon v)\<rparr>]"
      using save v by (auto simp: checkpoint_save_def encode_checkpoint_argument_def res_simps split: if_splits option.splits)
    then show thesis using created [OF v False] by (auto simp: find_None_iff list_ex_iff)
  next
    case True
    obtain e where e: "expected = Some e" "json_valid e"
      using save v True by (auto simp: checkpoint_save_def encode_checkpoint_argument_def res_simps split: if_splits option.splits)
    have args: "encode_checkpoint_argument canon ''checkpoint'' next = Inr (checkpoint_envelope (canon v), canon v)"
        "encode_checkpoint_argument canon ''expected'' expected = Inr (checkpoint_envelope (canon e), canon e)"
      using v e by (simp_all add: encode_checkpoint_argument_def)
    obtain u where u: "validate_connector_binding b = Inr u" using save by (auto simp: checkpoint_save_def res_simps)
    obtain found where found: "load_row canon rows b = Inr found"
      using save True by (auto simp: checkpoint_save_def args u res_simps)
    then obtain p where p: "found = Some (canon e, p)" "update_checkpoint dia rows b (checkpoint_envelope (canon v)) p = Inr rows'"
      using save True by (auto simp: checkpoint_save_def args u split: option.splits if_splits)
    obtain r where r: "find (row_of_binding b) rows = Some r" "decode_checkpoint canon (kr_payload r) = Inr (canon e)" "p = kr_payload r"
        "kr_name r = cb_name b" "kr_version r = cb_version b"
      using load_rowD [of canon rows b "canon e" p] found p(1) by blast
    have hits: "filter (\<lambda>s. row_of_binding b s \<and> kr_payload s = kr_payload r) rows = [r]"
      using one_row [OF inv r(1), of "kr_payload r"] by simp
    have "rows' = replace_payload b (kr_payload r) (checkpoint_envelope (canon v)) rows" "dia = OceanBase \<longrightarrow> kr_payload r \<noteq> checkpoint_envelope (canon v)"
      using p(2) unfolding r(3) update_checkpoint_def Let_def hits by (cases dia; simp split: if_splits)+
    then show thesis using replaced [OF v True e r(1)] r by simp
  qed
qed

section \<open>Committing\<close>

lemma decode_envelope: "canonicalizes canon \<Longrightarrow> json_valid v \<Longrightarrow> decode_checkpoint canon (checkpoint_envelope (canon v)) = Inr (canon v)"
  by (simp add: decode_checkpoint_def checkpoint_envelope_def canonicalizes_def)

lemma decoded_valid:
  "canonicalizes canon \<Longrightarrow> decode_checkpoint canon p = Inr v \<Longrightarrow> json_valid v \<and> canon v = v"
  by (auto simp: decode_checkpoint_def canonicalizes_def split: option.splits json.splits list.splits if_splits)

text \<open>Reading a checkpoint in terms of the row of its binding.\<close>

lemma checkpoint_get_eq:
  assumes "validate_connector_binding b = Inr ()" "canonicalizes canon"
  shows "checkpoint_get canon rows b = (case find (row_of_binding b) rows of
      None \<Rightarrow> Inr no_checkpoint
    | Some r \<Rightarrow> and_then (decode_checkpoint canon (kr_payload r)) (\<lambda>v.
        if kr_name r = cb_name b \<and> kr_version r = cb_version b then Inr \<lparr>ck_found = True, ck_value = Some v\<rparr> else Inl CheckpointConflict))"
proof (cases "find (row_of_binding b) rows")
  case (Some r)
  then show ?thesis using assms decoded_valid [OF assms(2), of "kr_payload r"]
    by (cases "decode_checkpoint canon (kr_payload r)")
      (auto simp: checkpoint_get_def store_load_def checkpoint_load_def load_row_def check_def new_connector_checkpoint_def immutable_connector_checkpoint_def)
qed (use assms in \<open>simp add: checkpoint_get_def store_load_def checkpoint_load_def load_row_def\<close>)

lemma checkpoint_get_canonical:
  assumes "validate_connector_binding b = Inr ()" "canonicalizes canon" "checkpoint_get canon rows b = Inr c" "ck_value c = Some x"
  shows "canon x = x"
proof (cases "find (row_of_binding b) rows")
  case (Some r)
  obtain v where v: "decode_checkpoint canon (kr_payload r) = Inr v"
    using assms(3) Some unfolding checkpoint_get_eq [OF assms(1,2)] by (auto simp: and_then_eq_Inr)
  then have "x = v" using assms(3,4) Some unfolding checkpoint_get_eq [OF assms(1,2)] by (auto split: if_splits)
  then show ?thesis using decoded_valid [OF assms(2) v] by simp
qed (use assms(3,4) in \<open>auto simp: checkpoint_get_eq [OF assms(1,2)] no_checkpoint_def\<close>)

lemma commitD:
  assumes "checkpoint_commit dia canon seen rows b next expected = Inr (c, rows')"
  obtains v e actual where "next = Some v" "json_valid v" "expected = Some e" "json_valid e" "c = \<lparr>ck_found = True, ck_value = Some v\<rparr>"
    "validate_connector_binding b = Inr ()" "checkpoint_get canon seen b = Inr actual" "validate_checkpoint actual = Inr ()"
    "equal_json_values (case ck_value actual of None \<Rightarrow> JNull | Some x \<Rightarrow> x) e = Inr True"
    "checkpoint_save dia canon rows b next (ck_value actual) (ck_found actual) = Inr rows'"
proof -
  obtain actual comparable comparison where c: "validate_connector_binding b = Inr ()" "new_connector_checkpoint next = Inr c"
      "new_connector_checkpoint expected = Inr comparison" "store_load canon seen b = Inr actual"
      "comparable_checkpoint actual = Inr comparable"
      "equal_connector_checkpoints comparable comparison = Inr True" "store_save dia canon rows b c actual = Inr rows'"
    using assms by (auto simp: checkpoint_commit_def res_simps split: if_splits)
  obtain v where v: "next = Some v" "json_valid v" "c = \<lparr>ck_found = True, ck_value = Some v\<rparr>"
    using c(2) by (auto simp: new_connector_checkpoint_def immutable_connector_checkpoint_def res_simps split: option.splits if_splits)
  obtain e where e: "expected = Some e" "json_valid e" "comparison = \<lparr>ck_found = True, ck_value = Some e\<rparr>"
    using c(3) by (auto simp: new_connector_checkpoint_def immutable_connector_checkpoint_def res_simps split: option.splits if_splits)
  have valid: "validate_checkpoint actual = Inr ()" using c(7) by (auto simp: store_save_def res_simps)
  then have shape: "ck_found actual \<longleftrightarrow> ck_value actual \<noteq> None"
    by (auto simp: validate_checkpoint_def immutable_connector_checkpoint_def res_simps split: if_splits option.splits)
  have "equal_json_values (case ck_value actual of None \<Rightarrow> JNull | Some x \<Rightarrow> x) e = Inr True"
    using c(5,6) e(3) shape
    by (auto simp: comparable_checkpoint_def equal_connector_checkpoints_def equal_connector_json_def new_connector_checkpoint_def immutable_connector_checkpoint_def
        res_simps split: if_splits option.splits)
  moreover have "checkpoint_get canon seen b = Inr actual" using c(1,4) by (simp add: checkpoint_get_def)
  moreover have "checkpoint_save dia canon rows b next (ck_value actual) (ck_found actual) = Inr rows'"
    using c(7) v by (auto simp: store_save_def res_simps)
  ultimately show thesis using that v e c(1) valid by blast
qed

lemma commit_facts:
  assumes "checkpoints_inv rows" "canonicalizes canon" "checkpoint_commit dia canon seen rows b (Some v) (Some e) = Inr (c, rows')"
  shows "checkpoints_inv rows' \<and> checkpoint_get canon rows' b = Inr \<lparr>ck_found = True, ck_value = Some (canon v)\<rparr>
     \<and> (\<forall>b'. validate_connector_binding b' = Inr () \<and> \<not> same_binding b b' \<longrightarrow> checkpoint_get canon rows' b' = checkpoint_get canon rows b')
     \<and> (\<exists>actual. checkpoint_get canon seen b = Inr actual \<and> checkpoint_get canon rows b = Inr actual
          \<and> json_meaning (case ck_value actual of None \<Rightarrow> JNull | Some x \<Rightarrow> x) = json_meaning e)"
proof (rule commitD [OF assms(3)])
  fix v' e' actual
  assume n: "Some v = Some v'" "json_valid v'" and ex: "Some e = Some e'" "json_valid e'" and b: "validate_connector_binding b = Inr ()"
    and seen: "checkpoint_get canon seen b = Inr actual" and valid: "validate_checkpoint actual = Inr ()"
    and eq: "equal_json_values (case ck_value actual of None \<Rightarrow> JNull | Some x \<Rightarrow> x) e' = Inr True"
    and save: "checkpoint_save dia canon rows b (Some v) (ck_value actual) (ck_found actual) = Inr rows'"
  note get = checkpoint_get_eq [OF _ assms(2)]
  have "json_valid (case ck_value actual of None \<Rightarrow> JNull | Some x \<Rightarrow> x)"
    using valid by (auto simp: validate_checkpoint_def immutable_connector_checkpoint_def res_simps split: option.splits if_splits)
  then have meaning: "json_meaning (case ck_value actual of None \<Rightarrow> JNull | Some x \<Rightarrow> x) = json_meaning e"
    using eq ex equal_json_sound(1) by auto
  have env: "decode_checkpoint canon (checkpoint_envelope (canon v)) = Inr (canon v)"
    using n decode_envelope [OF assms(2)] by simp
  from assms(1) save show ?thesis
  proof (cases rule: checkpoint_saveD)
    case (created w)
    have "actual = no_checkpoint" using created(3) valid by (cases actual) (auto simp: validate_checkpoint_def no_checkpoint_def res_simps)
    moreover have "checkpoints_inv rows'"
      using assms(1) created(4,5) by (auto simp: checkpoints_inv_def find_None_iff row_of_binding_def)
    moreover have "checkpoint_get canon rows' b' = checkpoint_get canon rows b'" if "validate_connector_binding b' = Inr ()" "\<not> same_binding b b'" for b'
      using that created(5) by (auto simp: get find_append row_of_binding_def same_binding_def split: option.splits)
    ultimately show ?thesis using seen meaning created env b by (auto simp: get find_append row_of_binding_def)
  next
    case (replaced w x r)
    have x: "canon x = x" using checkpoint_get_canonical [OF b assms(2) seen] replaced(4) by simp
    have "actual = \<lparr>ck_found = True, ck_value = Some x\<rparr>" using replaced(3,4) by (cases actual) auto
    moreover have "checkpoints_inv rows'" using assms(1) replaced(10) by (simp add: checkpoints_inv_def replace_payload_keys)
    moreover have "checkpoint_get canon rows' b' = checkpoint_get canon rows b'" if "validate_connector_binding b' = Inr ()" "\<not> same_binding b b'" for b'
      using that replaced(10) by (simp add: get find_replaced_other)
    moreover have "checkpoint_get canon rows b = Inr \<lparr>ck_found = True, ck_value = Some x\<rparr>" using replaced x b by (simp add: get)
    ultimately show ?thesis using seen meaning replaced env b find_replaced [OF replaced(6) refl] by (auto simp: get)
  qed
qed

text \<open>C33: A checkpoint commit is a compare-and-set between its two transactions: when it succeeds, the value it
  read still was the stored one when it wrote, that value means what the caller expected (absence reads as
  null), the committed value is stored in canonical form, and no other binding is touched.\<close>

theorem checkpoint_commit_exact:
  assumes "checkpoints_inv rows" "canonicalizes canon" "checkpoint_commit dia canon seen rows b (Some v) (Some e) = Inr (c, rows')"
  shows "checkpoints_inv rows' \<and> checkpoint_get canon rows' b = Inr \<lparr>ck_found = True, ck_value = Some (canon v)\<rparr>
     \<and> (\<forall>b'. validate_connector_binding b' = Inr () \<and> \<not> same_binding b b' \<longrightarrow> checkpoint_get canon rows' b' = checkpoint_get canon rows b')
     \<and> (\<exists>actual. checkpoint_get canon seen b = Inr actual \<and> checkpoint_get canon rows b = Inr actual
          \<and> json_meaning (case ck_value actual of None \<Rightarrow> JNull | Some x \<Rightarrow> x) = json_meaning e)"
  by (rule commit_facts [OF assms])

section \<open>Where the value the caller holds is not enough\<close>

text \<open>The databases differ on a commit that changes nothing: the update of SQLite counts the row, the one of OceanBase
  does not.\<close>

text \<open>A commit that would store the value that is stored succeeds on SQLite and is reported as a conflict on
  OceanBase, whatever the caller expected.\<close>

theorem unchanged_commit_conflicts:
  assumes "checkpoints_inv rows" "checkpoint_commit SQLite canon seen rows b next expected = Inr (c, rows)"
  shows "checkpoint_commit OceanBase canon seen rows b next expected = Inl CheckpointConflict"
proof (rule commitD [OF assms(2)])
  fix v e actual
  assume n: "next = Some v" "json_valid v" and c: "c = \<lparr>ck_found = True, ck_value = Some v\<rparr>"
    and b: "validate_connector_binding b = Inr ()" and seen: "checkpoint_get canon seen b = Inr actual"
    and save: "checkpoint_save SQLite canon rows b next (ck_value actual) (ck_found actual) = Inr rows"
  have ocean: "checkpoint_save OceanBase canon rows b next (ck_value actual) (ck_found actual) = Inl CheckpointConflict"
    using assms(1) save
  proof (cases rule: checkpoint_saveD)
    case (replaced w x r)
    have same: "kr_payload r = checkpoint_envelope (canon v)"
      using find_replaced [OF replaced(6) refl, of "checkpoint_envelope (canon v)"] replaced(1,6,10) n by simp (metis checkpoint_row.select_convs(5) checkpoint_row.surjective checkpoint_row.update_convs(5))
    have l: "load_row canon rows b = Inr (Some (canon x, kr_payload r))" using replaced by (simp add: load_row_def)
    have h: "filter (\<lambda>s. row_of_binding b s \<and> kr_payload s = kr_payload r) rows = [r]" using one_row [OF assms(1) replaced(6), of "kr_payload r"] by simp
    have "update_checkpoint OceanBase rows b (checkpoint_envelope (canon v)) (kr_payload r) = Inl CheckpointConflict"
      using same by (simp add: update_checkpoint_def Let_def h)
    then show ?thesis using replaced(3,4,5) n b by (simp add: checkpoint_save_def encode_checkpoint_argument_def l) metis
  qed simp
  from assms(2) b n c seen ocean show ?thesis
    by (auto simp: checkpoint_commit_def checkpoint_get_def store_save_def res_simps split: if_splits)
qed

text \<open>The value a commit returns is not always the stored one: when canonicalization rounds a number of the value, the
  next commit that expects the returned value conflicts.\<close>

theorem rounded_commit_conflicts:
  assumes "checkpoints_inv rows" "canonicalizes canon" "checkpoint_commit dia canon seen rows b (Some v) (Some e) = Inr (c, rows')"
    and rounds: "equal_json_values (canon v) v = Inr False" and "json_valid n"
  shows "ck_value c = Some v \<and> checkpoint_commit dia canon rows' rows' b (Some n) (ck_value c) = Inl CheckpointConflict"
proof -
  have get: "checkpoint_get canon rows' b = Inr \<lparr>ck_found = True, ck_value = Some (canon v)\<rparr>" using commit_facts [OF assms(1-3)] by blast
  obtain v' where v: "Some v = Some v'" "json_valid v'" "c = \<lparr>ck_found = True, ck_value = Some v'\<rparr>" "validate_connector_binding b = Inr ()"
    using assms(3) by (rule commitD)
  then have "json_valid (canon v)" using assms(2) by (simp add: canonicalizes_def)
  then show ?thesis using v get rounds assms(5)
    by (simp add: checkpoint_commit_def checkpoint_get_def new_connector_checkpoint_def immutable_connector_checkpoint_def comparable_checkpoint_def
        equal_connector_checkpoints_def validate_checkpoint_def equal_connector_json_def)
qed

end
