(* ===== verification/Connector_Run.thy ===== *)
theory Connector_Run
  imports Connector_Checkpoints
begin

text \<open>
  One run of a Connector (\<open>ConnectorLifecycleApplication.Run\<close> in \<open>internal/runtime/connector_lifecycle.go\<close> with
  \<open>Submit\<close>, \<open>Reject\<close>, \<open>Fail\<close> and \<open>Finalize\<close> of \<open>source/connector_lifecycle.go\<close>) as an interleaving step relation. The
  Connector calls the session from any number of goroutines, also after its \<open>Run\<close> returned; every critical
  section of the session mutex, every transaction of the sink and of the checkpoint store is one step. Other
  transactions change the databases in between.
\<close>

section \<open>Calls and the owner\<close>

datatype call_kind = Submitting source_observation | Refusing string string

datatype call_phase = Claimed | Answered "connector_error + source_ref" | Recorded | Settled

record call =
  cl_kind :: call_kind
  cl_item :: string
  cl_definition :: string
  cl_sequence :: nat
  cl_phase :: call_phase

text \<open>The owner runs the Connector, closes the session in \<open>Finalize\<close>, waits for the drain, reads the failure, reads the
  outcomes, and concludes.\<close>

datatype owner =
    Running
  | Returned "connector_error + completion"
  | Closing "connector_error + completion"
  | Drained "connector_error + completion"
  | Checked completion checkpoint
  | Collected completion checkpoint "item_outcome list"
  | Concluded "connector_error + run_result"

record run_state =
  rn_session :: session
  rn_calls :: "call list"
  rn_tables :: source_tables
  rn_rows :: "checkpoint_row list"
  rn_owner :: owner
  rn_saved :: bool

definition unsafe_item :: "item_outcome \<Rightarrow> bool" where
  "unsafe_item x \<longleftrightarrow> io_status x = submission_rejected \<or> io_status x = submission_failed"

text \<open>The end of \<open>Run\<close> on the collected items: whether the checkpoint is saved, and the result.\<close>

definition conclude ::
  "dialect \<Rightarrow> (json \<Rightarrow> json) \<Rightarrow> checkpoint_row list \<Rightarrow> connector_binding \<Rightarrow> checkpoint \<Rightarrow> checkpoint \<Rightarrow> string \<Rightarrow> item_outcome list
     \<Rightarrow> (connector_error + run_result) \<times> checkpoint_row list \<times> bool" where
  "conclude dia canon rows b previous proposed status items =
     (if list_ex unsafe_item items then (new_run_result b run_incomplete previous proposed previous items, rows, False)
      else if status = run_complete then
        (case equal_connector_checkpoints previous proposed of
           Inl e \<Rightarrow> (Inl e, rows, False)
         | Inr True \<Rightarrow> (new_run_result b status previous proposed previous items, rows, False)
         | Inr False \<Rightarrow>
            (case store_save dia canon rows b proposed previous of
               Inl e \<Rightarrow> (Inl e, rows, False)
             | Inr rows' \<Rightarrow> (new_run_result b status previous proposed proposed items, rows', True)))
      else (new_run_result b status previous proposed previous items, rows, False))"

definition check_completion :: "completion \<Rightarrow> connector_error + checkpoint" where
  "check_completion c = and_then (validate_completion c) (\<lambda>_. new_connector_checkpoint (ck_value (co_checkpoint c)))"

section \<open>Steps\<close>

definition with_call :: "nat \<Rightarrow> call_phase \<Rightarrow> session \<Rightarrow> run_state \<Rightarrow> run_state" where
  "with_call k p s st = st\<lparr>rn_session := s, rn_calls := (rn_calls st)[k := (rn_calls st ! k)\<lparr>cl_phase := p\<rparr>]\<rparr>"

definition calling :: "run_state \<Rightarrow> nat \<Rightarrow> call_kind \<Rightarrow> call_phase \<Rightarrow> bool" where
  "calling st k kind p \<longleftrightarrow> k < length (rn_calls st) \<and> cl_kind (rn_calls st ! k) = kind \<and> cl_phase (rn_calls st ! k) = p"

inductive run_step ::
  "json_env \<Rightarrow> (json \<Rightarrow> nat) \<Rightarrow> source_repository \<Rightarrow> dialect \<Rightarrow> (json \<Rightarrow> json) \<Rightarrow> run_state \<Rightarrow> run_state \<Rightarrow> bool"
  for env encoded_size repo dia canon where
  claims:
    "claim (rn_session st) item def tracks = Inr (n, s) \<Longrightarrow> tracks = (case kind of Submitting _ \<Rightarrow> True | Refusing _ _ \<Rightarrow> False)
     \<Longrightarrow> (case kind of Submitting _ \<Rightarrow> True | Refusing status _ \<Rightarrow> status = submission_rejected \<or> status = submission_failed)
     \<Longrightarrow> run_step env encoded_size repo dia canon st
          (st\<lparr>rn_session := s, rn_calls := rn_calls st @ [\<lparr>cl_kind = kind, cl_item = item, cl_definition = def, cl_sequence = n, cl_phase = Claimed\<rparr>]\<rparr>)"
| claim_fails:
    "claim (rn_session st) item def tracks = Inl e
     \<Longrightarrow> run_step env encoded_size repo dia canon st (st\<lparr>rn_session := record_failure e (rn_session st)\<rparr>)"
| submission_invalid:
    "calling st k (Submitting ob) Claimed \<Longrightarrow> check_submission (cl_definition (rn_calls st ! k)) ob = Inl e
     \<Longrightarrow> run_step env encoded_size repo dia canon st (with_call k Recorded (record_failure e (rn_session st)) st)"
| sink_answers:
    "calling st k (Submitting ob) Claimed \<Longrightarrow> check_submission (cl_definition (rn_calls st ! k)) ob = Inr ()
     \<Longrightarrow> sink_submit env encoded_size repo seen (rn_tables st) (ses_binding (rn_session st)) (cl_definition (rn_calls st ! k)) ob = (answer, tb)
     \<Longrightarrow> run_step env encoded_size repo dia canon st ((with_call k (Answered answer) (rn_session st) st)\<lparr>rn_tables := tb\<rparr>)"
| sink_fails:
    "calling st k (Submitting ob) Claimed \<Longrightarrow> (\<nexists>d. e = SubmissionRejected d)
     \<Longrightarrow> run_step env encoded_size repo dia canon st (with_call k (Answered (Inl e)) (rn_session st) st)"
| answer_recorded:
    "calling st k (Submitting ob) (Answered answer)
     \<Longrightarrow> run_step env encoded_size repo dia canon st
          (with_call k Recorded (record_answer (cl_sequence (rn_calls st ! k)) (cl_item (rn_calls st ! k)) (cl_definition (rn_calls st ! k)) ob answer (rn_session st)) st)"
| settles:
    "calling st k (Submitting ob) Recorded
     \<Longrightarrow> run_step env encoded_size repo dia canon st (with_call k Settled (settle_submission (rn_session st)) st)"
| refusal_invalid:
    "calling st k (Refusing status detail) Claimed \<Longrightarrow> validate_connector_run_text ''detail'' detail max_source_id_length = Inl e
     \<Longrightarrow> run_step env encoded_size repo dia canon st (with_call k Settled (record_failure e (rn_session st)) st)"
| refusal_recorded:
    "calling st k (Refusing status detail) Claimed \<Longrightarrow> validate_connector_run_text ''detail'' detail max_source_id_length = Inr ()
     \<Longrightarrow> run_step env encoded_size repo dia canon st
          (with_call k Settled (record_outcome (cl_sequence (rn_calls st ! k))
             (unsafe_outcome (cl_item (rn_calls st ! k)) (cl_definition (rn_calls st ! k)) status detail) (rn_session st)) st)"
| others_add_sources:
    "tables_inv tb \<Longrightarrow> rows_kept (rn_tables st) tb \<Longrightarrow> run_step env encoded_size repo dia canon st (st\<lparr>rn_tables := tb\<rparr>)"
| others_save_checkpoints:
    "run_step env encoded_size repo dia canon st (st\<lparr>rn_rows := rows\<rparr>)"
| returns:
    "rn_owner st = Running \<Longrightarrow> run_step env encoded_size repo dia canon st (st\<lparr>rn_owner := Returned r\<rparr>)"
| closes:
    "rn_owner st = Returned r
     \<Longrightarrow> run_step env encoded_size repo dia canon st (st\<lparr>rn_session := close_session (rn_session st), rn_owner := Closing r\<rparr>)"
| wait_cancelled:
    "rn_owner st = Closing r
     \<Longrightarrow> run_step env encoded_size repo dia canon st (st\<lparr>rn_owner := Concluded (Inl (case r of Inl e \<Rightarrow> e | Inr _ \<Rightarrow> ConnectorCancelled))\<rparr>)"
| wait_ends:
    "rn_owner st = Closing r \<Longrightarrow> ses_drained (rn_session st)
     \<Longrightarrow> run_step env encoded_size repo dia canon st (st\<lparr>rn_owner := Drained r\<rparr>)"
| run_failed:
    "rn_owner st = Drained (Inl e) \<Longrightarrow> run_step env encoded_size repo dia canon st (st\<lparr>rn_owner := Concluded (Inl e)\<rparr>)"
| run_cancelled:
    "rn_owner st = Drained (Inr c) \<Longrightarrow> run_step env encoded_size repo dia canon st (st\<lparr>rn_owner := Concluded (Inl ConnectorCancelled)\<rparr>)"
| submission_failed:
    "rn_owner st = Drained (Inr c) \<Longrightarrow> ses_failure (rn_session st) = Some e
     \<Longrightarrow> run_step env encoded_size repo dia canon st (st\<lparr>rn_owner := Concluded (Inl e)\<rparr>)"
| checks:
    "rn_owner st = Drained (Inr c) \<Longrightarrow> ses_failure (rn_session st) = None
     \<Longrightarrow> run_step env encoded_size repo dia canon st
          (st\<lparr>rn_owner := (case check_completion c of Inl e \<Rightarrow> Concluded (Inl e) | Inr proposed \<Rightarrow> Checked c proposed)\<rparr>)"
| collects:
    "rn_owner st = Checked c proposed
     \<Longrightarrow> run_step env encoded_size repo dia canon st (st\<lparr>rn_owner := Collected c proposed (outcomes (rn_session st))\<rparr>)"
| concludes:
    "rn_owner st = Collected c proposed items
     \<Longrightarrow> conclude dia canon (rn_rows st) (ses_binding (rn_session st)) (ses_checkpoint (rn_session st)) proposed (co_status c) items = (result, rows, saved)
     \<Longrightarrow> run_step env encoded_size repo dia canon st (st\<lparr>rn_owner := Concluded result, rn_rows := rows, rn_saved := saved\<rparr>)"

text \<open>A run starts with the session of a valid binding on the checkpoint it loaded. \<open>resolve\<close> is the Scope resolver of the
  runtime.\<close>

definition run_start :: "(string \<Rightarrow> connector_error + string) \<Rightarrow> (json \<Rightarrow> json) \<Rightarrow> connector \<Rightarrow> connector_binding \<Rightarrow> source_tables \<Rightarrow> checkpoint_row list \<Rightarrow> connector_error + run_state" where
  "run_start resolve canon connector b tb rows =
     and_then (validate_connector_binding b) (\<lambda>_.
     and_then (resolve (cb_scope b)) (\<lambda>_.
     and_then (validate_connector connector b) (\<lambda>definitions.
     and_then (store_load canon rows b) (\<lambda>previous.
     and_then (new_session b previous definitions) (\<lambda>s.
     Inr \<lparr>rn_session = s, rn_calls = [], rn_tables = tb, rn_rows = rows, rn_owner = Running, rn_saved = False\<rparr>)))))"

inductive run_reachable ::
  "json_env \<Rightarrow> (json \<Rightarrow> nat) \<Rightarrow> source_repository \<Rightarrow> dialect \<Rightarrow> (json \<Rightarrow> json) \<Rightarrow> run_state \<Rightarrow> bool"
  for env encoded_size repo dia canon where
  starts: "run_start resolve canon connector b tb rows = Inr st \<Longrightarrow> tables_inv tb \<Longrightarrow> run_reachable env encoded_size repo dia canon st"
| steps: "run_reachable env encoded_size repo dia canon st \<Longrightarrow> run_step env encoded_size repo dia canon st st'
    \<Longrightarrow> run_reachable env encoded_size repo dia canon st'"

section \<open>Invariants\<close>

definition open_call :: "call \<Rightarrow> bool" where
  "open_call c \<longleftrightarrow> (case cl_kind c of Submitting _ \<Rightarrow> cl_phase c \<noteq> Settled | Refusing _ _ \<Rightarrow> False)"

definition open_calls :: "call list \<Rightarrow> nat" where
  "open_calls cs = length (filter open_call cs)"

text \<open>The recorded outcome of a submission: accepted and durable, or rejected.\<close>

definition has_outcome :: "run_state \<Rightarrow> call \<Rightarrow> source_observation \<Rightarrow> bool" where
  "has_outcome st c ob \<longleftrightarrow> (\<exists>x. gm_get (ses_outcomes (rn_session st)) (cl_sequence c) = Some x
     \<and> (unsafe_item x \<or> durable (rn_tables st) (cb_scope (ses_binding (rn_session st))) (so_ref ob)))"

definition call_ok :: "run_state \<Rightarrow> call \<Rightarrow> bool" where
  "call_ok st c \<longleftrightarrow> cl_sequence c < ses_next (rn_session st) \<and>
     (case cl_kind c of
        Refusing _ _ \<Rightarrow> True
      | Submitting ob \<Rightarrow>
         (case cl_phase c of
            Claimed \<Rightarrow> True
          | Answered (Inl _) \<Rightarrow> True
          | Answered (Inr ref) \<Rightarrow> durable (rn_tables st) (cb_scope (ses_binding (rn_session st))) (so_ref ob)
          | _ \<Rightarrow> ses_failure (rn_session st) \<noteq> None \<or> has_outcome st c ob))"

definition session_inv :: "run_state \<Rightarrow> bool" where
  "session_inv st \<longleftrightarrow> tables_inv (rn_tables st) \<and> gm_wf (ses_outcomes (rn_session st))
     \<and> ses_in_flight (rn_session st) = int (open_calls (rn_calls st))
     \<and> (ses_drained (rn_session st) \<longleftrightarrow> ses_closed (rn_session st) \<and> open_calls (rn_calls st) = 0)
     \<and> distinct (map cl_sequence (rn_calls st))
     \<and> (\<forall>c \<in> set (rn_calls st). call_ok st c)"

lemma distinct_sequences:
  assumes "session_inv st" "j < length (rn_calls st)" "k < length (rn_calls st)" "j \<noteq> k"
  shows "cl_sequence (rn_calls st ! j) \<noteq> cl_sequence (rn_calls st ! k)"
proof -
  have "distinct (map cl_sequence (rn_calls st))" using assms(1) by (simp add: session_inv_def)
  then show ?thesis using assms(2-) by (metis distinct_conv_nth length_map nth_map)
qed

lemma rows_kept_refl [simp]: "rows_kept tb tb"
  by (simp add: rows_kept_def)

lemma open_calls_update:
  "k < length cs \<Longrightarrow> int (open_calls (cs[k := c])) = int (open_calls cs) - (if open_call (cs ! k) then 1 else 0) + (if open_call c then 1 else 0)"
proof (induction cs arbitrary: k)
  case (Cons a cs)
  then show ?case
  proof (cases k)
    case (Suc j)
    then show ?thesis using Cons.IH [of j] Cons.prems by (auto simp: open_calls_def split: if_splits)
  qed (simp add: open_calls_def)
qed simp

lemma open_calls_append [simp]: "open_calls (cs @ [c]) = open_calls cs + (if open_call c then 1 else 0)"
  by (simp add: open_calls_def)

text \<open>What later steps do not undo.\<close>

definition later :: "run_state \<Rightarrow> run_state \<Rightarrow> bool" where
  "later st st' \<longleftrightarrow> ses_next (rn_session st) \<le> ses_next (rn_session st') \<and> ses_binding (rn_session st') = ses_binding (rn_session st)
     \<and> (ses_failure (rn_session st) \<noteq> None \<longrightarrow> ses_failure (rn_session st') \<noteq> None) \<and> rows_kept (rn_tables st) (rn_tables st')"

lemma has_outcome_later:
  assumes "later st st'" "has_outcome st c ob"
    and "gm_get (ses_outcomes (rn_session st')) (cl_sequence c) = gm_get (ses_outcomes (rn_session st)) (cl_sequence c)"
  shows "has_outcome st' c ob"
  using assms durable_kept unfolding later_def has_outcome_def by auto

lemma call_ok_later:
  assumes "later st st'" "call_ok st c"
    and "gm_get (ses_outcomes (rn_session st')) (cl_sequence c) = gm_get (ses_outcomes (rn_session st)) (cl_sequence c)"
  shows "call_ok st' c"
proof (cases "cl_kind c")
  case (Submitting ob)
  then show ?thesis using assms has_outcome_later [OF assms(1) _ assms(3), of ob] durable_kept
    unfolding call_ok_def later_def by (auto split: call_phase.splits sum.splits)
qed (use assms in \<open>auto simp: call_ok_def later_def\<close>)

text \<open>A step that moves one call.\<close>

lemma session_inv_call:
  assumes inv: "session_inv st" and k: "k < length (rn_calls st)"
    and "tables_inv (rn_tables st')" "gm_wf (ses_outcomes (rn_session st'))" "later st st'"
    and calls: "rn_calls st' = (rn_calls st)[k := c]" and seq: "cl_sequence c = cl_sequence (rn_calls st ! k)"
    and others: "\<And>n. n \<noteq> cl_sequence c \<Longrightarrow> gm_get (ses_outcomes (rn_session st')) n = gm_get (ses_outcomes (rn_session st)) n"
    and "ses_in_flight (rn_session st') = int (open_calls (rn_calls st'))"
    and "ses_drained (rn_session st') \<longleftrightarrow> ses_closed (rn_session st') \<and> open_calls (rn_calls st') = 0"
    and ok: "call_ok st' c"
  shows "session_inv st'"
proof -
  note i = inv [unfolded session_inv_def]
  have "call_ok st' d" if d: "d \<in> set (rn_calls st')" for d
  proof -
    obtain j where j: "j < length (rn_calls st)" "d = (rn_calls st)[k := c] ! j" using d calls by (auto simp: in_set_conv_nth)
    show ?thesis
    proof (cases "j = k")
      case False
      then have d': "d = rn_calls st ! j" using j by simp
      have "cl_sequence d \<noteq> cl_sequence c"
        using distinct_sequences [OF inv j(1) k False] seq d' by simp
      then show ?thesis using call_ok_later [OF assms(5), of d] others i j(1) d' by auto
    qed (use j ok k in simp)
  qed
  moreover have "map cl_sequence (rn_calls st') = map cl_sequence (rn_calls st)"
    using k seq by (simp add: calls map_update)
       (metis length_map list_update_id nth_map)
  ultimately show ?thesis using i assms(3,4,9,10) unfolding session_inv_def by simp
qed

text \<open>A step that leaves the calls alone.\<close>

lemma session_inv_frame:
  assumes inv: "session_inv st" and "rn_calls st' = rn_calls st" "later st st'" "tables_inv (rn_tables st')"
    and "ses_outcomes (rn_session st') = ses_outcomes (rn_session st)" "ses_in_flight (rn_session st') = ses_in_flight (rn_session st)"
    and "ses_drained (rn_session st') \<longleftrightarrow> ses_closed (rn_session st') \<and> open_calls (rn_calls st') = 0"
  shows "session_inv st'"
  using assms call_ok_later [OF assms(3)] unfolding session_inv_def by simp

lemma call_fields [simp]:
  "rn_calls (with_call k p s st) = (rn_calls st)[k := (rn_calls st ! k)\<lparr>cl_phase := p\<rparr>]" "rn_session (with_call k p s st) = s"
  "rn_tables (with_call k p s st) = rn_tables st" "rn_owner (with_call k p s st) = rn_owner st" "rn_rows (with_call k p s st) = rn_rows st"
  "rn_saved (with_call k p s st) = rn_saved st"
  by (simp_all add: with_call_def)

lemma record_failure_fields [simp]:
  "ses_binding (record_failure e s) = ses_binding s" "ses_outcomes (record_failure e s) = ses_outcomes s" "ses_next (record_failure e s) = ses_next s"
  "ses_closed (record_failure e s) = ses_closed s" "ses_in_flight (record_failure e s) = ses_in_flight s" "ses_drained (record_failure e s) = ses_drained s"
  "ses_failure (record_failure e s) \<noteq> None" "ses_checkpoint (record_failure e s) = ses_checkpoint s"
  by (simp_all add: record_failure_def)

lemma record_outcome_fields [simp]:
  "ses_binding (record_outcome n x s) = ses_binding s" "ses_outcomes (record_outcome n x s) = gm_set n x (ses_outcomes s)"
  "ses_next (record_outcome n x s) = ses_next s" "ses_closed (record_outcome n x s) = ses_closed s" "ses_in_flight (record_outcome n x s) = ses_in_flight s"
  "ses_drained (record_outcome n x s) = ses_drained s" "ses_failure (record_outcome n x s) = ses_failure s" "ses_checkpoint (record_outcome n x s) = ses_checkpoint s"
  by (simp_all add: record_outcome_def)

lemma drain_fields [simp]:
  "ses_binding (finish_drain s) = ses_binding s" "ses_outcomes (finish_drain s) = ses_outcomes s" "ses_next (finish_drain s) = ses_next s"
  "ses_closed (finish_drain s) = ses_closed s" "ses_in_flight (finish_drain s) = ses_in_flight s" "ses_failure (finish_drain s) = ses_failure s"
  "ses_drained (finish_drain s) \<longleftrightarrow> ses_drained s \<or> ses_closed s \<and> ses_in_flight s = 0" "ses_checkpoint (finish_drain s) = ses_checkpoint s"
  by (auto simp: finish_drain_def)

lemma claimD:
  assumes "claim s item def tracks = Inr (n, s')"
  shows "n = ses_next s" "ses_next s' = Suc n" "\<not> ses_closed s" "ses_closed s' = ses_closed s" "ses_outcomes s' = ses_outcomes s"
    "ses_binding s' = ses_binding s" "ses_failure s' = ses_failure s" "ses_drained s' = ses_drained s" "ses_checkpoint s' = ses_checkpoint s"
    "ses_in_flight s' = ses_in_flight s + (if tracks then 1 else 0)"
  using assms by (auto simp: claim_def res_simps)

end
