(* ===== verification/Connector_Safety.thy ===== *)
theory Connector_Safety
  imports Connector_Run
begin

text \<open>
  What every interleaving of a Connector run keeps: the drain signal counts exactly the open submissions, and the
  checkpoint is saved only when every submission of the run is durable.
\<close>

section \<open>The session\<close>

lemma sink_submitD:
  assumes "tables_inv tb" "sink_submit env encoded_size repo seen tb b def ob = (answer, tb')"
  shows "tables_inv tb' \<and> rows_kept tb tb' \<and> (\<forall>ref. answer = Inr ref \<longrightarrow> durable tb' (cb_scope b) (so_ref ob))"
proof (cases "tb' = tb \<and> (\<exists>e. answer = Inl e)")
  case False
  then obtain ref position where "submit_accepted env encoded_size repo seen tb (cb_scope b) ob = Inr ((ref, position), tb')"
    using assms(2) unfolding sink_submit_def by (auto split: sum.splits if_splits prod.splits)
  then show ?thesis using submit_accepted_durable [OF assms(1)] by blast
qed (use assms in auto)

lemma open_call_phase:
  "cl_kind c = Submitting ob \<Longrightarrow> open_call (c\<lparr>cl_phase := p\<rparr>) \<longleftrightarrow> p \<noteq> Settled"
  "cl_kind c = Submitting ob \<Longrightarrow> open_call c \<longleftrightarrow> cl_phase c \<noteq> Settled"
  "cl_kind c = Refusing x y \<Longrightarrow> \<not> open_call (c\<lparr>cl_phase := p\<rparr>)" "cl_kind c = Refusing x y \<Longrightarrow> \<not> open_call c"
  by (simp_all add: open_call_def)

lemma nth_call_ok: "session_inv st \<Longrightarrow> k < length (rn_calls st) \<Longrightarrow> call_ok st (rn_calls st ! k)"
  by (simp add: session_inv_def)

text \<open>A step that moves one call without opening or settling a submission.\<close>

lemma session_inv_moves:
  assumes inv: "session_inv st" and k: "k < length (rn_calls st)"
    and st': "st' = (with_call k p s st)\<lparr>rn_tables := tb\<rparr>" and later: "later st st'"
    and tb: "tables_inv tb" and wf: "gm_wf (ses_outcomes s)"
    and others: "\<And>n. n \<noteq> cl_sequence (rn_calls st ! k) \<Longrightarrow> gm_get (ses_outcomes s) n = gm_get (ses_outcomes (rn_session st)) n"
    and same: "open_call (rn_calls st ! k) = open_call ((rn_calls st ! k)\<lparr>cl_phase := p\<rparr>)"
    and counters: "ses_in_flight s = ses_in_flight (rn_session st)" "ses_drained s = ses_drained (rn_session st)" "ses_closed s = ses_closed (rn_session st)"
    and ok: "call_ok st' ((rn_calls st ! k)\<lparr>cl_phase := p\<rparr>)"
  shows "session_inv st'"
proof -
  have n: "open_calls (rn_calls st') = open_calls (rn_calls st)"
    using open_calls_update [OF k, of "(rn_calls st ! k)\<lparr>cl_phase := p\<rparr>"] same by (simp add: st')
  show ?thesis
  proof (rule session_inv_call [OF inv k, of st' "(rn_calls st ! k)\<lparr>cl_phase := p\<rparr>"])
    show "ses_in_flight (rn_session st') = int (open_calls (rn_calls st'))"
      "ses_drained (rn_session st') \<longleftrightarrow> ses_closed (rn_session st') \<and> open_calls (rn_calls st') = 0"
      using inv counters n by (simp_all add: session_inv_def st')
  qed (use tb wf later others ok in \<open>simp_all add: st'\<close>)
qed

lemma rn_tables_same [simp]: "(st\<lparr>rn_tables := tb\<rparr>)\<lparr>rn_tables := tb'\<rparr> = st\<lparr>rn_tables := tb'\<rparr>" "(with_call k p s st)\<lparr>rn_tables := rn_tables st\<rparr> = with_call k p s st"
  by (simp_all add: with_call_def)

lemma record_answer_fields [simp]:
  "ses_binding (record_answer n item def ob answer s) = ses_binding s" "ses_next (record_answer n item def ob answer s) = ses_next s"
  "ses_closed (record_answer n item def ob answer s) = ses_closed s" "ses_in_flight (record_answer n item def ob answer s) = ses_in_flight s"
  "ses_drained (record_answer n item def ob answer s) = ses_drained s" "ses_checkpoint (record_answer n item def ob answer s) = ses_checkpoint s"
  "ses_failure s \<noteq> None \<Longrightarrow> ses_failure (record_answer n item def ob answer s) \<noteq> None"
  "m \<noteq> n \<Longrightarrow> gm_get (ses_outcomes (record_answer n item def ob answer s)) m = gm_get (ses_outcomes s) m"
  "gm_wf (ses_outcomes s) \<Longrightarrow> gm_wf (ses_outcomes (record_answer n item def ob answer s))"
  by (auto simp: record_answer_def gm_get_set gm_wf_set split: sum.splits connector_error.splits simp del: not_None_eq)

lemma record_answer_outcome:
  assumes "\<And>ref. answer = Inr ref \<Longrightarrow> durable tb scope (so_ref ob)"
  shows "ses_failure (record_answer n item def ob answer s) \<noteq> None
     \<or> (\<exists>x. gm_get (ses_outcomes (record_answer n item def ob answer s)) n = Some x \<and> (unsafe_item x \<or> durable tb scope (so_ref ob)))"
  using assms by (auto simp: record_answer_def gm_get_set unsafe_item_def unsafe_outcome_def split: sum.splits connector_error.splits simp del: not_None_eq)

lemma session_inv_claims:
  assumes inv: "session_inv st" and claim: "claim (rn_session st) item def tracks = Inr (n, s)"
    and tracks: "tracks = (case kind of Submitting _ \<Rightarrow> True | Refusing _ _ \<Rightarrow> False)"
    and st': "st' = st\<lparr>rn_session := s, rn_calls := rn_calls st @ [\<lparr>cl_kind = kind, cl_item = item, cl_definition = def, cl_sequence = n, cl_phase = Claimed\<rparr>]\<rparr>"
  shows "session_inv st' \<and> later st st'"
proof -
  note c = claimD [OF claim]
  let ?c = "\<lparr>cl_kind = kind, cl_item = item, cl_definition = def, cl_sequence = n, cl_phase = Claimed\<rparr>"
  have later: "later st st'" by (simp add: later_def st' c)
  have old: "call_ok st' d" "cl_sequence d < n" if "d \<in> set (rn_calls st)" for d
    using that inv call_ok_later [OF later, of d] by (auto simp: session_inv_def call_ok_def c st')
  have "call_ok st' ?c" by (simp add: call_ok_def st' c split: call_kind.splits)
  moreover have "open_call ?c \<longleftrightarrow> tracks" by (simp add: open_call_def tracks split: call_kind.splits)
  ultimately show ?thesis using inv later old by (fastforce simp: session_inv_def st' c)
qed

lemma session_inv_settles:
  assumes inv: "session_inv st" and k: "k < length (rn_calls st)" and kind: "cl_kind (rn_calls st ! k) = Submitting ob"
    and phase: "cl_phase (rn_calls st ! k) = Recorded" and st': "st' = with_call k Settled (settle_submission (rn_session st)) st"
  shows "session_inv st' \<and> later st st'"
proof -
  let ?c = "(rn_calls st ! k)\<lparr>cl_phase := Settled\<rparr>"
  have later: "later st st'" by (simp add: later_def st' settle_submission_def)
  have n: "int (open_calls (rn_calls st')) = int (open_calls (rn_calls st)) - 1"
    using open_calls_update [OF k, of ?c] open_call_phase(1,2) [OF kind] phase by (simp add: st')
  have "call_ok st' ?c"
    using nth_call_ok [OF inv k] kind phase by (simp add: call_ok_def has_outcome_def st' settle_submission_def)
  then have "session_inv st'"
    using inv n by (intro session_inv_call [OF inv k, of st' ?c] later)
      (auto simp: session_inv_def st' settle_submission_def)
  then show ?thesis using later by blast
qed

lemma session_inv_same:
  assumes "session_inv st" "rn_session st' = rn_session st" "rn_calls st' = rn_calls st" "rn_tables st' = rn_tables st"
  shows "session_inv st' \<and> later st st'"
proof -
  have later: "later st st'" by (simp add: later_def assms)
  then show ?thesis using session_inv_frame [OF assms(1,3) later] assms by (simp add: session_inv_def)
qed

lemma session_inv_step:
  assumes "run_step env encoded_size repo dia canon st st'" "session_inv st"
  shows "session_inv st' \<and> later st st'"
  using assms
proof (cases rule: run_step.cases)
  case (claims item def tracks n s kind)
  show ?thesis by (rule session_inv_claims [OF assms(2) claims(2,3,1)])
next
  case (claim_fails item def tracks e)
  have "later st st'" by (simp add: later_def claim_fails)
  moreover have "session_inv st'"
    using assms(2) by (intro session_inv_frame [OF assms(2) _ calculation]) (simp_all add: claim_fails session_inv_def)
  ultimately show ?thesis by blast
next
  case (submission_invalid k ob e)
  then have k: "k < length (rn_calls st)" "cl_kind (rn_calls st ! k) = Submitting ob" "cl_phase (rn_calls st ! k) = Claimed" by (simp_all add: calling_def)
  have "later st st'" by (simp add: later_def submission_invalid)
  moreover have "session_inv st'"
    using assms(2) k nth_call_ok [OF assms(2) k(1)] open_call_phase(1,2) [OF k(2)]
    by (intro session_inv_moves [OF assms(2) k(1), where p = Recorded and s = "record_failure e (rn_session st)" and tb = "rn_tables st"] calculation)
      (simp_all add: submission_invalid session_inv_def call_ok_def)
  ultimately show ?thesis by blast
next
  case (sink_answers k ob seen answer tb)
  then have k: "k < length (rn_calls st)" "cl_kind (rn_calls st ! k) = Submitting ob" "cl_phase (rn_calls st ! k) = Claimed" by (simp_all add: calling_def)
  have "tables_inv (rn_tables st)" using assms(2) by (simp add: session_inv_def)
  note s = sink_submitD [OF this sink_answers(4)]
  then have "later st st'" by (simp add: later_def sink_answers)
  moreover have "session_inv st'"
    using assms(2) k s nth_call_ok [OF assms(2) k(1)] open_call_phase(1,2) [OF k(2)]
    by (intro session_inv_moves [OF assms(2) k(1), where p = "Answered answer" and s = "rn_session st" and tb = tb] calculation)
      (simp_all add: sink_answers session_inv_def call_ok_def split: sum.splits)
  ultimately show ?thesis by blast
next
  case (sink_fails k ob e)
  then have k: "k < length (rn_calls st)" "cl_kind (rn_calls st ! k) = Submitting ob" "cl_phase (rn_calls st ! k) = Claimed" by (simp_all add: calling_def)
  have "later st st'" by (simp add: later_def sink_fails)
  moreover have "session_inv st'"
    using assms(2) k nth_call_ok [OF assms(2) k(1)] open_call_phase(1,2) [OF k(2)]
    by (intro session_inv_moves [OF assms(2) k(1), where p = "Answered (Inl e)" and s = "rn_session st" and tb = "rn_tables st"] calculation)
      (simp_all add: sink_fails session_inv_def call_ok_def)
  ultimately show ?thesis by blast
next
  case (answer_recorded k ob answer)
  then have k: "k < length (rn_calls st)" "cl_kind (rn_calls st ! k) = Submitting ob" "cl_phase (rn_calls st ! k) = Answered answer" by (simp_all add: calling_def)
  have d: "durable (rn_tables st) (cb_scope (ses_binding (rn_session st))) (so_ref ob)" if "answer = Inr ref" for ref
    using nth_call_ok [OF assms(2) k(1)] k that by (simp add: call_ok_def)
  have "later st st'" by (simp add: later_def answer_recorded del: not_None_eq)
  moreover have "call_ok st' ((rn_calls st ! k)\<lparr>cl_phase := Recorded\<rparr>)"
    using nth_call_ok [OF assms(2) k(1)] k(2) record_answer_outcome [OF d]
    by (simp add: call_ok_def has_outcome_def answer_recorded(1) del: not_None_eq)
  then have "session_inv st'"
    using assms(2) k open_call_phase(1,2) [OF k(2)]
    by (intro session_inv_moves [OF assms(2) k(1), where p = Recorded and s = "rn_session st'" and tb = "rn_tables st"] calculation)
      (simp_all add: answer_recorded session_inv_def)
  ultimately show ?thesis by blast
next
  case (settles k ob)
  then show ?thesis by (intro session_inv_settles [OF assms(2)]) (simp_all add: calling_def)
next
  case (refusal_invalid k status detail e)
  then have k: "k < length (rn_calls st)" "cl_kind (rn_calls st ! k) = Refusing status detail" "cl_phase (rn_calls st ! k) = Claimed" by (simp_all add: calling_def)
  have "later st st'" by (simp add: later_def refusal_invalid)
  moreover have "session_inv st'"
    using assms(2) k nth_call_ok [OF assms(2) k(1)] open_call_phase(3,4) [OF k(2)]
    by (intro session_inv_moves [OF assms(2) k(1), where p = Settled and s = "record_failure e (rn_session st)" and tb = "rn_tables st"] calculation)
      (simp_all add: refusal_invalid session_inv_def call_ok_def)
  ultimately show ?thesis by blast
next
  case (refusal_recorded k status detail)
  then have k: "k < length (rn_calls st)" "cl_kind (rn_calls st ! k) = Refusing status detail" "cl_phase (rn_calls st ! k) = Claimed" by (simp_all add: calling_def)
  have "later st st'" by (simp add: later_def refusal_recorded)
  moreover have "session_inv st'"
    using assms(2) k nth_call_ok [OF assms(2) k(1)] open_call_phase(3,4) [OF k(2)]
    by (intro session_inv_moves [OF assms(2) k(1), where p = Settled and s = "rn_session st'" and tb = "rn_tables st"] calculation)
      (simp_all add: refusal_recorded session_inv_def call_ok_def gm_get_set gm_wf_set)
  ultimately show ?thesis by blast
next
  case (others_add_sources tb)
  have "later st st'" using others_add_sources by (simp add: later_def)
  moreover have "session_inv st'"
    using assms(2) by (intro session_inv_frame [OF assms(2) _ calculation]) (simp_all add: others_add_sources session_inv_def)
  ultimately show ?thesis by blast
next
  case (closes r)
  have "later st st'" by (simp add: later_def closes close_session_def)
  moreover have "session_inv st'"
    using assms(2) by (intro session_inv_frame [OF assms(2) _ calculation]) (auto simp: closes session_inv_def close_session_def)
  ultimately show ?thesis by blast
qed (rule session_inv_same [OF assms(2)]; simp)+

section \<open>The owner\<close>

definition every_submission :: "run_state \<Rightarrow> (call \<Rightarrow> source_observation \<Rightarrow> bool) \<Rightarrow> bool" where
  "every_submission st P \<longleftrightarrow> (\<forall>c \<in> set (rn_calls st). \<forall>ob. cl_kind c = Submitting ob \<longrightarrow> P c ob)"

abbreviation durable_call :: "run_state \<Rightarrow> call \<Rightarrow> source_observation \<Rightarrow> bool" where
  "durable_call st c ob \<equiv> durable (rn_tables st) (cb_scope (ses_binding (rn_session st))) (so_ref ob)"

definition owner_inv :: "run_state \<Rightarrow> bool" where
  "owner_inv st \<longleftrightarrow>
     (case rn_owner st of
        Drained _ \<Rightarrow> ses_drained (rn_session st)
      | Checked _ _ \<Rightarrow> ses_drained (rn_session st) \<and> every_submission st (has_outcome st)
      | Collected _ _ items \<Rightarrow> ses_drained (rn_session st) \<and> every_submission st (\<lambda>c ob. list_ex unsafe_item items \<or> durable_call st c ob)
      | _ \<Rightarrow> True)
     \<and> (rn_saved st \<longrightarrow> ses_drained (rn_session st) \<and> every_submission st (durable_call st))"

text \<open>Once the session is drained no step touches its submissions or their outcomes.\<close>

definition submissions_frozen :: "run_state \<Rightarrow> run_state \<Rightarrow> bool" where
  "submissions_frozen st st' \<longleftrightarrow> ses_drained (rn_session st') \<and>
     every_submission st' (\<lambda>c' ob. \<exists>c \<in> set (rn_calls st). cl_kind c = Submitting ob \<and> cl_sequence c = cl_sequence c'
       \<and> gm_get (ses_outcomes (rn_session st')) (cl_sequence c') = gm_get (ses_outcomes (rn_session st)) (cl_sequence c'))"

lemma drained_settled:
  assumes "session_inv st" "ses_drained (rn_session st)" "c \<in> set (rn_calls st)" "cl_kind c = Submitting ob"
  shows "cl_phase c = Settled"
  using assms by (auto simp: session_inv_def open_calls_def filter_empty_conv open_call_def)

lemma owner_inv_frame:
  assumes "owner_inv st" "later st st'" "rn_owner st' = rn_owner st" "rn_saved st' = rn_saved st"
    and "ses_drained (rn_session st) \<Longrightarrow> submissions_frozen st st'"
  shows "owner_inv st'"
proof -
  have moves: "every_submission st' Q" if d: "ses_drained (rn_session st)" and e: "every_submission st P"
    and i: "\<And>c c' ob. P c ob \<Longrightarrow> cl_sequence c = cl_sequence c'
       \<Longrightarrow> gm_get (ses_outcomes (rn_session st')) (cl_sequence c') = gm_get (ses_outcomes (rn_session st)) (cl_sequence c') \<Longrightarrow> Q c' ob" for P Q
    using assms(5) [OF d] e i unfolding submissions_frozen_def every_submission_def by metis
  have outcome: "has_outcome st' c' ob" if "has_outcome st c ob" "cl_sequence c = cl_sequence c'"
    "gm_get (ses_outcomes (rn_session st')) (cl_sequence c') = gm_get (ses_outcomes (rn_session st)) (cl_sequence c')" for c c' ob
    using has_outcome_later [OF assms(2), of c ob] that by (simp add: has_outcome_def)
  have dur: "durable_call st' c' ob" if "durable_call st c ob" for c c' ob
    using durable_kept that assms(2) by (auto simp: later_def)
  have drained: "ses_drained (rn_session st')" if "ses_drained (rn_session st)"
    using assms(5) [OF that] by (simp add: submissions_frozen_def)
  have M: "every_submission st' (has_outcome st')" if "ses_drained (rn_session st)" "every_submission st (has_outcome st)"
    by (rule moves [OF that]) (rule outcome)
  have D: "every_submission st' (durable_call st')" if "ses_drained (rn_session st)" "every_submission st (durable_call st)"
    by (rule moves [OF that]) (rule dur)
  have C: "every_submission st' (\<lambda>c ob. list_ex unsafe_item items \<or> durable_call st' c ob)"
    if "ses_drained (rn_session st)" "every_submission st (\<lambda>c ob. list_ex unsafe_item items \<or> durable_call st c ob)" for items
    by (rule moves [OF that]) (use dur in blast)
  show ?thesis
  proof (cases "rn_owner st")
    case (Checked c p)
    then show ?thesis using assms(1) M D drained by (simp add: owner_inv_def assms(3,4))
  next
    case (Collected c p items)
    then show ?thesis using assms(1) C D drained by (simp add: owner_inv_def assms(3,4))
  qed (use assms(1) D drained in \<open>simp_all add: owner_inv_def assms(3,4)\<close>)
qed

lemma frozen_same:
  assumes "ses_drained (rn_session st)" "rn_calls st' = rn_calls st" "ses_outcomes (rn_session st') = ses_outcomes (rn_session st)"
    "ses_drained (rn_session st')"
  shows "submissions_frozen st st'"
  using assms by (auto simp: submissions_frozen_def every_submission_def)

text \<open>The moves of a call, when the session is drained: none of a submission, and a refusal has its own number.\<close>

lemma no_open_submission:
  assumes "session_inv st" "calling st k (Submitting ob) p" "p \<noteq> Settled"
  shows "\<not> ses_drained (rn_session st)"
  using assms drained_settled [OF assms(1), of "rn_calls st ! k" ob] by (auto simp: calling_def)

lemma frozen_refusal:
  assumes inv: "session_inv st" and d: "ses_drained (rn_session st)" and k: "calling st k (Refusing status detail) p"
    and calls: "rn_calls st' = (rn_calls st)[k := (rn_calls st ! k)\<lparr>cl_phase := q\<rparr>]" and d': "ses_drained (rn_session st')"
    and others: "\<And>n. n \<noteq> cl_sequence (rn_calls st ! k) \<Longrightarrow> gm_get (ses_outcomes (rn_session st')) n = gm_get (ses_outcomes (rn_session st)) n"
  shows "submissions_frozen st st'"
proof -
  have "c' \<in> set (rn_calls st) \<and> cl_sequence c' \<noteq> cl_sequence (rn_calls st ! k)"
    if c': "c' \<in> set (rn_calls st')" "cl_kind c' = Submitting ob" for c' ob
  proof -
    obtain j where j: "j < length (rn_calls st)" "c' = rn_calls st' ! j" using c'(1) calls by (auto simp: in_set_conv_nth)
    have "j \<noteq> k" using j c'(2) k by (auto simp: calls calling_def)
    then have "c' = rn_calls st ! j" using j by (simp add: calls)
    moreover have "cl_sequence (rn_calls st ! j) \<noteq> cl_sequence (rn_calls st ! k)"
      using distinct_sequences [OF inv j(1) _ \<open>j \<noteq> k\<close>] k by (simp add: calling_def)
    ultimately show ?thesis using j(1) by auto
  qed
  then show ?thesis using d' others by (auto simp: submissions_frozen_def every_submission_def)
qed

lemma conclude_saved:
  assumes "conclude dia canon rows b previous proposed status items = (result, rows', saved)" "saved"
  shows "\<not> list_ex unsafe_item items" "status = run_complete" "equal_connector_checkpoints previous proposed = Inr False"
    "store_save dia canon rows b proposed previous = Inr rows'"
  using assms by (auto simp: conclude_def split: if_splits sum.splits bool.splits)

lemma owner_inv_step:
  assumes "run_step env encoded_size repo dia canon st st'" "session_inv st" "owner_inv st"
  shows "owner_inv st'"
proof -
  have later: "later st st'" and inv': "session_inv st'" using session_inv_step [OF assms(1,2)] by auto
  note frame = owner_inv_frame [OF assms(3) later]
  from assms(1) show ?thesis
  proof (cases rule: run_step.cases)
    case (claims item def tracks n s kind)
    then show ?thesis using assms(2) claimD [OF claims(2)] by (intro frame) (auto simp: session_inv_def)
  next
    case (submission_invalid k ob e)
    then show ?thesis using no_open_submission [OF assms(2)] by (intro frame) auto
  next
    case (sink_answers k ob seen answer tb)
    then show ?thesis using no_open_submission [OF assms(2)] by (intro frame) auto
  next
    case (sink_fails k ob e)
    then show ?thesis using no_open_submission [OF assms(2)] by (intro frame) auto
  next
    case (answer_recorded k ob answer)
    then show ?thesis using no_open_submission [OF assms(2)] by (intro frame) auto
  next
    case (settles k ob)
    then show ?thesis using no_open_submission [OF assms(2)] by (intro frame) auto
  next
    case (refusal_invalid k status detail e)
    then show ?thesis by (intro frame frozen_refusal [OF assms(2) _ refusal_invalid(2)]) simp_all
  next
    case (refusal_recorded k status detail)
    then show ?thesis by (intro frame frozen_refusal [OF assms(2) _ refusal_recorded(2)]) (simp_all add: gm_get_set)
  next
    case (checks c)
    have "every_submission st (has_outcome st)"
      using assms(2,3) checks drained_settled [OF assms(2)] by (fastforce simp: every_submission_def session_inv_def owner_inv_def call_ok_def)
    then show ?thesis using assms(3) checks by (auto simp: owner_inv_def every_submission_def has_outcome_def split: sum.splits)
  next
    case (collects c proposed)
    then have o: "ses_drained (rn_session st)" "every_submission st (has_outcome st)" "rn_saved st \<Longrightarrow> every_submission st (durable_call st)"
      using assms(3) by (auto simp: owner_inv_def)
    have "list_ex unsafe_item (outcomes (rn_session st)) \<or> durable_call st c ob" if "has_outcome st c ob" for c ob
      using that assms(2) by (force simp: has_outcome_def outcomes_def list_ex_iff set_values_sorted_by session_inv_def gm_get_iff)
    then show ?thesis using o by (auto simp: owner_inv_def every_submission_def collects(1))
  next
    case (concludes c proposed items result rows saved)
    then have "every_submission st (\<lambda>c ob. list_ex unsafe_item items \<or> durable_call st c ob)" "ses_drained (rn_session st)"
      using assms(3) by (auto simp: owner_inv_def)
    then show ?thesis using conclude_saved(1) [OF concludes(3)] by (auto simp: owner_inv_def every_submission_def concludes(1))
  next
    case (closes r)
    then show ?thesis using assms(3) by (auto simp: owner_inv_def close_session_def every_submission_def)
  next
    case (claim_fails item def tracks e)
    then show ?thesis by (intro frame frozen_same) simp_all
  next
    case (others_add_sources tb)
    then show ?thesis by (intro frame frozen_same) simp_all
  next
    case (others_save_checkpoints rows)
    then show ?thesis by (intro frame frozen_same) simp_all
  qed (use assms(3) in \<open>auto simp: owner_inv_def every_submission_def\<close>)
qed

end
