(* ===== verification/Connector_Guarantees.thy ===== *)
theory Connector_Guarantees
  imports Connector_Safety
begin

text \<open>
  The guarantees of a Connector run, for every interleaving: accepted items are durable before they are
  reported, the result tells whether the checkpoint moved, and the checkpoint moves only when every submission is
  durable.
\<close>

section \<open>What the run reports\<close>

definition item_durable :: "run_state \<Rightarrow> item_outcome \<Rightarrow> bool" where
  "item_durable st x \<longleftrightarrow> (io_status x = submission_accepted \<longrightarrow>
     (\<exists>ref. io_ref x = Some ref \<and> durable (rn_tables st) (cb_scope (ses_binding (rn_session st))) ref))"

definition result_ok :: "run_state \<Rightarrow> run_result \<Rightarrow> bool" where
  "result_ok st r \<longleftrightarrow> (\<forall>x \<in> set (rr_items r). item_durable st x) \<and> rr_binding r = ses_binding (rn_session st)
     \<and> rr_committed r = (if rn_saved st then rr_proposed r else rr_previous r)
     \<and> (rn_saved st \<longrightarrow> rr_status r = run_complete) \<and> (rr_status r = run_complete \<longrightarrow> \<not> list_ex unsafe_item (rr_items r))"

definition refusals_ok :: "call_kind list \<Rightarrow> bool" where
  "refusals_ok kinds \<longleftrightarrow> (\<forall>status detail. Refusing status detail \<in> set kinds \<longrightarrow> status = submission_rejected \<or> status = submission_failed)"

definition reported_inv :: "run_state \<Rightarrow> bool" where
  "reported_inv st \<longleftrightarrow>
     refusals_ok (map cl_kind (rn_calls st))
     \<and> (\<forall>n x. gm_get (ses_outcomes (rn_session st)) n = Some x \<longrightarrow> item_durable st x)
     \<and> (case rn_owner st of
          Collected _ _ items \<Rightarrow> \<forall>x \<in> set items. item_durable st x
        | Concluded (Inr r) \<Rightarrow> result_ok st r
        | _ \<Rightarrow> True)"

lemma item_durable_later: "later st st' \<Longrightarrow> item_durable st x \<Longrightarrow> item_durable st' x"
  unfolding item_durable_def later_def using durable_kept by metis

lemma result_ok_later: "later st st' \<Longrightarrow> rn_saved st' = rn_saved st \<Longrightarrow> result_ok st r \<Longrightarrow> result_ok st' r"
  using item_durable_later unfolding result_ok_def by (auto simp: later_def)

text \<open>A step that leaves the owner alone has to account for the calls and the outcomes it adds.\<close>

lemma reported_inv_frame:
  assumes "reported_inv st" "later st st'" "rn_owner st' = rn_owner st" "rn_saved st' = rn_saved st"
    and "refusals_ok (map cl_kind (rn_calls st'))"
    and "\<And>n x. gm_get (ses_outcomes (rn_session st')) n = Some x \<Longrightarrow> gm_get (ses_outcomes (rn_session st)) n = Some x \<or> item_durable st' x"
  shows "reported_inv st'"
proof -
  have outcomes: "item_durable st' x" if "gm_get (ses_outcomes (rn_session st')) n = Some x" for n x
    using assms(1) assms(6) [OF that] item_durable_later [OF assms(2)] by (auto simp: reported_inv_def)
  show ?thesis
  proof (cases "rn_owner st")
    case (Collected c p items)
    then show ?thesis using assms(1,3,5) outcomes item_durable_later [OF assms(2)] by (auto simp: reported_inv_def)
  next
    case (Concluded r)
    then show ?thesis using assms(1,3,5) outcomes result_ok_later [OF assms(2,4)] by (auto simp: reported_inv_def split: sum.splits)
  qed (use assms(3,5) outcomes in \<open>auto simp: reported_inv_def\<close>)
qed

lemma update_kinds [simp]: "map cl_kind (cs[k := (cs ! k)\<lparr>cl_phase := p\<rparr>]) = map cl_kind cs"
  by (cases "k < length cs") (simp_all add: map_update list_update_same_conv list_update_beyond)

lemma reported_refusals: "reported_inv st \<Longrightarrow> refusals_ok (map cl_kind (rn_calls st))"
  by (simp add: reported_inv_def)

lemma record_answer_durable:
  assumes "\<And>ref. answer = Inr ref \<Longrightarrow> durable tb scope (so_ref ob)"
    and "gm_get (ses_outcomes (record_answer n item def ob answer s)) m = Some x"
  shows "gm_get (ses_outcomes s) m = Some x
    \<or> io_status x = submission_rejected \<or> (\<exists>ref. io_ref x = Some ref \<and> durable tb scope ref)"
  using assms
  by (auto simp: record_answer_def gm_get_set unsafe_outcome_def accepted_outcome_def validate_returned_ref_def check_def
      split: sum.splits connector_error.splits if_splits)

lemma conclude_ok:
  assumes "conclude dia canon rows b previous proposed status items = (Inr r, rows', saved)"
  shows "rr_items r = items" "rr_binding r = b" "rr_committed r = (if saved then rr_proposed r else rr_previous r)"
    "saved \<longrightarrow> rr_status r = run_complete" "rr_status r = run_complete \<longrightarrow> \<not> list_ex unsafe_item items"
  using assms by (auto simp: conclude_def new_run_result_def res_simps status_defs split: if_splits sum.splits bool.splits)

lemma reported_inv_step:
  assumes "run_step env encoded_size repo dia canon st st'" "session_inv st" "reported_inv st"
  shows "reported_inv st'"
proof -
  have later: "later st st'" using session_inv_step [OF assms(1,2)] by auto
  note frame = reported_inv_frame [OF assms(3) later]
  from assms(1) show ?thesis
  proof (cases rule: run_step.cases)
    case (claims item def tracks n s kind)
    then show ?thesis using reported_refusals [OF assms(3)] claimD [OF claims(2)] by (intro frame) (auto simp: refusals_ok_def)
  next
    case (submission_invalid k ob e)
    then show ?thesis using reported_refusals [OF assms(3)] by (intro frame) auto
  next
    case (sink_answers k ob seen answer tb)
    then show ?thesis using reported_refusals [OF assms(3)] by (intro frame) auto
  next
    case (sink_fails k ob e)
    then show ?thesis using reported_refusals [OF assms(3)] by (intro frame) auto
  next
    case (answer_recorded k ob answer)
    then have d: "durable (rn_tables st) (cb_scope (ses_binding (rn_session st))) (so_ref ob)" if "answer = Inr ref" for ref
      using nth_call_ok [OF assms(2), of k] that by (auto simp: call_ok_def calling_def)
    have "gm_get (ses_outcomes (rn_session st)) n = Some x \<or> item_durable st' x" if "gm_get (ses_outcomes (rn_session st')) n = Some x" for n x
    proof -
      from that have "gm_get (ses_outcomes (record_answer (cl_sequence (rn_calls st ! k)) (cl_item (rn_calls st ! k)) (cl_definition (rn_calls st ! k)) ob answer (rn_session st))) n = Some x"
        by (simp add: answer_recorded(1))
      from record_answer_durable [OF _ this, where tb = "rn_tables st" and scope = "cb_scope (ses_binding (rn_session st))"] d
      have "gm_get (ses_outcomes (rn_session st)) n = Some x \<or> io_status x = submission_rejected
          \<or> (\<exists>ref. io_ref x = Some ref \<and> durable (rn_tables st) (cb_scope (ses_binding (rn_session st))) ref)" by blast
      then show ?thesis by (auto simp: answer_recorded(1) item_durable_def status_defs)
    qed
    then show ?thesis using reported_refusals [OF assms(3)] by (intro frame) (simp_all add: answer_recorded(1))
  next
    case (settles k ob)
    then show ?thesis using reported_refusals [OF assms(3)] by (intro frame) (auto simp: settle_submission_def)
  next
    case (refusal_invalid k status detail e)
    then show ?thesis using reported_refusals [OF assms(3)] by (intro frame) auto
  next
    case (refusal_recorded k status detail)
    then have "status = submission_rejected \<or> status = submission_failed"
      using reported_refusals [OF assms(3)] nth_mem [of k "map cl_kind (rn_calls st)"] by (auto simp: refusals_ok_def calling_def simp del: nth_mem)
    then show ?thesis using refusal_recorded reported_refusals [OF assms(3)]
      by (intro frame) (auto simp: calling_def gm_get_set item_durable_def unsafe_outcome_def status_defs split: if_splits)
  next
    case (collects c proposed)
    have "\<exists>n. gm_get (ses_outcomes (rn_session st)) n = Some x" if "x \<in> set (outcomes (rn_session st))" for x
      using that assms(2) by (auto simp: outcomes_def set_values_sorted_by session_inv_def gm_get_iff)
    then show ?thesis using assms(3) by (auto simp: reported_inv_def collects(1) item_durable_def)
  next
    case (concludes c proposed items result rows saved)
    then have items: "\<forall>x \<in> set items. item_durable st x" using assms(3) by (simp add: reported_inv_def)
    then show ?thesis using assms(3) conclude_ok concludes(3)
      by (cases result) (auto simp: reported_inv_def concludes(1) item_durable_def result_ok_def)
  next
    case (checks c)
    then show ?thesis using assms(3) by (auto simp: reported_inv_def item_durable_def split: sum.splits)
  next
    case (closes r)
    then show ?thesis using assms(3) by (auto simp: reported_inv_def item_durable_def close_session_def)
  next
    case (claim_fails item def tracks e)
    then show ?thesis using assms(3) by (intro frame) (auto simp: reported_inv_def)
  next
    case (others_add_sources tb)
    then show ?thesis using assms(3) by (intro frame) (auto simp: reported_inv_def)
  next
    case (others_save_checkpoints rows)
    then show ?thesis using assms(3) by (intro frame) (auto simp: reported_inv_def)
  qed (use assms(3) in \<open>auto simp: reported_inv_def item_durable_def\<close>)
qed

section \<open>Every reachable state\<close>

lemma run_startD:
  assumes "run_start resolve canon connector b tb rows = Inr st"
  shows "rn_calls st = []" "rn_tables st = tb" "rn_owner st = Running" "\<not> rn_saved st" "ses_outcomes (rn_session st) = []"
    "ses_in_flight (rn_session st) = 0" "\<not> ses_drained (rn_session st)" "\<not> ses_closed (rn_session st)"
  using assms by (auto simp: run_start_def new_session_def res_simps)

lemma reachable_inv:
  assumes "run_reachable env encoded_size repo dia canon st"
  shows "session_inv st \<and> owner_inv st \<and> reported_inv st"
  using assms
proof (induction rule: run_reachable.induct)
  case (starts resolve connector b tb rows st)
  then show ?case using run_startD [OF starts(1)]
    by (simp add: session_inv_def owner_inv_def reported_inv_def open_calls_def refusals_ok_def)
next
  case (steps st st')
  then show ?case using session_inv_step [OF steps(2)] owner_inv_step [OF steps(2)] reported_inv_step [OF steps(2)] by blast
qed

text \<open>C30: for every interleaving of a Connector run with its goroutines and with other transactions, once the
  checkpoint has been saved the session is closed, every \<open>Submit\<close> call of the run has settled, and the Source of
  every one is stored and marked as accepted: the checkpoint never passes an observation that is not durable.\<close>

theorem checkpoint_after_durable_sources:
  assumes "run_reachable env encoded_size repo dia canon st" "rn_saved st" "c \<in> set (rn_calls st)" "cl_kind c = Submitting ob"
  shows "ses_closed (rn_session st) \<and> cl_phase c = Settled
     \<and> durable (rn_tables st) (cb_scope (ses_binding (rn_session st))) (so_ref ob)"
  using reachable_inv [OF assms(1)] assms(2-) drained_settled [of st c ob]
  by (auto simp: owner_inv_def every_submission_def session_inv_def)


text \<open>C32: the drain signal of a run is exact: the counter \<open>inFlight\<close> is the number of \<open>Submit\<close> calls that are claimed
  and not settled, never negative, and the channel is closed exactly when the session is closed and there is none.\<close>

theorem drain_exact:
  assumes "run_reachable env encoded_size repo dia canon st"
  shows "ses_in_flight (rn_session st) = int (length (filter open_call (rn_calls st)))
     \<and> (ses_drained (rn_session st) \<longleftrightarrow> ses_closed (rn_session st) \<and> (\<forall>c \<in> set (rn_calls st). \<not> open_call c))"
  using reachable_inv [OF assms] by (auto simp: session_inv_def open_calls_def filter_empty_conv)

end
