(* ===== verification/Connector_Example.thy ===== *)
theory Connector_Example
  imports Connector_Guarantees Source_Window
begin

text \<open>
  Concrete runs: a Connector submits one observation and its checkpoint is saved; another reports a rejection from
  a goroutine that \<open>Run\<close> does not wait for. The guarantees are applied to them.
\<close>

definition plain_canon :: "json \<Rightarrow> json" where
  "plain_canon v = v"

definition small :: "json \<Rightarrow> nat" where
  "small j = 0"

definition demo_binding :: connector_binding where
  "demo_binding = \<lparr>cb_scope = ''p'', cb_id = ''b'', cb_name = ''n'', cb_version = ''1''\<rparr>"

definition demo_connector :: connector where
  "demo_connector = \<lparr>cn_name = ''n'', cn_version = ''1'', cn_definitions = [''t'']\<rparr>"

definition demo_session :: session where
  "demo_session = \<lparr>ses_binding = demo_binding, ses_checkpoint = no_checkpoint, ses_definitions = [''t''], ses_outcomes = [], ses_items = [],
     ses_next = 0, ses_failure = None, ses_closed = False, ses_in_flight = 0, ses_drained = False\<rparr>"

definition demo_start :: "source_tables \<Rightarrow> run_state" where
  "demo_start tb = \<lparr>rn_session = demo_session, rn_calls = [], rn_tables = tb, rn_rows = [], rn_owner = Running, rn_saved = False\<rparr>"

definition demo_next :: checkpoint where
  "demo_next = \<lparr>ck_found = True, ck_value = Some JNull\<rparr>"

definition demo_completion :: completion where
  "demo_completion = \<lparr>co_status = run_complete, co_checkpoint = demo_next\<rparr>"

definition demo_row :: checkpoint_row where
  "demo_row = \<lparr>kr_scope = ''p'', kr_binding = ''b'', kr_name = ''n'', kr_version = ''1'', kr_payload = checkpoint_envelope JNull\<rparr>"

lemma plain_canonicalizes: "canonicalizes plain_canon"
  by (simp add: canonicalizes_def plain_canon_def)

lemma graphic_identity: "graphic s \<Longrightarrow> s \<noteq> [] \<Longrightarrow> length s \<le> n \<Longrightarrow> connector_identity f s n = Inr ()"
  by (simp add: connector_identity_def graphic_text)

lemma connector_words: "graphic ''p''" "graphic ''b''" "graphic ''n''" "graphic ''1''" "graphic ''t''" "graphic ''i''" "graphic ''d''"
  by (simp_all add: graphic_def)

lemma demo_identities [simp]:
  "w \<in> {''p'', ''b'', ''n'', ''1'', ''t'', ''i'', ''d''} \<Longrightarrow> connector_identity f w max_source_id_length = Inr ()"
  "w \<in> {''p'', ''b'', ''n'', ''1'', ''t'', ''i'', ''d''} \<Longrightarrow> connector_identity f w max_source_type_length = Inr ()"
  using connector_words [THEN graphic_identity] by (auto simp: max_source_id_length_def max_source_type_length_def)

lemma demo_binding_valid: "validate_connector_binding demo_binding = Inr ()"
  by (simp add: validate_connector_binding_def demo_binding_def)

lemma demo_definitions: "validate_connector demo_connector demo_binding = Inr [''t'']" "declared_connector_definitions [''t''] = Inr [''t'']"
proof -
  show d: "declared_connector_definitions [''t''] = Inr [''t'']"
    by (simp add: declared_connector_definitions_def validate_connector_run_text_def)
  have c: "cn_name demo_connector = cb_name demo_binding" "cn_version demo_connector = cb_version demo_binding" "cn_definitions demo_connector = [''t'']"
    by (simp_all add: demo_connector_def demo_binding_def)
  show "validate_connector demo_connector demo_binding = Inr [''t'']"
    by (simp add: validate_connector_def demo_binding_valid c d)
qed

lemma demo_run_start: "run_start Inr plain_canon demo_connector demo_binding tb [] = Inr (demo_start tb)"
  by (simp add: run_start_def demo_binding_valid demo_definitions new_session_def store_load_def checkpoint_load_def load_row_def
      validate_checkpoint_def no_checkpoint_def demo_start_def demo_session_def)

text \<open>The end of a run whose calls are done or do not hold it back.\<close>

lemma demo_finishes:
  assumes "run_reachable env encoded_size repo dia plain_canon st" "rn_owner st = Running" "rn_rows st = []"
    and s: "ses_binding (rn_session st) = demo_binding" "ses_checkpoint (rn_session st) = no_checkpoint" "ses_failure (rn_session st) = None"
      "ses_in_flight (rn_session st) = 0" "\<not> ses_drained (rn_session st)"
    and items: "\<not> list_ex unsafe_item (outcomes (rn_session st))" "validate_items [] (outcomes (rn_session st)) = Inr ()"
  shows "run_reachable env encoded_size repo dia plain_canon (st\<lparr>rn_session := (rn_session st)\<lparr>ses_closed := True, ses_drained := True\<rparr>,
      rn_owner := Concluded (Inr \<lparr>rr_binding = demo_binding, rr_status = run_complete, rr_previous = no_checkpoint, rr_proposed = demo_next,
        rr_committed = demo_next, rr_items = outcomes (rn_session st)\<rparr>), rn_rows := [demo_row], rn_saved := True\<rparr>)"
proof -
  let ?R = "run_reachable env encoded_size repo dia plain_canon"
  let ?s = "(rn_session st)\<lparr>ses_closed := True, ses_drained := True\<rparr>"
  have "?R (st\<lparr>rn_owner := Returned (Inr demo_completion)\<rparr>)" by (rule run_reachable.steps [OF assms(1) run_step.returns]) (rule assms(2))
  from run_reachable.steps [OF this run_step.closes] have "?R (st\<lparr>rn_session := ?s, rn_owner := Closing (Inr demo_completion)\<rparr>)"
    using s by (simp add: close_session_def finish_drain_def)
  from run_reachable.steps [OF this run_step.wait_ends] have "?R (st\<lparr>rn_session := ?s, rn_owner := Drained (Inr demo_completion)\<rparr>)" by simp
  from run_reachable.steps [OF this run_step.checks] have "?R (st\<lparr>rn_session := ?s, rn_owner := Checked demo_completion demo_next\<rparr>)"
    using s by (simp add: check_completion_def validate_completion_def demo_completion_def valid_run_status_def validate_checkpoint_def
        immutable_connector_checkpoint_def new_connector_checkpoint_def demo_next_def)
  from run_reachable.steps [OF this run_step.collects]
  have "?R (st\<lparr>rn_session := ?s, rn_owner := Collected demo_completion demo_next (outcomes (rn_session st))\<rparr>)"
    by (simp add: outcomes_def)
  note collected = this
  have "conclude dia plain_canon [] demo_binding no_checkpoint demo_next run_complete (outcomes (rn_session st))
    = (Inr \<lparr>rr_binding = demo_binding, rr_status = run_complete, rr_previous = no_checkpoint, rr_proposed = demo_next,
        rr_committed = demo_next, rr_items = outcomes (rn_session st)\<rparr>, [demo_row], True)"
    using items demo_binding_valid
    by (simp add: conclude_def equal_connector_checkpoints_def validate_checkpoint_def no_checkpoint_def demo_next_def immutable_connector_checkpoint_def
        store_save_def checkpoint_save_def encode_checkpoint_argument_def plain_canon_def new_run_result_def valid_run_status_def)
      (simp add: demo_binding_def demo_row_def)
  with run_step.concludes [of "st\<lparr>rn_session := ?s, rn_owner := Collected demo_completion demo_next (outcomes (rn_session st))\<rparr>"
      demo_completion demo_next "outcomes (rn_session st)" dia plain_canon _ "[demo_row]" True env encoded_size repo] s assms(3)
  have "run_step env encoded_size repo dia plain_canon (st\<lparr>rn_session := ?s, rn_owner := Collected demo_completion demo_next (outcomes (rn_session st))\<rparr>)
      (st\<lparr>rn_session := ?s, rn_owner := Concluded (Inr \<lparr>rr_binding = demo_binding, rr_status = run_complete, rr_previous = no_checkpoint,
        rr_proposed = demo_next, rr_committed = demo_next, rr_items = outcomes (rn_session st)\<rparr>), rn_rows := [demo_row], rn_saved := True\<rparr>)"
    by (simp add: demo_completion_def)
  then show ?thesis by (rule run_reachable.steps [OF collected])
qed

section \<open>A rejection that is not waited for\<close>

definition refusal_call :: "call_phase \<Rightarrow> call" where
  "refusal_call p = \<lparr>cl_kind = Refusing submission_rejected ''d'', cl_item = ''i'', cl_definition = ''t'', cl_sequence = 0, cl_phase = p\<rparr>"

definition refused_session :: session where
  "refused_session = demo_session\<lparr>ses_next := 1, ses_items := [(''i'', 0)]\<rparr>"

lemma refusal_claim: "claim demo_session ''i'' ''t'' False = Inr (0, refused_session)"
  by (simp add: claim_def validate_connector_run_text_def refused_session_def)
    (simp add: demo_session_def)

lemma refusal_running:
  "tables_inv tb \<Longrightarrow> run_reachable env encoded_size repo dia plain_canon ((demo_start tb)\<lparr>rn_session := refused_session, rn_calls := [refusal_call Claimed]\<rparr>)"
  using run_reachable.steps [OF run_reachable.starts [OF demo_run_start] run_step.claims [where kind = "Refusing submission_rejected ''d''"],
      of tb "''i''" "''t''" False 0 refused_session env encoded_size repo dia] refusal_claim
  by (simp add: demo_start_def refusal_call_def)

text \<open>C40: a refusal can be missed. \<open>Reject\<close> claims its item without counting as in flight, so \<open>Finalize\<close> does not wait
  for it: there is a run, on either database, in which an item is claimed before the session closes, the
  checkpoint is saved and the result is complete, and the item ends as rejected.\<close>

theorem refusal_missed_by_checkpoint:
  "\<exists>st r x. run_reachable env encoded_size repo dia plain_canon st \<and> rn_saved st \<and> rn_owner st = Concluded (Inr r)
     \<and> rr_committed r = demo_next \<and> rr_previous r = no_checkpoint \<and> x \<in> set (outcomes (rn_session st)) \<and> io_status x = submission_rejected"
proof -
  let ?R = "run_reachable env encoded_size repo dia plain_canon"
  let ?s = "refused_session\<lparr>ses_closed := True, ses_drained := True\<rparr>"
  let ?r = "\<lparr>rr_binding = demo_binding, rr_status = run_complete, rr_previous = no_checkpoint, rr_proposed = demo_next, rr_committed = demo_next, rr_items = []\<rparr>"
  let ?st = "(demo_start empty_tables)\<lparr>rn_session := ?s, rn_calls := [refusal_call Claimed], rn_owner := Concluded (Inr ?r), rn_rows := [demo_row], rn_saved := True\<rparr>"
  let ?x = "unsafe_outcome ''i'' ''t'' submission_rejected ''d''"
  have "outcomes refused_session = []" by (simp add: outcomes_def values_sorted_by_def refused_session_def demo_session_def)
  then have "?R ?st"
    using demo_finishes [OF refusal_running [OF tables_inv_empty]]
    by (simp add: demo_start_def refused_session_def demo_session_def)
  moreover have "calling ?st 0 (Refusing submission_rejected ''d'') Claimed" by (simp add: calling_def refusal_call_def)
  moreover have "validate_connector_run_text ''detail'' ''d'' max_source_id_length = Inr ()" by (simp add: validate_connector_run_text_def)
  ultimately have "?R (with_call 0 Settled (record_outcome 0 ?x ?s) ?st)"
    using run_reachable.steps [OF _ run_step.refusal_recorded, of env encoded_size repo dia plain_canon ?st 0] by (simp add: refusal_call_def)
  moreover have "outcomes (record_outcome 0 ?x ?s) = [?x]"
    by (simp add: outcomes_def values_sorted_by_def record_outcome_def refused_session_def demo_session_def)
  ultimately show ?thesis
    by (intro exI [of _ "with_call 0 Settled (record_outcome 0 ?x ?s) ?st"] exI [of _ ?r] exI [of _ ?x]) (simp add: unsafe_outcome_def)
qed

section \<open>An accepted submission\<close>

definition submit_call :: "call_phase \<Rightarrow> call" where
  "submit_call p = \<lparr>cl_kind = Submitting sample_observation, cl_item = ''i'', cl_definition = ''t'', cl_sequence = 0, cl_phase = p\<rparr>"

definition claimed_session :: session where
  "claimed_session = refused_session\<lparr>ses_in_flight := 1\<rparr>"

definition accepted_session :: session where
  "accepted_session = refused_session\<lparr>ses_outcomes := [(0, accepted_outcome ''i'' ''t'' \<lparr>sr_type = ''t'', sr_id = ''a''\<rparr>)]\<rparr>"

lemma sample_observation_ref [simp]: "so_ref sample_observation = \<lparr>sr_type = ''t'', sr_id = ''a''\<rparr>" "so_version sample_observation = ''1''"
  by (simp_all add: sample_observation_def sample_with_def)

lemma demo_sink:
  obtains tb where "sink_submit demo_env small demo_repository demo_registry demo_registry demo_binding ''t'' sample_observation
    = (Inr \<lparr>sr_type = ''t'', sr_id = ''a''\<rparr>, tb)"
proof -
  obtain j k where e: "encode_source_observation (sample_with sample_envelope) = Inr (Encoded j)"
    "encode_source_observation (sample_with sample_reordered) = Inr (Encoded k)" "json_meaning k = json_meaning j"
    by (rule sample_encodings)
  have "find_source demo_registry ''p'' (so_ref (sample_with sample_envelope)) = None" "head_of demo_registry ''p'' < max_int64"
    by (simp_all add: find_source_def demo_registry_def empty_tables_def head_of_def max_int64_def)
  then obtain st tb where a: "add_accepted demo_env demo_repository demo_registry ''p'' sample_observation = Inr (st, tb)"
    using add_accepted_eq [OF demo_registry_inv journal_demo_scope(1) sample_with_valid [OF sample_envelope_ok]
        demo_admit_persisted [OF sample_envelope_ok] sample_with_valid [OF sample_envelope_ok] e(1), of demo_repository]
    by (simp add: sample_observation_def)
  have ref: "ss_ref st = \<lparr>sr_type = ''t'', sr_id = ''a''\<rparr>" using add_accepted_durable [OF demo_registry_inv a] by simp
  obtain w where m: "marshal_observation sample_observation = Inr w" using observation_round_trip [OF sample_observation_valid] by blast
  have i: "validate_identity \<lparr>di_name = ''t'', di_version = ''1''\<rparr> = Inr ()" by (simp add: validate_identity_iff)
  then have "new_definition_identity ''t'' ''1'' = Inr \<lparr>di_name = ''t'', di_version = ''1''\<rparr>" by (simp add: new_definition_identity_def)
  then have "registered_definition demo_env demo_repository demo_registry sample_observation = Inr sample_manifest"
    using i demo_find_manifest by (simp add: registered_definition_def remote_find_def has_native_definition_def demo_repository_def)
  then have "submit_accepted demo_env small demo_repository demo_registry demo_registry ''p'' sample_observation = Inr ((\<lparr>sr_type = ''t'', sr_id = ''a''\<rparr>, ss_position st), tb)"
    using a ref m sample_observation_valid
    by (simp add: submit_accepted_def validate_remote_observation_envelope_def small_def remote_add_def)
  then show thesis
    using demo_binding_valid sample_observation_valid
    by (intro that) (simp add: sink_submit_def demo_binding_def)
qed

text \<open>The run in which the submission is claimed, answered, recorded and settled, and then the checkpoint is saved.\<close>

definition submitted :: "source_tables \<Rightarrow> run_state" where
  "submitted tb = (demo_start tb)\<lparr>rn_session := accepted_session, rn_calls := [submit_call Settled]\<rparr>"

definition saved_run :: "source_tables \<Rightarrow> run_state" where
  "saved_run tb = (submitted tb)\<lparr>rn_session := accepted_session\<lparr>ses_closed := True, ses_drained := True\<rparr>,
     rn_owner := Concluded (Inr \<lparr>rr_binding = demo_binding, rr_status = run_complete, rr_previous = no_checkpoint, rr_proposed = demo_next,
       rr_committed = demo_next, rr_items = [accepted_outcome ''i'' ''t'' \<lparr>sr_type = ''t'', sr_id = ''a''\<rparr>]\<rparr>),
     rn_rows := [demo_row], rn_saved := True\<rparr>"

lemma submission_checked: "check_submission ''t'' sample_observation = Inr ()"
  using sample_observation_valid by (simp add: check_submission_def)

lemma demo_submitted:
  obtains tb where "run_reachable demo_env small demo_repository dia plain_canon (submitted tb)"
proof -
  let ?R = "run_reachable demo_env small demo_repository dia plain_canon" and ?ref = "\<lparr>sr_type = ''t'', sr_id = ''a''\<rparr>"
  obtain tb where sink: "sink_submit demo_env small demo_repository demo_registry demo_registry demo_binding ''t'' sample_observation = (Inr ?ref, tb)"
    by (rule demo_sink)
  have "claim demo_session ''i'' ''t'' True = Inr (0, claimed_session)"
    by (simp add: claim_def validate_connector_run_text_def claimed_session_def refused_session_def) (simp add: demo_session_def)
  with run_reachable.steps [OF run_reachable.starts [OF demo_run_start demo_registry_inv]
      run_step.claims [where kind = "Submitting sample_observation"], of "''i''" "''t''" True 0 claimed_session]
  have "?R ((demo_start demo_registry)\<lparr>rn_session := claimed_session, rn_calls := [submit_call Claimed]\<rparr>)"
    by (simp add: demo_start_def submit_call_def)
  from run_reachable.steps [OF this run_step.sink_answers [of _ 0 sample_observation _ _ _ demo_registry "Inr ?ref" tb]]
  have "?R ((demo_start tb)\<lparr>rn_session := claimed_session, rn_calls := [submit_call (Answered (Inr ?ref))]\<rparr>)"
    using sink submission_checked
    by (simp add: calling_def submit_call_def with_call_def demo_start_def) (simp add: claimed_session_def refused_session_def demo_session_def)
  from run_reachable.steps [OF this run_step.answer_recorded [of _ 0 sample_observation "Inr ?ref"]]
  have "?R ((demo_start tb)\<lparr>rn_session := accepted_session\<lparr>ses_in_flight := 1\<rparr>, rn_calls := [submit_call Recorded]\<rparr>)"
    using sample_ref
    by (simp add: calling_def submit_call_def with_call_def demo_start_def record_answer_def validate_returned_ref_def record_outcome_def)
      (simp add: claimed_session_def accepted_session_def refused_session_def demo_session_def)
  from run_reachable.steps [OF this run_step.settles [of _ 0 sample_observation]]
  have "?R (submitted tb)"
    by (simp add: calling_def submit_call_def with_call_def demo_start_def settle_submission_def finish_drain_def submitted_def)
      (simp add: accepted_session_def refused_session_def demo_session_def)
  then show thesis by (rule that)
qed

lemma accepted_items:
  "outcomes accepted_session = [accepted_outcome ''i'' ''t'' \<lparr>sr_type = ''t'', sr_id = ''a''\<rparr>]"
  "\<not> list_ex unsafe_item (outcomes accepted_session)" "validate_items [] (outcomes accepted_session) = Inr ()"
proof -
  show o: "outcomes accepted_session = [accepted_outcome ''i'' ''t'' \<lparr>sr_type = ''t'', sr_id = ''a''\<rparr>]"
    by (simp add: outcomes_def values_sorted_by_def accepted_session_def)
  show "\<not> list_ex unsafe_item (outcomes accepted_session)" "validate_items [] (outcomes accepted_session) = Inr ()"
    using sample_ref by (simp_all add: o unsafe_item_def accepted_outcome_def status_defs validate_outcome_def validate_connector_run_text_def)
qed

lemma demo_saved:
  obtains tb where "run_reachable demo_env small demo_repository dia plain_canon (saved_run tb)"
proof -
  obtain tb where "run_reachable demo_env small demo_repository dia plain_canon (submitted tb)" by (rule demo_submitted)
  from demo_finishes [OF this] that [of tb] show thesis using accepted_items
    by (simp add: submitted_def saved_run_def demo_start_def) (simp add: accepted_session_def refused_session_def demo_session_def)
qed

theorem checkpoint_after_durable_sources_witness:
  "\<exists>tb. run_reachable demo_env small demo_repository SQLite plain_canon (saved_run tb)
     \<and> durable tb ''p'' \<lparr>sr_type = ''t'', sr_id = ''a''\<rparr>"
proof -
  obtain tb where r: "run_reachable demo_env small demo_repository SQLite plain_canon (saved_run tb)" by (rule demo_saved)
  have "submit_call Settled \<in> set (rn_calls (saved_run tb))" "cl_kind (submit_call Settled) = Submitting sample_observation" "rn_saved (saved_run tb)"
    by (simp_all add: saved_run_def submitted_def submit_call_def)
  from checkpoint_after_durable_sources [OF r this(3,1,2)] r show ?thesis
    by (auto simp: saved_run_def submitted_def demo_start_def accepted_session_def refused_session_def demo_session_def demo_binding_def)
qed


theorem drain_exact_witness:
  "\<exists>tb. run_reachable demo_env small demo_repository SQLite plain_canon (submitted tb) \<and> ses_in_flight (rn_session (submitted tb)) = 0"
proof -
  obtain tb where r: "run_reachable demo_env small demo_repository SQLite plain_canon (submitted tb)" by (rule demo_submitted)
  from drain_exact [OF r] r show ?thesis by (auto simp: submitted_def open_call_def submit_call_def)
qed

section \<open>Committing checkpoints\<close>

definition long_one :: json where
  "long_one = JNum ''1.00000000000000000001''"

text \<open>Rounding to \<open>float64\<close>, on the literal used here.\<close>

definition rounding_canon :: "json \<Rightarrow> json" where
  "rounding_canon v = (if v = long_one then JNum ''1'' else v)"

lemmas commit_defs = checkpoint_commit_def new_connector_checkpoint_def immutable_connector_checkpoint_def store_load_def checkpoint_load_def
  load_row_def comparable_checkpoint_def equal_connector_checkpoints_def validate_checkpoint_def equal_connector_json_def store_save_def
  checkpoint_save_def encode_checkpoint_argument_def no_checkpoint_def

lemma null_equal: "equal_json_values JNull JNull = Inr True"
  by (simp add: equal_json_values.simps)

lemma first_commit:
  "json_valid v \<Longrightarrow> checkpoint_commit dia canon [] [] demo_binding (Some v) (Some JNull)
     = Inr (\<lparr>ck_found = True, ck_value = Some v\<rparr>, [demo_row\<lparr>kr_payload := checkpoint_envelope (canon v)\<rparr>])"
  using null_equal by (simp add: commit_defs demo_binding_valid) (simp add: demo_row_def demo_binding_def)

lemma demo_load: "load_row plain_canon [demo_row] demo_binding = Inr (Some (JNull, checkpoint_envelope JNull))"
  by (simp add: load_row_def row_of_binding_def decode_checkpoint_def plain_canon_def demo_row_def demo_binding_def checkpoint_envelope_def)

lemma demo_update: "update_checkpoint SQLite [demo_row] demo_binding (checkpoint_envelope JNull) (checkpoint_envelope JNull) = Inr [demo_row]"
  by (simp add: update_checkpoint_def replace_payload_def row_of_binding_def demo_row_def demo_binding_def)

lemma again_commit:
  "checkpoint_commit SQLite plain_canon [demo_row] [demo_row] demo_binding (Some JNull) (Some JNull) = Inr (demo_next, [demo_row])"
  using null_equal demo_load demo_update
  by (simp add: checkpoint_commit_def new_connector_checkpoint_def immutable_connector_checkpoint_def store_load_def checkpoint_load_def comparable_checkpoint_def
      equal_connector_checkpoints_def validate_checkpoint_def equal_connector_json_def store_save_def checkpoint_save_def encode_checkpoint_argument_def
      demo_binding_valid plain_canon_def demo_next_def)

theorem checkpoint_commit_exact_witness:
  "\<exists>rows. checkpoint_commit OceanBase plain_canon [] [] demo_binding (Some (JBool True)) (Some JNull) = Inr (\<lparr>ck_found = True, ck_value = Some (JBool True)\<rparr>, rows)
     \<and> checkpoint_get plain_canon rows demo_binding = Inr \<lparr>ck_found = True, ck_value = Some (JBool True)\<rparr>"
proof -
  have "checkpoints_inv []" by (simp add: checkpoints_inv_def)
  from checkpoint_commit_exact [OF this plain_canonicalizes first_commit] first_commit [of "JBool True"] show ?thesis
    by (auto simp: plain_canon_def)
qed

theorem unchanged_commit_conflicts_witness:
  "checkpoint_commit SQLite plain_canon [demo_row] [demo_row] demo_binding (Some JNull) (Some JNull) = Inr (demo_next, [demo_row])
     \<and> checkpoint_commit OceanBase plain_canon [demo_row] [demo_row] demo_binding (Some JNull) (Some JNull) = Inl CheckpointConflict"
proof -
  have "checkpoints_inv [demo_row]" by (simp add: checkpoints_inv_def)
  from unchanged_commit_conflicts [OF this again_commit] again_commit show ?thesis by blast
qed

lemma numbers_valid: "json_valid (JNum ''1'')" "json_valid long_one"
  by code_simp+

lemma rounding_canonicalizes: "canonicalizes rounding_canon"
  using numbers_valid(1) by (simp add: canonicalizes_def rounding_canon_def long_one_def)

theorem rounded_commit_conflicts_witness:
  "\<exists>rows c. checkpoint_commit SQLite rounding_canon [] [] demo_binding (Some long_one) (Some JNull) = Inr (c, rows)
     \<and> checkpoint_commit SQLite rounding_canon rows rows demo_binding (Some JNull) (ck_value c) = Inl CheckpointConflict"
proof -
  have inv: "checkpoints_inv []" by (simp add: checkpoints_inv_def)
  note v = numbers_valid(2)
  have r: "equal_json_values (rounding_canon long_one) long_one = Inr False"
    by code_simp
  show ?thesis using rounded_commit_conflicts [OF inv rounding_canonicalizes first_commit [OF v] r, of JNull] first_commit [OF v] by auto
qed

end
