(* ===== verification/Spec2Isabelle.thy ===== *)
theory Spec2Isabelle
  imports Runtime_Lifecycle Context_Budget Memory_Properties Search_Example Review_Example Scope_Example Connector_Example
begin

text \<open>
  \<^bold>\<open>A verification library for PowerContext (Go)\<close>

  PowerContext keeps an append-only journal of Sources per Scope, derives immutable Artifact revisions
  (Memory, Experience, Skill, Handoff) from it, and serves bounded context back to agents. This library
  models the packages that carry that logic and proves what a caller relies on. File names are relative to
  the root of the repository.

  \<^bold>\<open>The parts and how they interact.\<close> A request enters through the runtime, which admits the operation,
  takes the write lock of the Scope and counts it until it ends (\<open>internal/runtime/lifecycle.go\<close>). Workers
  deliver observations, which are admitted against a registered Definition (\<open>source/\<close>,
  \<open>internal/sourceevidence\<close>) and stored with a journal position (\<open>internal/sqlstore/sources.go\<close>). A flush
  reads the next window of the journal after a cursor (\<open>trigger/\<close>, \<open>cursors.go\<close>, \<open>memory_flush.go\<close>), hands it to
  the Memory service (\<open>artifact/memory/\<close>) and commits the new Memory revision together with the cursor. All
  Artifact families share one store of immutable revisions with a head row (\<open>artifacts.go\<close>). Experiences and
  Skills are proposed as Candidates and become Artifacts when a reviewer approves them
  (\<open>internal/review\<close>, \<open>candidates.go\<close>, \<open>review.go\<close>). Search ranks the active entries of a Memory head, and the
  context builder renders what fits into a byte budget (\<open>internal/contextpack\<close>). Scopes form a hierarchy with
  bindings of external identities (\<open>internal/scope\<close>, \<open>scopes.go\<close>, \<open>scope_application.go\<close>). A Connector runs outside
  of any transaction, submits its items through the ingestion of worker observations, and advances a durable
  checkpoint at the end (\<open>source/connector_lifecycle.go\<close>, \<open>connector_checkpoints.go\<close>).

  \<^bold>\<open>Theories, in dependency order.\<close>
  \<^item> \<open>Go_Prelude\<close>, \<open>Go_Text\<close>: Go's value-or-error returns as sums, 64-bit wrap-around, maps as association
    lists, UTF-8 decoding, trimming. The collections \<open>res_simps\<close> and \<open>gomap_simps\<close> carry component proofs.
  \<^item> \<open>Scope_Cache\<close> (\<open>internal/runtime/scope_cache.go\<close>): the lock cache with its heap of shared entries. Locale
    \<open>lease_cache\<close>, interpreted as \<open>sc\<close>.
  \<^item> \<open>Runtime_Lifecycle\<close> (\<open>internal/runtime/lifecycle.go\<close>): one atomic operation per critical section, the
    interleaving step relation \<open>rt_step\<close>, invariants over its reachable states: writers of one Scope exclude
    each other, Close waits for admitted operations and its wait ends, no panic, bounded cache.
  \<^item> \<open>Artifact_Model\<close> (\<open>source/model.go\<close>, \<open>artifact/model.go\<close>, \<open>service.go\<close>, \<open>generation.go\<close>): the exchanged
    values with their validation. \<open>Json_Model\<close>: JSON and \<open>equalJSONValues\<close> of \<open>sources.go\<close>, shown to decide
    equality of meaning.
  \<^item> \<open>Source_Observation\<close> (\<open>source/observation.go\<close>, \<open>definition_manifest.go\<close>, \<open>text_evidence.go\<close>,
    \<open>internal/sourceevidence\<close>): wire forms, admission, the evidence gate.
  \<^item> \<open>Source_Store\<close> (\<open>internal/sqlstore/sources.go\<close>, \<open>source_codec.go\<close>, \<open>cursors.go\<close>, \<open>definition_manifests.go\<close>):
    the tables, idempotent additions, gap-free journal positions. \<open>Source_Window\<close> (\<open>trigger/source_window.go\<close>):
    the window policy in 64-bit arithmetic and draining a Scope window by window. Locale \<open>journal_log\<close>,
    interpreted as \<open>jl\<close>.
  \<^item> \<open>Compare_And_Set\<close>: the contract of optimistic writes as a locale: the version counts the successful
    writes, and of all writers that read one version at most one succeeds. Interpreted on cursors (\<open>cc\<close>),
    Artifact heads (\<open>ac\<close>), Memory commits (\<open>mc\<close>), flush windows (\<open>fw\<close>), review decisions (\<open>rd\<close>) and Scope updates (\<open>su\<close>).
  \<^item> \<open>Artifact_Store\<close> (\<open>internal/sqlstore/artifacts.go\<close>, \<open>artifact_codec.go\<close>): Create, Revise, Get, Latest,
    Revisions over explicit tables with their keys.
  \<^item> \<open>Memory_Model\<close>, \<open>Memory_Plan\<close> (\<open>artifact/memory/model.go\<close>, \<open>canonical.go\<close>, \<open>service*.go\<close>): manifests, entry
    versions, planning and committing. \<open>Memory_Remember\<close>, \<open>Memory_Organize\<close>: what a plan and a state change
    do, exactly. \<open>Memory_History\<close>: the locale \<open>memory_store\<close> of the backend's promises; every revision ever
    committed stays readable. \<open>Memory_Repository\<close> (\<open>internal/sqlstore/memory.go\<close>, \<open>memory_entries.go\<close>) provides
    it (\<open>ms\<close>), the database of the application as well (\<open>dm\<close>). \<open>Memory_Properties\<close> states the results.
  \<^item> \<open>Memory_Application\<close>, \<open>Memory_Commands\<close> (\<open>internal/runtime/memory_application.go\<close>, \<open>memory_commands.go\<close>,
    \<open>memory_queries.go\<close>, \<open>internal/sqlstore/memory_flush.go\<close>): the commands of a Scope and the two transactions
    of a flush; stable citations, stale commands, and the windows on which a flush can never succeed.
  \<^item> \<open>Search_Ranking\<close> (\<open>artifact/memory/search.go\<close>, \<open>reranking.go\<close>), \<open>Memory_Search\<close> and \<open>Search_Properties\<close>
    (\<open>service_search.go\<close>, \<open>memory_index.go\<close>): rank fusion, reranking, and a search of several transactions
    while other commands commit.
  \<^item> \<open>Review_Model\<close>, \<open>Review_Store\<close> (\<open>internal/review\<close>, \<open>candidates.go\<close>, \<open>review.go\<close>), with \<open>Review_Properties\<close>,
    \<open>Review_Guarantees\<close> and \<open>Review_Pages\<close>: proposing, revising, deciding and listing Candidates.
  \<^item> \<open>Context_Pack\<close>, \<open>Context_Budget\<close> (\<open>internal/contextpack\<close>, \<open>artifact/experience/model.go\<close>): selection,
    rendering at byte level, the binary search of the longest entry that fits, the frame no entry can forge.
  \<^item> \<open>Scope_Model\<close>, \<open>Scope_Store\<close>, \<open>Scope_Application\<close> (\<open>internal/scope/models.go\<close>, \<open>internal/sqlstore/scopes.go\<close>,
    \<open>runtime_scopes.go\<close>, \<open>internal/runtime/scope_application.go\<close>): Scope values, tables and commands.
    \<open>Scope_Hierarchy\<close>, \<open>Scope_Writes\<close>, \<open>Scope_Selection\<close>, \<open>Scope_Guarantees\<close>, \<open>Scope_Operations\<close>: the hierarchy stays a forest
    under all commands, what each command, the resolution and the selection of Scopes do, exactly.
    \<open>Sql_Dialect\<close> (\<open>internal/sqlstore/database.go\<close>) is the one difference of the two databases the results depend on.
  \<^item> \<open>Remote_Ingestion\<close> (\<open>remote_ingestion.go\<close> of \<open>internal/runtime\<close> and \<open>internal/sqlstore\<close>), \<open>Connector_Model\<close>
    (\<open>source/connector.go\<close>, \<open>connector_lifecycle.go\<close>) and \<open>Connector_Checkpoints\<close> (\<open>connector_checkpoints.go\<close>,
    \<open>runtime_connector_checkpoints.go\<close>, \<open>connector_checkpoint_application.go\<close>): durable acceptance, the critical
    sections of a run session, the checkpoint store. \<open>Connector_Run\<close> (\<open>internal/runtime/connector_lifecycle.go\<close>):
    the interleaving step relation \<open>run_step\<close> of a run with its goroutines and other transactions.
    \<open>Connector_Safety\<close>, \<open>Connector_Guarantees\<close>: its invariants; a checkpoint is saved only after every submission is
    durable.
  \<^item> \<open>Memory_Example\<close>, \<open>Application_Example\<close>, \<open>Search_Example\<close>, \<open>Review_Example\<close>, \<open>Scope_Example\<close>, \<open>Connector_Example\<close>: concrete stores reached by the
    operations themselves, to which the properties are applied.

  \<^bold>\<open>State and concurrency.\<close> A table is a list of rows in a record; keys and checks of
  \<open>internal/sqlstore/schema.go\<close> are part of the inserts. A transaction is a function from tables to an error or
  a result with new tables, so a failed one leaves its caller's tables. Goroutines interleave in
  \<open>Runtime_Lifecycle\<close> and \<open>Connector_Run\<close> at the granularity of critical sections; elsewhere transactions interleave as arbitrary
  lists of writes, a search or a resolution sees at its n-th read the database \<open>clock n\<close>, and a command that reads
  in one transaction and writes in another takes both databases (\<open>seen\<close> and the current one).

  \<^bold>\<open>Parameters.\<close> Code outside the repository is an argument of the definitions that use it: Unicode NFC, case
  folding and the letter tables, RFC 8785 canonical JSON, SHA-256, the JSON Schema validator, float
  arithmetic (values are 64-bit patterns), the language and embedding models, the full-text and vector
  indexes of the databases, \<open>jsontext.Value.Canonicalize\<close> (\<open>canon\<close>) and the length of encoded values. Constructor arguments of the code are arguments of the model: codecs,
  resolvers, the identity factory (its n-th call is its value at n). What a property needs of them is a named
  hypothesis, such as \<open>nfc_closed\<close>, \<open>digest_ok\<close> and \<open>canonicalizes\<close>, and each such property is applied to a concrete instance.

  \<^bold>\<open>Bounds and fuel.\<close> Loops over data are structural or have a termination proof. Following the cursors of a
  Candidate listing takes fuel; one more round than there are rows is proved to be enough. The retries of a
  search are bounded by the code (three attempts), which fixes how many reads of the clock it makes. Draining
  a Scope is iterated over a number of windows that is proved to suffice.

  \<^bold>\<open>Not modelled.\<close> Generated OpenAPI code, HTTP and MCP transport, command line, process and operating-system
  glue, observability, and clients of model providers are I/O or third-party protocols. SQL of the search
  indexes, connections and migrations stand behind the interfaces above. Skill archives and their file
  projections work on the file system. Handoffs, reports, work continuity, incubation,
  statistics and the scheduler's job store are not part of the library.
\<close>

end
